(* ===== verification/Go_Prelude.thy ===== *)
theory Go_Prelude
  imports Main "HOL-Library.AList" "HOL-Library.Char_ord" "HOL-Library.List_Lexorder"
    "HOL-Library.Multiset"
begin

text \<open>
  What every component of the development shares: the model of the Go values the program
  is written with and the lemmas about them.

  \<^item> A Go map is an association list with distinct keys; \<open>map_of\<close> is the index
    expression, \<open>AList.update\<close> the assignment, \<open>AList.delete\<close> the builtin
    \<open>delete\<close>, and a \<open>range\<close> loop walks the list. Go leaves the order of such a loop
    open; the list is one order, and the theorems that rest on a loop over a map are stated
    over \<open>map_of\<close>, so they do not depend on it.
  \<^item> A Go string is a list of bytes; its \<open><\<close> is the lexicographic order on bytes, which
    is the order of \<open>HOL-Library.List_Lexorder\<close> over \<open>HOL-Library.Char_ord\<close>.
    Case folding and trimming act on the ASCII bytes and leave a byte of a multi-byte
    code point as it is.
  \<^item> A \<open>time.Time\<close> is the number of nanoseconds since the zero time, which is 0.
  \<^item> \<open>sort.Strings\<close> is \<open>sort\<close>; a stable sort by a comparison function is
    \<open>sort_by\<close>, an insertion sort, whose result is characterised in the locale
    \<open>cmp_order\<close>.
\<close>

named_theorems gomap_simps "lookups after an update or a deletion of a Go map"

section \<open>Go maps\<close>

type_synonym ('k, 'v) gomap = "('k \<times> 'v) list"

type_synonym 'k goset = "('k, bool) gomap"

text \<open>A \<open>map[K]bool\<close> read as a set: a missing key reads as false.\<close>

definition held :: "'k goset \<Rightarrow> 'k \<Rightarrow> bool" where
  "held m k \<longleftrightarrow> map_of m k = Some True"

definition wf_map :: "('k, 'v) gomap \<Rightarrow> bool" where
  "wf_map m \<longleftrightarrow> distinct (map fst m)"

lemma wf_map_empty [simp]: "wf_map []"
  by (simp add: wf_map_def)

lemma wf_map_update [simp]: "wf_map m \<Longrightarrow> wf_map (AList.update k v m)"
  by (simp add: wf_map_def distinct_update)

lemma wf_map_delete [simp]: "wf_map m \<Longrightarrow> wf_map (AList.delete k m)"
  by (simp add: wf_map_def distinct_delete)

lemma map_of_update [simp, gomap_simps]:
  "map_of (AList.update k v m) = (map_of m)(k \<mapsto> v)"
  by (rule update_conv')

lemma map_of_delete [simp, gomap_simps]:
  "map_of (AList.delete k m) = (map_of m)(k := None)"
  by (rule delete_conv')

lemma held_Nil [simp]: "\<not> held [] k"
  by (simp add: held_def)

lemma held_update [simp, gomap_simps]:
  "held (AList.update k v m) j = (if j = k then v else held m j)"
  by (simp add: held_def)

lemma held_delete [simp, gomap_simps]:
  "held (AList.delete k m) j = (j \<noteq> k \<and> held m j)"
  by (simp add: held_def)

text \<open>Loops that set or delete one key per element.\<close>

fun add_keys :: "'k list \<Rightarrow> 'k goset \<Rightarrow> 'k goset" where
  "add_keys [] m = m"
| "add_keys (k # ks) m = add_keys ks (AList.update k True m)"

fun del_keys :: "'k list \<Rightarrow> ('k, 'v) gomap \<Rightarrow> ('k, 'v) gomap" where
  "del_keys [] m = m"
| "del_keys (k # ks) m = del_keys ks (AList.delete k m)"

lemma held_add_keys [simp, gomap_simps]:
  "held (add_keys ks m) j \<longleftrightarrow> j \<in> set ks \<or> held m j"
  by (induction ks arbitrary: m) auto

lemma held_del_keys [simp, gomap_simps]:
  "held (del_keys ks m) j \<longleftrightarrow> j \<notin> set ks \<and> held m j"
  by (induction ks arbitrary: m) auto

lemma wf_map_add_keys [simp]: "wf_map m \<Longrightarrow> wf_map (add_keys ks m)"
  by (induction ks arbitrary: m) auto

lemma wf_map_del_keys [simp]: "wf_map m \<Longrightarrow> wf_map (del_keys ks m)"
  by (induction ks arbitrary: m) auto

lemma wf_map_tl: "wf_map (kv # m) \<Longrightarrow> wf_map m"
  by (simp add: wf_map_def)

text \<open>The keys a loop over a boolean map selects.\<close>

definition held_keys :: "'k goset \<Rightarrow> 'k list" where
  "held_keys m = map fst (filter (\<lambda>kv. held m (fst kv)) m)"

lemma set_held_keys: "set (held_keys m) = {k. held m k}"
proof -
  have "k \<in> fst ` set m" if "held m k" for k
    using that by (force simp: held_def dest: map_of_SomeD)
  then show ?thesis
    by (force simp: held_keys_def)
qed

lemma distinct_held_keys: "wf_map m \<Longrightarrow> distinct (held_keys m)"
  by (simp add: held_keys_def wf_map_def distinct_map_filter)

section \<open>Strings\<close>

definition to_lower_char :: "char \<Rightarrow> char" where
  "to_lower_char c =
     (let n = of_char c :: nat in if 65 \<le> n \<and> n \<le> 90 then char_of (n + 32) else c)"

definition to_upper_char :: "char \<Rightarrow> char" where
  "to_upper_char c =
     (let n = of_char c :: nat in if 97 \<le> n \<and> n \<le> 122 then char_of (n - 32) else c)"

definition to_lower :: "string \<Rightarrow> string" where
  "to_lower s = map to_lower_char s"

definition to_upper :: "string \<Rightarrow> string" where
  "to_upper s = map to_upper_char s"

definition is_space :: "char \<Rightarrow> bool" where
  "is_space c = (let n = of_char c :: nat in (9 \<le> n \<and> n \<le> 13) \<or> n = 32)"

definition trim_space :: "string \<Rightarrow> string" where
  "trim_space s = rev (dropWhile is_space (rev (dropWhile is_space s)))"

fun join_with :: "string \<Rightarrow> string list \<Rightarrow> string" where
  "join_with sep [] = []"
| "join_with sep [x] = x"
| "join_with sep (x # y # xs) = x @ sep @ join_with sep (y # xs)"

definition has_prefix :: "string \<Rightarrow> string \<Rightarrow> bool" where
  "has_prefix s p \<longleftrightarrow> take (length p) s = p"

text \<open>\<open>strings.Compare\<close>.\<close>

definition str_cmp :: "string \<Rightarrow> string \<Rightarrow> int" where
  "str_cmp a b = (if a = b then 0 else if a < b then -1 else 1)"

lemma last_dropWhile_rev:
  "dropWhile P (rev (dropWhile P (rev (dropWhile P s)))) = rev (dropWhile P (rev (dropWhile P s)))"
proof (cases "rev (dropWhile P (rev (dropWhile P s)))")
  case (Cons x xs)
  let ?d = "dropWhile P s"
  have "rev (takeWhile P (rev ?d) @ dropWhile P (rev ?d)) = ?d" by simp
  then have "rev (dropWhile P (rev ?d)) @ rev (takeWhile P (rev ?d)) = ?d" by (metis rev_append)
  with Cons obtain ys where "?d = x # ys" by (metis append_Cons)
  then have "\<not> P x" by (metis dropWhile_eq_Cons_conv)
  with Cons show ?thesis by simp
next
  case Nil
  then show ?thesis by (metis dropWhile.simps(1))
qed

lemma trim_space_idem [simp]: "trim_space (trim_space s) = trim_space s"
proof -
  let ?d = "rev (dropWhile is_space (rev (dropWhile is_space s)))"
  have "dropWhile is_space ?d = ?d" by (rule last_dropWhile_rev)
  then show ?thesis
    by (simp add: trim_space_def dropWhile_idem)
qed

lemma trim_space_Nil [simp]: "trim_space [] = []"
  by (simp add: trim_space_def)

lemma has_prefix_append: "has_prefix s p \<longleftrightarrow> (\<exists>t. s = p @ t)"
  by (metis append_eq_conv_conj append_take_drop_id has_prefix_def)

section \<open>Decimal numbers\<close>

definition digit_char :: "nat \<Rightarrow> char" where
  "digit_char n = char_of (48 + n)"

function itoa :: "nat \<Rightarrow> string" where
  "itoa n = (if n < 10 then [digit_char n] else itoa (n div 10) @ [digit_char (n mod 10)])"
  by pat_completeness auto
termination
  by (relation "measure id") auto

declare itoa.simps [simp del]

text \<open>Reading a run of digits back, as the length prefix of an encoded field is read.\<close>

definition is_digit :: "char \<Rightarrow> bool" where
  "is_digit c = (let n = of_char c :: nat in 48 \<le> n \<and> n \<le> 57)"

definition digit_val :: "char \<Rightarrow> nat" where
  "digit_val c = of_char c - 48"

definition atoi :: "string \<Rightarrow> nat" where
  "atoi s = foldl (\<lambda>a c. 10 * a + digit_val c) 0 s"

lemma of_char_digit_char: "n < 10 \<Longrightarrow> (of_char (digit_char n) :: nat) = 48 + n"
  by (simp add: digit_char_def)

lemma digit_char_facts [simp]:
  "n < 10 \<Longrightarrow> is_digit (digit_char n)" "n < 10 \<Longrightarrow> digit_val (digit_char n) = n"
  by (simp_all add: is_digit_def digit_val_def of_char_digit_char)

lemma itoa_digits: "list_all is_digit (itoa n)"
proof (induction n rule: itoa.induct)
  case (1 n)
  then show ?case by (subst itoa.simps) simp
qed

lemma itoa_nonempty [simp]: "itoa n \<noteq> []"
  by (subst itoa.simps) simp

lemma atoi_itoa [simp]: "atoi (itoa n) = n"
proof (induction n rule: itoa.induct)
  case (1 n)
  show ?case
  proof (cases "n < 10")
    case True
    then show ?thesis by (subst itoa.simps) (simp add: atoi_def)
  next
    case False
    with 1 have "atoi (itoa (n div 10)) = n div 10" by simp
    with False show ?thesis by (subst itoa.simps) (simp add: atoi_def)
  qed
qed

lemma itoa_inj [simp]: "itoa m = itoa n \<longleftrightarrow> m = n"
  by (metis atoi_itoa)

text \<open>\<open>strconv.ParseInt(s, 10, 64)\<close>: an optional sign, digits, and the range of the type.\<close>

definition ParseInt :: "string \<Rightarrow> int option" where
  "ParseInt s =
     (let (neg, ds) = (case s of c # r \<Rightarrow> if c = CHR ''-'' then (True, r) else if c = CHR ''+'' then (False, r) else (False, s) | [] \<Rightarrow> (False, []));
          n = (if neg then - int (atoi ds) else int (atoi ds))
      in if ds = [] \<or> \<not> list_all is_digit ds \<or> n < - (2 ^ 63) \<or> n \<ge> 2 ^ 63 then None else Some n)"

text \<open>\<open>%q\<close> of a text that needs no escape.\<close>

definition quoted :: "string \<Rightarrow> string" where
  "quoted s = CHR 34 # s @ [CHR 34]"

text \<open>The pieces between the separators; \<open>n\<close> separators make \<open>n + 1\<close> pieces.\<close>

fun split_on :: "char \<Rightarrow> string \<Rightarrow> string list" where
  "split_on sep [] = [[]]"
| "split_on sep (c # s) =
     (if c = sep then [] # split_on sep s
      else case split_on sep s of w # ws \<Rightarrow> (c # w) # ws | [] \<Rightarrow> [[c]])"

lemma split_on_free: "sep \<notin> set w \<Longrightarrow> split_on sep w = [w]"
  by (induction w) auto

lemma split_on_cons: "sep \<notin> set w \<Longrightarrow> split_on sep (w @ sep # s) = w # split_on sep s"
  by (induction w) auto

lemma dropWhile_free: "list_all (\<lambda>c. \<not> P c) s \<Longrightarrow> dropWhile P s = s"
  by (cases s) auto

lemma trim_space_free: "list_all (\<lambda>c. \<not> is_space c) s \<Longrightarrow> trim_space s = s"
  by (simp add: trim_space_def dropWhile_free)

section \<open>Time\<close>

type_synonym time = int

definition zero_time :: time where
  "zero_time = 0"

section \<open>Stable sorting by a comparison\<close>

text \<open>
  \<open>sort_by cmp xs\<close> is the result of a stable sort by a three-way comparison: an
  element moves left past the elements it is strictly below and no others.
\<close>

fun insort_by :: "('a \<Rightarrow> 'a \<Rightarrow> int) \<Rightarrow> 'a \<Rightarrow> 'a list \<Rightarrow> 'a list" where
  "insort_by cmp x [] = [x]"
| "insort_by cmp x (y # ys) = (if cmp y x < 0 then y # insort_by cmp x ys else x # y # ys)"

fun sort_by :: "('a \<Rightarrow> 'a \<Rightarrow> int) \<Rightarrow> 'a list \<Rightarrow> 'a list" where
  "sort_by cmp [] = []"
| "sort_by cmp (x # xs) = insort_by cmp x (sort_by cmp xs)"

lemma mset_insort_by [simp]: "mset (insort_by cmp x xs) = add_mset x (mset xs)"
  by (induction xs) auto

lemma mset_sort_by [simp]: "mset (sort_by cmp xs) = mset xs"
  by (induction xs) auto

lemma set_sort_by [simp]: "set (sort_by cmp xs) = set xs"
  by (metis mset_sort_by set_mset_mset)

lemma length_sort_by [simp]: "length (sort_by cmp xs) = length xs"
  by (metis mset_sort_by size_mset)

lemma distinct_sort_by [simp]: "distinct (sort_by cmp xs) \<longleftrightarrow> distinct xs"
  by (metis mset_sort_by mset_eq_imp_distinct_iff)

text \<open>The laws a comparison passed to a sort has to satisfy: a total preorder.\<close>

locale cmp_order =
  fixes cmp :: "'a \<Rightarrow> 'a \<Rightarrow> int"
  assumes cmp_sym: "cmp a b < 0 \<longleftrightarrow> 0 < cmp b a"
    and cmp_trans: "cmp a b \<le> 0 \<Longrightarrow> cmp b c \<le> 0 \<Longrightarrow> cmp a c \<le> 0"
begin

lemma cmp_total: "cmp a b \<le> 0 \<or> cmp b a \<le> 0"
  using cmp_sym [of a b] cmp_sym [of b a] by linarith

lemma cmp_refl: "cmp a a \<le> 0"
  using cmp_total [of a a] by simp

lemma cmp_zero_sym: "cmp a b = 0 \<longleftrightarrow> cmp b a = 0"
  using cmp_sym [of a b] cmp_sym [of b a] by linarith

lemma cmp_zero_less: "cmp a b = 0 \<Longrightarrow> cmp c a < 0 \<longleftrightarrow> cmp c b < 0"
proof -
  assume z: "cmp a b = 0"
  then have z': "cmp b a = 0" by (simp add: cmp_zero_sym)
  have "cmp a c \<le> 0 \<longleftrightarrow> cmp b c \<le> 0"
    using cmp_trans [of b a c] cmp_trans [of a b c] z z' by auto
  then show ?thesis
    using cmp_sym [of c a] cmp_sym [of c b] by linarith
qed

lemma sorted_insort_by:
  "sorted_wrt (\<lambda>a b. cmp a b \<le> 0) xs \<Longrightarrow> sorted_wrt (\<lambda>a b. cmp a b \<le> 0) (insort_by cmp x xs)"
proof (induction xs)
  case (Cons y ys)
  show ?case
  proof (cases "cmp y x < 0")
    case True
    have "set (insort_by cmp x ys) = insert x (set ys)"
      by (metis mset_insort_by set_mset_add_mset_insert set_mset_mset)
    with True Cons show ?thesis by auto
  next
    case False
    then have "cmp x y \<le> 0" using cmp_sym [of y x] by linarith
    with False Cons.prems show ?thesis
      by (auto intro: cmp_trans)
  qed
qed simp

lemma sorted_sort_by: "sorted_wrt (\<lambda>a b. cmp a b \<le> 0) (sort_by cmp xs)"
  by (induction xs) (auto intro: sorted_insort_by)

lemma filter_insort_by:
  "filter (\<lambda>y. cmp y z = 0) (insort_by cmp x xs) =
     (if cmp x z = 0 then x # filter (\<lambda>y. cmp y z = 0) xs else filter (\<lambda>y. cmp y z = 0) xs)"
proof (induction xs)
  case (Cons y ys)
  show ?case
  proof (cases "cmp y x < 0 \<and> cmp x z = 0")
    case True
    then have "cmp y z \<noteq> 0" using cmp_zero_less [of x z y] by auto
    with True Cons.IH show ?thesis by simp
  next
    case False
    with Cons.IH show ?thesis by auto
  qed
qed simp

text \<open>Stability: elements that compare equal keep the order they came in.\<close>

lemma stable_sort_by:
  "filter (\<lambda>y. cmp y z = 0) (sort_by cmp xs) = filter (\<lambda>y. cmp y z = 0) xs"
  by (induction xs) (auto simp: filter_insort_by)

end

interpretation str_order: cmp_order str_cmp
  by unfold_locales (auto simp: str_cmp_def split: if_splits)

end
