(* ===== verification/Access.thy ===== *)
theory Access
  imports Go_Prelude
begin

text \<open>
  \<^verbatim>\<open>backend/internal/access\<close>: the mapping-rule closure with end dates
  (\<^verbatim>\<open>closure.go\<close>), which rules fire, and who counts as having left
  (\<^verbatim>\<open>people.go\<close>).

  \<open>Ends\<close> is proved to compute, for every role, the latest end of the base roles a
  chain of rules leads from to it, in the at most \<open>length rules\<close> passes the code
  makes; \<open>Closure\<close> is then reachability along the rules, and \<open>Fired\<close> is exactly
  the rules that account for the derived roles.
\<close>

section \<open>Roles and rules\<close>

text \<open>
  One (project, role) pair. The code has this struct three times (\<open>access.Role\<close>,
  \<open>services.roleKey\<close>, \<open>db.RoleRef\<close>), always with these two fields.
\<close>

datatype role_key = RoleKey (ProjectID: string) (RoleOf: string)

definition NewRole :: "string \<Rightarrow> string \<Rightarrow> role_key" where
  "NewRole projectID roleKey = RoleKey projectID roleKey"

record mapping_rule =
  rule_ID :: string
  SourceProject :: string
  SourceRole :: string
  TargetProject :: string
  TargetRole :: string

section \<open>The fixpoint\<close>

definition Later :: "time \<Rightarrow> time \<Rightarrow> time" where
  "Later a b =
     (if a = zero_time \<or> b = zero_time then zero_time
      else if b > a then b
      else a)"

text \<open>One rule of the inner loop: the new map, and whether the rule changed it.\<close>

definition ends_rule ::
  "(string \<Rightarrow> string \<Rightarrow> 'k) \<Rightarrow> mapping_rule \<Rightarrow> ('k, time) gomap \<Rightarrow> ('k, time) gomap \<times> bool"
where
  "ends_rule key r out =
     (case map_of out (key (SourceProject r) (SourceRole r)) of
        None \<Rightarrow> (out, False)
      | Some src \<Rightarrow>
          (let t = key (TargetProject r) (TargetRole r) in
           case map_of out t of
             None \<Rightarrow> (AList.update t src out, True)
           | Some cur \<Rightarrow>
               (let next = Later cur src in
                if next \<noteq> cur then (AList.update t next out, True) else (out, False))))"

fun ends_pass ::
  "(string \<Rightarrow> string \<Rightarrow> 'k) \<Rightarrow> mapping_rule list \<Rightarrow> ('k, time) gomap \<Rightarrow> bool \<Rightarrow> ('k, time) gomap \<times> bool"
where
  "ends_pass key [] out changed = (out, changed)"
| "ends_pass key (r # rs) out changed =
     (case ends_rule key r out of (out', c) \<Rightarrow> ends_pass key rs out' (changed \<or> c))"

fun ends_loop ::
  "(string \<Rightarrow> string \<Rightarrow> 'k) \<Rightarrow> mapping_rule list \<Rightarrow> nat \<Rightarrow> ('k, time) gomap \<Rightarrow> ('k, time) gomap"
where
  "ends_loop key rules 0 out = out"
| "ends_loop key rules (Suc n) out =
     (case ends_pass key rules out False of
        (out', changed) \<Rightarrow> if \<not> changed then out' else ends_loop key rules n out')"

definition Ends ::
  "('k, time) gomap \<Rightarrow> mapping_rule list \<Rightarrow> (string \<Rightarrow> string \<Rightarrow> 'k) \<Rightarrow> ('k, time) gomap"
where
  "Ends base rules key = ends_loop key rules (length rules) base"

definition Closure ::
  "'k goset \<Rightarrow> mapping_rule list \<Rightarrow> (string \<Rightarrow> string \<Rightarrow> 'k) \<Rightarrow> 'k goset"
where
  "Closure base rules key =
     map (\<lambda>kv. (fst kv, True))
       (Ends (map (\<lambda>k. (k, zero_time)) (held_keys base)) rules key)"

fun Fired ::
  "'k goset \<Rightarrow> mapping_rule list \<Rightarrow> (string \<Rightarrow> string \<Rightarrow> 'k) \<Rightarrow> mapping_rule list"
where
  "Fired closure [] key = []"
| "Fired closure (r # rs) key =
     (if held closure (key (SourceProject r) (SourceRole r)) then r # Fired closure rs key
      else Fired closure rs key)"

section \<open>Who has left\<close>

definition Left :: "string \<Rightarrow> bool" where
  "Left status =
     (to_lower (trim_space status) \<in>
        {''inactive'', ''locked'', ''deleted'', ''departed'', ''alumni'', ''deactivated''})"

section \<open>The order of ends\<close>

text \<open>\<open>Later\<close> is a join: it is what makes the result independent of the order of the rules.\<close>

interpretation later: semilattice Later
  by unfold_locales (auto simp: Later_def zero_time_def)

definition end_le :: "time \<Rightarrow> time \<Rightarrow> bool" where
  "end_le a b \<longleftrightarrow> Later a b = b"

lemma end_le_refl [simp]: "end_le a a"
  by (simp add: end_le_def)

lemma end_le_trans: "end_le a b \<Longrightarrow> end_le b c \<Longrightarrow> end_le a c"
  unfolding end_le_def by (metis later.assoc)

lemma end_le_antisym: "end_le a b \<Longrightarrow> end_le b a \<Longrightarrow> a = b"
  unfolding end_le_def by (metis later.commute)

lemma end_le_Later [simp]: "end_le a (Later a b)" "end_le b (Later a b)"
  unfolding end_le_def by (simp_all add: later.commute later.left_commute)

lemma Later_or: "Later a b = a \<or> Later a b = b"
  by (auto simp: Later_def)

lemma end_le_iff: "end_le a b \<longleftrightarrow> b = zero_time \<or> (a \<noteq> zero_time \<and> a \<le> b)"
  by (auto simp: end_le_def Later_def zero_time_def)

section \<open>Reachability along the rules\<close>

definition src_of :: "(string \<Rightarrow> string \<Rightarrow> 'k) \<Rightarrow> mapping_rule \<Rightarrow> 'k" where
  "src_of key r = key (SourceProject r) (SourceRole r)"

definition tgt_of :: "(string \<Rightarrow> string \<Rightarrow> 'k) \<Rightarrow> mapping_rule \<Rightarrow> 'k" where
  "tgt_of key r = key (TargetProject r) (TargetRole r)"

definition rule_edges :: "(string \<Rightarrow> string \<Rightarrow> 'k) \<Rightarrow> mapping_rule list \<Rightarrow> ('k \<times> 'k) set" where
  "rule_edges key rules = (\<lambda>r. (src_of key r, tgt_of key r)) ` set rules"

text \<open>One pass carries every value one rule further, and never takes one back.\<close>

definition map_le_ends :: "('k, time) gomap \<Rightarrow> ('k, time) gomap \<Rightarrow> bool" where
  "map_le_ends m m' \<longleftrightarrow>
     (\<forall>k e. map_of m k = Some e \<longrightarrow> (\<exists>e'. map_of m' k = Some e' \<and> end_le e e'))"

lemma map_le_ends_refl [simp]: "map_le_ends m m"
  by (auto simp: map_le_ends_def)

lemma map_le_ends_trans: "map_le_ends a b \<Longrightarrow> map_le_ends b c \<Longrightarrow> map_le_ends a c"
  unfolding map_le_ends_def by (meson end_le_trans)

lemma ends_rule_grows: "map_le_ends out (fst (ends_rule key r out))"
  by (auto simp: ends_rule_def map_le_ends_def Let_def split: option.splits)

lemma ends_rule_carries:
  assumes "map_of out (src_of key r) = Some e"
  shows "\<exists>e'. map_of (fst (ends_rule key r out)) (tgt_of key r) = Some e' \<and> end_le e e'"
  using assms
  by (auto simp: ends_rule_def src_of_def tgt_of_def Let_def split: option.splits)
     (metis end_le_Later(2))

lemma ends_pass_grows: "map_le_ends out (fst (ends_pass key rs out c))"
proof (induction rs arbitrary: out c)
  case (Cons r rs)
  obtain out' c' where e: "ends_rule key r out = (out', c')" by fastforce
  then have "map_le_ends out out'" using ends_rule_grows [of out key r] by simp
  with Cons.IH [of out' "c \<or> c'"] e show ?case
    by (auto intro: map_le_ends_trans)
qed simp

lemma ends_pass_carries:
  assumes "r \<in> set rs" and "map_of out (src_of key r) = Some e"
  shows "\<exists>e'. map_of (fst (ends_pass key rs out c)) (tgt_of key r) = Some e' \<and> end_le e e'"
  using assms
proof (induction rs arbitrary: out c e)
  case (Cons r' rs)
  obtain out' c' where s: "ends_rule key r' out = (out', c')" by fastforce
  show ?case
  proof (cases "r = r'")
    case True
    with Cons.prems s obtain e1 where "map_of out' (tgt_of key r) = Some e1" "end_le e e1"
      using ends_rule_carries [of out key r' e] by auto
    moreover have "map_le_ends out' (fst (ends_pass key rs out' (c \<or> c')))"
      by (rule ends_pass_grows)
    ultimately show ?thesis
      using s unfolding map_le_ends_def by (auto intro: end_le_trans) (meson end_le_trans)
  next
    case False
    obtain e1 where "map_of out' (src_of key r) = Some e1" "end_le e e1"
      using ends_rule_grows [of out key r'] Cons.prems(2) s by (auto simp: map_le_ends_def)
    with False Cons.prems(1) Cons.IH [of out' e1 "c \<or> c'"] s show ?thesis
      by (auto intro: end_le_trans)
  qed
qed simp

text \<open>Every value is the end of a base role that leads there.\<close>

definition ends_sound ::
  "('k, time) gomap \<Rightarrow> ('k \<times> 'k) set \<Rightarrow> ('k, time) gomap \<Rightarrow> bool" where
  "ends_sound base E out \<longleftrightarrow>
     (\<forall>k e. map_of out k = Some e \<longrightarrow> (\<exists>b. map_of base b = Some e \<and> (b, k) \<in> E\<^sup>*))"

lemma ends_rule_sound:
  assumes "ends_sound base E out" and "(src_of key r, tgt_of key r) \<in> E"
  shows "ends_sound base E (fst (ends_rule key r out))"
proof (cases "map_of out (src_of key r)")
  case None
  with assms show ?thesis by (simp add: ends_rule_def src_of_def)
next
  case (Some e)
  then obtain b where b: "map_of base b = Some e" "(b, src_of key r) \<in> E\<^sup>*"
    using assms(1) by (auto simp: ends_sound_def)
  then have reach: "(b, tgt_of key r) \<in> E\<^sup>*"
    using assms(2) by (meson rtrancl.rtrancl_into_rtrancl)
  show ?thesis
    using assms(1) Some b(1) reach Later_or [of _ e]
    by (auto simp: ends_sound_def ends_rule_def src_of_def tgt_of_def Let_def split: option.splits)
       metis
qed

lemma ends_pass_sound:
  assumes "ends_sound base E out" and "rule_edges key rs \<subseteq> E"
  shows "ends_sound base E (fst (ends_pass key rs out c))"
  using assms
proof (induction rs arbitrary: out c)
  case (Cons r rs)
  obtain out' c' where s: "ends_rule key r out = (out', c')" by fastforce
  have "ends_sound base E out'"
    using ends_rule_sound [OF Cons.prems(1), of key r] Cons.prems(2) s
    by (simp add: rule_edges_def)
  moreover have "rule_edges key rs \<subseteq> E" using Cons.prems(2) by (simp add: rule_edges_def)
  ultimately have "ends_sound base E (fst (ends_pass key rs out' (c \<or> c')))" by (rule Cons.IH)
  with s show ?case by simp
qed simp

lemma ends_loop_sound:
  "ends_sound base (rule_edges key rules) out \<Longrightarrow>
   ends_sound base (rule_edges key rules) (ends_loop key rules n out)"
proof (induction n arbitrary: out)
  case (Suc n)
  have "ends_sound base (rule_edges key rules) (fst (ends_pass key rules out False))"
    by (rule ends_pass_sound [OF Suc.prems]) simp
  with Suc.IH show ?case by (auto split: prod.splits)
qed simp

section \<open>Enough passes\<close>

text \<open>
  A pass that changed nothing leaves the map itself, so stopping there is the same as
  making every pass.
\<close>

lemma ends_rule_unchanged: "\<not> snd (ends_rule key r out) \<Longrightarrow> fst (ends_rule key r out) = out"
  by (auto simp: ends_rule_def Let_def split: option.splits if_splits)

lemma ends_pass_unchanged:
  "\<not> snd (ends_pass key rs out c) \<Longrightarrow> fst (ends_pass key rs out c) = out \<and> \<not> c"
proof (induction rs arbitrary: out c)
  case (Cons r rs)
  obtain out' c' where s: "ends_rule key r out = (out', c')" by fastforce
  with Cons.prems have "\<not> snd (ends_pass key rs out' (c \<or> c'))" by simp
  then have "fst (ends_pass key rs out' (c \<or> c')) = out' \<and> \<not> (c \<or> c')" by (rule Cons.IH)
  with s ends_rule_unchanged [of key r out] show ?case by (cases c; cases c') simp_all
qed simp

definition full_pass ::
  "(string \<Rightarrow> string \<Rightarrow> 'k) \<Rightarrow> mapping_rule list \<Rightarrow> ('k, time) gomap \<Rightarrow> ('k, time) gomap" where
  "full_pass key rules out = fst (ends_pass key rules out False)"

lemma funpow_fixed: "f x = x \<Longrightarrow> (f ^^ n) x = x"
  by (induction n) auto

lemma ends_loop_full: "ends_loop key rules n out = (full_pass key rules ^^ n) out"
proof (induction n arbitrary: out)
  case (Suc n)
  obtain out' c where p: "ends_pass key rules out False = (out', c)" by fastforce
  then have step: "full_pass key rules out = out'" by (simp add: full_pass_def)
  show ?case
  proof (cases c)
    case True
    with p step Suc.IH show ?thesis by (simp add: funpow_swap1)
  next
    case False
    with p have "out' = out" using ends_pass_unchanged [of key rules out False] by simp
    with p False step show ?thesis by (simp add: funpow_swap1 funpow_fixed)
  qed
qed simp

lemma full_pass_grows: "map_le_ends out (full_pass key rules out)"
  unfolding full_pass_def by (rule ends_pass_grows)

lemma full_pass_carries:
  "r \<in> set rules \<Longrightarrow> map_of out (src_of key r) = Some e \<Longrightarrow>
   \<exists>e'. map_of (full_pass key rules out) (tgt_of key r) = Some e' \<and> end_le e e'"
  unfolding full_pass_def by (rule ends_pass_carries)

lemma full_passes_reach:
  assumes "(b, k) \<in> rule_edges key rules ^^ m" and "m \<le> n" and "map_of base b = Some e"
  shows "\<exists>e'. map_of ((full_pass key rules ^^ n) base) k = Some e' \<and> end_le e e'"
  using assms
proof (induction n arbitrary: m k)
  case 0
  then show ?case by auto
next
  case (Suc n)
  let ?out = "(full_pass key rules ^^ n) base"
  have next_out: "(full_pass key rules ^^ Suc n) base = full_pass key rules ?out" by simp
  show ?case
  proof (cases "m \<le> n")
    case True
    with Suc.IH Suc.prems obtain e1 where "map_of ?out k = Some e1" "end_le e e1" by blast
    with full_pass_grows [of ?out key rules] show ?thesis
      unfolding next_out map_le_ends_def by (blast intro: end_le_trans)
  next
    case False
    with Suc.prems(2) have m: "m = Suc n" by simp
    with Suc.prems(1) obtain j where j: "(b, j) \<in> rule_edges key rules ^^ n" "(j, k) \<in> rule_edges key rules"
      by (auto elim: relpow_Suc_E)
    from Suc.IH [OF j(1)] Suc.prems(3) obtain e1 where "map_of ?out j = Some e1" "end_le e e1" by blast
    moreover from j(2) obtain r where "r \<in> set rules" "src_of key r = j" "tgt_of key r = k"
      by (auto simp: rule_edges_def)
    ultimately show ?thesis
      unfolding next_out using full_pass_carries [of r rules ?out key e1]
      by (blast intro: end_le_trans)
  qed
qed

text \<open>A chain of rules need not be longer than the list of rules.\<close>

lemma reach_short:
  assumes "(b, k) \<in> (rule_edges key rules)\<^sup>*"
  shows "\<exists>m \<le> length rules. (b, k) \<in> rule_edges key rules ^^ m"
proof -
  have fin: "finite (rule_edges key rules)" by (simp add: rule_edges_def)
  have "card (rule_edges key rules) \<le> length rules"
    unfolding rule_edges_def by (meson card_image_le card_length finite_set le_trans)
  with assms rtrancl_finite_eq_relpow [OF fin] show ?thesis
    by (auto intro: le_trans)
qed

lemma Ends_complete:
  assumes "(b, k) \<in> (rule_edges key rules)\<^sup>*" and "map_of base b = Some e"
  shows "\<exists>e'. map_of (Ends base rules key) k = Some e' \<and> end_le e e'"
proof -
  from reach_short [OF assms(1)] obtain m where
    m: "m \<le> length rules" "(b, k) \<in> rule_edges key rules ^^ m" by blast
  show ?thesis
    unfolding Ends_def ends_loop_full by (rule full_passes_reach [OF m(2,1) assms(2)])
qed

lemma Ends_sound: "ends_sound base (rule_edges key rules) (Ends base rules key)"
  unfolding Ends_def by (rule ends_loop_sound) (auto simp: ends_sound_def)

text \<open>
  C1. For every role, \<open>Ends\<close> gives the date \<open>e\<close> exactly when \<open>e\<close> is the end of
  a base role some chain of rules leads from, and no base role that leads there ends
  later (the zero time, which never ends, being the latest). So a role is held while
  something that gives it is held and no longer, a role the rules do not reach is absent,
  and the at most \<open>length rules\<close> passes the loop makes are enough, cycles included.
\<close>

theorem Ends_latest_source:
  "map_of (Ends base rules key) k = Some e \<longleftrightarrow>
     (\<exists>b. map_of base b = Some e \<and> (b, k) \<in> (rule_edges key rules)\<^sup>*) \<and>
     (\<forall>b e'. map_of base b = Some e' \<and> (b, k) \<in> (rule_edges key rules)\<^sup>* \<longrightarrow> end_le e' e)"
  (is "?held \<longleftrightarrow> ?from \<and> ?latest")
proof
  assume held: ?held
  then have ?from using Ends_sound [of base key rules] by (auto simp: ends_sound_def)
  moreover have ?latest using Ends_complete held by (metis option.inject)
  ultimately show "?from \<and> ?latest" ..
next
  assume r: "?from \<and> ?latest"
  then obtain b where b: "map_of base b = Some e" "(b, k) \<in> (rule_edges key rules)\<^sup>*" by blast
  from Ends_complete [OF b(2,1)] obtain e1 where
    e1: "map_of (Ends base rules key) k = Some e1" "end_le e e1" by blast
  moreover from e1(1) have "end_le e1 e"
    using r Ends_sound [of base key rules] by (auto simp: ends_sound_def)
  ultimately show ?held using end_le_antisym [of e e1] by simp
qed

theorem Ends_latest_source_witness:
  "map_of (Ends [(RoleKey ''p'' ''a'', 5), (RoleKey ''p'' ''b'', 9)]
     [\<lparr>rule_ID = ''1'', SourceProject = ''p'', SourceRole = ''c'', TargetProject = ''q'', TargetRole = ''d''\<rparr>,
      \<lparr>rule_ID = ''2'', SourceProject = ''p'', SourceRole = ''a'', TargetProject = ''p'', TargetRole = ''c''\<rparr>,
      \<lparr>rule_ID = ''3'', SourceProject = ''p'', SourceRole = ''b'', TargetProject = ''p'', TargetRole = ''c''\<rparr>]
     NewRole) (RoleKey ''q'' ''d'') = Some 9 \<and>
   (\<exists>b. map_of [(RoleKey ''p'' ''a'', 5), (RoleKey ''p'' ''b'', 9::time)] b = Some 9 \<and>
     (b, RoleKey ''q'' ''d'') \<in> (rule_edges NewRole
     [\<lparr>rule_ID = ''1'', SourceProject = ''p'', SourceRole = ''c'', TargetProject = ''q'', TargetRole = ''d''\<rparr>,
      \<lparr>rule_ID = ''2'', SourceProject = ''p'', SourceRole = ''a'', TargetProject = ''p'', TargetRole = ''c''\<rparr>,
      \<lparr>rule_ID = ''3'', SourceProject = ''p'', SourceRole = ''b'', TargetProject = ''p'', TargetRole = ''c''\<rparr>])\<^sup>*)"
  (is "?e \<and> ?w")
proof -
  have e: ?e
    by (simp add: Ends_def ends_rule_def NewRole_def Later_def zero_time_def Let_def eval_nat_numeral)
  have ?w using Ends_latest_source [THEN iffD1, OF e] by (rule conjunct1)
  with e show ?thesis ..
qed

section \<open>The closure\<close>

lemma map_of_zero_dates:
  "map_of (map (\<lambda>k. (k, zero_time)) ks) k = (if k \<in> set ks then Some zero_time else None)"
  by (induction ks) auto

lemma held_True_map: "held (map (\<lambda>kv. (fst kv, True)) m) k \<longleftrightarrow> (\<exists>e. map_of m k = Some e)"
  by (induction m) (auto simp: held_def)

lemma Closure_iff:
  "held (Closure base rules key) k \<longleftrightarrow> (\<exists>b. held base b \<and> (b, k) \<in> (rule_edges key rules)\<^sup>*)"
proof -
  let ?dated = "map (\<lambda>k. (k, zero_time)) (held_keys base)"
  have dated: "map_of ?dated b = Some e \<longleftrightarrow> held base b \<and> e = zero_time" for b e
    by (auto simp: map_of_zero_dates set_held_keys)
  have "held (Closure base rules key) k \<longleftrightarrow> (\<exists>e. map_of (Ends ?dated rules key) k = Some e)"
    by (simp add: Closure_def held_True_map)
  also have "\<dots> \<longleftrightarrow> (\<exists>b. held base b \<and> (b, k) \<in> (rule_edges key rules)\<^sup>*)"
    using Ends_sound [of ?dated key rules] Ends_complete [of _ k key rules ?dated]
    unfolding ends_sound_def dated by blast
  finally show ?thesis .
qed

text \<open>
  The closure of a base set is reachability: a role is in it exactly when some role
  held in the base leads to it along the rules. Keys the base maps to false count as absent.
\<close>

theorem Closure_reachable:
  "held (Closure base rules key) k \<longleftrightarrow> (\<exists>b. held base b \<and> (b, k) \<in> (rule_edges key rules)\<^sup>*)"
  by (rule Closure_iff)

lemma Closure_base: "held base k \<Longrightarrow> held (Closure base rules key) k"
  by (auto simp: Closure_iff)

lemma Closure_mono:
  assumes "\<And>b. held base b \<Longrightarrow> held base' b" and "set rules \<subseteq> set rules'"
    and "held (Closure base rules key) k"
  shows "held (Closure base' rules' key) k"
proof -
  have "rule_edges key rules \<subseteq> rule_edges key rules'"
    using assms(2) by (auto simp: rule_edges_def)
  then have "(rule_edges key rules)\<^sup>* \<subseteq> (rule_edges key rules')\<^sup>*" by (rule rtrancl_mono)
  with assms show ?thesis unfolding Closure_iff by blast
qed

lemma Closure_cong:
  "(\<And>b. held base b = held base' b) \<Longrightarrow> set rules = set rules' \<Longrightarrow>
   held (Closure base rules key) k = held (Closure base' rules' key) k"
  by (simp add: Closure_iff rule_edges_def)

lemma ends_rule_wf: "wf_map out \<Longrightarrow> wf_map (fst (ends_rule key r out))"
  by (auto simp: ends_rule_def Let_def split: option.splits)

lemma ends_pass_wf: "wf_map out \<Longrightarrow> wf_map (fst (ends_pass key rs out c))"
proof (induction rs arbitrary: out c)
  case (Cons r rs)
  with ends_rule_wf [of out key r] show ?case by (cases "ends_rule key r out") simp
qed simp

lemma ends_loop_wf: "wf_map out \<Longrightarrow> wf_map (ends_loop key rules n out)"
proof (induction n arbitrary: out)
  case (Suc n)
  with ends_pass_wf [of out key rules False] show ?case
    by (cases "ends_pass key rules out False") simp
qed simp

lemma Closure_wf: "wf_map base \<Longrightarrow> wf_map (Closure base rules key)"
proof -
  assume "wf_map base"
  then have "wf_map (map (\<lambda>k. (k, zero_time)) (held_keys base))"
    using distinct_held_keys by (simp add: wf_map_def comp_def)
  then have "wf_map (Ends (map (\<lambda>k. (k, zero_time)) (held_keys base)) rules key)"
    unfolding Ends_def by (rule ends_loop_wf)
  then show ?thesis by (simp add: Closure_def wf_map_def comp_def)
qed

lemma set_Fired: "set (Fired c rules key) = {r \<in> set rules. held c (src_of key r)}"
  by (induction rules) (auto simp: src_of_def)

text \<open>
  The rules that fire account for the closure: a role is in it exactly when the base
  holds it or a fired rule gives it, so every derived role has a rule to name as its
  reason and no fired rule names a role that is not held.
\<close>

theorem Fired_accounts_for_closure:
  "held (Closure base rules key) k \<longleftrightarrow>
     held base k \<or> (\<exists>r. r \<in> set (Fired (Closure base rules key) rules key) \<and> tgt_of key r = k)"
  (is "?c \<longleftrightarrow> _ \<or> ?fired")
proof
  assume ?c
  then obtain b where b: "held base b" "(b, k) \<in> (rule_edges key rules)\<^sup>*" by (auto simp: Closure_iff)
  from b(2) show "held base k \<or> ?fired"
  proof (cases rule: rtranclE)
    case (step j)
    then have "held (Closure base rules key) j" using b(1) by (auto simp: Closure_iff)
    with step(2) show ?thesis by (auto simp: set_Fired rule_edges_def)
  qed (use b in simp)
next
  assume "held base k \<or> ?fired"
  then show ?c
  proof
    assume ?fired
    then obtain r where r: "r \<in> set rules" "held (Closure base rules key) (src_of key r)" "tgt_of key r = k"
      by (auto simp: set_Fired)
    then have "(src_of key r, k) \<in> rule_edges key rules" by (auto simp: rule_edges_def)
    with r(2) show ?thesis unfolding Closure_iff by (meson rtrancl.rtrancl_into_rtrancl)
  qed (rule Closure_base)
qed

section \<open>The order of role keys\<close>

text \<open>\<open>sortRoleKeys\<close>: by project, then by role, both in byte order.\<close>

instantiation role_key :: linorder
begin

definition less_eq_role_key :: "role_key \<Rightarrow> role_key \<Rightarrow> bool" where
  "less_eq_role_key a b \<longleftrightarrow>
     (if ProjectID a \<noteq> ProjectID b then ProjectID a < ProjectID b else RoleOf a \<le> RoleOf b)"

definition less_role_key :: "role_key \<Rightarrow> role_key \<Rightarrow> bool" where
  "less_role_key a b \<longleftrightarrow>
     (if ProjectID a \<noteq> ProjectID b then ProjectID a < ProjectID b else RoleOf a < RoleOf b)"

instance
proof
  fix x y z :: role_key
  show "(x < y) = (x \<le> y \<and> \<not> y \<le> x)"
    by (auto simp: less_eq_role_key_def less_role_key_def)
  show "x \<le> x" by (simp add: less_eq_role_key_def)
  show "x \<le> y \<Longrightarrow> y \<le> z \<Longrightarrow> x \<le> z"
    by (auto simp: less_eq_role_key_def split: if_splits)
  show "x \<le> y \<Longrightarrow> y \<le> x \<Longrightarrow> x = y"
    by (auto simp: less_eq_role_key_def role_key.expand split: if_splits)
  show "x \<le> y \<or> y \<le> x"
    by (auto simp: less_eq_role_key_def)
qed

end

end
