(* ===== verification/Outbox.thy ===== *)
theory Outbox
  imports Access
begin

text \<open>
  The propagation outbox of \<^verbatim>\<open>backend/internal/db\<close>: what a write is
  (\<^verbatim>\<open>propagation_enqueue.go\<close>), which queued change it cancels and whether it is
  still owed after that (\<^verbatim>\<open>withdraw.go\<close>), the gate that refuses a cancellation the
  operator has not seen (\<^verbatim>\<open>cancel_gate.go\<close>), the requests a grant closes
  (\<^verbatim>\<open>access_requests.go\<close>), and the one insert every cascade goes through.

  The tables are lists of rows and a statement is a function of them; a transaction that
  returns an error is rolled back, so an error carries only the request's gate, which
  lives in memory. Identifiers the database or the random source hands out are functions of
  the sequence number, given as parameters.
\<close>

section \<open>Data\<close>

text \<open>\<open>op_type\<close>. \<open>OtherOp\<close> is any string the switches of the code fall through on.\<close>

datatype op_type = Add | Revoke | Replace | Apply | OtherOp string

datatype row_status = Pending | InFlight | Applied | Failed | Superseded | Abandoned

datatype end_rule = EndKept | EndSet

record enqueue_params =
  p_UserID :: string
  p_ProjectID :: string
  p_RoleKeys :: "string list"
  p_GrantedBy :: string
  p_Reason :: string
  p_ExpiresAt :: "time option"
  p_Source :: string
  p_SourceRef :: string
  p_OpType :: op_type
  p_ZitadelGrantID :: string
  p_PayloadJSON :: string
  p_NoPropagation :: bool
  p_EndRule :: end_rule
  p_WaitReason :: string

text \<open>The zero value of the struct, which a composite literal starts from.\<close>

definition zero_params :: enqueue_params where
  "zero_params =
     \<lparr>p_UserID = [], p_ProjectID = [], p_RoleKeys = [], p_GrantedBy = [], p_Reason = [],
      p_ExpiresAt = None, p_Source = [], p_SourceRef = [], p_OpType = OtherOp [],
      p_ZitadelGrantID = [], p_PayloadJSON = [], p_NoPropagation = False, p_EndRule = EndKept,
      p_WaitReason = []\<rparr>"

record queued_change =
  q_ID :: string
  q_OpType :: op_type
  q_UserID :: string
  q_ProjectID :: string
  q_RoleKeys :: "string list"
  q_Source :: string
  q_SourceRef :: string
  q_InitiatedBy :: string
  q_Reason :: string
  q_QueuedAt :: time

text \<open>A row of \<open>propagation_outbox\<close>. A column read through \<open>COALESCE(c, '')\<close> is a string.\<close>

record outbox_row =
  r_ID :: string
  r_target :: string
  r_op :: op_type
  r_user :: string
  r_project :: "string option"
  r_roles :: "string list"
  r_grant_id :: string
  r_source :: string
  r_source_ref :: string
  r_cascade :: "string option"
  r_key :: string
  r_initiated_by :: string
  r_reason :: string
  r_wait_reason :: string
  r_created_at :: time
  r_seq :: nat
  r_status :: row_status
  r_attempts :: nat
  r_last_error :: string
  r_not_before :: "time option"
  r_started_at :: "time option"
  r_completed_at :: "time option"
  r_confirmed_at :: "time option"
  r_withdraws_only :: bool

section \<open>Which queued change a write answers\<close>

definition outboxSource :: "enqueue_params \<Rightarrow> string" where
  "outboxSource p = (if p_Source p = '''' then ''direct'' else p_Source p)"

definition answersAny :: "enqueue_params \<Rightarrow> bool" where
  "answersAny p \<longleftrightarrow> length (p_RoleKeys p) = 1 \<and> (p_OpType p = Add \<or> p_OpType p = Revoke)"

definition Answers :: "enqueue_params \<Rightarrow> queued_change \<Rightarrow> bool" where
  "Answers p c =
     (if \<not> answersAny p \<or> q_UserID c \<noteq> p_UserID p \<or> q_ProjectID c \<noteq> p_ProjectID p
         \<or> q_RoleKeys c \<noteq> p_RoleKeys p then False
      else if p_OpType p = Add then q_OpType c = Revoke
      else if q_OpType c \<noteq> Add \<and> q_OpType c \<noteq> Replace then False
      else (let source = outboxSource p in
            q_Source c = source \<and> (source = ''direct'' \<or> q_SourceRef c = p_SourceRef p)))"

fun AnsweredBy :: "enqueue_params \<Rightarrow> queued_change list \<Rightarrow> queued_change list" where
  "AnsweredBy p [] = []"
| "AnsweredBy p (c # cs) = (if Answers p c then c # AnsweredBy p cs else AnsweredBy p cs)"

definition OwedAfterCancel :: "enqueue_params \<Rightarrow> bool \<Rightarrow> bool" where
  "OwedAfterCancel p standing \<longleftrightarrow> standing = (p_OpType p = Revoke)"

section \<open>The cancel gate\<close>

text \<open>
  \<open>g_asks\<close> is the answer of the gate's \<open>asks\<close> callback for this request: \<open>None\<close>
  when the gate has no callback.
\<close>

record cancel_gate =
  g_acked :: "string goset"
  g_reviewed :: bool
  g_refused :: "queued_change list"
  g_asks :: "bool option"

definition GuardCancellations :: "string list \<Rightarrow> bool option \<Rightarrow> cancel_gate" where
  "GuardCancellations acked asks =
     \<lparr>g_acked = add_keys acked [], g_reviewed = False, g_refused = [], g_asks = asks\<rparr>"

definition CancellationsReviewed :: "cancel_gate option \<Rightarrow> cancel_gate option" where
  "CancellationsReviewed g = map_option (\<lambda>g. g\<lparr>g_reviewed := True\<rparr>) g"

definition CancellationsNamed :: "cancel_gate option \<Rightarrow> string list \<Rightarrow> cancel_gate option" where
  "CancellationsNamed g ids = map_option (\<lambda>g. g\<lparr>g_acked := add_keys ids (g_acked g)\<rparr>) g"

fun all_acked :: "string goset \<Rightarrow> queued_change list \<Rightarrow> bool" where
  "all_acked acked [] = True"
| "all_acked acked (c # cs) = (if \<not> held acked (q_ID c) then False else all_acked acked cs)"

definition AdmitCancellations ::
  "cancel_gate option \<Rightarrow> queued_change list \<Rightarrow> bool \<times> cancel_gate option" where
  "AdmitCancellations g changes =
     (case g of
        None \<Rightarrow> (True, None)
      | Some gt \<Rightarrow>
          if g_asks gt = Some False then (True, g)
          else if g_reviewed gt then (True, g)
          else if all_acked (g_acked gt) changes then (True, g)
          else (False, Some (gt\<lparr>g_refused := g_refused gt @ changes\<rparr>)))"

section \<open>Audit rows and the state\<close>

record cancelled_change =
  cc_Kind :: string
  cc_ProjectID :: string
  cc_RoleKey :: string
  cc_UserID :: string
  cc_InitiatedBy :: string
  cc_QueuedAt :: time
  cc_Reason :: string

record cancelled_unsent =
  cu_Cancelled :: cancelled_change
  cu_Action :: string
  cu_Via :: string

datatype audit_details = NoDetails | ReasonDetails string | CancelDetails cancelled_unsent

record audit_row =
  a_actor :: string
  a_target :: string
  a_action :: string
  a_resource :: string
  a_cascade :: "string option"
  a_details :: audit_details

record access_request =
  req_ID :: string
  req_status :: string
  req_requester :: string
  req_project :: string
  req_role :: string
  req_reviewer :: string
  req_note :: string
  req_resolved_at :: "time option"

record db_state =
  outbox :: "outbox_row list"
  audit_logs :: "audit_row list"
  access_requests :: "access_request list"
  next_seq :: nat
  gate :: "cancel_gate option"

datatype db_error = ErrWouldCancel

definition CancelledUnsentDetails :: "queued_change \<Rightarrow> enqueue_params \<Rightarrow> cancelled_unsent" where
  "CancelledUnsentDetails c p =
     (let kind = (if q_OpType c = Revoke then ''remove'' else ''give'');
          role = (case q_RoleKeys c of [] \<Rightarrow> '''' | r # _ \<Rightarrow> r);
          via = (if p_Source p = '''' then ''direct'' else p_Source p);
          action = (if p_OpType p = Revoke then ''remove''
                    else if via = ''direct'' \<and> p_SourceRef p \<noteq> '''' then ''approve''
                    else ''grant'')
      in \<lparr>cu_Cancelled = \<lparr>cc_Kind = kind, cc_ProjectID = q_ProjectID c, cc_RoleKey = role,
            cc_UserID = q_UserID c, cc_InitiatedBy = q_InitiatedBy c, cc_QueuedAt = q_QueuedAt c,
            cc_Reason = q_Reason c\<rparr>,
          cu_Action = action, cu_Via = via\<rparr>)"

section \<open>Cancelling a queued delivery\<close>

definition withdrawnReason :: string where
  "withdrawnReason = ''withdrawn before it was sent: the change that queued it was undone''"

definition givenBackReason :: string where
  "givenBackReason = ''cancelled before it was sent: the role was given back''"

definition cancelledUnsentAudit :: string where
  "cancelledUnsentAudit = ''propagation.cancelled_unsent''"

text \<open>The columns \<open>queuedChangeColumns\<close> selects, as \<open>scanQueuedChanges\<close> reads them.\<close>

definition scan_queued :: "outbox_row \<Rightarrow> queued_change" where
  "scan_queued r =
     \<lparr>q_ID = r_ID r, q_OpType = r_op r, q_UserID = r_user r,
      q_ProjectID = (case r_project r of None \<Rightarrow> '''' | Some pr \<Rightarrow> pr),
      q_RoleKeys = r_roles r, q_Source = r_source r, q_SourceRef = r_source_ref r,
      q_InitiatedBy = r_initiated_by r, q_Reason = r_reason r, q_QueuedAt = r_created_at r\<rparr>"

text \<open>\<open>candidateWhere\<close>.\<close>

definition candidateWhere :: "string \<Rightarrow> enqueue_params \<Rightarrow> outbox_row \<Rightarrow> bool" where
  "candidateWhere target p r \<longleftrightarrow>
     r_target r = target \<and> r_status r = Pending \<and> r_user r = p_UserID p \<and>
     r_project r = Some (p_ProjectID p) \<and> r_roles r = p_RoleKeys p"

definition candidates :: "string \<Rightarrow> enqueue_params \<Rightarrow> outbox_row list \<Rightarrow> queued_change list" where
  "candidates target p rows =
     map scan_queued (sort_key r_created_at (filter (candidateWhere target p) rows))"

definition WouldCancel :: "enqueue_params \<Rightarrow> outbox_row list \<Rightarrow> queued_change list" where
  "WouldCancel p rows =
     (if \<not> answersAny p then [] else AnsweredBy p (candidates ''zitadel'' p rows))"

text \<open>\<open>COALESCE(MAX(intent_seq) FILTER (WHERE ...), 0)\<close>; sequence numbers start at 1.\<close>

definition max_seq :: "(outbox_row \<Rightarrow> bool) \<Rightarrow> outbox_row list \<Rightarrow> nat" where
  "max_seq P rows = foldr (\<lambda>r m. if P r then max (r_seq r) m else m) rows 0"

definition applied_for :: "string \<Rightarrow> string \<Rightarrow> role_key \<Rightarrow> outbox_row \<Rightarrow> bool" where
  "applied_for target user ref r \<longleftrightarrow>
     r_target r = target \<and> r_user r = user \<and> r_status r = Applied \<and>
     r_project r = Some (ProjectID ref) \<and> RoleOf ref \<in> set (r_roles r)"

definition standingFor :: "outbox_row list \<Rightarrow> string \<Rightarrow> string \<Rightarrow> role_key \<Rightarrow> bool" where
  "standingFor rows target user ref \<longleftrightarrow>
     max_seq (\<lambda>r. applied_for target user ref r \<and> (r_op r = Add \<or> r_op r = Replace)) rows
     > max_seq (\<lambda>r. applied_for target user ref r \<and> r_op r = Revoke) rows"

definition supersede_rows :: "string list \<Rightarrow> string \<Rightarrow> time \<Rightarrow> outbox_row list \<Rightarrow> outbox_row list" where
  "supersede_rows ids reason now rows =
     map (\<lambda>r. if r_ID r \<in> set ids
              then r\<lparr>r_status := Superseded, r_completed_at := Some now, r_last_error := reason\<rparr>
              else r) rows"

definition cancel_audit :: "enqueue_params \<Rightarrow> queued_change \<Rightarrow> audit_row" where
  "cancel_audit p c =
     \<lparr>a_actor = (if p_GrantedBy p = '''' then ''system'' else p_GrantedBy p),
      a_target = p_UserID p, a_action = cancelledUnsentAudit, a_resource = q_ID c,
      a_cascade = None, a_details = CancelDetails (CancelledUnsentDetails c p)\<rparr>"

definition withdrawUndelivered ::
  "string \<Rightarrow> enqueue_params \<Rightarrow> time \<Rightarrow> db_state \<Rightarrow> (db_error + bool) \<times> db_state" where
  "withdrawUndelivered target p now s =
     (if \<not> answersAny p then (Inr True, s)
      else
        let reason = (if p_OpType p = Add then givenBackReason else withdrawnReason);
            answered = AnsweredBy p (candidates target p (outbox s))
        in if answered = [] then (Inr True, s)
           else (case AdmitCancellations (gate s) answered of
               (False, g) \<Rightarrow> (Inl ErrWouldCancel, s\<lparr>gate := g\<rparr>)
             | (True, g) \<Rightarrow>
                 let rows = supersede_rows (map q_ID answered) reason now (outbox s);
                     s' = s\<lparr>gate := g, outbox := rows,
                            audit_logs := audit_logs s @ map (cancel_audit p) answered\<rparr>;
                     standing = standingFor rows target (p_UserID p)
                                  (RoleKey (p_ProjectID p) (hd (p_RoleKeys p)))
                 in (Inr (OwedAfterCancel p standing), s')))"

section \<open>Closing the requests a grant answers\<close>

definition givenNote :: "string \<Rightarrow> string" where
  "givenNote source =
     (if source = '''' \<or> source = ''direct'' then ''Given directly, so there was nothing left to decide.''
      else if source = ''bundle'' then ''Given through a bundle, so there was nothing left to decide.''
      else if source = ''rule'' then ''Given by a rule, so there was nothing left to decide.''
      else ''Given another way, so there was nothing left to decide.'')"

definition request_answered :: "enqueue_params \<Rightarrow> access_request \<Rightarrow> bool" where
  "request_answered p q \<longleftrightarrow>
     req_status q = ''pending'' \<and> req_requester q = p_UserID p \<and>
     req_project q = p_ProjectID p \<and> req_role q \<in> set (p_RoleKeys p)"

definition closeGivenRequests :: "enqueue_params \<Rightarrow> time \<Rightarrow> db_state \<Rightarrow> db_state" where
  "closeGivenRequests p now s =
     (if p_OpType p = Revoke \<or> p_RoleKeys p = [] then s
      else
        let by = (if p_GrantedBy p = '''' then ''system'' else p_GrantedBy p)
        in s\<lparr>access_requests :=
               map (\<lambda>q. if request_answered p q
                        then q\<lparr>req_status := ''fulfilled'', req_reviewer := by,
                               req_note := givenNote (p_Source p), req_resolved_at := Some now\<rparr>
                        else q) (access_requests s),
             audit_logs := audit_logs s @
               map (\<lambda>q. \<lparr>a_actor = by, a_target = req_requester q,
                         a_action = ''access_request.closed_as_given'', a_resource = req_ID q,
                         a_cascade = None, a_details = NoDetails\<rparr>)
                 (filter (request_answered p) (access_requests s))\<rparr>)"

section \<open>The one outbox insert\<close>

text \<open>
  What the insert takes from outside: the ids and idempotency keys it is handed, by the
  sequence number of the row, and the grant index by person and project
  (\<open>GetGrantIndexByUserProject\<close>, \<open>None\<close> for \<open>ErrGrantIndexNotFound\<close>).
\<close>

record enqueue_env =
  new_id :: "nat \<Rightarrow> string"
  new_key :: "nat \<Rightarrow> string"
  grant_index :: "string \<Rightarrow> string \<Rightarrow> string option"

definition queued_add :: "enqueue_params \<Rightarrow> outbox_row list \<Rightarrow> string option" where
  "queued_add p rows =
     (case sort_key r_created_at (filter (\<lambda>r. r_target r = ''zitadel'' \<and> r_status r = Pending \<and>
              r_op r = Add \<and> r_user r = p_UserID p \<and> r_project r = Some (p_ProjectID p) \<and>
              r_roles r = p_RoleKeys p) rows) of
        [] \<Rightarrow> None
      | r # _ \<Rightarrow> Some (r_ID r))"

definition insert_row ::
  "enqueue_env \<Rightarrow> string \<Rightarrow> string option \<Rightarrow> string \<Rightarrow> time \<Rightarrow> enqueue_params \<Rightarrow> db_state \<Rightarrow> string \<times> db_state" where
  "insert_row env key cascade why now p s =
     (let n = next_seq s;
          row = \<lparr>r_ID = new_id env n, r_target = ''zitadel'', r_op = p_OpType p,
                 r_user = p_UserID p, r_project = Some (p_ProjectID p), r_roles = p_RoleKeys p,
                 r_grant_id = p_ZitadelGrantID p, r_source = outboxSource p,
                 r_source_ref = p_SourceRef p, r_cascade = cascade, r_key = key,
                 r_initiated_by = p_GrantedBy p, r_reason = why, r_wait_reason = p_WaitReason p,
                 r_created_at = now, r_seq = n, r_status = Pending, r_attempts = 0,
                 r_last_error = '''', r_not_before = None, r_started_at = None,
                 r_completed_at = None, r_confirmed_at = None, r_withdraws_only = False\<rparr>
      in (r_ID row, s\<lparr>outbox := outbox s @ [row], next_seq := Suc n\<rparr>))"

text \<open>The closure \<open>row\<close> of \<open>enqueueWrites\<close>; \<open>ownKey\<close> is empty for a cascade's row.\<close>

definition enqueue_row ::
  "enqueue_env \<Rightarrow> string \<Rightarrow> string \<Rightarrow> time \<Rightarrow> enqueue_params \<Rightarrow> string \<Rightarrow> db_state \<Rightarrow>
     (db_error + string) \<times> db_state" where
  "enqueue_row env cascadeID why now p ownKey s =
     (case withdrawUndelivered ''zitadel'' p now s of
        (Inl e, s1) \<Rightarrow> (Inl e, s1)
      | (Inr False, s1) \<Rightarrow> (Inr '''', s1)
      | (Inr True, s1) \<Rightarrow>
          if ownKey \<noteq> '''' then
            (case (if p_OpType p = Add then queued_add p (outbox s1) else None) of
               Some queued \<Rightarrow> (Inr queued, s1)
             | None \<Rightarrow>
                 (case insert_row env ownKey None why now p s1 of (i, s2) \<Rightarrow> (Inr i, s2)))
          else
            let p' = (if p_OpType p = Revoke \<and> p_ZitadelGrantID p = ''''
                      then (case grant_index env (p_UserID p) (p_ProjectID p) of
                              Some g \<Rightarrow> p\<lparr>p_ZitadelGrantID := g\<rparr>
                            | None \<Rightarrow> p)
                      else p)
            in (case insert_row env (new_key env (next_seq s1)) (Some cascadeID) why now p' s1 of
                  (i, s2) \<Rightarrow> (Inr i, s2)))"

fun enqueue_rows ::
  "enqueue_env \<Rightarrow> string \<Rightarrow> string \<Rightarrow> time \<Rightarrow> enqueue_params list \<Rightarrow> string list \<Rightarrow> db_state \<Rightarrow>
     (db_error + string list) \<times> db_state" where
  "enqueue_rows env cascadeID why now [] ids s = (Inr ids, s)"
| "enqueue_rows env cascadeID why now (p # ps) ids s =
     (case enqueue_row env cascadeID why now p '''' (closeGivenRequests p now s) of
        (Inl e, s1) \<Rightarrow> (Inl e, s1)
      | (Inr i, s1) \<Rightarrow>
          enqueue_rows env cascadeID why now ps (if i = '''' then ids else ids @ [i]) s1)"

record cascade_audit =
  ca_Actor :: string
  ca_Target :: string
  ca_Action :: string
  ca_ResourceID :: string
  ca_Reason :: string

definition IsCascadeGroupSource :: "string \<Rightarrow> bool" where
  "IsCascadeGroupSource source \<longleftrightarrow> source \<in> set [''bundle'', ''rule'', ''lifecycle_cascade'']"

fun cascadeGroupVisible :: "enqueue_params list \<Rightarrow> bool" where
  "cascadeGroupVisible [] = False"
| "cascadeGroupVisible (p # ps) =
     (if IsCascadeGroupSource (outboxSource p) then True else cascadeGroupVisible ps)"

fun first_reason :: "cascade_audit list \<Rightarrow> string \<Rightarrow> string" where
  "first_reason [] why = why"
| "first_reason (a # as) why = first_reason as (if why = '''' then ca_Reason a else why)"

definition cascade_audit_row :: "string option \<Rightarrow> cascade_audit \<Rightarrow> audit_row" where
  "cascade_audit_row cid a =
     \<lparr>a_actor = ca_Actor a, a_target = (if ca_Target a = '''' then ''-'' else ca_Target a),
      a_action = ca_Action a, a_resource = ca_ResourceID a, a_cascade = cid,
      a_details = (if ca_Reason a = '''' then NoDetails else ReasonDetails (ca_Reason a))\<rparr>"

text \<open>
  \<open>enqueueWrites\<close> for a cascade (\<open>key\<close> empty): the audit rows, then one outbox row per
  write that is still owed, in one transaction. A refusal rolls the tables back; the gate
  keeps what it refused.
\<close>

definition enqueueWrites ::
  "enqueue_env \<Rightarrow> string \<Rightarrow> time \<Rightarrow> cascade_audit list \<Rightarrow> enqueue_params list \<Rightarrow> db_state \<Rightarrow>
     (db_error + string list) \<times> db_state" where
  "enqueueWrites env cascadeID now audits params s =
     (let why = first_reason audits '''';
          auditCascadeID = (if cascadeGroupVisible params then Some cascadeID else None);
          s0 = s\<lparr>audit_logs := audit_logs s @ map (cascade_audit_row auditCascadeID) audits\<rparr>
      in (case enqueue_rows env cascadeID why now params [] s0 of
            (Inl e, s1) \<Rightarrow> (Inl e, s\<lparr>gate := gate s1\<rparr>)
          | (Inr ids, s1) \<Rightarrow> (Inr ids, s1)))"

section \<open>What is answered\<close>

lemma AnsweredBy_filter: "AnsweredBy p cs = filter (Answers p) cs"
  by (induction cs) auto

lemma all_acked_iff: "all_acked acked cs \<longleftrightarrow> (\<forall>c \<in> set cs. held acked (q_ID c))"
  by (induction cs) auto

lemma Answers_scan:
  "Answers p (scan_queued r) \<Longrightarrow> r_status r = Pending \<Longrightarrow> r_target r = target \<Longrightarrow>
   r_project r \<noteq> None \<Longrightarrow> candidateWhere target p r"
  by (auto simp: Answers_def candidateWhere_def scan_queued_def split: if_splits)

lemma in_candidates:
  "c \<in> set (candidates target p rows) \<longleftrightarrow>
     (\<exists>r \<in> set rows. candidateWhere target p r \<and> c = scan_queued r)"
  by (auto simp: candidates_def)

lemmas Answers_simps = Answers_def answersAny_def scan_queued_def Let_def

lemma Answers_opposite:
  "Answers p c \<Longrightarrow> (p_OpType p = Add \<and> q_OpType c = Revoke) \<or>
     (p_OpType p = Revoke \<and> (q_OpType c = Add \<or> q_OpType c = Replace))"
  by (auto simp: Answers_simps split: if_splits)

section \<open>The maximum of a sequence\<close>

lemma max_seq_Nil [simp]: "max_seq P [] = 0"
  by (simp add: max_seq_def)

lemma max_seq_Cons [simp]: "max_seq P (r # rs) = (if P r then max (r_seq r) (max_seq P rs) else max_seq P rs)"
  by (simp add: max_seq_def)

lemma max_seq_ge: "r \<in> set rs \<Longrightarrow> P r \<Longrightarrow> r_seq r \<le> max_seq P rs"
  by (induction rs) auto

lemma max_seq_le: "(\<And>r. r \<in> set rs \<Longrightarrow> P r \<Longrightarrow> r_seq r \<le> m) \<Longrightarrow> max_seq P rs \<le> m"
  by (induction rs) auto

lemma max_seq_map:
  "(\<And>r. r \<in> set rs \<Longrightarrow> P (f r) = P r \<and> r_seq (f r) = r_seq r) \<Longrightarrow> max_seq P (map f rs) = max_seq P rs"
  by (induction rs) auto

lemma max_seq_append [simp]: "max_seq P (xs @ ys) = max (max_seq P xs) (max_seq P ys)"
  by (induction xs) auto

lemma max_seq_attained: "0 < max_seq P rs \<Longrightarrow> \<exists>r \<in> set rs. P r \<and> r_seq r = max_seq P rs"
  by (induction rs) (auto simp: max_def split: if_splits)

lemma max_seq_zero: "(\<And>r. r \<in> set rs \<Longrightarrow> \<not> P r) \<Longrightarrow> max_seq P rs = 0"
  by (induction rs) auto

section \<open>Well-formed tables\<close>

text \<open>Row ids are unique, and sequence numbers are positive and below the next one.\<close>

definition wf_outbox :: "db_state \<Rightarrow> bool" where
  "wf_outbox s \<longleftrightarrow>
     distinct (map r_ID (outbox s)) \<and> 0 < next_seq s \<and>
     (\<forall>r \<in> set (outbox s). 0 < r_seq r \<and> r_seq r < next_seq s)"

definition superseded_by :: "string \<Rightarrow> time \<Rightarrow> outbox_row \<Rightarrow> outbox_row" where
  "superseded_by reason now r =
     r\<lparr>r_status := Superseded, r_completed_at := Some now, r_last_error := reason\<rparr>"

definition answered_row :: "string \<Rightarrow> enqueue_params \<Rightarrow> outbox_row \<Rightarrow> bool" where
  "answered_row target p r \<longleftrightarrow> candidateWhere target p r \<and> Answers p (scan_queued r)"

definition cancel_rows ::
  "string \<Rightarrow> enqueue_params \<Rightarrow> string \<Rightarrow> time \<Rightarrow> outbox_row list \<Rightarrow> outbox_row list" where
  "cancel_rows target p reason now rows =
     map (\<lambda>r. if answered_row target p r then superseded_by reason now r else r) rows"

lemma ids_cancel_rows [simp]: "map r_ID (cancel_rows target p reason now rows) = map r_ID rows"
  by (simp add: cancel_rows_def superseded_by_def)

lemma length_cancel_rows [simp]: "length (cancel_rows target p reason now rows) = length rows"
  by (simp add: cancel_rows_def)

lemma in_cancel_rows:
  "r' \<in> set (cancel_rows target p reason now rows) \<longleftrightarrow>
     (\<exists>r \<in> set rows. r' = (if answered_row target p r then superseded_by reason now r else r))"
  by (auto simp: cancel_rows_def)

lemma cancel_rows_id: "\<forall>r \<in> set rows. \<not> answered_row target p r \<Longrightarrow> cancel_rows target p reason now rows = rows"
  by (simp add: cancel_rows_def map_idI)

lemma seq_superseded_by [simp]: "r_seq (superseded_by reason now r) = r_seq r"
  by (simp add: superseded_by_def)

lemma answered_ids:
  "set (map q_ID (AnsweredBy p (candidates target p rows))) =
     r_ID ` {r \<in> set rows. answered_row target p r}"
  by (force simp: AnsweredBy_filter in_candidates answered_row_def scan_queued_def)

lemma supersede_answered:
  assumes "distinct (map r_ID rows)"
  shows "supersede_rows (map q_ID (AnsweredBy p (candidates target p rows))) reason now rows =
         cancel_rows target p reason now rows"
proof -
  have "r_ID r \<in> r_ID ` {r \<in> set rows. answered_row target p r} \<longleftrightarrow> answered_row target p r"
    if "r \<in> set rows" for r
    using assms that by (auto simp: distinct_map inj_on_def)
  then show ?thesis
    unfolding supersede_rows_def cancel_rows_def superseded_by_def answered_ids by (simp cong: map_cong)
qed

lemma answered_empty_iff:
  "AnsweredBy p (candidates target p rows) = [] \<longleftrightarrow> (\<forall>r \<in> set rows. \<not> answered_row target p r)"
  unfolding AnsweredBy_filter filter_empty_conv Ball_def in_candidates answered_row_def by blast

lemma withdraw_nothing:
  "\<not> answersAny p \<or> AnsweredBy p (candidates target p (outbox s)) = [] \<Longrightarrow>
   withdrawUndelivered target p now s = (Inr True, s)"
  by (cases "answersAny p") (simp_all add: withdrawUndelivered_def Let_def)

lemma withdraw_refused:
  "answersAny p \<Longrightarrow> AnsweredBy p (candidates target p (outbox s)) \<noteq> [] \<Longrightarrow>
   AdmitCancellations (gate s) (AnsweredBy p (candidates target p (outbox s))) = (False, g) \<Longrightarrow>
   withdrawUndelivered target p now s = (Inl ErrWouldCancel, s\<lparr>gate := g\<rparr>)"
  by (simp add: withdrawUndelivered_def Let_def)

lemma withdraw_admitted:
  assumes "answersAny p" and "AnsweredBy p (candidates target p (outbox s)) \<noteq> []"
    and "AdmitCancellations (gate s) (AnsweredBy p (candidates target p (outbox s))) = (True, g)"
    and "rows = supersede_rows (map q_ID (AnsweredBy p (candidates target p (outbox s))))
                  (if p_OpType p = Add then givenBackReason else withdrawnReason) now (outbox s)"
  shows "withdrawUndelivered target p now s =
           (Inr (OwedAfterCancel p (standingFor rows target (p_UserID p)
                   (RoleKey (p_ProjectID p) (hd (p_RoleKeys p))))),
            s\<lparr>gate := g, outbox := rows,
              audit_logs := audit_logs s @
                map (cancel_audit p) (AnsweredBy p (candidates target p (outbox s)))\<rparr>)"
  using assms by (simp add: withdrawUndelivered_def Let_def)

text \<open>What a withdrawal does, when it is not refused.\<close>

lemma withdraw_Inr:
  assumes "withdrawUndelivered target p now s = (Inr owed, s')" and "wf_outbox s"
  obtains reason g logs where
    "s' = s\<lparr>gate := g, audit_logs := logs,
            outbox := cancel_rows target p reason now (outbox s)\<rparr>"
    and "\<not> answersAny p \<or> (\<forall>r \<in> set (outbox s). \<not> answered_row target p r) \<Longrightarrow> owed"
    and "answersAny p \<Longrightarrow> \<exists>r \<in> set (outbox s). answered_row target p r \<Longrightarrow>
         owed = OwedAfterCancel p (standingFor (outbox s') target (p_UserID p)
                  (RoleKey (p_ProjectID p) (hd (p_RoleKeys p))))"
proof -
  let ?answered = "AnsweredBy p (candidates target p (outbox s))"
  have dist: "distinct (map r_ID (outbox s))" using assms(2) by (simp add: wf_outbox_def)
  show thesis
  proof (cases "\<not> answersAny p \<or> ?answered = []")
    case True
    then have none: "\<forall>r \<in> set (outbox s). \<not> answered_row target p r"
      by (auto simp: answered_empty_iff answered_row_def Answers_def)
    from assms(1) withdraw_nothing [OF True] have "s' = s" "owed" by simp_all
    moreover have "cancel_rows target p [] now (outbox s) = outbox s"
      using none by (rule cancel_rows_id)
    ultimately show thesis using that [of "[]" "audit_logs s" "gate s"] none by auto
  next
    case False
    then have ex: "\<exists>r \<in> set (outbox s). answered_row target p r" by (auto simp: answered_empty_iff)
    obtain b g where adm: "AdmitCancellations (gate s) ?answered = (b, g)" by fastforce
    let ?reason = "if p_OpType p = Add then givenBackReason else withdrawnReason"
    have b: "b" using assms(1) False adm withdraw_refused [of p target s g now] by (cases b) auto
    with False adm withdraw_admitted [of p target s g _ now] assms(1) have
      s': "s' = s\<lparr>gate := g, outbox := supersede_rows (map q_ID ?answered) ?reason now (outbox s),
             audit_logs := audit_logs s @ map (cancel_audit p) ?answered\<rparr>" and
      ow: "owed = OwedAfterCancel p (standingFor (outbox s') target (p_UserID p)
                  (RoleKey (p_ProjectID p) (hd (p_RoleKeys p))))"
      by simp_all
    show thesis
      by (rule that [of ?reason "audit_logs s @ map (cancel_audit p) ?answered" g])
         (use s' ow ex False in \<open>auto simp: supersede_answered [OF dist]\<close>)
  qed
qed

lemma withdraw_rows:
  assumes "withdrawUndelivered target p now s = (Inr owed, s')" and "wf_outbox s"
  shows "\<exists>reason. outbox s' = cancel_rows target p reason now (outbox s) \<and>
           next_seq s' = next_seq s \<and> access_requests s' = access_requests s \<and>
           (owed \<or> (\<exists>r \<in> set (outbox s). answered_row target p r)) \<and>
           ((\<exists>r \<in> set (outbox s). answered_row target p r) \<longrightarrow>
            owed = OwedAfterCancel p (standingFor (outbox s') target (p_UserID p)
                     (RoleKey (p_ProjectID p) (hd (p_RoleKeys p)))))"
proof -
  have "answersAny p" if "answered_row target p r" for r
    using that by (simp add: answered_row_def Answers_def split: if_splits)
  then show ?thesis by - (rule withdraw_Inr [OF assms], rule exI, auto)
qed

lemma wf_outbox_withdraw:
  assumes "withdrawUndelivered target p now s = (Inr owed, s')" and "wf_outbox s"
  shows "wf_outbox s'"
proof -
  from withdraw_Inr [OF assms] obtain reason g logs where
    "s' = s\<lparr>gate := g, audit_logs := logs,
            outbox := cancel_rows target p reason now (outbox s)\<rparr>" .
  with assms(2) show ?thesis by (auto simp: wf_outbox_def in_cancel_rows)
qed

section \<open>What a write leaves in force\<close>

definition names_role :: "string \<Rightarrow> string \<Rightarrow> role_key \<Rightarrow> outbox_row \<Rightarrow> bool" where
  "names_role target user ref r \<longleftrightarrow>
     r_target r = target \<and> r_user r = user \<and> r_project r = Some (ProjectID ref) \<and>
     RoleOf ref \<in> set (r_roles r)"

definition unresolved :: "outbox_row \<Rightarrow> bool" where
  "unresolved r \<longleftrightarrow> r_status r = Pending \<or> r_status r = InFlight"

text \<open>
  What the target holds once the queue is sent, played row by row: every applied row and then every unresolved one, in the order of their intents, does
  to the grant what its operation says. A give adds its roles, a removal takes them, a replacement leaves exactly its own.
\<close>

definition row_effect :: "string \<Rightarrow> string \<Rightarrow> role_key \<Rightarrow> outbox_row \<Rightarrow> bool \<Rightarrow> bool" where
  "row_effect target user ref r holds =
     (if r_target r = target \<and> r_user r = user \<and> r_project r = Some (ProjectID ref) then
        (case r_op r of
           Add \<Rightarrow> holds \<or> RoleOf ref \<in> set (r_roles r)
         | Revoke \<Rightarrow> holds \<and> RoleOf ref \<notin> set (r_roles r)
         | Replace \<Rightarrow> RoleOf ref \<in> set (r_roles r)
         | _ \<Rightarrow> holds)
      else holds)"

definition replayed :: "string \<Rightarrow> string \<Rightarrow> role_key \<Rightarrow> outbox_row list \<Rightarrow> bool \<Rightarrow> bool" where
  "replayed target user ref rows holds = fold (row_effect target user ref) (sort_key r_seq rows) holds"

definition net_holds :: "outbox_row list \<Rightarrow> string \<Rightarrow> string \<Rightarrow> role_key \<Rightarrow> bool" where
  "net_holds rows target user ref \<longleftrightarrow>
     replayed target user ref (filter unresolved rows) (replayed target user ref (filter (\<lambda>r. r_status r = Applied) rows) False)"

definition no_replace :: "string \<Rightarrow> string \<Rightarrow> role_key \<Rightarrow> outbox_row list \<Rightarrow> bool" where
  "no_replace target user ref rows \<longleftrightarrow>
     (\<forall>r \<in> set rows. r_target r = target \<and> r_user r = user \<and> r_project r = Some (ProjectID ref) \<and> (r_status r = Applied \<or> unresolved r) \<longrightarrow> r_op r \<noteq> Replace)"

lemma sort_key_last:
  assumes "\<And>x. x \<in> set xs \<Longrightarrow> f x \<le> f y"
  shows "sort_key f (xs @ [y]) = sort_key f xs @ [y]"
  using assms
proof (induction xs)
  case (Cons x xs)
  have "insort_key f x (ys @ [y]) = insort_key f x ys @ [y]" for ys using Cons.prems by (induction ys) simp_all
  then show ?case using Cons by simp
qed simp

lemma fold_idle: "(\<And>x. x \<in> set xs \<Longrightarrow> \<forall>a. f x a = a) \<Longrightarrow> fold f xs a = a"
  by (induction xs) auto

lemma max_seq_same:
  assumes "\<And>r. r \<in> set xs \<and> P r \<longleftrightarrow> r \<in> set ys \<and> P r"
  shows "max_seq P xs = max_seq P ys"
  by (intro antisym max_seq_le) (use assms max_seq_ge in \<open>metis (full_types)\<close>)+

lemma max_seq_below: "(\<And>r. r \<in> set rs \<Longrightarrow> r_seq r < m) \<Longrightarrow> 0 < m \<Longrightarrow> max_seq P rs < m"
  using max_seq_attained [of P rs] by (cases "max_seq P rs = 0") force+

lemma standingFor_snoc:
  assumes "\<And>r. r \<in> set rows \<Longrightarrow> r_seq r < r_seq x" "0 < r_seq x"
  shows "standingFor (rows @ [x]) target user ref \<longleftrightarrow>
    (if applied_for target user ref x \<and> (r_op x = Add \<or> r_op x = Replace) then True
     else if applied_for target user ref x \<and> r_op x = Revoke then False else standingFor rows target user ref)"
proof -
  have below: "max_seq P rows < r_seq x" for P using max_seq_below [of rows "r_seq x"] assms by blast
  have last: "max_seq P (rows @ [x]) = (if P x then r_seq x else max_seq P rows)" for P using below [of P] by simp
  show ?thesis unfolding standingFor_def last using below by (auto simp: not_less less_imp_le)
qed

text \<open>Played in order, without replacements, the last row that names the role decides: the comparison of the two largest numbers the query makes.\<close>

lemma replay_in_order:
  assumes "sorted (map r_seq rows)" "distinct (map r_seq rows)" "\<And>r. r \<in> set rows \<Longrightarrow> 0 < r_seq r \<and> r_status r = Applied"
    and "no_replace target user ref rows"
  shows "fold (row_effect target user ref) rows False \<longleftrightarrow> standingFor rows target user ref"
  using assms
proof (induction rows rule: rev_induct)
  case (snoc x rows)
  have below: "r_seq r < r_seq x" if "r \<in> set rows" for r
  proof -
    have "r_seq r \<le> r_seq x" "r_seq r \<noteq> r_seq x" using snoc.prems(1,2) that by (auto simp: sorted_append image_iff)
    then show ?thesis by simp
  qed
  have ih: "fold (row_effect target user ref) rows False \<longleftrightarrow> standingFor rows target user ref"
    by (rule snoc.IH) (use snoc.prems in \<open>auto simp: sorted_append no_replace_def\<close>)
  have "r_op x \<noteq> Replace" if "r_target x = target" "r_user x = user" "r_project x = Some (ProjectID ref)"
    using snoc.prems(3,4) that by (auto simp: no_replace_def)
  moreover have "r_status x = Applied" "0 < r_seq x" using snoc.prems(3) by auto
  ultimately have "row_effect target user ref x (standingFor rows target user ref) \<longleftrightarrow> standingFor (rows @ [x]) target user ref"
    by (cases "r_op x") (auto simp: standingFor_snoc [OF below] row_effect_def applied_for_def)
  then show ?case by (simp add: ih)
qed (simp add: standingFor_def)

lemma replay_applied:
  assumes "distinct (map r_seq rows)" "\<And>r. r \<in> set rows \<Longrightarrow> 0 < r_seq r" "no_replace target user ref rows"
  shows "replayed target user ref (filter (\<lambda>r. r_status r = Applied) rows) False \<longleftrightarrow> standingFor rows target user ref"
proof -
  let ?rows = "sort_key r_seq (filter (\<lambda>r. r_status r = Applied) rows)"
  have inj: "inj_on r_seq (set rows)" "distinct rows" using assms(1) by (auto simp: distinct_map)
  have "fold (row_effect target user ref) ?rows False \<longleftrightarrow> standingFor ?rows target user ref"
  proof (rule replay_in_order)
    show "distinct (map r_seq ?rows)" using inj by (auto simp: distinct_map inj_on_def)
  qed (use assms(2,3) in \<open>auto simp: no_replace_def\<close>)
  moreover have "max_seq (\<lambda>r. applied_for target user ref r \<and> Q r) ?rows = max_seq (\<lambda>r. applied_for target user ref r \<and> Q r) rows" for Q
    by (rule max_seq_same) (auto simp: applied_for_def)
  ultimately show ?thesis by (simp add: replayed_def standingFor_def)
qed

lemma net_holds_none:
  assumes "\<And>r. r \<in> set rows \<Longrightarrow> unresolved r \<Longrightarrow> \<not> names_role target user ref r"
    and "distinct (map r_seq rows)" "\<And>r. r \<in> set rows \<Longrightarrow> 0 < r_seq r" "no_replace target user ref rows"
  shows "net_holds rows target user ref = standingFor rows target user ref"
proof -
  have "row_effect target user ref r holds = holds" if "r \<in> set (sort_key r_seq (filter unresolved rows))" for r holds
    using that assms(1) [of r] assms(4) by (cases "r_op r") (auto simp: row_effect_def names_role_def no_replace_def)
  then have "fold (row_effect target user ref) (sort_key r_seq (filter unresolved rows)) holds = holds" for holds
    by (intro fold_idle) auto
  then show ?thesis using replay_applied [OF assms(2-4)] by (simp add: net_holds_def replayed_def)
qed

lemma net_holds_last:
  assumes "\<And>r. r \<in> set rows \<Longrightarrow> r_seq r < r_seq new" and "unresolved new" and "names_role target user ref new" and "r_op new = Add \<or> r_op new = Revoke"
  shows "net_holds (rows @ [new]) target user ref \<longleftrightarrow> r_op new = Add"
proof -
  have "sort_key r_seq (filter unresolved (rows @ [new])) = sort_key r_seq (filter unresolved rows) @ [new]"
    using sort_key_last [of "filter unresolved rows" r_seq new] assms(1,2) by (simp add: less_imp_le)
  then show ?thesis using assms(3,4) unfolding net_holds_def replayed_def by (auto simp: row_effect_def names_role_def simp del: filter_append filter.simps)
qed

text \<open>An inserted row is the last of its table and names exactly the write's role.\<close>

lemma insert_row_spec:
  assumes "insert_row env key c why now p s = (i, s')"
  obtains row where "outbox s' = outbox s @ [row]" and "r_seq row = next_seq s"
    and "r_status row = Pending" and "r_op row = p_OpType p" and "r_ID row = new_id env (next_seq s)"
    and "r_target row = ''zitadel''" and "r_user row = p_UserID p"
    and "r_project row = Some (p_ProjectID p)" and "r_roles row = p_RoleKeys p"
    and "next_seq s' = Suc (next_seq s)" and "gate s' = gate s" and "i = r_ID row"
  using assms by (fastforce simp: insert_row_def Let_def)

text \<open>The three ways a write that is not refused ends.\<close>

lemma enqueue_row_cases:
  assumes "enqueue_row env cid why now p ownKey s = (Inr i, s')"
  obtains (cancelled) "withdrawUndelivered ''zitadel'' p now s = (Inr False, s')"
  | (already) "withdrawUndelivered ''zitadel'' p now s = (Inr True, s')"
      "queued_add p (outbox s') = Some i"
  | (inserted) s1 key c p' where "withdrawUndelivered ''zitadel'' p now s = (Inr True, s1)"
      "insert_row env key c why now p' s1 = (i, s')"
      "p' = p \<or> (\<exists>g. p' = p\<lparr>p_ZitadelGrantID := g\<rparr>)"
proof -
  obtain owed s1 where w: "withdrawUndelivered ''zitadel'' p now s = (Inr owed, s1)"
    using assms by (auto simp: enqueue_row_def split: prod.splits sum.splits)
  show thesis
  proof (cases owed)
    case False
    with w assms cancelled show thesis by (simp add: enqueue_row_def)
  next
    case True
    with w assms show thesis
      by (auto simp: enqueue_row_def Let_def split: if_splits option.splits prod.splits
          intro: already inserted)
  qed
qed

lemma names_cancel_rows:
  assumes "\<And>r. r \<in> set rows \<Longrightarrow> unresolved r \<Longrightarrow> names_role target user ref r \<Longrightarrow> answered_row target p r"
    and "r' \<in> set (cancel_rows target p reason now rows)" and "unresolved r'"
  shows "\<not> names_role target user ref r'"
proof
  assume n: "names_role target user ref r'"
  from assms(2) obtain r where r: "r \<in> set rows"
    "r' = (if answered_row target p r then superseded_by reason now r else r)"
    by (auto simp: in_cancel_rows)
  show False
  proof (cases "answered_row target p r")
    case True
    with r(2) assms(3) show False by (simp add: unresolved_def superseded_by_def)
  next
    case False
    with r assms(1,3) n show False by simp
  qed
qed

lemma queued_add_SomeD:
  assumes "queued_add p rows = Some i"
  shows "\<exists>r \<in> set rows. r_status r = Pending \<and> r_target r = ''zitadel'' \<and> r_user r = p_UserID p \<and>
           r_project r = Some (p_ProjectID p) \<and> r_roles r = p_RoleKeys p"
proof -
  let ?P = "\<lambda>r. r_target r = ''zitadel'' \<and> r_status r = Pending \<and> r_op r = Add \<and>
     r_user r = p_UserID p \<and> r_project r = Some (p_ProjectID p) \<and> r_roles r = p_RoleKeys p"
  from assms obtain r rs where "sort_key r_created_at (filter ?P rows) = r # rs"
    by (auto simp: queued_add_def split: list.splits)
  then have "r \<in> set (sort_key r_created_at (filter ?P rows))" by simp
  then show ?thesis by auto
qed

lemma net_holds_insert:
  assumes "insert_row env key c why now p s = (i, s')" and "wf_outbox s"
    and "RoleOf ref \<in> set (p_RoleKeys p)" and "ProjectID ref = p_ProjectID p"
    and "p_OpType p = Add \<or> p_OpType p = Revoke"
  shows "net_holds (outbox s') ''zitadel'' (p_UserID p) ref \<longleftrightarrow> p_OpType p = Add"
proof -
  from insert_row_spec [OF assms(1)] obtain row where row: "outbox s' = outbox s @ [row]"
    "r_seq row = next_seq s" "r_status row = Pending" "r_op row = p_OpType p"
    "r_target row = ''zitadel''" "r_user row = p_UserID p"
    "r_project row = Some (p_ProjectID p)" "r_roles row = p_RoleKeys p" .
  then show ?thesis
    using net_holds_last [of "outbox s" row "''zitadel''" "p_UserID p" ref] assms(2-5)
    by (auto simp: wf_outbox_def unresolved_def names_role_def)
qed

lemma cancel_rows_seqs [simp]: "map r_seq (cancel_rows target p reason now rows) = map r_seq rows"
  by (simp add: cancel_rows_def)

lemma cancel_rows_no_replace: "no_replace t u ref rows \<Longrightarrow> no_replace t u ref (cancel_rows target p reason now rows)"
  by (auto simp: no_replace_def in_cancel_rows superseded_by_def unresolved_def split: if_splits)


text \<open>A run of the model: a removal waits to be sent and the role is given back.\<close>

definition empty_db :: "cancel_gate option \<Rightarrow> db_state" where
  "empty_db g = \<lparr>outbox = [], audit_logs = [], access_requests = [], next_seq = 1, gate = g\<rparr>"

definition demo_env :: enqueue_env where
  "demo_env = \<lparr>new_id = (\<lambda>n. replicate n (CHR ''i'')), new_key = (\<lambda>n. replicate n (CHR ''k'')),
               grant_index = (\<lambda>_ _. None)\<rparr>"

definition demo_write :: "op_type \<Rightarrow> enqueue_params" where
  "demo_write op = zero_params\<lparr>p_UserID := ''u'', p_ProjectID := ''p'', p_RoleKeys := [''r''],
     p_OpType := op, p_Source := ''bundle'', p_SourceRef := ''b''\<rparr>"

definition demo_db :: db_state where
  "demo_db = snd (insert_row demo_env ''k'' None [] 5 (demo_write Revoke) (empty_db None))"

text \<open>The role was given and is delivered, its removal waits, and it is given back: the removal is cancelled and no row is written.\<close>

definition demo_held :: db_state where
  "demo_held =
     (let s = snd (insert_row demo_env ''k'' None [] 4 (demo_write Add) (empty_db None))
      in snd (insert_row demo_env ''l'' None [] 5 (demo_write Revoke) (s\<lparr>outbox := map (r_status_update (\<lambda>_. Applied)) (outbox s)\<rparr>)))"

lemmas demo_simps = demo_held_def demo_db_def insert_row_def demo_env_def demo_write_def empty_db_def zero_params_def Let_def


section \<open>Nothing is cancelled unseen\<close>

text \<open>
  How a row may change under a write: not at all, or from pending to superseded when its
  id is one the gate was told the operator saw.
\<close>

definition row_evolves :: "string goset \<Rightarrow> outbox_row \<Rightarrow> outbox_row \<Rightarrow> bool" where
  "row_evolves acked r r' \<longleftrightarrow>
     r' = r \<or> (r_status r = Pending \<and> held acked (r_ID r) \<and> r_ID r' = r_ID r \<and> r_status r' = Superseded)"

definition rows_evolve :: "string goset \<Rightarrow> outbox_row list \<Rightarrow> outbox_row list \<Rightarrow> bool" where
  "rows_evolve acked rows rows' \<longleftrightarrow>
     list_all2 (row_evolves acked) rows (take (length rows) rows')"

definition gate_asking :: "cancel_gate \<Rightarrow> bool" where
  "gate_asking g \<longleftrightarrow> g_asks g \<noteq> Some False \<and> \<not> g_reviewed g"

text \<open>Ids come from a source that does not repeat, and the table's are from it.\<close>

definition fresh_ids :: "enqueue_env \<Rightarrow> db_state \<Rightarrow> bool" where
  "fresh_ids env s \<longleftrightarrow>
     inj (new_id env) \<and> (\<forall>r \<in> set (outbox s). \<exists>m < next_seq s. r_ID r = new_id env m)"

lemma row_evolves_trans: "row_evolves a r r' \<Longrightarrow> row_evolves a r' r'' \<Longrightarrow> row_evolves a r r''"
  by (auto simp: row_evolves_def)

lemma rows_evolve_refl [simp]: "rows_evolve a rows rows"
  by (simp add: rows_evolve_def row_evolves_def list.rel_refl)

lemma rows_evolve_snoc [simp]: "rows_evolve a rows (rows @ xs)"
  by (simp add: rows_evolve_def row_evolves_def list.rel_refl)

lemma rows_evolve_trans:
  assumes "rows_evolve a rows rows'" and "rows_evolve a rows' rows''"
  shows "rows_evolve a rows rows''"
proof -
  from assms(1) have len: "length rows \<le> length rows'"
    by (auto simp: rows_evolve_def dest: list_all2_lengthD)
  have "list_all2 (row_evolves a) (take (length rows) rows') (take (length rows) (take (length rows') rows''))"
    using assms(2) unfolding rows_evolve_def by (rule list_all2_takeI)
  with assms(1) len show ?thesis
    unfolding rows_evolve_def by (auto intro: list_all2_trans [OF row_evolves_trans] simp: min_def)
qed

lemma withdraw_gate:
  assumes "withdrawUndelivered target p now s = (Inr owed, s')" and "wf_outbox s"
    and "gate s = Some g" and "gate_asking g"
  shows "gate s' = gate s \<and> rows_evolve (g_acked g) (outbox s) (outbox s')"
proof (cases "\<not> answersAny p \<or> AnsweredBy p (candidates target p (outbox s)) = []")
  case True
  with withdraw_nothing [OF True] assms(1) show ?thesis by simp
next
  case False
  let ?answered = "AnsweredBy p (candidates target p (outbox s))"
  let ?reason = "if p_OpType p = Add then givenBackReason else withdrawnReason"
  have acked: "all_acked (g_acked g) ?answered"
  proof (rule ccontr)
    assume "\<not> ?thesis"
    then have "fst (AdmitCancellations (gate s) ?answered) = False"
      using assms(3,4) by (simp add: AdmitCancellations_def gate_asking_def)
    then obtain g' where "AdmitCancellations (gate s) ?answered = (False, g')" by (metis prod.collapse)
    with withdraw_refused [of p target s g' now] False assms(1) show False by simp
  qed
  then have "AdmitCancellations (gate s) ?answered = (True, gate s)"
    using assms(3,4) by (simp add: AdmitCancellations_def gate_asking_def)
  with False assms(1) withdraw_admitted [of p target s "gate s" _ now]
  have s': "s' = s\<lparr>gate := gate s, outbox := supersede_rows (map q_ID ?answered) ?reason now (outbox s),
             audit_logs := audit_logs s @ map (cancel_audit p) ?answered\<rparr>" by simp
  have ids: "held (g_acked g) (r_ID r)" if "r_ID r \<in> set (map q_ID ?answered)" for r
    using acked that by (auto simp: all_acked_iff)
  have "row_evolves (g_acked g) r (if answered_row target p r then superseded_by ?reason now r else r)"
    if "r \<in> set (outbox s)" for r
  proof (cases "answered_row target p r")
    case True
    with that have "r_ID r \<in> set (map q_ID ?answered)" unfolding answered_ids by blast
    with True ids show ?thesis
      by (auto simp: row_evolves_def superseded_by_def answered_row_def candidateWhere_def)
  qed (simp add: row_evolves_def)
  then have "rows_evolve (g_acked g) (outbox s) (cancel_rows target p ?reason now (outbox s))"
    unfolding rows_evolve_def cancel_rows_def by (simp add: list_all2_conv_all_nth)
  with s' show ?thesis
    using assms(2) by (simp add: supersede_answered wf_outbox_def)
qed

lemma insert_row_keeps:
  assumes "insert_row env key c why now p s = (i, s')" and "wf_outbox s" and "fresh_ids env s"
  shows "wf_outbox s' \<and> fresh_ids env s' \<and> gate s' = gate s \<and> rows_evolve a (outbox s) (outbox s')"
proof -
  from insert_row_spec [OF assms(1)] obtain row where row: "outbox s' = outbox s @ [row]"
    "r_seq row = next_seq s" "r_ID row = new_id env (next_seq s)"
    "next_seq s' = Suc (next_seq s)" "gate s' = gate s" .
  have "r_ID r \<noteq> new_id env (next_seq s)" if "r \<in> set (outbox s)" for r
    using assms(3) that unfolding fresh_ids_def by (metis injD less_irrefl)
  then have "wf_outbox s'" using assms(2) row by (fastforce simp: wf_outbox_def)
  moreover have "fresh_ids env s'"
    using assms(3) row unfolding fresh_ids_def by (auto intro: less_SucI)
  ultimately show ?thesis using row by simp
qed

lemma withdraw_fresh:
  assumes "withdrawUndelivered target p now s = (Inr owed, s')" and "wf_outbox s" and "fresh_ids env s"
  shows "fresh_ids env s'"
proof -
  from withdraw_rows [OF assms(1,2)] obtain reason where
    "outbox s' = cancel_rows target p reason now (outbox s)" "next_seq s' = next_seq s" by blast
  with assms(3) show ?thesis
    by (auto simp: fresh_ids_def in_cancel_rows superseded_by_def)
qed

lemma enqueue_row_keeps:
  assumes "enqueue_row env cid why now p ownKey s = (Inr i, s')" and "wf_outbox s" and "fresh_ids env s"
    and "gate s = Some g" and "gate_asking g"
  shows "wf_outbox s' \<and> fresh_ids env s' \<and> gate s' = gate s \<and> rows_evolve (g_acked g) (outbox s) (outbox s')"
proof -
  note step = wf_outbox_withdraw [OF _ assms(2)] withdraw_fresh [OF _ assms(2,3)]
    withdraw_gate [OF _ assms(2,4,5)]
  from assms(1) show ?thesis
  proof (cases rule: enqueue_row_cases)
    case (inserted s1 key c p')
    with step [OF inserted(1)] insert_row_keeps [OF inserted(2), of "g_acked g"] show ?thesis
      using rows_evolve_trans by metis
  qed (use step in blast)+
qed

lemma closeGivenRequests_keeps [simp]:
  "outbox (closeGivenRequests p now s) = outbox s" "gate (closeGivenRequests p now s) = gate s"
  "next_seq (closeGivenRequests p now s) = next_seq s"
  by (simp_all add: closeGivenRequests_def Let_def)

lemma enqueue_rows_keeps:
  assumes "enqueue_rows env cid why now ps ids s = (Inr ids', s')" and "wf_outbox s" and "fresh_ids env s"
    and "gate s = Some g" and "gate_asking g"
  shows "gate s' = gate s \<and> rows_evolve (g_acked g) (outbox s) (outbox s')"
  using assms
proof (induction ps arbitrary: ids s)
  case (Cons p ps)
  let ?s0 = "closeGivenRequests p now s"
  have s0: "wf_outbox ?s0" "fresh_ids env ?s0" "gate ?s0 = Some g"
    using Cons.prems by (simp_all add: wf_outbox_def fresh_ids_def)
  obtain i s1 where r: "enqueue_row env cid why now p '''' ?s0 = (Inr i, s1)"
    using Cons.prems(1) by (auto split: prod.splits sum.splits)
  note s1 = enqueue_row_keeps [OF r s0 Cons.prems(5)]
  from Cons.prems(1) r have
    "enqueue_rows env cid why now ps (if i = '''' then ids else ids @ [i]) s1 = (Inr ids', s')" by simp
  from Cons.IH [OF this] s1 s0 Cons.prems(5) show ?case
    using rows_evolve_trans by simp blast
qed simp

text \<open>
  C7. No queued change is cancelled unseen. While a request's gate is asking, a cascade
  that is written changes an earlier row only by superseding a pending one whose id the
  operator acknowledged; and a cascade that is refused leaves every table as it was.
\<close>

theorem enqueueWrites_never_cancels_unseen:
  assumes "wf_outbox s" and "fresh_ids env s" and "gate s = Some g" and "gate_asking g"
  shows "(enqueueWrites env cid now audits params s = (Inr ids, s') \<longrightarrow>
            rows_evolve (g_acked g) (outbox s) (outbox s')) \<and>
         (enqueueWrites env cid now audits params s = (Inl e, s') \<longrightarrow>
            outbox s' = outbox s \<and> audit_logs s' = audit_logs s \<and>
            access_requests s' = access_requests s \<and> next_seq s' = next_seq s)"
proof -
  have "wf_outbox (s\<lparr>audit_logs := l\<rparr>)" "fresh_ids env (s\<lparr>audit_logs := l\<rparr>)" for l
    using assms(1,2) by (simp_all add: wf_outbox_def fresh_ids_def)
  then show ?thesis
    using enqueue_rows_keeps [of env cid _ now params "[]" "s\<lparr>audit_logs := _\<rparr>" ids s' g] assms(3,4)
    by (auto simp: enqueueWrites_def Let_def split: prod.splits sum.splits)
qed

theorem enqueueWrites_never_cancels_unseen_witness:
  "\<exists>ids s'. enqueueWrites demo_env ''c'' 6 [] [demo_write Add]
       (demo_db\<lparr>gate := Some (GuardCancellations [''i''] None)\<rparr>) = (Inr ids, s') \<and>
     rows_evolve (g_acked (GuardCancellations [''i''] None)) (outbox demo_db) (outbox s')"
proof -
  let ?s = "demo_db\<lparr>gate := Some (GuardCancellations [''i''] None)\<rparr>"
  have "inj (\<lambda>n. replicate n (CHR ''i''))" by (rule injI) (metis length_replicate)
  then have wf: "wf_outbox ?s" "fresh_ids demo_env ?s"
    by (auto simp: demo_db_def insert_row_def demo_env_def demo_write_def empty_db_def wf_outbox_def
        fresh_ids_def)
  have run: "\<exists>ids s'. enqueueWrites demo_env ''c'' 6 [] [demo_write Add] ?s = (Inr ids, s')"
    by (simp add: enqueueWrites_def enqueue_row_def withdrawUndelivered_def demo_db_def insert_row_def
        demo_env_def demo_write_def empty_db_def zero_params_def Answers_simps candidates_def
        candidateWhere_def AdmitCancellations_def closeGivenRequests_def GuardCancellations_def
        held_def split: bool.splits)
  have "gate_asking (GuardCancellations [''i''] None)"
    by (simp add: gate_asking_def GuardCancellations_def)
  with run enqueueWrites_never_cancels_unseen [OF wf, of "GuardCancellations [''i''] None"]
  show ?thesis by fastforce
qed

text \<open>
  The preview of a cancellation is the cancellation: an operator's write that is not
  refused supersedes exactly the rows \<open>WouldCancel\<close> named beforehand, all of them
  pending, with one audit entry each, and touches no other row.
\<close>

theorem WouldCancel_is_what_is_cancelled:
  assumes "withdrawUndelivered ''zitadel'' p now s = (Inr owed, s')" and "wf_outbox s"
  shows "outbox s' = supersede_rows (map q_ID (WouldCancel p (outbox s)))
           (if p_OpType p = Add then givenBackReason else withdrawnReason) now (outbox s) \<and>
         audit_logs s' = audit_logs s @ map (cancel_audit p) (WouldCancel p (outbox s)) \<and>
         (\<forall>r. r \<in> set (outbox s) \<and> r_ID r \<in> set (map q_ID (WouldCancel p (outbox s))) \<longrightarrow>
            r_status r = Pending)"
proof -
  let ?answered = "AnsweredBy p (candidates ''zitadel'' p (outbox s))"
  have w: "WouldCancel p (outbox s) = ?answered"
    by (auto simp: WouldCancel_def AnsweredBy_filter Answers_def)
  have "distinct (map r_ID (outbox s))" using assms(2) by (simp add: wf_outbox_def)
  then have pending: "r_status r = Pending"
    if "r \<in> set (outbox s)" "r_ID r \<in> set (map q_ID ?answered)" for r
    using that unfolding answered_ids
    by (auto simp: distinct_map inj_on_def answered_row_def candidateWhere_def)
  show ?thesis
  proof (cases "\<not> answersAny p \<or> ?answered = []")
    case True
    then have "?answered = []" by (auto simp: AnsweredBy_filter Answers_def)
    with withdraw_nothing [OF True] assms(1) w show ?thesis
      by (simp add: supersede_rows_def)
  next
    case False
    obtain b g where adm: "AdmitCancellations (gate s) ?answered = (b, g)" by fastforce
    with False assms(1) withdraw_refused [of p "''zitadel''" s g now] have b by (cases b) auto
    with False adm assms(1) withdraw_admitted [of p "''zitadel''" s g _ now] w pending show ?thesis by auto
  qed
qed

theorem WouldCancel_is_what_is_cancelled_witness:
  "r_status (hd (outbox (snd (withdrawUndelivered ''zitadel'' (demo_write Add) 6 demo_db)))) = Superseded"
proof -
  have wf: "wf_outbox demo_db"
    by (simp add: demo_db_def insert_row_def demo_env_def demo_write_def empty_db_def wf_outbox_def)
  have run: "\<exists>owed s'. withdrawUndelivered ''zitadel'' (demo_write Add) 6 demo_db = (Inr owed, s')"
    by (simp add: withdrawUndelivered_def demo_db_def insert_row_def demo_env_def
        demo_write_def empty_db_def zero_params_def Answers_simps candidates_def candidateWhere_def
        AdmitCancellations_def Let_def)
  have "map q_ID (WouldCancel (demo_write Add) (outbox demo_db)) = [''i'']"
    by (simp add: WouldCancel_def demo_db_def insert_row_def demo_env_def
        demo_write_def empty_db_def zero_params_def Answers_simps candidates_def candidateWhere_def)
  moreover have "\<exists>r. outbox demo_db = [r] \<and> r_ID r = ''i''"
    by (simp add: demo_db_def insert_row_def demo_env_def empty_db_def)
  ultimately show ?thesis
    using run WouldCancel_is_what_is_cancelled [OF _ wf, of "demo_write Add" 6]
    by (auto simp: supersede_rows_def)
qed

end
