(* ===== verification/Rule_Graph.thy ===== *)
theory Rule_Graph
  imports Access
begin

text \<open>
  \<^verbatim>\<open>backend/internal/db/validation.go\<close>: the check that refuses a mapping rule which
  would close a cycle. The search is proved to answer exactly whether the proposed target
  leads back to the proposed source, so a rule set that has no cycle keeps none.
\<close>

section \<open>The graph\<close>

definition node_src :: "mapping_rule \<Rightarrow> role_key" where
  "node_src r = RoleKey (SourceProject r) (SourceRole r)"

definition node_tgt :: "mapping_rule \<Rightarrow> role_key" where
  "node_tgt r = RoleKey (TargetProject r) (TargetRole r)"

type_synonym adjacency = "(role_key, role_key list) gomap"

definition adj_get :: "adjacency \<Rightarrow> role_key \<Rightarrow> role_key list" where
  "adj_get adj n = (case map_of adj n of None \<Rightarrow> [] | Some ns \<Rightarrow> ns)"

definition adj_add :: "role_key \<Rightarrow> role_key \<Rightarrow> adjacency \<Rightarrow> adjacency" where
  "adj_add src tgt adj = AList.update src (adj_get adj src @ [tgt]) adj"

fun adj_of_rules :: "mapping_rule list \<Rightarrow> adjacency \<Rightarrow> adjacency" where
  "adj_of_rules [] adj = adj"
| "adj_of_rules (r # rs) adj = adj_of_rules rs (adj_add (node_src r) (node_tgt r) adj)"

section \<open>The search\<close>

text \<open>
  The recursive closure \<open>hasCycle\<close> with its call stack written out: the list is the
  nodes the pending loops have still to call it on, the next one first. A call that finds
  the source stops everything; a call on a visited node returns to the loop that made it;
  any other call marks its node and its own loop goes in front of the pending ones.
\<close>

function has_cycle_from ::
  "adjacency \<Rightarrow> role_key \<Rightarrow> role_key list \<Rightarrow> role_key list \<Rightarrow> bool" where
  "has_cycle_from adj src [] visited = False"
| "has_cycle_from adj src (current # pending) visited =
     (if current = src then True
      else if current \<in> set visited then has_cycle_from adj src pending visited
      else has_cycle_from adj src (adj_get adj current @ pending) (current # visited))"
  by pat_completeness auto
termination
proof (relation "measures [\<lambda>(adj, _, _, visited). card (set (map fst adj) - set visited),
                           \<lambda>(_, _, pending, _). length pending]", goal_cases)
  case (3 adj src current pending visited)
  show ?case
  proof (cases "current \<in> set (map fst adj)")
    case True
    have "set (map fst adj) - set (current # visited) \<subset> set (map fst adj) - set visited"
      using True 3 by auto
    then have "card (set (map fst adj) - set (current # visited)) < card (set (map fst adj) - set visited)"
      by (intro psubset_card_mono) auto
    then show ?thesis by simp
  next
    case False
    then have "map_of adj current = None" by (simp add: map_of_eq_None_iff)
    moreover have "set (map fst adj) - set (current # visited) = set (map fst adj) - set visited"
      using False by auto
    ultimately show ?thesis by (simp add: adj_get_def)
  qed
qed auto

definition hasCycleWithRules ::
  "mapping_rule list \<Rightarrow> string \<Rightarrow> string \<Rightarrow> string \<Rightarrow> string \<Rightarrow> bool" where
  "hasCycleWithRules rules sourceProject sourceRole targetProject targetRole =
     (let proposedSrc = RoleKey sourceProject sourceRole;
          proposedTgt = RoleKey targetProject targetRole;
          adj = adj_add proposedSrc proposedTgt (adj_of_rules rules [])
      in has_cycle_from adj proposedSrc [proposedTgt] [])"

fun excludeRuleFromGraph :: "mapping_rule list \<Rightarrow> string \<Rightarrow> mapping_rule list" where
  "excludeRuleFromGraph [] excludeRuleID = []"
| "excludeRuleFromGraph (r # rs) excludeRuleID =
     (if rule_ID r = excludeRuleID then excludeRuleFromGraph rs excludeRuleID
      else r # excludeRuleFromGraph rs excludeRuleID)"

text \<open>
  The two checks, over the rules a read of the table returned (\<open>Inl\<close> its error). The
  result is the refusal, if any.
\<close>

datatype cycle_error = LoadRulesFailed string | CircularDependency role_key role_key

definition DetectCycleOnInsert ::
  "string + mapping_rule list \<Rightarrow> string \<Rightarrow> string \<Rightarrow> string \<Rightarrow> string \<Rightarrow> cycle_error option" where
  "DetectCycleOnInsert loaded sp sr tp tr =
     (case loaded of
        Inl e \<Rightarrow> Some (LoadRulesFailed e)
      | Inr rules \<Rightarrow>
          if hasCycleWithRules rules sp sr tp tr
          then Some (CircularDependency (RoleKey sp sr) (RoleKey tp tr)) else None)"

definition DetectCycleOnUpdate ::
  "string + mapping_rule list \<Rightarrow> string \<Rightarrow> string \<Rightarrow> string \<Rightarrow> string \<Rightarrow> string \<Rightarrow> cycle_error option" where
  "DetectCycleOnUpdate loaded excludeRuleID sp sr tp tr =
     (case loaded of
        Inl e \<Rightarrow> Some (LoadRulesFailed e)
      | Inr rules \<Rightarrow>
          if hasCycleWithRules (excludeRuleFromGraph rules excludeRuleID) sp sr tp tr
          then Some (CircularDependency (RoleKey sp sr) (RoleKey tp tr)) else None)"

section \<open>What the search decides\<close>

definition adj_edges :: "adjacency \<Rightarrow> (role_key \<times> role_key) set" where
  "adj_edges adj = {(a, b). b \<in> set (adj_get adj a)}"

lemma adj_get_add:
  "adj_get (adj_add a b adj) n = (if n = a then adj_get adj a @ [b] else adj_get adj n)"
  by (simp add: adj_get_def adj_add_def)

lemma adj_edges_add [simp]: "adj_edges (adj_add a b adj) = insert (a, b) (adj_edges adj)"
  by (auto simp: adj_edges_def adj_get_add split: if_splits)

lemma adj_edges_rules: "adj_edges (adj_of_rules rules adj) = rule_edges NewRole rules \<union> adj_edges adj"
  by (induction rules arbitrary: adj)
     (auto simp: rule_edges_def src_of_def tgt_of_def node_src_def node_tgt_def NewRole_def)

lemma adj_edges_empty [simp]: "adj_edges [] = {}"
  by (simp add: adj_edges_def adj_get_def)

text \<open>
  What is pending covers what is visited: an edge out of a visited node leads to a node
  that is visited or still pending. At the end nothing is pending, and the visited nodes
  are closed under the edges.
\<close>

definition search_inv :: "adjacency \<Rightarrow> role_key \<Rightarrow> role_key list \<Rightarrow> role_key list \<Rightarrow> bool" where
  "search_inv adj src pending visited \<longleftrightarrow>
     src \<notin> set visited \<and>
     (\<forall>a b. a \<in> set visited \<and> (a, b) \<in> adj_edges adj \<longrightarrow> b \<in> set visited \<union> set pending)"

lemma closed_set_rtrancl:
  assumes "\<And>a b. a \<in> S \<Longrightarrow> (a, b) \<in> E \<Longrightarrow> b \<in> S" and "(x, y) \<in> E\<^sup>*" and "x \<in> S"
  shows "y \<in> S"
  using assms(2,3) by (induction rule: rtrancl_induct) (auto intro: assms(1))

lemma has_cycle_from_correct:
  "search_inv adj src pending visited \<Longrightarrow>
   has_cycle_from adj src pending visited \<longleftrightarrow>
     (\<exists>n \<in> set pending \<union> set visited. (n, src) \<in> (adj_edges adj)\<^sup>*)"
proof (induction adj src pending visited rule: has_cycle_from.induct)
  case (1 adj src visited)
  then have "y \<in> set visited" if "(n, y) \<in> (adj_edges adj)\<^sup>*" "n \<in> set visited" for n y
    using closed_set_rtrancl [of "set visited" "adj_edges adj" n y] that
    by (auto simp: search_inv_def)
  with 1 show ?case by (auto simp: search_inv_def)
next
  case (2 adj src current pending visited)
  show ?case
  proof (cases "current = src")
    case True
    then show ?thesis by auto
  next
    case ne: False
    show ?thesis
    proof (cases "current \<in> set visited")
      case True
      then have "search_inv adj src pending visited"
        using 2(3) by (auto simp: search_inv_def)
      with 2(1) [OF ne True] ne True show ?thesis by auto
    next
      case False
      have "search_inv adj src (adj_get adj current @ pending) (current # visited)"
        using 2(3) ne by (auto simp: search_inv_def adj_edges_def)
      moreover have "(\<exists>n \<in> set (adj_get adj current). (n, src) \<in> (adj_edges adj)\<^sup>*) \<Longrightarrow>
          (current, src) \<in> (adj_edges adj)\<^sup>*"
        by (auto simp: adj_edges_def intro: converse_rtrancl_into_rtrancl)
      ultimately show ?thesis using 2(2) [OF ne False] ne False by auto
    qed
  qed
qed

lemma rtrancl_insert_source: "(t, s) \<in> (insert (s, t) E)\<^sup>* \<longleftrightarrow> (t, s) \<in> E\<^sup>*"
proof
  assume "(t, s) \<in> (insert (s, t) E)\<^sup>*"
  then show "(t, s) \<in> E\<^sup>*" by (auto simp: rtrancl_insert)
next
  assume "(t, s) \<in> E\<^sup>*"
  then show "(t, s) \<in> (insert (s, t) E)\<^sup>*" by (meson in_rtrancl_UnI insert_is_Un subset_insertI rtrancl_mono subsetD)
qed

lemma hasCycle_iff:
  "hasCycleWithRules rules sp sr tp tr \<longleftrightarrow>
     (RoleKey tp tr, RoleKey sp sr) \<in> (rule_edges NewRole rules)\<^sup>*"
proof -
  let ?s = "RoleKey sp sr" and ?t = "RoleKey tp tr"
  let ?adj = "adj_add ?s ?t (adj_of_rules rules [])"
  have "search_inv ?adj ?s [?t] []" by (simp add: search_inv_def)
  then have "hasCycleWithRules rules sp sr tp tr \<longleftrightarrow> (?t, ?s) \<in> (adj_edges ?adj)\<^sup>*"
    using has_cycle_from_correct [of ?adj ?s "[?t]" "[]"]
    by (simp add: hasCycleWithRules_def Let_def del: has_cycle_from.simps)
  then show ?thesis by (simp add: adj_edges_rules rtrancl_insert_source)
qed

text \<open>
  C4. The check refuses a proposed rule exactly when the rule graph with the proposed
  edge has a cycle through that edge: the depth-first search terminates, and it answers
  whether the target already leads back to the source.
\<close>

theorem hasCycleWithRules_exact:
  "hasCycleWithRules rules sp sr tp tr \<longleftrightarrow>
     (RoleKey sp sr, RoleKey sp sr) \<in>
       {(RoleKey sp sr, RoleKey tp tr)} O (insert (RoleKey sp sr, RoleKey tp tr) (rule_edges NewRole rules))\<^sup>*"
  by (auto simp: hasCycle_iff rtrancl_insert_source)

definition rule_with :: "string \<Rightarrow> string \<Rightarrow> string \<Rightarrow> string \<Rightarrow> string \<Rightarrow> mapping_rule" where
  "rule_with i sp sr tp tr =
     \<lparr>rule_ID = i, SourceProject = sp, SourceRole = sr, TargetProject = tp, TargetRole = tr\<rparr>"

lemma rule_edges_Cons_with:
  "rule_edges NewRole (rule_with i sp sr tp tr # rules) =
     insert (RoleKey sp sr, RoleKey tp tr) (rule_edges NewRole rules)"
  by (simp add: rule_edges_def rule_with_def src_of_def tgt_of_def NewRole_def)

lemma set_excludeRuleFromGraph: "set (excludeRuleFromGraph rules i) = {r \<in> set rules. rule_ID r \<noteq> i}"
  by (induction rules) auto

text \<open>
  A rule set without a cycle keeps none: after an insert that passes the check, and
  after an update that passes the check with the edited rule's old edge left out, the
  rules have no cycle. A failed read of the rules is refused, not passed.
\<close>

theorem cycle_checks_keep_acyclic:
  assumes "acyclic (rule_edges NewRole rules)"
  shows "(DetectCycleOnInsert (Inr rules) sp sr tp tr = None \<longrightarrow>
            acyclic (rule_edges NewRole (rule_with i sp sr tp tr # rules))) \<and>
         (DetectCycleOnUpdate (Inr rules) i sp sr tp tr = None \<longrightarrow>
            acyclic (rule_edges NewRole (rule_with i sp sr tp tr # excludeRuleFromGraph rules i))) \<and>
         DetectCycleOnInsert (Inl e) sp sr tp tr = Some (LoadRulesFailed e) \<and>
         DetectCycleOnUpdate (Inl e) i sp sr tp tr = Some (LoadRulesFailed e)"
proof -
  have "rule_edges NewRole (excludeRuleFromGraph rules i) \<subseteq> rule_edges NewRole rules"
    by (auto simp: rule_edges_def set_excludeRuleFromGraph)
  then have "acyclic (rule_edges NewRole (excludeRuleFromGraph rules i))"
    using assms acyclic_subset by blast
  with assms show ?thesis
    by (auto simp: DetectCycleOnInsert_def DetectCycleOnUpdate_def hasCycle_iff
        rule_edges_Cons_with acyclic_insert split: if_splits)
qed

theorem cycle_checks_keep_acyclic_witness:
  "acyclic (rule_edges NewRole
     [rule_with ''2'' ''p'' ''b'' ''p'' ''c'', rule_with ''1'' ''p'' ''a'' ''p'' ''b''])"
proof -
  have base: "acyclic (rule_edges NewRole [rule_with ''1'' ''p'' ''a'' ''p'' ''b''])"
    by (simp add: rule_edges_Cons_with acyclic_insert) (simp add: rule_edges_def acyclic_def)
  have "DetectCycleOnInsert (Inr [rule_with ''1'' ''p'' ''a'' ''p'' ''b'']) ''p'' ''b'' ''p'' ''c'' = None"
    by (simp add: DetectCycleOnInsert_def hasCycleWithRules_def rule_with_def node_src_def
        node_tgt_def adj_add_def adj_get_def)
  with cycle_checks_keep_acyclic [OF base, of "''p''" "''b''" "''p''" "''c''" "''2''"] show ?thesis
    by blast
qed

end
