(* ===== verification/Cascade.thy ===== *)
theory Cascade
  imports Outbox Rule_Graph
begin

text \<open>
  \<^verbatim>\<open>backend/internal/services/cascade.go\<close> and \<^verbatim>\<open>rule_follow.go\<close>: what a person
  holds before the rules (\<open>baseFrom\<close>), the closure difference a change makes
  (\<open>closureDelta\<close>), and the writes it owes (\<open>deltaWrites\<close>, \<open>ruleDelta\<close>); then
  each cascade up to the atomic write it hands the database, with the reads it makes as
  arguments. The locale \<open>role_closure\<close> states what the cascades rely on of the closure,
  and is interpreted on \<open>effectiveClosure\<close>.
\<close>

section \<open>What was read about a person\<close>

record direct_grant =
  dg_ID :: string
  dg_ProjectID :: string
  dg_RoleKey :: string
  dg_Source :: string
  dg_ExpiresAt :: "time option"

text \<open>\<open>db.PersonAccess\<close>. A bundle role is read for its project and role only.\<close>

record person_access =
  pa_Direct :: "direct_grant list"
  pa_Bundles :: "string goset"
  pa_ByBundle :: "(string, role_key list) gomap"
  pa_Revoking :: "role_key list"
  pa_Queued :: "queued_change list"
  pa_Standing :: "role_key goset"

definition zero_person :: person_access where
  "zero_person = \<lparr>pa_Direct = [], pa_Bundles = [], pa_ByBundle = [], pa_Revoking = [],
                  pa_Queued = [], pa_Standing = []\<rparr>"

section \<open>Base holdings\<close>

definition grant_key :: "direct_grant \<Rightarrow> role_key" where
  "grant_key g = RoleKey (dg_ProjectID g) (dg_RoleKey g)"

fun add_bundles :: "string \<Rightarrow> (string, role_key list) gomap \<Rightarrow> role_key goset \<Rightarrow> role_key goset" where
  "add_bundles exclude [] base = base"
| "add_bundles exclude ((b, roles) # bs) base =
     (if b = exclude then add_bundles exclude bs base
      else add_bundles exclude bs (add_keys roles base))"

definition baseFrom :: "person_access \<Rightarrow> string \<Rightarrow> role_key goset" where
  "baseFrom p excludeBundleID =
     del_keys (pa_Revoking p)
       (add_bundles excludeBundleID (pa_ByBundle p) (add_keys (map grant_key (pa_Direct p)) []))"

definition userBaseHoldings :: "person_access \<Rightarrow> role_key goset" where
  "userBaseHoldings p = baseFrom p ''''"

definition subtractQueuedRevocations :: "role_key list \<Rightarrow> role_key goset \<Rightarrow> role_key goset" where
  "subtractQueuedRevocations queued base = del_keys queued base"

definition userBaseHoldingsWithBundleAt ::
  "person_access \<Rightarrow> string \<Rightarrow> role_key list \<Rightarrow> role_key goset" where
  "userBaseHoldingsWithBundleAt p bundleID roles =
     subtractQueuedRevocations (pa_Revoking p) (add_keys roles (baseFrom p bundleID))"

definition userBaseHoldingsExcludingGrant :: "person_access \<Rightarrow> string \<Rightarrow> role_key goset" where
  "userBaseHoldingsExcludingGrant p excludeGrantID =
     subtractQueuedRevocations (pa_Revoking p)
       (add_keys (concat (map snd (pa_ByBundle p)))
         (add_keys (map grant_key (filter (\<lambda>g. dg_ID g \<noteq> excludeGrantID) (pa_Direct p))) []))"

section \<open>The closure difference and its writes\<close>

definition newRoleKey :: "string \<Rightarrow> string \<Rightarrow> role_key" where
  "newRoleKey projectID role = RoleKey projectID role"

definition effectiveClosure :: "role_key goset \<Rightarrow> mapping_rule list \<Rightarrow> role_key goset" where
  "effectiveClosure base rules = Closure base rules newRoleKey"

definition sortRoleKeys :: "role_key list \<Rightarrow> role_key list" where
  "sortRoleKeys ks = sort ks"

definition closureDelta ::
  "role_key goset \<Rightarrow> role_key goset \<Rightarrow> role_key list \<times> role_key list" where
  "closureDelta before after =
     (sortRoleKeys (filter (\<lambda>k. \<not> held before k) (map fst after)),
      sortRoleKeys (filter (\<lambda>k. \<not> held after k) (map fst before)))"

definition delta_write :: "string \<Rightarrow> string \<Rightarrow> string \<Rightarrow> op_type \<Rightarrow> role_key \<Rightarrow> enqueue_params" where
  "delta_write userID source sourceRef op k =
     zero_params\<lparr>p_UserID := userID, p_ProjectID := ProjectID k, p_RoleKeys := [RoleOf k],
       p_Source := source, p_SourceRef := sourceRef, p_OpType := op\<rparr>"

definition deltaWrites ::
  "string \<Rightarrow> role_key list \<Rightarrow> role_key list \<Rightarrow> string \<Rightarrow> string \<Rightarrow> enqueue_params list" where
  "deltaWrites userID adds revokes source sourceRef =
     map (delta_write userID source sourceRef Add) adds @
     map (delta_write userID source sourceRef Revoke) revokes"

text \<open>\<open>deferTargetConvergence\<close> registers one of these; \<open>withLockedAccess\<close> flushes them.\<close>

record convergence =
  cv_actor :: string
  cv_userID :: string
  cv_changed :: "role_key list"

definition deferTargetConvergence :: "string \<Rightarrow> string \<Rightarrow> role_key list \<Rightarrow> convergence list" where
  "deferTargetConvergence actor userID changed =
     (if changed = [] then []
      else [\<lparr>cv_actor = actor, cv_userID = userID, cv_changed = changed\<rparr>])"

type_synonym cascade_plan = "enqueue_params list \<times> convergence list"

definition deltaParams ::
  "string \<Rightarrow> role_key list \<Rightarrow> role_key list \<Rightarrow> string \<Rightarrow> string \<Rightarrow> string \<Rightarrow> string \<Rightarrow> cascade_plan" where
  "deltaParams userID adds revokes actor reason source sourceRef =
     (map (\<lambda>p. p\<lparr>p_GrantedBy := actor, p_Reason := reason, p_PayloadJSON := ''{}''\<rparr>)
        (deltaWrites userID adds revokes source sourceRef),
      deferTargetConvergence actor userID (adds @ revokes))"

section \<open>What the rules owe beyond a direct write\<close>

definition ruleDelta ::
  "role_key goset \<Rightarrow> role_key goset \<Rightarrow> mapping_rule list \<Rightarrow>
     (role_key list \<times> role_key list) \<times> role_key goset \<times> role_key goset" where
  "ruleDelta before after rules =
     (let closureBefore = effectiveClosure before rules;
          closureAfter = effectiveClosure after rules;
          d = closureDelta closureBefore closureAfter;
          derived = filter (\<lambda>k. held before k = held after k)
      in ((derived (fst d), derived (snd d)), closureBefore, closureAfter))"

fun ruleReachingRule :: "mapping_rule list \<Rightarrow> role_key goset \<Rightarrow> role_key \<Rightarrow> mapping_rule option" where
  "ruleReachingRule [] closure k = None"
| "ruleReachingRule (r # rs) closure k =
     (if TargetProject r = ProjectID k \<and> TargetRole r = RoleOf k \<and>
         held closure (RoleKey (SourceProject r) (SourceRole r))
      then Some r else ruleReachingRule rs closure k)"

definition ruleReaching :: "mapping_rule list \<Rightarrow> role_key goset \<Rightarrow> role_key \<Rightarrow> string" where
  "ruleReaching rules closure k =
     (case ruleReachingRule rules closure k of None \<Rightarrow> '''' | Some r \<Rightarrow> rule_ID r)"

text \<open>
  The writes \<open>followRules\<close> returns for a direct write \<open>p\<close>, from the person read before
  and after it.
\<close>

definition followRules ::
  "enqueue_params \<Rightarrow> mapping_rule list \<Rightarrow> person_access \<Rightarrow> person_access \<Rightarrow> enqueue_params list" where
  "followRules p rules personBefore personAfter =
     (if rules = [] then []
      else
        let ((adds, revokes), closureBefore, closureAfter) =
              ruleDelta (userBaseHoldings personBefore) (userBaseHoldings personAfter) rules
        in if adds = [] \<and> revokes = [] then []
           else map (\<lambda>w. w\<lparr>p_SourceRef := ruleReaching rules
                             (if p_OpType w = Revoke then closureBefore else closureAfter)
                             (RoleKey (p_ProjectID w) (hd (p_RoleKeys w))),
                           p_GrantedBy := p_GrantedBy p, p_Reason := ''Mapping rule cascade'',
                           p_PayloadJSON := ''{}''\<rparr>)
                  (deltaWrites (p_UserID p) adds revokes ''rule'' ''''))"

section \<open>The cascades\<close>

record bundle_rec =
  b_ID :: string
  b_Name :: string
  b_RetiredAt :: "time option"

datatype cascade_error = ErrRetired time | ErrBundleIncluded "string list"

definition refuseRetired :: "bundle_rec \<Rightarrow> cascade_error option" where
  "refuseRetired b = map_option ErrRetired (b_RetiredAt b)"

definition CascadeBundleAssignedToUser ::
  "string \<Rightarrow> string \<Rightarrow> bundle_rec \<Rightarrow> role_key list \<Rightarrow> mapping_rule list \<Rightarrow> person_access \<Rightarrow>
     cascade_error + cascade_plan" where
  "CascadeBundleAssignedToUser actor userID b roles rules person =
     (case refuseRetired b of
        Some e \<Rightarrow> Inl e
      | None \<Rightarrow>
          let before = userBaseHoldings person;
              after = add_keys roles before;
              (adds, revokes) = closureDelta (effectiveClosure before rules) (effectiveClosure after rules)
          in Inr (deltaParams userID adds revokes actor ''Bundle membership cascade'' ''bundle'' (b_ID b)))"

definition CascadeBundleRemovedFromUser ::
  "string \<Rightarrow> string \<Rightarrow> bundle_rec \<Rightarrow> mapping_rule list \<Rightarrow> person_access \<Rightarrow> cascade_error + cascade_plan" where
  "CascadeBundleRemovedFromUser actor userID b rules person =
     (case refuseRetired b of
        Some e \<Rightarrow> Inl e
      | None \<Rightarrow>
          let before = userBaseHoldings person;
              after = baseFrom person (b_ID b);
              (adds, revokes) = closureDelta (effectiveClosure before rules) (effectiveClosure after rules)
          in Inr (deltaParams userID adds revokes actor ''Bundle removal cascade'' ''bundle'' (b_ID b)))"

text \<open>The loop over people: those whose closure does not move are skipped.\<close>

fun cascade_people ::
  "(string \<times> person_access) list \<Rightarrow>
   (person_access \<Rightarrow> role_key goset \<times> role_key goset) \<Rightarrow>
   string \<Rightarrow> string \<Rightarrow> string \<Rightarrow> string \<Rightarrow> cascade_plan" where
  "cascade_people [] closures actor reason source ref = ([], [])"
| "cascade_people ((u, person) # us) closures actor reason source ref =
     (let (adds, revokes) = closureDelta (fst (closures person)) (snd (closures person));
          rest = cascade_people us closures actor reason source ref
      in if adds = [] \<and> revokes = [] then rest
         else let own = deltaParams u adds revokes actor reason source ref
              in (fst own @ fst rest, snd own @ snd rest))"

definition CascadeBundleRetired ::
  "string \<Rightarrow> bundle_rec \<Rightarrow> string list \<Rightarrow> mapping_rule list \<Rightarrow> (string \<times> person_access) list \<Rightarrow>
     cascade_error + cascade_plan" where
  "CascadeBundleRetired actor b blockers rules holders =
     (case refuseRetired b of
        Some e \<Rightarrow> Inl e
      | None \<Rightarrow>
          if blockers \<noteq> [] then Inl (ErrBundleIncluded blockers)
          else Inr (cascade_people holders
                 (\<lambda>person. (effectiveClosure (userBaseHoldings person) rules,
                            effectiveClosure (baseFrom person (b_ID b)) rules))
                 actor ''Bundle deletion cascade'' ''bundle'' (b_ID b)))"

definition rule_closures ::
  "mapping_rule list \<Rightarrow> mapping_rule list \<Rightarrow> person_access \<Rightarrow> role_key goset \<times> role_key goset" where
  "rule_closures rulesBefore rulesAfter person =
     (let base = userBaseHoldings person
      in (effectiveClosure base rulesBefore, effectiveClosure base rulesAfter))"

definition CascadeRuleCreated ::
  "string \<Rightarrow> string \<Rightarrow> string \<Rightarrow> string \<Rightarrow> string \<Rightarrow> mapping_rule list \<Rightarrow>
   (string \<times> person_access) list \<Rightarrow> cascade_plan" where
  "CascadeRuleCreated actor sp sr tp tr rulesBefore users =
     (let rulesAfter = rulesBefore @ [rule_with '''' sp sr tp tr]
      in cascade_people users (rule_closures rulesBefore rulesAfter)
           actor ''Mapping rule cascade'' ''rule'' '''')"

text \<open>The first rule with the id is replaced, as the loop breaks there.\<close>

fun replace_rule :: "string \<Rightarrow> mapping_rule \<Rightarrow> mapping_rule list \<Rightarrow> mapping_rule list" where
  "replace_rule i new [] = []"
| "replace_rule i new (r # rs) = (if rule_ID r = i then new # rs else r # replace_rule i new rs)"

definition CascadeRuleUpdated ::
  "string \<Rightarrow> mapping_rule \<Rightarrow> string \<Rightarrow> string \<Rightarrow> string \<Rightarrow> string \<Rightarrow> mapping_rule list \<Rightarrow>
   (string \<times> person_access) list \<Rightarrow> cascade_plan" where
  "CascadeRuleUpdated actor old sp sr tp tr rulesBefore users =
     (let rulesAfter = replace_rule (rule_ID old) (rule_with (rule_ID old) sp sr tp tr) rulesBefore
      in cascade_people users (rule_closures rulesBefore rulesAfter)
           actor ''Mapping-rule update cascade'' ''rule'' (rule_ID old))"

definition CascadeRuleRetired ::
  "string \<Rightarrow> mapping_rule \<Rightarrow> mapping_rule list \<Rightarrow> (string \<times> person_access) list \<Rightarrow> cascade_plan" where
  "CascadeRuleRetired actor old rulesBefore users =
     (let rulesAfter = filter (\<lambda>ru. rule_ID ru \<noteq> rule_ID old) rulesBefore
      in cascade_people users (rule_closures rulesBefore rulesAfter)
           actor ''Mapping-rule deletion cascade'' ''rule'' (rule_ID old))"

section \<open>Base holdings, as sets\<close>

lemma held_add_bundles:
  "held (add_bundles ex bs base) k \<longleftrightarrow>
     held base k \<or> (\<exists>b roles. (b, roles) \<in> set bs \<and> b \<noteq> ex \<and> k \<in> set roles)"
  by (induction ex bs base rule: add_bundles.induct) auto

lemma wf_add_bundles: "wf_map base \<Longrightarrow> wf_map (add_bundles ex bs base)"
  by (induction ex bs base rule: add_bundles.induct) auto

lemma held_baseFrom:
  "held (baseFrom p ex) k \<longleftrightarrow>
     k \<notin> set (pa_Revoking p) \<and>
     (k \<in> grant_key ` set (pa_Direct p) \<or>
      (\<exists>b roles. (b, roles) \<in> set (pa_ByBundle p) \<and> b \<noteq> ex \<and> k \<in> set roles))"
  by (auto simp: baseFrom_def held_add_bundles)

lemma wf_baseFrom [simp]: "wf_map (baseFrom p ex)"
  by (simp add: baseFrom_def wf_add_bundles)

lemma wf_userBaseHoldings [simp]: "wf_map (userBaseHoldings p)"
  by (simp add: userBaseHoldings_def)

text \<open>Leaving a bundle out only takes away, if no bundle has the empty id.\<close>

lemma baseFrom_exclude:
  "held (baseFrom p ex) k \<Longrightarrow> '''' \<notin> fst ` set (pa_ByBundle p) \<Longrightarrow> held (userBaseHoldings p) k"
  by (force simp: held_baseFrom userBaseHoldings_def)

section \<open>The difference is exact\<close>

lemma held_in_keys: "held m k \<Longrightarrow> k \<in> set (map fst m)"
  by (force simp: held_def dest: map_of_SomeD)

text \<open>A map all of whose entries are true, as every closure is.\<close>

definition all_true :: "'k goset \<Rightarrow> bool" where
  "all_true m \<longleftrightarrow> (\<forall>k \<in> set (map fst m). held m k)"

lemma closureDelta_sets:
  assumes "all_true before" and "all_true after"
  shows "set (fst (closureDelta before after)) = {k. held after k \<and> \<not> held before k}"
    and "set (snd (closureDelta before after)) = {k. held before k \<and> \<not> held after k}"
  using assms held_in_keys by (fastforce simp: closureDelta_def sortRoleKeys_def all_true_def)+

lemma all_true_Closure: "all_true (Closure base rules key)"
proof -
  have "held (map (\<lambda>kv. (fst kv, True)) m) k" if "k \<in> fst ` set m" for m :: "('a \<times> time) list" and k
    using that by (induction m) (auto simp: held_def)
  then show ?thesis unfolding all_true_def Closure_def by simp
qed

lemmas effective_simps = effectiveClosure_def newRoleKey_def

lemma newRoleKey_NewRole: "newRoleKey = NewRole"
  by (rule ext)+ (simp add: newRoleKey_def NewRole_def)

lemma all_true_effective [simp]: "all_true (effectiveClosure base rules)"
  by (simp add: effectiveClosure_def all_true_Closure)

text \<open>What the cascades rely on of the closure: it contains the base and grows with base and rules.\<close>

locale role_closure =
  fixes cl :: "role_key goset \<Rightarrow> mapping_rule list \<Rightarrow> role_key goset"
  assumes cl_true: "all_true (cl base rules)"
    and cl_extensive: "held base k \<Longrightarrow> held (cl base rules) k"
    and cl_mono: "(\<And>k. held base k \<Longrightarrow> held base' k) \<Longrightarrow> set rules \<subseteq> set rules' \<Longrightarrow>
                  held (cl base rules) k \<Longrightarrow> held (cl base' rules') k"
begin

lemma delta_adds:
  "set (fst (closureDelta (cl b r) (cl b' r'))) = {k. held (cl b' r') k \<and> \<not> held (cl b r) k}"
  by (rule closureDelta_sets) (rule cl_true)+

lemma delta_revokes:
  "set (snd (closureDelta (cl b r) (cl b' r'))) = {k. held (cl b r) k \<and> \<not> held (cl b' r') k}"
  by (rule closureDelta_sets) (rule cl_true)+

text \<open>A change that only gives takes nothing away, and the other way round.\<close>

lemma grow_no_revokes:
  assumes "\<And>k. held b k \<Longrightarrow> held b' k" and "set r \<subseteq> set r'"
  shows "snd (closureDelta (cl b r) (cl b' r')) = []"
proof -
  have "held (cl b' r') k" if "held (cl b r) k" for k by (rule cl_mono [OF assms that])
  then have "set (snd (closureDelta (cl b r) (cl b' r'))) = {}" by (auto simp: delta_revokes)
  then show ?thesis by simp
qed

lemma shrink_no_adds:
  assumes "\<And>k. held b' k \<Longrightarrow> held b k" and "set r' \<subseteq> set r"
  shows "fst (closureDelta (cl b r) (cl b' r')) = []"
proof -
  have "held (cl b r) k" if "held (cl b' r') k" for k by (rule cl_mono [OF assms that])
  then have "set (fst (closureDelta (cl b r) (cl b' r'))) = {}" by (auto simp: delta_adds)
  then show ?thesis by simp
qed

end

interpretation eff: role_closure effectiveClosure
proof
  show "all_true (effectiveClosure base rules)" for base rules by simp
  show "held (effectiveClosure base rules) k" if "held base k" for base rules k
    using that by (simp add: effectiveClosure_def Closure_base)
  show "held (effectiveClosure base' rules') k"
    if "\<And>k. held base k \<Longrightarrow> held base' k" "set rules \<subseteq> set rules'" "held (effectiveClosure base rules) k"
    for base base' rules rules' k
    using Closure_mono [of base base' rules rules' newRoleKey k] that by (simp add: effectiveClosure_def)
qed

section \<open>What the writes do on the target\<close>

text \<open>The roles a write names, and the effect of delivering writes in order on who holds what.\<close>

definition write_keys :: "enqueue_params \<Rightarrow> (string \<times> role_key) set" where
  "write_keys p = (\<lambda>r. (p_UserID p, RoleKey (p_ProjectID p) r)) ` set (p_RoleKeys p)"

fun deliver :: "enqueue_params list \<Rightarrow> (string \<times> role_key) set \<Rightarrow> (string \<times> role_key) set" where
  "deliver [] H = H"
| "deliver (p # ps) H =
     deliver ps (case p_OpType p of Add \<Rightarrow> H \<union> write_keys p | Revoke \<Rightarrow> H - write_keys p | _ \<Rightarrow> H)"

lemma deliver_append [simp]: "deliver (ps @ qs) H = deliver qs (deliver ps H)"
  by (induction ps H rule: deliver.induct) (auto split: op_type.splits)

lemma write_keys_delta [simp]: "write_keys (delta_write u src ref op k) = {(u, k)}"
  by (simp add: write_keys_def delta_write_def zero_params_def)

lemma deliver_adds: "deliver (map (delta_write u src ref Add) ks) H = H \<union> {u} \<times> set ks"
  by (induction ks arbitrary: H) (auto simp: delta_write_def zero_params_def write_keys_def)

lemma deliver_revokes: "deliver (map (delta_write u src ref Revoke) ks) H = H - {u} \<times> set ks"
  by (induction ks arbitrary: H) (auto simp: delta_write_def zero_params_def write_keys_def)

lemma deliver_deltaWrites:
  "deliver (deltaWrites u adds revokes src ref) H = (H \<union> {u} \<times> set adds) - {u} \<times> set revokes"
  by (simp add: deltaWrites_def deliver_adds deliver_revokes)

lemma deliver_stamp:
  "deliver (map (\<lambda>p. p\<lparr>p_GrantedBy := a, p_Reason := b, p_PayloadJSON := c\<rparr>) ps) H = deliver ps H"
  by (induction ps H rule: deliver.induct) (auto simp: write_keys_def split: op_type.splits)

lemma deliver_deltaParams:
  "deliver (fst (deltaParams u adds revokes actor reason src ref)) H =
     (H \<union> {u} \<times> set adds) - {u} \<times> set revokes"
  by (simp add: deltaParams_def deliver_stamp deliver_deltaWrites)

text \<open>The delta of two closures moves a target that holds the first to the second.\<close>

lemma deliver_closure_delta:
  assumes "all_true before" and "all_true after" and "\<And>k. (u, k) \<in> H \<longleftrightarrow> held before k"
    and "closureDelta before after = (adds, revokes)"
  shows "(v, k) \<in> deliver (fst (deltaParams u adds revokes actor reason src ref)) H \<longleftrightarrow>
           (if v = u then held after k else (v, k) \<in> H)"
  using closureDelta_sets [OF assms(1,2)] assms(3,4) by (auto simp: deliver_deltaParams)

definition in_sync ::
  "(string \<times> role_key) set \<Rightarrow> (string \<times> person_access) list \<Rightarrow> (person_access \<Rightarrow> role_key goset) \<Rightarrow> bool" where
  "in_sync H users f \<longleftrightarrow>
     (\<forall>u person. (u, person) \<in> set users \<longrightarrow> (\<forall>k. (u, k) \<in> H \<longleftrightarrow> held (f person) k))"

lemma deliver_cascade_people:
  assumes "\<And>p. all_true (fst (cls p)) \<and> all_true (snd (cls p))" and "distinct (map fst users)"
    and "in_sync H users (fst \<circ> cls)"
  shows "in_sync (deliver (fst (cascade_people users cls actor reason src ref)) H) users (snd \<circ> cls) \<and>
         (\<forall>v k. v \<notin> fst ` set users \<longrightarrow>
            ((v, k) \<in> deliver (fst (cascade_people users cls actor reason src ref)) H \<longleftrightarrow> (v, k) \<in> H))"
  using assms(2,3)
proof (induction users arbitrary: H)
  case (Cons up users)
  obtain u person where up: "up = (u, person)" by fastforce
  obtain adds revokes where d: "closureDelta (fst (cls person)) (snd (cls person)) = (adds, revokes)" by fastforce
  define H' where "H' = (if adds = [] \<and> revokes = [] then H
    else deliver (fst (deltaParams u adds revokes actor reason src ref)) H)"
  have sync: "(u, k) \<in> H \<longleftrightarrow> held (fst (cls person)) k" for k
    using Cons.prems(2) up by (auto simp: in_sync_def)
  have H': "(v, k) \<in> H' \<longleftrightarrow> (if v = u then held (snd (cls person)) k else (v, k) \<in> H)" for v k
  proof (cases "adds = [] \<and> revokes = []")
    case True
    then have "held (fst (cls person)) k = held (snd (cls person)) k" for k
      using closureDelta_sets [of "fst (cls person)" "snd (cls person)"] assms(1) d by auto
    with True sync show ?thesis by (auto simp: H'_def)
  next
    case False
    then have "H' = deliver (fst (deltaParams u adds revokes actor reason src ref)) H" by (auto simp: H'_def)
    with deliver_closure_delta [of "fst (cls person)" "snd (cls person)" u H adds revokes v k] assms(1) sync d
    show ?thesis by simp
  qed
  have u_notin: "u \<notin> fst ` set users" using Cons.prems(1) up by simp
  have "in_sync H' users (fst \<circ> cls)"
    unfolding in_sync_def
  proof (intro allI impI)
    fix v q k assume vq: "(v, q) \<in> set users"
    with u_notin have "v \<noteq> u" by force
    moreover have "(v, k) \<in> H \<longleftrightarrow> held ((fst \<circ> cls) q) k"
      using Cons.prems(2) vq unfolding in_sync_def by simp
    ultimately show "(v, k) \<in> H' \<longleftrightarrow> held ((fst \<circ> cls) q) k" using H' [of v k] by simp
  qed
  moreover have "distinct (map fst users)" using Cons.prems(1) by simp
  ultimately have IH: "in_sync (deliver (fst (cascade_people users cls actor reason src ref)) H') users (snd \<circ> cls) \<and>
    (\<forall>v k. v \<notin> fst ` set users \<longrightarrow>
       ((v, k) \<in> deliver (fst (cascade_people users cls actor reason src ref)) H' \<longleftrightarrow> (v, k) \<in> H'))"
    by (rule Cons.IH [rotated])
  have eq: "deliver (fst (cascade_people (up # users) cls actor reason src ref)) H =
      deliver (fst (cascade_people users cls actor reason src ref)) H'"
    using up d by (auto simp: H'_def Let_def)
  define D where "D = deliver (fst (cascade_people users cls actor reason src ref)) H'"
  have D: "in_sync D users (snd \<circ> cls)" "\<And>v k. v \<notin> fst ` set users \<Longrightarrow> (v, k) \<in> D \<longleftrightarrow> (v, k) \<in> H'"
    using IH unfolding D_def by blast+
  have "(u, k) \<in> D \<longleftrightarrow> held (snd (cls person)) k" for k
    using D(2) [OF u_notin] H' [of u k] by simp
  then have "in_sync D (up # users) (snd \<circ> cls)"
    using D(1) up unfolding in_sync_def by simp
  moreover have "(v, k) \<in> D \<longleftrightarrow> (v, k) \<in> H" if "v \<notin> fst ` set (up # users)" for v k
    using D(2) [of v k] H' [of v k] that up by simp
  ultimately show ?case
    unfolding eq D_def by blast
qed (simp add: in_sync_def)

section \<open>The cascades keep the target in step\<close>

lemma closures_true [simp]:
  "all_true (fst (rule_closures r r' p))" "all_true (snd (rule_closures r r' p))"
  by (simp_all add: rule_closures_def Let_def)

lemma rule_closures_comp:
  "fst \<circ> rule_closures r r' = (\<lambda>p. effectiveClosure (userBaseHoldings p) r)"
  "snd \<circ> rule_closures r r' = (\<lambda>p. effectiveClosure (userBaseHoldings p) r')"
  by (auto simp: rule_closures_def Let_def)

lemma deliver_rule_cascade:
  assumes "distinct (map fst users)"
    and "in_sync H users (\<lambda>p. effectiveClosure (userBaseHoldings p) r)"
  shows "in_sync (deliver (fst (cascade_people users (rule_closures r r') actor reason src ref)) H)
           users (\<lambda>p. effectiveClosure (userBaseHoldings p) r')"
  using deliver_cascade_people [of "rule_closures r r'" users H actor reason src ref] assms
  by (simp add: rule_closures_comp)

text \<open>
  C9. Creating, changing or retiring a mapping rule keeps the target in step. If what the
  target holds for every person read is their closure under the rules before, then
  delivering the writes the cascade queues leaves what it holds at their closure under the
  rules after: with the new edge, with the first rule of that id replaced, or without the
  rules of that id.
\<close>

theorem rule_cascades_keep_in_sync:
  assumes "distinct (map fst users)"
    and "in_sync H users (\<lambda>p. effectiveClosure (userBaseHoldings p) rules)"
  shows "in_sync (deliver (fst (CascadeRuleCreated actor sp sr tp tr rules users)) H) users
           (\<lambda>p. effectiveClosure (userBaseHoldings p) (rules @ [rule_with '''' sp sr tp tr])) \<and>
         in_sync (deliver (fst (CascadeRuleUpdated actor old sp sr tp tr rules users)) H) users
           (\<lambda>p. effectiveClosure (userBaseHoldings p)
              (replace_rule (rule_ID old) (rule_with (rule_ID old) sp sr tp tr) rules)) \<and>
         in_sync (deliver (fst (CascadeRuleRetired actor old rules users)) H) users
           (\<lambda>p. effectiveClosure (userBaseHoldings p) (filter (\<lambda>ru. rule_ID ru \<noteq> rule_ID old) rules))"
  using deliver_rule_cascade [OF assms]
  by (simp add: CascadeRuleCreated_def CascadeRuleUpdated_def CascadeRuleRetired_def Let_def)

definition demo_rule :: mapping_rule where
  "demo_rule = rule_with ''1'' ''p'' ''a'' ''q'' ''b''"

definition demo_person :: person_access where
  "demo_person = zero_person\<lparr>pa_Direct := [\<lparr>dg_ID = ''g'', dg_ProjectID = ''p'', dg_RoleKey = ''a'',
     dg_Source = ''direct'', dg_ExpiresAt = None\<rparr>],
     pa_Bundles := [(''b1'', True)], pa_ByBundle := [(''b1'', [RoleKey ''p'' ''c''])]\<rparr>"

theorem rule_cascades_keep_in_sync_witness:
  "in_sync (deliver (fst (CascadeRuleRetired ''op'' demo_rule [demo_rule] [(''u'', demo_person)]))
      {(''u'', RoleKey ''p'' ''a''), (''u'', RoleKey ''p'' ''c''), (''u'', RoleKey ''q'' ''b'')})
     [(''u'', demo_person)] (\<lambda>p. effectiveClosure (userBaseHoldings p) [])"
proof -
  have base: "held (userBaseHoldings demo_person) k \<longleftrightarrow> k = RoleKey ''p'' ''a'' \<or> k = RoleKey ''p'' ''c''" for k
    by (auto simp: userBaseHoldings_def held_baseFrom demo_person_def zero_person_def grant_key_def)
  have edges: "rule_edges newRoleKey [demo_rule] = {(RoleKey ''p'' ''a'', RoleKey ''q'' ''b'')}"
    by (simp add: newRoleKey_NewRole demo_rule_def rule_edges_Cons_with) (simp add: rule_edges_def)
  have cl: "held (effectiveClosure (userBaseHoldings demo_person) [demo_rule]) k \<longleftrightarrow>
      k \<in> {RoleKey ''p'' ''a'', RoleKey ''p'' ''c'', RoleKey ''q'' ''b''}" for k
    unfolding effectiveClosure_def Closure_iff base edges
    by (auto simp: rtrancl_insert)
  then have "in_sync {(''u'', RoleKey ''p'' ''a''), (''u'', RoleKey ''p'' ''c''), (''u'', RoleKey ''q'' ''b'')}
      [(''u'', demo_person)] (\<lambda>p. effectiveClosure (userBaseHoldings p) [demo_rule])"
    by (auto simp: in_sync_def)
  from rule_cascades_keep_in_sync [OF _ this, of "''op''" "[]" "[]" "[]" "[]" demo_rule]
  show ?thesis by simp
qed

text \<open>
  Retiring a bundle, when it is not refused, takes from every holder exactly what
  only it was giving: a target in step with every holder's closure is, after delivering
  the writes, in step with the closure of what they hold without the bundle, so a role a
  grant, another bundle or a rule still gives is kept. A retired bundle and one other
  bundles include are refused with no writes.
\<close>

theorem bundle_retired_keeps_in_sync:
  assumes "distinct (map fst holders)"
    and "in_sync H holders (\<lambda>p. effectiveClosure (userBaseHoldings p) rules)"
  shows "case CascadeBundleRetired actor b blockers rules holders of
           Inl e \<Rightarrow> (\<exists>t. b_RetiredAt b = Some t \<and> e = ErrRetired t) \<or>
                    (b_RetiredAt b = None \<and> blockers \<noteq> [] \<and> e = ErrBundleIncluded blockers)
         | Inr plan \<Rightarrow> b_RetiredAt b = None \<and> blockers = [] \<and>
             in_sync (deliver (fst plan) H) holders (\<lambda>p. effectiveClosure (baseFrom p (b_ID b)) rules)"
proof -
  let ?cls = "\<lambda>p. (effectiveClosure (userBaseHoldings p) rules, effectiveClosure (baseFrom p (b_ID b)) rules)"
  have "in_sync (deliver (fst (cascade_people holders ?cls actor ''Bundle deletion cascade'' ''bundle'' (b_ID b))) H)
          holders (snd \<circ> ?cls)"
    using deliver_cascade_people [of ?cls holders H actor "''Bundle deletion cascade''" "''bundle''" "b_ID b"] assms
    by (simp add: comp_def)
  then show ?thesis
    by (auto simp: CascadeBundleRetired_def refuseRetired_def comp_def split: option.splits)
qed

theorem bundle_retired_keeps_in_sync_witness:
  "case CascadeBundleRetired ''op'' \<lparr>b_ID = ''b1'', b_Name = ''B'', b_RetiredAt = None\<rparr> [] []
      [(''u'', demo_person)] of
     Inl e \<Rightarrow> False
   | Inr plan \<Rightarrow> in_sync (deliver (fst plan) {(''u'', RoleKey ''p'' ''a''), (''u'', RoleKey ''p'' ''c'')})
       [(''u'', demo_person)] (\<lambda>p. effectiveClosure (baseFrom p ''b1'') [])"
proof -
  have base: "held (userBaseHoldings demo_person) k \<longleftrightarrow> k = RoleKey ''p'' ''a'' \<or> k = RoleKey ''p'' ''c''" for k
    by (auto simp: userBaseHoldings_def held_baseFrom demo_person_def zero_person_def grant_key_def)
  have "in_sync {(''u'', RoleKey ''p'' ''a''), (''u'', RoleKey ''p'' ''c'')}
      [(''u'', demo_person)] (\<lambda>p. effectiveClosure (userBaseHoldings p) [])"
    by (auto simp: in_sync_def effectiveClosure_def Closure_iff base rule_edges_def)
  from bundle_retired_keeps_in_sync [OF _ this, where actor = "''op''" and blockers = "[]"
      and b = "\<lparr>b_ID = ''b1'', b_Name = ''B'', b_RetiredAt = None\<rparr>"]
  show ?thesis by (auto split: sum.splits)
qed

section \<open>Rules that follow a direct write\<close>

lemma ruleReachingRule_Some:
  "(\<exists>r \<in> set rules. tgt_of newRoleKey r = k \<and> held c (src_of newRoleKey r)) \<Longrightarrow>
   \<exists>r \<in> set rules. ruleReachingRule rules c k = Some r \<and> tgt_of newRoleKey r = k"
  by (induction rules) (auto simp: src_of_def tgt_of_def newRoleKey_def)

lemma derived_has_rule:
  assumes "held (effectiveClosure base rules) k" and "\<not> held base k"
  shows "\<exists>r \<in> set rules. ruleReachingRule rules (effectiveClosure base rules) k = Some r \<and>
           tgt_of newRoleKey r = k"
proof (rule ruleReachingRule_Some)
  from assms obtain b where b: "held base b" "(b, k) \<in> (rule_edges newRoleKey rules)\<^sup>*"
    by (auto simp: effectiveClosure_def Closure_iff)
  from b(2) show "\<exists>r \<in> set rules. tgt_of newRoleKey r = k \<and> held (effectiveClosure base rules) (src_of newRoleKey r)"
  proof (cases rule: rtranclE)
    case (step j)
    with b(1) show ?thesis
      by (force simp: effectiveClosure_def Closure_iff rule_edges_def)
  qed (use b assms(2) in simp)
qed

text \<open>
  Every write the rules add to a direct write is accounted for: it is a give or a
  removal of one role, with the person of the write, and it names an active rule whose
  target is that role.
\<close>

theorem followRules_names_a_rule:
  "w \<in> set (followRules p rules before after) \<Longrightarrow>
     p_UserID w = p_UserID p \<and> p_Source w = ''rule'' \<and>
     (p_OpType w = Add \<or> p_OpType w = Revoke) \<and>
     (\<exists>r. r \<in> set rules \<and> p_SourceRef w = rule_ID r \<and>
        p_ProjectID w = TargetProject r \<and> p_RoleKeys w = [TargetRole r])"
proof -
  assume w: "w \<in> set (followRules p rules before after)"
  let ?B = "userBaseHoldings before" and ?A = "userBaseHoldings after"
  let ?cb = "effectiveClosure ?B rules" and ?ca = "effectiveClosure ?A rules"
  let ?d = "closureDelta ?cb ?ca"
  from w consider k where "k \<in> set (fst ?d)" "held ?B k = held ?A k"
      "w = (delta_write (p_UserID p) ''rule'' (ruleReaching rules ?ca k) Add k)
             \<lparr>p_GrantedBy := p_GrantedBy w, p_Reason := p_Reason w, p_PayloadJSON := p_PayloadJSON w\<rparr>"
    | k where "k \<in> set (snd ?d)" "held ?B k = held ?A k"
      "w = (delta_write (p_UserID p) ''rule'' (ruleReaching rules ?cb k) Revoke k)
             \<lparr>p_GrantedBy := p_GrantedBy w, p_Reason := p_Reason w, p_PayloadJSON := p_PayloadJSON w\<rparr>"
    by (fastforce simp: followRules_def ruleDelta_def Let_def deltaWrites_def delta_write_def zero_params_def
        split: if_splits)
  then obtain k op where
    k: "(op = Add \<and> k \<in> set (fst ?d) \<or> op = Revoke \<and> k \<in> set (snd ?d)) \<and> held ?B k = held ?A k" and
    w': "p_OpType w = op" "p_UserID w = p_UserID p" "p_Source w = ''rule''"
      "p_ProjectID w = ProjectID k" "p_RoleKeys w = [RoleOf k]"
      "p_SourceRef w = ruleReaching rules (if op = Revoke then ?cb else ?ca) k"
  proof cases
    case (1 k)
    show thesis by (rule that [of Add k]) (use 1(1,2) in simp, (subst 1(3), simp add: delta_write_def zero_params_def)+)
  next
    case (2 k)
    show thesis by (rule that [of Revoke k]) (use 2(1,2) in simp, (subst 2(3), simp add: delta_write_def zero_params_def)+)
  qed
  have "\<exists>r \<in> set rules. ruleReachingRule rules (if op = Revoke then ?cb else ?ca) k = Some r \<and> tgt_of newRoleKey r = k"
  proof (cases "op = Revoke")
    case True
    with k have "held ?cb k" "\<not> held ?ca k" "held ?B k = held ?A k" by (auto simp: eff.delta_revokes)
    with eff.cl_extensive have "held ?cb k" "\<not> held ?B k" by blast+
    with derived_has_rule True show ?thesis by simp
  next
    case False
    with k have "held ?ca k" "\<not> held ?cb k" "held ?B k = held ?A k" by (auto simp: eff.delta_adds)
    with eff.cl_extensive have "held ?ca k" "\<not> held ?A k" by blast+
    with derived_has_rule False show ?thesis by simp
  qed
  then obtain r where "r \<in> set rules" "ruleReachingRule rules (if op = Revoke then ?cb else ?ca) k = Some r"
    "tgt_of newRoleKey r = k" by blast
  then show ?thesis using w' k
    by (auto simp: ruleReaching_def tgt_of_def newRoleKey_def)
qed

theorem followRules_names_a_rule_witness:
  "\<exists>w. w \<in> set (followRules zero_params [demo_rule] zero_person demo_person) \<and>
     (\<exists>r. r \<in> set [demo_rule] \<and> p_SourceRef w = rule_ID r)"
proof -
  have "\<exists>w. w \<in> set (followRules zero_params [demo_rule] zero_person demo_person)"
    by (simp add: followRules_def ruleDelta_def userBaseHoldings_def baseFrom_def demo_person_def
        zero_person_def grant_key_def effectiveClosure_def Closure_def held_keys_def held_def Ends_def
        ends_rule_def newRoleKey_def demo_rule_def rule_with_def closureDelta_def sortRoleKeys_def
        deltaWrites_def Let_def) (rule exI [of _ "RoleKey ''q'' ''b''"], simp)
  then show ?thesis using followRules_names_a_rule by blast
qed

end
