(* ===== verification/Clock.thy ===== *)
theory Clock
  imports Go_Prelude
begin

text \<open>
  \<^verbatim>\<open>backend/internal/clock\<close>: the one zone days are counted in, and the end of a day.

  A \<open>time.Location\<close> is its offset from UTC in nanoseconds: a zone without transitions, as
  the default (Asia/Kolkata) has been since 1945. The calendar of the \<open>time\<close> package is the
  proleptic Gregorian calendar; days are numbered from 1 January of year 1, the zero time,
  and a date is computed from the year that starts in March, so that the leap day is its
  last day.
\<close>

section \<open>The calendar\<close>

abbreviation second :: int where "second \<equiv> 1000000000"

abbreviation day_ns :: int where "day_ns \<equiv> 86400000000000"

text \<open>The year of the 400-year era and the day of that year, both from 0 and from March.\<close>

definition year_of_era :: "int \<Rightarrow> int \<times> int" where
  "year_of_era doe =
     (let c = min 3 (doe div 36524); r = doe - 36524 * c;
          q = r div 1461; r2 = r - 1461 * q;
          y = min 3 (r2 div 365)
      in (100 * c + 4 * q + y, r2 - 365 * y))"

definition civil :: "int \<Rightarrow> int \<times> int \<times> int" where
  "civil n =
     (let z = n + 306; era = z div 146097;
          (yoe, doy) = year_of_era (z - era * 146097);
          mp = (5 * doy + 2) div 153;
          d = doy - (153 * mp + 2) div 5 + 1;
          m = (if mp < 10 then mp + 3 else mp - 9);
          y = yoe + era * 400
      in (if m \<le> 2 then y + 1 else y, m, d))"

definition days_of_civil :: "int \<times> int \<times> int \<Rightarrow> int" where
  "days_of_civil ymd =
     (case ymd of (y, m, d) \<Rightarrow>
        let y' = (if m \<le> 2 then y - 1 else y);
            era = y' div 400; yoe = y' - era * 400;
            mp = (if m > 2 then m - 3 else m + 9);
            doy = (153 * mp + 2) div 5 + d - 1
        in era * 146097 + (yoe * 365 + yoe div 4 - yoe div 100 + doy) - 306)"

text \<open>The parts of \<open>time.Format\<close>: a number padded with zeros to a width, and the month names.\<close>

definition pad :: "nat \<Rightarrow> int \<Rightarrow> string" where
  "pad w n = (let s = itoa (nat n) in replicate (w - length s) CHR ''0'' @ s)"

definition month_abbr :: "int \<Rightarrow> string" where
  "month_abbr m = [''Jan'', ''Feb'', ''Mar'', ''Apr'', ''May'', ''Jun'', ''Jul'', ''Aug'', ''Sep'',
                   ''Oct'', ''Nov'', ''Dec''] ! nat (m - 1)"

text \<open>\<open>time.DateOnly\<close>, \<open>2 Jan 2006\<close> and \<open>2006-01-02T15:04:05Z\<close> of the local nanosecond.\<close>

definition format_date :: "int \<Rightarrow> string" where
  "format_date lt =
     (case civil (lt div day_ns) of (y, m, d) \<Rightarrow> pad 4 y @ ''-'' @ pad 2 m @ ''-'' @ pad 2 d)"

definition format_day_month :: "int \<Rightarrow> string" where
  "format_day_month lt =
     (case civil (lt div day_ns) of (y, m, d) \<Rightarrow> pad 0 d @ '' '' @ month_abbr m @ '' '' @ pad 4 y)"

definition format_seconds :: "int \<Rightarrow> string" where
  "format_seconds lt =
     (let s = lt mod day_ns div second
      in format_date lt @ ''T'' @ pad 2 (s div 3600) @ '':'' @ pad 2 (s div 60 mod 60) @ '':'' @
         pad 2 (s mod 60))"

text \<open>\<open>time.RFC3339Nano\<close> in UTC: the fraction without its trailing zeros, or none.\<close>

definition format_rfc3339nano :: "int \<Rightarrow> string" where
  "format_rfc3339nano t =
     (let f = t mod second
      in format_seconds t @
         (if f = 0 then [] else ''.'' @ rev (dropWhile (\<lambda>c. c = CHR ''0'') (rev (pad 9 f)))) @ ''Z'')"

section \<open>The package\<close>

definition Default :: int where
  "Default = 19800 * second"

definition Day :: "int \<Rightarrow> time \<Rightarrow> string" where
  "Day loc t = format_date (t + loc)"

text \<open>
  \<open>time.ParseInLocation\<close> of a date: ten characters, digits and dashes in their places, and
  a day the calendar has.
\<close>

definition parse_date :: "string \<Rightarrow> (int \<times> int \<times> int) option" where
  "parse_date s =
     (let y = take 4 s; m = take 2 (drop 5 s); d = take 2 (drop 8 s);
          ymd = (int (atoi y), int (atoi m), int (atoi d))
      in if length s = 10 \<and> list_all is_digit (y @ m @ d) \<and> s ! 4 = CHR ''-'' \<and> s ! 7 = CHR ''-'' \<and>
            civil (days_of_civil ymd) = ymd
         then Some ymd else None)"

definition Midnight :: "int \<Rightarrow> string \<Rightarrow> time option" where
  "Midnight loc day = map_option (\<lambda>ymd. days_of_civil ymd * day_ns - loc) (parse_date day)"

definition EndOfDay :: "int \<Rightarrow> string \<Rightarrow> time option" where
  "EndOfDay loc day =
     (case Midnight loc day of
        None \<Rightarrow> None
      | Some m \<Rightarrow> Some (m + day_ns - second))"

definition EndAfterDays :: "int \<Rightarrow> time \<Rightarrow> int \<Rightarrow> time" where
  "EndAfterDays loc t n = ((t + loc) div day_ns + n + 1) * day_ns - loc - second"

section \<open>The calendar is a bijection\<close>

lemma year_of_era_bounds:
  assumes "0 \<le> doe" "doe < 146097" "year_of_era doe = (yoe, doy)"
  shows "0 \<le> yoe" "yoe < 400" "0 \<le> doy" "doy \<le> 365" "yoe * 365 + yoe div 4 - yoe div 100 + doy = doe"
proof -
  define c where "c = min 3 (doe div 36524)"
  define r where "r = doe - 36524 * c"
  define q where "q = r div 1461"
  define r2 where "r2 = r - 1461 * q"
  define y where "y = min 3 (r2 div 365)"
  have c: "0 \<le> c" "c \<le> 3" using assms(1) by (auto simp: c_def)
  have r: "0 \<le> r" "r \<le> 36524" using assms(1,2) unfolding r_def c_def by linarith+
  have q: "0 \<le> q" "q \<le> 24" using r unfolding q_def by linarith+
  have r2: "0 \<le> r2" "r2 \<le> 1460" using r unfolding r2_def q_def by linarith+
  have y: "0 \<le> y" "y \<le> 3" using r2 by (auto simp: y_def)
  have doy: "0 \<le> r2 - 365 * y" "r2 - 365 * y \<le> 365" using r2 unfolding y_def by linarith+
  have eq: "yoe = 100 * c + 4 * q + y" "doy = r2 - 365 * y"
    using assms(3) by (simp_all add: year_of_era_def Let_def c_def r_def q_def r2_def y_def)
  have "yoe div 4 = 25 * c + q" "yoe div 100 = c" using c q y unfolding eq by linarith+
  then show "0 \<le> yoe" "yoe < 400" "0 \<le> doy" "doy \<le> 365" "yoe * 365 + yoe div 4 - yoe div 100 + doy = doe"
    using c q y doy eq by (simp_all add: r2_def r_def)
qed

lemma days_of_civil_civil [simp]: "days_of_civil (civil n) = n"
proof -
  define era where "era = (n + 306) div 146097"
  define doe where "doe = n + 306 - era * 146097"
  obtain yoe doy where yd: "year_of_era doe = (yoe, doy)" by fastforce
  have "0 \<le> doe" "doe < 146097" unfolding doe_def era_def by linarith+
  note b = year_of_era_bounds [OF this yd]
  define mp where "mp = (5 * doy + 2) div 153"
  have mp: "0 \<le> mp" "mp \<le> 11" using b unfolding mp_def by linarith+
  have era: "(yoe + era * 400) div 400 = era" using b by simp
  define a where "a = (153 * mp + 2) div 5"
  have civ: "civil n = (if mp < 10 then yoe + era * 400 else yoe + era * 400 + 1,
      if mp < 10 then mp + 3 else mp - 9, doy - a + 1)"
    unfolding civil_def Let_def era_def [symmetric] doe_def [symmetric] yd prod.case
      mp_def [symmetric] a_def [symmetric]
    using mp by (cases "mp < 10") simp_all
  have "days_of_civil (civil n) = era * 146097 + (yoe * 365 + yoe div 4 - yoe div 100 + doy) - 306"
  proof (cases "mp < 10")
    case True
    then have "\<not> mp + 3 \<le> 2" "mp + 3 > 2" "mp + 3 - 3 = mp" using mp by simp_all
    with True show ?thesis unfolding civ days_of_civil_def Let_def prod.case
      by (simp only: if_True if_False era a_def [symmetric]) simp
  next
    case False
    then have "mp - 9 \<le> 2" "\<not> mp - 9 > 2" "mp - 9 + 9 = mp" using mp by simp_all
    with False show ?thesis unfolding civ days_of_civil_def Let_def prod.case
      by (simp only: if_True if_False add_diff_cancel_right' era a_def [symmetric])
  qed
  also have "\<dots> = era * 146097 + doe - 306" unfolding b(5) ..
  also have "\<dots> = n" by (simp add: doe_def)
  finally show ?thesis .
qed

section \<open>Printing and reading a day\<close>

lemma length_itoa: "n < 10 ^ k \<Longrightarrow> 0 < k \<Longrightarrow> length (itoa n) \<le> k"
proof (induction n arbitrary: k rule: itoa.induct)
  case (1 n)
  show ?case
  proof (cases "n < 10")
    case True
    with 1 show ?thesis by (subst itoa.simps) simp
  next
    case False
    with 1(2) obtain k' where k: "k = Suc k'" "0 < k'"
      by (cases k; cases "k - 1") auto
    with 1(2) have "n div 10 < 10 ^ k'" by simp
    with 1(1) False k have "length (itoa (n div 10)) \<le> k'" by simp
    with False k show ?thesis by (subst itoa.simps) simp
  qed
qed

lemma atoi_replicate: "atoi (replicate k CHR ''0'' @ s) = atoi s"
  by (induction k) (auto simp: atoi_def digit_val_def)

lemma pad_facts:
  assumes "0 \<le> n" "n < 10 ^ w" "0 < w"
  shows "length (pad w n) = w" "list_all is_digit (pad w n)" "int (atoi (pad w n)) = n"
proof -
  have "nat n < 10 ^ w" using assms by (simp add: nat_less_iff)
  then have "length (itoa (nat n)) \<le> w" using length_itoa assms(3) by blast
  moreover have "is_digit CHR ''0''" by (simp add: is_digit_def)
  ultimately show "length (pad w n) = w" "list_all is_digit (pad w n)" "int (atoi (pad w n)) = n"
    using assms itoa_digits [of "nat n"] by (auto simp: pad_def Let_def atoi_replicate list_all_iff)
qed

lemma civil_bounds:
  assumes "civil n = (y, m, d)"
  shows "1 \<le> m" "m \<le> 12" "1 \<le> d" "d \<le> 31"
proof -
  define doe where "doe = n + 306 - (n + 306) div 146097 * 146097"
  obtain yoe doy where yd: "year_of_era doe = (yoe, doy)" by fastforce
  have "0 \<le> doe" "doe < 146097" unfolding doe_def by linarith+
  note b = year_of_era_bounds [OF this yd]
  define mp where "mp = (5 * doy + 2) div 153"
  have mp: "0 \<le> mp" "mp \<le> 11" using b unfolding mp_def by linarith+
  have "m = (if mp < 10 then mp + 3 else mp - 9)" "d = doy - (153 * mp + 2) div 5 + 1"
    using assms yd unfolding civil_def Let_def doe_def [symmetric] by (auto simp: mp_def [symmetric])
  moreover have "0 \<le> doy - (153 * mp + 2) div 5" "doy - (153 * mp + 2) div 5 \<le> 30"
    using b unfolding mp_def by linarith+
  ultimately show "1 \<le> m" "m \<le> 12" "1 \<le> d" "d \<le> 31" using mp by auto
qed

lemma parse_format:
  assumes "civil (lt div day_ns) = (y, m, d)" "0 \<le> y" "y < 10000"
  shows "parse_date (format_date lt) = Some (y, m, d)"
proof -
  note b = civil_bounds [OF assms(1)]
  have y: "length (pad 4 y) = 4" "list_all is_digit (pad 4 y)" "int (atoi (pad 4 y)) = y"
    using pad_facts [of y 4] assms by simp_all
  have m: "length (pad 2 m) = 2" "list_all is_digit (pad 2 m)" "int (atoi (pad 2 m)) = m"
    using pad_facts [of m 2] b by simp_all
  have d: "length (pad 2 d) = 2" "list_all is_digit (pad 2 d)" "int (atoi (pad 2 d)) = d"
    using pad_facts [of d 2] b by simp_all
  have "civil (days_of_civil (y, m, d)) = (y, m, d)"
    by (metis days_of_civil_civil assms(1))
  then show ?thesis
    using y m d by (simp add: parse_date_def format_date_def assms(1) Let_def nth_append)
qed

lemma EndAfterDays_day:
  "(EndAfterDays loc t n + loc) div day_ns = (t + loc) div day_ns + n"
  "(EndAfterDays loc t n + second + loc) mod day_ns = 0"
  by (simp_all add: EndAfterDays_def)

lemma EndAfterDays_after: "0 \<le> n \<Longrightarrow> t < EndAfterDays loc t n + second"
proof -
  assume "0 \<le> n"
  then have "((t + loc) div day_ns + 1) * day_ns \<le> ((t + loc) div day_ns + n + 1) * day_ns" by simp
  moreover have "t + loc < ((t + loc) div day_ns + 1) * day_ns"
    using div_mult_mod_eq [of "t + loc" day_ns] pos_mod_bound [of day_ns "t + loc"]
    unfolding distrib_right by linarith
  ultimately show ?thesis by (simp add: EndAfterDays_def)
qed

lemma EndAfterDays_shift: "EndAfterDays loc t n = EndAfterDays loc t 0 + n * day_ns"
  by (simp add: EndAfterDays_def algebra_simps)

text \<open>
  An end date lasts through the whole of its day, and only that: reading the day of an
  instant back gives its last second, which is also what ending after no days gives; ending
  after n days is the last second of the n-th day after, whatever the time of day asked
  at, so the second after it is a midnight; and for n at least 0 it is not over yet.
\<close>

theorem ends_are_whole_days:
  assumes "0 \<le> fst (civil ((t + loc) div day_ns))" and "fst (civil ((t + loc) div day_ns)) < 10000"
  shows "EndOfDay loc (Day loc t) = Some (EndAfterDays loc t 0) \<and>
         (EndAfterDays loc t n + loc) div day_ns = (t + loc) div day_ns + n \<and>
         (EndAfterDays loc t n + second + loc) mod day_ns = 0 \<and>
         (0 \<le> n \<longrightarrow> t < EndAfterDays loc t n + second)"
proof -
  obtain y m d where c: "civil ((t + loc) div day_ns) = (y, m, d)" by (metis prod_cases3)
  with parse_format assms have "parse_date (Day loc t) = Some (y, m, d)" by (simp add: Day_def)
  moreover have "days_of_civil (y, m, d) = (t + loc) div day_ns" by (metis c days_of_civil_civil)
  ultimately have "EndOfDay loc (Day loc t) = Some (EndAfterDays loc t 0)"
    by (simp add: EndOfDay_def Midnight_def EndAfterDays_def)
  then show ?thesis using EndAfterDays_day EndAfterDays_after by blast
qed

theorem ends_are_whole_days_witness:
  "EndOfDay Default (Day Default (40 * day_ns + 5 * second)) = Some (EndAfterDays Default (40 * day_ns + 5 * second) 0)"
proof -
  have n: "(40 * day_ns + 5 * second + Default) div day_ns = 40" by (simp add: Default_def)
  have "fst (civil 40) = 1" by code_simp
  then have h: "0 \<le> fst (civil ((40 * day_ns + 5 * second + Default) div day_ns))"
    "fst (civil ((40 * day_ns + 5 * second + Default) div day_ns)) < 10000"
    unfolding n by simp_all
  from ends_are_whole_days [OF h, of 7] show ?thesis by (rule conjunct1)
qed

end
