(* ===== verification/Fingerprint.thy ===== *)
theory Fingerprint
  imports Cascade Clock
begin

text \<open>
  \<^verbatim>\<open>backend/internal/services/fingerprint.go\<close>: the digest of what an operator
  reviewed, which an apply recomputes and compares. The digest of a byte string
  (SHA-256 in hexadecimal) is the parameter \<open>H\<close>; what a theorem needs of it is that it does
  not collide on the two inputs compared. The encoding it digests is modelled as written,
  and proved injective, so two equal fingerprints are of the same reviewed object.
\<close>

section \<open>The encoding\<close>

definition encode_field :: "string \<Rightarrow> string" where
  "encode_field f = itoa (length f) @ '':'' @ f"

fun encode_fields :: "string list \<Rightarrow> string" where
  "encode_fields [] = []"
| "encode_fields (f # fs) = encode_field f @ encode_fields fs"

definition Fingerprint :: "(string \<Rightarrow> string) \<Rightarrow> string list \<Rightarrow> string" where
  "Fingerprint H fs = H (encode_fields fs)"

definition itoa_int :: "int \<Rightarrow> string" where
  "itoa_int n = (if n < 0 then ''-'' @ itoa (nat (- n)) else itoa (nat n))"

section \<open>What is digested\<close>

definition user_access_grant_fields :: "direct_grant \<Rightarrow> string list" where
  "user_access_grant_fields g =
     [dg_ID g, dg_ProjectID g, dg_RoleKey g, dg_Source g,
      (case dg_ExpiresAt g of None \<Rightarrow> '''' | Some t \<Rightarrow> format_seconds t @ ''Z'')]"

definition user_access_fields ::
  "string \<Rightarrow> string \<Rightarrow> string list \<Rightarrow> direct_grant list \<Rightarrow> string list" where
  "user_access_fields userID status roles grants =
     [''user'', userID, ''status'', status, ''roles''] @ sort roles @ [''grants''] @
     concat (map user_access_grant_fields (sort_key dg_ID grants))"

definition FingerprintUserAccess ::
  "(string \<Rightarrow> string) \<Rightarrow> string \<Rightarrow> string \<Rightarrow> string list \<Rightarrow> direct_grant list \<Rightarrow> string" where
  "FingerprintUserAccess H userID status roles grants =
     Fingerprint H (user_access_fields userID status roles grants)"

text \<open>A nil entry of the role map is skipped; only its key is read.\<close>

fun effectiveRoleKeys :: "(role_key, 'r option) gomap \<Rightarrow> string list" where
  "effectiveRoleKeys [] = []"
| "effectiveRoleKeys ((k, r) # m) =
     (if r = None then effectiveRoleKeys m
      else (ProjectID k @ ''/'' @ RoleOf k) # effectiveRoleKeys m)"

record drift_item =
  di_ID :: string
  di_Target :: string
  di_Status :: string
  di_UserID :: string
  di_ProjectID :: string
  di_RoleKeys :: "string list"

definition drift_item_fields :: "drift_item \<Rightarrow> string list" where
  "drift_item_fields d =
     [''drift'', di_ID d, di_Target d, di_Status d, di_UserID d, di_ProjectID d, ''roles''] @
     sort (di_RoleKeys d)"

definition FingerprintDriftItem :: "(string \<Rightarrow> string) \<Rightarrow> drift_item \<Rightarrow> string" where
  "FingerprintDriftItem H d = Fingerprint H (drift_item_fields d)"

record access_ask = access_request +
  ask_DurationDays :: "int option"
  ask_AskedUntil :: "time option"

definition access_ask_fields :: "access_ask \<Rightarrow> string list" where
  "access_ask_fields r =
     [''request'', req_ID r, req_status r, req_requester r, req_project r, req_role r,
      (case ask_DurationDays r of None \<Rightarrow> '''' | Some d \<Rightarrow> itoa_int d)] @
     (case ask_AskedUntil r of None \<Rightarrow> [] | Some t \<Rightarrow> [''until'', format_rfc3339nano t])"

definition FingerprintAccessRequest :: "(string \<Rightarrow> string) \<Rightarrow> access_ask \<Rightarrow> string" where
  "FingerprintAccessRequest H r = Fingerprint H (access_ask_fields r)"

section \<open>A bulk request\<close>

record bulk_request =
  br_Op :: string
  br_UserIDs :: "string list"
  br_ProjectID :: string
  br_RoleKey :: string
  br_BundleID :: string
  br_Reason :: string
  br_DurationDays :: int
  br_GrantIDs :: "string list"
  br_Actor :: string

fun dedupe_from :: "string list \<Rightarrow> string list \<Rightarrow> string list" where
  "dedupe_from seen [] = []"
| "dedupe_from seen (i # is) =
     (let i = trim_space i
      in if i = '''' then dedupe_from seen is
         else if i \<in> set seen then dedupe_from seen is
         else i # dedupe_from (i # seen) is)"

definition dedupeIDs :: "string list \<Rightarrow> string list" where
  "dedupeIDs ids = dedupe_from [] ids"

definition bulk_request_fields :: "bulk_request \<Rightarrow> string list" where
  "bulk_request_fields req =
     [''bulk'', br_Op req, br_ProjectID req, br_RoleKey req, br_BundleID req,
      itoa_int (br_DurationDays req), ''users''] @
     sort (dedupeIDs (br_UserIDs req)) @ [''grants''] @ sort (br_GrantIDs req)"

definition FingerprintBulkRequest :: "(string \<Rightarrow> string) \<Rightarrow> bulk_request \<Rightarrow> string" where
  "FingerprintBulkRequest H req = Fingerprint H (bulk_request_fields req)"

definition id_cohort_fields :: "string \<Rightarrow> string list \<Rightarrow> string list \<Rightarrow> string list" where
  "id_cohort_fields op ids params =
     [''cohort'', op] @ params @ [''ids''] @ sort (dedupeIDs ids)"

definition FingerprintIDCohort :: "(string \<Rightarrow> string) \<Rightarrow> string \<Rightarrow> string list \<Rightarrow> string list \<Rightarrow> string" where
  "FingerprintIDCohort H op ids params = Fingerprint H (id_cohort_fields op ids params)"

section \<open>The encoding is injective\<close>

lemma colon_not_digit: "\<not> is_digit (CHR '':'')"
  by (simp add: is_digit_def)

lemma takeWhile_itoa: "takeWhile is_digit (itoa n @ CHR '':'' # s) = itoa n"
  using itoa_digits [of n] by (simp add: list_all_iff takeWhile_append colon_not_digit)

lemma encode_field_inj:
  assumes "encode_field f @ r = encode_field f' @ r'"
  shows "f = f' \<and> r = r'"
proof -
  have eq: "itoa (length f) @ CHR '':'' # (f @ r) = itoa (length f') @ CHR '':'' # (f' @ r')"
    using assms by (simp add: encode_field_def)
  then have "itoa (length f) = itoa (length f')" using takeWhile_itoa by metis
  then have "length f = length f'" by simp
  with eq show ?thesis by simp
qed

lemma encode_fields_inj: "encode_fields xs = encode_fields ys \<Longrightarrow> xs = ys"
proof (induction xs arbitrary: ys)
  case Nil
  then show ?case by (cases ys) (auto simp: encode_field_def)
next
  case (Cons x xs)
  then obtain y ys' where ys: "ys = y # ys'" by (cases ys) (auto simp: encode_field_def)
  with Cons.prems have "encode_field x @ encode_fields xs = encode_field y @ encode_fields ys'" by simp
  from encode_field_inj [OF this] Cons.IH ys show ?case by simp
qed

lemma Fingerprint_eq:
  "inj_on H {encode_fields xs, encode_fields ys} \<Longrightarrow> Fingerprint H xs = Fingerprint H ys \<longleftrightarrow> xs = ys"
  by (auto simp: Fingerprint_def dest: inj_onD encode_fields_inj)

lemma itoa_int_inj [simp]: "itoa_int m = itoa_int n \<longleftrightarrow> m = n"
proof -
  have "itoa k \<noteq> CHR ''-'' # s" for k s
    using itoa_digits [of k] by (auto simp: is_digit_def)
  then show ?thesis unfolding itoa_int_def
    by (auto split: if_splits) (metis nat_eq_iff nle_le order.order_iff_strict neg_le_0_iff_le not_less)+
qed

text \<open>The list after a marker that the list before it does not contain.\<close>

lemma marker_split:
  "m \<notin> set xs \<Longrightarrow> m \<notin> set xs' \<Longrightarrow> xs @ m # ys = xs' @ m # ys' \<longleftrightarrow> xs = xs' \<and> ys = ys'"
proof (induction xs arbitrary: xs')
  case Nil
  then show ?case by (cases xs') auto
next
  case (Cons x xs)
  then show ?case by (cases xs') auto
qed

lemma concat_blocks_inj:
  assumes "\<And>x. length (f x) = n" "0 < n" "concat (map f xs) = concat (map f ys)"
  shows "map f xs = map f ys"
  using assms(3)
proof (induction xs arbitrary: ys)
  case Nil
  then show ?case using assms(1,2) by (cases ys) (auto dest: arg_cong [of _ _ length])
next
  case (Cons x xs)
  have "f x \<noteq> []" using assms(1,2) by (metis length_greater_0_conv)
  with Cons.prems obtain y ys' where ys: "ys = y # ys'" by (cases ys) auto
  with Cons.prems assms(1) have "f x = f y \<and> concat (map f xs) = concat (map f ys')"
    by (simp add: append_eq_append_conv)
  with Cons.IH ys show ?case by simp
qed

lemma mset_map_sort_key: "mset (map f (sort_key k xs)) = mset (map f xs)"
  by simp

lemma sort_eq_iff_mset: "sort xs = sort ys \<longleftrightarrow> mset xs = mset (ys :: 'a :: linorder list)"
  by (metis mset_sort properties_for_sort sorted_sort)

section \<open>Equal fingerprints are of the same object\<close>

lemma effectiveRoleKeys_slash: "r \<in> set (effectiveRoleKeys m) \<Longrightarrow> CHR ''/'' \<in> set r"
  by (induction m rule: effectiveRoleKeys.induct) (auto split: if_splits)

lemma grants_not_role: "''grants'' \<notin> set (effectiveRoleKeys m)"
  using effectiveRoleKeys_slash by force

lemma user_access_fields_eq:
  "user_access_fields u st (effectiveRoleKeys m) gs =
   user_access_fields u' st' (effectiveRoleKeys m') gs' \<longleftrightarrow>
     u = u' \<and> st = st' \<and> mset (effectiveRoleKeys m) = mset (effectiveRoleKeys m') \<and>
     map user_access_grant_fields (sort_key dg_ID gs) =
     map user_access_grant_fields (sort_key dg_ID gs')"
proof -
  have "length (user_access_grant_fields g) = 5" for g
    by (simp add: user_access_grant_fields_def)
  then have "concat (map user_access_grant_fields as) = concat (map user_access_grant_fields bs) \<longleftrightarrow>
      map user_access_grant_fields as = map user_access_grant_fields bs" for as bs
    by (metis concat_blocks_inj zero_less_numeral)
  then show ?thesis
    using grants_not_role [of m] grants_not_role [of m']
    by (auto simp: user_access_fields_def marker_split sort_eq_iff_mset)
qed

text \<open>
  Two rehearsals of people have the same fingerprint, as long as the digest does not
  collide on them, exactly when they were of the same person in the same directory status,
  with the same effective roles whatever order they were read in, and the same direct
  grants, row by row in the order of their ids, with their project, role, source and the
  printed end. So a grant renewed, re-sourced or replaced, a role gained or lost and an
  account that left each move the fingerprint.
\<close>

theorem FingerprintUserAccess_exact:
  assumes "inj_on H {encode_fields (user_access_fields u st (effectiveRoleKeys m) gs),
                     encode_fields (user_access_fields u' st' (effectiveRoleKeys m') gs')}"
  shows "FingerprintUserAccess H u st (effectiveRoleKeys m) gs =
         FingerprintUserAccess H u' st' (effectiveRoleKeys m') gs' \<longleftrightarrow>
           u = u' \<and> st = st' \<and> mset (effectiveRoleKeys m) = mset (effectiveRoleKeys m') \<and>
           map user_access_grant_fields (sort_key dg_ID gs) =
           map user_access_grant_fields (sort_key dg_ID gs')"
  using Fingerprint_eq [OF assms] by (simp add: FingerprintUserAccess_def user_access_fields_eq)

theorem FingerprintUserAccess_exact_witness:
  "FingerprintUserAccess (\<lambda>s. s) ''u'' ''active'' (effectiveRoleKeys [(RoleKey ''p'' ''a'', Some ())]) [] \<noteq>
   FingerprintUserAccess (\<lambda>s. s) ''u'' ''locked'' (effectiveRoleKeys [(RoleKey ''p'' ''a'', Some ())]) []"
  using FingerprintUserAccess_exact [of "\<lambda>s. s" "''u''" "''active''" "[(RoleKey ''p'' ''a'', Some ())]" "[]"
      "''u''" "''locked''" "[(RoleKey ''p'' ''a'', Some ())]" "[]"]
  by (simp add: inj_on_def)

text \<open>
  The role strings join project and role on a slash, so two roles whose names contain one
  can print alike; the fingerprint does not tell these apart.
\<close>

lemma effectiveRoleKeys_collision:
  "effectiveRoleKeys [(RoleKey ''a/b'' ''c'', Some r)] = effectiveRoleKeys [(RoleKey ''a'' ''b/c'', Some r)]"
  by simp

lemma set_dedupe_from: "set (dedupe_from seen is) = {trim_space i |i. i \<in> set is \<and> trim_space i \<noteq> ''''} - set seen"
  by (induction seen "is" rule: dedupe_from.induct) (auto simp: Let_def)

lemma distinct_dedupe_from: "distinct (dedupe_from seen is)"
  by (induction seen "is" rule: dedupe_from.induct) (auto simp: Let_def set_dedupe_from)

lemma set_dedupeIDs: "set (dedupeIDs is) = {trim_space i |i. i \<in> set is \<and> trim_space i \<noteq> ''''}"
  by (simp add: dedupeIDs_def set_dedupe_from)

lemma distinct_dedupeIDs [simp]: "distinct (dedupeIDs is)"
  by (simp add: dedupeIDs_def distinct_dedupe_from)

lemma mset_dedupe_eq: "mset (dedupeIDs is) = mset (dedupeIDs js) \<longleftrightarrow> set (dedupeIDs is) = set (dedupeIDs js)"
  by (simp add: set_eq_iff_mset_eq_distinct)

text \<open>
  Two bulk requests have the same fingerprint, as long as the digest does not collide
  and nobody's id is the word \<open>grants\<close>, exactly when they ask for the same effect: the
  same operation, project, role, bundle and duration, the same set of people (however the
  list is ordered, padded or repeated) and the same grants. The reason and the actor are
  not part of it.
\<close>

theorem FingerprintBulkRequest_exact:
  assumes "inj_on H {encode_fields (bulk_request_fields a), encode_fields (bulk_request_fields b)}"
    and "''grants'' \<notin> set (dedupeIDs (br_UserIDs a))" and "''grants'' \<notin> set (dedupeIDs (br_UserIDs b))"
  shows "FingerprintBulkRequest H a = FingerprintBulkRequest H b \<longleftrightarrow>
           br_Op a = br_Op b \<and> br_ProjectID a = br_ProjectID b \<and> br_RoleKey a = br_RoleKey b \<and>
           br_BundleID a = br_BundleID b \<and> br_DurationDays a = br_DurationDays b \<and>
           {trim_space i |i. i \<in> set (br_UserIDs a) \<and> trim_space i \<noteq> ''''} =
           {trim_space i |i. i \<in> set (br_UserIDs b) \<and> trim_space i \<noteq> ''''} \<and>
           mset (br_GrantIDs a) = mset (br_GrantIDs b)"
  using Fingerprint_eq [OF assms(1)] assms(2,3)
  unfolding set_dedupeIDs [symmetric]
  by (simp add: FingerprintBulkRequest_def bulk_request_fields_def marker_split mset_dedupe_eq sort_eq_iff_mset)

definition demo_request :: bulk_request where
  "demo_request = \<lparr>br_Op = ''assign_bundle'', br_UserIDs = [''u1'', '' u2'', ''u1''], br_ProjectID = [],
     br_RoleKey = [], br_BundleID = ''b1'', br_Reason = ''term start'', br_DurationDays = 0,
     br_GrantIDs = [], br_Actor = ''op''\<rparr>"

theorem FingerprintBulkRequest_exact_witness:
  "FingerprintBulkRequest (\<lambda>s. s) demo_request =
   FingerprintBulkRequest (\<lambda>s. s) (demo_request\<lparr>br_UserIDs := [''u2'', ''u1''], br_Reason := ''other''\<rparr>)"
proof -
  have trim: "trim_space ''u1'' = ''u1''" "trim_space ''u2'' = ''u2''" "trim_space '' u2'' = ''u2''"
    by (simp_all add: trim_space_def is_space_def)
  let ?b = "demo_request\<lparr>br_UserIDs := [''u2'', ''u1''], br_Reason := ''other''\<rparr>"
  have ids: "dedupeIDs (br_UserIDs demo_request) = [''u1'', ''u2'']" "dedupeIDs (br_UserIDs ?b) = [''u2'', ''u1'']"
    using trim by (simp_all add: dedupeIDs_def demo_request_def)
  have "{trim_space i |i. i \<in> set (br_UserIDs demo_request) \<and> trim_space i \<noteq> []} =
        {trim_space i |i. i \<in> set (br_UserIDs ?b) \<and> trim_space i \<noteq> []}"
    unfolding set_dedupeIDs [symmetric] ids by auto
  then show ?thesis
    using FingerprintBulkRequest_exact [of "\<lambda>s. s" demo_request ?b] unfolding ids
    by (simp add: inj_on_def)
qed

end
