(* ===== verification/Bulk.thy ===== *)
theory Bulk
  imports Fingerprint
begin

text \<open>
  \<^verbatim>\<open>backend/internal/services/bulk.go\<close>, \<^verbatim>\<open>cancels.go\<close> and the preview half of
  \<^verbatim>\<open>rule_follow.go\<close>: the rows of a bulk plan. A row is rehearsed from what was read of
  one person: profile, effective roles, direct grants, the outbox rows their writes would
  cancel and the roles rules would add. \<open>now\<close> and \<open>loc\<close> are the clock and the zone;
  the reads that can fail are modelled by their results, an error ending the rehearsal.
\<close>

section \<open>Requests and rows\<close>

abbreviation BulkOpAssignRole :: string where "BulkOpAssignRole \<equiv> ''assign_role''"
abbreviation BulkOpRemoveRole :: string where "BulkOpRemoveRole \<equiv> ''remove_role''"
abbreviation BulkOpAssignBundle :: string where "BulkOpAssignBundle \<equiv> ''assign_bundle''"
abbreviation BulkOpRemoveBundle :: string where "BulkOpRemoveBundle \<equiv> ''remove_bundle''"
abbreviation BulkOpExtend :: string where "BulkOpExtend \<equiv> ''extend''"

abbreviation EffectApply :: string where "EffectApply \<equiv> ''apply''"
abbreviation EffectNoChange :: string where "EffectNoChange \<equiv> ''no_change''"
abbreviation EffectBlocked :: string where "EffectBlocked \<equiv> ''blocked''"
abbreviation EffectFailed :: string where "EffectFailed \<equiv> ''failed''"
abbreviation EffectApplied :: string where "EffectApplied \<equiv> ''applied''"
abbreviation EffectQueued :: string where "EffectQueued \<equiv> ''queued''"

text \<open>\<open>BulkOutcome\<close>; the retry of a queued row is set by the send and not read here.\<close>

record bulk_outcome =
  bo_UserID :: string
  bo_Name :: string
  bo_Email :: string
  bo_Effect :: string
  bo_Detail :: string
  bo_Consequence :: string
  bo_GrantIDs :: "string list"
  bo_Fingerprint :: string
  bo_CancelIDs :: "string list"

definition zero_outcome :: "string \<Rightarrow> bulk_outcome" where
  "zero_outcome uid = \<lparr>bo_UserID = uid, bo_Name = [], bo_Email = [], bo_Effect = [], bo_Detail = [],
     bo_Consequence = [], bo_GrantIDs = [], bo_Fingerprint = [], bo_CancelIDs = []\<rparr>"

record bulk_exclusion =
  bx_UserID :: string
  bx_Reason :: string

record bulk_summary =
  bs_Total :: nat
  bs_Apply :: nat
  bs_NoChange :: nat
  bs_Blocked :: nat
  bs_Failed :: nat
  bs_Succeeded :: nat
  bs_Queued :: nat

record bulk_plan =
  bp_Op :: string
  bp_Applied :: bool
  bp_Outcomes :: "bulk_outcome list"
  bp_Excluded :: "bulk_exclusion list"
  bp_Summary :: bulk_summary

definition BulkMaxUsers :: nat where
  "BulkMaxUsers = 500"

definition bulk_op_problems :: "bulk_request \<Rightarrow> (string, string) gomap" where
  "bulk_op_problems req =
     (if br_Op req = BulkOpAssignRole \<or> br_Op req = BulkOpRemoveRole then
        (let m = (if trim_space (br_ProjectID req) = '''' then AList.update ''project_id'' ''required'' [] else [])
         in if trim_space (br_RoleKey req) = '''' then AList.update ''role_key'' ''required'' m else m)
      else if br_Op req = BulkOpAssignBundle \<or> br_Op req = BulkOpRemoveBundle then
        (if trim_space (br_BundleID req) = '''' then AList.update ''bundle_id'' ''required'' [] else [])
      else if br_Op req = BulkOpExtend then
        (if br_DurationDays req \<le> 0 then AList.update ''duration_days'' ''min=1'' [] else [])
      else AList.update ''op''
             ''must be one of assign_role, remove_role, assign_bundle, remove_bundle, extend'' [])"

definition ValidateBulkRequest :: "bulk_request \<Rightarrow> (string, string) gomap" where
  "ValidateBulkRequest req =
     (let m0 = bulk_op_problems req;
          m1 = (if br_Op req \<noteq> BulkOpExtend \<and> length (br_GrantIDs req) > 0
                then AList.update ''grant_ids'' ''only valid for extend'' m0 else m0);
          m2 = (if trim_space (br_Reason req) = '''' then AList.update ''reason'' ''required'' m1 else m1);
          m3 = (if length (dedupeIDs (br_UserIDs req)) = 0
                then AList.update ''user_ids'' ''at least one required'' m2 else m2);
          m4 = (if length (dedupeIDs (br_UserIDs req)) > BulkMaxUsers
                then AList.update ''user_ids'' (''max '' @ itoa BulkMaxUsers) m3 else m3)
      in if br_DurationDays req < 0 then AList.update ''duration_days'' ''min=0'' m4 else m4)"

section \<open>Words\<close>

definition formatDay :: "int \<Rightarrow> time \<Rightarrow> string" where
  "formatDay loc t = format_day_month (t + loc)"

definition displayBundle :: "string \<Rightarrow> string" where
  "displayBundle name =
     (if trim_space name = '''' then ''this bundle'' else ''the '' @ name @ '' bundle'')"

definition pluralGrants :: "nat \<Rightarrow> string" where
  "pluralGrants n = (if n = 1 then ''1 grant'' else itoa n @ '' grants'')"

record role_reason =
  rr_Kind :: string
  rr_BundleName :: string

record effective_role =
  er_Reasons :: "role_reason list"

fun source_names :: "role_reason list \<Rightarrow> string list \<Rightarrow> nat \<Rightarrow> string list \<times> nat" where
  "source_names [] named rules = (named, rules)"
| "source_names (r # rs) named rules =
     (if rr_BundleName r \<noteq> '''' then
        source_names rs (named @ [''the '' @ rr_BundleName r @ '' bundle'']) rules
      else if rr_Kind r = ''rule'' then source_names rs named (Suc rules)
      else source_names rs named rules)"

definition sourcePhrase :: "role_reason list \<Rightarrow> string" where
  "sourcePhrase reasons =
     (let (named, rules) = source_names reasons [] 0;
          named = (if rules = 1 then named @ [''an automatic rule'']
                   else if rules > 1 then named @ [itoa rules @ '' automatic rules''] else named)
      in case named of
           [] \<Rightarrow> ''through another source''
         | [a] \<Rightarrow> ''via '' @ a
         | [a, b] \<Rightarrow> ''via '' @ a @ '' and '' @ b
         | a # _ \<Rightarrow> ''via '' @ a @ '' and '' @ itoa (length named - 1) @ '' more'')"

type_synonym role_map = "(role_key, effective_role option) gomap"

text \<open>A missing key of the role map reads as nil.\<close>

definition role_at :: "role_map \<Rightarrow> role_key \<Rightarrow> effective_role option" where
  "role_at m k = (case map_of m k of None \<Rightarrow> None | Some r \<Rightarrow> r)"

definition otherSources :: "role_map \<Rightarrow> string \<Rightarrow> string \<Rightarrow> string" where
  "otherSources roleMap projectID rk =
     (case role_at roleMap (RoleKey projectID rk) of
        None \<Rightarrow> ''''
      | Some role \<Rightarrow>
          let kept = filter (\<lambda>r. rr_Kind r \<noteq> ''direct'') (er_Reasons role)
          in if kept = [] then '''' else sourcePhrase kept)"

fun findGrant :: "direct_grant list \<Rightarrow> string \<Rightarrow> string \<Rightarrow> direct_grant option" where
  "findGrant [] projectID roleKey = None"
| "findGrant (g # gs) projectID roleKey =
     (if dg_ProjectID g = projectID \<and> dg_RoleKey g = roleKey then Some g else findGrant gs projectID roleKey)"

definition lengthens :: "int \<Rightarrow> time \<Rightarrow> time option \<Rightarrow> int \<Rightarrow> bool" where
  "lengthens loc now current durationDays =
     (case current of
        None \<Rightarrow> False
      | Some c \<Rightarrow> if durationDays \<le> 0 then True else EndAfterDays loc now durationDays > c)"

definition expiryPhrase :: "int \<Rightarrow> time \<Rightarrow> time option \<Rightarrow> int \<Rightarrow> string" where
  "expiryPhrase loc now current durationDays =
     (if durationDays \<le> 0 then
        (if current \<noteq> None then ''Expiry removed, so the grant becomes permanent.'' else ''No expiry.'')
      else ''Expires '' @ formatDay loc (EndAfterDays loc now durationDays) @ ''.'')"

section \<open>The cancels and rules of a row\<close>

definition cancelsLine :: "outbox_row list \<Rightarrow> enqueue_params list \<Rightarrow> queued_change list" where
  "cancelsLine rows params = concat (map (\<lambda>p. WouldCancel p rows) params)"

definition cancel_part :: "int \<Rightarrow> queued_change \<Rightarrow> string" where
  "cancel_part loc c =
     (let what = (if q_OpType c = Revoke then ''removal'' else ''grant'');
          part = ''the '' @ what @ '' of '' @ join_with '', '' (q_RoleKeys c) @ '' queued '' @ formatDay loc (q_QueuedAt c)
      in if q_Reason c \<noteq> '''' then part @ '' ('' @ q_Reason c @ '')'' else part)"

definition DescribeCancels :: "int \<Rightarrow> queued_change list \<Rightarrow> string" where
  "DescribeCancels loc changes =
     (if changes = [] then ''''
      else
        let noun = (if length changes > 1 then itoa (length changes) @ '' changes'' else ''a change'')
        in ''Cancels '' @ noun @ '' waiting for you to send: '' @
           join_with ''; '' (map (cancel_part loc) changes) @ ''.'')"

definition WithCancels ::
  "(string \<Rightarrow> string) \<Rightarrow> int \<Rightarrow> bulk_outcome \<Rightarrow> queued_change list \<Rightarrow> bulk_outcome" where
  "WithCancels H loc out changes =
     (if changes = [] then out
      else
        let line = DescribeCancels loc changes
        in out\<lparr>bo_Fingerprint := Fingerprint H ([bo_Fingerprint out, ''cancels''] @ map q_ID changes),
               bo_Consequence := (if bo_Consequence out = '''' then line
                                  else bo_Consequence out @ '' '' @ line)\<rparr>)"

record rule_row =
  rw_ProjectID :: string
  rw_RoleKey :: string
  rw_RuleID :: string
  rw_Sentence :: string

record catalog_role =
  cr_Key :: string
  cr_Label :: string

record project_catalog =
  pc_ID :: string
  pc_Name :: string
  pc_Roles :: "catalog_role list"

fun last_label :: "catalog_role list \<Rightarrow> string \<Rightarrow> string \<Rightarrow> string" where
  "last_label [] key role = role"
| "last_label (r # rs) key role =
     last_label rs key (if cr_Key r = key \<and> cr_Label r \<noteq> '''' then cr_Label r else role)"

text \<open>
  \<open>findProject\<close> is the directory's answer, \<open>None\<close> for a project it does not have or
  could not read; the closure's cache only saves asking again.
\<close>

definition roleNamer :: "(string \<Rightarrow> project_catalog option) \<Rightarrow> string \<Rightarrow> string \<Rightarrow> string \<times> string" where
  "roleNamer findProject projectID key =
     (case findProject projectID of
        None \<Rightarrow> (key, projectID)
      | Some p \<Rightarrow> (last_label (pc_Roles p) key key, if pc_Name p \<noteq> '''' then pc_Name p else projectID))"

definition rule_follow_row ::
  "(string \<Rightarrow> project_catalog option) \<Rightarrow> mapping_rule list \<Rightarrow> role_key goset \<Rightarrow> role_key \<Rightarrow> rule_row" where
  "rule_follow_row findProject rules closureAfter k =
     (let (role, project) = roleNamer findProject (ProjectID k) (RoleOf k)
      in case ruleReachingRule rules closureAfter k of
           None \<Rightarrow> \<lparr>rw_ProjectID = ProjectID k, rw_RoleKey = RoleOf k, rw_RuleID = [],
                    rw_Sentence = ''Also gives '' @ role @ '' in '' @ project @ '', by an automatic rule.''\<rparr>
         | Some r \<Rightarrow>
             \<lparr>rw_ProjectID = ProjectID k, rw_RoleKey = RoleOf k, rw_RuleID = rule_ID r,
              rw_Sentence = ''Also gives '' @ role @ '' in '' @ project @ '', by the automatic rule from '' @
                fst (roleNamer findProject (SourceProject r) (SourceRole r)) @ ''.''\<rparr>)"

definition RulesFollowing ::
  "(string \<Rightarrow> project_catalog option) \<Rightarrow> mapping_rule list \<Rightarrow> person_access \<Rightarrow> role_key list \<Rightarrow> rule_row list" where
  "RulesFollowing findProject rules person roles =
     (if rules = [] then []
      else
        let before = userBaseHoldings person;
            after = add_keys roles before;
            ((adds, _), _, closureAfter) = ruleDelta before after rules
        in map (rule_follow_row findProject rules closureAfter) adds)"

definition RuleSentences :: "rule_row list \<Rightarrow> string" where
  "RuleSentences rows = join_with '' '' (map rw_Sentence rows)"

definition WithRules :: "(string \<Rightarrow> string) \<Rightarrow> bulk_outcome \<Rightarrow> rule_row list \<Rightarrow> bulk_outcome" where
  "WithRules H out rows =
     (if rows = [] then out
      else out\<lparr>bo_Fingerprint := Fingerprint H ([bo_Fingerprint out, ''rules''] @
                 concat (map (\<lambda>r. [rw_RuleID r, rw_ProjectID r, rw_RoleKey r]) rows)),
               bo_Consequence := trim_space (bo_Consequence out @ '' '' @ RuleSentences rows)\<rparr>)"

section \<open>Rehearsing one person\<close>

definition cancellingWrites :: "string \<Rightarrow> bulk_request \<Rightarrow> role_map \<Rightarrow> enqueue_params list" where
  "cancellingWrites uid req roleMap =
     (if br_Op req = BulkOpAssignRole then
        [zero_params\<lparr>p_UserID := uid, p_ProjectID := br_ProjectID req, p_RoleKeys := [br_RoleKey req],
           p_OpType := Add\<rparr>]
      else if br_Op req = BulkOpRemoveRole then
        (if otherSources roleMap (br_ProjectID req) (br_RoleKey req) \<noteq> '''' then []
         else [zero_params\<lparr>p_UserID := uid, p_ProjectID := br_ProjectID req, p_RoleKeys := [br_RoleKey req],
                 p_OpType := Revoke, p_Source := ''direct''\<rparr>])
      else [])"

definition rehearseAssignRole ::
  "int \<Rightarrow> time \<Rightarrow> bulk_outcome \<Rightarrow> bulk_request \<Rightarrow> role_map \<Rightarrow> direct_grant list \<Rightarrow> bulk_outcome" where
  "rehearseAssignRole loc now out req roleMap grants =
     (case findGrant grants (br_ProjectID req) (br_RoleKey req) of
        Some g \<Rightarrow>
          out\<lparr>bo_Effect := EffectNoChange, bo_GrantIDs := [dg_ID g],
              bo_Detail := (case dg_ExpiresAt g of
                 None \<Rightarrow> ''Already has this, with no end.''
               | Some e \<Rightarrow> ''Already has this, until '' @ formatDay loc e @ ''. Extend it instead.'')\<rparr>
      | None \<Rightarrow>
          (case role_at roleMap (RoleKey (br_ProjectID req) (br_RoleKey req)) of
             Some eff \<Rightarrow> out\<lparr>bo_Effect := EffectNoChange,
                             bo_Detail := ''Already has this '' @ sourcePhrase (er_Reasons eff) @ ''.''\<rparr>
           | None \<Rightarrow> out\<lparr>bo_Effect := EffectApply, bo_Detail := ''Gains this role.'',
                         bo_Consequence := expiryPhrase loc now None (br_DurationDays req)\<rparr>))"

definition rehearseRemoveRole ::
  "bulk_outcome \<Rightarrow> bulk_request \<Rightarrow> role_map \<Rightarrow> direct_grant list \<Rightarrow> bulk_outcome" where
  "rehearseRemoveRole out req roleMap grants =
     (case findGrant grants (br_ProjectID req) (br_RoleKey req) of
        None \<Rightarrow>
          (case role_at roleMap (RoleKey (br_ProjectID req) (br_RoleKey req)) of
             Some eff \<Rightarrow> out\<lparr>bo_Effect := EffectNoChange, bo_Detail := ''Holds no direct grant here.'',
                bo_Consequence := ''Keeps the role '' @ sourcePhrase (er_Reasons eff) @ ''. Remove that source instead.''\<rparr>
           | None \<Rightarrow> out\<lparr>bo_Effect := EffectNoChange, bo_Detail := ''Doesn't hold this role.''\<rparr>)
      | Some g \<Rightarrow>
          let out = out\<lparr>bo_Effect := EffectApply, bo_GrantIDs := [dg_ID g]\<rparr>;
              other = otherSources roleMap (br_ProjectID req) (br_RoleKey req)
          in if other \<noteq> ''''
             then out\<lparr>bo_Detail := ''Direct grant removed.'',
                      bo_Consequence := ''Keeps the role '' @ other @ '', so this does not take their access away.''\<rparr>
             else out\<lparr>bo_Detail := ''Loses this role.''\<rparr>)"

text \<open>The grants an extension names, and how many already end later.\<close>

fun extend_grants ::
  "int \<Rightarrow> time \<Rightarrow> bulk_request \<Rightarrow> direct_grant list \<Rightarrow> string list \<Rightarrow> nat \<Rightarrow> string list \<times> nat" where
  "extend_grants loc now req [] ids later = (ids, later)"
| "extend_grants loc now req (g # gs) ids later =
     (if dg_ExpiresAt g = None then extend_grants loc now req gs ids later
      else if br_GrantIDs req \<noteq> [] \<and> dg_ID g \<notin> set (br_GrantIDs req) then extend_grants loc now req gs ids later
      else if br_ProjectID req \<noteq> '''' \<and> dg_ProjectID g \<noteq> br_ProjectID req then extend_grants loc now req gs ids later
      else if br_RoleKey req \<noteq> '''' \<and> dg_RoleKey g \<noteq> br_RoleKey req then extend_grants loc now req gs ids later
      else if \<not> lengthens loc now (dg_ExpiresAt g) (br_DurationDays req)
           then extend_grants loc now req gs ids (Suc later)
      else extend_grants loc now req gs (ids @ [dg_ID g]) later)"

definition rehearseExtend ::
  "int \<Rightarrow> time \<Rightarrow> bulk_outcome \<Rightarrow> bulk_request \<Rightarrow> direct_grant list \<Rightarrow> bulk_outcome" where
  "rehearseExtend loc now out req grants =
     (let (ids, alreadyLater) = extend_grants loc now req grants [] 0
      in if ids = [] \<and> alreadyLater > 0 then
           out\<lparr>bo_Effect := EffectNoChange, bo_Detail := ''Already ends later than this would make it.''\<rparr>
         else if ids = [] then
           out\<lparr>bo_Effect := EffectNoChange,
               bo_Detail := (if br_GrantIDs req \<noteq> [] then ''None of the selected grants are theirs any more.''
                             else ''No expiring direct grants.'')\<rparr>
         else
           out\<lparr>bo_Effect := EffectApply, bo_GrantIDs := ids,
               bo_Detail := ''Extends '' @ pluralGrants (length ids) @ ''.'',
               bo_Consequence := ''New expiry '' @ formatDay loc (EndAfterDays loc now (br_DurationDays req)) @ ''.''\<rparr>)"

record user_profile =
  up_ID :: string
  up_Name :: string
  up_Email :: string
  up_Status :: string

text \<open>What the rehearsal reads of one person; no profile is an account the directory lacks.\<close>

record person_read =
  rd_profile :: "user_profile option"
  rd_roles :: role_map
  rd_grants :: "direct_grant list"
  rd_access :: person_access

definition rehearse_role_op ::
  "(string \<Rightarrow> string) \<Rightarrow> int \<Rightarrow> time \<Rightarrow> (string \<Rightarrow> project_catalog option) \<Rightarrow> mapping_rule list \<Rightarrow>
   outbox_row list \<Rightarrow> bulk_request \<Rightarrow> string \<Rightarrow> person_read \<Rightarrow> bulk_outcome \<Rightarrow> bulk_outcome" where
  "rehearse_role_op H loc now findProject rules rows req uid rd out =
     (if bo_Effect out \<noteq> EffectApply then out
      else
        let params = cancellingWrites uid req (rd_roles rd);
            cancels = cancelsLine rows params;
            given = map (\<lambda>p. RoleKey (p_ProjectID p) (hd (p_RoleKeys p))) (filter (\<lambda>p. p_OpType p = Add) params)
        in WithCancels H loc (WithRules H out (RulesFollowing findProject rules (rd_access rd) given)) cancels)"

definition rehearseOne ::
  "(string \<Rightarrow> string) \<Rightarrow> int \<Rightarrow> time \<Rightarrow> (string \<Rightarrow> project_catalog option) \<Rightarrow> mapping_rule list \<Rightarrow>
   outbox_row list \<Rightarrow> bulk_request \<Rightarrow> string \<Rightarrow> person_read \<Rightarrow> bulk_outcome" where
  "rehearseOne H loc now findProject rules rows req uid rd =
     (case rd_profile rd of
        None \<Rightarrow> (zero_outcome uid)\<lparr>bo_Effect := EffectBlocked, bo_Detail := ''No such account in the directory.'',
                  bo_Fingerprint := FingerprintUserAccess H uid ''absent'' [] []\<rparr>
      | Some profile \<Rightarrow>
          let out = (zero_outcome uid)\<lparr>bo_Name := up_Name profile, bo_Email := up_Email profile\<rparr>
          in if Left (up_Status profile) \<and> (br_Op req = BulkOpAssignRole \<or> br_Op req = BulkOpExtend) then
               out\<lparr>bo_Effect := EffectBlocked,
                   bo_Detail := ''Account is '' @ to_lower (up_Status profile) @
                     ''. Remove it from the selection to continue.'',
                   bo_Fingerprint := FingerprintUserAccess H uid (up_Status profile) [] []\<rparr>
             else
               let out = out\<lparr>bo_Fingerprint := FingerprintUserAccess H uid (up_Status profile)
                                (effectiveRoleKeys (rd_roles rd)) (rd_grants rd)\<rparr>
               in if br_Op req = BulkOpAssignRole then
                    rehearse_role_op H loc now findProject rules rows req uid rd
                      (rehearseAssignRole loc now out req (rd_roles rd) (rd_grants rd))
                  else if br_Op req = BulkOpRemoveRole then
                    rehearse_role_op H loc now findProject rules rows req uid rd
                      (rehearseRemoveRole out req (rd_roles rd) (rd_grants rd))
                  else if br_Op req = BulkOpExtend then rehearseExtend loc now out req (rd_grants rd)
                  else out\<lparr>bo_Effect := EffectBlocked, bo_Detail := ''Unsupported operation.''\<rparr>)"

section \<open>The plan\<close>

definition effect_rank :: "string \<Rightarrow> int" where
  "effect_rank e =
     (case map_of [(EffectBlocked, 0), (EffectFailed, 1), (EffectQueued, 2), (EffectApply, 3), (EffectNoChange, 4)] e of
        None \<Rightarrow> 0
      | Some r \<Rightarrow> r)"

definition outcome_cmp :: "bulk_outcome \<Rightarrow> bulk_outcome \<Rightarrow> int" where
  "outcome_cmp a b =
     (if effect_rank (bo_Effect a) \<noteq> effect_rank (bo_Effect b)
      then effect_rank (bo_Effect a) - effect_rank (bo_Effect b)
      else if bo_Name a \<noteq> bo_Name b then str_cmp (bo_Name a) (bo_Name b)
      else str_cmp (bo_UserID a) (bo_UserID b))"

definition sortOutcomes :: "bulk_outcome list \<Rightarrow> bulk_outcome list" where
  "sortOutcomes outcomes = sort_by outcome_cmp outcomes"

definition count_outcome :: "bulk_outcome \<Rightarrow> bulk_summary \<Rightarrow> bulk_summary" where
  "count_outcome oc s =
     (if bo_Effect oc = EffectApply then s\<lparr>bs_Apply := bs_Apply s + 1\<rparr>
      else if bo_Effect oc = EffectApplied then s\<lparr>bs_Succeeded := bs_Succeeded s + 1\<rparr>
      else if bo_Effect oc = EffectQueued then s\<lparr>bs_Queued := bs_Queued s + 1\<rparr>
      else if bo_Effect oc = EffectNoChange then s\<lparr>bs_NoChange := bs_NoChange s + 1\<rparr>
      else if bo_Effect oc = EffectBlocked then s\<lparr>bs_Blocked := bs_Blocked s + 1\<rparr>
      else if bo_Effect oc = EffectFailed then s\<lparr>bs_Failed := bs_Failed s + 1\<rparr>
      else s)"

definition SummarizeOutcomes :: "bulk_outcome list \<Rightarrow> bulk_summary" where
  "SummarizeOutcomes outcomes =
     fold count_outcome outcomes
       \<lparr>bs_Total = length outcomes, bs_Apply = 0, bs_NoChange = 0, bs_Blocked = 0, bs_Failed = 0,
        bs_Succeeded = 0, bs_Queued = 0\<rparr>"

definition leaves_out :: "bool \<Rightarrow> bulk_request \<Rightarrow> string \<Rightarrow> bool" where
  "leaves_out takesAway req uid \<longleftrightarrow> takesAway \<and> br_Actor req \<noteq> '''' \<and> uid = br_Actor req"

definition RehearseBulk ::
  "(string \<Rightarrow> string) \<Rightarrow> int \<Rightarrow> time \<Rightarrow> (string \<Rightarrow> project_catalog option) \<Rightarrow> mapping_rule list \<Rightarrow>
   outbox_row list \<Rightarrow> (string \<Rightarrow> person_read) \<Rightarrow> bulk_request \<Rightarrow> bulk_plan" where
  "RehearseBulk H loc now findProject rules rows read req =
     (let ids = dedupeIDs (br_UserIDs req);
          takesAway = (br_Op req = BulkOpRemoveRole);
          outcomes = sortOutcomes (map (\<lambda>uid. rehearseOne H loc now findProject rules rows req uid (read uid))
                       (filter (\<lambda>uid. \<not> leaves_out takesAway req uid) ids))
      in \<lparr>bp_Op = br_Op req, bp_Applied = False, bp_Outcomes = outcomes,
          bp_Excluded = map (\<lambda>uid. \<lparr>bx_UserID = uid, bx_Reason = ''self''\<rparr>)
                          (filter (leaves_out takesAway req) ids),
          bp_Summary = SummarizeOutcomes outcomes\<rparr>)"

section \<open>What the dialog names is what the write queues\<close>

text \<open>The difference and the reaching rule depend on what is held, not on the order of a map.\<close>

lemma keys_all_true: "all_true m \<Longrightarrow> set (map fst m) = {k. held m k}"
  using held_in_keys unfolding all_true_def by fast

lemma closureDelta_cong:
  assumes "wf_map a" "wf_map a'" "wf_map b" "wf_map b'" "all_true a" "all_true a'" "all_true b" "all_true b'"
    and "\<And>k. held a k = held a' k" "\<And>k. held b k = held b' k"
  shows "closureDelta a b = closureDelta a' b'"
proof -
  have diff: "sort (filter (\<lambda>k. \<not> held x k) (map fst y)) = sort (filter (\<lambda>k. \<not> held x' k) (map fst y'))"
    if "wf_map y" "wf_map y'" "all_true y" "all_true y'" "\<And>k. held x k = held x' k" "\<And>k. held y k = held y' k"
    for x x' y y' :: "role_key goset"
  proof -
    have "set (map fst y) = set (map fst y')"
      using that(6) by (simp only: keys_all_true [OF that(3)] keys_all_true [OF that(4)])
    then have "mset (map fst y) = mset (map fst y')"
      using that(1,2) set_eq_iff_mset_eq_distinct unfolding wf_map_def by blast
    moreover have "(\<lambda>k. \<not> held x k) = (\<lambda>k. \<not> held x' k)" using that(5) by simp
    ultimately show ?thesis unfolding sort_eq_iff_mset mset_filter by (simp only:)
  qed
  show ?thesis
    unfolding closureDelta_def sortRoleKeys_def
    using diff [OF assms(3,4,7,8,9,10)] diff [OF assms(1,2,5,6,10,9)] by (simp only:)
qed

lemma wf_effectiveClosure: "wf_map base \<Longrightarrow> wf_map (effectiveClosure base rules)"
  by (simp add: effectiveClosure_def Closure_wf)

lemma held_effective_cong:
  "(\<And>k. held a k = held b k) \<Longrightarrow> held (effectiveClosure a rules) k = held (effectiveClosure b rules) k"
  by (simp add: effectiveClosure_def Closure_iff)

lemma ruleReachingRule_cong:
  "(\<And>j. held c j = held c' j) \<Longrightarrow> ruleReachingRule rules c k = ruleReachingRule rules c' k"
  by (induction rules) auto

lemma ruleDelta_cong:
  assumes "wf_map a" "wf_map a'" "wf_map b" "wf_map b'"
    and "\<And>k. held a k = held a' k" "\<And>k. held b k = held b' k"
  shows "fst (ruleDelta a b rules) = fst (ruleDelta a' b' rules)"
proof -
  have "closureDelta (effectiveClosure a rules) (effectiveClosure b rules) =
        closureDelta (effectiveClosure a' rules) (effectiveClosure b' rules)"
    using assms by (intro closureDelta_cong) (auto simp: wf_effectiveClosure held_effective_cong [OF assms(5)] held_effective_cong [OF assms(6)])
  then show ?thesis using assms(5,6) by (simp add: ruleDelta_def Let_def)
qed

lemma snd_ruleDelta: "snd (ruleDelta a b rules) = (effectiveClosure a rules, effectiveClosure b rules)"
  by (simp add: ruleDelta_def Let_def)

lemma ruleDelta_grow:
  assumes "\<And>k. held a k \<Longrightarrow> held b k"
  shows "snd (fst (ruleDelta a b rules)) = []"
proof -
  have "set (snd (closureDelta (effectiveClosure a rules) (effectiveClosure b rules))) = {}"
    using eff.cl_mono [OF assms subset_refl] by (auto simp: eff.delta_revokes)
  then show ?thesis by (simp add: ruleDelta_def Let_def)
qed

definition row_key :: "rule_row \<Rightarrow> string \<times> string list \<times> string" where
  "row_key r = (rw_ProjectID r, [rw_RoleKey r], rw_RuleID r)"

definition write_key :: "enqueue_params \<Rightarrow> string \<times> string list \<times> string" where
  "write_key w = (p_ProjectID w, p_RoleKeys w, p_SourceRef w)"

lemma row_key_follow: "row_key (rule_follow_row findProject rules c k) = (ProjectID k, [RoleOf k], ruleReaching rules c k)"
  by (auto simp: row_key_def rule_follow_row_def ruleReaching_def split: prod.splits option.splits)

text \<open>
  What a give's dialog names is what the give queues: if a write leaves a person with
  what they held and the roles given, then the rows \<open>RulesFollowing\<close> listed before it
  are, in order, the project, role and rule of the writes \<open>followRules\<close> queues with it,
  and all of these are gives.
\<close>

theorem RulesFollowing_is_what_is_queued:
  assumes "\<And>k. held (userBaseHoldings after) k \<longleftrightarrow> k \<in> set roles \<or> held (userBaseHoldings before) k"
  shows "map row_key (RulesFollowing findProject rules before roles) =
         map write_key (followRules p rules before after) \<and>
         (\<forall>w. w \<in> set (followRules p rules before after) \<longrightarrow> p_OpType w = Add)"
proof (cases "rules = []")
  case True
  then show ?thesis by (simp add: RulesFollowing_def followRules_def)
next
  case False
  let ?B = "userBaseHoldings before" and ?A = "userBaseHoldings after"
  define adds where "adds = fst (fst (ruleDelta ?B ?A rules))"
  have eq: "fst (ruleDelta ?B (add_keys roles ?B) rules) = fst (ruleDelta ?B ?A rules)"
    using assms by (intro ruleDelta_cong) auto
  have norev: "snd (fst (ruleDelta ?B ?A rules)) = []" using assms by (intro ruleDelta_grow) auto
  have reach: "ruleReaching rules (effectiveClosure (add_keys roles ?B) rules) k = ruleReaching rules (effectiveClosure ?A rules) k" for k
    unfolding ruleReaching_def
    by (subst ruleReachingRule_cong [OF held_effective_cong]) (use assms in auto)
  have d: "ruleDelta ?B ?A rules = ((adds, []), effectiveClosure ?B rules, effectiveClosure ?A rules)"
    using norev snd_ruleDelta [of ?B ?A rules] unfolding adds_def by (metis prod.collapse)
  have d': "ruleDelta ?B (add_keys roles ?B) rules =
      ((adds, []), effectiveClosure ?B rules, effectiveClosure (add_keys roles ?B) rules)"
    using norev eq snd_ruleDelta [of ?B "add_keys roles ?B" rules] unfolding adds_def by (metis prod.collapse)
  show ?thesis
    using False
    by (auto simp: RulesFollowing_def followRules_def d d' row_key_follow write_key_def reach
        deltaWrites_def delta_write_def zero_params_def)
qed

theorem RulesFollowing_is_what_is_queued_witness:
  "map row_key (RulesFollowing (\<lambda>i. None) [demo_rule] zero_person [RoleKey ''p'' ''a'', RoleKey ''p'' ''c'']) =
   map write_key (followRules zero_params [demo_rule] zero_person demo_person)"
proof -
  have "held (userBaseHoldings demo_person) k \<longleftrightarrow>
      k \<in> set [RoleKey ''p'' ''a'', RoleKey ''p'' ''c''] \<or> held (userBaseHoldings zero_person) k" for k
    by (auto simp: userBaseHoldings_def held_baseFrom demo_person_def zero_person_def grant_key_def)
  from RulesFollowing_is_what_is_queued [OF this] show ?thesis by simp
qed

section \<open>An extension\<close>

definition extends_grant :: "int \<Rightarrow> time \<Rightarrow> bulk_request \<Rightarrow> direct_grant \<Rightarrow> bool" where
  "extends_grant loc now req g \<longleftrightarrow> dg_ExpiresAt g \<noteq> None \<and>
     (br_GrantIDs req = [] \<or> dg_ID g \<in> set (br_GrantIDs req)) \<and>
     (br_ProjectID req = [] \<or> dg_ProjectID g = br_ProjectID req) \<and>
     (br_RoleKey req = [] \<or> dg_RoleKey g = br_RoleKey req) \<and>
     lengthens loc now (dg_ExpiresAt g) (br_DurationDays req)"

lemma extend_grants_ids:
  "fst (extend_grants loc now req gs ids later) = ids @ map dg_ID (filter (extends_grant loc now req) gs)"
  by (induction loc now req gs ids later rule: extend_grants.induct)
    (simp_all add: extends_grant_def split del: if_split split: if_split)

lemma rehearseExtend_ids:
  "bo_GrantIDs (rehearseExtend loc now (zero_outcome u) req gs) = fst (extend_grants loc now req gs [] 0)"
  "bo_Effect (rehearseExtend loc now (zero_outcome u) req gs) = EffectApply \<longleftrightarrow>
     fst (extend_grants loc now req gs [] 0) \<noteq> []"
  by (auto simp: rehearseExtend_def zero_outcome_def Let_def split: prod.splits)

text \<open>
  An extension names exactly the direct grants it would lengthen: grants that end
  before the new end, ticked if grants were ticked, in the project and role asked for; the
  row applies exactly when there is one. So it never shortens a grant, never puts an end
  on one that has none, and never reaches a grant nobody ticked.
\<close>

theorem rehearseExtend_only_lengthens:
  assumes "0 < br_DurationDays req"
  shows "(i \<in> set (bo_GrantIDs (rehearseExtend loc now (zero_outcome u) req grants)) \<longleftrightarrow>
           (\<exists>g e. g \<in> set grants \<and> dg_ID g = i \<and> dg_ExpiresAt g = Some e \<and>
              e < EndAfterDays loc now (br_DurationDays req) \<and>
              (br_GrantIDs req = [] \<or> i \<in> set (br_GrantIDs req)) \<and>
              (br_ProjectID req = '''' \<or> dg_ProjectID g = br_ProjectID req) \<and>
              (br_RoleKey req = '''' \<or> dg_RoleKey g = br_RoleKey req))) \<and>
         (bo_Effect (rehearseExtend loc now (zero_outcome u) req grants) = EffectApply \<longleftrightarrow>
           bo_GrantIDs (rehearseExtend loc now (zero_outcome u) req grants) \<noteq> [])"
  unfolding rehearseExtend_ids extend_grants_ids
  using assms by (auto simp: lengthens_def extends_grant_def)

theorem rehearseExtend_only_lengthens_witness:
  "bo_GrantIDs (rehearseExtend Default 0 (zero_outcome ''u'') (demo_request\<lparr>br_Op := BulkOpExtend, br_DurationDays := 7\<rparr>)
     [\<lparr>dg_ID = ''g'', dg_ProjectID = ''p'', dg_RoleKey = ''a'', dg_Source = ''direct'', dg_ExpiresAt = Some 5\<rparr>]) \<noteq> []"
proof -
  let ?g = "\<lparr>dg_ID = ''g'', dg_ProjectID = ''p'', dg_RoleKey = ''a'', dg_Source = ''direct'', dg_ExpiresAt = Some 5\<rparr>"
  have "''g'' \<in> set (bo_GrantIDs (rehearseExtend Default 0 (zero_outcome ''u'')
      (demo_request\<lparr>br_Op := BulkOpExtend, br_DurationDays := 7\<rparr>) [?g]))"
    using rehearseExtend_only_lengthens [of "demo_request\<lparr>br_Op := BulkOpExtend, br_DurationDays := 7\<rparr>" "''g''" Default 0 "''u''" "[?g]"]
    by (simp add: demo_request_def EndAfterDays_def Default_def)
  then show ?thesis by auto
qed

section \<open>The plan as a whole\<close>

lemma str_cmp_simps [simp]:
  "str_cmp a b < 0 \<longleftrightarrow> a < b" "0 < str_cmp a b \<longleftrightarrow> b < a" "str_cmp a b = 0 \<longleftrightarrow> a = b" "str_cmp a b \<le> 0 \<longleftrightarrow> a \<le> b"
  by (auto simp: str_cmp_def)

interpretation outcome_order: cmp_order outcome_cmp
proof
  fix a b
  show "outcome_cmp a b < 0 \<longleftrightarrow> 0 < outcome_cmp b a"
    by (simp add: outcome_cmp_def)
next
  fix a b c
  show "outcome_cmp a b \<le> 0 \<Longrightarrow> outcome_cmp b c \<le> 0 \<Longrightarrow> outcome_cmp a c \<le> 0"
    by (auto simp: outcome_cmp_def split: if_splits)
qed

lemma count_outcome_total: "bs_Total (fold count_outcome os s) = bs_Total s"
  by (induction os arbitrary: s) (auto simp: count_outcome_def)

definition known_effect :: "string \<Rightarrow> bool" where
  "known_effect e \<longleftrightarrow> e \<in> {EffectApply, EffectApplied, EffectQueued, EffectNoChange, EffectBlocked, EffectFailed}"

definition counted :: "bulk_summary \<Rightarrow> nat" where
  "counted s = bs_Apply s + bs_NoChange s + bs_Blocked s + bs_Failed s + bs_Succeeded s + bs_Queued s"

lemma counted_one: "known_effect (bo_Effect x) \<Longrightarrow> counted (count_outcome x s) = Suc (counted s)"
  by (auto simp: known_effect_def count_outcome_def counted_def)

lemma counted_fold:
  "(\<And>x. x \<in> set os \<Longrightarrow> known_effect (bo_Effect x)) \<Longrightarrow> counted (fold count_outcome os s) = counted s + length os"
  by (induction os arbitrary: s) (simp_all add: counted_one)

lemma bs_Apply_fold:
  "bs_Apply (fold count_outcome os s) = bs_Apply s + length (filter (\<lambda>x. bo_Effect x = EffectApply) os)"
  by (induction os arbitrary: s) (simp_all add: count_outcome_def)

lemma rehearse_simps [simp]:
  "bo_UserID (WithCancels H loc out cs) = bo_UserID out" "bo_Effect (WithCancels H loc out cs) = bo_Effect out"
  "bo_UserID (WithRules H out rs) = bo_UserID out" "bo_Effect (WithRules H out rs) = bo_Effect out"
  "bo_UserID (rehearseAssignRole loc now out req m gs) = bo_UserID out"
  "bo_UserID (rehearseRemoveRole out req m gs) = bo_UserID out"
  "bo_UserID (rehearseExtend loc now out req gs) = bo_UserID out"
  by (auto simp: WithCancels_def WithRules_def rehearseAssignRole_def rehearseRemoveRole_def rehearseExtend_def Let_def
      split: option.splits prod.splits)

lemma rehearse_role_op_simps [simp]:
  "bo_UserID (rehearse_role_op H loc now fp rules rows req uid rd out) = bo_UserID out"
  "bo_Effect (rehearse_role_op H loc now fp rules rows req uid rd out) = bo_Effect out"
  by (simp_all add: rehearse_role_op_def Let_def)

lemma rehearseOne_UserID [simp]: "bo_UserID (rehearseOne H loc now fp rules rows req uid rd) = uid"
  by (simp add: rehearseOne_def zero_outcome_def Let_def split: option.split)

lemma rehearse_effects:
  "known_effect (bo_Effect (rehearseAssignRole loc now out req m gs))"
  "known_effect (bo_Effect (rehearseRemoveRole out req m gs))"
  "known_effect (bo_Effect (rehearseExtend loc now out req gs))"
  by (simp_all add: known_effect_def rehearseAssignRole_def rehearseRemoveRole_def rehearseExtend_def Let_def
      split: option.splits prod.splits)

lemma rehearseOne_effect: "known_effect (bo_Effect (rehearseOne H loc now fp rules rows req uid rd))"
  by (simp add: rehearseOne_def Let_def rehearse_effects known_effect_def [of EffectBlocked] split: option.split)

lemma mset_partition: "mset (filter P xs) + mset (filter (\<lambda>x. \<not> P x) xs) = mset xs"
  by (induction xs) auto

text \<open>
  A rehearsal accounts for everybody selected, once: the people of its rows and of its
  exclusions are together exactly the ids asked for, trimmed and without repeats; the rows
  are in the order of the screen; every row is counted in the summary; and the operator is
  never among the rows of a removal of a role.
\<close>

theorem RehearseBulk_accounts_for_everyone:
  "mset (map bo_UserID (bp_Outcomes (RehearseBulk H loc now fp rules rows read req))) +
     mset (map bx_UserID (bp_Excluded (RehearseBulk H loc now fp rules rows read req))) =
   mset (dedupeIDs (br_UserIDs req)) \<and>
   sorted_wrt (\<lambda>a b. outcome_cmp a b \<le> 0) (bp_Outcomes (RehearseBulk H loc now fp rules rows read req)) \<and>
   bs_Total (bp_Summary (RehearseBulk H loc now fp rules rows read req)) =
     length (bp_Outcomes (RehearseBulk H loc now fp rules rows read req)) \<and>
   counted (bp_Summary (RehearseBulk H loc now fp rules rows read req)) =
     bs_Total (bp_Summary (RehearseBulk H loc now fp rules rows read req)) \<and>
   (br_Op req = BulkOpRemoveRole \<and> br_Actor req \<noteq> '''' \<longrightarrow>
     br_Actor req \<notin> set (map bo_UserID (bp_Outcomes (RehearseBulk H loc now fp rules rows read req))))"
proof -
  define ids where "ids = dedupeIDs (br_UserIDs req)"
  define t where "t \<longleftrightarrow> br_Op req = BulkOpRemoveRole"
  define out where "out = map (\<lambda>uid. rehearseOne H loc now fp rules rows req uid (read uid))
      (filter (\<lambda>uid. \<not> leaves_out t req uid) ids)"
  have plan: "RehearseBulk H loc now fp rules rows read req =
      \<lparr>bp_Op = br_Op req, bp_Applied = False, bp_Outcomes = sortOutcomes out,
       bp_Excluded = map (\<lambda>uid. \<lparr>bx_UserID = uid, bx_Reason = ''self''\<rparr>) (filter (leaves_out t req) ids),
       bp_Summary = SummarizeOutcomes (sortOutcomes out)\<rparr>"
    by (simp add: RehearseBulk_def Let_def ids_def t_def out_def)
  have users: "map bo_UserID out = filter (\<lambda>uid. \<not> leaves_out t req uid) ids"
    by (simp add: out_def comp_def)
  have ms: "mset (map bo_UserID (sortOutcomes out)) = mset (filter (\<lambda>uid. \<not> leaves_out t req uid) ids)"
    unfolding users [symmetric] by (simp add: sortOutcomes_def)
  have "mset (map bo_UserID (sortOutcomes out)) + mset (filter (leaves_out t req) ids) = mset ids"
    unfolding ms using mset_partition [of "leaves_out t req" ids] by (simp add: add.commute)
  moreover have "counted (SummarizeOutcomes (sortOutcomes out)) = length (sortOutcomes out)"
    unfolding SummarizeOutcomes_def
    by (subst counted_fold) (auto simp: sortOutcomes_def out_def rehearseOne_effect counted_def)
  moreover have "set (map bo_UserID (sortOutcomes out)) = {u \<in> set ids. \<not> leaves_out t req u}"
    using arg_cong [OF ms, of set_mset] by simp
  moreover have "map bx_UserID (map (\<lambda>uid. \<lparr>bx_UserID = uid, bx_Reason = ''self''\<rparr>) xs) = xs" for xs
    by (induction xs) simp_all
  ultimately show ?thesis
    unfolding plan using outcome_order.sorted_sort_by [of out]
    by (auto simp: SummarizeOutcomes_def count_outcome_total sortOutcomes_def ids_def [symmetric] leaves_out_def t_def)
qed

theorem RehearseBulk_accounts_for_everyone_witness:
  "''op'' \<notin> set (map bo_UserID (bp_Outcomes (RehearseBulk (\<lambda>x. x) Default 0 (\<lambda>i. None) [] []
     (\<lambda>u. \<lparr>rd_profile = None, rd_roles = [], rd_grants = [], rd_access = zero_person\<rparr>)
     (demo_request\<lparr>br_Op := BulkOpRemoveRole, br_UserIDs := [''op'', ''u'']\<rparr>))))"
  using RehearseBulk_accounts_for_everyone [of "\<lambda>x. x" Default 0 "\<lambda>i. None" "[]" "[]"
      "\<lambda>u. \<lparr>rd_profile = None, rd_roles = [], rd_grants = [], rd_access = zero_person\<rparr>"
      "demo_request\<lparr>br_Op := BulkOpRemoveRole, br_UserIDs := [''op'', ''u'']\<rparr>"]
  by (simp add: demo_request_def)

end
