(* ===== verification/Planner.thy ===== *)
theory Planner
  imports Bulk
begin

text \<open>
  \<^verbatim>\<open>backend/internal/services/planner.go\<close>: the access-change planner. \<open>Plan\<close> decides
  one action from a snapshot; the preview shows its rows and the apply plans again under
  the lock and writes only when the decision is the one reviewed. With it come the two
  writers it calls (\<^verbatim>\<open>db/cascade.go\<close>: \<open>AssignBundleAndEnqueue\<close>,
  \<open>RemoveBundleFromUserAndEnqueue\<close>) and the snapshot they read
  (\<^verbatim>\<open>db/access_snapshot.go\<close>).

  The digest \<open>H\<close> and the zone \<open>loc\<close> are parameters, as in \<open>Fingerprint\<close> and
  \<open>Clock\<close>. What the directory answers is an argument of \<open>planDirectory\<close>.
\<close>

section \<open>Data\<close>

abbreviation DeliveryStraightAway :: string where "DeliveryStraightAway \<equiv> ''straight_away''"
abbreviation DeliveryWaits :: string where "DeliveryWaits \<equiv> ''waits_for_you''"
abbreviation DeliveryNone :: string where "DeliveryNone \<equiv> ''none''"

abbreviation WaitReasonRoleWaits :: string where "WaitReasonRoleWaits \<equiv> ''role_waits''"

record action =
  ac_Op :: string
  ac_UserID :: string
  ac_BundleID :: string

record plan_write =
  w_params :: enqueue_params
  w_Delivery :: string
  w_OutboxID :: string

record change =
  ch_UserID :: string
  ch_Writes :: "plan_write list"
  ch_Refusal :: string
  ch_Cancels :: "queued_change list"
  ch_VersionID :: string
  ch_Row :: bulk_outcome

record role_words =
  rws_Role :: string
  rws_Project :: string

record access_snapshot =
  as_People :: "(string, person_access) gomap"
  as_Rules :: "mapping_rule list"
  as_RoleWaits :: "role_key goset"

record plan_snapshot =
  ps_Bundle :: bundle_rec
  ps_Version :: string
  ps_VersionRoles :: "role_key list"
  ps_Catalogue :: "(role_key, role_words) gomap"
  ps_CatalogueUnread :: bool
  ps_Profiles :: "(string, user_profile) gomap"
  ps_Access :: access_snapshot

section \<open>Words\<close>

definition words_of :: "plan_snapshot \<Rightarrow> role_key \<Rightarrow> string" where
  "words_of s k =
     (let w = map_of (ps_Catalogue s) k;
          role = (case w of Some x \<Rightarrow> if rws_Role x \<noteq> '''' then rws_Role x else RoleOf k | None \<Rightarrow> RoleOf k);
          project = (case w of Some x \<Rightarrow> if rws_Project x \<noteq> '''' then rws_Project x else ProjectID k
                     | None \<Rightarrow> ProjectID k)
      in role @ '' in '' @ project)"

text \<open>No call passes an empty list, on which the code's slice would be out of range.\<close>

definition list_of :: "plan_snapshot \<Rightarrow> role_key list \<Rightarrow> string" where
  "list_of s ks =
     (let names = sort_by (\<lambda>a b. str_cmp (to_lower a) (to_lower b)) (map (words_of s) ks)
      in if length names = 1 then hd names
         else join_with '', '' (butlast names) @ '' and '' @ last names)"

definition ruleSource :: "plan_snapshot \<Rightarrow> mapping_rule list \<Rightarrow> role_key goset \<Rightarrow> role_key \<Rightarrow> string" where
  "ruleSource s rules closure k =
     (case ruleReachingRule rules closure k of
        Some r \<Rightarrow> words_of s (RoleKey (SourceProject r) (SourceRole r))
      | None \<Rightarrow> ''another role'')"

definition keysField :: "role_key list \<Rightarrow> string" where
  "keysField ks = join_with '','' (map (\<lambda>k. ProjectID k @ ''/'' @ RoleOf k) ks)"

definition capitalise :: "string \<Rightarrow> string" where
  "capitalise s = (case s of [] \<Rightarrow> [] | c # cs \<Rightarrow> to_upper [c] @ cs)"

fun bundleGives :: "role_key list \<Rightarrow> role_key \<Rightarrow> bool" where
  "bundleGives [] k = False"
| "bundleGives (r # rs) k = (if r = k then True else bundleGives rs k)"

fun splitByBundle :: "role_key list \<Rightarrow> role_key list \<Rightarrow> role_key list \<times> role_key list" where
  "splitByBundle [] roles = ([], [])"
| "splitByBundle (k # ks) roles =
     (case splitByBundle ks roles of (own, byRule) \<Rightarrow>
        if bundleGives roles k then (k # own, byRule) else (own, k # byRule))"

section \<open>The decision\<close>

fun op_name :: "op_type \<Rightarrow> string" where
  "op_name Add = ''add''"
| "op_name Revoke = ''revoke''"
| "op_name Replace = ''replace''"
| "op_name Apply = ''apply''"
| "op_name (OtherOp s) = s"

definition write_fields :: "plan_write \<Rightarrow> string list" where
  "write_fields w =
     (let p = w_params w
      in [op_name (p_OpType p), p_ProjectID p, hd (p_RoleKeys p), p_Source p, p_SourceRef p, w_Delivery w])"

definition decided_fields :: "action \<Rightarrow> string \<Rightarrow> string \<Rightarrow> change \<Rightarrow> string list" where
  "decided_fields a eff refusal ch =
     [''planner/1'', ac_Op a, ac_UserID a, ac_BundleID a, eff, refusal, ch_VersionID ch] @
     concat (map write_fields (ch_Writes ch)) @ [''cancels''] @ map q_ID (ch_Cancels ch)"

definition decided ::
  "(string \<Rightarrow> string) \<Rightarrow> change \<Rightarrow> action \<Rightarrow> string \<Rightarrow> string \<Rightarrow> string \<Rightarrow> string \<Rightarrow> change" where
  "decided H ch a eff refusal detail consequence =
     ch\<lparr>ch_Refusal := refusal,
        ch_Row := (ch_Row ch)\<lparr>bo_Effect := eff, bo_Detail := detail, bo_Consequence := consequence,
                    bo_CancelIDs := map q_ID (ch_Cancels ch),
                    bo_Fingerprint := Fingerprint H (decided_fields a eff refusal ch)\<rparr>\<rparr>"

definition params_of :: "change \<Rightarrow> string \<Rightarrow> string \<Rightarrow> enqueue_params list" where
  "params_of ch actor reason =
     map (\<lambda>w. (w_params w)\<lparr>p_GrantedBy := actor, p_Reason := reason, p_PayloadJSON := ''{}''\<rparr>) (ch_Writes ch)"

definition changed :: "change \<Rightarrow> role_key list" where
  "changed ch = map (\<lambda>w. RoleKey (p_ProjectID (w_params w)) (hd (p_RoleKeys (w_params w)))) (ch_Writes ch)"

text \<open>
  The guards of the switch on the operation: a refusal (effect, refusal, detail), or the
  base holdings before and after and the version an assignment pins.
\<close>

definition plan_bases ::
  "int \<Rightarrow> action \<Rightarrow> plan_snapshot \<Rightarrow> user_profile \<Rightarrow> person_access \<Rightarrow>
   (string \<times> string \<times> string) + (role_key goset \<times> role_key goset \<times> string)" where
  "plan_bases loc a s profile person =
     (let bundle = displayBundle (b_Name (ps_Bundle s));
          holds = held (pa_Bundles person) (ac_BundleID a)
      in if ac_Op a = BulkOpAssignBundle then
           (if Left (up_Status profile) then
              Inl (EffectBlocked, ''departed:'' @ up_Status profile,
                   ''Account is '' @ to_lower (up_Status profile) @ ''. Remove it from the selection to continue.'')
            else (case b_RetiredAt (ps_Bundle s) of
                Some t \<Rightarrow> Inl (EffectBlocked, ''retired'',
                  capitalise bundle @ '' was retired on '' @ formatDay loc t @ '', so nobody can join it.'')
              | None \<Rightarrow>
                  if holds then Inl (EffectNoChange, ''held'', ''Already in '' @ bundle @ ''.'')
                  else let before = baseFrom person ''''
                       in Inr (before, add_keys (ps_VersionRoles s) before, ps_Version s)))
         else if ac_Op a = BulkOpRemoveBundle then
           (if \<not> holds then Inl (EffectNoChange, ''not_held'', ''Not in '' @ bundle @ ''.'')
            else (case b_RetiredAt (ps_Bundle s) of
                Some t \<Rightarrow> Inl (EffectBlocked, ''retired'',
                  capitalise bundle @ '' was retired on '' @ formatDay loc t @ '', so it can't change.'')
              | None \<Rightarrow> Inr (baseFrom person '''', baseFrom person (ac_BundleID a), '''')))
         else Inl (EffectBlocked, ''unsupported'', ''Unsupported operation.''))"

text \<open>The one guard for every give: the refusal, detail and next step when it fails.\<close>

definition plan_offered ::
  "plan_snapshot \<Rightarrow> role_key list \<Rightarrow> (string \<times> string \<times> string \<times> string) option" where
  "plan_offered s adds =
     (if adds = [] then None
      else if ps_CatalogueUnread s then
        Some (EffectBlocked, ''catalogue_unread'',
          ''Syndra couldn't read Zitadel's list of roles to check the ones this gives still exist. Try again shortly.'', '''')
      else
        (case filter (\<lambda>k. map_of (ps_Catalogue s) k = None) adds of
           [] \<Rightarrow> None
         | g # gone \<Rightarrow>
             let step = (if \<not> bundleGives (ps_VersionRoles s) g
                         then ''Retire the automatic rule that gives it, then give the bundle again.''
                         else ''Take it out of '' @ displayBundle (b_Name (ps_Bundle s)) @
                              '' and publish, then give the bundle again.'')
             in Some (EffectNoChange, ''not_offered:'' @ keysField (g # gone),
                  ''This would give '' @ list_of s (g # gone) @ '', which no longer exists in Zitadel.'', step)))"

definition plan_write_of :: "plan_snapshot \<Rightarrow> person_access \<Rightarrow> enqueue_params \<Rightarrow> plan_write" where
  "plan_write_of s person p =
     (let ref = RoleKey (p_ProjectID p) (hd (p_RoleKeys p));
          answered = AnsweredBy p (pa_Queued person)
      in if answered \<noteq> [] \<and> \<not> OwedAfterCancel p (held (pa_Standing person) ref) then
           \<lparr>w_params = p, w_Delivery = DeliveryNone, w_OutboxID = []\<rparr>
         else if held (as_RoleWaits (ps_Access s)) ref then
           \<lparr>w_params = p\<lparr>p_WaitReason := WaitReasonRoleWaits\<rparr>, w_Delivery = DeliveryWaits, w_OutboxID = []\<rparr>
         else \<lparr>w_params = p, w_Delivery = DeliveryStraightAway, w_OutboxID = []\<rparr>)"

definition plan_cancels :: "person_access \<Rightarrow> enqueue_params list \<Rightarrow> queued_change list" where
  "plan_cancels person ps = concat (map (\<lambda>p. AnsweredBy p (pa_Queued person)) ps)"

definition said_assign ::
  "plan_snapshot \<Rightarrow> role_key list \<Rightarrow> role_key goset \<Rightarrow> string list" where
  "said_assign s adds closureAfter =
     (let (own, byRule) = splitByBundle adds (ps_VersionRoles s)
      in (if own \<noteq> [] then [''Gains '' @ list_of s own @ ''.'']
          else if byRule = [] then [''Already holds every role it gives, so nothing is sent to Zitadel.'']
          else []) @
         map (\<lambda>k. ''Also gives '' @ words_of s k @ '', by the automatic rule from '' @
                  ruleSource s (as_Rules (ps_Access s)) closureAfter k @ ''.'') byRule)"

definition said_remove ::
  "plan_snapshot \<Rightarrow> role_key list \<Rightarrow> role_key list \<Rightarrow> role_key goset \<Rightarrow> role_key goset \<Rightarrow> string list" where
  "said_remove s pinned revokes closureBefore closureAfter =
     (let (own, byRule) = splitByBundle revokes pinned;
          kept = filter (held closureAfter) pinned
      in (if revokes = [] \<and> pinned = [] then [''It gave them no roles, so nothing is sent to Zitadel.'']
          else if revokes = [] then [''Keeps every role it gave another way, so nothing is sent to Zitadel.'']
          else (if own \<noteq> [] then [''Loses '' @ list_of s own @ ''.''] else []) @
               (if kept \<noteq> [] then [''Keeps '' @ list_of s kept @ '' another way.''] else [])) @
         map (\<lambda>k. ''Also loses '' @ words_of s k @ '', which the automatic rule from '' @
                  ruleSource s (as_Rules (ps_Access s)) closureBefore k @ '' gave.'') byRule)"

definition said_waiting :: "plan_snapshot \<Rightarrow> action \<Rightarrow> plan_write list \<Rightarrow> string list" where
  "said_waiting s a ws =
     (let waiting = map (\<lambda>w. RoleKey (p_ProjectID (w_params w)) (hd (p_RoleKeys (w_params w))))
                      (filter (\<lambda>w. w_Delivery w = DeliveryWaits) ws);
          verb = (if ac_Op a = BulkOpRemoveBundle then ''Removing'' else ''Giving'')
      in if waiting = [] then [] else [verb @ '' '' @ list_of s waiting @ '' waits for you to send.''])"

definition person_of :: "plan_snapshot \<Rightarrow> string \<Rightarrow> person_access" where
  "person_of s u = (case map_of (as_People (ps_Access s)) u of None \<Rightarrow> zero_person | Some p \<Rightarrow> p)"

definition Plan :: "(string \<Rightarrow> string) \<Rightarrow> int \<Rightarrow> action \<Rightarrow> plan_snapshot \<Rightarrow> change" where
  "Plan H loc a s =
     (let ch = \<lparr>ch_UserID = ac_UserID a, ch_Writes = [], ch_Refusal = [], ch_Cancels = [],
                ch_VersionID = [], ch_Row = zero_outcome (ac_UserID a)\<rparr>
      in case map_of (ps_Profiles s) (ac_UserID a) of
           None \<Rightarrow> decided H ch a EffectBlocked ''absent'' ''No such account in the directory.'' ''''
         | Some profile \<Rightarrow>
             let ch = ch\<lparr>ch_Row := (ch_Row ch)\<lparr>bo_Name := up_Name profile, bo_Email := up_Email profile\<rparr>\<rparr>;
                 person = person_of s (ac_UserID a);
                 bundle = displayBundle (b_Name (ps_Bundle s))
             in case plan_bases loc a s profile person of
                  Inl (eff, refusal, detail) \<Rightarrow> decided H ch a eff refusal detail ''''
                | Inr (before, after, version) \<Rightarrow>
                    let ch = ch\<lparr>ch_VersionID := version\<rparr>;
                        rules = as_Rules (ps_Access s);
                        closureBefore = effectiveClosure before rules;
                        closureAfter = effectiveClosure after rules;
                        (adds, revokes) = closureDelta closureBefore closureAfter
                    in case plan_offered s adds of
                         Some (eff, refusal, detail, step) \<Rightarrow> decided H ch a eff refusal detail step
                       | None \<Rightarrow>
                           let ps = deltaWrites (ac_UserID a) adds revokes ''bundle'' (ac_BundleID a);
                               ch = ch\<lparr>ch_Writes := map (plan_write_of s person) ps,
                                       ch_Cancels := plan_cancels person ps\<rparr>;
                               assign = (ac_Op a = BulkOpAssignBundle);
                               detail = (if assign then ''Joins '' else ''Leaves '') @ bundle @ ''.'';
                               pinned = (case map_of (pa_ByBundle person) (ac_BundleID a) of
                                           None \<Rightarrow> [] | Some rs \<Rightarrow> rs);
                               line = DescribeCancels loc (ch_Cancels ch);
                               said = (if assign then said_assign s adds closureAfter
                                       else said_remove s pinned revokes closureBefore closureAfter) @
                                      said_waiting s a (ch_Writes ch) @
                                      (if line \<noteq> '''' then [line] else [])
                           in decided H ch a EffectApply '''' detail (join_with '' '' said))"

section \<open>Reading the snapshot\<close>

definition PlannedOp :: "string \<Rightarrow> bool" where
  "PlannedOp op \<longleftrightarrow> op = BulkOpAssignBundle \<or> op = BulkOpRemoveBundle"

definition empty_access :: access_snapshot where
  "empty_access = \<lparr>as_People = [], as_Rules = [], as_RoleWaits = []\<rparr>"

fun wanted_profiles :: "string list \<Rightarrow> user_profile list \<Rightarrow> (string, user_profile) gomap \<Rightarrow> (string, user_profile) gomap" where
  "wanted_profiles ids [] m = m"
| "wanted_profiles ids (u # us) m =
     wanted_profiles ids us (if up_ID u \<in> set ids then AList.update (up_ID u) u m else m)"

fun found_profiles ::
  "(string \<Rightarrow> user_profile option) \<Rightarrow> string list \<Rightarrow> (string, user_profile) gomap \<Rightarrow> (string, user_profile) gomap" where
  "found_profiles findUser [] m = m"
| "found_profiles findUser (i # is) m =
     found_profiles findUser is
       (case map_of m i of
          Some p \<Rightarrow> m
        | None \<Rightarrow> (case findUser i of Some p \<Rightarrow> AList.update i p m | None \<Rightarrow> m))"

definition catalogue_roles :: "project_catalog \<Rightarrow> (role_key \<times> role_words) list" where
  "catalogue_roles p =
     map (\<lambda>r. (RoleKey (pc_ID p) (cr_Key r), \<lparr>rws_Role = cr_Label r, rws_Project = pc_Name p\<rparr>)) (pc_Roles p)"

text \<open>
  \<open>users\<close> is the directory's list (\<open>None\<close> when it could not be read, which ends the
  plan), \<open>findUser\<close> its lookup and \<open>projects\<close> the catalogue (\<open>None\<close> when unread).
  The bundle is filled in under the lock.
\<close>

definition planDirectory ::
  "user_profile list option \<Rightarrow> (string \<Rightarrow> user_profile option) \<Rightarrow> project_catalog list option \<Rightarrow>
   string list \<Rightarrow> plan_snapshot option" where
  "planDirectory users findUser projects ids =
     (case users of
        None \<Rightarrow> None
      | Some us \<Rightarrow>
          Some \<lparr>ps_Bundle = \<lparr>b_ID = [], b_Name = [], b_RetiredAt = None\<rparr>, ps_Version = [], ps_VersionRoles = [],
                ps_Catalogue = (case projects of None \<Rightarrow> []
                  | Some prs \<Rightarrow> fold (\<lambda>(k, w). AList.update k w) (concat (map catalogue_roles prs)) []),
                ps_CatalogueUnread = (projects = None),
                ps_Profiles = found_profiles findUser ids (wanted_profiles ids us []),
                ps_Access = empty_access\<rparr>)"

definition planSnapshot ::
  "bulk_request \<Rightarrow> plan_snapshot \<Rightarrow> bundle_rec option \<Rightarrow> (string \<times> role_key list) option \<Rightarrow>
   access_snapshot option \<Rightarrow> plan_snapshot option" where
  "planSnapshot req s bundle latest access =
     (case bundle of
        None \<Rightarrow> None
      | Some b \<Rightarrow>
          let s = s\<lparr>ps_Bundle := b\<rparr>
          in if br_Op req = BulkOpAssignBundle \<and> b_RetiredAt b = None then
               (case latest of
                  None \<Rightarrow> None
                | Some (v, roles) \<Rightarrow>
                    map_option (\<lambda>x. s\<lparr>ps_Version := v, ps_VersionRoles := roles, ps_Access := x\<rparr>) access)
             else map_option (\<lambda>x. s\<lparr>ps_Access := x\<rparr>) access)"

definition action_of :: "bulk_request \<Rightarrow> string \<Rightarrow> action" where
  "action_of req uid = \<lparr>ac_Op = br_Op req, ac_UserID = uid, ac_BundleID = br_BundleID req\<rparr>"

definition PlanBulk ::
  "(string \<Rightarrow> string) \<Rightarrow> int \<Rightarrow> bulk_request \<Rightarrow> plan_snapshot \<Rightarrow> change list \<times> bulk_exclusion list" where
  "PlanBulk H loc req snap =
     (let ids = dedupeIDs (br_UserIDs req);
          takesAway = (br_Op req = BulkOpRemoveBundle)
      in (map (\<lambda>uid. Plan H loc (action_of req uid) snap) (filter (\<lambda>uid. \<not> leaves_out takesAway req uid) ids),
          map (\<lambda>uid. \<lparr>bx_UserID = uid, bx_Reason = ''self''\<rparr>) (filter (leaves_out takesAway req) ids)))"

definition rehearsePlanned :: "(string \<Rightarrow> string) \<Rightarrow> int \<Rightarrow> bulk_request \<Rightarrow> plan_snapshot \<Rightarrow> bulk_plan" where
  "rehearsePlanned H loc req snap =
     (let (changes, excluded) = PlanBulk H loc req snap;
          outcomes = sortOutcomes (map ch_Row changes)
      in \<lparr>bp_Op = br_Op req, bp_Applied = False, bp_Outcomes = outcomes, bp_Excluded = excluded,
          bp_Summary = SummarizeOutcomes outcomes\<rparr>)"

section \<open>Writing a change\<close>

record assignment =
  an_version :: string
  an_source :: string
  an_by :: "string option"

record access_db =
  ad_db :: db_state
  ad_assigned :: "(string \<times> string, assignment) gomap"

text \<open>What one write takes from outside, beside the outbox: the cascade id by the next sequence number.\<close>

record write_env =
  we_outbox :: enqueue_env
  we_cascade :: "nat \<Rightarrow> string"
  we_now :: time

definition WelcomeActor :: string where
  "WelcomeActor = ''system:onboarding''"

definition enqueue_in ::
  "write_env \<Rightarrow> cascade_audit \<Rightarrow> enqueue_params list \<Rightarrow> access_db \<Rightarrow> (db_error + string list) \<times> access_db" where
  "enqueue_in we audit params s =
     (case enqueueWrites (we_outbox we) (we_cascade we (next_seq (ad_db s))) (we_now we) [audit] params (ad_db s) of
        (res, d) \<Rightarrow> (res, s\<lparr>ad_db := d\<rparr>))"

definition AssignBundleAndEnqueue ::
  "write_env \<Rightarrow> string \<Rightarrow> string \<Rightarrow> string \<Rightarrow> string \<Rightarrow> string \<Rightarrow> enqueue_params list \<Rightarrow> access_db \<Rightarrow>
   (db_error + string list \<times> bool) \<times> access_db" where
  "AssignBundleAndEnqueue we actor reason userID bundleID versionID params s =
     (case map_of (ad_assigned s) (userID, bundleID) of
        Some _ \<Rightarrow> (Inr ([], False), s)
      | None \<Rightarrow>
          let row = (if actor = WelcomeActor
                     then \<lparr>an_version = versionID, an_source = ''welcome'', an_by = None\<rparr>
                     else \<lparr>an_version = versionID, an_source = ''direct'', an_by = Some actor\<rparr>);
              s1 = s\<lparr>ad_assigned := AList.update (userID, bundleID) row (ad_assigned s)\<rparr>
          in case enqueue_in we \<lparr>ca_Actor = actor, ca_Target = userID, ca_Action = ''bundle.assigned'',
                 ca_ResourceID = bundleID, ca_Reason = reason\<rparr> params s1 of
               (Inl e, s2) \<Rightarrow> (Inl e, s2)
             | (Inr ids, s2) \<Rightarrow> (Inr (ids, True), s2))"

definition RemoveBundleFromUserAndEnqueue ::
  "write_env \<Rightarrow> string \<Rightarrow> string \<Rightarrow> string \<Rightarrow> string \<Rightarrow> enqueue_params list \<Rightarrow> access_db \<Rightarrow>
   (db_error + string list) \<times> access_db" where
  "RemoveBundleFromUserAndEnqueue we actor reason userID bundleID params s =
     enqueue_in we \<lparr>ca_Actor = actor, ca_Target = userID, ca_Action = ''bundle.unassigned'',
         ca_ResourceID = bundleID, ca_Reason = reason\<rparr> params
       (s\<lparr>ad_assigned := AList.delete (userID, bundleID) (ad_assigned s)\<rparr>)"

datatype apply_error = ErrClaim string | ErrRead | StalePlan "string list" | ErrNotAssigned
  | ErrWrittenOtherwise | ErrDb db_error | ErrNotPlanned string

fun written_writes :: "plan_write list \<Rightarrow> string list \<Rightarrow> plan_write list option" where
  "written_writes [] ids = (if ids = [] then Some [] else None)"
| "written_writes (w # ws) ids =
     (if w_Delivery w = DeliveryNone then map_option ((#) w) (written_writes ws ids)
      else (case ids of
              [] \<Rightarrow> None
            | i # is \<Rightarrow> map_option ((#) (w\<lparr>w_OutboxID := i\<rparr>)) (written_writes ws is)))"

definition written :: "change \<Rightarrow> string list \<Rightarrow> apply_error + change" where
  "written ch ids =
     (case written_writes (ch_Writes ch) ids of
        None \<Rightarrow> Inl ErrWrittenOtherwise
      | Some ws \<Rightarrow> Inr (ch\<lparr>ch_Writes := ws\<rparr>))"

text \<open>The second part of the result is the convergence the write defers to the commit.\<close>

definition writeChange ::
  "write_env \<Rightarrow> bulk_request \<Rightarrow> change \<Rightarrow> access_db \<Rightarrow> (apply_error + change \<times> convergence list) \<times> access_db" where
  "writeChange we req ch s =
     (let conv = deferTargetConvergence (br_Actor req) (ch_UserID ch) (changed ch);
          ps = params_of ch (br_Actor req) (br_Reason req);
          finish = (\<lambda>ids s1. (case written ch ids of Inl e \<Rightarrow> (Inl e, s1) | Inr ch' \<Rightarrow> (Inr (ch', conv), s1)))
      in if br_Op req = BulkOpAssignBundle then
           (case AssignBundleAndEnqueue we (br_Actor req) (br_Reason req) (ch_UserID ch) (br_BundleID req)
                   (ch_VersionID ch) ps s of
              (Inl e, s1) \<Rightarrow> (Inl (ErrDb e), s1)
            | (Inr (ids, False), s1) \<Rightarrow> (Inl ErrNotAssigned, s1)
            | (Inr (ids, True), s1) \<Rightarrow> finish ids s1)
         else if br_Op req = BulkOpRemoveBundle then
           (case RemoveBundleFromUserAndEnqueue we (br_Actor req) (br_Reason req) (ch_UserID ch) (br_BundleID req) ps s of
              (Inl e, s1) \<Rightarrow> (Inl (ErrDb e), s1)
            | (Inr ids, s1) \<Rightarrow> finish ids s1)
         else (Inl (ErrNotPlanned (br_Op req)), s))"

record plan_subject =
  sj_SubjectID :: string
  sj_Fingerprint :: string
  sj_CancelIDs :: "string list"

fun replan ::
  "(string \<Rightarrow> string) \<Rightarrow> int \<Rightarrow> bulk_request \<Rightarrow> plan_snapshot \<Rightarrow> plan_subject list \<Rightarrow>
   string list \<times> (string \<times> change) list \<times> string list" where
  "replan H loc req snap [] = ([], [], [])"
| "replan H loc req snap (sj # sjs) =
     (let ch = Plan H loc (action_of req (sj_SubjectID sj)) snap;
          (moved, changes, named) = replan H loc req snap sjs
      in if bo_Fingerprint (ch_Row ch) \<noteq> sj_Fingerprint sj \<or> bo_CancelIDs (ch_Row ch) \<noteq> sj_CancelIDs sj
         then (sj_SubjectID sj # moved, changes, named)
         else (moved, (sj_SubjectID sj, ch) # changes, sj_CancelIDs sj @ named))"

fun write_changes ::
  "write_env \<Rightarrow> bulk_request \<Rightarrow> (string \<times> change) list \<Rightarrow> access_db \<Rightarrow>
   (apply_error + (string \<times> change) list \<times> convergence list) \<times> access_db" where
  "write_changes we req [] s = (Inr ([], []), s)"
| "write_changes we req ((u, ch) # chs) s =
     (if bo_Effect (ch_Row ch) \<noteq> EffectApply then write_changes we req chs s
      else (case writeChange we req ch s of
          (Inl e, s1) \<Rightarrow> (Inl e, s1)
        | (Inr (ch', conv), s1) \<Rightarrow>
            (case write_changes we req chs s1 of
               (Inl e, s2) \<Rightarrow> (Inl e, s2)
             | (Inr (done, convs), s2) \<Rightarrow> (Inr ((u, ch') # done, conv @ convs), s2))))"

text \<open>
  The transaction of \<open>ApplyPlannedBulk\<close>: \<open>claim\<close> is what spending the plan gave (its
  people, or why not) and \<open>snap\<close> what was read after it. An error rolls the tables back;
  the gate is the request's and keeps what it was told.
\<close>

definition apply_tx ::
  "(string \<Rightarrow> string) \<Rightarrow> int \<Rightarrow> write_env \<Rightarrow> bulk_request \<Rightarrow> (string + plan_subject list) \<Rightarrow> plan_snapshot option \<Rightarrow>
   access_db \<Rightarrow> (apply_error + (string \<times> change) list \<times> (string \<times> change) list \<times> convergence list) \<times> access_db" where
  "apply_tx H loc we req claim snap s =
     (let rollback = (\<lambda>s1. s\<lparr>ad_db := (ad_db s)\<lparr>gate := gate (ad_db s1)\<rparr>\<rparr>)
      in case claim of
           Inl e \<Rightarrow> (Inl (ErrClaim e), s)
         | Inr subjects \<Rightarrow>
             (case snap of
                None \<Rightarrow> (Inl ErrRead, s)
              | Some sn \<Rightarrow>
                  let (moved, changes, named) = replan H loc req sn subjects
                  in if moved \<noteq> [] then (Inl (StalePlan (sort moved)), s)
                     else
                       let s0 = s\<lparr>ad_db := (ad_db s)\<lparr>gate := CancellationsNamed (gate (ad_db s)) named\<rparr>\<rparr>
                       in case write_changes we req changes s0 of
                            (Inl e, s1) \<Rightarrow> (Inl e, rollback s1)
                          | (Inr (done, convs), s1) \<Rightarrow> (Inr (changes, done, convs), s1)))"

definition ApplyPlannedBulk ::
  "(string \<Rightarrow> string) \<Rightarrow> int \<Rightarrow> write_env \<Rightarrow> bulk_request \<Rightarrow> (string + plan_subject list) \<Rightarrow> plan_snapshot option \<Rightarrow>
   access_db \<Rightarrow> (apply_error + bulk_plan \<times> (string \<times> change) list) \<times> access_db" where
  "ApplyPlannedBulk H loc we req claim snap s =
     (case apply_tx H loc we req claim snap s of
        (Inl e, s1) \<Rightarrow> (Inl e, s1)
      | (Inr (changes, done, convs), s1) \<Rightarrow>
          let outcomes = sortOutcomes (map (ch_Row \<circ> snd) changes)
          in (Inr (\<lparr>bp_Op = br_Op req, bp_Applied = True, bp_Outcomes = outcomes,
                    bp_Excluded = (if br_Op req = BulkOpRemoveBundle \<and> br_Actor req \<noteq> '''' \<and>
                                      br_Actor req \<in> set (dedupeIDs (br_UserIDs req))
                                   then [\<lparr>bx_UserID = br_Actor req, bx_Reason = ''self''\<rparr>] else []),
                    bp_Summary = SummarizeOutcomes outcomes\<rparr>, done), s1))"

section \<open>What a decision is made of\<close>

lemma plan_bases_Inl: "plan_bases loc a s profile person = Inl (eff, refusal, detail) \<Longrightarrow> eff \<noteq> EffectApply \<and> refusal \<noteq> ''''"
  by (auto simp: plan_bases_def Let_def split: if_splits option.splits)

lemma plan_offered_Some: "plan_offered s adds = Some (eff, refusal, detail, step) \<Longrightarrow> eff \<noteq> EffectApply \<and> refusal \<noteq> ''''"
  by (auto simp: plan_offered_def Let_def split: if_splits list.splits)

lemma plan_offered_None:
  "plan_offered s adds = None \<Longrightarrow> k \<in> set adds \<Longrightarrow> \<not> ps_CatalogueUnread s \<and> map_of (ps_Catalogue s) k \<noteq> None"
  by (auto simp: plan_offered_def Let_def filter_empty_conv split: if_splits list.splits)

lemma decided_simps [simp]:
  "ch_Writes (decided H ch a eff refusal d c) = ch_Writes ch" "ch_Cancels (decided H ch a eff refusal d c) = ch_Cancels ch"
  "ch_Refusal (decided H ch a eff refusal d c) = refusal" "bo_Effect (ch_Row (decided H ch a eff refusal d c)) = eff"
  "ch_VersionID (decided H ch a eff refusal d c) = ch_VersionID ch" "ch_UserID (decided H ch a eff refusal d c) = ch_UserID ch"
  "bo_CancelIDs (ch_Row (decided H ch a eff refusal d c)) = map q_ID (ch_Cancels ch)"
  "bo_Fingerprint (ch_Row (decided H ch a eff refusal d c)) = Fingerprint H (decided_fields a eff refusal ch)"
  by (simp_all add: decided_def)

text \<open>Every decision: a refusal, with nothing to write, or the writes of the closure difference.\<close>

lemma Plan_cases:
  obtains (refused) "bo_Effect (ch_Row (Plan H loc a s)) \<noteq> EffectApply" "ch_Refusal (Plan H loc a s) \<noteq> ''''"
      "ch_Writes (Plan H loc a s) = []" "ch_Cancels (Plan H loc a s) = []"
  | (applies) profile before after version adds revokes where
      "bo_Effect (ch_Row (Plan H loc a s)) = EffectApply" "ch_Refusal (Plan H loc a s) = ''''"
      "map_of (ps_Profiles s) (ac_UserID a) = Some profile"
      "plan_bases loc a s profile (person_of s (ac_UserID a)) = Inr (before, after, version)"
      "closureDelta (effectiveClosure before (as_Rules (ps_Access s))) (effectiveClosure after (as_Rules (ps_Access s))) =
         (adds, revokes)"
      "plan_offered s adds = None"
      "ch_Writes (Plan H loc a s) =
         map (plan_write_of s (person_of s (ac_UserID a))) (deltaWrites (ac_UserID a) adds revokes ''bundle'' (ac_BundleID a))"
      "ch_Cancels (Plan H loc a s) =
         plan_cancels (person_of s (ac_UserID a)) (deltaWrites (ac_UserID a) adds revokes ''bundle'' (ac_BundleID a))"
      "ch_VersionID (Plan H loc a s) = version"
proof (cases "map_of (ps_Profiles s) (ac_UserID a)")
  case None
  then show thesis by (intro refused) (simp_all add: Plan_def Let_def)
next
  case (Some profile)
  note prof = this
  show thesis
  proof (cases "plan_bases loc a s profile (person_of s (ac_UserID a))")
    case (Inl x)
    obtain eff refusal detail where x: "x = (eff, refusal, detail)" by (metis prod_cases3)
    show thesis
      using plan_bases_Inl [of loc a s profile "person_of s (ac_UserID a)" eff refusal detail] Inl x prof
      by (intro refused) (simp_all add: Plan_def Let_def)
  next
    case (Inr x)
    obtain before after version where x: "x = (before, after, version)" by (metis prod_cases3)
    obtain adds revokes where d: "closureDelta (effectiveClosure before (as_Rules (ps_Access s)))
        (effectiveClosure after (as_Rules (ps_Access s))) = (adds, revokes)" by fastforce
    show thesis
    proof (cases "plan_offered s adds")
      case None
      show thesis
        by (rule applies [OF _ _ prof _ d None]) (simp_all add: Plan_def Let_def prof Inr x d None)
    next
      case (Some y)
      obtain eff refusal detail step where y: "y = (eff, refusal, detail, step)" by (metis prod_cases4)
      show thesis
        using plan_offered_Some [of s adds eff refusal detail step] Some y
        by (intro refused) (simp_all add: Plan_def Let_def prof Inr x d)
    qed
  qed
qed

lemma plan_write_of_simps [simp]:
  "p_OpType (w_params (plan_write_of s person p)) = p_OpType p"
  "p_UserID (w_params (plan_write_of s person p)) = p_UserID p"
  "p_ProjectID (w_params (plan_write_of s person p)) = p_ProjectID p"
  "p_RoleKeys (w_params (plan_write_of s person p)) = p_RoleKeys p"
  "p_Source (w_params (plan_write_of s person p)) = p_Source p"
  "p_SourceRef (w_params (plan_write_of s person p)) = p_SourceRef p"
  by (simp_all add: plan_write_of_def Let_def)

lemma delta_write_simps [simp]:
  "p_OpType (delta_write u src ref op k) = op" "p_UserID (delta_write u src ref op k) = u"
  "p_ProjectID (delta_write u src ref op k) = ProjectID k" "p_RoleKeys (delta_write u src ref op k) = [RoleOf k]"
  "p_Source (delta_write u src ref op k) = src" "p_SourceRef (delta_write u src ref op k) = ref"
  by (simp_all add: delta_write_def zero_params_def)

text \<open>
  C18. What the planner may decide. A change it does not apply carries a refusal and
  nothing to write or cancel. A change it applies is for somebody in the directory and a
  bundle that is not retired; a give is to a person who has not left and does not hold the
  bundle, and only gives roles, each of them offered in a catalogue that was read; a
  removal is from a person who holds the bundle and only takes roles away.
\<close>

theorem Plan_guards:
  assumes "'''' \<notin> fst ` set (pa_ByBundle (person_of s (ac_UserID a)))"
  shows "(bo_Effect (ch_Row (Plan H loc a s)) \<noteq> EffectApply \<longrightarrow>
            ch_Refusal (Plan H loc a s) \<noteq> '''' \<and> ch_Writes (Plan H loc a s) = [] \<and> ch_Cancels (Plan H loc a s) = []) \<and>
         (bo_Effect (ch_Row (Plan H loc a s)) = EffectApply \<longrightarrow>
            ch_Refusal (Plan H loc a s) = '''' \<and> b_RetiredAt (ps_Bundle s) = None \<and>
            (\<exists>profile. map_of (ps_Profiles s) (ac_UserID a) = Some profile \<and>
              (ac_Op a = BulkOpAssignBundle \<and> \<not> Left (up_Status profile) \<and>
               \<not> held (pa_Bundles (person_of s (ac_UserID a))) (ac_BundleID a) \<and>
               (\<forall>w. w \<in> set (ch_Writes (Plan H loc a s)) \<longrightarrow> p_OpType (w_params w) = Add \<and> \<not> ps_CatalogueUnread s \<and>
                  map_of (ps_Catalogue s) (RoleKey (p_ProjectID (w_params w)) (hd (p_RoleKeys (w_params w)))) \<noteq> None) \<or>
               ac_Op a = BulkOpRemoveBundle \<and>
               held (pa_Bundles (person_of s (ac_UserID a))) (ac_BundleID a) \<and>
               (\<forall>w. w \<in> set (ch_Writes (Plan H loc a s)) \<longrightarrow> p_OpType (w_params w) = Revoke))))"
proof (cases rule: Plan_cases [of H loc a s])
  case refused
  then show ?thesis by simp
next
  case (applies profile before after version adds revokes)
  let ?r = "as_Rules (ps_Access s)" and ?p = "person_of s (ac_UserID a)"
  have d: "fst (closureDelta (effectiveClosure before ?r) (effectiveClosure after ?r)) = adds"
    "snd (closureDelta (effectiveClosure before ?r) (effectiveClosure after ?r)) = revokes"
    using applies(5) by simp_all
  from applies(4) consider
    (assign) "ac_Op a = BulkOpAssignBundle" "\<not> Left (up_Status profile)" "b_RetiredAt (ps_Bundle s) = None"
      "\<not> held (pa_Bundles ?p) (ac_BundleID a)" "before = baseFrom ?p ''''" "after = add_keys (ps_VersionRoles s) before"
  | (remove) "ac_Op a = BulkOpRemoveBundle" "b_RetiredAt (ps_Bundle s) = None" "held (pa_Bundles ?p) (ac_BundleID a)"
      "before = baseFrom ?p ''''" "after = baseFrom ?p (ac_BundleID a)"
    by (auto simp: plan_bases_def Let_def split: if_splits option.splits)
  then show ?thesis
  proof cases
    case assign
    have "set revokes = {}"
      using eff.cl_mono [of before after ?r ?r] assign(6) unfolding d(2) [symmetric] eff.delta_revokes by auto
    then have "revokes = []" by simp
    then show ?thesis
      using applies assign plan_offered_None [OF applies(6)]
      by (auto simp: deltaWrites_def)
  next
    case remove
    have "held before k" if "held after k" for k
      using baseFrom_exclude [OF _ assms] that remove(4,5) by (simp add: userBaseHoldings_def)
    then have "set adds = {}"
      using eff.cl_mono [of after before ?r ?r] unfolding d(1) [symmetric] eff.delta_adds by auto
    then have "adds = []" by simp
    then show ?thesis using applies remove by (auto simp: deltaWrites_def)
  qed
qed

definition demo_snapshot :: plan_snapshot where
  "demo_snapshot = \<lparr>ps_Bundle = \<lparr>b_ID = ''b1'', b_Name = ''Safety'', b_RetiredAt = None\<rparr>, ps_Version = ''v1'',
     ps_VersionRoles = [RoleKey ''p'' ''c''],
     ps_Catalogue = [(RoleKey ''p'' ''c'', \<lparr>rws_Role = ''Cutter'', rws_Project = ''Workshop''\<rparr>)],
     ps_CatalogueUnread = False,
     ps_Profiles = [(''u'', \<lparr>up_ID = ''u'', up_Name = ''Una'', up_Email = [], up_Status = ''active''\<rparr>)],
     ps_Access = \<lparr>as_People = [(''u'', zero_person)], as_Rules = [], as_RoleWaits = []\<rparr>\<rparr>"

definition demo_action :: action where
  "demo_action = \<lparr>ac_Op = BulkOpAssignBundle, ac_UserID = ''u'', ac_BundleID = ''b1''\<rparr>"

lemma demo_person_of: "person_of demo_snapshot ''u'' = zero_person"
  by (simp add: person_of_def demo_snapshot_def)

lemma demo_bases:
  "plan_bases Default demo_action demo_snapshot \<lparr>up_ID = ''u'', up_Name = ''Una'', up_Email = [], up_Status = ''active''\<rparr> zero_person =
     Inr ([], [(RoleKey ''p'' ''c'', True)], ''v1'')"
  by (simp add: plan_bases_def demo_action_def demo_snapshot_def zero_person_def Left_def trim_space_def is_space_def
      to_lower_def to_lower_char_def baseFrom_def)

lemma demo_delta:
  "closureDelta (effectiveClosure [] []) (effectiveClosure [(RoleKey ''p'' ''c'', True)] []) = ([RoleKey ''p'' ''c''], [])"
  by (simp add: effectiveClosure_def Closure_def Ends_def held_keys_def held_def closureDelta_def sortRoleKeys_def)

lemma demo_plan:
  "bo_Effect (ch_Row (Plan H Default demo_action demo_snapshot)) = EffectApply"
  "ch_Writes (Plan H Default demo_action demo_snapshot) =
     [\<lparr>w_params = delta_write ''u'' ''bundle'' ''b1'' Add (RoleKey ''p'' ''c''), w_Delivery = DeliveryStraightAway, w_OutboxID = []\<rparr>]"
  "ch_Cancels (Plan H Default demo_action demo_snapshot) = []"
proof -
  have u: "ac_UserID demo_action = ''u''" "ac_BundleID demo_action = ''b1''" by (simp_all add: demo_action_def)
  have p: "map_of (ps_Profiles demo_snapshot) ''u'' = Some \<lparr>up_ID = ''u'', up_Name = ''Una'', up_Email = [], up_Status = ''active''\<rparr>"
    "as_Rules (ps_Access demo_snapshot) = []"
    by (simp_all add: demo_snapshot_def)
  have offered: "plan_offered demo_snapshot [RoleKey ''p'' ''c''] = None"
    by (simp add: plan_offered_def demo_snapshot_def)
  show "bo_Effect (ch_Row (Plan H Default demo_action demo_snapshot)) = EffectApply"
    by (simp add: Plan_def Let_def u p demo_person_of demo_bases demo_delta offered)
  show "ch_Writes (Plan H Default demo_action demo_snapshot) =
     [\<lparr>w_params = delta_write ''u'' ''bundle'' ''b1'' Add (RoleKey ''p'' ''c''), w_Delivery = DeliveryStraightAway, w_OutboxID = []\<rparr>]"
    by (simp add: Plan_def Let_def u p demo_person_of demo_bases demo_delta offered deltaWrites_def)
       (simp add: plan_write_of_def zero_person_def demo_snapshot_def)
  show "ch_Cancels (Plan H Default demo_action demo_snapshot) = []"
    by (simp add: Plan_def Let_def u p demo_person_of demo_bases demo_delta offered deltaWrites_def)
       (simp add: plan_cancels_def zero_person_def)
qed

theorem Plan_guards_witness:
  "b_RetiredAt (ps_Bundle demo_snapshot) = None \<and> ch_Refusal (Plan (\<lambda>x. x) Default demo_action demo_snapshot) = [] \<and>
   ch_Writes (Plan (\<lambda>x. x) Default demo_action demo_snapshot) \<noteq> []"
  using Plan_guards [of demo_snapshot demo_action "\<lambda>x. x" Default] demo_plan [of "\<lambda>x. x"]
  by (simp add: demo_action_def demo_person_of zero_person_def)

section \<open>Delivering a change\<close>

text \<open>Only the operation, the person and the roles of a write matter to what its delivery does.\<close>

definition write_effect :: "enqueue_params \<Rightarrow> op_type \<times> string \<times> string \<times> string list" where
  "write_effect p = (p_OpType p, p_UserID p, p_ProjectID p, p_RoleKeys p)"

lemma deliver_cong: "map write_effect ps = map write_effect qs \<Longrightarrow> deliver ps T = deliver qs T"
proof (induction ps arbitrary: qs T)
  case (Cons p ps)
  then obtain q qs' where qs: "qs = q # qs'" "write_effect p = write_effect q" "map write_effect ps = map write_effect qs'"
    by (cases qs) auto
  then have "write_keys p = write_keys q" "p_OpType p = p_OpType q" by (simp_all add: write_effect_def write_keys_def)
  with Cons.IH [OF qs(3)] qs(1) show ?case by (cases "p_OpType q") simp_all
qed simp

lemma params_effect:
  "map write_effect (params_of ch actor reason) = map (write_effect \<circ> w_params) (ch_Writes ch)"
  by (simp add: params_of_def write_effect_def)

definition base_after :: "action \<Rightarrow> plan_snapshot \<Rightarrow> role_key goset" where
  "base_after a s =
     (if ac_Op a = BulkOpAssignBundle then add_keys (ps_VersionRoles s) (userBaseHoldings (person_of s (ac_UserID a)))
      else baseFrom (person_of s (ac_UserID a)) (ac_BundleID a))"

text \<open>
  C19. Delivering the writes of an applied change moves the person, and nobody else, from
  the roles they hold now, with everything rules add, to the roles they hold with the
  bundle's version given or the bundle taken away: a target in step before is in step
  after.
\<close>

theorem Plan_moves_closure:
  assumes "bo_Effect (ch_Row (Plan H loc a s)) = EffectApply"
    and "\<And>k. (ac_UserID a, k) \<in> T \<longleftrightarrow>
           held (effectiveClosure (userBaseHoldings (person_of s (ac_UserID a))) (as_Rules (ps_Access s))) k"
  shows "(v, k) \<in> deliver (params_of (Plan H loc a s) actor reason) T \<longleftrightarrow>
           (if v = ac_UserID a then held (effectiveClosure (base_after a s) (as_Rules (ps_Access s))) k else (v, k) \<in> T)"
proof (cases rule: Plan_cases [of H loc a s])
  case refused
  with assms(1) show ?thesis by simp
next
  case (applies profile before after version adds revokes)
  have bases: "before = userBaseHoldings (person_of s (ac_UserID a))" "after = base_after a s"
    using applies(4) by (auto simp: plan_bases_def base_after_def userBaseHoldings_def Let_def split: if_splits option.splits)
  have "deliver (params_of (Plan H loc a s) actor reason) T =
        deliver (fst (deltaParams (ac_UserID a) adds revokes actor reason ''bundle'' (ac_BundleID a))) T"
    by (rule deliver_cong) (simp add: params_effect applies(7) deltaParams_def comp_def write_effect_def)
  with deliver_closure_delta [OF all_true_effective all_true_effective _ applies(5)] assms(2) bases
  show ?thesis by simp
qed

theorem Plan_moves_closure_witness:
  "(''u'', RoleKey ''p'' ''c'') \<in> deliver (params_of (Plan (\<lambda>x. x) Default demo_action demo_snapshot) ''op'' []) {}"
proof -
  have T: "(ac_UserID demo_action, k) \<in> {} \<longleftrightarrow>
      held (effectiveClosure (userBaseHoldings (person_of demo_snapshot (ac_UserID demo_action)))
        (as_Rules (ps_Access demo_snapshot))) k" for k
    by (simp add: demo_action_def demo_person_of)
       (simp add: zero_person_def userBaseHoldings_def baseFrom_def demo_snapshot_def effectiveClosure_def Closure_def
         Ends_def held_keys_def)
  have "held (effectiveClosure (base_after demo_action demo_snapshot) (as_Rules (ps_Access demo_snapshot))) (RoleKey ''p'' ''c'')"
    by (rule eff.cl_extensive) (simp add: base_after_def demo_action_def demo_snapshot_def)
  then show ?thesis
    using Plan_moves_closure [OF demo_plan(1) T, where v = "''u''" and k = "RoleKey ''p'' ''c''"] by (simp add: demo_action_def)
qed

end
