(* ===== verification/Plan_Outbox.thy ===== *)
theory Plan_Outbox
  imports Planner
begin

text \<open>
  The planner and the outbox agree. \<open>planner.go\<close> says of two of its errors (the outbox
  wrote other rows than the plan, the assignment was already there) that they are
  unreachable, because plan and outbox ask the same questions of the same snapshot under
  one lock. Here that is proved: if the snapshot is of the tables, an applied change is
  written, each write that is delivered getting the row the outbox wrote for it.

  What the argument needs of the outbox is that a write to one role leaves the questions
  asked for any other role as they were; this is the section on one role's queue.
\<close>

section \<open>The queue of one role\<close>

text \<open>The pending changes of one person's role, and whether a write of it has one to answer.\<close>

definition role_queue :: "string \<Rightarrow> role_key \<Rightarrow> outbox_row list \<Rightarrow> queued_change set" where
  "role_queue u k rows =
     scan_queued ` {r \<in> set rows. r_target r = ''zitadel'' \<and> r_status r = Pending \<and> r_user r = u \<and>
       r_project r = Some (ProjectID k) \<and> r_roles r = [RoleOf k]}"

definition single_write :: "string \<Rightarrow> role_key \<Rightarrow> enqueue_params \<Rightarrow> bool" where
  "single_write u k p \<longleftrightarrow> p_UserID p = u \<and> p_ProjectID p = ProjectID k \<and> p_RoleKeys p = [RoleOf k] \<and>
     (p_OpType p = Add \<or> p_OpType p = Revoke)"

lemma single_answersAny: "single_write u k p \<Longrightarrow> answersAny p"
  by (auto simp: single_write_def answersAny_def)

lemma single_ref: "single_write u k p \<Longrightarrow> RoleKey (p_ProjectID p) (hd (p_RoleKeys p)) = k"
  by (cases k) (simp add: single_write_def)

lemma single_candidate:
  "single_write u k p \<Longrightarrow> candidateWhere ''zitadel'' p r \<longleftrightarrow>
     r_target r = ''zitadel'' \<and> r_status r = Pending \<and> r_user r = u \<and> r_project r = Some (ProjectID k) \<and> r_roles r = [RoleOf k]"
  by (simp add: single_write_def candidateWhere_def)

lemma answered_queue:
  "single_write u k p \<Longrightarrow>
   set (AnsweredBy p (candidates ''zitadel'' p rows)) = {c \<in> role_queue u k rows. Answers p c}"
  by (auto simp: AnsweredBy_filter in_candidates role_queue_def single_candidate)

lemma answered_row_other:
  "single_write u k p \<Longrightarrow> answered_row ''zitadel'' p r \<Longrightarrow>
   r_status r = Pending \<and> \<not> (r_project r = Some (ProjectID k') \<and> r_roles r = [RoleOf k'] \<and> k' \<noteq> k)"
  by (cases k; cases k') (auto simp: answered_row_def single_candidate)

lemma role_queue_cancel:
  assumes "single_write u k p" and "k' \<noteq> k"
  shows "role_queue u k' (cancel_rows ''zitadel'' p reason now rows) = role_queue u k' rows"
proof -
  have "scan_queued r \<in> role_queue u k' (cancel_rows ''zitadel'' p reason now rows)"
    if "r \<in> set rows" "r_target r = ''zitadel''" "r_status r = Pending" "r_user r = u"
      "r_project r = Some (ProjectID k')" "r_roles r = [RoleOf k']" for r
  proof -
    have "\<not> answered_row ''zitadel'' p r" using answered_row_other [OF assms(1), of r k'] assms(2) that by auto
    then have "r \<in> set (cancel_rows ''zitadel'' p reason now rows)" using that(1) by (auto simp: in_cancel_rows)
    with that show ?thesis by (auto simp: role_queue_def)
  qed
  moreover have "c \<in> role_queue u k' rows" if "c \<in> role_queue u k' (cancel_rows ''zitadel'' p reason now rows)" for c
    using that by (auto simp: role_queue_def in_cancel_rows superseded_by_def split: if_splits)
  ultimately show ?thesis by (auto simp: role_queue_def)
qed

lemma standing_cancel:
  assumes "single_write u k p"
  shows "standingFor (cancel_rows ''zitadel'' p reason now rows) ''zitadel'' v k' = standingFor rows ''zitadel'' v k'"
proof -
  have *: "max_seq (\<lambda>r. applied_for ''zitadel'' v k' r \<and> Q (r_op r)) (cancel_rows ''zitadel'' p reason now rows) =
        max_seq (\<lambda>r. applied_for ''zitadel'' v k' r \<and> Q (r_op r)) rows" for Q
    unfolding cancel_rows_def
    by (rule max_seq_map) (use answered_row_other [OF assms] in \<open>auto simp: applied_for_def superseded_by_def\<close>)
  show ?thesis
    unfolding standingFor_def
    using * [of "\<lambda>op. op = Add \<or> op = Replace"] * [of "\<lambda>op. op = Revoke"] by simp
qed

lemma insert_row_frame:
  assumes "insert_row env key c why now p s = (i, s')" and "single_write u k p" and "k' \<noteq> k"
  shows "role_queue u k' (outbox s') = role_queue u k' (outbox s)"
    and "standingFor (outbox s') ''zitadel'' v k' = standingFor (outbox s) ''zitadel'' v k'"
proof -
  from insert_row_spec [OF assms(1)] obtain row where row: "outbox s' = outbox s @ [row]"
    "r_status row = Pending" "r_project row = Some (p_ProjectID p)" "r_roles row = p_RoleKeys p" .
  have "\<not> (r_project row = Some (ProjectID k') \<and> r_roles row = [RoleOf k'])"
    using row assms(2,3) by (cases k; cases k') (auto simp: single_write_def)
  then show "role_queue u k' (outbox s') = role_queue u k' (outbox s)"
    using row(1) by (auto simp: role_queue_def)
  show "standingFor (outbox s') ''zitadel'' v k' = standingFor (outbox s) ''zitadel'' v k'"
    using row by (simp add: standingFor_def applied_for_def)
qed

section \<open>One write\<close>

text \<open>What the gate lets through: it does not ask, was reviewed, or was told of the change.\<close>

definition gate_admits :: "cancel_gate option \<Rightarrow> queued_change \<Rightarrow> bool" where
  "gate_admits g c \<longleftrightarrow>
     (case g of None \<Rightarrow> True
      | Some gt \<Rightarrow> g_asks gt = Some False \<or> g_reviewed gt \<or> held (g_acked gt) (q_ID c))"

lemma AdmitCancellations_admits:
  "(\<And>c. c \<in> set cs \<Longrightarrow> gate_admits g c) \<Longrightarrow> AdmitCancellations g cs = (True, g)"
  by (auto simp: AdmitCancellations_def gate_admits_def all_acked_iff split: option.splits)

definition still_owed :: "string \<Rightarrow> role_key \<Rightarrow> outbox_row list \<Rightarrow> enqueue_params \<Rightarrow> bool" where
  "still_owed u k rows p \<longleftrightarrow>
     (\<exists>c \<in> role_queue u k rows. Answers p c) \<longrightarrow> OwedAfterCancel p (standingFor rows ''zitadel'' u k)"

lemma withdraw_single:
  assumes "single_write u k p" and "wf_outbox s"
    and "\<And>c. c \<in> role_queue u k (outbox s) \<Longrightarrow> Answers p c \<Longrightarrow> gate_admits (gate s) c"
  shows "\<exists>s'. withdrawUndelivered ''zitadel'' p now s = (Inr (still_owed u k (outbox s) p), s') \<and> gate s' = gate s"
proof (cases "AnsweredBy p (candidates ''zitadel'' p (outbox s)) = []")
  case True
  then have "{c \<in> role_queue u k (outbox s). Answers p c} = {}"
    using answered_queue [OF assms(1), of "outbox s"] by simp
  then have "still_owed u k (outbox s) p" by (auto simp: still_owed_def)
  with withdraw_nothing [of p "''zitadel''" s now] True show ?thesis by simp
next
  case False
  let ?ans = "AnsweredBy p (candidates ''zitadel'' p (outbox s))"
  from False obtain c where "c \<in> set ?ans" by (cases ?ans) auto
  then have ex: "\<exists>c \<in> role_queue u k (outbox s). Answers p c"
    using answered_queue [OF assms(1), of "outbox s"] by auto
  have adm: "AdmitCancellations (gate s) ?ans = (True, gate s)"
    using answered_queue [OF assms(1), of "outbox s"] assms(3) by (intro AdmitCancellations_admits) auto
  let ?reason = "if p_OpType p = Add then givenBackReason else withdrawnReason"
  have rows: "supersede_rows (map q_ID ?ans) ?reason now (outbox s) = cancel_rows ''zitadel'' p ?reason now (outbox s)"
    using assms(2) by (intro supersede_answered) (simp add: wf_outbox_def)
  have "p_UserID p = u" using assms(1) by (simp add: single_write_def)
  with withdraw_admitted [OF single_answersAny [OF assms(1)] False adm rows [symmetric]] ex
  show ?thesis
    unfolding single_ref [OF assms(1)] standing_cancel [OF assms(1)] by (simp add: still_owed_def)
qed

lemma withdraw_frame:
  assumes "withdrawUndelivered ''zitadel'' p now s = (Inr owed, s')" and "single_write u k p" and "wf_outbox s" and "k' \<noteq> k"
  shows "role_queue u k' (outbox s') = role_queue u k' (outbox s)"
    and "standingFor (outbox s') ''zitadel'' v k' = standingFor (outbox s) ''zitadel'' v k'"
proof -
  from withdraw_rows [OF assms(1,3)] obtain reason where
    "outbox s' = cancel_rows ''zitadel'' p reason now (outbox s)" by blast
  then show "role_queue u k' (outbox s') = role_queue u k' (outbox s)"
    "standingFor (outbox s') ''zitadel'' v k' = standingFor (outbox s) ''zitadel'' v k'"
    using role_queue_cancel [OF assms(2,4)] standing_cancel [OF assms(2)] by simp_all
qed

lemma single_grant_id: "single_write u k (p\<lparr>p_ZitadelGrantID := g\<rparr>) \<longleftrightarrow> single_write u k p"
  by (simp add: single_write_def)

lemma enqueue_row_single:
  assumes "single_write u k p" and "wf_outbox s" and "fresh_ids env s" and "\<And>n. new_id env n \<noteq> ''''"
    and "\<And>c. c \<in> role_queue u k (outbox s) \<Longrightarrow> Answers p c \<Longrightarrow> gate_admits (gate s) c"
  obtains i s' where "enqueue_row env cid why now p '''' s = (Inr i, s')" "i \<noteq> '''' \<longleftrightarrow> still_owed u k (outbox s) p"
    "wf_outbox s'" "fresh_ids env s'" "gate s' = gate s"
    "\<And>k'. k' \<noteq> k \<Longrightarrow> role_queue u k' (outbox s') = role_queue u k' (outbox s)"
    "\<And>k'. k' \<noteq> k \<Longrightarrow> standingFor (outbox s') ''zitadel'' u k' = standingFor (outbox s) ''zitadel'' u k'"
proof -
  obtain s1 where w: "withdrawUndelivered ''zitadel'' p now s = (Inr (still_owed u k (outbox s) p), s1)" and g: "gate s1 = gate s"
    using withdraw_single [OF assms(1,2,5)] by blast
  note s1 = wf_outbox_withdraw [OF w assms(2)] withdraw_fresh [OF w assms(2,3)] withdraw_frame [OF w assms(1,2)]
  show thesis
  proof (cases "still_owed u k (outbox s) p")
    case False
    with w have "enqueue_row env cid why now p '''' s = (Inr [], s1)" by (simp add: enqueue_row_def)
    with False g s1 show thesis by (intro that [of "[]" s1]) simp_all
  next
    case True
    define p' where "p' = (if p_OpType p = Revoke \<and> p_ZitadelGrantID p = ''''
                      then (case grant_index env (p_UserID p) (p_ProjectID p) of
                              Some g \<Rightarrow> p\<lparr>p_ZitadelGrantID := g\<rparr> | None \<Rightarrow> p) else p)"
    obtain i s2 where ins: "insert_row env (new_key env (next_seq s1)) (Some cid) why now p' s1 = (i, s2)" by fastforce
    have p': "single_write u k p'" using assms(1) by (auto simp: p'_def single_grant_id split: option.splits)
    have "enqueue_row env cid why now p '''' s = (Inr i, s2)"
      using w True ins by (simp add: enqueue_row_def p'_def Let_def)
    moreover have "i \<noteq> ''''"
      using ins assms(4) by (auto simp: insert_row_def Let_def)
    ultimately show thesis
      using insert_row_keeps [OF ins s1(1,2)] g True insert_row_frame [OF ins p'] s1(3,4) by (intro that [of i s2]) simp_all
  qed
qed

section \<open>All the writes of a change\<close>

fun roles_of :: "enqueue_params list \<Rightarrow> role_key list" where
  "roles_of [] = []"
| "roles_of (p # ps) = RoleKey (p_ProjectID p) (hd (p_RoleKeys p)) # roles_of ps"

lemma roles_of_map: "roles_of ps = map (\<lambda>p. RoleKey (p_ProjectID p) (hd (p_RoleKeys p))) ps"
  by (induction ps) simp_all

lemma still_owed_cong:
  "role_queue u k rows' = role_queue u k rows \<Longrightarrow> standingFor rows' ''zitadel'' u k = standingFor rows ''zitadel'' u k \<Longrightarrow>
   still_owed u k rows' p = still_owed u k rows p"
  by (simp add: still_owed_def)

lemma enqueue_rows_single:
  assumes "\<And>p. p \<in> set ps \<Longrightarrow> single_write u (RoleKey (p_ProjectID p) (hd (p_RoleKeys p))) p"
    and "distinct (roles_of ps)" and "wf_outbox s" and "fresh_ids env s" and "\<And>n. new_id env n \<noteq> ''''"
    and "\<And>p c. p \<in> set ps \<Longrightarrow> c \<in> role_queue u (RoleKey (p_ProjectID p) (hd (p_RoleKeys p))) (outbox s) \<Longrightarrow>
           Answers p c \<Longrightarrow> gate_admits (gate s) c"
  shows "\<exists>new s'. enqueue_rows env cid why now ps ids s = (Inr (ids @ new), s') \<and>
           length new = length (filter (\<lambda>p. still_owed u (RoleKey (p_ProjectID p) (hd (p_RoleKeys p))) (outbox s) p) ps)"
  using assms
proof (induction ps arbitrary: ids s)
  case (Cons p ps)
  let ?k = "RoleKey (p_ProjectID p) (hd (p_RoleKeys p))"
  let ?s0 = "closeGivenRequests p now s"
  have p: "single_write u ?k p" using Cons.prems(1) by simp
  have s0: "wf_outbox ?s0" "fresh_ids env ?s0" using Cons.prems(3,4) by (simp_all add: wf_outbox_def fresh_ids_def)
  have adm: "gate_admits (gate ?s0) c" if "c \<in> role_queue u ?k (outbox ?s0)" "Answers p c" for c
    using Cons.prems(6) [of p c] that by simp
  obtain i s1 where r: "enqueue_row env cid why now p '''' ?s0 = (Inr i, s1)" "i \<noteq> '''' \<longleftrightarrow> still_owed u ?k (outbox s) p"
    "wf_outbox s1" "fresh_ids env s1" "gate s1 = gate s"
    "\<And>k'. k' \<noteq> ?k \<Longrightarrow> role_queue u k' (outbox s1) = role_queue u k' (outbox s)"
    "\<And>k'. k' \<noteq> ?k \<Longrightarrow> standingFor (outbox s1) ''zitadel'' u k' = standingFor (outbox s) ''zitadel'' u k'"
    using enqueue_row_single [OF p s0 Cons.prems(5) adm, of cid why now] by auto
  have other: "RoleKey (p_ProjectID q) (hd (p_RoleKeys q)) \<noteq> ?k" if "q \<in> set ps" for q
    using Cons.prems(2) that unfolding roles_of_map by (auto simp: image_iff)
  have adm': "gate_admits (gate s1) c"
    if "q \<in> set ps" "c \<in> role_queue u (RoleKey (p_ProjectID q) (hd (p_RoleKeys q))) (outbox s1)" "Answers q c" for q c
    using Cons.prems(6) [of q c] that r(5,6) other [OF that(1)] by simp
  have owed: "still_owed u (RoleKey (p_ProjectID q) (hd (p_RoleKeys q))) (outbox s1) q =
      still_owed u (RoleKey (p_ProjectID q) (hd (p_RoleKeys q))) (outbox s) q" if "q \<in> set ps" for q
    using other [OF that] by (intro still_owed_cong r(6,7))
  have single: "single_write u (RoleKey (p_ProjectID q) (hd (p_RoleKeys q))) q" if "q \<in> set ps" for q
    using Cons.prems(1) that by simp
  have dist: "distinct (roles_of ps)" using Cons.prems(2) by simp
  let ?ids = "if i = [] then ids else ids @ [i]"
  have "\<exists>new s'. enqueue_rows env cid why now ps ?ids s1 = (Inr (?ids @ new), s') \<and>
      length new = length (filter (\<lambda>p. still_owed u (RoleKey (p_ProjectID p) (hd (p_RoleKeys p))) (outbox s1) p) ps)"
    by (rule Cons.IH) (fact single dist r(3) r(4) Cons.prems(5) adm')+
  then obtain new s' where IH: "enqueue_rows env cid why now ps (if i = '''' then ids else ids @ [i]) s1 =
      (Inr ((if i = '''' then ids else ids @ [i]) @ new), s')"
    "length new = length (filter (\<lambda>p. still_owed u (RoleKey (p_ProjectID p) (hd (p_RoleKeys p))) (outbox s1) p) ps)"
    by blast
  have len: "length new = length (filter (\<lambda>p. still_owed u (RoleKey (p_ProjectID p) (hd (p_RoleKeys p))) (outbox s) p) ps)"
    using IH(2) owed by (metis (no_types, lifting) filter_cong)
  show ?case
  proof (cases "i = ''''")
    case True
    with r(1,2) IH(1) len show ?thesis by auto
  next
    case False
    with r(2) len have "length (i # new) =
        length (filter (\<lambda>p. still_owed u (RoleKey (p_ProjectID p) (hd (p_RoleKeys p))) (outbox s) p) (p # ps))" by simp
    moreover have "enqueue_rows env cid why now (p # ps) ids s = (Inr (ids @ i # new), s')"
      using False r(1) IH(1) by simp
    ultimately show ?thesis by blast
  qed
qed simp

lemma written_writes_Some:
  "length ids = length (filter (\<lambda>w. w_Delivery w \<noteq> DeliveryNone) ws) \<Longrightarrow> \<exists>ws'. written_writes ws ids = Some ws'"
proof (induction ws arbitrary: ids)
  case (Cons w ws)
  show ?case
  proof (cases "w_Delivery w = DeliveryNone")
    case True
    with Cons.prems Cons.IH [of ids] show ?thesis by auto
  next
    case False
    with Cons.prems obtain i "is" where "ids = i # is" by (cases ids) auto
    with False Cons.prems Cons.IH [of "is"] show ?thesis by auto
  qed
qed simp

text \<open>The rows paired with the writes that are delivered, in order, and only with these.\<close>

lemma written_writes_ids:
  "written_writes ws ids = Some ws' \<Longrightarrow>
     map w_params ws' = map w_params ws \<and> map w_Delivery ws' = map w_Delivery ws \<and>
     map w_OutboxID (filter (\<lambda>w. w_Delivery w \<noteq> DeliveryNone) ws') = ids"
proof (induction ws arbitrary: ids ws')
  case Nil
  then show ?case by (simp split: if_splits)
next
  case (Cons w ws)
  then show ?case by (auto split: if_splits list.splits)
qed

section \<open>The snapshot is of the tables\<close>

text \<open>
  What \<open>ReadAccessSnapshot\<close> reads of one person: their pending changes to Zitadel, all of
  which name a project, whether a delivery stands, and the bundles they are assigned.
\<close>

definition snapshot_agrees :: "person_access \<Rightarrow> string \<Rightarrow> access_db \<Rightarrow> bool" where
  "snapshot_agrees person u s \<longleftrightarrow>
     (\<forall>r \<in> set (outbox (ad_db s)). r_target r = ''zitadel'' \<longrightarrow> r_project r \<noteq> None) \<and>
     set (pa_Queued person) =
       scan_queued ` {r \<in> set (outbox (ad_db s)). r_target r = ''zitadel'' \<and> r_status r = Pending \<and> r_user r = u} \<and>
     (\<forall>k. held (pa_Standing person) k = standingFor (outbox (ad_db s)) ''zitadel'' u k) \<and>
     (\<forall>b. held (pa_Bundles person) b \<longleftrightarrow> map_of (ad_assigned s) (u, b) \<noteq> None)"

lemma agrees_answered:
  assumes "snapshot_agrees person u s" and "single_write u k p"
  shows "set (AnsweredBy p (pa_Queued person)) = {c \<in> role_queue u k (outbox (ad_db s)). Answers p c}"
proof -
  have "scan_queued r \<in> role_queue u k (outbox (ad_db s))"
    if "r \<in> set (outbox (ad_db s))" "r_target r = ''zitadel''" "r_status r = Pending" "r_user r = u" "Answers p (scan_queued r)" for r
  proof -
    have "candidateWhere ''zitadel'' p r"
      using that assms(1) by (intro Answers_scan) (auto simp: snapshot_agrees_def)
    then show ?thesis using that single_candidate [OF assms(2)] by (auto simp: role_queue_def)
  qed
  moreover have "role_queue u k (outbox (ad_db s)) \<subseteq> set (pa_Queued person)"
    using assms(1) by (auto simp: role_queue_def snapshot_agrees_def)
  ultimately show ?thesis using assms(1) by (auto simp: AnsweredBy_filter snapshot_agrees_def)
qed

lemma agrees_delivery:
  assumes "snapshot_agrees person u s" and "single_write u k p"
  shows "w_Delivery (plan_write_of sn person p) \<noteq> DeliveryNone \<longleftrightarrow> still_owed u k (outbox (ad_db s)) p"
proof -
  have "AnsweredBy p (pa_Queued person) = [] \<longleftrightarrow> \<not> (\<exists>c \<in> role_queue u k (outbox (ad_db s)). Answers p c)"
    using agrees_answered [OF assms] by (metis (no_types, lifting) empty_Collect_eq set_empty)
  moreover have "held (pa_Standing person) k = standingFor (outbox (ad_db s)) ''zitadel'' u k"
    using assms(1) by (simp add: snapshot_agrees_def)
  ultimately show ?thesis
    by (auto simp: plan_write_of_def Let_def still_owed_def single_ref [OF assms(2)])
qed

lemma single_write_cong: "write_effect p = write_effect q \<Longrightarrow> single_write u k p = single_write u k q"
  by (simp add: write_effect_def single_write_def)

lemma Answers_cong:
  "write_effect p = write_effect q \<Longrightarrow> p_Source p = p_Source q \<Longrightarrow> p_SourceRef p = p_SourceRef q \<Longrightarrow> Answers p c = Answers q c"
  by (simp add: write_effect_def Answers_def answersAny_def outboxSource_def Let_def)

lemma still_owed_write_cong:
  "write_effect p = write_effect q \<Longrightarrow> p_Source p = p_Source q \<Longrightarrow> p_SourceRef p = p_SourceRef q \<Longrightarrow>
   still_owed u k rows p = still_owed u k rows q"
  using Answers_cong [of p q] by (simp add: still_owed_def OwedAfterCancel_def write_effect_def)

lemma deltaWrites_single:
  "p \<in> set (deltaWrites u adds revokes src ref) \<Longrightarrow> single_write u (RoleKey (p_ProjectID p) (hd (p_RoleKeys p))) p"
  by (auto simp: deltaWrites_def single_write_def)

lemma closureDelta_distinct:
  assumes "wf_map a" "wf_map b" "all_true a" "all_true b" "closureDelta a b = (adds, revokes)"
  shows "distinct (adds @ revokes)"
proof -
  have "adds = sort (filter (\<lambda>k. \<not> held a k) (map fst b))" "revokes = sort (filter (\<lambda>k. \<not> held b k) (map fst a))"
    using assms(5) by (simp_all add: closureDelta_def sortRoleKeys_def)
  moreover have "set adds \<inter> set revokes = {}"
    using closureDelta_sets [OF assms(3,4)] assms(5) by auto
  ultimately show ?thesis using assms(1,2) by (simp add: wf_map_def)
qed

lemma roles_of_deltaWrites: "roles_of (deltaWrites u adds revokes src ref) = adds @ revokes"
  by (simp add: roles_of_map deltaWrites_def comp_def)

lemma base_wf:
  "plan_bases loc a s profile person = Inr (before, after, version) \<Longrightarrow> wf_map before \<and> wf_map after"
  by (auto simp: plan_bases_def Let_def split: if_splits option.splits)

text \<open>The rows the outbox writes for an applied change are as many as it delivers.\<close>

lemma enqueue_planned:
  assumes "bo_Effect (ch_Row (Plan H loc a sn)) = EffectApply"
    and "snapshot_agrees (person_of sn (ac_UserID a)) (ac_UserID a) s"
    and "wf_outbox (ad_db s)" and "fresh_ids env (ad_db s)" and "\<And>n. new_id env n \<noteq> ''''"
    and "\<And>c. c \<in> set (ch_Cancels (Plan H loc a sn)) \<Longrightarrow> gate_admits (gate (ad_db s)) c"
  shows "\<exists>new d. enqueueWrites env cid now audits (params_of (Plan H loc a sn) actor reason) (ad_db s) = (Inr new, d) \<and>
           length new = length (filter (\<lambda>w. w_Delivery w \<noteq> DeliveryNone) (ch_Writes (Plan H loc a sn)))"
proof (cases rule: Plan_cases [of H loc a sn])
  case refused
  with assms(1) show ?thesis by simp
next
  case (applies profile before after version adds revokes)
  let ?u = "ac_UserID a" and ?person = "person_of sn (ac_UserID a)" and ?rows = "outbox (ad_db s)"
  let ?ps = "deltaWrites ?u adds revokes ''bundle'' (ac_BundleID a)"
  let ?k = "\<lambda>p. RoleKey (p_ProjectID p) (hd (p_RoleKeys p))"
  define stamp where "stamp = (\<lambda>p. (w_params (plan_write_of sn ?person p))\<lparr>p_GrantedBy := actor, p_Reason := reason, p_PayloadJSON := ''{}''\<rparr>)"
  have params: "params_of (Plan H loc a sn) actor reason = map stamp ?ps"
    by (simp add: params_of_def applies(7) stamp_def)
  have stamp: "write_effect (stamp p) = write_effect p" "p_Source (stamp p) = p_Source p" "p_SourceRef (stamp p) = p_SourceRef p"
    "?k (stamp p) = ?k p" for p
    by (simp_all add: stamp_def write_effect_def)
  have single: "single_write ?u (?k p) p" if "p \<in> set (map stamp ?ps)" for p
  proof -
    from that obtain q where q: "q \<in> set ?ps" "p = stamp q" by auto
    then have "single_write ?u (?k q) q" using deltaWrites_single by blast
    then show ?thesis using single_write_cong [OF stamp(1), of ?u "?k q" q] q(2) stamp(4) [of q] by simp
  qed
  have roles: "roles_of (map stamp ?ps) = adds @ revokes"
    unfolding roles_of_deltaWrites [of ?u adds revokes "''bundle''" "ac_BundleID a", symmetric]
    by (simp add: roles_of_map stamp(4) comp_def)
  have wf: "wf_map before" "wf_map after" using base_wf [OF applies(4)] by simp_all
  have dist: "distinct (roles_of (map stamp ?ps))"
    unfolding roles using closureDelta_distinct [OF _ _ _ _ applies(5)] wf by (simp add: wf_effectiveClosure)
  let ?s = "(ad_db s)\<lparr>audit_logs := audit_logs (ad_db s) @
      map (cascade_audit_row (if cascadeGroupVisible (map stamp ?ps) then Some cid else None)) audits\<rparr>"
  have wfs: "wf_outbox ?s" "fresh_ids env ?s"
    using assms(3,4) by (simp_all add: wf_outbox_def fresh_ids_def)
  have adm: "gate_admits (gate ?s) c"
    if "p \<in> set (map stamp ?ps)" "c \<in> role_queue ?u (?k p) (outbox ?s)" "Answers p c" for p c
  proof -
    from that(1) obtain q where q: "q \<in> set ?ps" "p = stamp q" by auto
    have "Answers q c" using that(3) q(2) Answers_cong [OF stamp(1,2,3)] by simp
    moreover have "c \<in> role_queue ?u (?k q) ?rows" using that(2) q(2) stamp(4) [of q] by simp
    ultimately have "c \<in> set (AnsweredBy q (pa_Queued ?person))"
      using agrees_answered [OF assms(2) deltaWrites_single [OF q(1)]] by blast
    then have "c \<in> set (ch_Cancels (Plan H loc a sn))"
      using q(1) by (auto simp: applies(8) plan_cancels_def)
    with assms(6) show ?thesis by simp
  qed
  have count: "length (filter (\<lambda>p. still_owed ?u (?k p) ?rows p) (map stamp ?ps)) =
      length (filter (\<lambda>w. w_Delivery w \<noteq> DeliveryNone) (ch_Writes (Plan H loc a sn)))"
  proof -
    have "still_owed ?u (?k (stamp p)) ?rows (stamp p) \<longleftrightarrow> w_Delivery (plan_write_of sn ?person p) \<noteq> DeliveryNone"
      if "p \<in> set ?ps" for p
      using agrees_delivery [OF assms(2) deltaWrites_single [OF that]] still_owed_write_cong [OF stamp(1,2,3)] stamp(4) [of p]
      by simp
    then have "filter (\<lambda>p. still_owed ?u (?k (stamp p)) ?rows (stamp p)) ?ps =
        filter (\<lambda>p. w_Delivery (plan_write_of sn ?person p) \<noteq> DeliveryNone) ?ps" by (intro filter_cong) auto
    then show ?thesis by (simp add: applies(7) filter_map comp_def)
  qed
  have "\<exists>new d. enqueue_rows env cid (first_reason audits []) now (map stamp ?ps) [] ?s = (Inr ([] @ new), d) \<and>
      length new = length (filter (\<lambda>p. still_owed ?u (?k p) (outbox ?s) p) (map stamp ?ps))"
    by (rule enqueue_rows_single) (fact single dist wfs(1) wfs(2) assms(5) adm)+
  then obtain new d where "enqueue_rows env cid (first_reason audits '''') now (map stamp ?ps) [] ?s = (Inr ([] @ new), d)"
    "length new = length (filter (\<lambda>p. still_owed ?u (?k p) (outbox ?s) p) (map stamp ?ps))"
    by blast
  then show ?thesis using count unfolding params by (simp add: enqueueWrites_def Let_def)
qed

lemma Plan_UserID [simp]: "ch_UserID (Plan H loc a s) = ac_UserID a"
  by (simp add: Plan_def Let_def split: option.splits sum.splits prod.splits)

lemma Plan_apply_op:
  "bo_Effect (ch_Row (Plan H loc a s)) = EffectApply \<Longrightarrow>
     ac_Op a = BulkOpAssignBundle \<and> \<not> held (pa_Bundles (person_of s (ac_UserID a))) (ac_BundleID a) \<or>
     ac_Op a = BulkOpRemoveBundle"
  by (cases rule: Plan_cases [of H loc a s]) (auto simp: plan_bases_def Let_def split: if_splits option.splits)


definition demo_write_env :: write_env where
  "demo_write_env = \<lparr>we_outbox = demo_env\<lparr>new_id := \<lambda>n. CHR ''i'' # replicate n (CHR ''i'')\<rparr>, we_cascade = (\<lambda>n. ''c''), we_now = 6\<rparr>"

definition demo_access_db :: access_db where
  "demo_access_db = \<lparr>ad_db = empty_db None, ad_assigned = []\<rparr>"


section \<open>The fingerprint of a decision\<close>

lemma Plan_fingerprint:
  "bo_Fingerprint (ch_Row (Plan H loc a s)) =
     Fingerprint H (decided_fields a (bo_Effect (ch_Row (Plan H loc a s))) (ch_Refusal (Plan H loc a s)) (Plan H loc a s))"
  "bo_CancelIDs (ch_Row (Plan H loc a s)) = map q_ID (ch_Cancels (Plan H loc a s))"
  by (simp_all add: Plan_def Let_def decided_fields_def split: option.splits sum.splits prod.splits)

lemma Plan_write_ops: "w \<in> set (ch_Writes (Plan H loc a s)) \<Longrightarrow> hd (write_fields w) \<noteq> ''cancels''"
  by (cases rule: Plan_cases [of H loc a s]) (auto simp: write_fields_def Let_def deltaWrites_def)

lemma blocks_marker:
  assumes "concat (map f xs) @ m # ys = concat (map f xs') @ m # ys'"
    and "\<And>x. length (f x) = n" and "0 < n" and "\<And>x. x \<in> set xs \<union> set xs' \<Longrightarrow> hd (f x) \<noteq> m"
  shows "map f xs = map f xs' \<and> ys = ys'"
  using assms(1,4)
proof (induction xs arbitrary: xs')
  case Nil
  show ?case
  proof (cases xs')
    case (Cons x' xs'')
    obtain b bs where "f x' = b # bs" using assms(2,3) by (metis length_greater_0_conv neq_Nil_conv)
    with Nil Cons show ?thesis by (metis UnCI append_Cons append_Nil concat.simps list.sel(1) list.set_intros(1) list.simps(8,9))
  qed (use Nil in simp)
next
  case (Cons x xs)
  obtain b bs where fx: "f x = b # bs" using assms(2,3) by (metis length_greater_0_conv neq_Nil_conv)
  have "b \<noteq> m" using Cons.prems(2) [of x] fx by simp
  then obtain x' xs'' where xs': "xs' = x' # xs''" using Cons.prems(1) fx by (cases xs') auto
  have "f x @ concat (map f xs) @ m # ys = f x' @ concat (map f xs'') @ m # ys'" using Cons.prems(1) xs' by simp
  then have "f x = f x' \<and> concat (map f xs) @ m # ys = concat (map f xs'') @ m # ys'"
    using assms(2) by (simp add: append_eq_append_conv)
  with Cons.IH [of xs''] Cons.prems(2) xs' show ?case by auto
qed

text \<open>
  A plan row's fingerprint is the identity of its decision: as long as the digest does
  not collide on the two, plans of one action against two snapshots have the same
  fingerprint exactly when they have the same effect, refusal and pinned version, the same
  writes in order (operation, project, role, source and delivery) and cancel the same
  queued changes. Names and words are no part of it.
\<close>

theorem Plan_fingerprint_exact:
  assumes "inj_on H (encode_fields ` ((\<lambda>sn. decided_fields a (bo_Effect (ch_Row (Plan H loc a sn)))
             (ch_Refusal (Plan H loc a sn)) (Plan H loc a sn)) ` {s, s'}))"
  shows "bo_Fingerprint (ch_Row (Plan H loc a s)) = bo_Fingerprint (ch_Row (Plan H loc a s')) \<longleftrightarrow>
           bo_Effect (ch_Row (Plan H loc a s)) = bo_Effect (ch_Row (Plan H loc a s')) \<and>
           ch_Refusal (Plan H loc a s) = ch_Refusal (Plan H loc a s') \<and>
           ch_VersionID (Plan H loc a s) = ch_VersionID (Plan H loc a s') \<and>
           map write_fields (ch_Writes (Plan H loc a s)) = map write_fields (ch_Writes (Plan H loc a s')) \<and>
           bo_CancelIDs (ch_Row (Plan H loc a s)) = bo_CancelIDs (ch_Row (Plan H loc a s'))"
proof -
  let ?f = "\<lambda>sn. decided_fields a (bo_Effect (ch_Row (Plan H loc a sn))) (ch_Refusal (Plan H loc a sn)) (Plan H loc a sn)"
  have fp: "bo_Fingerprint (ch_Row (Plan H loc a s)) = bo_Fingerprint (ch_Row (Plan H loc a s')) \<longleftrightarrow> ?f s = ?f s'"
    unfolding Plan_fingerprint(1) using assms by (intro Fingerprint_eq) simp
  have len: "length (write_fields w) = 6" for w by (simp add: write_fields_def Let_def)
  have "concat (map write_fields (ch_Writes (Plan H loc a s))) @ ''cancels'' # map q_ID (ch_Cancels (Plan H loc a s)) =
        concat (map write_fields (ch_Writes (Plan H loc a s'))) @ ''cancels'' # map q_ID (ch_Cancels (Plan H loc a s')) \<longleftrightarrow>
        map write_fields (ch_Writes (Plan H loc a s)) = map write_fields (ch_Writes (Plan H loc a s')) \<and>
        map q_ID (ch_Cancels (Plan H loc a s)) = map q_ID (ch_Cancels (Plan H loc a s'))"
    (is "?l = ?r \<longleftrightarrow> ?same")
  proof
    have ops: "hd (write_fields x) \<noteq> ''cancels''"
      if "x \<in> set (ch_Writes (Plan H loc a s)) \<union> set (ch_Writes (Plan H loc a s'))" for x
      using that Plan_write_ops by blast
    show "?l = ?r \<Longrightarrow> ?same" by (rule blocks_marker) (use len ops in auto)
  qed simp
  then show ?thesis
    unfolding fp Plan_fingerprint(2) by (auto simp: decided_fields_def)
qed

theorem Plan_fingerprint_exact_witness:
  "bo_Fingerprint (ch_Row (Plan (\<lambda>x. x) Default demo_action demo_snapshot)) \<noteq>
   bo_Fingerprint (ch_Row (Plan (\<lambda>x. x) Default demo_action (demo_snapshot\<lparr>ps_CatalogueUnread := True, ps_Profiles := []\<rparr>)))"
proof -
  have "ch_Writes (Plan (\<lambda>x. x) Default demo_action (demo_snapshot\<lparr>ps_CatalogueUnread := True, ps_Profiles := []\<rparr>)) = []"
    by (simp add: Plan_def Let_def)
  then show ?thesis
    using Plan_fingerprint_exact [of "\<lambda>x. x" demo_action Default demo_snapshot
        "demo_snapshot\<lparr>ps_CatalogueUnread := True, ps_Profiles := []\<rparr>"] demo_plan(2) [of "\<lambda>x. x"]
    by (simp add: inj_on_def)
qed

section \<open>The apply\<close>

definition moved_subject :: "(string \<Rightarrow> string) \<Rightarrow> int \<Rightarrow> bulk_request \<Rightarrow> plan_snapshot \<Rightarrow> plan_subject \<Rightarrow> bool" where
  "moved_subject H loc req sn sj \<longleftrightarrow>
     (let row = ch_Row (Plan H loc (action_of req (sj_SubjectID sj)) sn)
      in bo_Fingerprint row \<noteq> sj_Fingerprint sj \<or> bo_CancelIDs row \<noteq> sj_CancelIDs sj)"

lemma replan_spec:
  "replan H loc req sn sjs =
     (map sj_SubjectID (filter (moved_subject H loc req sn) sjs),
      map (\<lambda>sj. (sj_SubjectID sj, Plan H loc (action_of req (sj_SubjectID sj)) sn)) (filter (\<lambda>sj. \<not> moved_subject H loc req sn sj) sjs),
      concat (map sj_CancelIDs (filter (\<lambda>sj. \<not> moved_subject H loc req sn sj) sjs)))"
  by (induction sjs) (simp_all add: moved_subject_def Let_def)

lemma write_changes_users:
  "write_changes we req chs s = (Inr (ws, convs), s') \<Longrightarrow>
   map fst ws = map fst (filter (\<lambda>uc. bo_Effect (ch_Row (snd uc)) = EffectApply) chs)"
proof (induction we req chs s arbitrary: ws convs s' rule: write_changes.induct)
  case (2 we req u ch chs s)
  then show ?case by (fastforce split: if_splits prod.splits sum.splits)
qed simp

text \<open>
  C22. The apply is all or nothing, and only of what was reviewed. If any person's fresh
  decision differs from the one stored, by fingerprint or by the changes it cancels, the
  apply is refused as stale, naming exactly those people in order, with the state untouched.
  Otherwise it ends either in an error, with every table as it was, or with a result whose
  people written are exactly those whose row applies.
\<close>

theorem apply_all_or_nothing:
  "(if \<exists>sj. sj \<in> set subjects \<and> moved_subject H loc req sn sj
    then ApplyPlannedBulk H loc we req (Inr subjects) (Some sn) s =
           (Inl (StalePlan (sort (map sj_SubjectID (filter (moved_subject H loc req sn) subjects)))), s)
    else (case ApplyPlannedBulk H loc we req (Inr subjects) (Some sn) s of
            (Inl e, s') \<Rightarrow> ad_assigned s' = ad_assigned s \<and> (\<exists>g. ad_db s' = (ad_db s)\<lparr>gate := g\<rparr>)
          | (Inr (plan, ws), s') \<Rightarrow>
              bp_Applied plan \<and>
              mset (bp_Outcomes plan) =
                mset (map (\<lambda>sj. ch_Row (Plan H loc (action_of req (sj_SubjectID sj)) sn)) subjects) \<and>
              map fst ws = map sj_SubjectID (filter (\<lambda>sj.
                bo_Effect (ch_Row (Plan H loc (action_of req (sj_SubjectID sj)) sn)) = EffectApply) subjects)))"
proof (cases "\<exists>sj. sj \<in> set subjects \<and> moved_subject H loc req sn sj")
  case True
  then have "filter (moved_subject H loc req sn) subjects \<noteq> []" by (auto simp: filter_empty_conv)
  with True show ?thesis by (simp add: ApplyPlannedBulk_def apply_tx_def replan_spec Let_def)
next
  case False
  then have none: "filter (moved_subject H loc req sn) subjects = []" by (auto simp: filter_empty_conv)
  have all: "filter (\<lambda>sj. \<not> moved_subject H loc req sn sj) subjects = subjects"
    using False by (simp add: filter_id_conv)
  let ?chs = "map (\<lambda>sj. (sj_SubjectID sj, Plan H loc (action_of req (sj_SubjectID sj)) sn)) subjects"
  define s0 where "s0 = s\<lparr>ad_db := (ad_db s)\<lparr>gate := CancellationsNamed (gate (ad_db s)) (concat (map sj_CancelIDs subjects))\<rparr>\<rparr>"
  have tx: "apply_tx H loc we req (Inr subjects) (Some sn) s =
      (case write_changes we req ?chs s0 of
         (Inl e, s1) \<Rightarrow> (Inl e, s\<lparr>ad_db := (ad_db s)\<lparr>gate := gate (ad_db s1)\<rparr>\<rparr>)
       | (Inr (ws, convs), s1) \<Rightarrow> (Inr (?chs, ws, convs), s1))"
    by (simp add: apply_tx_def replan_spec none all Let_def s0_def)
  show ?thesis
  proof (cases "write_changes we req ?chs s0")
    case (Pair res s1)
    show ?thesis
    proof (cases res)
      case (Inl e)
      with Pair False show ?thesis by (auto simp: ApplyPlannedBulk_def tx)
    next
      case (Inr wc)
      obtain ws convs where wc: "wc = (ws, convs)" by fastforce
      have users: "map fst ws = map sj_SubjectID (filter (\<lambda>sj.
          bo_Effect (ch_Row (Plan H loc (action_of req (sj_SubjectID sj)) sn)) = EffectApply) subjects)"
        using write_changes_users [of we req ?chs s0 ws convs s1] Pair Inr wc by (simp add: filter_map comp_def)
      show ?thesis
        using Pair Inr wc False users
        by (auto simp: ApplyPlannedBulk_def tx Let_def sortOutcomes_def comp_def image_mset.compositionality)
    qed
  qed
qed

end
