(* ===== verification/Named_Write.thy ===== *)
theory Named_Write
  imports Cascade
begin

text \<open>
  A write a person named, in \<^verbatim>\<open>backend/internal/db/propagation_enqueue.go\<close>: the
  branch of \<open>enqueueWrites\<close> with a key. Its ledger rows are upserted, the requests it
  answers closed and its audit row written (\<open>enqueueLedger\<close>), its own outbox row carries
  the key, and the mapping rules follow it as a cascade.

  The direct-grant ledger is a table beside the outbox; its ids come from a counter. What a
  person holds is read from the state by the parameter \<open>read\<close>, before and after the
  write, as \<open>followRules\<close> does through \<open>userBaseHoldings\<close>.
\<close>

section \<open>The ledger\<close>

record ledger_row =
  l_ID :: string
  l_user :: string
  l_project :: string
  l_role :: string
  l_granted_by :: string
  l_reason :: string
  l_expires_at :: "time option"
  l_source :: string
  l_source_ref :: string

record named_db =
  nd_db :: db_state
  nd_grants :: "ledger_row list"
  nd_next :: nat

definition opTypeAuditVerb :: "op_type \<Rightarrow> string" where
  "opTypeAuditVerb op =
     (if op = Revoke then ''revoked'' else if op = Replace then ''replaced'' else ''upserted'')"

definition enqueuedStatus :: "string \<Rightarrow> string" where
  "enqueuedStatus outboxID = (if outboxID = '''' then ''applied'' else ''pending'')"

definition same_grant :: "enqueue_params \<Rightarrow> string \<Rightarrow> ledger_row \<Rightarrow> bool" where
  "same_grant p role r \<longleftrightarrow> l_user r = p_UserID p \<and> l_project r = p_ProjectID p \<and> l_role r = role"

text \<open>\<open>upsertGrant\<close>: the conflict branch keeps the row's id, and its end unless the write sets one.\<close>

definition merge_grant :: "enqueue_params \<Rightarrow> ledger_row \<Rightarrow> ledger_row" where
  "merge_grant p r =
     r\<lparr>l_granted_by := p_GrantedBy p, l_reason := p_Reason p,
       l_expires_at := (if p_EndRule p = EndSet then p_ExpiresAt p else l_expires_at r),
       l_source := outboxSource p, l_source_ref := p_SourceRef p\<rparr>"

fun update_first :: "('a \<Rightarrow> bool) \<Rightarrow> ('a \<Rightarrow> 'a) \<Rightarrow> 'a list \<Rightarrow> 'a list" where
  "update_first P f [] = []"
| "update_first P f (x # xs) = (if P x then f x # xs else x # update_first P f xs)"

definition upsertGrant :: "(nat \<Rightarrow> string) \<Rightarrow> enqueue_params \<Rightarrow> string \<Rightarrow> named_db \<Rightarrow> string \<times> named_db" where
  "upsertGrant new_grant p role s =
     (case find (same_grant p role) (nd_grants s) of
        Some r \<Rightarrow> (l_ID r, s\<lparr>nd_grants := update_first (same_grant p role) (merge_grant p) (nd_grants s)\<rparr>)
      | None \<Rightarrow>
          let row = \<lparr>l_ID = new_grant (nd_next s), l_user = p_UserID p, l_project = p_ProjectID p, l_role = role,
                     l_granted_by = p_GrantedBy p, l_reason = p_Reason p, l_expires_at = p_ExpiresAt p,
                     l_source = outboxSource p, l_source_ref = p_SourceRef p\<rparr>
          in (l_ID row, s\<lparr>nd_grants := nd_grants s @ [row], nd_next := Suc (nd_next s)\<rparr>))"

fun upsert_roles :: "(nat \<Rightarrow> string) \<Rightarrow> enqueue_params \<Rightarrow> string list \<Rightarrow> named_db \<Rightarrow> string list \<times> named_db" where
  "upsert_roles new_grant p [] s = ([], s)"
| "upsert_roles new_grant p (role # roles) s =
     (case upsertGrant new_grant p role s of (i, s1) \<Rightarrow>
        case upsert_roles new_grant p roles s1 of (is, s2) \<Rightarrow> (i # is, s2))"

definition enqueueLedger :: "(nat \<Rightarrow> string) \<Rightarrow> enqueue_params \<Rightarrow> time \<Rightarrow> named_db \<Rightarrow> named_db" where
  "enqueueLedger new_grant p now s =
     (let (ids, s1) = (if p_OpType p \<noteq> Revoke then upsert_roles new_grant p (p_RoleKeys p) s else ([], s));
          firstGrantID = (case ids of [] \<Rightarrow> '''' | i # _ \<Rightarrow> i);
          d = closeGivenRequests p now (nd_db s1);
          audit = \<lparr>a_actor = p_GrantedBy p, a_target = p_UserID p,
                   a_action = ''direct_grant.'' @ opTypeAuditVerb (p_OpType p), a_resource = firstGrantID,
                   a_cascade = None, a_details = NoDetails\<rparr>
      in s1\<lparr>nd_db := d\<lparr>audit_logs := audit_logs d @ [audit]\<rparr>\<rparr>)"

section \<open>The write\<close>

text \<open>The closure \<open>write\<close>: the ledger, then the write's own row unless nothing is sent.\<close>

definition named_own ::
  "enqueue_env \<Rightarrow> (nat \<Rightarrow> string) \<Rightarrow> string \<Rightarrow> time \<Rightarrow> enqueue_params \<Rightarrow> string \<Rightarrow> named_db \<Rightarrow>
   (db_error + string) \<times> named_db" where
  "named_own env new_grant cascadeID now p key s =
     (let s1 = enqueueLedger new_grant p now s
      in if p_NoPropagation p then (Inr '''', s1)
         else (case enqueue_row env cascadeID '''' now p key (nd_db s1) of
             (res, d) \<Rightarrow> (res, s1\<lparr>nd_db := d\<rparr>)))"

definition enqueueNamed ::
  "enqueue_env \<Rightarrow> (nat \<Rightarrow> string) \<Rightarrow> string \<Rightarrow> time \<Rightarrow> mapping_rule list \<Rightarrow> (named_db \<Rightarrow> string \<Rightarrow> person_access) \<Rightarrow>
   enqueue_params \<Rightarrow> string \<Rightarrow> named_db \<Rightarrow> (db_error + string list) \<times> named_db" where
  "enqueueNamed env new_grant cascadeID now rules read p key s =
     (let rollback = (\<lambda>s1. s\<lparr>nd_db := (nd_db s)\<lparr>gate := gate (nd_db s1)\<rparr>\<rparr>)
      in case named_own env new_grant cascadeID now p key s of
           (Inl e, s1) \<Rightarrow> (Inl e, rollback s1)
         | (Inr own, s1) \<Rightarrow>
             let params = followRules p rules (read s (p_UserID p)) (read s1 (p_UserID p))
             in (case enqueue_rows env cascadeID '''' now params [own] (nd_db s1) of
                   (Inl e, d) \<Rightarrow> (Inl e, rollback (s1\<lparr>nd_db := d\<rparr>))
                 | (Inr ids, d) \<Rightarrow> (Inr ids, s1\<lparr>nd_db := d\<rparr>)))"

definition ownAndRules :: "string list \<Rightarrow> string \<times> string list" where
  "ownAndRules ids = (if length ids < 2 then (hd ids, []) else (hd ids, tl ids))"

record enqueue_result =
  rs_OutboxID :: string
  rs_IdempotencyKey :: string
  rs_Status :: string
  rs_RuleOutboxIDs :: "string list"

definition OutboxIDs :: "enqueue_result \<Rightarrow> string list" where
  "OutboxIDs r = (if rs_OutboxID r \<noteq> '''' then [rs_OutboxID r] else []) @ rs_RuleOutboxIDs r"

definition enqueueTx ::
  "enqueue_env \<Rightarrow> (nat \<Rightarrow> string) \<Rightarrow> string \<Rightarrow> time \<Rightarrow> mapping_rule list \<Rightarrow> (named_db \<Rightarrow> string \<Rightarrow> person_access) \<Rightarrow>
   enqueue_params \<Rightarrow> string \<Rightarrow> named_db \<Rightarrow> (db_error + enqueue_result) \<times> named_db" where
  "enqueueTx env new_grant cascadeID now rules read p key s =
     (case enqueueNamed env new_grant cascadeID now rules read p key s of
        (Inl e, s1) \<Rightarrow> (Inl e, s1)
      | (Inr ids, s1) \<Rightarrow>
          let (outboxID, ruleIDs) = ownAndRules ids
          in (Inr \<lparr>rs_OutboxID = outboxID, rs_IdempotencyKey = key, rs_Status = enqueuedStatus outboxID,
                   rs_RuleOutboxIDs = ruleIDs\<rparr>, s1))"

section \<open>The end of a grant\<close>

text \<open>The ledger has one row per person, project and role.\<close>

definition grant_at :: "named_db \<Rightarrow> string \<Rightarrow> string \<Rightarrow> string \<Rightarrow> ledger_row option" where
  "grant_at s u pr ro = find (\<lambda>r. l_user r = u \<and> l_project r = pr \<and> l_role r = ro) (nd_grants s)"

lemma find_update_first_same:
  "(\<And>x. P (f x) = P x) \<Longrightarrow> find P (update_first P f xs) = map_option f (find P xs)"
  by (induction xs) auto

lemma find_update_first_other:
  "(\<And>x. Q x \<Longrightarrow> \<not> P x) \<Longrightarrow> (\<And>x. P x \<Longrightarrow> \<not> Q (f x)) \<Longrightarrow> find Q (update_first P f xs) = find Q xs"
  by (induction xs) auto

lemma find_append: "find P (xs @ ys) = (case find P xs of None \<Rightarrow> find P ys | Some x \<Rightarrow> Some x)"
  by (induction xs) auto

definition upserted_end :: "enqueue_params \<Rightarrow> ledger_row option \<Rightarrow> time option" where
  "upserted_end p old = (case old of Some r \<Rightarrow> if p_EndRule p = EndSet then p_ExpiresAt p else l_expires_at r | None \<Rightarrow> p_ExpiresAt p)"

lemma same_grant_eq: "same_grant p role = (\<lambda>r. l_user r = p_UserID p \<and> l_project r = p_ProjectID p \<and> l_role r = role)"
  by (rule ext) (simp add: same_grant_def)

lemma upsertGrant_at:
  assumes "upsertGrant new_grant p role s = (i, s')"
  shows "grant_at s' u pr ro =
           (if u = p_UserID p \<and> pr = p_ProjectID p \<and> ro = role
            then Some (case grant_at s u pr ro of
                 Some r \<Rightarrow> merge_grant p r
               | None \<Rightarrow> \<lparr>l_ID = new_grant (nd_next s), l_user = p_UserID p, l_project = p_ProjectID p, l_role = role,
                     l_granted_by = p_GrantedBy p, l_reason = p_Reason p, l_expires_at = p_ExpiresAt p,
                     l_source = outboxSource p, l_source_ref = p_SourceRef p\<rparr>)
            else grant_at s u pr ro)"
proof (cases "find (same_grant p role) (nd_grants s)")
  case None
  then show ?thesis
    using assms by (auto simp: upsertGrant_def grant_at_def find_append same_grant_eq Let_def split: option.splits)
next
  case (Some r)
  let ?Q = "\<lambda>r. l_user r = u \<and> l_project r = pr \<and> l_role r = ro"
  from assms Some have s': "nd_grants s' = update_first (same_grant p role) (merge_grant p) (nd_grants s)"
    by (auto simp: upsertGrant_def)
  show ?thesis
  proof (cases "u = p_UserID p \<and> pr = p_ProjectID p \<and> ro = role")
    case True
    then have "?Q = same_grant p role" by (simp add: same_grant_eq)
    moreover have "find (same_grant p role) (nd_grants s') = Some (merge_grant p r)"
      unfolding s' using Some by (subst find_update_first_same) (simp_all add: same_grant_def merge_grant_def)
    ultimately show ?thesis using True Some by (simp add: grant_at_def)
  next
    case False
    have "find ?Q (nd_grants s') = find ?Q (nd_grants s)"
      unfolding s' by (rule find_update_first_other) (use False in \<open>auto simp: same_grant_def merge_grant_def\<close>)
    with False show ?thesis by (auto simp: grant_at_def)
  qed
qed

lemma upsert_roles_at:
  assumes "upsert_roles new_grant p roles s = (is, s')"
  shows "map_option l_expires_at (grant_at s' u pr ro) =
           (if u = p_UserID p \<and> pr = p_ProjectID p \<and> ro \<in> set roles
            then Some (upserted_end p (grant_at s u pr ro))
            else map_option l_expires_at (grant_at s u pr ro))"
  using assms
proof (induction roles arbitrary: s "is" s')
  case (Cons role roles)
  obtain i s1 where r1: "upsertGrant new_grant p role s = (i, s1)" by fastforce
  obtain js s2 where r2: "upsert_roles new_grant p roles s1 = (js, s2)" by fastforce
  from Cons.prems r1 r2 have s': "s' = s2" by simp
  have g1: "grant_at s1 u pr ro = (if u = p_UserID p \<and> pr = p_ProjectID p \<and> ro = role
      then Some (case grant_at s u pr ro of Some r \<Rightarrow> merge_grant p r
           | None \<Rightarrow> \<lparr>l_ID = new_grant (nd_next s), l_user = p_UserID p, l_project = p_ProjectID p, l_role = role,
                 l_granted_by = p_GrantedBy p, l_reason = p_Reason p, l_expires_at = p_ExpiresAt p,
                 l_source = outboxSource p, l_source_ref = p_SourceRef p\<rparr>)
      else grant_at s u pr ro)"
    by (rule upsertGrant_at [OF r1])
  show ?case
    unfolding s' using Cons.IH [OF r2] g1
    by (auto simp: upserted_end_def merge_grant_def split: option.splits)
qed simp

text \<open>
  A named write sets a grant's end only where it may. After its ledger step, a role it
  gives has the end of the grant that was there, unless the write is an extension, whose
  end it takes; a role newly given has the end of the write; and nothing else in the
  ledger changes its end. A removal leaves the ledger as it was.
\<close>

theorem enqueueLedger_keeps_ends:
  "(p_OpType p = Revoke \<longrightarrow> nd_grants (enqueueLedger new_grant p now s) = nd_grants s) \<and>
   (p_OpType p \<noteq> Revoke \<longrightarrow>
      map_option l_expires_at (grant_at (enqueueLedger new_grant p now s) u pr ro) =
        (if u = p_UserID p \<and> pr = p_ProjectID p \<and> ro \<in> set (p_RoleKeys p)
         then Some (case grant_at s u pr ro of
                Some r \<Rightarrow> if p_EndRule p = EndSet then p_ExpiresAt p else l_expires_at r
              | None \<Rightarrow> p_ExpiresAt p)
         else map_option l_expires_at (grant_at s u pr ro)))"
proof -
  obtain ids s1 where r: "upsert_roles new_grant p (p_RoleKeys p) s = (ids, s1)" by fastforce
  have "grant_at (t\<lparr>nd_db := d\<rparr>) u pr ro = grant_at t u pr ro" for t d by (simp add: grant_at_def)
  then show ?thesis
    using upsert_roles_at [OF r, of u pr ro] r
    by (auto simp: enqueueLedger_def Let_def upserted_end_def)
qed

theorem enqueueLedger_keeps_ends_witness:
  "map_option l_expires_at (grant_at (enqueueLedger (\<lambda>n. ''g'') ((demo_write Add)\<lparr>p_ExpiresAt := Some 9\<rparr>) 1
     \<lparr>nd_db = empty_db None, nd_grants = [], nd_next = 0\<rparr>) ''u'' ''p'' ''r'') = Some (Some 9)"
  using enqueueLedger_keeps_ends [of "(demo_write Add)\<lparr>p_ExpiresAt := Some 9\<rparr>" "\<lambda>n. ''g''" 1
      "\<lparr>nd_db = empty_db None, nd_grants = [], nd_next = 0\<rparr>" "''u''" "''p''" "''r''"]
  by (simp add: demo_write_def zero_params_def grant_at_def)

end
