(* ===== verification/Extcall.thy ===== *)
theory Extcall
  imports Go_Prelude
begin

text \<open>
  \<^verbatim>\<open>backend/internal/extcall\<close>: the one way Syndra calls a system it does not own
  (\<^verbatim>\<open>extcall.go\<close>) and the states of a change that came back unanswered
  (\<^verbatim>\<open>retry.go\<close>).

  What the world does during one call is a \<open>call_world\<close>, a function of the number of the
  try: what the attempt answered, whether the caller had given up after it, what the
  read-back said, and whether the wait before the next try was cut short. A response is its
  status; the random part of a wait is the parameter \<open>rnd\<close>, the source of
  \<open>rand.Int64N\<close>. Durations are nanoseconds; doubling stops at the cap, so no
  duration of the loop exceeds twice the cap or the base.
\<close>

section \<open>Policies and waits\<close>

record policy =
  Attempts :: int
  Base :: int
  Max :: int
  Timeout :: int

fun backoff_loop :: "int \<Rightarrow> nat \<Rightarrow> int \<Rightarrow> int" where
  "backoff_loop mx 0 d = d"
| "backoff_loop mx (Suc n) d = (if d < mx then backoff_loop mx n (d * 2) else d)"

definition backoff_cap :: "policy \<Rightarrow> nat \<Rightarrow> int" where
  "backoff_cap p spent =
     (let d = backoff_loop (Max p) spent (Base p) in if Max p > 0 \<and> d > Max p then Max p else d)"

definition Backoff :: "(int \<Rightarrow> int) \<Rightarrow> policy \<Rightarrow> nat \<Rightarrow> int" where
  "Backoff rnd p spent =
     (let d = backoff_cap p spent
      in if d \<le> 1 then d else let half = d div 2 in half + rnd (d - half + 1))"

definition RetryableStatus :: "int \<Rightarrow> bool" where
  "RetryableStatus code \<longleftrightarrow> code = 408 \<or> code = 429 \<or> code \<ge> 500"

definition OutboxRetry :: policy where
  "OutboxRetry = \<lparr>Attempts = 6, Base = 60 * 1000000000, Max = 1800 * 1000000000, Timeout = 0\<rparr>"

definition AddonResend :: policy where
  "AddonResend = \<lparr>Attempts = 2, Base = 10 * 1000000000, Max = 10 * 1000000000, Timeout = 0\<rparr>"

section \<open>The retry states\<close>

abbreviation RetryRetrying :: string where "RetryRetrying \<equiv> ''retrying''"
abbreviation RetryWaiting :: string where "RetryWaiting \<equiv> ''waiting''"

record retry_state =
  rt_State :: string
  rt_Try :: int
  rt_Of :: int
  rt_NextTry :: "time option"

definition Retrying :: "policy \<Rightarrow> int \<Rightarrow> time option \<Rightarrow> retry_state" where
  "Retrying p tried next =
     (if tried \<ge> Attempts p then \<lparr>rt_State = RetryWaiting, rt_Try = tried, rt_Of = Attempts p, rt_NextTry = None\<rparr>
      else \<lparr>rt_State = RetryRetrying, rt_Try = tried + 1, rt_Of = Attempts p, rt_NextTry = next\<rparr>)"

definition NextTryAfter :: "(int \<Rightarrow> int) \<Rightarrow> policy \<Rightarrow> time \<Rightarrow> nat \<Rightarrow> time" where
  "NextTryAfter rnd p now tried = now + Backoff rnd p (tried - 1)"

section \<open>One call\<close>

text \<open>
  A transport error is one another try could fix (\<open>NoAnswer\<close> holds: a timeout, a broken
  connection) or one it could not.
\<close>

datatype call_error = Unanswered string | Fatal string | Cancelled

fun NoAnswer :: "call_error \<Rightarrow> bool" where
  "NoAnswer (Unanswered s) = True"
| "NoAnswer (Fatal s) = False"
| "NoAnswer Cancelled = False"

record ext_call =
  Idempotent :: bool
  HasReadBack :: bool

record call_world =
  answer :: "nat \<Rightarrow> call_error + int"
  gave_up :: "nat \<Rightarrow> bool"
  read_back :: "nat \<Rightarrow> call_error + bool"
  sleep_cut :: "nat \<Rightarrow> bool"

text \<open>
  The loop of \<open>Do\<close> from its \<open>n\<close>-th round, with the number of times the operation was
  sent. \<open>Inr 200\<close> from a read-back is the synthetic answer \<open>landed\<close>.
\<close>

function do_loop :: "policy \<Rightarrow> ext_call \<Rightarrow> call_world \<Rightarrow> nat \<Rightarrow> (call_error + int) \<times> nat" where
  "do_loop p c w n =
     (let attempts = max (Attempts p) 1;
          res = answer w n;
          status = (case res of Inl e \<Rightarrow> 0 | Inr code \<Rightarrow> code);
          sent = Suc n
      in if (case res of Inl e \<Rightarrow> False | Inr code \<Rightarrow> \<not> RetryableStatus code) then (res, sent)
         else if gave_up w n then (Inl Cancelled, sent)
         else if (case res of Inl e \<Rightarrow> \<not> NoAnswer e | Inr code \<Rightarrow> False) then (res, sent)
         else if \<not> Idempotent c \<and> status \<noteq> 429 then
           (if \<not> HasReadBack c then (res, sent)
            else if read_back w n = Inr True then (Inr 200, sent)
            else (res, sent))
         else if int n + 1 \<ge> attempts then (res, sent)
         else if sleep_cut w n then (Inl Cancelled, sent)
         else do_loop p c w (Suc n))"
  by pat_completeness auto
termination
  by (relation "measure (\<lambda>(p, c, w, n). nat (max (Attempts p) 1 - int n))") auto

declare do_loop.simps [simp del]

definition Do :: "policy \<Rightarrow> ext_call \<Rightarrow> call_world \<Rightarrow> (call_error + int) \<times> nat" where
  "Do p c w = do_loop p c w 0"

section \<open>The wait\<close>

lemma backoff_loop_min: "0 < d \<Longrightarrow> 0 < mx \<Longrightarrow> min mx (backoff_loop mx n d) = min mx (d * 2 ^ n)"
proof (induction n arbitrary: d)
  case (Suc n)
  show ?case
  proof (cases "d < mx")
    case True
    with Suc.IH [of "d * 2"] Suc.prems show ?thesis by (simp add: algebra_simps)
  next
    case False
    have "1 \<le> (2 :: int) ^ Suc n" by (rule one_le_power) simp
    then have "d * 1 \<le> d * 2 ^ Suc n" using Suc.prems by (intro mult_left_mono) simp_all
    with False show ?thesis by simp
  qed
qed simp

lemma backoff_cap_min:
  "0 < Base p \<Longrightarrow> 0 < Max p \<Longrightarrow> backoff_cap p spent = min (Max p) (Base p * 2 ^ spent)"
  using backoff_loop_min [of "Base p" "Max p" spent] by (auto simp: backoff_cap_def Let_def min_def split: if_splits)

text \<open>
  The wait after a failed try is spaced and capped: with a positive base and cap and a
  random source in range, it lies between half of, and the whole of, the smaller of the cap
  and the base doubled once per try already spent.
\<close>

theorem Backoff_bounds:
  assumes "0 < Base p" and "0 < Max p" and "\<And>n. 0 < n \<Longrightarrow> 0 \<le> rnd n \<and> rnd n < n"
  shows "min (Max p) (Base p * 2 ^ spent) div 2 \<le> Backoff rnd p spent \<and>
         Backoff rnd p spent \<le> min (Max p) (Base p * 2 ^ spent)"
proof -
  define d where "d = min (Max p) (Base p * 2 ^ spent)"
  have d: "backoff_cap p spent = d" "0 < d"
    using backoff_cap_min assms(1,2) by (simp_all add: d_def)
  show ?thesis
  proof (cases "d \<le> 1")
    case True
    with d have "d = 1" by simp
    with d show ?thesis unfolding d_def [symmetric] by (simp add: Backoff_def)
  next
    case False
    then have "0 < d - d div 2 + 1" by linarith
    with assms(3) have "0 \<le> rnd (d - d div 2 + 1)" "rnd (d - d div 2 + 1) < d - d div 2 + 1" by blast+
    then show ?thesis unfolding d_def [symmetric] using d False by (simp add: Backoff_def Let_def)
  qed
qed

theorem Backoff_bounds_witness:
  "1800 * 1000000000 div 2 \<le> Backoff (\<lambda>n. n - 1) OutboxRetry 9 \<and> Backoff (\<lambda>n. n - 1) OutboxRetry 9 \<le> 1800 * 1000000000"
  using Backoff_bounds [of OutboxRetry "\<lambda>n. n - 1" 9] by (simp add: OutboxRetry_def)

section \<open>Nothing is sent twice unless that is harmless\<close>

text \<open>The rounds that end in another try, and what the others return.\<close>

definition goes_on :: "policy \<Rightarrow> ext_call \<Rightarrow> call_world \<Rightarrow> nat \<Rightarrow> bool" where
  "goes_on p c w n \<longleftrightarrow>
     (Idempotent c \<or> answer w n = Inr 429) \<and> \<not> gave_up w n \<and> \<not> sleep_cut w n \<and> int n + 1 < max (Attempts p) 1 \<and>
     (case answer w n of Inl e \<Rightarrow> NoAnswer e | Inr code \<Rightarrow> RetryableStatus code)"

definition stops_with :: "ext_call \<Rightarrow> call_world \<Rightarrow> nat \<Rightarrow> (call_error + int) \<Rightarrow> bool" where
  "stops_with c w n res \<longleftrightarrow> res = answer w n \<or> res = Inl Cancelled \<or>
     (res = Inr 200 \<and> \<not> Idempotent c \<and> HasReadBack c \<and> read_back w n = Inr True)"

lemma do_loop_go: "goes_on p c w n \<Longrightarrow> do_loop p c w n = do_loop p c w (Suc n)"
  by (subst do_loop.simps) (auto simp: goes_on_def Let_def split: sum.splits)

lemma do_loop_stop: "\<not> goes_on p c w n \<Longrightarrow> \<exists>res. do_loop p c w n = (res, Suc n) \<and> stops_with c w n res"
  by (subst do_loop.simps) (auto simp: goes_on_def stops_with_def Let_def split: sum.splits)

lemma do_loop_sent:
  assumes "int n < max (Attempts p) 1" and "do_loop p c w n = (res, sent)"
  shows "Suc n \<le> sent \<and> int sent \<le> max (Attempts p) 1 \<and> stops_with c w (sent - 1) res \<and>
         (\<forall>k. n \<le> k \<and> Suc k < sent \<longrightarrow> goes_on p c w k)"
  using assms
proof (induction "nat (max (Attempts p) 1 - int n)" arbitrary: n rule: less_induct)
  case less
  show ?case
  proof (cases "goes_on p c w n")
    case True
    then have lt: "int (Suc n) < max (Attempts p) 1" by (simp add: goes_on_def)
    then have "nat (max (Attempts p) 1 - int (Suc n)) < nat (max (Attempts p) 1 - int n)" by simp
    from less.hyps [OF this lt] less.prems(2) do_loop_go [OF True] have
      IH: "Suc (Suc n) \<le> sent" "int sent \<le> max (Attempts p) 1" "stops_with c w (sent - 1) res"
        "\<And>k. Suc n \<le> k \<Longrightarrow> Suc k < sent \<Longrightarrow> goes_on p c w k" by simp_all
    have "goes_on p c w k" if "n \<le> k" "Suc k < sent" for k
      using that True IH(4) by (cases "k = n") auto
    with IH show ?thesis by simp
  next
    case False
    from do_loop_stop [OF this] less.prems show ?thesis by auto
  qed
qed

text \<open>
  The safety rule of every outgoing call: it is sent at least once and at most as often
  as its policy allows; it is sent again only after a try that failed for a reason another
  could fix while the caller was still waiting, and, unless sending it twice is harmless,
  only after an answer of 429, which proves that it was not processed. What comes back is
  the last try's own answer, or that the caller gave up, or a success when a write with an
  unknown outcome was read back as landed.
\<close>

theorem Do_never_repeats_a_write:
  "1 \<le> snd (Do p c w) \<and> int (snd (Do p c w)) \<le> max (Attempts p) 1 \<and>
   (\<forall>k. Suc k < snd (Do p c w) \<longrightarrow>
      (Idempotent c \<or> answer w k = Inr 429) \<and> \<not> gave_up w k \<and>
      (case answer w k of Inl e \<Rightarrow> NoAnswer e | Inr code \<Rightarrow> RetryableStatus code)) \<and>
   (fst (Do p c w) = answer w (snd (Do p c w) - 1) \<or> fst (Do p c w) = Inl Cancelled \<or>
    fst (Do p c w) = Inr 200 \<and> \<not> Idempotent c \<and> HasReadBack c \<and> read_back w (snd (Do p c w) - 1) = Inr True)"
proof -
  have "do_loop p c w 0 = (fst (Do p c w), snd (Do p c w))" by (simp add: Do_def)
  from do_loop_sent [OF _ this] have "Suc 0 \<le> snd (Do p c w)" "int (snd (Do p c w)) \<le> max (Attempts p) 1"
    "stops_with c w (snd (Do p c w) - 1) (fst (Do p c w))" "\<And>k. Suc k < snd (Do p c w) \<Longrightarrow> goes_on p c w k"
    by simp_all
  then show ?thesis by (auto simp: goes_on_def stops_with_def)
qed

theorem Do_never_repeats_a_write_witness:
  "answer \<lparr>answer = (\<lambda>n. if n = 0 then Inr 429 else Inr 200), gave_up = (\<lambda>n. False), read_back = (\<lambda>n. Inr False),
     sleep_cut = (\<lambda>n. False)\<rparr> 0 = Inr 429 \<and>
   snd (Do AddonResend \<lparr>Idempotent = False, HasReadBack = False\<rparr>
     \<lparr>answer = (\<lambda>n. if n = 0 then Inr 429 else Inr 200), gave_up = (\<lambda>n. False), read_back = (\<lambda>n. Inr False),
      sleep_cut = (\<lambda>n. False)\<rparr>) = 2"
proof -
  let ?w = "\<lparr>answer = (\<lambda>n. if n = 0 then Inr 429 else Inr 200), gave_up = (\<lambda>n. False), read_back = (\<lambda>n. Inr False),
     sleep_cut = (\<lambda>n. False)\<rparr>"
  have "snd (Do AddonResend \<lparr>Idempotent = False, HasReadBack = False\<rparr> ?w) = 2"
    by (simp add: Do_def do_loop.simps RetryableStatus_def AddonResend_def)
  with Do_never_repeats_a_write [of AddonResend "\<lparr>Idempotent = False, HasReadBack = False\<rparr>" ?w]
  show ?thesis by simp
qed

end
