(* ===== verification/Settle.thy ===== *)
theory Settle
  imports Outbox Extcall
begin

text \<open>
  The outbox as a queue, in \<^verbatim>\<open>backend/internal/db/propagations.go\<close>: how a drain
  claims rows and how it settles them. A statement is a function of the table
  \<open>propagation_outbox\<close>; \<open>now\<close> is the transaction's time, \<open>active\<close> the registered targets,
  \<open>waits\<close> the roles marked to wait (\<open>role_waits\<close>) and \<open>ver\<close> the snapshot a row's id leads to
  through \<open>plan_subjects\<close> and \<open>desired_state_snapshots\<close>, when it leads to one. The audit
  entries that go with an overtaken row are not part of the table.

  The rows a claim returns come from \<open>RETURNING\<close>, whose order the database leaves open; the
  model returns them in table order and nothing proved here depends on it. A drain holds the
  drain lock, so no other claim runs beside it and \<open>SKIP LOCKED\<close> skips nothing.
\<close>

section \<open>Settling\<close>

datatype settle_error = ErrPropagationNotInFlight

definition in_flight :: "string \<Rightarrow> outbox_row \<Rightarrow> bool" where
  "in_flight i r \<longleftrightarrow> r_ID r = i \<and> r_status r = InFlight"

definition settleOne ::
  "string \<Rightarrow> (outbox_row \<Rightarrow> outbox_row) \<Rightarrow> outbox_row list \<Rightarrow> settle_error + outbox_row list" where
  "settleOne i f rows =
     (if list_ex (in_flight i) rows then Inr (map (\<lambda>r. if in_flight i r then f r else r) rows)
      else Inl ErrPropagationNotInFlight)"

definition MarkPropagationApplied :: "time \<Rightarrow> string \<Rightarrow> outbox_row list \<Rightarrow> settle_error + outbox_row list" where
  "MarkPropagationApplied now i =
     settleOne i (\<lambda>r. r\<lparr>r_status := Applied, r_completed_at := Some now, r_last_error := ''''\<rparr>)"

definition MarkPropagationFailed :: "time \<Rightarrow> string \<Rightarrow> string \<Rightarrow> outbox_row list \<Rightarrow> settle_error + outbox_row list" where
  "MarkPropagationFailed now i errMsg =
     settleOne i (\<lambda>r. r\<lparr>r_status := Failed, r_completed_at := Some now, r_last_error := errMsg\<rparr>)"

definition WaitReasonRefused :: "string \<Rightarrow> string" where
  "WaitReasonRefused cause = ''refused:'' @ cause"

definition MarkPropagationRefused ::
  "time \<Rightarrow> string \<Rightarrow> string \<Rightarrow> string \<Rightarrow> outbox_row list \<Rightarrow> settle_error + outbox_row list" where
  "MarkPropagationRefused now i errMsg cause =
     settleOne i (\<lambda>r. r\<lparr>r_status := Failed, r_completed_at := Some now, r_last_error := errMsg,
                        r_wait_reason := WaitReasonRefused cause\<rparr>)"

definition ReleasePropagation :: "string \<Rightarrow> string \<Rightarrow> outbox_row list \<Rightarrow> settle_error + outbox_row list" where
  "ReleasePropagation i reason =
     settleOne i (\<lambda>r. r\<lparr>r_status := Pending, r_last_error := reason, r_started_at := None\<rparr>)"

definition backoffSchedule :: "(int \<Rightarrow> int) \<Rightarrow> int list" where
  "backoffSchedule rnd = map (Backoff rnd OutboxRetry) [0..<16]"

text \<open>The wait is indexed by the attempts the row had before this one, up to the last entry.\<close>

definition next_not_before :: "int list \<Rightarrow> time \<Rightarrow> outbox_row \<Rightarrow> time" where
  "next_not_before sched now r = now + sched ! (min (r_attempts r + 1) (length sched) - 1)"

definition RequeuePropagation ::
  "int list \<Rightarrow> time \<Rightarrow> string \<Rightarrow> string \<Rightarrow> outbox_row list \<Rightarrow> settle_error + nat \<times> outbox_row list" where
  "RequeuePropagation sched now i errMsg rows =
     (case settleOne i (\<lambda>r. r\<lparr>r_status := Pending, r_attempts := r_attempts r + 1, r_last_error := errMsg,
                              r_started_at := None, r_not_before := Some (next_not_before sched now r)\<rparr>) rows of
        Inl e \<Rightarrow> Inl e
      | Inr rows' \<Rightarrow> Inr (hd (map r_attempts (filter (in_flight i) rows)) + 1, rows'))"

definition MarkPropagationConfirmed :: "time \<Rightarrow> string \<Rightarrow> outbox_row list \<Rightarrow> outbox_row list" where
  "MarkPropagationConfirmed now i rows =
     map (\<lambda>r. if r_ID r = i \<and> r_status r = Applied \<and> r_confirmed_at r = None
              then r\<lparr>r_confirmed_at := Some now\<rparr> else r) rows"

definition HaltRetrying :: string where "HaltRetrying = ''retrying''"

definition WaitReasonHalted :: "string \<Rightarrow> string" where
  "WaitReasonHalted reason = ''halted:'' @ reason"

definition schedulable :: "string list \<Rightarrow> outbox_row \<Rightarrow> bool" where
  "schedulable ids r \<longleftrightarrow> r_ID r \<in> set ids \<and> r_status r = Pending \<and> r_not_before r = None \<and>
     r_wait_reason r \<noteq> ''role_waits'' \<and> r_wait_reason r \<noteq> ''manual''"

definition ScheduleRetry ::
  "int list \<Rightarrow> time \<Rightarrow> string list \<Rightarrow> string \<Rightarrow> outbox_row list \<Rightarrow> string list \<times> outbox_row list" where
  "ScheduleRetry sched now ids errMsg rows =
     (map r_ID (filter (schedulable ids) rows),
      map (\<lambda>r. if schedulable ids r
               then r\<lparr>r_attempts := r_attempts r + 1, r_last_error := errMsg,
                      r_wait_reason := WaitReasonHalted HaltRetrying,
                      r_not_before := Some (next_not_before sched now r)\<rparr> else r) rows)"

section \<open>Claiming\<close>

record snapshot_version =
  sv_subject :: string
  sv_target :: string
  sv_version :: int

definition supersededByLaterVersion ::
  "(string \<Rightarrow> snapshot_version option) \<Rightarrow> outbox_row list \<Rightarrow> outbox_row \<Rightarrow> bool" where
  "supersededByLaterVersion ver rows p \<longleftrightarrow>
     (case ver (r_ID p) of
        None \<Rightarrow> False
      | Some v \<Rightarrow> list_ex (\<lambda>q. r_status q = Applied \<and>
          (case ver (r_ID q) of
             None \<Rightarrow> False
           | Some w \<Rightarrow> sv_subject w = sv_subject v \<and> sv_target w = sv_target v \<and> sv_version v < sv_version w)) rows)"

definition supersededReason :: string where
  "supersededReason = ''a newer desired state for this subject has already been applied''"

definition discards ::
  "(string \<Rightarrow> snapshot_version option) \<Rightarrow> string \<Rightarrow> string \<Rightarrow> outbox_row list \<Rightarrow> outbox_row \<Rightarrow> bool" where
  "discards ver target onlyID rows p \<longleftrightarrow>
     r_target p = target \<and> unresolved p \<and> (onlyID = '''' \<or> r_ID p = onlyID) \<and> supersededByLaterVersion ver rows p"

definition terminateSuperseded ::
  "(string \<Rightarrow> snapshot_version option) \<Rightarrow> time \<Rightarrow> string \<Rightarrow> string \<Rightarrow> outbox_row list \<Rightarrow> outbox_row list" where
  "terminateSuperseded ver now target onlyID rows =
     map (\<lambda>p. if discards ver target onlyID rows p
              then p\<lparr>r_status := Superseded, r_completed_at := Some now, r_last_error := supersededReason\<rparr> else p) rows"

definition notBeforeDue :: "time \<Rightarrow> outbox_row \<Rightarrow> bool" where
  "notBeforeDue now r \<longleftrightarrow> (case r_not_before r of None \<Rightarrow> True | Some t \<Rightarrow> t \<le> now)"

text \<open>Subjects with an unresolved revocation first, then intent order.\<close>

definition has_revocation :: "outbox_row list \<Rightarrow> outbox_row \<Rightarrow> bool" where
  "has_revocation rows p \<longleftrightarrow>
     list_ex (\<lambda>r. r_target r = r_target p \<and> r_user r = r_user p \<and> r_op r = Revoke \<and> unresolved r) rows"

definition revocationFirst :: "outbox_row list \<Rightarrow> outbox_row list \<Rightarrow> outbox_row list" where
  "revocationFirst rows cs = sort_key (\<lambda>p. if has_revocation rows p then 0 else 1 :: nat) (sort_key r_seq cs)"

definition claim_rows :: "time \<Rightarrow> string list \<Rightarrow> outbox_row list \<Rightarrow> outbox_row list \<times> outbox_row list" where
  "claim_rows now ids rows =
     (let rows' = map (\<lambda>r. if r_ID r \<in> set ids then r\<lparr>r_status := InFlight, r_started_at := Some now\<rparr> else r) rows
      in (filter (\<lambda>r. r_ID r \<in> set ids) rows', rows'))"

definition claim_limit :: "int \<Rightarrow> nat" where
  "claim_limit limit = (if limit \<le> 0 then 100 else nat limit)"

definition pending_claimable :: "string set \<Rightarrow> string \<Rightarrow> outbox_row \<Rightarrow> bool" where
  "pending_claimable active target r \<longleftrightarrow> target \<in> active \<and> r_target r = target \<and> unresolved r"

definition ClaimPendingPropagations ::
  "(string \<Rightarrow> snapshot_version option) \<Rightarrow> string set \<Rightarrow> time \<Rightarrow> string \<Rightarrow> int \<Rightarrow> outbox_row list \<Rightarrow> outbox_row list \<times> outbox_row list" where
  "ClaimPendingPropagations ver active now target limit rows0 =
     (let rows = terminateSuperseded ver now target '''' rows0 in
     claim_rows now (map r_ID (take (claim_limit limit)
        (revocationFirst rows (filter (pending_claimable active target) rows)))) rows)"

definition ClaimPropagationByID ::
  "(string \<Rightarrow> snapshot_version option) \<Rightarrow> string set \<Rightarrow> time \<Rightarrow> string \<Rightarrow> string \<Rightarrow> outbox_row list \<Rightarrow> outbox_row option \<times> outbox_row list" where
  "ClaimPropagationByID ver active now target i rows0 =
     (let rows = terminateSuperseded ver now target i rows0;
          P = (\<lambda>r. r_ID r = i \<and> pending_claimable active target r);
          f = (\<lambda>r. r\<lparr>r_status := InFlight, r_started_at := Some now\<rparr>)
      in (case filter P rows of [] \<Rightarrow> None | r # _ \<Rightarrow> Some (f r), map (\<lambda>r. if P r then f r else r) rows))"

definition role_waits_for :: "role_key set \<Rightarrow> outbox_row \<Rightarrow> bool" where
  "role_waits_for waits r \<longleftrightarrow>
     (case r_project r of None \<Rightarrow> False | Some pr \<Rightarrow> list_ex (\<lambda>ro. RoleKey pr ro \<in> waits) (r_roles r))"

definition confers :: "outbox_row \<Rightarrow> bool" where
  "confers e \<longleftrightarrow> r_op e = Add \<or> r_op e = Replace \<or> (r_op e = Apply \<and> \<not> r_withdraws_only e)"

definition overtakes :: "outbox_row list \<Rightarrow> outbox_row \<Rightarrow> bool" where
  "overtakes rows p \<longleftrightarrow>
     list_ex (\<lambda>e. r_target e = r_target p \<and> r_user e = r_user p \<and> r_project e = r_project p \<and>
                  confers e \<and> unresolved e \<and> r_seq e < r_seq p) rows"

definition revocation_claimable ::
  "string set \<Rightarrow> role_key set \<Rightarrow> time \<Rightarrow> string \<Rightarrow> outbox_row list \<Rightarrow> outbox_row \<Rightarrow> bool" where
  "revocation_claimable active waits now target rows r \<longleftrightarrow>
     pending_claimable active target r \<and> (r_op r = Revoke \<or> r_withdraws_only r) \<and> notBeforeDue now r \<and>
     r_wait_reason r \<noteq> ''role_waits'' \<and> \<not> role_waits_for waits r \<and> \<not> overtakes rows r"

definition ClaimPendingRevocations ::
  "(string \<Rightarrow> snapshot_version option) \<Rightarrow> string set \<Rightarrow> role_key set \<Rightarrow> time \<Rightarrow> string \<Rightarrow> int \<Rightarrow> outbox_row list \<Rightarrow> outbox_row list \<times> outbox_row list" where
  "ClaimPendingRevocations ver active waits now target limit rows0 =
     (let rows = terminateSuperseded ver now target '''' rows0 in
     claim_rows now (map r_ID (take (claim_limit limit)
        (sort_key r_seq (filter (revocation_claimable active waits now target rows) rows)))) rows)"

definition retry_claimable ::
  "string set \<Rightarrow> role_key set \<Rightarrow> time \<Rightarrow> string \<Rightarrow> outbox_row \<Rightarrow> bool" where
  "retry_claimable active waits now target r \<longleftrightarrow>
     target \<in> active \<and> r_target r = target \<and>
     (r_status r = InFlight \<or> (r_status r = Pending \<and> r_not_before r \<noteq> None)) \<and> notBeforeDue now r \<and>
     \<not> (r_op r = Revoke \<or> r_withdraws_only r) \<and>
     r_wait_reason r \<noteq> ''role_waits'' \<and> r_wait_reason r \<noteq> ''manual'' \<and> \<not> role_waits_for waits r"

definition ClaimDueRetries ::
  "(string \<Rightarrow> snapshot_version option) \<Rightarrow> string set \<Rightarrow> role_key set \<Rightarrow> time \<Rightarrow> string \<Rightarrow> int \<Rightarrow> outbox_row list \<Rightarrow> outbox_row list \<times> outbox_row list" where
  "ClaimDueRetries ver active waits now target limit rows0 =
     (let rows = terminateSuperseded ver now target '''' rows0 in
     claim_rows now (map r_ID (take (claim_limit limit)
        (revocationFirst rows (filter (retry_claimable active waits now target) rows)))) rows)"

definition terminal :: "row_status \<Rightarrow> bool" where
  "terminal st \<longleftrightarrow> st = Applied \<or> st = Failed \<or> st = Superseded \<or> st = Abandoned"

definition PruneTerminalPropagations :: "time \<Rightarrow> int \<Rightarrow> outbox_row list \<Rightarrow> nat \<times> outbox_row list" where
  "PruneTerminalPropagations now retentionDays rows =
     (let old = (\<lambda>r. terminal (r_status r) \<and>
                     (case r_completed_at r of None \<Rightarrow> False | Some t \<Rightarrow> t < now - retentionDays * 86400000000000))
      in (length (filter old rows), filter (\<lambda>r. \<not> old r) rows))"

section \<open>Other writers of the queue\<close>

definition SetWaitReason :: "string list \<Rightarrow> string \<Rightarrow> outbox_row list \<Rightarrow> outbox_row list" where
  "SetWaitReason ids reason rows =
     map (\<lambda>r. if r_ID r \<in> set ids \<and> r_status r = Pending then r\<lparr>r_wait_reason := reason\<rparr> else r) rows"

text \<open>Deregistering a target; the second component is who is told of which row in the history.\<close>

definition abandonQueuedWorkTx :: "time \<Rightarrow> string \<Rightarrow> outbox_row list \<Rightarrow> (string \<times> string) list \<times> outbox_row list" where
  "abandonQueuedWorkTx now target rows =
     (let hit = (\<lambda>r. r_target r = target \<and> unresolved r)
      in (map (\<lambda>r. (r_user r, r_ID r)) (filter hit rows),
          map (\<lambda>r. if hit r then r\<lparr>r_status := Abandoned, r_completed_at := Some now,
                r_last_error := (if r_started_at r = None then ''the target was deregistered before this row was dispatched''
                  else ''the target was deregistered with this row in flight; whether it applied is unknown'')\<rparr> else r) rows))"

record observed_grant =
  og_user :: string
  og_project :: string
  og_roles :: "string list"

definition observed_on :: "observed_grant list \<Rightarrow> outbox_row \<Rightarrow> observed_grant list" where
  "observed_on index o1 = filter (\<lambda>g. og_user g = r_user o1 \<and> Some (og_project g) = r_project o1) index"

definition seen_in :: "observed_grant list \<Rightarrow> outbox_row list \<Rightarrow> outbox_row \<Rightarrow> bool" where
  "seen_in index rows o1 \<longleftrightarrow>
     ((r_op o1 = Add \<or> r_op o1 = Replace) \<and> list_ex (\<lambda>g. set (r_roles o1) \<subseteq> set (og_roles g)) (observed_on index o1)) \<or>
     (r_op o1 = Revoke \<and> \<not> list_ex (\<lambda>g. list_ex (\<lambda>x. x \<in> set (og_roles g)) (r_roles o1)) (observed_on index o1)) \<or>
     (r_op o1 = Revoke \<and> r_project o1 \<noteq> None \<and>
        list_ex (\<lambda>a. r_user a = r_user o1 \<and> r_project a = r_project o1 \<and> r_target a = ''zitadel'' \<and> r_status a = Applied \<and>
          (r_op a = Add \<or> r_op a = Replace) \<and> list_ex (\<lambda>x. x \<in> set (r_roles a)) (r_roles o1) \<and> r_seq o1 < r_seq a) rows)"

text \<open>\<open>complete\<close>: the latest listing of the organisation was complete and without an error.\<close>

definition ConfirmFromObservation :: "time \<Rightarrow> bool \<Rightarrow> observed_grant list \<Rightarrow> outbox_row list \<Rightarrow> outbox_row list" where
  "ConfirmFromObservation now complete index rows =
     map (\<lambda>o1. if r_status o1 = Applied \<and> r_confirmed_at o1 = None \<and> r_target o1 = ''zitadel'' \<and> complete \<and> seen_in index rows o1
               then o1\<lparr>r_confirmed_at := Some now\<rparr> else o1) rows"

section \<open>The life of a row\<close>

text \<open>
  Every statement that writes the queue, as a step of the database: the drain's, a cascade, one row and the rows
  that follow it (of which a named write is made), the reasons for waiting, the observer, and the deregistration of a target. A settle that
  finds no row in flight changes nothing and is no step; an enqueue that refuses rolls back.
\<close>

inductive queue_step :: "enqueue_env \<Rightarrow> db_state \<Rightarrow> db_state \<Rightarrow> bool" for env where
  claim_pending: "queue_step env s (s\<lparr>outbox := snd (ClaimPendingPropagations ver active now target limit (outbox s))\<rparr>)"
| claim_one: "queue_step env s (s\<lparr>outbox := snd (ClaimPropagationByID ver active now target i (outbox s))\<rparr>)"
| claim_revocations:
    "queue_step env s (s\<lparr>outbox := snd (ClaimPendingRevocations ver active waits now target limit (outbox s))\<rparr>)"
| claim_retries: "queue_step env s (s\<lparr>outbox := snd (ClaimDueRetries ver active waits now target limit (outbox s))\<rparr>)"
| applied: "MarkPropagationApplied now i (outbox s) = Inr rows \<Longrightarrow> queue_step env s (s\<lparr>outbox := rows\<rparr>)"
| failed: "MarkPropagationFailed now i msg (outbox s) = Inr rows \<Longrightarrow> queue_step env s (s\<lparr>outbox := rows\<rparr>)"
| refused: "MarkPropagationRefused now i msg cause (outbox s) = Inr rows \<Longrightarrow> queue_step env s (s\<lparr>outbox := rows\<rparr>)"
| released: "ReleasePropagation i msg (outbox s) = Inr rows \<Longrightarrow> queue_step env s (s\<lparr>outbox := rows\<rparr>)"
| requeued: "RequeuePropagation sched now i msg (outbox s) = Inr (n, rows) \<Longrightarrow> queue_step env s (s\<lparr>outbox := rows\<rparr>)"
| confirmed: "queue_step env s (s\<lparr>outbox := MarkPropagationConfirmed now i (outbox s)\<rparr>)"
| scheduled: "queue_step env s (s\<lparr>outbox := snd (ScheduleRetry sched now ids msg (outbox s))\<rparr>)"
| enqueued: "enqueueWrites env cid now audits params s = (Inr ids, s') \<Longrightarrow> queue_step env s s'"
| enqueued_row: "enqueue_row env cid why now p key s = (Inr i, s') \<Longrightarrow> queue_step env s s'"
| enqueued_rows: "enqueue_rows env cid why now ps ids s = (Inr ids', s') \<Longrightarrow> queue_step env s s'"
| elsewhere: "outbox s' = outbox s \<Longrightarrow> next_seq s' = next_seq s \<Longrightarrow> queue_step env s s'"
| waits: "queue_step env s (s\<lparr>outbox := SetWaitReason ids reason (outbox s)\<rparr>)"
| abandoned: "queue_step env s (s\<lparr>outbox := snd (abandonQueuedWorkTx now target (outbox s))\<rparr>)"
| observed: "queue_step env s (s\<lparr>outbox := ConfirmFromObservation now complete index (outbox s)\<rparr>)"
| pruned: "queue_step env s (s\<lparr>outbox := snd (PruneTerminalPropagations now days (outbox s))\<rparr>)"

abbreviation queue_steps :: "enqueue_env \<Rightarrow> db_state \<Rightarrow> db_state \<Rightarrow> bool" where
  "queue_steps env \<equiv> (queue_step env)\<^sup>*\<^sup>*"

text \<open>
  How a row may differ later: what it is never changes, its tries only grow, and once it is
  terminal only a first confirmation of an applied row is still written to it.
\<close>

definition row_next :: "outbox_row \<Rightarrow> outbox_row \<Rightarrow> bool" where
  "row_next r r' \<longleftrightarrow>
     r_ID r' = r_ID r \<and> r_seq r' = r_seq r \<and> r_target r' = r_target r \<and> r_op r' = r_op r \<and> r_user r' = r_user r \<and>
     r_project r' = r_project r \<and> r_roles r' = r_roles r \<and> r_attempts r \<le> r_attempts r' \<and>
     (terminal (r_status r) \<longrightarrow>
        r' = r \<or> (r_status r = Applied \<and> r_confirmed_at r = None \<and> (\<exists>t. r' = r\<lparr>r_confirmed_at := Some t\<rparr>)))"

lemma row_next_refl [simp]: "row_next r r"
  by (simp add: row_next_def)

lemma row_next_trans: "row_next r r' \<Longrightarrow> row_next r' r'' \<Longrightarrow> row_next r r''"
proof -
  assume a: "row_next r r'" and b: "row_next r' r''"
  have "r'' = r \<or> (r_status r = Applied \<and> r_confirmed_at r = None \<and> (\<exists>t. r'' = r\<lparr>r_confirmed_at := Some t\<rparr>))"
    if t: "terminal (r_status r)"
  proof -
    from a t consider "r' = r" | t where "r_status r = Applied" "r_confirmed_at r = None" "r' = r\<lparr>r_confirmed_at := Some t\<rparr>"
      unfolding row_next_def by metis
    then show ?thesis
    proof cases
      case 1
      with b t show ?thesis unfolding row_next_def by metis
    next
      case (2 u)
      then have "terminal (r_status r')" "r_confirmed_at r' \<noteq> None" by (simp_all add: terminal_def)
      with b have "r'' = r'" unfolding row_next_def by metis
      with 2 show ?thesis by metis
    qed
  qed
  with a b show ?thesis unfolding row_next_def by (metis order_trans)
qed

text \<open>A statement that updates rows in place relates the table to itself, row by row.\<close>

abbreviation in_place :: "outbox_row list \<Rightarrow> outbox_row list \<Rightarrow> bool" where
  "in_place \<equiv> list_all2 row_next"

lemma in_place_map: "(\<And>r. r \<in> set rows \<Longrightarrow> row_next r (f r)) \<Longrightarrow> in_place rows (map f rows)"
  by (simp add: list_all2_conv_all_nth)

lemma in_place_trans: "in_place a b \<Longrightarrow> in_place b c \<Longrightarrow> in_place a c"
  using list_all2_trans [of row_next row_next row_next] row_next_trans by blast

lemma in_place_ids: "in_place rows rows' \<Longrightarrow> map r_ID rows' = map r_ID rows"
  by (induction rule: list_all2_induct) (simp_all add: row_next_def)

lemma in_place_from: "in_place rows rows' \<Longrightarrow> r' \<in> set rows' \<Longrightarrow> \<exists>r \<in> set rows. row_next r r'"
  by (induction rule: list_all2_induct) auto

lemma in_place_row: "in_place rows rows' \<Longrightarrow> r \<in> set rows \<Longrightarrow> \<exists>r' \<in> set rows'. row_next r r'"
  by (induction rule: list_all2_induct) auto

lemma settleOne_in_place:
  assumes "settleOne i f rows = Inr rows'" and "\<And>r. r_status r = InFlight \<Longrightarrow> row_next r (f r)"
  shows "in_place rows rows'"
proof -
  from assms(1) have "rows' = map (\<lambda>r. if in_flight i r then f r else r) rows"
    by (simp add: settleOne_def split: if_splits)
  then show ?thesis using assms(2) by (auto intro!: in_place_map simp: in_flight_def)
qed

lemmas settle_defs = MarkPropagationApplied_def MarkPropagationFailed_def MarkPropagationRefused_def ReleasePropagation_def

lemma settles_in_place:
  "MarkPropagationApplied now i rows = Inr rows' \<Longrightarrow> in_place rows rows'"
  "MarkPropagationFailed now i msg rows = Inr rows' \<Longrightarrow> in_place rows rows'"
  "MarkPropagationRefused now i msg cause rows = Inr rows' \<Longrightarrow> in_place rows rows'"
  "ReleasePropagation i msg rows = Inr rows' \<Longrightarrow> in_place rows rows'"
  unfolding settle_defs by (erule settleOne_in_place, simp add: row_next_def terminal_def)+

lemma requeue_in_place: "RequeuePropagation sched now i msg rows = Inr (n, rows') \<Longrightarrow> in_place rows rows'"
  unfolding RequeuePropagation_def
  by (auto split: sum.splits elim!: settleOne_in_place simp: row_next_def terminal_def)

lemma confirm_in_place: "in_place rows (MarkPropagationConfirmed now i rows)"
  unfolding MarkPropagationConfirmed_def by (rule in_place_map) (simp add: row_next_def, blast)

lemma schedule_in_place: "in_place rows (snd (ScheduleRetry sched now ids msg rows))"
  unfolding ScheduleRetry_def snd_conv
  by (rule in_place_map) (simp add: row_next_def schedulable_def terminal_def)

lemma terminate_in_place: "in_place rows (terminateSuperseded ver now target i rows)"
  unfolding terminateSuperseded_def
  by (rule in_place_map) (auto simp: row_next_def discards_def unresolved_def terminal_def)

text \<open>A claim finds rows by id, and ids are unique, so it touches unresolved rows only.\<close>

lemma claim_rows_in_place:
  assumes "distinct (map r_ID rows)" and "set cs \<subseteq> {r \<in> set rows. unresolved r}"
  shows "in_place rows (snd (claim_rows now (map r_ID cs) rows))"
proof -
  have "\<not> terminal (r_status x)" if x: "x \<in> set rows" "r_ID x \<in> set (map r_ID cs)" for x
  proof -
    from x(2) obtain c where c: "c \<in> set cs" "r_ID x = r_ID c" by auto
    with assms(2) have "c \<in> set rows" "unresolved c" by auto
    with assms(1) x(1) c(2) have "x = c" by (metis distinct_map inj_onD)
    with \<open>unresolved c\<close> show ?thesis by (auto simp: unresolved_def terminal_def)
  qed
  then show ?thesis
    unfolding claim_rows_def Let_def snd_conv by (intro in_place_map) (auto simp: row_next_def)
qed

lemma claim_subsets:
  "set (take n (revocationFirst rows (filter (pending_claimable active target) rows))) \<subseteq> {r \<in> set rows. unresolved r}"
  "set (take n (sort_key r_seq (filter (revocation_claimable active waits now target rows) rows))) \<subseteq> {r \<in> set rows. unresolved r}"
  "set (take n (revocationFirst rows (filter (retry_claimable active waits now target) rows))) \<subseteq> {r \<in> set rows. unresolved r}"
  by (auto simp: revocationFirst_def pending_claimable_def revocation_claimable_def retry_claimable_def unresolved_def
      dest!: in_set_takeD)

lemma claims_in_place:
  assumes "distinct (map r_ID rows)"
  shows "in_place rows (snd (ClaimPendingPropagations ver active now target limit rows))"
    and "in_place rows (snd (ClaimPendingRevocations ver active waits now target limit rows))"
    and "in_place rows (snd (ClaimDueRetries ver active waits now target limit rows))"
    and "in_place rows (snd (ClaimPropagationByID ver active now target i rows))"
proof -
  have t: "in_place rows (terminateSuperseded ver now target j rows)" for j by (rule terminate_in_place)
  then have d: "distinct (map r_ID (terminateSuperseded ver now target j rows))" for j
    using assms in_place_ids [OF t [of j]] by simp
  show "in_place rows (snd (ClaimPendingPropagations ver active now target limit rows))"
    unfolding ClaimPendingPropagations_def Let_def
    by (rule in_place_trans [OF t claim_rows_in_place [OF d claim_subsets(1)]])
  show "in_place rows (snd (ClaimPendingRevocations ver active waits now target limit rows))"
    unfolding ClaimPendingRevocations_def Let_def
    by (rule in_place_trans [OF t claim_rows_in_place [OF d claim_subsets(2)]])
  show "in_place rows (snd (ClaimDueRetries ver active waits now target limit rows))"
    unfolding ClaimDueRetries_def Let_def
    by (rule in_place_trans [OF t claim_rows_in_place [OF d claim_subsets(3)]])
  show "in_place rows (snd (ClaimPropagationByID ver active now target i rows))"
    unfolding ClaimPropagationByID_def Let_def snd_conv
    by (rule in_place_trans [OF t in_place_map])
      (auto simp: row_next_def pending_claimable_def unresolved_def terminal_def)
qed

lemma cancel_rows_in_place: "in_place rows (cancel_rows target p reason now rows)"
  unfolding cancel_rows_def
  by (rule in_place_map) (auto simp: row_next_def superseded_by_def answered_row_def candidateWhere_def terminal_def)

lemma withdraw_in_place:
  assumes "withdrawUndelivered target p now s = (Inr owed, s')" "wf_outbox s"
  shows "in_place (outbox s) (outbox s')"
proof -
  from withdraw_rows [OF assms] obtain reason where "outbox s' = cancel_rows target p reason now (outbox s)" by blast
  then show ?thesis by (simp add: cancel_rows_in_place)
qed

text \<open>
  A step that keeps every row: each one goes on, and a row that is new has an id the
  generator had not given out.
\<close>

definition new_rows_fresh :: "enqueue_env \<Rightarrow> db_state \<Rightarrow> db_state \<Rightarrow> bool" where
  "new_rows_fresh env s s' \<longleftrightarrow> next_seq s \<le> next_seq s' \<and>
     (\<forall>r' \<in> set (outbox s'). (\<exists>r \<in> set (outbox s). r_ID r = r_ID r') \<or> (\<exists>m \<ge> next_seq s. r_ID r' = new_id env m))"

definition keeps_rows :: "enqueue_env \<Rightarrow> db_state \<Rightarrow> db_state \<Rightarrow> bool" where
  "keeps_rows env s s' \<longleftrightarrow>
     (\<forall>r \<in> set (outbox s). \<exists>r' \<in> set (outbox s'). row_next r r') \<and> new_rows_fresh env s s'"

lemma new_rows_fresh_trans: "new_rows_fresh env a b \<Longrightarrow> new_rows_fresh env b c \<Longrightarrow> new_rows_fresh env a c"
  unfolding new_rows_fresh_def by (metis order_trans)

lemma keeps_rows_trans: "keeps_rows env a b \<Longrightarrow> keeps_rows env b c \<Longrightarrow> keeps_rows env a c"
  unfolding keeps_rows_def using row_next_trans new_rows_fresh_trans by blast

lemma in_place_keeps_rows:
  assumes "in_place (outbox s) (outbox s')" and "next_seq s' = next_seq s"
  shows "keeps_rows env s s'"
proof -
  have "\<exists>r \<in> set (outbox s). r_ID r = r_ID r'" if "r' \<in> set (outbox s')" for r'
    using in_place_ids [OF assms(1)] that by (metis imageE imageI list.set_map)
  then show ?thesis using assms by (simp add: keeps_rows_def new_rows_fresh_def in_place_row)
qed

lemma withdraw_keeps:
  assumes "withdrawUndelivered target p now s = (Inr owed, s')" "wf_outbox s" "fresh_ids env s"
  shows "keeps_rows env s s' \<and> wf_outbox s' \<and> fresh_ids env s'"
  using in_place_keeps_rows [OF withdraw_in_place [OF assms(1,2)]] withdraw_rows [OF assms(1,2)]
    wf_outbox_withdraw [OF assms(1,2)] withdraw_fresh [OF assms] by blast

lemma enqueue_row_life:
  assumes "enqueue_row env cid why now p ownKey s = (Inr i, s')" "wf_outbox s" "fresh_ids env s"
  shows "keeps_rows env s s' \<and> wf_outbox s' \<and> fresh_ids env s'"
  using assms(1)
proof (cases rule: enqueue_row_cases)
  case (inserted s1 key c p')
  from insert_row_spec [OF inserted(2)] obtain row where row: "outbox s' = outbox s1 @ [row]"
    "r_ID row = new_id env (next_seq s1)" "next_seq s' = Suc (next_seq s1)" .
  from withdraw_keeps [OF inserted(1) assms(2,3)] have s1: "keeps_rows env s s1" "wf_outbox s1" "fresh_ids env s1" by simp_all
  have "keeps_rows env s1 s'" using row by (auto simp: keeps_rows_def new_rows_fresh_def intro: row_next_refl)
  with s1 insert_row_keeps [OF inserted(2) s1(2,3)] keeps_rows_trans show ?thesis by blast
qed (use withdraw_keeps [OF _ assms(2,3)] in simp_all)

lemma enqueue_rows_life:
  assumes "enqueue_rows env cid why now ps ids s = (Inr ids', s')" "wf_outbox s" "fresh_ids env s"
  shows "keeps_rows env s s' \<and> wf_outbox s' \<and> fresh_ids env s'"
  using assms
proof (induction ps arbitrary: ids s)
  case Nil
  then show ?case by (auto simp: in_place_keeps_rows list.rel_refl)
next
  case (Cons p ps)
  let ?s0 = "closeGivenRequests p now s"
  have s0: "wf_outbox ?s0" "fresh_ids env ?s0" "keeps_rows env s ?s0"
    using Cons.prems by (simp_all add: wf_outbox_def fresh_ids_def in_place_keeps_rows list.rel_refl)
  obtain i s1 where e: "enqueue_row env cid why now p '''' ?s0 = (Inr i, s1)"
    using Cons.prems(1) by (auto split: prod.splits sum.splits)
  from enqueue_row_life [OF e s0(1,2)]
  have s1: "keeps_rows env ?s0 s1" "wf_outbox s1" "fresh_ids env s1" by simp_all
  from Cons.prems(1) e have "enqueue_rows env cid why now ps (if i = '''' then ids else ids @ [i]) s1 = (Inr ids', s')" by simp
  from Cons.IH [OF this s1(2,3)] s1(1) s0(3) show ?case using keeps_rows_trans by blast
qed

lemma enqueueWrites_life:
  assumes "enqueueWrites env cid now audits params s = (Inr ids, s')" "wf_outbox s" "fresh_ids env s"
  shows "keeps_rows env s s' \<and> wf_outbox s' \<and> fresh_ids env s'"
proof -
  let ?s = "s\<lparr>audit_logs := audit_logs s @ map (cascade_audit_row
     (if cascadeGroupVisible params then Some cid else None)) audits\<rparr>"
  have s: "wf_outbox ?s" "fresh_ids env ?s" using assms(2,3) by (simp_all add: wf_outbox_def fresh_ids_def)
  have "enqueue_rows env cid (first_reason audits '''') now params [] ?s = (Inr ids, s')"
    using assms(1) unfolding enqueueWrites_def Let_def by (simp only: split: prod.splits sum.splits) simp_all
  from enqueue_rows_life [OF this s] show ?thesis by (simp add: keeps_rows_def new_rows_fresh_def)
qed

text \<open>What the tables keep along every step: unique ids, drawn from the generator.\<close>

definition queue_inv :: "enqueue_env \<Rightarrow> db_state \<Rightarrow> bool" where
  "queue_inv env s \<longleftrightarrow> wf_outbox s \<and> fresh_ids env s"

lemma queue_inv_distinct: "queue_inv env s \<Longrightarrow> distinct (map r_ID (outbox s))"
  by (simp add: queue_inv_def wf_outbox_def)

lemma queue_inv_in_place:
  assumes "queue_inv env s" and "in_place (outbox s) rows"
  shows "queue_inv env (s\<lparr>outbox := rows\<rparr>)"
proof -
  have "\<exists>r' \<in> set (outbox s). r_ID r = r_ID r' \<and> r_seq r = r_seq r'" if "r \<in> set rows" for r
    using in_place_from [OF assms(2) that] by (auto simp: row_next_def)
  then show ?thesis
    using assms(1) in_place_ids [OF assms(2)] unfolding queue_inv_def wf_outbox_def fresh_ids_def
    by simp metis
qed

lemma prune_keeps:
  assumes "queue_inv env s"
  shows "queue_inv env (s\<lparr>outbox := snd (PruneTerminalPropagations now days (outbox s))\<rparr>)"
  using assms unfolding queue_inv_def wf_outbox_def fresh_ids_def PruneTerminalPropagations_def Let_def
  by (simp add: distinct_map_filter)

lemma others_in_place:
  "in_place rows (SetWaitReason ids reason rows)" "in_place rows (snd (abandonQueuedWorkTx now target rows))"
  "in_place rows (ConfirmFromObservation now complete index rows)"
proof -
  show "in_place rows (SetWaitReason ids reason rows)"
    unfolding SetWaitReason_def by (rule in_place_map) (simp add: row_next_def terminal_def)
  show "in_place rows (snd (abandonQueuedWorkTx now target rows))"
    unfolding abandonQueuedWorkTx_def Let_def snd_conv by (rule in_place_map) (simp add: row_next_def terminal_def unresolved_def)
  show "in_place rows (ConfirmFromObservation now complete index rows)"
    unfolding ConfirmFromObservation_def by (rule in_place_map) (simp add: row_next_def, blast)
qed

lemma step_kinds:
  assumes "queue_step env s s'" and "distinct (map r_ID (outbox s))"
  obtains (updated) rows where "in_place (outbox s) rows" "s' = s\<lparr>outbox := rows\<rparr>"
  | (enqueue) cid now audits params ids where "enqueueWrites env cid now audits params s = (Inr ids, s')"
  | (row) cid why now p key i where "enqueue_row env cid why now p key s = (Inr i, s')"
  | (rows) cid why now ps ids ids' where "enqueue_rows env cid why now ps ids s = (Inr ids', s')"
  | (same) "outbox s' = outbox s" "next_seq s' = next_seq s"
  | (prune) now days where "s' = s\<lparr>outbox := snd (PruneTerminalPropagations now days (outbox s))\<rparr>"
  using assms(1)
proof cases
  case enqueued
  then show ?thesis by (rule enqueue)
next
  case enqueued_row
  then show ?thesis by (rule row)
next
  case enqueued_rows
  then show ?thesis by (rule rows)
next
  case elsewhere
  then show ?thesis by (rule same)
next
  case pruned
  then show ?thesis by (rule prune)
qed (erule updated [rotated], (rule claims_in_place [OF assms(2)] confirm_in_place schedule_in_place others_in_place |
       erule settles_in_place requeue_in_place))+

lemma step_keeps:
  assumes "queue_step env s s'" and "queue_inv env s"
  shows "queue_inv env s' \<and> new_rows_fresh env s s' \<and>
    (\<forall>r \<in> set (outbox s). terminal (r_status r) \<or> (\<exists>r' \<in> set (outbox s'). row_next r r')) \<and>
    (\<forall>r \<in> set (outbox s). \<forall>r' \<in> set (outbox s'). r_ID r' = r_ID r \<longrightarrow> row_next r r')"
proof -
  have kept: ?thesis if k: "keeps_rows env s s'" "queue_inv env s'"
  proof -
    have "row_next r r'" if r: "r \<in> set (outbox s)" "r' \<in> set (outbox s')" "r_ID r' = r_ID r" for r r'
    proof -
      from k(1) r(1) obtain x where x: "x \<in> set (outbox s')" "row_next r x" by (auto simp: keeps_rows_def)
      then have "r_ID x = r_ID r'" using r(3) by (simp add: row_next_def)
      with x r(2) queue_inv_distinct [OF k(2)] show ?thesis by (metis distinct_map inj_onD)
    qed
    with k show ?thesis by (simp add: keeps_rows_def)
  qed
  from assms(1) queue_inv_distinct [OF assms(2)] show ?thesis
  proof (cases rule: step_kinds)
    case (updated rows)
    with queue_inv_in_place [OF assms(2)] show ?thesis by (intro kept) (simp_all add: in_place_keeps_rows)
  next
    case (enqueue cid now audits params ids)
    with enqueueWrites_life [OF enqueue] assms(2) show ?thesis by (intro kept) (simp_all add: queue_inv_def)
  next
    case (row cid why now p key i)
    with enqueue_row_life [OF row] assms(2) show ?thesis by (intro kept) (simp_all add: queue_inv_def)
  next
    case (rows cid why now ps ids ids')
    with enqueue_rows_life [OF rows] assms(2) show ?thesis by (intro kept) (simp_all add: queue_inv_def)
  next
    case same
    with assms(2) show ?thesis
      by (intro kept) (simp_all add: in_place_keeps_rows list.rel_refl queue_inv_def wf_outbox_def fresh_ids_def)
  next
    case (prune now days)
    have sub: "set (outbox s') \<subseteq> set (outbox s)" "next_seq s' = next_seq s"
      using prune by (auto simp: PruneTerminalPropagations_def Let_def)
    then have "r' = r" if "r \<in> set (outbox s)" "r' \<in> set (outbox s')" "r_ID r' = r_ID r" for r r'
      using that queue_inv_distinct [OF assms(2)] by (metis distinct_map inj_onD subsetD)
    moreover have "terminal (r_status r) \<or> r \<in> set (outbox s')" if "r \<in> set (outbox s)" for r
      using prune that by (auto simp: PruneTerminalPropagations_def Let_def)
    moreover have "new_rows_fresh env s s'" using sub by (auto simp: new_rows_fresh_def)
    ultimately show ?thesis using prune_keeps [OF assms(2)] prune by (metis row_next_refl)
  qed
qed

lemma fresh_id_before:
  assumes "queue_inv env s" and "r \<in> set (outbox s)" and "next_seq s \<le> n" and "n \<le> m"
  shows "r_ID r \<noteq> new_id env m"
  using assms unfolding queue_inv_def fresh_ids_def by (metis injD leD order_trans)


section \<open>What a claim takes\<close>

lemma sorted_within_key:
  assumes "\<And>c. sorted (map q (filter (\<lambda>x. k x = c) xs))"
  shows "sorted_wrt (\<lambda>x y. k x = k y \<longrightarrow> q x \<le> q y) xs"
  using assms
proof (induction xs)
  case (Cons a xs)
  have "sorted (map q (filter (\<lambda>x. k x = c) xs))" for c
    using Cons.prems [of c] by (simp split: if_splits)
  moreover have "\<forall>y \<in> set xs. k a = k y \<longrightarrow> q a \<le> q y" using Cons.prems [of "k a"] by auto
  ultimately show ?case using Cons.IH by simp
qed simp

lemma revocationFirst_prefix:
  assumes "r \<in> set (take n (revocationFirst rows cs))" and "e \<in> set cs"
    and "r_target e = r_target r" "r_user e = r_user r" "r_seq e < r_seq r"
  shows "e \<in> set (take n (revocationFirst rows cs))"
proof (rule ccontr)
  let ?L = "revocationFirst rows cs" and ?k = "\<lambda>p. if has_revocation rows p then 0 else 1 :: nat"
  assume "e \<notin> set (take n ?L)"
  moreover have "e \<in> set ?L" using assms(2) by (simp add: revocationFirst_def)
  ultimately have "e \<in> set (drop n ?L)" by (metis UnE append_take_drop_id set_append)
  moreover have "sorted_wrt (\<lambda>x y. ?k x = ?k y \<longrightarrow> r_seq x \<le> r_seq y) (take n ?L @ drop n ?L)"
    unfolding append_take_drop_id
  proof (rule sorted_within_key)
    show "sorted (map r_seq (filter (\<lambda>x. ?k x = c) ?L))" for c
      unfolding revocationFirst_def sort_key_stable by (metis filter_sort sorted_sort_key)
  qed
  ultimately have "?k r = ?k e \<longrightarrow> r_seq r \<le> r_seq e"
    using assms(1) unfolding sorted_wrt_append by blast
  with assms(3-5) show False by (simp add: has_revocation_def)
qed

lemma claim_rows_ids:
  "set cs \<subseteq> set rows \<Longrightarrow> r_ID ` set (fst (claim_rows now (map r_ID cs) rows)) = r_ID ` set cs"
proof -
  let ?f = "\<lambda>ids r. if r_ID r \<in> set ids then r\<lparr>r_status := InFlight, r_started_at := Some now\<rparr> else r"
  have f [simp]: "r_ID (?f ids r) = r_ID r" for ids r by simp
  assume "set cs \<subseteq> set rows"
  moreover have "r_ID ` set (fst (claim_rows now ids rows)) = {i \<in> set ids. i \<in> r_ID ` set rows}" for ids
    unfolding claim_rows_def Let_def fst_conv filter_map comp_def f set_map image_image set_filter by blast
  ultimately show ?thesis by auto
qed

text \<open>The sweep before a claim leaves the unresolved rows no later version has overtaken, as they were.\<close>

lemma terminate_left:
  "x \<in> set (terminateSuperseded ver now target '''' rows) \<and> unresolved x \<and> r_target x = target \<longleftrightarrow>
     x \<in> set rows \<and> unresolved x \<and> r_target x = target \<and> \<not> supersededByLaterVersion ver rows x"
  (is "?l \<longleftrightarrow> ?r")
proof
  assume ?l
  then obtain p where p: "p \<in> set rows" "x = (if discards ver target '''' rows p
      then p\<lparr>r_status := Superseded, r_completed_at := Some now, r_last_error := supersededReason\<rparr> else p)"
    by (auto simp only: terminateSuperseded_def set_map)
  with \<open>?l\<close> have nd: "\<not> discards ver target '''' rows p" by (auto simp: unresolved_def)
  with p have "x = p" by simp
  with p(1) nd \<open>?l\<close> show ?r by (simp add: discards_def)
next
  assume r: ?r
  then have "x \<in> set (terminateSuperseded ver now target '''' rows)"
    unfolding terminateSuperseded_def set_map by (intro rev_image_eqI [of x]) (simp_all add: discards_def)
  with r show ?l by simp
qed

lemma claimed_row:
  assumes "distinct (map r_ID rows)" and "set cs \<subseteq> set (terminateSuperseded ver now target '''' rows)"
    and "\<forall>c \<in> set cs. unresolved c \<and> r_target c = target" and "r \<in> set rows"
    and "r_ID r \<in> r_ID ` set (fst (claim_rows now (map r_ID cs) (terminateSuperseded ver now target '''' rows)))"
  shows "r \<in> set cs \<and> unresolved r \<and> r_target r = target \<and> \<not> supersededByLaterVersion ver rows r"
proof -
  from assms(5) obtain c where c: "c \<in> set cs" "r_ID c = r_ID r" unfolding claim_rows_ids [OF assms(2)] by auto
  then have c': "c \<in> set rows \<and> unresolved c \<and> r_target c = target \<and> \<not> supersededByLaterVersion ver rows c"
    using assms(2,3) terminate_left by blast
  with assms(1,4) c(2) have "c = r" by (metis distinct_map inj_onD)
  with c' c(1) show ?thesis by simp
qed


text \<open>
  C27. A drain never sends a person's changes to one target out of order. If the operator's
  claim takes a row, the target is registered, the row is unresolved and no later version of
  the subject's state has been applied; and every earlier unresolved row of the same person
  and target that has not itself been overtaken is taken by the same claim, however few
  rows the claim may take and whoever's revocations go first.
\<close>

theorem claim_keeps_intent_order:
  assumes "distinct (map r_ID rows)" and "r \<in> set rows"
    and "r_ID r \<in> r_ID ` set (fst (ClaimPendingPropagations ver active now target limit rows))"
  shows "target \<in> active \<and> r_target r = target \<and> unresolved r \<and> \<not> supersededByLaterVersion ver rows r \<and>
    (\<forall>e \<in> set rows. r_target e = target \<and> r_user e = r_user r \<and> r_seq e < r_seq r \<and> unresolved e \<and>
       \<not> supersededByLaterVersion ver rows e \<longrightarrow>
       r_ID e \<in> r_ID ` set (fst (ClaimPendingPropagations ver active now target limit rows)))"
proof -
  let ?rows = "terminateSuperseded ver now target '''' rows"
  let ?all = "filter (pending_claimable active target) ?rows"
  let ?cs = "take (claim_limit limit) (revocationFirst ?rows ?all)"
  have C: "fst (ClaimPendingPropagations ver active now target limit rows) = fst (claim_rows now (map r_ID ?cs) ?rows)"
    by (simp add: ClaimPendingPropagations_def Let_def)
  have all: "set ?cs \<subseteq> set ?all" by (auto simp: revocationFirst_def dest!: in_set_takeD)
  then have sub: "set ?cs \<subseteq> set ?rows" "\<forall>c \<in> set ?cs. unresolved c \<and> r_target c = target"
    by (auto simp: pending_claimable_def)
  from claimed_row [OF assms(1) sub assms(2) assms(3) [unfolded C]]
  have r: "r \<in> set ?cs" "unresolved r" "r_target r = target" "\<not> supersededByLaterVersion ver rows r" by simp_all
  then have act: "target \<in> active" using all by (auto simp: pending_claimable_def)
  have "e \<in> set ?cs" if e: "e \<in> set rows" "r_target e = target" "r_user e = r_user r" "r_seq e < r_seq r" "unresolved e"
    "\<not> supersededByLaterVersion ver rows e" for e
  proof (rule revocationFirst_prefix [OF r(1) _ _ e(3,4)])
    show "e \<in> set ?all" using terminate_left [of e ver now target rows] e act by (auto simp: pending_claimable_def)
  qed (simp add: e r)
  with r act show ?thesis unfolding C claim_rows_ids [OF sub(1)] by blast
qed

text \<open>
  What the background drain sends asks nothing new of the operator. Its revocation claim
  takes only rows that withdraw, that are due and whose roles do not wait, and none while an
  earlier row could still confer access on the same person and project, unless that row has
  been overtaken; its retry claim takes only rows a drain had sent before, that do not
  withdraw, are due, and wait for nobody.
\<close>

theorem background_claims_ask_nothing:
  assumes "distinct (map r_ID rows)" and "r \<in> set rows"
  shows "(r_ID r \<in> r_ID ` set (fst (ClaimPendingRevocations ver active waits now target limit rows)) \<longrightarrow>
      (r_op r = Revoke \<or> r_withdraws_only r) \<and> notBeforeDue now r \<and> r_wait_reason r \<noteq> ''role_waits'' \<and>
      \<not> role_waits_for waits r \<and>
      (\<forall>e \<in> set rows. r_target e = target \<and> r_user e = r_user r \<and> r_project e = r_project r \<and> confers e \<and>
         unresolved e \<and> r_seq e < r_seq r \<longrightarrow> supersededByLaterVersion ver rows e)) \<and>
    (r_ID r \<in> r_ID ` set (fst (ClaimDueRetries ver active waits now target limit rows)) \<longrightarrow>
      (r_status r = InFlight \<or> (r_status r = Pending \<and> r_not_before r \<noteq> None)) \<and> notBeforeDue now r \<and>
      r_op r \<noteq> Revoke \<and> \<not> r_withdraws_only r \<and> r_wait_reason r \<noteq> ''role_waits'' \<and> r_wait_reason r \<noteq> ''manual'' \<and>
      \<not> role_waits_for waits r)"
proof (intro conjI impI)
  let ?rows = "terminateSuperseded ver now target '''' rows"
  {
    let ?cs = "take (claim_limit limit) (sort_key r_seq (filter (revocation_claimable active waits now target ?rows) ?rows))"
    assume a: "r_ID r \<in> r_ID ` set (fst (ClaimPendingRevocations ver active waits now target limit rows))"
    have sub: "set ?cs \<subseteq> set ?rows" "\<forall>c \<in> set ?cs. unresolved c \<and> r_target c = target"
      by (auto simp: revocation_claimable_def pending_claimable_def dest!: in_set_takeD)
    from claimed_row [OF assms(1) sub assms(2)] a have "r \<in> set ?cs" "r_target r = target"
      by (simp_all add: ClaimPendingRevocations_def Let_def)
    then have c: "revocation_claimable active waits now target ?rows r" "r_target r = target" by (auto dest!: in_set_takeD)
    then show "r_op r = Revoke \<or> r_withdraws_only r" "notBeforeDue now r" "r_wait_reason r \<noteq> ''role_waits''"
      "\<not> role_waits_for waits r" by (simp_all add: revocation_claimable_def)
    show "\<forall>e \<in> set rows. r_target e = target \<and> r_user e = r_user r \<and> r_project e = r_project r \<and> confers e \<and>
         unresolved e \<and> r_seq e < r_seq r \<longrightarrow> supersededByLaterVersion ver rows e"
    proof (intro ballI impI, rule ccontr)
      fix e assume e: "e \<in> set rows" "r_target e = target \<and> r_user e = r_user r \<and> r_project e = r_project r \<and> confers e \<and>
         unresolved e \<and> r_seq e < r_seq r" "\<not> supersededByLaterVersion ver rows e"
      then have "e \<in> set ?rows" using terminate_left by blast
      with e(2) c show False by (auto simp: revocation_claimable_def overtakes_def list_ex_iff)
    qed
  }
  {
    let ?cs = "take (claim_limit limit) (revocationFirst ?rows (filter (retry_claimable active waits now target) ?rows))"
    assume a: "r_ID r \<in> r_ID ` set (fst (ClaimDueRetries ver active waits now target limit rows))"
    have sub: "set ?cs \<subseteq> set ?rows" "\<forall>c \<in> set ?cs. unresolved c \<and> r_target c = target"
      by (auto simp: revocationFirst_def retry_claimable_def unresolved_def dest!: in_set_takeD)
    from claimed_row [OF assms(1) sub assms(2)] a have "r \<in> set ?cs"
      by (simp add: ClaimDueRetries_def Let_def)
    then have c: "retry_claimable active waits now target r" by (auto simp: revocationFirst_def dest!: in_set_takeD)
    then show "r_status r = InFlight \<or> (r_status r = Pending \<and> r_not_before r \<noteq> None)" "notBeforeDue now r"
      "r_op r \<noteq> Revoke" "\<not> r_withdraws_only r" "r_wait_reason r \<noteq> ''role_waits''" "r_wait_reason r \<noteq> ''manual''"
      "\<not> role_waits_for waits r" by (auto simp add: retry_claimable_def)
  }
qed


section \<open>Witnesses\<close>

definition demo_row :: "nat \<Rightarrow> op_type \<Rightarrow> outbox_row" where
  "demo_row n op = hd (outbox (snd (insert_row demo_env ''k'' None [] 5 (demo_write op) ((empty_db None)\<lparr>next_seq := n\<rparr>))))"

lemmas demo_row_defs = demo_row_def insert_row_def demo_env_def demo_write_def empty_db_def zero_params_def

definition demo_queue :: "outbox_row list" where
  "demo_queue = [demo_row 1 Add, demo_row 2 Revoke]"

lemma demo_queue_ids: "distinct (map r_ID demo_queue)"
  by (simp add: demo_queue_def demo_row_defs numeral_2_eq_2)

lemma demo_row_facts:
  "r_ID (demo_row n op) = replicate n (CHR ''i'')" "r_seq (demo_row n op) = n" "r_status (demo_row n op) = Pending"
  "r_op (demo_row n op) = op" "r_target (demo_row n op) = ''zitadel''" "r_user (demo_row n op) = ''u''"
  "r_project (demo_row n op) = Some ''p''" "r_roles (demo_row n op) = [''r'']" "r_not_before (demo_row n op) = None"
  "r_wait_reason (demo_row n op) = []" "r_withdraws_only (demo_row n op) = False"
  by (simp_all add: demo_row_defs)

lemma demo_sweep: "terminateSuperseded (\<lambda>_. None) 9 ''zitadel'' [] rows = rows"
  by (simp add: terminateSuperseded_def discards_def supersededByLaterVersion_def)

lemma demo_claim:
  "r_ID ` set (fst (ClaimPendingPropagations (\<lambda>_. None) {''zitadel''} 9 ''zitadel'' 0 demo_queue)) = {''i'', ''ii''}"
  by (auto simp: ClaimPendingPropagations_def Let_def demo_sweep claim_rows_def revocationFirst_def has_revocation_def
      demo_queue_def pending_claimable_def unresolved_def demo_row_facts claim_limit_def numeral_2_eq_2)

theorem claim_keeps_intent_order_witness:
  "r_ID (demo_row 1 Add) \<in> r_ID ` set (fst (ClaimPendingPropagations (\<lambda>_. None) {''zitadel''} 9 ''zitadel'' 0 demo_queue)) \<and>
   \<not> supersededByLaterVersion (\<lambda>_. None) demo_queue (demo_row 2 Revoke)"
proof -
  have r: "demo_row 2 Revoke \<in> set demo_queue" "demo_row 1 Add \<in> set demo_queue" by (simp_all add: demo_queue_def)
  have "r_ID (demo_row 2 Revoke) \<in> r_ID ` set (fst (ClaimPendingPropagations (\<lambda>_. None) {''zitadel''} 9 ''zitadel'' 0 demo_queue))"
    by (simp add: demo_claim demo_row_facts numeral_2_eq_2)
  note claim_keeps_intent_order [OF demo_queue_ids r(1) this]
  then have "\<forall>e \<in> set demo_queue. r_target e = ''zitadel'' \<and> r_user e = ''u'' \<and> r_seq e < 2 \<and> unresolved e \<longrightarrow>
      r_ID e \<in> r_ID ` set (fst (ClaimPendingPropagations (\<lambda>_. None) {''zitadel''} 9 ''zitadel'' 0 demo_queue))"
    by (simp add: demo_row_facts supersededByLaterVersion_def)
  from bspec [OF this r(2)] show ?thesis
    by (simp add: demo_row_facts unresolved_def supersededByLaterVersion_def)
qed

theorem background_claims_ask_nothing_witness:
  "r_ID (demo_row 2 Revoke) \<notin>
     r_ID ` set (fst (ClaimPendingRevocations (\<lambda>_. None) {''zitadel''} {} 9 ''zitadel'' 0 demo_queue))"
proof
  assume a: "r_ID (demo_row 2 Revoke) \<in>
     r_ID ` set (fst (ClaimPendingRevocations (\<lambda>_. None) {''zitadel''} {} 9 ''zitadel'' 0 demo_queue))"
  have r: "demo_row 2 Revoke \<in> set demo_queue" "demo_row 1 Add \<in> set demo_queue" by (simp_all add: demo_queue_def)
  from background_claims_ask_nothing [OF demo_queue_ids r(1), of "\<lambda>_. None" "{''zitadel''}" "{}" 9 "''zitadel''" 0] a
  have "\<forall>e \<in> set demo_queue. r_target e = ''zitadel'' \<and> r_user e = ''u'' \<and> r_project e = Some ''p'' \<and> confers e \<and>
         unresolved e \<and> r_seq e < 2 \<longrightarrow> supersededByLaterVersion (\<lambda>_. None) demo_queue e"
    by (simp add: demo_row_facts)
  from bspec [OF this r(2)] show False
    by (simp add: demo_row_facts confers_def unresolved_def supersededByLaterVersion_def)
qed

lemma demo_db_inv: "queue_inv demo_env demo_db"
  by (simp add: queue_inv_def wf_outbox_def fresh_ids_def demo_db_def insert_row_def demo_env_def demo_write_def
      empty_db_def zero_params_def inj_def) (metis length_replicate lessI replicate_Suc replicate_0)

text \<open>A removal waits and is deregistered with its target: after the prune it is gone, and it was terminal before.\<close>

definition demo_pruned :: db_state where
  "demo_pruned = (let s = demo_db\<lparr>outbox := snd (abandonQueuedWorkTx 9 ''zitadel'' (outbox demo_db))\<rparr>
     in s\<lparr>outbox := snd (PruneTerminalPropagations 100 0 (outbox s))\<rparr>)"


end
