(* ===== verification/Reconcile.thy ===== *)
theory Reconcile
  imports Named_Write Settle
begin

text \<open>
  What an applied row does to the tables beside the outbox: the intent ledger
  (\<open>ReconcileLedgerOnApplied\<close> and \<open>queuedRevocationsFor\<close> in
  \<^verbatim>\<open>backend/internal/db/propagations.go\<close>) and the memory of what a target took
  (\<^verbatim>\<open>backend/internal/db/propagation_memory.go\<close>).

  A statement is a function of the tables; whether the database takes it is a parameter of
  the drain, in theory \<open>Drain\<close>.
\<close>

section \<open>The ledger\<close>

definition row_project :: "outbox_row \<Rightarrow> string" where
  "row_project r = (case r_project r of None \<Rightarrow> '''' | Some p \<Rightarrow> p)"

text \<open>An add that would establish the ledger row \<open>d\<close>, decided after the sequence number \<open>n\<close>.\<close>

definition newer_add :: "outbox_row list \<Rightarrow> nat \<Rightarrow> ledger_row \<Rightarrow> bool" where
  "newer_add rows n d \<longleftrightarrow>
     list_ex (\<lambda>q. r_op q = Add \<and> unresolved q \<and> r_user q = l_user d \<and> r_project q = Some (l_project d) \<and>
                  l_role d \<in> set (r_roles q) \<and> r_source q = l_source d \<and> n < r_seq q) rows"

definition reconcile_deletes :: "outbox_row list \<Rightarrow> outbox_row \<Rightarrow> ledger_row \<Rightarrow> bool" where
  "reconcile_deletes rows r d \<longleftrightarrow>
     l_user d = r_user r \<and> l_project d = row_project r \<and> l_role d \<in> set (r_roles r) \<and> l_source d = r_source r \<and> \<not> newer_add rows (r_seq r) d"

text \<open>
  The statement of a replacement is given five parameters and does not name the fourth, whose type PostgreSQL then cannot determine: it refuses
  the statement and the transaction ends with an error, here nothing.
\<close>

definition ReconcileLedgerOnApplied :: "string \<Rightarrow> outbox_row list \<Rightarrow> ledger_row list \<Rightarrow> ledger_row list option" where
  "ReconcileLedgerOnApplied outboxID rows grants =
     (case find (\<lambda>r. r_ID r = outboxID) rows of
        None \<Rightarrow> Some grants
      | Some r \<Rightarrow>
          if r_op r \<noteq> Revoke \<and> r_op r \<noteq> Replace then Some grants
          else if r_op r = Revoke then Some (filter (\<lambda>d. \<not> reconcile_deletes rows r d) grants)
          else None)"

text \<open>The roles a person has an unresolved revocation for, as the effective-access reads subtract them.\<close>

definition queuedRevocationsFor :: "string \<Rightarrow> outbox_row list \<Rightarrow> ledger_row list \<Rightarrow> role_key list" where
  "queuedRevocationsFor user rows grants =
     remdups (concat (map (\<lambda>q.
        (case r_project q of
           None \<Rightarrow> []
         | Some p \<Rightarrow>
             if r_user q = user \<and> unresolved q then
               (if r_op q = Revoke then map (RoleKey p) (r_roles q)
                else if r_op q = Replace then
                  map (\<lambda>g. RoleKey (l_project g) (l_role g))
                    (filter (\<lambda>g. l_user g = r_user q \<and> l_project g = p \<and> l_source g = ''direct'' \<and>
                                 l_role g \<notin> set (r_roles q)) grants)
                else [])
             else [])) rows))"

section \<open>What the target took\<close>

record propagation =
  m_target :: string
  m_subject :: string
  m_field :: string
  m_applied_at :: time
  m_outbox :: string
  m_actor :: string

definition same_memory :: "propagation \<Rightarrow> propagation \<Rightarrow> bool" where
  "same_memory p q \<longleftrightarrow> m_target q = m_target p \<and> m_subject q = m_subject p \<and> m_field q = m_field p"

definition RecordPropagation :: "propagation \<Rightarrow> propagation list \<Rightarrow> propagation list option" where
  "RecordPropagation p mem =
     (if trim_space (m_target p) = '''' \<or> trim_space (m_subject p) = '''' \<or> trim_space (m_field p) = '''' then None
      else if list_ex (same_memory p) mem then Some (map (\<lambda>q. if same_memory p q then p else q) mem)
      else Some (mem @ [p]))"

definition ForgetPropagatedFields :: "string \<Rightarrow> string \<Rightarrow> string list \<Rightarrow> propagation list \<Rightarrow> propagation list" where
  "ForgetPropagatedFields target subject flds mem =
     filter (\<lambda>q. \<not> (m_target q = target \<and> m_subject q = subject \<and> m_field q \<in> set flds)) mem"

text \<open>SQL's \<open>LIKE\<close>: percent matches any text, underscore one character, backslash quotes.\<close>

fun sql_like :: "string \<Rightarrow> string \<Rightarrow> bool" where
  "sql_like [] s = (s = [])"
| "sql_like (c # pat) s =
     (if c = CHR ''%'' then sql_like pat s \<or> (case s of [] \<Rightarrow> False | _ # t \<Rightarrow> sql_like (c # pat) t)
      else if c = CHR ''_'' then (case s of [] \<Rightarrow> False | _ # t \<Rightarrow> sql_like pat t)
      else if c = CHR 92 then
        (case pat of [] \<Rightarrow> False | e # pat' \<Rightarrow> (case s of [] \<Rightarrow> False | x # t \<Rightarrow> x = e \<and> sql_like pat' t))
      else (case s of [] \<Rightarrow> False | x # t \<Rightarrow> x = c \<and> sql_like pat t))"

definition ForgetPropagatedFieldsExcept ::
  "string \<Rightarrow> string \<Rightarrow> string \<Rightarrow> string list \<Rightarrow> propagation list \<Rightarrow> propagation list option" where
  "ForgetPropagatedFieldsExcept target subject prefix keep mem =
     (if trim_space prefix = '''' then None
      else Some (filter (\<lambda>q. \<not> (m_target q = target \<and> m_subject q = subject \<and>
                               sql_like (prefix @ ''/%'') (m_field q) \<and> m_field q \<notin> set keep)) mem))"

section \<open>What a reconciliation may delete\<close>

text \<open>
  C29. The drain never takes a grant out of the ledger by surprise. A ledger row that is
  gone after an unresolved outbox row was reconciled was among the roles the person had a
  queued revocation for, so every closure read before had already left it out; and it is
  not one that a later, still unresolved add of the same source is establishing.
\<close>

theorem reconcile_never_surprises:
  assumes "d \<in> set grants" and "ReconcileLedgerOnApplied i rows grants = Some grants'" and "d \<notin> set grants'"
    and "\<forall>r \<in> set rows. r_ID r = i \<longrightarrow> unresolved r \<and> r_project r \<noteq> None"
  shows "RoleKey (l_project d) (l_role d) \<in> set (queuedRevocationsFor (l_user d) rows grants) \<and>
    (\<exists>r \<in> set rows. r_ID r = i \<and> r_user r = l_user d \<and>
       \<not> (\<exists>a \<in> set rows. r_op a = Add \<and> unresolved a \<and> r_user a = l_user d \<and> r_project a = Some (l_project d) \<and>
            l_role d \<in> set (r_roles a) \<and> r_source a = l_source d \<and> r_seq r < r_seq a))"
proof -
  obtain r where f: "find (\<lambda>r. r_ID r = i) rows = Some r" and del: "reconcile_deletes rows r d" and op: "r_op r = Revoke"
    using assms(1-3) by (auto simp: ReconcileLedgerOnApplied_def split: option.splits if_splits)
  from f have r: "r \<in> set rows" "r_ID r = i" by (auto simp: find_Some_iff in_set_conv_nth)
  with assms(4) obtain p where p: "r_project r = Some p" and u: "unresolved r" by auto
  have "RoleKey (l_project d) (l_role d) \<in> set (case r_project r of None \<Rightarrow> [] | Some p \<Rightarrow>
             if r_user r = l_user d \<and> unresolved r then
               (if r_op r = Revoke then map (RoleKey p) (r_roles r)
                else if r_op r = Replace then
                  map (\<lambda>g. RoleKey (l_project g) (l_role g))
                    (filter (\<lambda>g. l_user g = r_user r \<and> l_project g = p \<and> l_source g = ''direct'' \<and>
                                 l_role g \<notin> set (r_roles r)) grants)
                else [])
             else [])"
    using del op p u assms(1) by (auto simp: reconcile_deletes_def row_project_def)
  with r(1) have "RoleKey (l_project d) (l_role d) \<in> set (queuedRevocationsFor (l_user d) rows grants)"
    unfolding queuedRevocationsFor_def set_remdups set_concat set_map by blast
  moreover have "r_user r = l_user d \<and> \<not> newer_add rows (r_seq r) d" using del by (simp add: reconcile_deletes_def)
  ultimately show ?thesis using r by (auto simp: newer_add_def list_ex_iff)
qed

definition demo_ledger_row :: ledger_row where
  "demo_ledger_row = \<lparr>l_ID = ''g'', l_user = ''u'', l_project = ''p'', l_role = ''r'', l_granted_by = ''a'', l_reason = [],
     l_expires_at = None, l_source = ''bundle'', l_source_ref = ''b''\<rparr>"

theorem reconcile_never_surprises_witness:
  "RoleKey ''p'' ''r'' \<in> set (queuedRevocationsFor ''u'' [demo_row 2 Revoke] [demo_ledger_row]) \<and>
   ReconcileLedgerOnApplied ''ii'' [demo_row 2 Revoke] [demo_ledger_row] = Some []"
proof -
  have gone: "ReconcileLedgerOnApplied ''ii'' [demo_row 2 Revoke] [demo_ledger_row] = Some []"
    by (simp add: ReconcileLedgerOnApplied_def reconcile_deletes_def newer_add_def row_project_def demo_row_defs
        demo_ledger_row_def numeral_2_eq_2 outboxSource_def)
  have "\<forall>r \<in> set [demo_row 2 Revoke]. r_ID r = ''ii'' \<longrightarrow> unresolved r \<and> r_project r \<noteq> None"
    by (simp add: demo_row_facts unresolved_def)
  from reconcile_never_surprises [OF _ gone _ this] gone show ?thesis by (simp add: demo_ledger_row_def)
qed

end
