(* ===== verification/Drain.thy ===== *)
theory Drain
  imports Reconcile
begin

text \<open>
  Sending the queue to Zitadel: \<^verbatim>\<open>backend/internal/services/propagation/drain.go\<close> with
  its seams (\<^verbatim>\<open>deps.go\<close>), the targeted batch (\<^verbatim>\<open>drainbatch.go\<close>) and what a row says of its
  retries (\<^verbatim>\<open>retry.go\<close>).

  Zitadel is not part of the repository: what its answers are and what its calls do is the
  parameter \<open>drain_env\<close>, on a state \<open>'z\<close> of its own that every call threads through, reads
  included. The field \<open>db_takes\<close> says whether the database takes a statement, so that every
  failed write is a branch. Zitadel's documented behaviour is stated as
  hypotheses in theory \<open>Delivery\<close>: there is one grant per person and project, a read that is complete
  shows it, and a write that succeeded left exactly the roles it carried.

  Log lines, the claim cache refreshed after a row, and the audit entry of an automatic retry
  are effects outside the tables. The order in which Go walks a map is not specified; where
  the code sends such a list, the model sends one order of it and the results are about its set.
\<close>

section \<open>Answers\<close>

datatype zerr = StatusError int string | OtherError string

definition zitadelStatusCode :: "zerr \<Rightarrow> int" where
  "zitadelStatusCode e = (case e of StatusError code _ \<Rightarrow> code | OtherError _ \<Rightarrow> 0)"

definition err_text :: "zerr \<Rightarrow> string" where
  "err_text e =
     (case e of
        StatusError code msg \<Rightarrow>
          ''zitadel api '' @ itoa (nat code) @ (if msg \<noteq> '''' then '': '' @ msg else '''')
      | OtherError msg \<Rightarrow> msg)"

datatype ack_class = AckApplied | AckFailed | AckTransient

definition classifyZitadelError :: "zerr \<Rightarrow> ack_class" where
  "classifyZitadelError e =
     (let code = zitadelStatusCode e
      in if code = 409 then AckApplied
         else if code \<ge> 400 \<and> code < 500 \<and> \<not> RetryableStatus code then AckFailed
         else AckTransient)"

text \<open>The leftmost match of the pattern: its text, then three digits.\<close>

definition status_digits :: "string \<Rightarrow> string option" where
  "status_digits s =
     (if has_prefix s ''zitadel api '' \<and> 15 \<le> length s \<and> list_all is_digit (take 3 (drop 12 s))
      then Some (take 3 (drop 12 s)) else None)"

fun zitadelStatus :: "string \<Rightarrow> string option" where
  "zitadelStatus [] = None"
| "zitadelStatus (c # s) = (case status_digits (c # s) of Some d \<Rightarrow> Some d | None \<Rightarrow> zitadelStatus s)"

definition RefusalCause :: "string \<Rightarrow> string" where
  "RefusalCause errMsg =
     (case zitadelStatus errMsg of
        None \<Rightarrow> ''other''
      | Some m \<Rightarrow>
          let code = atoi m
          in if code = 401 \<or> code = 403 then ''not_allowed''
             else if code = 404 \<or> code = 410 then ''not_found''
             else if code = 400 \<or> code = 412 \<or> code = 422 then ''invalid''
             else ''other'')"

section \<open>Zitadel and the database\<close>

record zgrant =
  zg_ID :: string
  zg_project :: string
  zg_roles :: "string list"

record observation =
  ob_complete :: bool
  ob_grants :: "zgrant list"

datatype db_call = CallReconcile | CallForget | CallSave | CallApplied | CallConfirmed | CallRefused | CallFailed | CallRequeue

record 'z drain_env =
  e_now :: time
  e_sched :: "int list"
  maxRetries :: nat
  db_takes :: "string \<Rightarrow> db_call \<Rightarrow> 'z \<Rightarrow> bool"
  ListUserGrants :: "string \<Rightarrow> 'z \<Rightarrow> (zerr + nat \<times> zgrant list) \<times> 'z"
  AddUserGrant :: "string \<Rightarrow> string \<Rightarrow> string list \<Rightarrow> 'z \<Rightarrow> zerr option \<times> 'z"
  UpdateUserGrant :: "string \<Rightarrow> string \<Rightarrow> string list \<Rightarrow> 'z \<Rightarrow> zerr option \<times> 'z"
  RemoveUserGrant :: "string \<Rightarrow> string \<Rightarrow> 'z \<Rightarrow> zerr option \<times> 'z"
  observeUser :: "string \<Rightarrow> 'z \<Rightarrow> (zerr + observation) \<times> 'z"

record 'z drain_state =
  ds_rows :: "outbox_row list"
  ds_grants :: "ledger_row list"
  ds_memory :: "propagation list"
  ds_z :: 'z

text \<open>The live grant of one project: its id and its roles, from a read that is whole.\<close>

definition live_grant :: "string \<Rightarrow> zgrant list \<Rightarrow> string \<times> string goset" where
  "live_grant project items =
     fold (\<lambda>g (i, out). if zg_project g \<noteq> project then (i, out) else (zg_ID g, add_keys (zg_roles g) out)) items ('''', [])"

definition liveUserGrant ::
  "'z drain_env \<Rightarrow> string \<Rightarrow> string \<Rightarrow> 'z \<Rightarrow> (zerr + string \<times> string goset) \<times> 'z" where
  "liveUserGrant env user project z =
     (case ListUserGrants env user z of
        (Inl e, z1) \<Rightarrow> (Inl e, z1)
      | (Inr (tot, items), z1) \<Rightarrow>
          (if tot > length items
           then Inl (OtherError (''incomplete grant read for user '' @ user @ '': '' @ itoa tot @ '' grants exist, '' @
                                 itoa (length items) @ '' returned''))
           else Inr (live_grant project items), z1))"

section \<open>One row\<close>

definition alreadyExists :: "'z drain_env \<Rightarrow> outbox_row \<Rightarrow> 'z \<Rightarrow> bool \<times> 'z" where
  "alreadyExists env row z =
     (if r_op row = Add then
        (case liveUserGrant env (r_user row) (row_project row) z of
           (Inl _, z1) \<Rightarrow> (False, z1)
         | (Inr (_, live), z1) \<Rightarrow> (list_all (held live) (r_roles row), z1))
      else if r_op row = Replace then
        (case liveUserGrant env (r_user row) (row_project row) z of
           (Inl _, z1) \<Rightarrow> (False, z1)
         | (Inr (_, live), z1) \<Rightarrow> (length live = length (r_roles row) \<and> list_all (held live) (r_roles row), z1))
      else if r_op row = Revoke then
        (case liveUserGrant env (r_user row) (row_project row) z of
           (Inl _, z1) \<Rightarrow> (False, z1)
         | (Inr (_, live), z1) \<Rightarrow> (list_all (\<lambda>role. \<not> held live role) (r_roles row), z1))
      else (False, z))"

fun op_name :: "op_type \<Rightarrow> string" where
  "op_name Add = ''add''"
| "op_name Revoke = ''revoke''"
| "op_name Replace = ''replace''"
| "op_name Apply = ''apply''"
| "op_name (OtherOp s) = s"

definition dispatch_ack :: "zerr option \<times> 'z \<Rightarrow> (ack_class \<times> string) \<times> 'z" where
  "dispatch_ack r =
     (case r of (None, z) \<Rightarrow> ((AckApplied, ''''), z) | (Some e, z) \<Rightarrow> ((classifyZitadelError e, err_text e), z))"

definition classifyDispatch :: "'z drain_env \<Rightarrow> outbox_row \<Rightarrow> 'z \<Rightarrow> (ack_class \<times> string) \<times> 'z" where
  "classifyDispatch env row z =
     (let user = r_user row; project = row_project row; keys = r_roles row
      in if r_op row = Add then
           (case liveUserGrant env user project z of
              (Inl e, z1) \<Rightarrow> ((classifyZitadelError e, ''add: could not read live grant: '' @ err_text e), z1)
            | (Inr (grantID, live), z1) \<Rightarrow>
                if grantID = '''' then dispatch_ack (AddUserGrant env user project keys z1)
                else let merged = sort_by str_cmp (held_keys live @ filter (\<lambda>rk. \<not> held live rk) keys)
                     in dispatch_ack (UpdateUserGrant env user grantID merged z1))
         else if r_op row = Replace then
           (case liveUserGrant env user project z of
              (Inl e, z1) \<Rightarrow> ((classifyZitadelError e, ''replace: could not read live grant: '' @ err_text e), z1)
            | (Inr (grantID, _), z1) \<Rightarrow>
                if grantID = '''' then
                  (if keys = [] then ((AckApplied, ''''), z1) else dispatch_ack (AddUserGrant env user project keys z1))
                else dispatch_ack (UpdateUserGrant env user grantID keys z1))
         else if r_op row = Revoke then
           (case liveUserGrant env user project z of
              (Inl e, z1) \<Rightarrow> ((classifyZitadelError e, ''revoke: could not read live grant roles: '' @ err_text e), z1)
            | (Inr (grantID, live), z1) \<Rightarrow>
                if grantID = '''' then ((AckApplied, ''''), z1)
                else let revoked = add_keys keys []; remaining = filter (\<lambda>rk. \<not> held revoked rk) (held_keys live)
                     in if remaining = [] then dispatch_ack (RemoveUserGrant env user grantID z1)
                        else dispatch_ack (UpdateUserGrant env user grantID remaining z1))
         else ((AckFailed, ''unknown op_type '' @ CHR 34 # op_name (r_op row) @ [CHR 34]), z))"

definition observed_roles :: "string \<Rightarrow> zgrant list \<Rightarrow> string goset" where
  "observed_roles project items = fold (\<lambda>g out. if zg_project g \<noteq> project then out else add_keys (zg_roles g) out) items []"

definition observedAfterWrite :: "'z drain_env \<Rightarrow> outbox_row \<Rightarrow> 'z \<Rightarrow> bool \<times> 'z" where
  "observedAfterWrite env row z =
     (if row_project row = '''' \<or> r_roles row = [] then (False, z)
      else (case observeUser env (r_user row) z of
          (Inl _, z1) \<Rightarrow> (False, z1)
        | (Inr obs, z1) \<Rightarrow>
            (let live = observed_roles (row_project row) (ob_grants obs)
             in if r_op row = Add \<or> r_op row = Replace then list_all (held live) (r_roles row)
                else if r_op row = Revoke then ob_complete obs \<and> list_all (\<lambda>role. \<not> held live role) (r_roles row)
                else False, z1)))"

definition memory_field :: "outbox_row \<Rightarrow> string \<Rightarrow> string" where
  "memory_field row role = row_project row @ ''/'' @ role"

definition save_role :: "'z drain_env \<Rightarrow> outbox_row \<Rightarrow> string \<Rightarrow> 'z drain_state \<Rightarrow> 'z drain_state" where
  "save_role env row role s =
     (if \<not> db_takes env (r_ID row) CallSave (ds_z s) then s
      else (case RecordPropagation \<lparr>m_target = r_target row, m_subject = r_user row, m_field = memory_field row role,
                   m_applied_at = e_now env, m_outbox = r_ID row, m_actor = r_initiated_by row\<rparr> (ds_memory s) of
              None \<Rightarrow> s | Some mem \<Rightarrow> s\<lparr>ds_memory := mem\<rparr>))"

text \<open>What a settle inside the drain reports: an error of the database, or a row no longer in flight.\<close>

datatype send_error = DbError | NotInFlight

definition rememberPropagation :: "'z drain_env \<Rightarrow> outbox_row \<Rightarrow> 'z drain_state \<Rightarrow> send_error option \<times> 'z drain_state" where
  "rememberPropagation env row s =
     (if r_op row = Revoke then
        (if r_roles row = [] then (None, s)
         else if \<not> db_takes env (r_ID row) CallForget (ds_z s) then (Some DbError, s)
         else (None, s\<lparr>ds_memory := ForgetPropagatedFields (r_target row) (r_user row)
                                     (map (memory_field row) (r_roles row)) (ds_memory s)\<rparr>))
      else if r_op row = Add \<or> r_op row = Replace then
        (let s1 = fold (save_role env row) (r_roles row) s
         in if r_op row = Replace then
              (if \<not> db_takes env (r_ID row) CallForget (ds_z s1) then (Some DbError, s1)
               else (case ForgetPropagatedFieldsExcept (r_target row) (r_user row) (row_project row)
                            (map (memory_field row) (r_roles row)) (ds_memory s1) of
                       None \<Rightarrow> (Some DbError, s1)
                     | Some mem \<Rightarrow> (None, s1\<lparr>ds_memory := mem\<rparr>)))
            else (None, s1))
      else (None, s))"

definition confirm_after :: "'z drain_env \<Rightarrow> outbox_row \<Rightarrow> 'z drain_state \<Rightarrow> 'z drain_state" where
  "confirm_after env row s =
     (case observedAfterWrite env row (ds_z s) of (seen, z) \<Rightarrow>
        let s1 = s\<lparr>ds_z := z\<rparr>
        in if seen \<and> db_takes env (r_ID row) CallConfirmed z
           then s1\<lparr>ds_rows := MarkPropagationConfirmed (e_now env) (r_ID row) (ds_rows s1)\<rparr> else s1)"

definition settle :: "'z drain_env \<Rightarrow> outbox_row \<Rightarrow> db_call \<Rightarrow> (outbox_row list \<Rightarrow> settle_error + outbox_row list) \<Rightarrow>
   'z drain_state \<Rightarrow> send_error option \<times> 'z drain_state" where
  "settle env row call f s =
     (if \<not> db_takes env (r_ID row) call (ds_z s) then (Some DbError, s)
      else (case f (ds_rows s) of
              Inl ErrPropagationNotInFlight \<Rightarrow> (Some NotInFlight, s)
            | Inr rows \<Rightarrow> (None, s\<lparr>ds_rows := rows\<rparr>)))"

text \<open>The ledger after the reconciliation of a row, or nothing when the database refused it.\<close>

definition ledger_after :: "'z drain_env \<Rightarrow> outbox_row \<Rightarrow> 'z drain_state \<Rightarrow> ledger_row list option" where
  "ledger_after env row s =
     (if r_op row = Revoke \<or> r_op row = Replace
      then (if db_takes env (r_ID row) CallReconcile (ds_z s) then ReconcileLedgerOnApplied (r_ID row) (ds_rows s) (ds_grants s) else None)
      else Some (ds_grants s))"

definition applyRow :: "'z drain_env \<Rightarrow> outbox_row \<Rightarrow> 'z drain_state \<Rightarrow> send_error option \<times> 'z drain_state" where
  "applyRow env row s =
     (case ledger_after env row s of
        None \<Rightarrow> (Some DbError, s)
      | Some grants \<Rightarrow>
          (case rememberPropagation env row (s\<lparr>ds_grants := grants\<rparr>) of
             (Some e, s2) \<Rightarrow> (Some e, s2)
           | (None, s2) \<Rightarrow>
               (case settle env row CallApplied (MarkPropagationApplied (e_now env) (r_ID row)) s2 of
                  (Some e, s3) \<Rightarrow> (Some e, s3)
                | (None, s3) \<Rightarrow> (None, confirm_after env row s3))))"

section \<open>The result of a drain\<close>

record pass_result =
  ps_target :: string
  ps_Applied :: nat
  ps_Failed :: nat
  ps_Requeued :: nat
  ps_Abandoned :: nat
  ps_Errored :: nat
  ps_Exhausted :: nat
  ps_Halted :: bool
  ps_Reason :: string

record drain_result =
  dr_Applied :: nat
  dr_Failed :: nat
  dr_Requeued :: nat
  dr_Abandoned :: nat
  dr_Awaiting :: "string list"
  dr_Errored :: nat
  dr_Exhausted :: nat
  dr_Halted :: bool
  dr_Reason :: string
  dr_HaltedTarget :: string
  dr_Passes :: "pass_result list"
  dr_Refused :: "(string, string) gomap"

definition zero_result :: drain_result where
  "zero_result = \<lparr>dr_Applied = 0, dr_Failed = 0, dr_Requeued = 0, dr_Abandoned = 0, dr_Awaiting = [], dr_Errored = 0,
     dr_Exhausted = 0, dr_Halted = False, dr_Reason = '''', dr_HaltedTarget = '''', dr_Passes = [], dr_Refused = []\<rparr>"

definition refuse :: "string \<Rightarrow> string \<Rightarrow> drain_result \<Rightarrow> drain_result" where
  "refuse i errMsg r = r\<lparr>dr_Refused := AList.update i (RefusalCause errMsg) (dr_Refused r)\<rparr>"

definition merge_result :: "string \<Rightarrow> drain_result \<Rightarrow> drain_result \<Rightarrow> drain_result" where
  "merge_result target p r =
     (let r1 = r\<lparr>dr_Applied := dr_Applied r + dr_Applied p, dr_Failed := dr_Failed r + dr_Failed p,
                 dr_Requeued := dr_Requeued r + dr_Requeued p, dr_Abandoned := dr_Abandoned r + dr_Abandoned p,
                 dr_Errored := dr_Errored r + dr_Errored p, dr_Exhausted := dr_Exhausted r + dr_Exhausted p,
                 dr_Passes := dr_Passes r @ [\<lparr>ps_target = target, ps_Applied = dr_Applied p, ps_Failed = dr_Failed p,
                    ps_Requeued = dr_Requeued p, ps_Abandoned = dr_Abandoned p, ps_Errored = dr_Errored p,
                    ps_Exhausted = dr_Exhausted p, ps_Halted = dr_Halted p, ps_Reason = dr_Reason p\<rparr>]\<rparr>;
          r2 = (if dr_Halted p \<and> \<not> dr_Halted r1
                then r1\<lparr>dr_Halted := True, dr_Reason := dr_Reason p, dr_HaltedTarget := target\<rparr> else r1)
      in r2\<lparr>dr_Refused := fold (\<lambda>(i, cause) m. AList.update i cause m) (dr_Refused p) (dr_Refused r2)\<rparr>)"

text \<open>\<open>abandoned\<close> and \<open>persistErr\<close>: how a settle that did not land is counted.\<close>

definition unsettled :: "send_error \<Rightarrow> drain_result \<Rightarrow> drain_result" where
  "unsettled e res =
     (case e of NotInFlight \<Rightarrow> res\<lparr>dr_Abandoned := dr_Abandoned res + 1\<rparr>
              | DbError \<Rightarrow> res\<lparr>dr_Errored := dr_Errored res + 1\<rparr>)"

definition spent_reason :: "outbox_row \<Rightarrow> string \<Rightarrow> string" where
  "spent_reason row errMsg = ''out of retries after '' @ itoa (r_attempts row) @ '' attempts: '' @ errMsg"

definition count_applied :: "send_error option \<times> 'z drain_state \<Rightarrow> drain_result \<Rightarrow> drain_result \<times> 'z drain_state" where
  "count_applied r res =
     (case r of (Some e, s) \<Rightarrow> (unsettled e res, s) | (None, s) \<Rightarrow> (res\<lparr>dr_Applied := dr_Applied res + 1\<rparr>, s))"

definition processRow ::
  "'z drain_env \<Rightarrow> outbox_row \<Rightarrow> drain_result \<times> 'z drain_state \<Rightarrow> drain_result \<times> 'z drain_state" where
  "processRow env row acc =
     (case acc of (res, s) \<Rightarrow>
      case alreadyExists env row (ds_z s) of
        (True, z1) \<Rightarrow> count_applied (applyRow env row (s\<lparr>ds_z := z1\<rparr>)) res
      | (False, z1) \<Rightarrow>
          (case classifyDispatch env row z1 of
             ((AckApplied, _), z2) \<Rightarrow> count_applied (applyRow env row (s\<lparr>ds_z := z2\<rparr>)) res
           | ((AckFailed, errMsg), z2) \<Rightarrow>
               (case settle env row CallRefused
                       (MarkPropagationRefused (e_now env) (r_ID row) errMsg (RefusalCause errMsg)) (s\<lparr>ds_z := z2\<rparr>) of
                  (Some e, s1) \<Rightarrow> (unsettled e res, s1)
                | (None, s1) \<Rightarrow> (refuse (r_ID row) errMsg (res\<lparr>dr_Failed := dr_Failed res + 1\<rparr>), s1))
           | ((AckTransient, errMsg), z2) \<Rightarrow>
               if r_attempts row \<ge> maxRetries env then
                 (case settle env row CallFailed
                         (MarkPropagationFailed (e_now env) (r_ID row) (spent_reason row errMsg)) (s\<lparr>ds_z := z2\<rparr>) of
                    (Some e, s1) \<Rightarrow> (unsettled e res, s1)
                  | (None, s1) \<Rightarrow> (res\<lparr>dr_Failed := dr_Failed res + 1, dr_Exhausted := dr_Exhausted res + 1\<rparr>, s1))
               else
                 (case settle env row CallRequeue
                         (\<lambda>rows. map_sum id snd (RequeuePropagation (e_sched env) (e_now env) (r_ID row) errMsg rows))
                         (s\<lparr>ds_z := z2\<rparr>) of
                    (Some e, s1) \<Rightarrow> (unsettled e res, s1)
                  | (None, s1) \<Rightarrow> (res\<lparr>dr_Requeued := dr_Requeued res + 1\<rparr>, s1))))"

section \<open>Passes\<close>

text \<open>
  The pass for Zitadel over the rows a claim returned. The function never halts a pass:
  its Go counterpart returns false on every path, so the loop runs through.
\<close>

definition drain_rows ::
  "'z drain_env \<Rightarrow> outbox_row list \<Rightarrow> drain_result \<times> 'z drain_state \<Rightarrow> drain_result \<times> 'z drain_state" where
  "drain_rows env rows acc = fold (processRow env) rows acc"

definition claimBatch :: int where "claimBatch = 100"

definition drainZitadelPass ::
  "'z drain_env \<Rightarrow> (string \<Rightarrow> snapshot_version option) \<Rightarrow> string set \<Rightarrow> ('z \<Rightarrow> bool) \<Rightarrow> 'z drain_state \<Rightarrow> drain_result \<times> 'z drain_state" where
  "drainZitadelPass env ver active reachable s =
     (if \<not> reachable (ds_z s) then (zero_result\<lparr>dr_Halted := True, dr_Reason := ''zitadel_offline''\<rparr>, s)
      else (case ClaimPendingPropagations ver active (e_now env) ''zitadel'' claimBatch (ds_rows s) of
              (claimed, rows) \<Rightarrow> drain_rows env claimed (zero_result, s\<lparr>ds_rows := rows\<rparr>)))"

definition UndispatchableTarget :: "string set \<Rightarrow> string \<Rightarrow> string \<Rightarrow> outbox_row list \<Rightarrow> string" where
  "UndispatchableTarget active dispatcher i rows =
     (case find (\<lambda>p. r_ID p = i \<and> r_target p \<in> active \<and> r_target p \<noteq> dispatcher \<and> unresolved p) rows of
        None \<Rightarrow> '''' | Some p \<Rightarrow> r_target p)"

definition undispatchableTargets :: "string set \<Rightarrow> string \<Rightarrow> outbox_row list \<Rightarrow> string list" where
  "undispatchableTargets active i rows =
     (let target = UndispatchableTarget active ''zitadel'' i rows in if target = '''' then [] else [target])"

definition DrainOne ::
  "'z drain_env \<Rightarrow> (string \<Rightarrow> snapshot_version option) \<Rightarrow> string set \<Rightarrow> ('z \<Rightarrow> bool) \<Rightarrow> bool \<Rightarrow> string \<Rightarrow> 'z drain_state \<Rightarrow>
   drain_result \<times> 'z drain_state" where
  "DrainOne env ver active reachable acquired outboxID s =
     (if \<not> acquired then (zero_result\<lparr>dr_Halted := True, dr_Reason := ''drain_in_progress''\<rparr>, s)
      else if \<not> reachable (ds_z s) then (zero_result\<lparr>dr_Halted := True, dr_Reason := ''zitadel_offline''\<rparr>, s)
      else (case ClaimPropagationByID ver active (e_now env) ''zitadel'' outboxID (ds_rows s) of
              (None, rows) \<Rightarrow> (zero_result\<lparr>dr_Awaiting := undispatchableTargets active outboxID rows\<rparr>, s\<lparr>ds_rows := rows\<rparr>)
            | (Some row, rows) \<Rightarrow> processRow env row (zero_result, s\<lparr>ds_rows := rows\<rparr>)))"

definition batch_one ::
  "'z drain_env \<Rightarrow> (string \<Rightarrow> snapshot_version option) \<Rightarrow> string set \<Rightarrow> (string \<Rightarrow> bool) \<Rightarrow> string \<Rightarrow>
   drain_result \<times> 'z drain_state \<Rightarrow> drain_result \<times> 'z drain_state" where
  "batch_one env ver active claims_ok i acc =
     (case acc of (res, s) \<Rightarrow>
        if \<not> claims_ok i then
          (res\<lparr>dr_Halted := True, dr_Reason := (if dr_Reason res = '''' then ''claim_error'' else dr_Reason res)\<rparr>, s)
        else (case ClaimPropagationByID ver active (e_now env) ''zitadel'' i (ds_rows s) of
                (None, rows) \<Rightarrow>
                  (res\<lparr>dr_Awaiting := dr_Awaiting res @
                         filter (\<lambda>t. t \<notin> set (dr_Awaiting res)) (undispatchableTargets active i rows)\<rparr>, s\<lparr>ds_rows := rows\<rparr>)
              | (Some row, rows) \<Rightarrow> processRow env row (res, s\<lparr>ds_rows := rows\<rparr>)))"

definition DrainBatch ::
  "'z drain_env \<Rightarrow> (string \<Rightarrow> snapshot_version option) \<Rightarrow> string set \<Rightarrow> ('z \<Rightarrow> bool) \<Rightarrow> bool \<Rightarrow> (string \<Rightarrow> bool) \<Rightarrow> string list \<Rightarrow>
   'z drain_state \<Rightarrow> drain_result \<times> 'z drain_state" where
  "DrainBatch env ver active reachable acquired claims_ok ids s =
     (if ids = [] then (zero_result, s)
      else if \<not> acquired then (zero_result\<lparr>dr_Halted := True, dr_Reason := ''drain_in_progress''\<rparr>, s)
      else if \<not> reachable (ds_z s) then (zero_result\<lparr>dr_Halted := True, dr_Reason := ''zitadel_offline''\<rparr>, s)
      else fold (batch_one env ver active claims_ok) ids (zero_result, s))"

definition RetryRule :: "nat \<Rightarrow> policy" where
  "RetryRule mx = OutboxRetry\<lparr>Attempts := int mx + 1\<rparr>"

definition RowRetry :: "nat \<Rightarrow> bool \<Rightarrow> outbox_row \<Rightarrow> retry_state option" where
  "RowRetry mx autoRetry row =
     (if r_status row \<noteq> Pending \<or> r_attempts row = 0 \<or> r_not_before row = None then None
      else if r_wait_reason row = ''role_waits'' \<or> r_wait_reason row = ''manual'' then None
      else if \<not> autoRetry then
        Some \<lparr>rt_State = RetryWaiting, rt_Try = int (r_attempts row), rt_Of = Attempts (RetryRule mx), rt_NextTry = None\<rparr>
      else Some (Retrying (RetryRule mx) (int (r_attempts row)) (r_not_before row)))"

definition retryOutcome :: "drain_result \<Rightarrow> drain_result \<Rightarrow> string" where
  "retryOutcome before after =
     (if dr_Applied after > dr_Applied before then ''applied''
      else if dr_Exhausted after > dr_Exhausted before then ''gave_up''
      else if dr_Failed after > dr_Failed before then ''failed''
      else if dr_Requeued after > dr_Requeued before then ''retrying''
      else ''not_recorded'')"

section \<open>The cause of a refusal\<close>

definition refusal_of_status :: "int \<Rightarrow> string" where
  "refusal_of_status code =
     (if code \<in> {401, 403} then ''not_allowed'' else if code \<in> {404, 410} then ''not_found''
      else if code \<in> {400, 412, 422} then ''invalid'' else ''other'')"

lemma itoa_three: "100 \<le> n \<Longrightarrow> n < 1000 \<Longrightarrow> length (itoa n) = 3"
  by (subst itoa.simps, subst itoa.simps, subst itoa.simps) auto

lemma status_digits_none: "c \<noteq> CHR ''z'' \<Longrightarrow> status_digits (c # s) = None"
  by (simp add: status_digits_def has_prefix_def)

lemma zitadelStatus_skip: "CHR ''z'' \<notin> set p \<Longrightarrow> zitadelStatus (p @ s) = zitadelStatus s"
  by (induction p) (auto simp: status_digits_none)

lemma zitadelStatus_text:
  assumes "100 \<le> n" "n < 1000"
  shows "zitadelStatus (''zitadel api '' @ itoa n @ rest) = Some (itoa n)"
proof -
  have "status_digits (''zitadel api '' @ itoa n @ rest) = Some (itoa n)"
    using itoa_three [OF assms] itoa_digits [of n] by (simp add: status_digits_def has_prefix_def)
  then show ?thesis by simp
qed

text \<open>
  The cause kept for a refused change is the one of the status Zitadel answered. The
  drain has only the text of the error when it decides the cause; from the text of a status
  error, alone or behind one of the prefixes a dispatch puts before it, the cause it reads
  back is the cause of the status, whatever message came with it.
\<close>

lemma RefusalCause_reads_status:
  assumes "100 \<le> code" and "code < 1000"
    and "p \<in> {'''', ''add: could not read live grant: '', ''replace: could not read live grant: '',
              ''revoke: could not read live grant roles: ''}"
  shows "RefusalCause (p @ err_text (StatusError code msg)) = refusal_of_status code"
proof -
  have "CHR ''z'' \<notin> set p" using assms(3) by auto
  moreover have n: "100 \<le> nat code" "nat code < 1000" using assms by auto
  ultimately have "zitadelStatus (p @ err_text (StatusError code msg)) = Some (itoa (nat code))"
    using zitadelStatus_text [OF n] by (simp add: zitadelStatus_skip err_text_def del: zitadelStatus.simps)
  moreover have "code = int (nat code)" using assms by simp
  then have "code = int k \<longleftrightarrow> nat code = k" for k by linarith
  from this [of 401] this [of 403] this [of 404] this [of 410] this [of 400] this [of 412] this [of 422]
  have "refusal_of_status code = (if nat code = 401 \<or> nat code = 403 then ''not_allowed''
             else if nat code = 404 \<or> nat code = 410 then ''not_found''
             else if nat code = 400 \<or> nat code = 412 \<or> nat code = 422 then ''invalid'' else ''other'')"
    by (simp add: refusal_of_status_def)
  ultimately show ?thesis by (simp add: RefusalCause_def Let_def)
qed

lemma RefusalCause_reads_status_witness:
  "RefusalCause (''add: could not read live grant: '' @ err_text (StatusError 403 ''no'')) = ''not_allowed''"
  using RefusalCause_reads_status [of 403 "''add: could not read live grant: ''" "''no''"] by (simp add: refusal_of_status_def)

end
