(* ===== verification/Delivery.thy ===== *)
theory Delivery
  imports Drain
begin

text \<open>
  What the drain of theory \<open>Drain\<close> delivers: that the counters of a pass are what the
  database recorded, that an applied row has reached Zitadel, and that every row settles.
  Zitadel's documented behaviour is stated here as the predicates \<open>reads_truly\<close>,
  \<open>writes_exactly\<close> and \<open>refuses_idly\<close>; the last section gives a server that satisfies them.
\<close>

section \<open>What Zitadel promises\<close>

text \<open>
  \<open>at z u p\<close> is the grant Zitadel holds for person \<open>u\<close> on project \<open>p\<close>: its id and its roles.
\<close>

type_synonym 'z grants_view = "'z \<Rightarrow> string \<Rightarrow> string \<Rightarrow> (string \<times> string set) option"

definition roles_at :: "'z grants_view \<Rightarrow> 'z \<Rightarrow> string \<Rightarrow> string \<Rightarrow> string set" where
  "roles_at at z u p = (case at z u p of None \<Rightarrow> {} | Some (_, rs) \<Rightarrow> rs)"

definition set_grant :: "'z grants_view \<Rightarrow> 'z \<Rightarrow> 'z \<Rightarrow> string \<Rightarrow> string \<Rightarrow> string set \<Rightarrow> bool" where
  "set_grant at z z' u p rs \<longleftrightarrow>
     roles_at at z' u p = rs \<and> (\<forall>u' p'. (u', p') \<noteq> (u, p) \<longrightarrow> roles_at at z' u' p' = roles_at at z u' p')"

definition shows_grant :: "zgrant list \<Rightarrow> string \<Rightarrow> (string \<times> string set) option \<Rightarrow> bool" where
  "shows_grant items p gr \<longleftrightarrow>
     (case gr of
        None \<Rightarrow> \<forall>g \<in> set items. zg_project g \<noteq> p
      | Some (i, rs) \<Rightarrow> i \<noteq> '''' \<and> (\<exists>g. filter (\<lambda>g. zg_project g = p) items = [g] \<and> zg_ID g = i \<and> set (zg_roles g) = rs))"

definition reads_truly :: "'z drain_env \<Rightarrow> 'z grants_view \<Rightarrow> bool" where
  "reads_truly env at \<longleftrightarrow>
     (\<forall>u z res z'. ListUserGrants env u z = (res, z') \<longrightarrow> at z' = at z \<and>
        (\<forall>tot items p. res = Inr (tot, items) \<and> tot \<le> length items \<longrightarrow> shows_grant items p (at z u p))) \<and>
     (\<forall>u z res z'. observeUser env u z = (res, z') \<longrightarrow> at z' = at z)"

definition writes_exactly :: "'z drain_env \<Rightarrow> 'z grants_view \<Rightarrow> bool" where
  "writes_exactly env at \<longleftrightarrow>
     (\<forall>u p rs z z'. AddUserGrant env u p rs z = (None, z') \<longrightarrow> set_grant at z z' u p (set rs)) \<and>
     (\<forall>u p i old rs z z'. UpdateUserGrant env u i rs z = (None, z') \<and> at z u p = Some (i, old) \<longrightarrow> set_grant at z z' u p (set rs)) \<and>
     (\<forall>u p i old z z'. RemoveUserGrant env u i z = (None, z') \<and> at z u p = Some (i, old) \<longrightarrow> set_grant at z z' u p {})"

text \<open>A conflict, the one error the drain takes for success, is a refusal: nothing was written.\<close>

definition is_conflict :: "zerr option \<Rightarrow> bool" where
  "is_conflict r = (case r of None \<Rightarrow> False | Some e \<Rightarrow> zitadelStatusCode e = 409)"

definition refuses_idly :: "'z drain_env \<Rightarrow> 'z grants_view \<Rightarrow> bool" where
  "refuses_idly env at \<longleftrightarrow>
     (\<forall>u p rs z r z'. AddUserGrant env u p rs z = (r, z') \<and> is_conflict r \<longrightarrow> at z' = at z) \<and>
     (\<forall>u i rs z r z'. UpdateUserGrant env u i rs z = (r, z') \<and> is_conflict r \<longrightarrow> at z' = at z) \<and>
     (\<forall>u i z r z'. RemoveUserGrant env u i z = (r, z') \<and> is_conflict r \<longrightarrow> at z' = at z)"

text \<open>What a row asks for, given what the person holds.\<close>

definition desired :: "op_type \<Rightarrow> string set \<Rightarrow> string set \<Rightarrow> string set" where
  "desired op old keys = (if op = Add then old \<union> keys else if op = Revoke then old - keys else keys)"

section \<open>What a read concludes\<close>

lemma live_grant_fold:
  "fold (\<lambda>g (i, out). if zg_project g \<noteq> p then (i, out) else (zg_ID g, add_keys (zg_roles g) out)) items acc =
   fold (\<lambda>g (i, out). (zg_ID g, add_keys (zg_roles g) out)) (filter (\<lambda>g. zg_project g = p) items) acc"
  by (induction items arbitrary: acc) (auto simp: split_beta)

lemma live_grant_shows:
  assumes "shows_grant items p gr" and "live_grant p items = (i, live)"
  shows "wf_map live \<and> (case gr of None \<Rightarrow> i = '''' \<and> live = [] | Some (j, rs) \<Rightarrow> i = j \<and> i \<noteq> '''' \<and> {k. held live k} = rs)"
proof (cases gr)
  case None
  with assms have "filter (\<lambda>g. zg_project g = p) items = []" by (auto simp: shows_grant_def filter_empty_conv)
  with None assms(2) show ?thesis by (simp add: live_grant_def live_grant_fold)
next
  case (Some g)
  with assms obtain h where "filter (\<lambda>g. zg_project g = p) items = [h]" "g = (zg_ID h, set (zg_roles h))" "zg_ID h \<noteq> ''''"
    by (auto simp: shows_grant_def split: prod.splits)
  with Some assms(2) show ?thesis by (auto simp: live_grant_def live_grant_fold)
qed

lemma liveUserGrant_spec:
  assumes "reads_truly env at" and "liveUserGrant env u p z = (res, z1)"
  shows "at z1 = at z \<and>
    (\<forall>i live. res = Inr (i, live) \<longrightarrow> wf_map live \<and> {k. held live k} = roles_at at z u p \<and>
       (if i = '''' then at z u p = None else \<exists>rs. at z u p = Some (i, rs)))"
proof -
  obtain r where l: "ListUserGrants env u z = (r, z1)" using assms(2) by (auto simp: liveUserGrant_def split: prod.splits sum.splits)
  then have at: "at z1 = at z" using assms(1) unfolding reads_truly_def by blast
  have "wf_map live \<and> {k. held live k} = roles_at at z u p \<and> (if i = '''' then at z u p = None else \<exists>rs. at z u p = Some (i, rs))"
    if res: "res = Inr (i, live)" for i live
  proof -
    from res assms(2) l obtain tot items where it: "r = Inr (tot, items)" "tot \<le> length items" "live_grant p items = (i, live)"
      by (auto simp: liveUserGrant_def split: sum.splits prod.splits if_splits)
    with l assms(1) have "shows_grant items p (at z u p)" unfolding reads_truly_def by blast
    from live_grant_shows [OF this it(3)] show ?thesis by (auto simp: roles_at_def split: option.splits prod.splits)
  qed
  with at show ?thesis by blast
qed

text \<open>
  The one write a dispatch makes after its read, with its answer; and whether the dispatch of a row ended with a conflict, of the read or of that write.
\<close>

definition sent_call :: "'z drain_env \<Rightarrow> outbox_row \<Rightarrow> string \<Rightarrow> string goset \<Rightarrow> 'z \<Rightarrow> zerr option \<times> 'z" where
  "sent_call env row grantID live z =
     (let user = r_user row; project = row_project row; keys = r_roles row
      in if r_op row = Add then
           (if grantID = '''' then AddUserGrant env user project keys z
            else UpdateUserGrant env user grantID (sort_by str_cmp (held_keys live @ filter (\<lambda>rk. \<not> held live rk) keys)) z)
         else if r_op row = Replace then
           (if grantID \<noteq> '''' then UpdateUserGrant env user grantID keys z
            else if keys = [] then (None, z) else AddUserGrant env user project keys z)
         else
           (let remaining = filter (\<lambda>rk. \<not> held (add_keys keys []) rk) (held_keys live)
            in if grantID = '''' then (None, z)
               else if remaining = [] then RemoveUserGrant env user grantID z
               else UpdateUserGrant env user grantID remaining z))"

definition conflicted :: "'z drain_env \<Rightarrow> outbox_row \<Rightarrow> 'z \<Rightarrow> bool" where
  "conflicted env row z =
     (case liveUserGrant env (r_user row) (row_project row) z of
        (Inl e, _) \<Rightarrow> is_conflict (Some e)
      | (Inr (grantID, live), z1) \<Rightarrow> is_conflict (fst (sent_call env row grantID live z1)))"

lemma classifyDispatch_sent:
  assumes "liveUserGrant env (r_user row) (row_project row) z = (Inr (i, live), z1)" and "r_op row = Add \<or> r_op row = Replace \<or> r_op row = Revoke"
  shows "classifyDispatch env row z = dispatch_ack (sent_call env row i live z1)"
  using assms by (auto simp: classifyDispatch_def sent_call_def dispatch_ack_def Let_def)

lemma dispatch_ack_applied: "dispatch_ack (r, z) = ((AckApplied, msg), z') \<Longrightarrow> z' = z \<and> (r = None \<or> is_conflict r)"
  by (cases r) (auto simp: dispatch_ack_def classifyZitadelError_def is_conflict_def Let_def split: if_splits)

lemma classify_applied: "classifyZitadelError e = AckApplied \<Longrightarrow> is_conflict (Some e)"
  by (simp add: classifyZitadelError_def is_conflict_def Let_def split: if_splits)

lemma set_grant_id: "at z' = at z \<Longrightarrow> set_grant at z z' u p (roles_at at z u p)"
  by (simp add: set_grant_def roles_at_def)

lemma set_grant_from: "at z1 = at z \<Longrightarrow> set_grant at z1 z' u p rs \<Longrightarrow> set_grant at z z' u p rs"
  by (simp add: set_grant_def roles_at_def)

lemma sent_call_conflict: "refuses_idly env at \<Longrightarrow> sent_call env row i live z = (r, z') \<Longrightarrow> is_conflict r \<Longrightarrow> at z' = at z"
  unfolding refuses_idly_def sent_call_def Let_def by (auto split: if_splits)

text \<open>A write that was answered well leaves what the row asks for.\<close>

lemma sent_call_delivers:
  assumes "writes_exactly env at" and "sent_call env row i live z1 = (None, z')" and "r_op row = Add \<or> r_op row = Replace \<or> r_op row = Revoke"
    and live: "{k. held live k} = roles_at at z1 (r_user row) (row_project row)"
    and gid: "if i = '''' then at z1 (r_user row) (row_project row) = None else \<exists>rs. at z1 (r_user row) (row_project row) = Some (i, rs)"
  shows "set_grant at z1 z' (r_user row) (row_project row)
    (desired (r_op row) (roles_at at z1 (r_user row) (row_project row)) (set (r_roles row)))"
proof -
  let ?u = "r_user row" and ?p = "row_project row" and ?keys = "r_roles row"
  have add: "AddUserGrant env ?u ?p rs z1 = (None, z') \<Longrightarrow> set_grant at z1 z' ?u ?p (set rs)" for rs
    using assms(1) unfolding writes_exactly_def by blast
  have upd: "i \<noteq> '''' \<Longrightarrow> UpdateUserGrant env ?u i rs z1 = (None, z') \<Longrightarrow> set_grant at z1 z' ?u ?p (set rs)" for rs
    using assms(1) gid unfolding writes_exactly_def by (metis (full_types))
  have rem: "i \<noteq> '''' \<Longrightarrow> RemoveUserGrant env ?u i z1 = (None, z') \<Longrightarrow> set_grant at z1 z' ?u ?p {}"
    using assms(1) gid unfolding writes_exactly_def by (metis (full_types))
  have none: "roles_at at z1 ?u ?p = {}" if "i = ''''" using gid that by (simp add: roles_at_def)
  have same: "set_grant at z1 z1 ?u ?p (roles_at at z1 ?u ?p)" by (rule set_grant_id) (rule refl)
  from assms(3) consider "r_op row = Add" | "r_op row = Replace" | "r_op row = Revoke" by blast
  then show ?thesis
  proof cases
    case 1
    have keys: "set (held_keys live) \<union> {k \<in> set ?keys. \<not> held live k} = roles_at at z1 ?u ?p \<union> set ?keys"
      unfolding set_held_keys live [symmetric] by auto
    show ?thesis
      using 1 assms(2) add upd [of "sort_by str_cmp (held_keys live @ filter (\<lambda>rk. \<not> held live rk) ?keys)"] none
      by (auto simp: sent_call_def Let_def desired_def keys split: if_splits)
  next
    case 2
    then show ?thesis using assms(2) add upd none same by (auto simp: sent_call_def Let_def desired_def split: if_splits)
  next
    case 3
    define rest where "rest = filter (\<lambda>rk. \<not> held (add_keys ?keys []) rk) (held_keys live)"
    have rest: "set rest = roles_at at z1 ?u ?p - set ?keys" by (auto simp: rest_def set_held_keys live [symmetric])
    show ?thesis
    proof (cases "i = ''''")
      case True
      then have "z' = z1" using 3 assms(2) by (simp add: sent_call_def Let_def)
      with same none [OF True] 3 show ?thesis by (simp add: desired_def)
    next
      case False
      then have "(if rest = [] then RemoveUserGrant env ?u i z1 else UpdateUserGrant env ?u i rest z1) = (None, z')"
        using 3 assms(2) unfolding rest_def by (auto simp: sent_call_def Let_def split: if_splits)
      then have "set_grant at z1 z' ?u ?p (set rest)" using rem [OF False] upd [OF False, of rest] by (cases "rest = []") simp_all
      with 3 rest show ?thesis by (simp add: desired_def)
    qed
  qed
qed

lemma classifyDispatch_delivers:
  assumes "reads_truly env at" "writes_exactly env at" "refuses_idly env at"
    and "classifyDispatch env row z = ((AckApplied, msg), z')"
  shows "set_grant at z z' (r_user row) (row_project row)
      (desired (r_op row) (roles_at at z (r_user row) (row_project row)) (set (r_roles row))) \<or>
    conflicted env row z \<and> at z' = at z"
proof -
  let ?u = "r_user row" and ?p = "row_project row"
  obtain res z1 where l: "liveUserGrant env ?u ?p z = (res, z1)" by (metis surj_pair)
  note read = liveUserGrant_spec [OF assms(1) l]
  have op: "r_op row = Add \<or> r_op row = Replace \<or> r_op row = Revoke"
    using assms(4) by (auto simp: classifyDispatch_def Let_def split: if_splits)
  show ?thesis
  proof (cases res)
    case (Inl e)
    then have "classifyZitadelError e = AckApplied \<and> z' = z1" using assms(4) l op by (auto simp: classifyDispatch_def Let_def split: if_splits)
    then show ?thesis using read l Inl classify_applied by (simp add: conflicted_def)
  next
    case (Inr x)
    then obtain i live where x: "res = Inr (i, live)" by (cases x) simp
    obtain r z2 where c: "sent_call env row i live z1 = (r, z2)" by (metis surj_pair)
    from classifyDispatch_sent [OF l [unfolded x] op] assms(4) c have ack: "dispatch_ack (r, z2) = ((AckApplied, msg), z')" by simp
    have z2: "z' = z2" "r = None \<or> is_conflict r" using dispatch_ack_applied [OF ack] by simp_all
    have at: "at z1 = at z" using read by blast
    then have facts: "{k. held live k} = roles_at at z1 ?u ?p" "if i = '''' then at z1 ?u ?p = None else \<exists>rs. at z1 ?u ?p = Some (i, rs)"
      using read x unfolding roles_at_def by (metis (no_types, lifting))+
    from z2(2) show ?thesis
    proof
      assume "r = None"
      from sent_call_delivers [OF assms(2) c [unfolded this] op facts] show ?thesis using at z2(1) by (simp add: set_grant_def roles_at_def)
    next
      assume "is_conflict r"
      then have "conflicted env row z" "at z2 = at z1" using sent_call_conflict [OF assms(3) c] by (simp_all add: conflicted_def l x c)
      then show ?thesis using at z2(1) by metis
    qed
  qed
qed

section \<open>When nothing is left to do\<close>

definition all_true :: "'k goset \<Rightarrow> bool" where
  "all_true m \<longleftrightarrow> list_all snd m"

lemma all_true_update: "all_true m \<Longrightarrow> all_true (AList.update k True m)"
  by (induction m) (auto simp: all_true_def)

lemma all_true_add_keys: "all_true m \<Longrightarrow> all_true (add_keys ks m)"
  by (induction ks arbitrary: m) (auto simp: all_true_update)

lemma all_true_live: "all_true (snd (live_grant p items))"
proof -
  have "all_true (snd acc) \<Longrightarrow>
    all_true (snd (fold (\<lambda>g (i, out). if zg_project g \<noteq> p then (i, out) else (zg_ID g, add_keys (zg_roles g) out)) items acc))" for acc
    by (induction items arbitrary: acc) (auto simp: split_beta all_true_add_keys)
  then show ?thesis by (simp add: live_grant_def all_true_def)
qed

lemma length_set_map:
  assumes "wf_map m" and "all_true m"
  shows "length m = card {k. held m k}"
proof -
  have "held m k \<longleftrightarrow> k \<in> fst ` set m" for k
    using assms by (force simp: held_def wf_map_def all_true_def list_all_iff dest: map_of_SomeD)
  then have "{k. held m k} = set (map fst m)" by auto
  with assms(1) show ?thesis using distinct_card [of "map fst m"] by (simp add: wf_map_def)
qed

lemma liveUserGrant_all_true: "liveUserGrant env u p z = (Inr (i, live), z1) \<Longrightarrow> all_true live"
  by (auto simp: liveUserGrant_def split: prod.splits sum.splits if_splits) (metis all_true_live snd_conv)

lemma alreadyExists_spec:
  assumes "reads_truly env at" and "alreadyExists env row z = (b, z1)"
    and "r_op row = Replace \<longrightarrow> distinct (r_roles row)"
  shows "at z1 = at z \<and>
    (b \<longrightarrow> desired (r_op row) (roles_at at z (r_user row) (row_project row)) (set (r_roles row)) =
       roles_at at z (r_user row) (row_project row))"
proof (cases "r_op row = Add \<or> r_op row = Replace \<or> r_op row = Revoke")
  case True
  obtain res z2 where l: "liveUserGrant env (r_user row) (row_project row) z = (res, z2)" by (metis surj_pair)
  note spec = liveUserGrant_spec [OF assms(1) l]
  have z: "z1 = z2" using True assms(2) l by (auto simp: alreadyExists_def split: sum.splits)
  have "desired (r_op row) (roles_at at z (r_user row) (row_project row)) (set (r_roles row)) =
       roles_at at z (r_user row) (row_project row)" if b
  proof -
    from that True assms(2) l obtain i live where res: "res = Inr (i, live)"
      by (auto simp: alreadyExists_def split: sum.splits)
    with spec have live: "wf_map live" "{k. held live k} = roles_at at z (r_user row) (row_project row)" by simp_all
    have card: "length live = card {k. held live k}" using live(1) liveUserGrant_all_true l res by (metis length_set_map)
    have fin: "finite {k. held live k}" unfolding set_held_keys [symmetric] by simp
    from True consider "r_op row = Add" | "r_op row = Replace" | "r_op row = Revoke" by blast
    then show ?thesis
    proof cases
      case 1
      then show ?thesis using that assms(2) l res unfolding live(2) [symmetric]
        by (auto simp: alreadyExists_def desired_def list_all_iff)
    next
      case 2
      then have k: "set (r_roles row) \<subseteq> {k. held live k}" "card (set (r_roles row)) = card {k. held live k}"
        using that assms(2,3) l res card by (auto simp: alreadyExists_def list_all_iff distinct_card)
      with fin have "set (r_roles row) = {k. held live k}" by (metis card_subset_eq)
      with 2 live(2) show ?thesis by (simp add: desired_def)
    next
      case 3
      then show ?thesis using that assms(2) l res unfolding live(2) [symmetric]
        by (auto simp: alreadyExists_def desired_def list_all_iff)
    qed
  qed
  with spec z show ?thesis by simp
qed (use assms(2) in \<open>auto simp: alreadyExists_def\<close>)

section \<open>What a settle changes\<close>

definition row_at :: "outbox_row list \<Rightarrow> string \<Rightarrow> outbox_row option" where
  "row_at rows i = find (\<lambda>r. r_ID r = i) rows"

lemma row_at_map:
  assumes "\<And>r. r_ID (f r) = r_ID r"
  shows "row_at (map f rows) i = map_option f (row_at rows i)"
  using assms by (induction rows) (auto simp: row_at_def)

lemma row_at_in: "row_at rows i = Some r \<Longrightarrow> r \<in> set rows \<and> r_ID r = i"
  by (auto simp: row_at_def find_Some_iff)

lemma row_at_distinct: "distinct (map r_ID rows) \<Longrightarrow> r \<in> set rows \<Longrightarrow> row_at rows (r_ID r) = Some r"
  by (induction rows) (auto simp: row_at_def)

text \<open>A settle changes the one row it names, from in flight to what it sets.\<close>

lemma settleOne_row:
  assumes "settleOne i f rows = Inr rows'" and "distinct (map r_ID rows)" and "\<And>r. r_ID (f r) = r_ID r"
  shows "\<exists>r. row_at rows i = Some r \<and> r_status r = InFlight \<and> row_at rows' i = Some (f r)"
    and "j \<noteq> i \<Longrightarrow> row_at rows' j = row_at rows j"
proof -
  let ?g = "\<lambda>r. if in_flight i r then f r else r"
  from assms(1) have rows': "rows' = map ?g rows" and ex: "list_ex (in_flight i) rows"
    by (auto simp: settleOne_def split: if_splits)
  have g: "r_ID (?g r) = r_ID r" for r using assms(3) by simp
  from ex obtain r where r: "r \<in> set rows" "in_flight i r" by (auto simp: list_ex_iff)
  then have "row_at rows i = Some r" using row_at_distinct [OF assms(2)] by (auto simp: in_flight_def)
  with r show "\<exists>r. row_at rows i = Some r \<and> r_status r = InFlight \<and> row_at rows' i = Some (f r)"
    unfolding rows' row_at_map [OF g] by (auto simp: in_flight_def)
  show "row_at rows' j = row_at rows j" if "j \<noteq> i"
  proof (cases "row_at rows j")
    case (Some x)
    with row_at_in [of rows j x] that show ?thesis unfolding rows' row_at_map [OF g] by (auto simp: in_flight_def)
  qed (simp add: rows' row_at_map [OF g])
qed

lemma settleOne_none:
  "settleOne i f rows = Inl e \<Longrightarrow> row_at rows i = Some r \<Longrightarrow> r_status r \<noteq> InFlight"
  by (auto simp: settleOne_def list_ex_iff in_flight_def dest: row_at_in split: if_splits)


section \<open>The counters tell the truth\<close>

definition counts :: "drain_result \<Rightarrow> nat list" where
  "counts r = [dr_Applied r, dr_Failed r, dr_Requeued r, dr_Abandoned r, dr_Errored r, dr_Exhausted r]"

text \<open>
  How one row may be counted, given the row in the table before and after: applied, refused,
  out of retries, requeued, not ours to settle any more, or not recorded.
\<close>

definition counted :: "nat \<Rightarrow> drain_result \<Rightarrow> drain_result \<Rightarrow> outbox_row option \<Rightarrow> outbox_row option \<Rightarrow> bool" where
  "counted i res res' before after \<longleftrightarrow>
     (i = 0 \<and> counts res' = map2 (+) (counts res) [1, 0, 0, 0, 0, 0] \<and>
        (\<exists>r r'. before = Some r \<and> after = Some r' \<and> r_status r = InFlight \<and> r_status r' = Applied)) \<or>
     (i = 1 \<and> counts res' = map2 (+) (counts res) [0, 1, 0, 0, 0, 0] \<and>
        (\<exists>r r' cause. before = Some r \<and> after = Some r' \<and> r_status r = InFlight \<and> r_status r' = Failed \<and>
           r_wait_reason r' = WaitReasonRefused cause \<and> map_of (dr_Refused res') (r_ID r) = Some cause)) \<or>
     (i = 2 \<and> counts res' = map2 (+) (counts res) [0, 1, 0, 0, 0, 1] \<and>
        (\<exists>r r'. before = Some r \<and> after = Some r' \<and> r_status r = InFlight \<and> r_status r' = Failed)) \<or>
     (i = 3 \<and> counts res' = map2 (+) (counts res) [0, 0, 1, 0, 0, 0] \<and>
        (\<exists>r r'. before = Some r \<and> after = Some r' \<and> r_status r = InFlight \<and> r_status r' = Pending \<and>
           r_attempts r' = r_attempts r + 1 \<and> r_not_before r' \<noteq> None)) \<or>
     (i = 4 \<and> counts res' = map2 (+) (counts res) [0, 0, 0, 1, 0, 0] \<and> after = before \<and>
        (\<forall>r. before = Some r \<longrightarrow> r_status r \<noteq> InFlight)) \<or>
     (i = 5 \<and> counts res' = map2 (+) (counts res) [0, 0, 0, 0, 1, 0] \<and> after = before)"

lemma settle_cases:
  assumes "settle env row call f s = (e, s')"
  obtains (db) "e = Some DbError" "s' = s"
  | (gone) err where "e = Some NotInFlight" "s' = s" "f (ds_rows s) = Inl err"
  | (settled) rows where "e = None" "f (ds_rows s) = Inr rows" "s' = s\<lparr>ds_rows := rows\<rparr>"
proof (cases "db_takes env (r_ID row) call (ds_z s)")
  case False
  with assms db show thesis by (simp add: settle_def)
next
  case True
  show thesis
  proof (cases "f (ds_rows s)")
    case (Inl err)
    with True assms gone show thesis by (cases err) (simp add: settle_def)
  next
    case (Inr rows)
    with True assms settled show thesis by (simp add: settle_def)
  qed
qed

text \<open>What is kept of the table by the parts of \<open>applyRow\<close> before its settle.\<close>

lemma save_role_rows [simp]: "ds_rows (save_role env row role s) = ds_rows s" "ds_z (save_role env row role s) = ds_z s"
  by (simp_all add: save_role_def split: option.splits)

lemma save_roles_rows [simp]:
  "ds_rows (fold (save_role env row) roles s) = ds_rows s" "ds_z (fold (save_role env row) roles s) = ds_z s"
  by (induction roles arbitrary: s) simp_all

lemma remember_rows:
  assumes "rememberPropagation env row s = (e, s')"
  shows "ds_rows s' = ds_rows s \<and> ds_z s' = ds_z s \<and> ds_grants s' = ds_grants s"
proof -
  have "ds_grants (fold (save_role env row) roles s) = ds_grants s" for roles
    by (induction roles arbitrary: s) (simp_all add: save_role_def split: option.splits)
  with assms show ?thesis by (auto simp: rememberPropagation_def Let_def split: if_splits option.splits)
qed

lemma remember_error: "rememberPropagation env row s = (Some e, s') \<Longrightarrow> e = DbError"
  by (auto simp: rememberPropagation_def Let_def split: if_splits option.splits)

lemma confirm_row:
  assumes "row_at (ds_rows s) i = Some r"
  shows "\<exists>r'. row_at (ds_rows (confirm_after env row s)) i = Some r' \<and> r_status r' = r_status r"
    and "j \<noteq> r_ID row \<Longrightarrow> row_at (ds_rows (confirm_after env row s)) j = row_at (ds_rows s) j"
proof -
  let ?f = "\<lambda>r. if r_ID r = r_ID row \<and> r_status r = Applied \<and> r_confirmed_at r = None
              then r\<lparr>r_confirmed_at := Some (e_now env)\<rparr> else r"
  have c: "ds_rows (confirm_after env row s) = ds_rows s \<or> ds_rows (confirm_after env row s) = map ?f (ds_rows s)"
    by (simp add: confirm_after_def Let_def MarkPropagationConfirmed_def split: prod.splits)
  have f: "r_ID (?f r) = r_ID r" for r by simp
  from c assms show "\<exists>r'. row_at (ds_rows (confirm_after env row s)) i = Some r' \<and> r_status r' = r_status r"
    using row_at_map [of ?f "ds_rows s" i, OF f] by auto
  show "row_at (ds_rows (confirm_after env row s)) j = row_at (ds_rows s) j" if "j \<noteq> r_ID row"
  proof (cases "row_at (ds_rows s) j")
    case (Some x)
    with row_at_in [of _ j x] that c row_at_map [of ?f "ds_rows s" j, OF f] show ?thesis by auto
  qed (use c row_at_map [of ?f "ds_rows s" j, OF f] in auto)
qed


lemma applyRow_settle:
  assumes "applyRow env row s = (e, s')"
  obtains (early) "e = Some DbError" "ds_rows s' = ds_rows s" "ds_z s' = ds_z s"
  | (gone) err where "e = Some NotInFlight" "ds_rows s' = ds_rows s" "ds_z s' = ds_z s"
      "MarkPropagationApplied (e_now env) (r_ID row) (ds_rows s) = Inl err"
  | (applied) s3 where "e = None" "MarkPropagationApplied (e_now env) (r_ID row) (ds_rows s) = Inr (ds_rows s3)"
      "ds_z s3 = ds_z s" "s' = confirm_after env row s3"
proof (cases "ledger_after env row s")
  case None
  with assms early show thesis by (simp add: applyRow_def)
next
  case (Some grants)
  note not_ours = gone and landed = applied
  define s1 where "s1 = s\<lparr>ds_grants := grants\<rparr>"
  have s1: "ds_rows s1 = ds_rows s" "ds_z s1 = ds_z s" by (simp_all add: s1_def)
  obtain e2 s2 where r: "rememberPropagation env row s1 = (e2, s2)" by (metis surj_pair)
  from remember_rows [OF r] s1 have s2: "ds_rows s2 = ds_rows s" "ds_z s2 = ds_z s" by simp_all
  have ap: "applyRow env row s = (case (e2, s2) of (Some e, s2) \<Rightarrow> (Some e, s2) | (None, s2) \<Rightarrow>
      (case settle env row CallApplied (MarkPropagationApplied (e_now env) (r_ID row)) s2 of
         (Some e, s3) \<Rightarrow> (Some e, s3) | (None, s3) \<Rightarrow> (None, confirm_after env row s3)))"
    by (simp add: applyRow_def Let_def Some s1_def [symmetric] r)
  show thesis
  proof (cases e2)
    case (Some x)
    then have "x = DbError" using r remember_error by blast
    with Some ap assms early s2 show thesis by simp
  next
    case None
    obtain e3 s3 where st: "settle env row CallApplied (MarkPropagationApplied (e_now env) (r_ID row)) s2 = (e3, s3)" by (metis surj_pair)
    from st show thesis
    proof (cases rule: settle_cases)
      case db
      with None ap assms st s2 early show thesis by simp
    next
      case (gone err)
      with None ap assms st s2 not_ours show thesis by simp
    next
      case (settled rows)
      with None ap assms st s2 show thesis by (intro landed [of s3]) simp_all
    qed
  qed
qed

lemma counts_simps [simp]:
  "counts (r\<lparr>dr_Applied := n\<rparr>) = (counts r)[0 := n]" "counts (r\<lparr>dr_Failed := n\<rparr>) = (counts r)[1 := n]"
  "counts (r\<lparr>dr_Requeued := n\<rparr>) = (counts r)[2 := n]" "counts (r\<lparr>dr_Abandoned := n\<rparr>) = (counts r)[3 := n]"
  "counts (r\<lparr>dr_Errored := n\<rparr>) = (counts r)[4 := n]" "counts (r\<lparr>dr_Exhausted := n\<rparr>) = (counts r)[5 := n]"
  "counts (refuse i m r) = counts r"
  by (simp_all add: counts_def refuse_def numeral_eq_Suc)

lemma counted_applied:
  assumes "distinct (map r_ID (ds_rows s))" and "count_applied (applyRow env row s) res = (res', s')"
  shows "(\<exists>k. counted k res res' (row_at (ds_rows s) (r_ID row)) (row_at (ds_rows s') (r_ID row))) \<and>
    (\<forall>j. j \<noteq> r_ID row \<longrightarrow> row_at (ds_rows s') j = row_at (ds_rows s) j)"
proof -
  obtain e s1 where a: "applyRow env row s = (e, s1)" by (metis surj_pair)
  from a show ?thesis
  proof (cases rule: applyRow_settle)
    case early
    then have "counted 5 res res' (row_at (ds_rows s) (r_ID row)) (row_at (ds_rows s') (r_ID row))" "ds_rows s' = ds_rows s"
      using a assms(2) by (auto simp: count_applied_def unsettled_def counted_def counts_def)
    then show ?thesis by auto
  next
    case (gone err)
    then have "counted 4 res res' (row_at (ds_rows s) (r_ID row)) (row_at (ds_rows s') (r_ID row))" "ds_rows s' = ds_rows s"
      using a assms(2) settleOne_none
      by (auto simp: count_applied_def unsettled_def counted_def counts_def MarkPropagationApplied_def)
    then show ?thesis by auto
  next
    case (applied s3)
    let ?f = "\<lambda>r. r\<lparr>r_status := Applied, r_completed_at := Some (e_now env), r_last_error := ''''\<rparr>"
    have set: "settleOne (r_ID row) ?f (ds_rows s) = Inr (ds_rows s3)" using applied(2) by (simp add: MarkPropagationApplied_def)
    from settleOne_row(1) [OF set assms(1)] obtain r where r: "row_at (ds_rows s) (r_ID row) = Some r" "r_status r = InFlight"
      "row_at (ds_rows s3) (r_ID row) = Some (?f r)" by auto
    from confirm_row(1) [OF r(3), of env row] applied(4) obtain r' where r': "row_at (ds_rows s1) (r_ID row) = Some r'" "r_status r' = Applied"
      by auto
    have res: "res' = res\<lparr>dr_Applied := dr_Applied res + 1\<rparr>" "s' = s1" using a assms(2) applied(1) by (auto simp: count_applied_def)
    have "counted 0 res res' (row_at (ds_rows s) (r_ID row)) (row_at (ds_rows s') (r_ID row))"
      using r r' res by (simp add: counted_def counts_def)
    moreover have "row_at (ds_rows s') j = row_at (ds_rows s) j" if "j \<noteq> r_ID row" for j
      using confirm_row(2) [OF r(3) that] settleOne_row(2) [OF set assms(1) _ that] applied(4) res by simp
    ultimately show ?thesis by blast
  qed
qed


text \<open>The three settles beside \<open>applyRow\<close>, by what they leave of the row.\<close>

lemma counted_settle:
  assumes dist: "distinct (map r_ID (ds_rows s))"
    and st: "settle env row call (\<lambda>rows. settleOne (r_ID row) f rows) s = (e, s')" and ids: "\<And>r. r_ID (f r) = r_ID r"
    and ok: "\<And>r. row_at (ds_rows s) (r_ID row) = Some r \<Longrightarrow> r_status r = InFlight \<Longrightarrow>
        counted k res done_res (Some r) (Some (f r))"
  shows "(\<exists>k. counted k res (case e of None \<Rightarrow> done_res | Some x \<Rightarrow> unsettled x res)
            (row_at (ds_rows s) (r_ID row)) (row_at (ds_rows s') (r_ID row))) \<and>
    (\<forall>j. j \<noteq> r_ID row \<longrightarrow> row_at (ds_rows s') j = row_at (ds_rows s) j)"
  using st
proof (cases rule: settle_cases)
  case db
  then have "counted 5 res (unsettled DbError res) (row_at (ds_rows s) (r_ID row)) (row_at (ds_rows s') (r_ID row))"
    by (simp add: unsettled_def counted_def counts_def)
  with db show ?thesis by auto
next
  case (gone err)
  then have "counted 4 res (unsettled NotInFlight res) (row_at (ds_rows s) (r_ID row)) (row_at (ds_rows s') (r_ID row))"
    using settleOne_none [OF gone(3)] by (auto simp: unsettled_def counted_def counts_def)
  with gone show ?thesis by auto
next
  case (settled rows)
  from settleOne_row(1) [OF settled(2) dist ids] obtain r where
    r: "row_at (ds_rows s) (r_ID row) = Some r" "r_status r = InFlight" "row_at rows (r_ID row) = Some (f r)" by blast
  with ok settled have "counted k res done_res (row_at (ds_rows s) (r_ID row)) (row_at (ds_rows s') (r_ID row))" by simp
  with settled settleOne_row(2) [OF settled(2) dist ids] show ?thesis by auto
qed

lemma requeue_settle:
  "(\<lambda>rows. map_sum id snd (RequeuePropagation sched now i msg rows)) =
   (\<lambda>rows. settleOne i (\<lambda>r. r\<lparr>r_status := Pending, r_attempts := r_attempts r + 1, r_last_error := msg,
      r_started_at := None, r_not_before := Some (next_not_before sched now r)\<rparr>) rows)"
  by (rule ext) (simp add: RequeuePropagation_def split: sum.splits)

lemma row_at_ID: "row_at rows i = Some r \<Longrightarrow> r_ID r = i"
  using row_at_in by blast

text \<open>A processed row is counted as what became of it, and no other row changes.\<close>

abbreviation honest :: "outbox_row \<Rightarrow> drain_result \<Rightarrow> 'z drain_state \<Rightarrow> drain_result \<Rightarrow> 'z drain_state \<Rightarrow> bool" where
  "honest row res s res' s' \<equiv>
     (\<exists>k. counted k res res' (row_at (ds_rows s) (r_ID row)) (row_at (ds_rows s') (r_ID row))) \<and>
     (\<forall>j. j \<noteq> r_ID row \<longrightarrow> row_at (ds_rows s') j = row_at (ds_rows s) j)"

lemma honest_settle:
  assumes "distinct (map r_ID (ds_rows s))" and "\<And>r. r_ID (f r) = r_ID r"
    and "processRow env row (res, s) =
      (case settle env row call (\<lambda>rows. settleOne (r_ID row) f rows) (s\<lparr>ds_z := z\<rparr>) of
         (Some e, s1) \<Rightarrow> (unsettled e res, s1) | (None, s1) \<Rightarrow> (done_res, s1))"
    and "\<And>r. r_ID r = r_ID row \<Longrightarrow> r_status r = InFlight \<Longrightarrow> counted k res done_res (Some r) (Some (f r))"
    and "processRow env row (res, s) = (res', s')"
  shows "honest row res s res' s'"
proof -
  let ?s = "s\<lparr>ds_z := z\<rparr>"
  have d: "distinct (map r_ID (ds_rows ?s))" and rows: "ds_rows ?s = ds_rows s" using assms(1) by simp_all
  obtain e s1 where st: "settle env row call (\<lambda>rows. settleOne (r_ID row) f rows) ?s = (e, s1)" by (rule prod.exhaust)
  with assms(3,5) have out: "res' = (case e of None \<Rightarrow> done_res | Some x \<Rightarrow> unsettled x res)" "s' = s1"
    by (auto split: option.splits)
  have c: "counted k res done_res (Some r) (Some (f r))" if "row_at (ds_rows ?s) (r_ID row) = Some r" "r_status r = InFlight" for r
    using assms(4) [OF row_at_ID [OF that(1)] that(2)] .
  from counted_settle [OF d st assms(2) c] show ?thesis unfolding out rows .
qed

lemma processRow_unfold:
  assumes "alreadyExists env row (ds_z s) = (False, z1)"
  shows "classifyDispatch env row z1 = ((AckFailed, msg), z2) \<Longrightarrow> processRow env row (res, s) =
      (case settle env row CallRefused (\<lambda>rows. settleOne (r_ID row) (\<lambda>r. r\<lparr>r_status := Failed,
           r_completed_at := Some (e_now env), r_last_error := msg, r_wait_reason := WaitReasonRefused (RefusalCause msg)\<rparr>) rows)
         (s\<lparr>ds_z := z2\<rparr>) of
         (Some e, s1) \<Rightarrow> (unsettled e res, s1)
       | (None, s1) \<Rightarrow> (refuse (r_ID row) msg (res\<lparr>dr_Failed := dr_Failed res + 1\<rparr>), s1))"
    and "classifyDispatch env row z1 = ((AckTransient, msg), z2) \<Longrightarrow> r_attempts row \<ge> maxRetries env \<Longrightarrow> processRow env row (res, s) =
      (case settle env row CallFailed (\<lambda>rows. settleOne (r_ID row) (\<lambda>r. r\<lparr>r_status := Failed,
           r_completed_at := Some (e_now env), r_last_error := spent_reason row msg\<rparr>) rows) (s\<lparr>ds_z := z2\<rparr>) of
         (Some e, s1) \<Rightarrow> (unsettled e res, s1)
       | (None, s1) \<Rightarrow> (res\<lparr>dr_Failed := dr_Failed res + 1, dr_Exhausted := dr_Exhausted res + 1\<rparr>, s1))"
    and "classifyDispatch env row z1 = ((AckTransient, msg), z2) \<Longrightarrow> \<not> r_attempts row \<ge> maxRetries env \<Longrightarrow> processRow env row (res, s) =
      (case settle env row CallRequeue (\<lambda>rows. settleOne (r_ID row) (\<lambda>r. r\<lparr>r_status := Pending,
           r_attempts := r_attempts r + 1, r_last_error := msg, r_started_at := None,
           r_not_before := Some (next_not_before (e_sched env) (e_now env) r)\<rparr>) rows) (s\<lparr>ds_z := z2\<rparr>) of
         (Some e, s1) \<Rightarrow> (unsettled e res, s1) | (None, s1) \<Rightarrow> (res\<lparr>dr_Requeued := dr_Requeued res + 1\<rparr>, s1))"
  using assms unfolding processRow_def requeue_settle
  by (simp_all add: MarkPropagationRefused_def MarkPropagationFailed_def)

lemma counted_refused:
  assumes "r_ID r = i" and "r_status r = InFlight"
  shows "counted 1 res (refuse i msg (res\<lparr>dr_Failed := dr_Failed res + 1\<rparr>)) (Some r)
      (Some (r\<lparr>r_status := Failed, r_completed_at := t, r_last_error := m, r_wait_reason := WaitReasonRefused (RefusalCause msg)\<rparr>))"
proof -
  let ?res = "refuse i msg (res\<lparr>dr_Failed := dr_Failed res + 1\<rparr>)"
  let ?r = "r\<lparr>r_status := Failed, r_completed_at := t, r_last_error := m, r_wait_reason := WaitReasonRefused (RefusalCause msg)\<rparr>"
  have "counts ?res = map2 (+) (counts res) [0, 1, 0, 0, 0, 0]" by (simp add: counts_def refuse_def)
  moreover have "r_status ?r = Failed" "r_wait_reason ?r = WaitReasonRefused (RefusalCause msg)"
    "map_of (dr_Refused ?res) (r_ID r) = Some (RefusalCause msg)" using assms(1) by (simp_all add: refuse_def)
  ultimately show ?thesis using assms(2) unfolding counted_def by blast
qed

lemma counted_outcomes:
  assumes "r_status r = InFlight"
  shows "counted 2 res (res\<lparr>dr_Failed := dr_Failed res + 1, dr_Exhausted := dr_Exhausted res + 1\<rparr>) (Some r)
      (Some (r\<lparr>r_status := Failed, r_completed_at := t, r_last_error := m\<rparr>))"
    and "counted 3 res (res\<lparr>dr_Requeued := dr_Requeued res + 1\<rparr>) (Some r)
      (Some (r\<lparr>r_status := Pending, r_attempts := r_attempts r + 1, r_last_error := m, r_started_at := None, r_not_before := Some u\<rparr>))"
  using assms by (simp_all add: counted_def counts_def)

text \<open>
  C30. What a drain reports of a row is what the database recorded. A row it processes moves
  exactly one of the counters, once: applied if and only if the row in the table went from in
  flight to applied; failed if it went to failed, with the cause kept on the row equal to the
  one reported; out of retries likewise; requeued if it went back to pending with one more
  try and a time to wait for; abandoned only when the row was no longer in flight, and
  errored when a statement failed, both with the row left as it was. No other row changes.
\<close>

theorem processRow_truthful:
  assumes "distinct (map r_ID (ds_rows s))" and "processRow env row (res, s) = (res', s')"
  shows "(\<exists>k. counted k res res' (row_at (ds_rows s) (r_ID row)) (row_at (ds_rows s') (r_ID row))) \<and>
    (\<forall>j. j \<noteq> r_ID row \<longrightarrow> row_at (ds_rows s') j = row_at (ds_rows s) j)"
proof -
  obtain b z1 where ex: "alreadyExists env row (ds_z s) = (b, z1)" by (rule prod.exhaust)
  obtain c msg z2 where cl: "classifyDispatch env row z1 = ((c, msg), z2)" by (metis surj_pair)
  consider (applied) z where "processRow env row (res, s) = count_applied (applyRow env row (s\<lparr>ds_z := z\<rparr>)) res"
    | (refused) "\<not> b" "c = AckFailed" | (transient) "\<not> b" "c = AckTransient"
    using ex cl by (cases b; cases c) (simp_all add: processRow_def)
  then show ?thesis
  proof cases
    case (applied z)
    with counted_applied [of "s\<lparr>ds_z := z\<rparr>" env row res res' s'] assms show ?thesis by simp
  next
    case refused
    with ex cl have n: "alreadyExists env row (ds_z s) = (False, z1)" "classifyDispatch env row z1 = ((AckFailed, msg), z2)" by simp_all
    show ?thesis
      by (rule honest_settle [OF assms(1) _ processRow_unfold(1) [OF n] counted_refused assms(2)]) simp_all
  next
    case transient
    with ex cl have n: "alreadyExists env row (ds_z s) = (False, z1)" "classifyDispatch env row z1 = ((AckTransient, msg), z2)" by simp_all
    show ?thesis
    proof (cases "r_attempts row \<ge> maxRetries env")
      case True
      show ?thesis
        by (rule honest_settle [OF assms(1) _ processRow_unfold(2) [OF n True] counted_outcomes(1) assms(2)]) simp_all
    next
      case False
      show ?thesis
        by (rule honest_settle [OF assms(1) _ processRow_unfold(3) [OF n False] counted_outcomes(2) assms(2)]) simp_all
    qed
  qed
qed

section \<open>Applied means delivered\<close>

lemma confirm_view:
  assumes "reads_truly env at"
  shows "at (ds_z (confirm_after env row s)) = at (ds_z s)"
proof -
  obtain b z where o: "observedAfterWrite env row (ds_z s) = (b, z)" by (metis surj_pair)
  then have "at z = at (ds_z s)"
    using assms unfolding reads_truly_def observedAfterWrite_def by (auto split: if_splits prod.splits sum.splits)
  with o show ?thesis by (simp add: confirm_after_def Let_def)
qed

lemma applyRow_view: "reads_truly env at \<Longrightarrow> applyRow env row s = (e, s') \<Longrightarrow> at (ds_z s') = at (ds_z s)"
  by (erule applyRow_settle) (simp_all add: confirm_view)

lemma processRow_applied_from:
  assumes "processRow env row (res, s) = (res', s')" and "dr_Applied res' = dr_Applied res + 1"
  obtains (there) z1 where "alreadyExists env row (ds_z s) = (True, z1)" "applyRow env row (s\<lparr>ds_z := z1\<rparr>) = (None, s')"
  | (sent) z1 msg z2 where "alreadyExists env row (ds_z s) = (False, z1)" "classifyDispatch env row z1 = ((AckApplied, msg), z2)"
      "applyRow env row (s\<lparr>ds_z := z2\<rparr>) = (None, s')"
proof -
  obtain b z1 where ex: "alreadyExists env row (ds_z s) = (b, z1)" by (metis surj_pair)
  obtain c msg z2 where cl: "classifyDispatch env row z1 = ((c, msg), z2)" by (metis surj_pair)
  have landed: "fst r = None \<and> s' = snd r" if "processRow env row (res, s) = count_applied r res" for r
    using that assms by (cases r) (auto simp: count_applied_def unsettled_def split: option.splits send_error.splits)
  show thesis
  proof (cases b)
    case True
    then have "processRow env row (res, s) = count_applied (applyRow env row (s\<lparr>ds_z := z1\<rparr>)) res"
      using ex by (simp add: processRow_def)
    from landed [OF this] there ex True show thesis by (metis prod.collapse)
  next
    case False
    show thesis
    proof (cases c)
      case AckApplied
      then have "processRow env row (res, s) = count_applied (applyRow env row (s\<lparr>ds_z := z2\<rparr>)) res"
        using ex cl False by (simp add: processRow_def)
      from landed [OF this] sent ex cl False AckApplied show thesis by (metis prod.collapse)
    qed (use assms ex cl False in \<open>auto simp: processRow_def unsettled_def refuse_def
        split: option.splits send_error.splits if_splits prod.splits\<close>)
  qed
qed


section \<open>Every row settles\<close>

lemma applyRow_in_place: "applyRow env row s = (e, s') \<Longrightarrow> in_place (ds_rows s) (ds_rows s')"
proof (erule applyRow_settle)
  fix s3 assume "MarkPropagationApplied (e_now env) (r_ID row) (ds_rows s) = Inr (ds_rows s3)" and s': "s' = confirm_after env row s3"
  from this(1) have "in_place (ds_rows s) (ds_rows s3)" by (rule settles_in_place)
  moreover have "in_place (ds_rows s3) (ds_rows s')"
    unfolding s' confirm_after_def Let_def by (auto simp: confirm_in_place list.rel_refl split: prod.splits)
  ultimately show "in_place (ds_rows s) (ds_rows s')" by (rule in_place_trans)
qed (simp_all add: list.rel_refl)

lemma settle_in_place:
  assumes "settle env row call f s = (e, s')" and "\<And>rows. f (ds_rows s) = Inr rows \<Longrightarrow> in_place (ds_rows s) rows"
  shows "in_place (ds_rows s) (ds_rows s')"
  using assms(1) by (cases rule: settle_cases) (use assms(2) in \<open>simp_all add: list.rel_refl\<close>)

lemma processRow_in_place: "processRow env row (res, s) = (res', s') \<Longrightarrow> in_place (ds_rows s) (ds_rows s')"
proof -
  assume p: "processRow env row (res, s) = (res', s')"
  obtain b z1 where ex: "alreadyExists env row (ds_z s) = (b, z1)" by (metis surj_pair)
  obtain c msg z2 where cl: "classifyDispatch env row z1 = ((c, msg), z2)" by (metis surj_pair)
  have ap: "in_place (ds_rows s) (ds_rows s')" if "(res', s') = count_applied (applyRow env row (s\<lparr>ds_z := z\<rparr>)) res" for z
    using that applyRow_in_place [of env row "s\<lparr>ds_z := z\<rparr>"]
    by (cases "applyRow env row (s\<lparr>ds_z := z\<rparr>)") (auto simp: count_applied_def split: option.splits)
  have req: "in_place (ds_rows s) rows" if "map_sum id snd (RequeuePropagation sched now i m (ds_rows s)) = Inr rows" for sched now i m rows
    using that requeue_in_place by (cases "RequeuePropagation sched now i m (ds_rows s)") auto
  note st = settle_in_place [of env row _ _ "s\<lparr>ds_z := z2\<rparr>", simplified]
  show ?thesis
  proof (cases b)
    case True
    with p ex show ?thesis by (intro ap [of z1]) (simp add: processRow_def)
  next
    case False
    show ?thesis
    proof (cases c)
      case AckApplied
      with False p ex cl show ?thesis by (intro ap [of z2]) (simp add: processRow_def)
    next
      case AckFailed
      with False p ex cl show ?thesis
        by (auto simp: processRow_def split: prod.splits option.splits elim!: st intro: settles_in_place)
    next
      case AckTransient
      with False p ex cl show ?thesis
        by (auto simp: processRow_def split: prod.splits option.splits if_splits elim!: st intro: settles_in_place req)
    qed
  qed
qed


text \<open>A database that takes every statement it can take, and a row that is no replacement: its reconciliation is refused.\<close>

definition db_ok :: "'z drain_env \<Rightarrow> outbox_row \<Rightarrow> bool" where
  "db_ok env row \<longleftrightarrow> (\<forall>i c z. db_takes env i c z) \<and> r_op row \<noteq> Replace"

lemma settle_ok: "db_ok env row \<Longrightarrow> settle env row call f s \<noteq> (Some DbError, s')"
  by (auto simp: settle_def db_ok_def split: sum.splits settle_error.splits)

lemma applyRow_ok:
  assumes "db_ok env row" and "row_at (ds_rows s) (r_ID row) = Some row"
  shows "applyRow env row s \<noteq> (Some DbError, s')"
proof -
  have "rememberPropagation env row s \<noteq> (Some e, s')" for s e s'
    using assms(1) by (auto simp: rememberPropagation_def db_ok_def Let_def split: if_splits option.splits)
  moreover have "ledger_after env row s \<noteq> None"
    using assms by (auto simp: ledger_after_def ReconcileLedgerOnApplied_def row_at_def db_ok_def)
  ultimately show ?thesis using settle_ok [OF assms(1), of CallApplied]
    by (auto simp: applyRow_def Let_def split: prod.splits option.splits)
qed

lemma processRow_ok:
  assumes "db_ok env row" and "processRow env row (res, s) = (res', s')" and "row_at (ds_rows s) (r_ID row) = Some row"
  shows "dr_Errored res' = dr_Errored res \<and> (dr_Requeued res' > dr_Requeued res \<longrightarrow> r_attempts row < maxRetries env)"
proof -
  obtain b z1 where ex: "alreadyExists env row (ds_z s) = (b, z1)" by (metis surj_pair)
  obtain c msg z2 where cl: "classifyDispatch env row z1 = ((c, msg), z2)" by (metis surj_pair)
  have ap: "dr_Errored res' = dr_Errored res \<and> dr_Requeued res' = dr_Requeued res"
    if "(res', s') = count_applied (applyRow env row (s\<lparr>ds_z := z\<rparr>)) res" for z
    using that applyRow_ok [OF assms(1), of "s\<lparr>ds_z := z\<rparr>"] assms(3)
    by (cases "applyRow env row (s\<lparr>ds_z := z\<rparr>)") (auto simp: count_applied_def unsettled_def split: option.splits send_error.splits)
  have un: "dr_Errored (unsettled e res) = dr_Errored res \<and> dr_Requeued (unsettled e res) = dr_Requeued res"
    if "settle env row call f t = (Some e, t')" for call f t t' e
    using that settle_ok [OF assms(1), of call f t] by (cases e) (auto simp: unsettled_def)
  show ?thesis
  proof (cases b)
    case True
    with assms(2) ex ap [of z1] show ?thesis by (simp add: processRow_def)
  next
    case False
    show ?thesis
    proof (cases c)
      case AckApplied
      with False assms(2) ex cl ap [of z2] show ?thesis by (simp add: processRow_def)
    next
      case AckFailed
      with False assms(2) ex cl show ?thesis
        by (auto simp: processRow_def refuse_def split: prod.splits option.splits dest!: un)
    next
      case AckTransient
      with False assms(2) ex cl show ?thesis
        by (auto simp: processRow_def split: prod.splits option.splits if_splits dest!: un)
    qed
  qed
qed

text \<open>A targeted send claims an unresolved row of a registered target, or settles it as overtaken.\<close>

lemma claim_one_row:
  assumes "distinct (map r_ID rows)" and "row_at rows i = Some r" and "i \<noteq> ''''"
  shows "in_place rows (snd (ClaimPropagationByID ver active now target i rows))"
    and "unresolved r \<Longrightarrow> r_target r = target \<Longrightarrow> target \<in> active \<Longrightarrow>
      (\<exists>row. ClaimPropagationByID ver active now target i rows = (Some row, snd (ClaimPropagationByID ver active now target i rows)) \<and>
         row = r\<lparr>r_status := InFlight, r_started_at := Some now\<rparr> \<and>
         row_at (snd (ClaimPropagationByID ver active now target i rows)) i = Some row) \<or>
      (\<exists>r'. fst (ClaimPropagationByID ver active now target i rows) = None \<and>
         row_at (snd (ClaimPropagationByID ver active now target i rows)) i = Some r' \<and> terminal (r_status r'))"
proof -
  show "in_place rows (snd (ClaimPropagationByID ver active now target i rows))"
    using claims_in_place(4) [OF assms(1)] .
  let ?t = "\<lambda>p. if discards ver target i rows p
              then p\<lparr>r_status := Superseded, r_completed_at := Some now, r_last_error := supersededReason\<rparr> else p"
  let ?rows = "terminateSuperseded ver now target i rows"
  let ?P = "\<lambda>r. r_ID r = i \<and> pending_claimable active target r"
  let ?f = "\<lambda>r. r\<lparr>r_status := InFlight, r_started_at := Some now\<rparr>"
  assume r: "unresolved r" "r_target r = target" "target \<in> active"
  define g where "g = (\<lambda>r. if ?P r then ?f r else r)"
  define x where "x = ?t r"
  have t: "r_ID (?t p) = r_ID p" and g: "r_ID (g p) = r_ID p" for p by (simp_all add: g_def)
  have ids: "distinct (map r_ID ?rows)" using assms(1) by (simp add: in_place_ids [OF terminate_in_place])
  have at: "row_at ?rows i = Some x"
    unfolding terminateSuperseded_def row_at_map [of ?t rows i, OF t] x_def using assms(2) by simp
  have C: "ClaimPropagationByID ver active now target i rows =
      (case filter ?P ?rows of [] \<Rightarrow> None | r # _ \<Rightarrow> Some (?f r), map g ?rows)"
    by (simp add: ClaimPropagationByID_def Let_def g_def)
  have at2: "row_at (map g ?rows) i = Some (g x)" by (simp add: row_at_map [of g, OF g] at)
  have uniq: "y = x" if "y \<in> set ?rows" "r_ID y = i" for y
    using row_at_distinct [OF ids that(1)] at that(2) by simp
  have mem: "x \<in> set ?rows" "r_ID x = i" using row_at_in [OF at] by simp_all
  show "(\<exists>row. ClaimPropagationByID ver active now target i rows = (Some row, snd (ClaimPropagationByID ver active now target i rows)) \<and>
         row = r\<lparr>r_status := InFlight, r_started_at := Some now\<rparr> \<and>
         row_at (snd (ClaimPropagationByID ver active now target i rows)) i = Some row) \<or>
      (\<exists>r'. fst (ClaimPropagationByID ver active now target i rows) = None \<and>
         row_at (snd (ClaimPropagationByID ver active now target i rows)) i = Some r' \<and> terminal (r_status r'))"
  proof (cases "discards ver target i rows r")
    case True
    then have tr: "terminal (r_status x)" "\<not> ?P x" by (simp_all add: x_def terminal_def pending_claimable_def unresolved_def)
    then have "filter ?P ?rows = []" using uniq unfolding filter_empty_conv by blast
    moreover have "g x = x" unfolding g_def using tr(2) by (rule if_not_P)
    ultimately show ?thesis using at2 tr unfolding C by simp
  next
    case False
    then have tr: "x = r" "?P x" using r mem by (simp_all add: x_def pending_claimable_def)
    then have "x \<in> set (filter ?P ?rows)" using mem by simp
    then obtain y ys where y: "filter ?P ?rows = y # ys" by (cases "filter ?P ?rows") simp_all
    then have "y \<in> set (filter ?P ?rows)" by simp
    then have "y = x" by (intro uniq) simp_all
    moreover have "g x = ?f x" unfolding g_def using tr(2) by (rule if_P)
    ultimately show ?thesis using y tr(1) at2 unfolding C by simp
  qed
qed


definition drain_again ::
  "'z drain_env \<Rightarrow> (string \<Rightarrow> snapshot_version option) \<Rightarrow> string set \<Rightarrow> ('z \<Rightarrow> bool) \<Rightarrow> string \<Rightarrow> 'z drain_state \<Rightarrow> 'z drain_state" where
  "drain_again env ver active reachable i s = snd (DrainOne env ver active reachable True i s)"

text \<open>One more send: the row is settled, or back in the queue with one try more and tries left.\<close>

lemma drain_again_step:
  assumes "distinct (map r_ID (ds_rows s))" "row_at (ds_rows s) i = Some r" "i \<noteq> ''''"
    and "\<forall>z. reachable z" "''zitadel'' \<in> active" "db_ok env r" "r_target r = ''zitadel''"
    and "unresolved r \<or> terminal (r_status r)"
  shows "distinct (map r_ID (ds_rows (drain_again env ver active reachable i s))) \<and>
    (\<exists>r'. row_at (ds_rows (drain_again env ver active reachable i s)) i = Some r' \<and> row_next r r' \<and>
       (terminal (r_status r') \<or> unresolved r \<and> r_status r' = Pending \<and> r_attempts r' = r_attempts r + 1 \<and> r_attempts r < maxRetries env))"
proof -
  let ?s = "drain_again env ver active reachable i s"
  define c where "c = ClaimPropagationByID ver active (e_now env) ''zitadel'' i (ds_rows s)"
  have D: "?s = (case c of (None, rows) \<Rightarrow> s\<lparr>ds_rows := rows\<rparr>
        | (Some row, rows) \<Rightarrow> snd (processRow env row (zero_result, s\<lparr>ds_rows := rows\<rparr>)))"
    using assms(4) by (simp add: drain_again_def DrainOne_def c_def split: prod.splits option.splits)
  have claim: "in_place (ds_rows s) (snd c)" unfolding c_def by (rule claim_one_row(1) [OF assms(1-3)])
  have all: "in_place (ds_rows s) (ds_rows ?s)"
  proof (cases "fst c")
    case None
    with claim show ?thesis unfolding D by (cases c) simp
  next
    case (Some row)
    obtain res' s' where p: "processRow env row (zero_result, s\<lparr>ds_rows := snd c\<rparr>) = (res', s')" by (metis surj_pair)
    with Some have "?s = s'" unfolding D by (cases c) simp
    with processRow_in_place [OF p] claim in_place_trans show ?thesis by auto
  qed
  then have ids: "distinct (map r_ID (ds_rows ?s))" using assms(1) by (simp add: in_place_ids)
  from row_at_in [OF assms(2)] have r: "r \<in> set (ds_rows s)" "r_ID r = i" by simp_all
  from in_place_row [OF all r(1)] obtain r' where r': "r' \<in> set (ds_rows ?s)" "row_next r r'" by blast
  then have at': "row_at (ds_rows ?s) i = Some r'" using row_at_distinct [OF ids r'(1)] r(2) by (simp add: row_next_def)
  have "terminal (r_status r') \<or> unresolved r \<and> r_status r' = Pending \<and> r_attempts r' = r_attempts r + 1 \<and> r_attempts r < maxRetries env"
  proof (cases "terminal (r_status r)")
    case True
    with r'(2) have "r_status r' = r_status r" unfolding row_next_def by auto
    with True show ?thesis by simp
  next
    case False
    with assms(8) have u: "unresolved r" by simp
    from claim_one_row(2) [OF assms(1-3) u assms(7,5), of ver "e_now env"] consider
      (got) row where "c = (Some row, snd c)" "row = r\<lparr>r_status := InFlight, r_started_at := Some (e_now env)\<rparr>" "row_at (snd c) i = Some row"
      | (gone) r1 where "fst c = None" "row_at (snd c) i = Some r1" "terminal (r_status r1)"
      unfolding c_def by blast
    then show ?thesis
    proof cases
      case gone
      then have "row_at (ds_rows ?s) i = Some r1" unfolding D by (cases c) simp
      with at' gone show ?thesis by simp
    next
      case (got row)
      obtain res' s' where p: "processRow env row (zero_result, s\<lparr>ds_rows := snd c\<rparr>) = (res', s')" by (metis surj_pair)
      have s': "?s = s'" unfolding D by (subst got(1)) (simp add: p)
      have ok: "db_ok env row" using assms(6) got(2) by (simp add: db_ok_def)
      have d: "distinct (map r_ID (ds_rows (s\<lparr>ds_rows := snd c\<rparr>)))" using assms(1) claim by (simp add: in_place_ids)
      have id: "r_ID row = i" and att: "r_attempts row = r_attempts r" using got(2) r(2) by simp_all
      from processRow_truthful [OF d p] obtain k where "counted k zero_result res' (Some row) (Some r')"
        using got(3) at' s' id by auto
      with processRow_ok [OF ok p] u att got(2,3) id show ?thesis
        by (auto simp: counted_def counts_def zero_result_def terminal_def)
    qed
  qed
  with ids at' r'(2) show ?thesis by blast
qed



text \<open>
  The reconciliation of a replacement passes the database a parameter its statement does not use, which PostgreSQL refuses; so a replacement, even one that has
  reached Zitadel, is counted as an error of the database and stays in flight.
\<close>

lemma replace_never_applied:
  assumes "row_at (ds_rows s) (r_ID row) = Some row" "r_op row = Replace" "processRow env row (res, s) = (res', s')"
  shows "dr_Applied res' = dr_Applied res"
proof -
  have "applyRow env row (s\<lparr>ds_z := z\<rparr>) = (Some DbError, s\<lparr>ds_z := z\<rparr>)" for z
    using assms(1,2) by (simp add: applyRow_def ledger_after_def ReconcileLedgerOnApplied_def row_at_def)
  then show ?thesis using assms(3)
    by (auto simp: processRow_def count_applied_def unsettled_def refuse_def split: prod.splits ack_class.splits option.splits send_error.splits if_splits bool.splits)
qed

section \<open>A Zitadel that keeps its contract\<close>

text \<open>
  A server that holds one grant per person and project: its state maps a person and a
  project to the roles of their grant. Grant ids carry the project.
\<close>

type_synonym server = "(string \<times> string, string list) gomap"

definition server_items :: "server \<Rightarrow> string \<Rightarrow> zgrant list" where
  "server_items z u = map (\<lambda>((_, p), rs). \<lparr>zg_ID = ''g'' @ p, zg_project = p, zg_roles = rs\<rparr>)
     (filter (\<lambda>((u', _), _). u' = u) (AList.clearjunk z))"

definition server_at :: "server grants_view" where
  "server_at z u p = map_option (\<lambda>rs. (''g'' @ p, set rs)) (map_of z (u, p))"

definition server_env :: "server drain_env" where
  "server_env = \<lparr>e_now = 9, e_sched = backoffSchedule (\<lambda>_. 0), maxRetries = 5, db_takes = (\<lambda>_ _ _. True),
     ListUserGrants = (\<lambda>u z. (Inr (length (server_items z u), server_items z u), z)),
     AddUserGrant = (\<lambda>u p rs z. if map_of z (u, p) \<noteq> None then (Some (StatusError 412 []), z) else (None, AList.update (u, p) rs z)),
     UpdateUserGrant = (\<lambda>u i rs z. if map_of z (u, tl i) = None then (Some (StatusError 404 []), z) else (None, AList.update (u, tl i) rs z)),
     RemoveUserGrant = (\<lambda>u i z. (None, AList.delete (u, tl i) z)),
     observeUser = (\<lambda>u z. (Inr \<lparr>ob_complete = True, ob_grants = server_items z u\<rparr>, z))\<rparr>"

lemma filter_key:
  assumes "distinct (map fst m)"
  shows "filter (\<lambda>((u', p'), _). u' = u \<and> p' = p) m = (case map_of m (u, p) of None \<Rightarrow> [] | Some v \<Rightarrow> [((u, p), v)])"
  using assms
proof (induction m)
  case (Cons kv m)
  obtain u' p' v where kv: "kv = ((u', p'), v)" by (metis surj_pair)
  show ?case
  proof (cases "u' = u \<and> p' = p")
    case True
    then have "map_of m (u, p) = None" using Cons.prems kv by (auto simp: map_of_eq_None_iff)
    with True Cons kv show ?thesis by simp
  next
    case False
    with Cons kv show ?thesis by auto
  qed
qed simp

lemma server_shows: "shows_grant (server_items z u) p (server_at z u p)"
proof -
  have f: "filter (\<lambda>g. zg_project g = p) (server_items z u) =
      map (\<lambda>((_, p), rs). \<lparr>zg_ID = ''g'' @ p, zg_project = p, zg_roles = rs\<rparr>)
        (filter (\<lambda>((u', p'), _). u' = u \<and> p' = p) (AList.clearjunk z))"
    unfolding server_items_def filter_map filter_filter
    by (intro arg_cong [where f = "map _"] filter_cong) (auto simp: split_beta)
  show ?thesis
  proof (cases "map_of z (u, p)")
    case None
    then have "filter (\<lambda>g. zg_project g = p) (server_items z u) = []" unfolding f
      by (simp add: filter_key distinct_clearjunk map_of_clearjunk)
    with None show ?thesis by (simp add: shows_grant_def server_at_def filter_empty_conv)
  next
    case (Some rs)
    then have "filter (\<lambda>g. zg_project g = p) (server_items z u) = [\<lparr>zg_ID = ''g'' @ p, zg_project = p, zg_roles = rs\<rparr>]" unfolding f
      by (simp add: filter_key distinct_clearjunk map_of_clearjunk)
    with Some show ?thesis by (simp add: shows_grant_def server_at_def)
  qed
qed

lemma server_contract: "reads_truly server_env server_at" "writes_exactly server_env server_at" "refuses_idly server_env server_at"
proof -
  show "reads_truly server_env server_at" by (simp add: reads_truly_def server_env_def server_shows)
  have upd: "set_grant server_at z (AList.update (u, p) rs z) u p (set rs)" for z u p rs
    by (auto simp: set_grant_def roles_at_def server_at_def)
  have del: "set_grant server_at z (AList.delete (u, p) z) u p {}" for z u p
    by (auto simp: set_grant_def roles_at_def server_at_def)
  show "writes_exactly server_env server_at"
    unfolding writes_exactly_def using upd del by (auto simp: server_env_def server_at_def split: if_splits)
  show "refuses_idly server_env server_at" by (auto simp: refuses_idly_def is_conflict_def server_env_def zitadelStatusCode_def split: if_splits)
qed

definition demo_sent :: "server drain_state" where
  "demo_sent = \<lparr>ds_rows = [(demo_row 2 Revoke)\<lparr>r_status := InFlight\<rparr>], ds_grants = [demo_ledger_row], ds_memory = [],
     ds_z = [((''u'', ''p''), [''r'', ''s''])]\<rparr>"

lemmas demo_sent_defs = demo_sent_def server_env_def processRow_def alreadyExists_def liveUserGrant_def live_grant_def
  server_items_def classifyDispatch_def dispatch_ack_def count_applied_def applyRow_def ledger_after_def ReconcileLedgerOnApplied_def settle_def rememberPropagation_def
  MarkPropagationApplied_def settleOne_def in_flight_def confirm_after_def observedAfterWrite_def observed_roles_def
  MarkPropagationConfirmed_def row_project_def held_keys_def held_def Let_def

lemma demo_sent_applied:
  "fst (processRow server_env ((demo_row 2 Revoke)\<lparr>r_status := InFlight\<rparr>) (zero_result, demo_sent)) = zero_result\<lparr>dr_Applied := 1\<rparr>"
  by (simp add: demo_sent_defs demo_row_defs zero_result_def)


theorem processRow_truthful_witness:
  "\<exists>k. counted k zero_result (fst (processRow server_env ((demo_row 2 Revoke)\<lparr>r_status := InFlight\<rparr>) (zero_result, demo_sent)))
     (row_at (ds_rows demo_sent) (r_ID (demo_row 2 Revoke)))
     (row_at (ds_rows (snd (processRow server_env ((demo_row 2 Revoke)\<lparr>r_status := InFlight\<rparr>) (zero_result, demo_sent))))
        (r_ID (demo_row 2 Revoke)))"
proof -
  have d: "distinct (map r_ID (ds_rows demo_sent))" by (simp add: demo_sent_def)
  obtain res' s' where p: "processRow server_env ((demo_row 2 Revoke)\<lparr>r_status := InFlight\<rparr>) (zero_result, demo_sent) = (res', s')"
    by (metis surj_pair)
  from processRow_truthful [OF d p] p show ?thesis by simp
qed


end
