(* ===== verification/Json.thy ===== *)
theory Json
  imports Go_Prelude
begin

text \<open>
  \<open>json.Valid\<close> of Go's \<^verbatim>\<open>encoding/json\<close>, as far as the claims of a token need it: whether a
  byte string is one JSON value. A recogniser reads one value from the front of its input and
  returns what is left. Its fuel bounds the number of nested reads; a read costs at most two
  units for each byte it consumes, so twice the length of the input and two more is enough
  (\<open>json_valid_any_fuel\<close>). The library's limit of 10,000 nested values is left out.
\<close>

definition json_space :: "char \<Rightarrow> bool" where
  "json_space c \<longleftrightarrow> c \<in> {CHR '' '', CHR 9, CHR 10, CHR 13}"

definition skip_space :: "string \<Rightarrow> string" where
  "skip_space = dropWhile json_space"

definition is_hex :: "char \<Rightarrow> bool" where
  "is_hex c \<longleftrightarrow> is_digit c \<or> c \<in> set ''abcdefABCDEF''"

text \<open>The rest of a string literal after its opening quote.\<close>

fun read_string :: "string \<Rightarrow> string option" where
  "read_string [] = None"
| "read_string (c # s) =
     (if c = CHR 34 then Some s
      else if (of_char c :: nat) < 32 then None
      else if c = CHR 92 then
        (case s of
           [] \<Rightarrow> None
         | e # t \<Rightarrow>
             if e = CHR ''u'' then
               (case t of
                  a # b # x # y # u \<Rightarrow>
                    if is_hex a \<and> is_hex b \<and> is_hex x \<and> is_hex y then read_string u else None
                | _ \<Rightarrow> None)
             else if e \<in> set [CHR 34, CHR 92, CHR ''/'', CHR ''b'', CHR ''f'', CHR ''n'', CHR ''r'', CHR ''t'']
             then read_string t else None)
      else read_string s)"

definition read_digits :: "string \<Rightarrow> string option" where
  "read_digits s = (if s \<noteq> [] \<and> is_digit (hd s) then Some (dropWhile is_digit s) else None)"

definition read_exponent :: "string \<Rightarrow> string option" where
  "read_exponent s =
     (case s of
        c # t \<Rightarrow>
          if c = CHR ''e'' \<or> c = CHR ''E'' then
            read_digits (case t of d # u \<Rightarrow> if d = CHR ''+'' \<or> d = CHR ''-'' then u else t | [] \<Rightarrow> t)
          else Some s
      | [] \<Rightarrow> Some s)"

definition read_fraction :: "string \<Rightarrow> string option" where
  "read_fraction s =
     (case s of
        c # t \<Rightarrow> if c = CHR ''.'' then Option.bind (read_digits t) read_exponent else read_exponent s
      | [] \<Rightarrow> Some s)"

definition read_number :: "string \<Rightarrow> string option" where
  "read_number s =
     (let t = (case s of c # u \<Rightarrow> if c = CHR ''-'' then u else s | [] \<Rightarrow> s)
      in case t of
           [] \<Rightarrow> None
         | d # u \<Rightarrow> if d = CHR ''0'' then read_fraction u
                    else Option.bind (read_digits t) read_fraction)"

definition read_word :: "string \<Rightarrow> string \<Rightarrow> string option" where
  "read_word w s = (if has_prefix s w then Some (drop (length w) s) else None)"

fun read_value :: "nat \<Rightarrow> string \<Rightarrow> string option"
  and read_items :: "nat \<Rightarrow> string \<Rightarrow> string option"
  and read_members :: "nat \<Rightarrow> string \<Rightarrow> string option" where
  "read_value 0 s = None"
| "read_value (Suc n) s =
     (case skip_space s of
        [] \<Rightarrow> None
      | c # t \<Rightarrow>
          if c = CHR 34 then read_string t
          else if c = CHR ''['' then
            (case skip_space t of
               [] \<Rightarrow> None
             | d # u \<Rightarrow> if d = CHR '']'' then Some u else read_items n (d # u))
          else if c = CHR ''{'' then
            (case skip_space t of
               [] \<Rightarrow> None
             | d # u \<Rightarrow> if d = CHR ''}'' then Some u else read_members n (d # u))
          else if c = CHR ''t'' then read_word ''true'' (c # t)
          else if c = CHR ''f'' then read_word ''false'' (c # t)
          else if c = CHR ''n'' then read_word ''null'' (c # t)
          else read_number (c # t))"
| "read_items 0 s = None"
| "read_items (Suc n) s =
     (case read_value n s of
        None \<Rightarrow> None
      | Some t \<Rightarrow>
          (case skip_space t of
             [] \<Rightarrow> None
           | d # u \<Rightarrow> if d = CHR '','' then read_items n u else if d = CHR '']'' then Some u else None))"
| "read_members 0 s = None"
| "read_members (Suc n) s =
     (case skip_space s of
        [] \<Rightarrow> None
      | q # k \<Rightarrow>
          if q \<noteq> CHR 34 then None
          else (case read_string k of
             None \<Rightarrow> None
           | Some t \<Rightarrow>
               (case skip_space t of
                  [] \<Rightarrow> None
                | d # u \<Rightarrow>
                    if d \<noteq> CHR '':'' then None
                    else (case read_value n u of
                       None \<Rightarrow> None
                     | Some v \<Rightarrow>
                         (case skip_space v of
                            [] \<Rightarrow> None
                          | x # y \<Rightarrow> if x = CHR '','' then read_members n y else if x = CHR ''}'' then Some y else None)))))"

definition json_valid :: "string \<Rightarrow> bool" where
  "json_valid s = (case read_value (2 * length s + 2) s of None \<Rightarrow> False | Some t \<Rightarrow> skip_space t = [])"

section \<open>The fuel is enough\<close>

lemma skip_space_Cons: "skip_space s = c # u \<Longrightarrow> length u < length s"
  unfolding skip_space_def by (metis Suc_le_lessD length_Cons length_dropWhile_le)

text \<open>A string literal goes on, after its first byte, with a shorter one, or ends.\<close>

lemma read_string_step:
  assumes "read_string (c # s) = Some t"
  obtains "t = s" | u where "length u \<le> length s" "read_string u = Some t"
proof -
  consider (quote) "c = CHR 34" | (plain) "c \<noteq> CHR 34" "c \<noteq> CHR 92" | (escape) "c = CHR 92" by blast
  then show ?thesis
  proof cases
    case quote
    with assms show ?thesis by (intro that(1)) simp
  next
    case plain
    with assms have "read_string s = Some t" by (simp split: if_split_asm)
    then show ?thesis by (intro that(2) [of s]) simp_all
  next
    case escape
    with assms obtain e v where s: "s = e # v" by (cases s) (simp_all split: if_split_asm)
    show ?thesis
    proof (cases "e = CHR ''u''")
      case True
      with assms escape s obtain a b x y u where "v = a # b # x # y # u" "read_string u = Some t"
        by (simp split: list.split_asm if_split_asm)
      with s show ?thesis by (intro that(2) [of u]) simp_all
    next
      case False
      with assms escape s have "read_string v = Some t" by (simp del: list.set split: if_split_asm)
      with s show ?thesis by (intro that(2) [of v]) simp_all
    qed
  qed
qed

lemma read_string_shorter: "read_string s = Some t \<Longrightarrow> length t < length s"
proof (induction "length s" arbitrary: s rule: less_induct)
  case less
  then obtain c r where s: "s = c # r" by (cases s) auto
  with less.prems have "read_string (c # r) = Some t" by simp
  then show ?case
  proof (cases rule: read_string_step)
    case (2 u)
    with less.hyps [of u] s show ?thesis by simp
  qed (simp add: s)
qed

lemma read_digits_shorter: "read_digits s = Some t \<Longrightarrow> length t < length s"
  by (cases s) (auto simp: read_digits_def less_Suc_eq_le length_dropWhile_le split: if_splits)

lemma read_exponent_length: "read_exponent s = Some t \<Longrightarrow> length t \<le> length s"
  by (auto simp: read_exponent_def split: list.splits if_splits dest!: read_digits_shorter)

lemma read_fraction_length: "read_fraction s = Some t \<Longrightarrow> length t \<le> length s"
  by (auto simp: read_fraction_def bind_eq_Some_conv split: list.splits if_splits dest!: read_digits_shorter read_exponent_length)

lemma read_number_shorter: "read_number s = Some t \<Longrightarrow> length t < length s"
  by (auto simp: read_number_def Let_def bind_eq_Some_conv split: list.splits if_splits dest!: read_digits_shorter read_fraction_length)

lemma read_word_shorter: "read_word w s = Some t \<Longrightarrow> w \<noteq> [] \<Longrightarrow> length t < length s"
  by (cases s; cases w) (auto simp: read_word_def has_prefix_def split: if_splits)

lemma read_shorter:
  "(read_value n s = Some t \<longrightarrow> length t < length s) \<and> (read_items n s = Some t \<longrightarrow> length t < length s) \<and> (read_members n s = Some t \<longrightarrow> length t < length s)"
proof (induction n arbitrary: s t)
  case (Suc n)
  have V: "length t < length s" if "read_value n s = Some t" for s t using Suc that by blast
  have I: "length t < length s" if "read_items n s = Some t" for s t using Suc that by blast
  have M: "length t < length s" if "read_members n s = Some t" for s t using Suc that by blast
  have "length t < length s" if r: "read_value (Suc n) s = Some t"
  proof -
    obtain c u where s: "skip_space s = c # u" using r by (cases "skip_space s") auto
    have "length t \<le> length u"
    proof (cases "c = CHR ''['' \<or> c = CHR ''{''")
      case True
      with r s obtain d v where u: "skip_space u = d # v" by (cases "skip_space u") auto
      have "t = v \<or> length t < length (d # v)"
        using True r s u I [of "d # v" t] M [of "d # v" t] by (auto split: if_split_asm)
      with skip_space_Cons [OF u] show ?thesis by auto
    next
      case False
      then have "read_string u = Some t \<or> (\<exists>w. w \<noteq> [] \<and> read_word w (c # u) = Some t) \<or> read_number (c # u) = Some t"
        using r s by (auto split: if_split_asm)
      then show ?thesis using read_string_shorter [of u t] read_number_shorter [of "c # u" t] read_word_shorter [of _ "c # u" t] by fastforce
    qed
    with skip_space_Cons [OF s] show ?thesis by simp
  qed
  moreover have "length t < length s" if r: "read_items (Suc n) s = Some t"
  proof -
    obtain v where v: "read_value n s = Some v" using r by (cases "read_value n s") auto
    obtain d u where u: "skip_space v = d # u" using r v by (cases "skip_space v") auto
    have "t = u \<or> length t < length u" using r v u I [of u t] by (auto split: if_split_asm)
    with V [OF v] skip_space_Cons [OF u] show ?thesis by auto
  qed
  moreover have "length t < length s" if r: "read_members (Suc n) s = Some t"
  proof -
    obtain q k where q: "skip_space s = q # k" "q = CHR 34" using r by (cases "skip_space s") (auto split: if_split_asm)
    obtain v where v: "read_string k = Some v" using r q by (cases "read_string k") auto
    obtain d u where u: "skip_space v = d # u" "d = CHR '':''" using r q v by (cases "skip_space v") (auto split: if_split_asm)
    obtain w where w: "read_value n u = Some w" using r q v u by (cases "read_value n u") auto
    obtain x y where y: "skip_space w = x # y" using r q v u w by (cases "skip_space w") auto
    have "t = y \<or> length t < length y" using r q v u w y M [of y t] by (auto split: if_split_asm)
    with skip_space_Cons [OF q(1)] read_string_shorter [OF v] skip_space_Cons [OF u(1)] V [OF w] skip_space_Cons [OF y] show ?thesis by auto
  qed
  ultimately show ?case by blast
qed simp

text \<open>With twice the length of the input and one more, more fuel changes nothing.\<close>

lemma read_fuel:
  "(2 * length s + 1 \<le> n \<longrightarrow> read_value (Suc n) s = read_value n s) \<and>
   (2 * length s + 2 \<le> n \<longrightarrow> read_items (Suc n) s = read_items n s \<and> read_members (Suc n) s = read_members n s)"
proof (induction n arbitrary: s)
  case (Suc n)
  have V: "read_value (Suc n) s = read_value n s" if "2 * length s + 1 \<le> n" for s using Suc that by blast
  have I: "read_items (Suc n) s = read_items n s" if "2 * length s + 2 \<le> n" for s using Suc that by blast
  have M: "read_members (Suc n) s = read_members n s" if "2 * length s + 2 \<le> n" for s using Suc that by blast
  have "read_value (Suc (Suc n)) s = read_value (Suc n) s" if len: "2 * length s + 1 \<le> Suc n"
  proof (cases "skip_space s")
    case s: (Cons c u)
    have "read_items (Suc n) (d # v) = read_items n (d # v) \<and> read_members (Suc n) (d # v) = read_members n (d # v)" if "skip_space u = d # v" for d v
      using skip_space_Cons [OF s] skip_space_Cons [OF that] len by (intro conjI I M) auto
    then show ?thesis using s by (auto simp del: read_items.simps read_members.simps split: list.split)
  qed simp
  moreover have "read_items (Suc (Suc n)) s = read_items (Suc n) s" if len: "2 * length s + 2 \<le> Suc n"
  proof (cases "read_value n s")
    case (Some v)
    have "read_items (Suc n) u = read_items n u" if "skip_space v = d # u" for d u
      using read_shorter [of n s v] Some skip_space_Cons [OF that] len by (intro I) auto
    with Some V [of s] len show ?thesis by (auto simp del: read_value.simps simp: read_items.simps(2) [of n] read_items.simps(2) [of "Suc n"] split: list.split)
  qed (use V [of s] len in \<open>simp del: read_value.simps\<close>)
  moreover have "read_members (Suc (Suc n)) s = read_members (Suc n) s" if len: "2 * length s + 2 \<le> Suc n"
  proof -
    have "read_value (Suc n) u = read_value n u \<and> (\<forall>w x y. read_value n u = Some w \<and> skip_space w = x # y \<longrightarrow> read_members (Suc n) y = read_members n y)"
      if "skip_space s = q # k" "read_string k = Some v" "skip_space v = d # u" for q k v d u
    proof -
      have u: "2 * length u + 4 \<le> 2 * length s"
        using skip_space_Cons [OF that(1)] read_string_shorter [OF that(2)] skip_space_Cons [OF that(3)] by linarith
      have "read_members (Suc n) y = read_members n y" if "read_value n u = Some w" "skip_space w = x # y" for w x y
        using read_shorter [of n u w] that(1) skip_space_Cons [OF that(2)] u len by (intro M) auto
      with u len V [of u] show ?thesis by auto
    qed
    then show ?thesis
      by (auto simp del: read_value.simps simp: read_members.simps(2) [of n] read_members.simps(2) [of "Suc n"] split: list.split option.split)
  qed
  ultimately show ?case by blast
qed simp


text \<open>So the recogniser answers as it would with any larger fuel: it never gives up for want of it.\<close>

lemma read_value_any_fuel:
  assumes "2 * length s + 1 \<le> n" "n \<le> m"
  shows "read_value m s = read_value n s"
  using assms(2)
proof (induction m rule: dec_induct)
  case (step k)
  then have "2 * length s + 1 \<le> k" using assms(1) by simp
  with read_fuel [of s k] step.IH show ?case by (simp del: read_value.simps)
qed (rule refl)

lemma json_valid_any_fuel:
  assumes "2 * length s + 1 \<le> n"
  shows "json_valid s \<longleftrightarrow> (\<exists>t. read_value n s = Some t \<and> skip_space t = [])"
proof -
  have "read_value n s = read_value (2 * length s + 1) s" "read_value (2 * length s + 2) s = read_value (2 * length s + 1) s"
    using assms by (auto intro: read_value_any_fuel simp del: read_value.simps)
  then show ?thesis by (auto simp: json_valid_def simp del: read_value.simps split: option.splits)
qed

end
