(* ===== verification/Claims.thy ===== *)
theory Claims
  imports Json "HOL-Library.Sublist"
begin

text \<open>
  The token shape, \<^verbatim>\<open>backend/internal/claims\<close>: which claims an application receives
  (\<^verbatim>\<open>claims.go\<close>), what changes between two shapes (\<^verbatim>\<open>diff.go\<close>) and the templates a shape
  starts from (\<^verbatim>\<open>templates.go\<close>).

  An \<open>*Object\<close> is an association list in key order, a nested one a value of its own: the
  functions of the package build a fresh tree and hold no other reference into it. A
  \<open>json.RawMessage\<close> is its bytes. Kinds, formats and sources are strings as in the source,
  because a stored profile may carry one the code does not know.
\<close>

section \<open>Profiles and facts\<close>

abbreviation FormatArray :: string where "FormatArray \<equiv> ''array''"
abbreviation FormatCSV :: string where "FormatCSV \<equiv> ''csv''"
abbreviation FormatSpaceDelimited :: string where "FormatSpaceDelimited \<equiv> ''space_delimited''"

abbreviation KindRoles :: string where "KindRoles \<equiv> ''roles''"
abbreviation KindAttribute :: string where "KindAttribute \<equiv> ''attribute''"
abbreviation KindStatic :: string where "KindStatic \<equiv> ''static''"
abbreviation KindIfRole :: string where "KindIfRole \<equiv> ''if_role''"
abbreviation KindBundles :: string where "KindBundles \<equiv> ''bundles''"
abbreviation KindRoleEnds :: string where "KindRoleEnds \<equiv> ''role_ends''"

abbreviation LandsBoth :: string where "LandsBoth \<equiv> ''both''"
abbreviation LandsAccessToken :: string where "LandsAccessToken \<equiv> ''access_token''"
abbreviation LandsUserinfo :: string where "LandsUserinfo \<equiv> ''userinfo''"

record claim_role_map =
  rm_Key :: string
  rm_As :: string
  rm_Included :: bool

record claim =
  c_Path :: "string list"
  c_Kind :: string
  c_Source :: string
  c_Value :: string
  c_Roles :: "string list"
  c_Format :: string

record profile =
  pf_Claims :: "claim list"
  pf_Roles :: "claim_role_map list"
  pf_IncludeNew :: bool
  pf_Lands :: string

record facts =
  fa_Roles :: "string list"
  fa_UserID :: string
  fa_ProjectID :: string
  fa_Email :: string
  fa_Name :: string
  fa_GivenName :: string
  fa_FamilyName :: string
  fa_Username :: string
  fa_Title :: string
  fa_Team :: string
  fa_CompiledAt :: string
  fa_Bundles :: "string list"
  fa_RoleEnds :: "(string, string) gomap"
  fa_IsServiceAccount :: bool
  fa_machine :: bool

record identity =
  id_Human :: bool
  id_Machine :: bool
  id_GivenName :: string
  id_FamilyName :: string
  id_Username :: string
  id_Email :: string

datatype jval = JText string | JList "string list" | JBool bool | JInt int | JRaw string | JObj "(string \<times> jval) list"

type_synonym jobject = "(string \<times> jval) list"

definition zero_claim :: claim where
  "zero_claim = \<lparr>c_Path = [], c_Kind = [], c_Source = [], c_Value = [], c_Roles = [], c_Format = []\<rparr>"

definition roles_row :: "string list \<Rightarrow> string \<Rightarrow> claim" where
  "roles_row path format = zero_claim\<lparr>c_Path := path, c_Kind := KindRoles, c_Format := format\<rparr>"

definition Builtin :: profile where
  "Builtin = \<lparr>pf_Claims = [roles_row [''roles''] FormatArray], pf_Roles = [], pf_IncludeNew = True, pf_Lands = LandsBoth\<rparr>"

definition Effective :: "profile option \<Rightarrow> profile option \<Rightarrow> profile" where
  "Effective app projectDefault =
     (case app of Some p \<Rightarrow> p | None \<Rightarrow> (case projectDefault of Some p \<Rightarrow> p | None \<Rightarrow> Builtin))"

definition sortedKeys :: "(string, 'v) gomap \<Rightarrow> string list" where
  "sortedKeys m = sort_by str_cmp (filter (\<lambda>k. trim_space k \<noteq> []) (map fst m))"

text \<open>The static values arrive encoded; a map has each key once.\<close>

definition FromFlat :: "string \<Rightarrow> string \<Rightarrow> (string, string) gomap \<Rightarrow> (string, string option) gomap \<Rightarrow> profile" where
  "FromFlat claimName format attrs statics =
     (let name = (if trim_space claimName = [] then ''roles'' else trim_space claimName);
          fmt = (if format = [] then FormatArray else format)
      in \<lparr>pf_Claims = [roles_row [name] fmt] @
            map (\<lambda>k. zero_claim\<lparr>c_Path := [k], c_Kind := KindAttribute, c_Source := the (map_of attrs k)\<rparr>) (sortedKeys attrs) @
            concat (map (\<lambda>k. case map_of statics k of
                Some (Some raw) \<Rightarrow> [zero_claim\<lparr>c_Path := [k], c_Kind := KindStatic, c_Value := raw\<rparr>]
              | _ \<Rightarrow> []) (sortedKeys statics)),
          pf_Roles = [], pf_IncludeNew = True, pf_Lands = LandsBoth\<rparr>)"

definition Identify :: "facts \<Rightarrow> identity \<Rightarrow> facts" where
  "Identify f i =
     (let f1 = (if id_Email i \<noteq> [] then f\<lparr>fa_Email := id_Email i\<rparr> else f);
          f2 = (if id_Username i \<noteq> [] then f1\<lparr>fa_Username := id_Username i\<rparr> else f1)
      in if id_Machine i then f2\<lparr>fa_GivenName := [], fa_FamilyName := [], fa_Name := [], fa_machine := True\<rparr>
         else if id_Human i then
           (let f3 = (if id_GivenName i \<noteq> [] then f2\<lparr>fa_GivenName := id_GivenName i\<rparr> else f2);
                f4 = (if id_FamilyName i \<noteq> [] then f3\<lparr>fa_FamilyName := id_FamilyName i\<rparr> else f3)
            in f4\<lparr>fa_Name := fa_GivenName f4 @ '' '' @ fa_FamilyName f4\<rparr>)
         else f2)"

section \<open>The words of an application\<close>

definition FormatRoles :: "string list \<Rightarrow> string \<Rightarrow> jval" where
  "FormatRoles roles format =
     (if format = FormatCSV then JText (join_with '','' roles)
      else if format = FormatSpaceDelimited then JText (join_with '' '' roles)
      else JList roles)"

definition LandsIn :: "profile \<Rightarrow> string \<Rightarrow> bool" where
  "LandsIn p func =
     (if func = ''function/preaccesstoken'' then pf_Lands p \<noteq> LandsUserinfo
      else if func = ''function/preuserinfo'' then pf_Lands p \<noteq> LandsAccessToken
      else True)"

definition word_of :: "claim_role_map \<Rightarrow> string" where
  "word_of m = (let as = trim_space (rm_As m) in if as \<noteq> [] then as else rm_Key m)"

definition add_word :: "string \<Rightarrow> string list \<Rightarrow> string list" where
  "add_word w out = (if w \<in> set out then out else out @ [w])"

definition Words :: "profile \<Rightarrow> string list \<Rightarrow> string list" where
  "Words p hs =
     (let out = fold (\<lambda>m out. if rm_Included m \<and> rm_Key m \<in> set hs then add_word (word_of m) out else out) (pf_Roles p) []
      in if pf_IncludeNew p
         then fold (\<lambda>r out. if r \<notin> rm_Key ` set (pf_Roles p) then add_word r out else out) hs out
         else out)"

definition role_of :: "profile \<Rightarrow> string \<Rightarrow> bool \<times> string" where
  "role_of p key =
     (case find (\<lambda>m. rm_Key m = key) (pf_Roles p) of
        Some m \<Rightarrow> (rm_Included m, word_of m)
      | None \<Rightarrow> (pf_IncludeNew p, key))"

definition RoleSet :: "string list \<Rightarrow> string list" where
  "RoleSet roles = remdups_adj (sort_by str_cmp roles)"

definition fromToken :: "string \<Rightarrow> bool" where
  "fromToken s \<longleftrightarrow> s \<in> set [''user_id'', ''project_id'', ''role_count'', ''given_name'', ''family_name'', ''name'', ''username'', ''email'']"

definition RolesOnly :: "profile \<Rightarrow> profile" where
  "RolesOnly p = p\<lparr>pf_Claims := filter (\<lambda>c. \<not> (c_Kind c = KindBundles \<or> c_Kind c = KindRoleEnds \<or>
       (c_Kind c = KindAttribute \<and> \<not> fromToken (c_Source c)))) (pf_Claims p)\<rparr>"

section \<open>The shape\<close>

definition attributeValue :: "string \<Rightarrow> facts \<Rightarrow> jval option" where
  "attributeValue source f =
     (let text = (\<lambda>s. if s \<noteq> [] then Some (JText s) else None);
          name = (\<lambda>s. if s \<noteq> [] \<or> fa_machine f then Some (JText s) else None)
      in if source = ''user_id'' then text (fa_UserID f)
         else if source = ''project_id'' then text (fa_ProjectID f)
         else if source = ''email'' then text (fa_Email f)
         else if source = ''name'' then name (fa_Name f)
         else if source = ''given_name'' then name (fa_GivenName f)
         else if source = ''family_name'' then name (fa_FamilyName f)
         else if source = ''username'' then text (fa_Username f)
         else if source = ''title'' then text (fa_Title f)
         else if source = ''team'' then text (fa_Team f)
         else if source = ''compiled_at'' then text (fa_CompiledAt f)
         else if source = ''role_count'' then Some (JInt (int (length (fa_Roles f))))
         else if source = ''is_service_account'' then Some (JBool (fa_IsServiceAccount f))
         else None)"

text \<open>A later date replaces an earlier one under the same word; ISO dates compare as text.\<close>

definition role_end :: "profile \<Rightarrow> facts \<Rightarrow> string \<Rightarrow> (string, string) gomap \<Rightarrow> (string, string) gomap" where
  "role_end p f r ends =
     (case map_of (fa_RoleEnds f) r of
        None \<Rightarrow> ends
      | Some date \<Rightarrow>
          (case role_of p r of (included, w) \<Rightarrow>
             if included \<and> (case map_of ends w of None \<Rightarrow> True | Some prev \<Rightarrow> str_cmp prev date < 0)
             then AList.update w date ends else ends))"

definition claim_value :: "profile \<Rightarrow> facts \<Rightarrow> claim \<Rightarrow> jval option" where
  "claim_value p f c =
     (if c_Kind c = KindRoles then Some (FormatRoles (Words p (fa_Roles f)) (c_Format c))
      else if c_Kind c = KindAttribute then attributeValue (c_Source c) f
      else if c_Kind c = KindStatic then (if c_Value c = [] then None else Some (JRaw (c_Value c)))
      else if c_Kind c = KindIfRole then Some (JBool (list_ex (\<lambda>r. r \<in> set (c_Roles c)) (fa_Roles f)))
      else if c_Kind c = KindBundles then Some (JList (fa_Bundles f))
      else if c_Kind c = KindRoleEnds then
        Some (JObj (map (\<lambda>(w, d). (w, JText d)) (fold (role_end p f) (fa_Roles f) [])))
      else None)"

fun RolesKey_from :: "string \<Rightarrow> claim list \<Rightarrow> string" where
  "RolesKey_from nested [] = nested"
| "RolesKey_from nested (c # cs) =
     (if c_Kind c \<noteq> KindRoles \<or> c_Path c = [] then RolesKey_from nested cs
      else if length (c_Path c) = 1 then hd (c_Path c)
      else RolesKey_from (if nested = [] then hd (c_Path c) else nested) cs)"

definition RolesKey :: "claim list \<Rightarrow> string" where
  "RolesKey cs = RolesKey_from [] cs"

definition keyLess :: "string \<Rightarrow> string \<Rightarrow> int" where
  "keyLess a b = (let c = str_cmp (to_lower a) (to_lower b) in if c \<noteq> 0 then c else str_cmp a b)"

fun path_cmp :: "string list \<Rightarrow> string list \<Rightarrow> int" where
  "path_cmp (x # xs) (y # ys) = (let c = keyLess x y in if c \<noteq> 0 then c else path_cmp xs ys)"
| "path_cmp xs ys = int (length xs) - int (length ys)"

definition claim_cmp :: "string \<Rightarrow> claim \<Rightarrow> claim \<Rightarrow> int" where
  "claim_cmp hero a b =
     (if c_Path a = [] \<or> c_Path b = [] then int (length (c_Path a)) - int (length (c_Path b))
      else if (hd (c_Path a) = hero) \<noteq> (hd (c_Path b) = hero) then (if hd (c_Path a) = hero then -1 else 1)
      else path_cmp (c_Path a) (c_Path b))"

definition ordered :: "claim list \<Rightarrow> claim list" where
  "ordered cs = sort_by (claim_cmp (RolesKey cs)) cs"

text \<open>
  \<open>place\<close> for a path that is not empty: walk or create the parents, and set the leaf unless
  it is taken. A parent that holds anything but an object ends the walk.
\<close>

fun place :: "jobject \<Rightarrow> string list \<Rightarrow> jval \<Rightarrow> jobject" where
  "place ob [] v = ob"
| "place ob [leaf] v = (case map_of ob leaf of Some _ \<Rightarrow> ob | None \<Rightarrow> AList.update leaf v ob)"
| "place ob (seg # s # path) v =
     (case map_of ob seg of
        None \<Rightarrow> AList.update seg (JObj (place [] (s # path) v)) ob
      | Some (JObj child) \<Rightarrow> AList.update seg (JObj (place child (s # path) v)) ob
      | Some _ \<Rightarrow> ob)"

definition shape_row :: "profile \<Rightarrow> facts \<Rightarrow> claim \<Rightarrow> jobject \<Rightarrow> jobject" where
  "shape_row p f c out =
     (case claim_value p f c of
        Some v \<Rightarrow> if c_Path c \<noteq> [] then place out (c_Path c) v else out
      | None \<Rightarrow> out)"

definition Shape :: "profile \<Rightarrow> facts \<Rightarrow> jobject" where
  "Shape p f = fold (shape_row p f) (ordered (pf_Claims p)) []"

section \<open>Checking a profile\<close>

definition Attributes :: "string list" where
  "Attributes = [''given_name'', ''family_name'', ''name'', ''username'', ''email'', ''is_service_account'',
     ''title'', ''team'', ''role_count'', ''compiled_at'', ''user_id'', ''project_id'']"

definition KnownAttribute :: "string \<Rightarrow> bool" where
  "KnownAttribute source = list_ex (\<lambda>a. a = source) Attributes"

definition normal_claim :: "claim \<Rightarrow> claim" where
  "normal_claim c =
     c\<lparr>c_Path := map trim_space (c_Path c),
       c_Format := (if c_Kind c = KindRoles \<and> c_Format c = [] then FormatArray else c_Format c)\<rparr>"

definition normal_role :: "claim_role_map \<Rightarrow> claim_role_map" where
  "normal_role m = m\<lparr>rm_Key := trim_space (rm_Key m), rm_As := trim_space (rm_As m)\<rparr>"

definition Normalize :: "profile \<Rightarrow> profile" where
  "Normalize p =
     \<lparr>pf_Claims = map normal_claim (pf_Claims p), pf_Roles = map normal_role (pf_Roles p),
      pf_IncludeNew = pf_IncludeNew p,
      pf_Lands = (if trim_space (pf_Lands p) = [] then LandsBoth else trim_space (pf_Lands p))\<rparr>"

datatype row_error = RowError int string

definition ticked :: "string \<Rightarrow> string" where
  "ticked s = CHR 96 # s @ [CHR 96]"

definition row_error_text :: "row_error \<Rightarrow> string" where
  "row_error_text e = (case e of RowError row msg \<Rightarrow> if row < 0 then msg else ''claim '' @ itoa (nat (row + 1)) @ '': '' @ msg)"

definition valid_key_char :: "string \<Rightarrow> nat \<Rightarrow> bool" where
  "valid_key_char key i =
     (let r = key ! i; n = (of_char r :: nat)
      in if 97 \<le> n \<and> n \<le> 122 \<or> 65 \<le> n \<and> n \<le> 90 \<or> 48 \<le> n \<and> n \<le> 57 then True
         else if r = CHR ''_'' \<or> r = CHR ''-'' \<or> r = CHR ''/'' \<or> r = CHR '':'' then True
         else if r = CHR ''.'' then i \<noteq> 0 \<and> i \<noteq> length key - 1
         else False)"

definition validClaimKey :: "string \<Rightarrow> bool" where
  "validClaimKey key \<longleftrightarrow> key \<noteq> [] \<and> length key \<le> 128 \<and> list_all (valid_key_char key) [0..<length key]"

definition ZitadelOwns :: "string \<Rightarrow> bool" where
  "ZitadelOwns key \<longleftrightarrow> key \<in> set [''sub'', ''aud'', ''iss'', ''exp'', ''iat'', ''nbf'', ''jti'', ''client_id''] \<or>
     has_prefix key ''urn:zitadel:iam''"

definition validateKind :: "claim \<Rightarrow> string" where
  "validateKind c =
     (if c_Kind c = KindRoles then
        (if c_Format c \<in> set [FormatArray, FormatCSV, FormatSpaceDelimited] then []
         else ''format must be array, csv or space_delimited (got '' @ quoted (c_Format c) @ '')'')
      else if c_Kind c = KindAttribute then
        (if KnownAttribute (c_Source c) then [] else ''unknown source '' @ quoted (c_Source c))
      else if c_Kind c = KindStatic then
        (let v = trim_space (c_Value c)
         in if v = [] \<or> \<not> json_valid v \<or> hd v = CHR ''{'' \<or> v = ''null''
            then ''a fixed value must be text, a number, yes/no or a list'' else [])
      else if c_Kind c = KindIfRole then (if c_Roles c = [] then ''choose at least one role'' else [])
      else if c_Kind c = KindBundles \<or> c_Kind c = KindRoleEnds then []
      else ''unknown kind '' @ quoted (c_Kind c))"

fun role_error :: "string list \<Rightarrow> claim_role_map list \<Rightarrow> row_error option" where
  "role_error seen [] = None"
| "role_error seen (m # ms) =
     (if rm_Key m = [] then Some (RowError (-1) ''a role needs its key'')
      else if rm_Key m \<in> set seen then Some (RowError (-1) (''role '' @ quoted (rm_Key m) @ '' is listed twice''))
      else if length (rm_As m) > 128 \<or> list_ex (\<lambda>ch. (of_char ch :: nat) < 32) (rm_As m)
      then Some (RowError (-1) (''the word for '' @ quoted (rm_Key m) @ '' is not a usable value''))
      else role_error (rm_Key m # seen) ms)"

definition one_claim_error :: "nat \<Rightarrow> claim \<Rightarrow> row_error option" where
  "one_claim_error i c =
     (if c_Path c = [] \<or> length (c_Path c) > 4 then Some (RowError (int i) ''a claim needs a name, at most 4 levels deep'')
      else case find (\<lambda>seg. \<not> validClaimKey seg) (c_Path c) of
             Some seg \<Rightarrow> Some (RowError (int i) (quoted seg @ '' is not a valid claim name''))
           | None \<Rightarrow>
               if ZitadelOwns (hd (c_Path c))
               then Some (RowError (int i) (ticked (hd (c_Path c)) @ '' is Zitadel'' @ [CHR 39] @
                      ''s own claim, so Zitadel drops this one. Name it something else, or put it inside an object.''))
               else if validateKind c \<noteq> [] then Some (RowError (int i) (validateKind c))
               else None)"

fun claim_error :: "nat \<Rightarrow> claim list \<Rightarrow> row_error option" where
  "claim_error i [] = None"
| "claim_error i (c # cs) = (case one_claim_error i c of Some e \<Rightarrow> Some e | None \<Rightarrow> claim_error (Suc i) cs)"

definition pathKey :: "string list \<Rightarrow> string" where
  "pathKey path = join_with [CHR 0x00] path"

definition pair_error :: "claim list \<Rightarrow> nat \<Rightarrow> nat \<Rightarrow> row_error option" where
  "pair_error cs i j =
     (let a = c_Path (cs ! i); b = c_Path (cs ! j)
      in if i = j then None
         else if pathKey a = pathKey b \<and> j < i
         then Some (RowError (int i) (ticked (join_with ('' '' @ [CHR 0xE2, CHR 0x80, CHR 0xBA] @ '' '') a) @ '' is already sent by another row''))
         else if has_prefix (pathKey b) (pathKey a @ [CHR 0x00])
         then Some (RowError (int i) (ticked (last a) @ '' is already an object here, holding '' @ ticked (b ! length a) @ ''.''))
         else None)"

definition first_pair_error :: "claim list \<Rightarrow> row_error option" where
  "first_pair_error cs =
     (case List.map_filter (\<lambda>(i, j). pair_error cs i j) (List.product [0..<length cs] [0..<length cs]) of
        [] \<Rightarrow> None | e # _ \<Rightarrow> Some e)"

definition Validate :: "profile \<Rightarrow> row_error option" where
  "Validate p =
     (if pf_Lands p \<notin> set [LandsBoth, LandsAccessToken, LandsUserinfo]
      then Some (RowError (-1) (''lands must be both, access_token or userinfo (got '' @ quoted (pf_Lands p) @ '')''))
      else case role_error [] (pf_Roles p) of
             Some e \<Rightarrow> Some e
           | None \<Rightarrow>
               (case claim_error 0 (pf_Claims p) of
                  Some e \<Rightarrow> Some e
                | None \<Rightarrow> first_pair_error (pf_Claims p)))"

section \<open>What a valid profile is\<close>

lemma pathKey_append: "a \<noteq> [] \<Longrightarrow> b \<noteq> [] \<Longrightarrow> pathKey (a @ b) = pathKey a @ [CHR 0x00] @ pathKey b"
proof (induction a)
  case (Cons x a)
  show ?case
  proof (cases a)
    case Nil
    with Cons.prems obtain y ys where "b = y # ys" by (cases b) auto
    with Nil show ?thesis by (simp add: pathKey_def)
  next
    case (Cons z zs)
    with Cons.IH Cons.prems show ?thesis by (simp add: pathKey_def)
  qed
qed simp

text \<open>Two paths are related when one leads to or through the other.\<close>

definition related :: "string list \<Rightarrow> string list \<Rightarrow> bool" where
  "related a b \<longleftrightarrow> prefix a b \<or> prefix b a"

lemma pair_error_related:
  assumes "i < length cs" "j < length cs" "i \<noteq> j" "c_Path (cs ! i) \<noteq> []" "c_Path (cs ! j) \<noteq> []"
    and "related (c_Path (cs ! i)) (c_Path (cs ! j))"
  shows "pair_error cs i j \<noteq> None \<or> pair_error cs j i \<noteq> None"
proof -
  have through: "pair_error cs k l \<noteq> None"
    if "strict_prefix (c_Path (cs ! k)) (c_Path (cs ! l))" "k \<noteq> l" "c_Path (cs ! k) \<noteq> []" for k l
  proof -
    from that(1) obtain b where "c_Path (cs ! l) = c_Path (cs ! k) @ b" "b \<noteq> []" by (auto elim: strict_prefixE')
    then have "has_prefix (pathKey (c_Path (cs ! l))) (pathKey (c_Path (cs ! k)) @ [CHR 0x00])"
      using pathKey_append [OF that(3)] by (simp add: has_prefix_def)
    with that(2) show ?thesis by (simp add: pair_error_def Let_def)
  qed
  show ?thesis
  proof (cases "c_Path (cs ! i) = c_Path (cs ! j)")
    case True
    with assms(3) show ?thesis by (cases "j < i") (auto simp: pair_error_def Let_def)
  next
    case False
    with assms(3-6) through show ?thesis unfolding related_def by (metis strict_prefix_def)
  qed
qed

definition paths_apart :: "claim list \<Rightarrow> bool" where
  "paths_apart cs \<longleftrightarrow> (\<forall>i < length cs. \<forall>j < length cs. i \<noteq> j \<longrightarrow> \<not> related (c_Path (cs ! i)) (c_Path (cs ! j)))"

lemma map_filter_empty: "List.map_filter f xs = [] \<longleftrightarrow> (\<forall>x \<in> set xs. f x = None)"
  by (induction xs) (auto simp: List.map_filter_simps split: option.splits)

lemma claim_error_None: "claim_error i cs = None \<Longrightarrow> c \<in> set cs \<Longrightarrow> c_Path c \<noteq> [] \<and> (\<exists>k. one_claim_error k c = None)"
  by (induction i cs rule: claim_error.induct) (auto simp: one_claim_error_def split: option.splits if_splits)

lemma Validate_paths:
  assumes "Validate p = None"
  shows "paths_apart (pf_Claims p)" and "\<And>c. c \<in> set (pf_Claims p) \<Longrightarrow> c_Path c \<noteq> []"
proof -
  from assms have e: "claim_error 0 (pf_Claims p) = None" and f: "first_pair_error (pf_Claims p) = None"
    by (auto simp: Validate_def split: if_splits option.splits)
  from claim_error_None [OF e] show ne: "c_Path c \<noteq> []" if "c \<in> set (pf_Claims p)" for c using that by blast
  from f have none: "pair_error (pf_Claims p) i j = None" if "i < length (pf_Claims p)" "j < length (pf_Claims p)" for i j
    using that by (auto simp: first_pair_error_def map_filter_empty split: list.splits)
  show "paths_apart (pf_Claims p)"
    unfolding paths_apart_def using pair_error_related none ne by (metis nth_mem)
qed


section \<open>Where a value lands\<close>

fun get_path :: "jobject \<Rightarrow> string list \<Rightarrow> jval option" where
  "get_path ob [] = None"
| "get_path ob [k] = map_of ob k"
| "get_path ob (k # s # path) =
     (case map_of ob k of Some (JObj child) \<Rightarrow> get_path child (s # path) | _ \<Rightarrow> None)"

text \<open>A path is free when its leaf is not set and its parents are objects or missing.\<close>

fun free_path :: "jobject \<Rightarrow> string list \<Rightarrow> bool" where
  "free_path ob [] = False"
| "free_path ob [k] = (map_of ob k = None)"
| "free_path ob (k # s # path) =
     (case map_of ob k of None \<Rightarrow> True | Some (JObj child) \<Rightarrow> free_path child (s # path) | Some _ \<Rightarrow> False)"

lemma free_empty [simp]: "path \<noteq> [] \<Longrightarrow> free_path [] path"
  by (cases "([] :: jobject, path)" rule: free_path.cases) auto

lemma get_empty [simp]: "get_path [] path = None"
  by (cases "([] :: jobject, path)" rule: get_path.cases) auto

lemma place_get: "free_path ob path \<Longrightarrow> get_path (place ob path v) path = Some v"
  by (induction ob path v rule: place.induct) (auto split: option.splits jval.splits)

lemma related_Cons [simp]: "related (x # xs) (y # ys) \<longleftrightarrow> x = y \<and> related xs ys"
  by (auto simp: related_def)

lemma related_Nil [simp]: "related [] ys" "related xs []"
  by (simp_all add: related_def)

lemma place_other: "\<not> related path q \<Longrightarrow> get_path (place ob path v) q = get_path ob q"
proof (induction ob path v arbitrary: q rule: place.induct)
  case (2 ob leaf v)
  then obtain k ks where "q = k # ks" "k \<noteq> leaf" by (cases q) auto
  then show ?case by (cases ks) (auto split: option.splits)
next
  case (3 ob seg s path v)
  then obtain k ks where q: "q = k # ks" by (cases q) auto
  show ?case
  proof (cases "k = seg")
    case False
    with q show ?thesis by (cases ks) (auto split: option.splits jval.splits)
  next
    case True
    with 3 q have r: "\<not> related (s # path) ks" by simp
    then obtain k2 ks2 where ks: "ks = k2 # ks2" by (cases ks) auto
    have "get_path (place [] (s # path) v) ks = None" if "map_of ob seg = None"
      using 3(1) [OF that r] by simp
    moreover have "get_path (place child (s # path) v) ks = get_path child ks" if "map_of ob seg = Some (JObj child)" for child
      using 3(2) [OF that _ r] by simp
    ultimately show ?thesis using q True ks by (auto split: option.splits jval.splits)
  qed
qed simp

lemma place_free: "\<not> related path q \<Longrightarrow> free_path ob q \<Longrightarrow> free_path (place ob path v) q"
proof (induction ob path v arbitrary: q rule: place.induct)
  case (2 ob leaf v)
  then obtain k ks where "q = k # ks" "k \<noteq> leaf" by (cases q) auto
  with 2 show ?case by (cases ks) (auto split: option.splits)
next
  case (3 ob seg s path v)
  then obtain k ks where q: "q = k # ks" by (cases q) auto
  show ?case
  proof (cases "k = seg")
    case False
    with q 3 show ?thesis by (cases ks) (auto split: option.splits jval.splits)
  next
    case True
    with 3 q have r: "\<not> related (s # path) ks" by simp
    then obtain k2 ks2 where ks: "ks = k2 # ks2" by (cases ks) auto
    have "free_path (place [] (s # path) v) ks" if "map_of ob seg = None"
      using 3(1) [OF that r] ks by simp
    moreover have "free_path (place child (s # path) v) ks" if "map_of ob seg = Some (JObj child)" "free_path child ks" for child
      using 3(2) [OF that(1) _ r that(2)] by simp
    ultimately show ?thesis using q True ks 3(4) by (auto split: option.splits jval.splits)
  qed
qed simp

lemma sorted_wrt_perm:
  assumes "\<And>a b. R a b = R b a" and "mset xs = mset ys" and "sorted_wrt R xs"
  shows "sorted_wrt R ys"
  using assms(2,3)
proof (induction xs arbitrary: ys)
  case (Cons x xs)
  from Cons.prems(1) obtain us vs where ys: "ys = us @ x # vs"
    by (metis in_set_conv_decomp list.set_intros(1) set_mset_mset)
  with Cons.prems(1) have m: "mset xs = mset (us @ vs)" by simp
  with Cons have "sorted_wrt R (us @ vs)" "\<forall>y \<in> set xs. R x y" by simp_all
  moreover have "set xs = set us \<union> set vs" using m by (metis set_append set_mset_mset)
  ultimately show ?case using assms(1) unfolding ys by (auto simp: sorted_wrt_append)
qed simp

abbreviation apart :: "claim \<Rightarrow> claim \<Rightarrow> bool" where
  "apart a b \<equiv> \<not> related (c_Path a) (c_Path b)"

lemma paths_apart_sorted: "paths_apart cs \<Longrightarrow> sorted_wrt apart cs"
  by (auto simp: paths_apart_def sorted_wrt_iff_nth_less)

lemma apart_sym: "apart a b = apart b a"
  by (auto simp: related_def)

lemma shape_rows_other:
  "(\<And>c. c \<in> set cs \<Longrightarrow> claim_value p f c \<noteq> None \<Longrightarrow> \<not> related (c_Path c) q) \<Longrightarrow>
   get_path (fold (shape_row p f) cs ob) q = get_path ob q"
proof (induction cs arbitrary: ob)
  case (Cons c cs)
  have "get_path (shape_row p f c ob) q = get_path ob q"
    using Cons.prems [of c] by (auto simp: shape_row_def place_other split: option.splits)
  with Cons show ?case by simp
qed simp

lemma shape_rows_get:
  assumes "sorted_wrt apart cs" and "\<And>c. c \<in> set cs \<Longrightarrow> free_path ob (c_Path c)" and "c \<in> set cs" and "claim_value p f c = Some v"
  shows "get_path (fold (shape_row p f) cs ob) (c_Path c) = Some v"
  using assms(1-3)
proof (induction cs arbitrary: ob)
  case (Cons d cs)
  have free: "free_path (shape_row p f d ob) (c_Path e)" if "e \<in> set cs" for e
    using that Cons.prems(1,2) by (auto simp: shape_row_def place_free split: option.splits)
  show ?case
  proof (cases "c \<in> set cs")
    case True
    with Cons.IH [OF _ free] Cons.prems(1) show ?thesis by simp
  next
    case False
    then have d: "d = c" using Cons.prems(3) by simp
    have ne: "c_Path c \<noteq> []" using Cons.prems(2) [of d] d by auto
    have "get_path (shape_row p f c ob) (c_Path c) = Some v"
      using Cons.prems(2) [of d] d assms(4) ne by (simp add: shape_row_def place_get)
    moreover have "get_path (fold (shape_row p f) cs (shape_row p f c ob)) (c_Path c) = get_path (shape_row p f c ob) (c_Path c)"
      using Cons.prems(1) d by (intro shape_rows_other) (metis apart_sym sorted_wrt.simps(2))
    ultimately show ?thesis using d by simp
  qed
qed simp

lemma Shape_rows:
  assumes apart: "sorted_wrt apart (pf_Claims p)" and paths: "\<And>c. c \<in> set (pf_Claims p) \<Longrightarrow> c_Path c \<noteq> []"
  shows "c \<in> set (pf_Claims p) \<Longrightarrow> claim_value p f c = Some v \<Longrightarrow> get_path (Shape p f) (c_Path c) = Some v"
    and "get_path (Shape p f) q = Some w \<Longrightarrow> \<exists>c \<in> set (pf_Claims p). claim_value p f c \<noteq> None \<and> related (c_Path c) q"
proof -
  let ?cs = "ordered (pf_Claims p)"
  have m: "mset ?cs = mset (pf_Claims p)" by (simp add: ordered_def)
  then have set: "set ?cs = set (pf_Claims p)" by (rule mset_eq_setD)
  have sorted: "sorted_wrt apart ?cs"
    by (rule sorted_wrt_perm [of apart "pf_Claims p"]) (rule apart_sym m [symmetric] apart)+
  show "get_path (Shape p f) (c_Path c) = Some v" if "c \<in> set (pf_Claims p)" "claim_value p f c = Some v"
    unfolding Shape_def using that paths set by (intro shape_rows_get [OF sorted]) auto
  show "\<exists>c \<in> set (pf_Claims p). claim_value p f c \<noteq> None \<and> related (c_Path c) q" if "get_path (Shape p f) q = Some w"
    using that shape_rows_other [of ?cs p f q "[]"] set unfolding Shape_def by force
qed

text \<open>
  C34. A token carries exactly what its shape says. For a profile the check accepts, every
  row that has a value is found at its own path with that value, whatever the other rows
  are and in whatever order they were saved: no row hides, overwrites or swallows another.
  And nothing is sent at a path no row with a value leads to or through.
\<close>

theorem Shape_delivers_every_row:
  assumes "Validate p = None"
  shows "(\<forall>c \<in> set (pf_Claims p). \<forall>v. claim_value p f c = Some v \<longrightarrow> get_path (Shape p f) (c_Path c) = Some v) \<and>
    (\<forall>q v. get_path (Shape p f) q = Some v \<longrightarrow>
       (\<exists>c \<in> set (pf_Claims p). claim_value p f c \<noteq> None \<and> related (c_Path c) q))"
  using Shape_rows [OF paths_apart_sorted [OF Validate_paths(1)] Validate_paths(2), OF assms assms] by blast

definition demo_profile :: profile where
  "demo_profile = \<lparr>pf_Claims = [roles_row [''custom_claims'', ''groups''] FormatArray,
      zero_claim\<lparr>c_Path := [''custom_claims'', ''name''], c_Kind := KindAttribute, c_Source := ''name''\<rparr>],
     pf_Roles = [\<lparr>rm_Key = ''laser'', rm_As = ''cutters'', rm_Included = True\<rparr>], pf_IncludeNew = False, pf_Lands = LandsBoth\<rparr>"

definition demo_facts :: facts where
  "demo_facts = \<lparr>fa_Roles = [''laser'', ''wood''], fa_UserID = ''u'', fa_ProjectID = ''p'', fa_Email = [], fa_Name = ''Ann'',
     fa_GivenName = [], fa_FamilyName = [], fa_Username = [], fa_Title = [], fa_Team = [], fa_CompiledAt = [], fa_Bundles = [],
     fa_RoleEnds = [], fa_IsServiceAccount = False, fa_machine = False\<rparr>"

lemma demo_profile_valid: "Validate demo_profile = None"
  by code_simp

theorem Shape_delivers_every_row_witness:
  "get_path (Shape demo_profile demo_facts) [''custom_claims'', ''groups''] = Some (JList [''cutters''])"
proof -
  let ?c = "roles_row [''custom_claims'', ''groups''] FormatArray"
  have "?c \<in> set (pf_Claims demo_profile)" "claim_value demo_profile demo_facts ?c = Some (JList [''cutters''])"
    by (simp_all add: demo_profile_def) code_simp
  with Shape_delivers_every_row [OF demo_profile_valid] have "get_path (Shape demo_profile demo_facts) (c_Path ?c) = Some (JList [''cutters''])"
    by blast
  then show ?thesis by (simp add: roles_row_def)
qed

end
