(* ===== verification/Claim_Diff.thy ===== *)
theory Claim_Diff
  imports Claims
begin

text \<open>
  What changes between two token shapes (\<^verbatim>\<open>backend/internal/claims/diff.go\<close>), the templates a
  shape starts from and which changes their applications act on
  (\<^verbatim>\<open>backend/internal/claims/templates.go\<close>).
\<close>

section \<open>The difference of two profiles\<close>

abbreviation ChangeAdd :: string where "ChangeAdd \<equiv> ''add''"
abbreviation ChangeRemove :: string where "ChangeRemove \<equiv> ''remove''"
abbreviation ChangeRename :: string where "ChangeRename \<equiv> ''rename''"
abbreviation ChangeRetype :: string where "ChangeRetype \<equiv> ''retype''"
abbreviation ChangeMove :: string where "ChangeMove \<equiv> ''move''"
abbreviation ChangeLands :: string where "ChangeLands \<equiv> ''lands''"
abbreviation ChangeIncludeNew :: string where "ChangeIncludeNew \<equiv> ''include_new''"

record claim_change =
  ch_Kind :: string
  ch_Role :: string
  ch_Path :: "string list"
  ch_NewPath :: "string list"
  ch_From :: string
  ch_To :: string

definition no_change :: claim_change where
  "no_change = \<lparr>ch_Kind = [], ch_Role = [], ch_Path = [], ch_NewPath = [], ch_From = [], ch_To = []\<rparr>"

definition sendsRoles :: "profile \<Rightarrow> bool" where
  "sendsRoles p = list_ex (\<lambda>c. c_Kind c = KindRoles \<or> c_Kind c = KindRoleEnds) (pf_Claims p)"

definition sameContent :: "claim \<Rightarrow> claim \<Rightarrow> bool" where
  "sameContent a b \<longleftrightarrow> c_Kind a = c_Kind b \<and> c_Source a = c_Source b \<and> c_Format a = c_Format b \<and>
     trim_space (c_Value a) = trim_space (c_Value b) \<and>
     join_with [CHR 0x00] (c_Roles a) = join_with [CHR 0x00] (c_Roles b)"

fun indexSame :: "claim list \<Rightarrow> claim \<Rightarrow> nat option" where
  "indexSame [] c = None"
| "indexSame (d # ds) c = (if sameContent d c then Some 0 else map_option Suc (indexSame ds c))"

definition describe :: "claim \<Rightarrow> string" where
  "describe c =
     (if c_Kind c = KindRoles then c_Kind c @ '':'' @ c_Format c
      else if c_Kind c = KindAttribute then c_Kind c @ '':'' @ c_Source c
      else if c_Kind c = KindStatic then c_Kind c @ '':'' @ trim_space (c_Value c)
      else c_Kind c)"

definition yesNo :: "bool \<Rightarrow> string" where
  "yesNo b = (if b then ''true'' else ''false'')"

text \<open>A later row under the same path replaces an earlier one.\<close>

definition by_path :: "claim list \<Rightarrow> string \<rightharpoonup> claim" where
  "by_path cs = map_of (rev (map (\<lambda>c. (pathKey (c_Path c), c)) cs))"

text \<open>The rows of the new profile in order, with the rows that have left and are not yet paired.\<close>

fun diff_rows :: "claim list \<Rightarrow> claim list \<Rightarrow> claim list \<Rightarrow> claim_change list \<times> claim list" where
  "diff_rows olds gone [] = ([], gone)"
| "diff_rows olds gone (c # cs) =
     (case by_path olds (pathKey (c_Path c)) of
        Some prev \<Rightarrow>
          (case diff_rows olds gone cs of (out, left) \<Rightarrow>
             (if sameContent prev c then out
              else no_change\<lparr>ch_Kind := ChangeRetype, ch_Path := c_Path c, ch_From := describe prev, ch_To := describe c\<rparr> # out, left))
      | None \<Rightarrow>
          (case indexSame gone c of
             Some i \<Rightarrow>
               (case diff_rows olds (take i gone @ drop (Suc i) gone) cs of (out, left) \<Rightarrow>
                  (no_change\<lparr>ch_Kind := ChangeMove, ch_Path := c_Path (gone ! i), ch_NewPath := c_Path c\<rparr> # out, left))
           | None \<Rightarrow>
               (case diff_rows olds gone cs of (out, left) \<Rightarrow>
                  (no_change\<lparr>ch_Kind := ChangeAdd, ch_Path := c_Path c, ch_To := describe c\<rparr> # out, left))))"

definition role_change :: "profile \<Rightarrow> profile \<Rightarrow> string \<Rightarrow> claim_change list" where
  "role_change old new k =
     (case (role_of old k, role_of new k) of
        ((oi, ow), (ni, nw)) \<Rightarrow>
          if oi \<and> ni \<and> ow \<noteq> nw then [no_change\<lparr>ch_Kind := ChangeRename, ch_Role := k, ch_From := ow, ch_To := nw\<rparr>]
          else if oi \<and> \<not> ni then [no_change\<lparr>ch_Kind := ChangeRemove, ch_Role := k, ch_From := ow\<rparr>]
          else if \<not> oi \<and> ni then [no_change\<lparr>ch_Kind := ChangeAdd, ch_Role := k, ch_To := nw\<rparr>]
          else [])"

definition diff_keys :: "profile \<Rightarrow> profile \<Rightarrow> string list" where
  "diff_keys old new = fold (\<lambda>m. add_word (rm_Key m)) (pf_Roles new @ pf_Roles old) []"

definition Diff_normal :: "profile \<Rightarrow> profile \<Rightarrow> claim_change list" where
  "Diff_normal old new =
     (let gone = filter (\<lambda>c. by_path (pf_Claims new) (pathKey (c_Path c)) = None) (pf_Claims old)
      in (case diff_rows (pf_Claims old) gone (pf_Claims new) of (rows, left) \<Rightarrow>
            rows @ map (\<lambda>c. no_change\<lparr>ch_Kind := ChangeRemove, ch_Path := c_Path c, ch_From := describe c\<rparr>) left) @
         (if sendsRoles old \<and> sendsRoles new then concat (map (role_change old new) (diff_keys old new)) else []) @
         (if pf_Lands old \<noteq> pf_Lands new
          then [no_change\<lparr>ch_Kind := ChangeLands, ch_From := pf_Lands old, ch_To := pf_Lands new\<rparr>] else []) @
         (if pf_IncludeNew old \<noteq> pf_IncludeNew new
          then [no_change\<lparr>ch_Kind := ChangeIncludeNew, ch_From := yesNo (pf_IncludeNew old), ch_To := yesNo (pf_IncludeNew new)\<rparr>] else []))"

definition Diff :: "profile \<Rightarrow> profile \<Rightarrow> claim_change list" where
  "Diff old new = Diff_normal (Normalize old) (Normalize new)"

definition ShapeOnly :: "claim_change list \<Rightarrow> claim_change list" where
  "ShapeOnly changes = filter (\<lambda>c. ch_Role c = []) changes"

section \<open>Templates\<close>

abbreviation BreaksRenameOrRemove :: string where "BreaksRenameOrRemove \<equiv> ''rename_or_remove''"
abbreviation BreaksAdminsUsers :: string where "BreaksAdminsUsers \<equiv> ''admins_users''"
abbreviation ReadsAccessToken :: string where "ReadsAccessToken \<equiv> ''access_token''"
abbreviation ReadsIDToken :: string where "ReadsIDToken \<equiv> ''id_token''"
abbreviation ReadsUserinfo :: string where "ReadsUserinfo \<equiv> ''userinfo''"

definition ReachedBy :: "string \<Rightarrow> bool \<Rightarrow> bool \<Rightarrow> (string, bool) gomap" where
  "ReachedBy lands jwtAccessToken idTokenUserinfo =
     [(ReadsAccessToken, lands \<noteq> LandsUserinfo \<and> jwtAccessToken),
      (ReadsIDToken, lands \<noteq> LandsAccessToken \<and> idTokenUserinfo),
      (ReadsUserinfo, lands \<noteq> LandsAccessToken)]"

definition BreaksNever :: string where
  [simp]: "BreaksNever = []"

record claim_template =
  tp_ID :: string
  tp_Version :: int
  tp_Name :: string
  tp_Description :: string
  tp_Profile :: profile
  tp_Reads :: string
  tp_Breaks :: string
  tp_match :: string

definition groups :: "string list \<Rightarrow> claim list" where
  "groups path = [roles_row path FormatArray]"

definition supabaseWhich :: string where
  "supabaseWhich = ''Which one? A '' @ ticked ''custom:'' @ '' provider is the custom OIDC one. '' @
     ticked ''GOTRUE_EXTERNAL_KEYCLOAK_*'' @ '' settings mean the Keycloak one.''"

definition template_profile :: "claim list \<Rightarrow> bool \<Rightarrow> string \<Rightarrow> profile" where
  "template_profile cs include lands = \<lparr>pf_Claims = cs, pf_Roles = [], pf_IncludeNew = include, pf_Lands = lands\<rparr>"

definition templates :: "claim_template list" where
  "templates =
    [\<lparr>tp_ID = ''netbird'', tp_Version = 1, tp_Name = ''NetBird'', tp_Description = [],
      tp_Profile = template_profile (groups [''groups'']) False LandsBoth,
      tp_Reads = ReadsAccessToken, tp_Breaks = BreaksRenameOrRemove, tp_match = ''netbird''\<rparr>,
     \<lparr>tp_ID = ''gitlab'', tp_Version = 1, tp_Name = ''GitLab'', tp_Description = [],
      tp_Profile = template_profile (groups [''groups'']) True LandsUserinfo,
      tp_Reads = ReadsUserinfo, tp_Breaks = BreaksRenameOrRemove, tp_match = ''gitlab''\<rparr>,
     \<lparr>tp_ID = ''supabase-oidc'', tp_Version = 1, tp_Name = ''Supabase, custom OIDC provider'', tp_Description = supabaseWhich,
      tp_Profile = template_profile (groups [''custom_claims'', ''groups'']) True LandsUserinfo,
      tp_Reads = ReadsIDToken, tp_Breaks = BreaksRenameOrRemove, tp_match = ''supabase''\<rparr>,
     \<lparr>tp_ID = ''supabase-keycloak'', tp_Version = 1, tp_Name = ''Supabase, Keycloak provider'', tp_Description = supabaseWhich,
      tp_Profile = template_profile (groups [''groups'']) True LandsUserinfo,
      tp_Reads = ReadsUserinfo, tp_Breaks = BreaksRenameOrRemove, tp_match = []\<rparr>,
     \<lparr>tp_ID = ''home-assistant'', tp_Version = 1, tp_Name = ''Home Assistant'', tp_Description = [],
      tp_Profile = template_profile (groups [''groups'']) True LandsUserinfo,
      tp_Reads = ReadsIDToken, tp_Breaks = BreaksAdminsUsers, tp_match = ''home assistant''\<rparr>,
     \<lparr>tp_ID = ''sign-in-only'', tp_Version = 1, tp_Name = ''Sign-in only'',
      tp_Description = ''For Vaultwarden, Kan and Navidrome. Who may sign in is Zitadel'' @ [CHR 39] @ ''s role check.'',
      tp_Profile = template_profile [] False LandsBoth, tp_Reads = [], tp_Breaks = BreaksNever, tp_match = []\<rparr>,
     \<lparr>tp_ID = ''custom'', tp_Version = 1, tp_Name = ''Custom'',
      tp_Description = ''Every role, in Syndra'' @ [CHR 39] @
        ''s words. For in-house apps: SmartDB, Community Slicer, Inventory, Audio-Dash, Printer Config, Syndra.'',
      tp_Profile = Builtin, tp_Reads = [], tp_Breaks = BreaksNever, tp_match = []\<rparr>]"

definition FindTemplate :: "string \<Rightarrow> claim_template option" where
  "FindTemplate ident = find (\<lambda>t. tp_ID t = ident) templates"

definition Suggest :: "string \<Rightarrow> claim_template option" where
  "Suggest appName = find (\<lambda>t. tp_match t \<noteq> [] \<and> sublist (tp_match t) (to_lower appName)) templates"

definition breaks :: "claim_template \<Rightarrow> claim_change \<Rightarrow> bool" where
  "breaks t c =
     (if tp_Breaks t = BreaksNever then False
      else if ch_Role c = [] then ch_Kind c \<in> set [ChangeRemove, ChangeMove, ChangeRetype, ChangeLands]
      else if ch_Kind c \<noteq> ChangeRename \<and> ch_Kind c \<noteq> ChangeRemove then False
      else if tp_Breaks t = BreaksAdminsUsers then ch_From c = ''admins'' \<or> ch_From c = ''users''
      else True)"

definition Breaking :: "claim_template \<Rightarrow> claim_change list \<Rightarrow> claim_change list" where
  "Breaking t changes = filter (breaks t) changes"

definition ActionsV1 :: profile where
  "ActionsV1 =
     \<lparr>pf_Claims =
        [roles_row [''groups''] FormatArray,
         roles_row [''custom_claims'', ''groups''] FormatArray,
         zero_claim\<lparr>c_Path := [''custom_claims'', ''given_name''], c_Kind := KindAttribute, c_Source := ''given_name''\<rparr>,
         zero_claim\<lparr>c_Path := [''custom_claims'', ''family_name''], c_Kind := KindAttribute, c_Source := ''family_name''\<rparr>,
         zero_claim\<lparr>c_Path := [''custom_claims'', ''name''], c_Kind := KindAttribute, c_Source := ''name''\<rparr>],
      pf_Roles = [], pf_IncludeNew = True, pf_Lands = LandsBoth\<rparr>"

text \<open>Every shape the catalog offers is one the editor accepts, and so is the one existing apps were seeded with.\<close>

lemma templates_valid: "list_all (\<lambda>t. Validate (Normalize (tp_Profile t)) = None) templates"
  by code_simp

lemma ActionsV1_valid: "Validate ActionsV1 = None" "Normalize ActionsV1 = ActionsV1"
  by code_simp+

section \<open>Rows and their paths\<close>

lemma join_with_Cons: "join_with sep (x # xs) = x @ (if xs = [] then [] else sep @ join_with sep xs)"
  by (cases xs) auto

lemma join_with_inj:
  assumes "\<forall>x \<in> set xs. z \<notin> set x" "\<forall>y \<in> set ys. z \<notin> set y" "xs \<noteq> []" "ys \<noteq> []" "join_with [z] xs = join_with [z] ys"
  shows "xs = ys"
  using assms
proof (induction xs arbitrary: ys)
  case (Cons x xs)
  then obtain y ys' where ys: "ys = y # ys'" by (cases ys) auto
  let ?word = "takeWhile (\<lambda>c. c \<noteq> z)"
  have word: "?word (join_with [z] (w # ws)) = w" if "z \<notin> set w" for w ws
    using that by (auto simp: join_with_Cons takeWhile_append)
  have "?word (join_with [z] (x # xs)) = x" "?word (join_with [z] (y # ys')) = y"
    by (rule word, use Cons.prems ys in simp)+
  with Cons.prems(5) ys have x: "x = y" by simp
  have rest: "(if xs = [] then [] else z # join_with [z] xs) = (if ys' = [] then [] else z # join_with [z] ys')"
    using Cons.prems(5) unfolding ys x join_with_Cons by (cases "xs = []"; cases "ys' = []") simp_all
  then have "xs = [] \<longleftrightarrow> ys' = []" by (cases "xs = []"; cases "ys' = []") simp_all
  then show ?case
  proof (cases "xs = []")
    case False
    with rest \<open>xs = [] \<longleftrightarrow> ys' = []\<close> have "join_with [z] xs = join_with [z] ys'" "ys' \<noteq> []" by simp_all
    with Cons.IH [of ys'] Cons.prems(1,2) False x ys show ?thesis by simp
  qed (simp add: x ys)
qed simp

lemma valid_key_no_nul:
  assumes "validClaimKey key"
  shows "CHR 0x00 \<notin> set key"
proof
  assume "CHR 0x00 \<in> set key"
  then obtain i where i: "i < length key" "key ! i = CHR 0x00" by (auto simp: in_set_conv_nth)
  with assms have "valid_key_char key i" by (simp add: validClaimKey_def list_all_iff)
  with i show False by (simp add: valid_key_char_def)
qed

lemma one_claim_error_no_nul: "one_claim_error i c = None \<Longrightarrow> seg \<in> set (c_Path c) \<Longrightarrow> CHR 0x00 \<notin> set seg"
  by (auto simp: one_claim_error_def find_None_iff valid_key_no_nul split: if_splits option.splits)

lemma Validate_pathKey_inj:
  assumes "Validate p = None" "Validate q = None" "c \<in> set (pf_Claims p)" "d \<in> set (pf_Claims q)"
    and "pathKey (c_Path c) = pathKey (c_Path d)"
  shows "c_Path c = c_Path d"
proof -
  have ok: "c_Path c \<noteq> [] \<and> (\<forall>seg \<in> set (c_Path c). CHR 0x00 \<notin> set seg)" if "Validate p = None" "c \<in> set (pf_Claims p)" for p c
  proof -
    from that(1) have "claim_error 0 (pf_Claims p) = None" by (auto simp: Validate_def split: if_splits option.splits)
    from claim_error_None [OF this that(2)] show ?thesis by (auto dest: one_claim_error_no_nul)
  qed
  from ok [OF assms(1,3)] ok [OF assms(2,4)] assms(5) show ?thesis
    unfolding pathKey_def by (intro join_with_inj [of _ "CHR 0x00"]) auto
qed

lemma by_path_None: "by_path cs k = None \<longleftrightarrow> (\<forall>c \<in> set cs. pathKey (c_Path c) \<noteq> k)"
  by (force simp: by_path_def map_of_eq_None_iff)

lemma by_path_Some: "by_path cs k = Some c \<Longrightarrow> c \<in> set cs \<and> pathKey (c_Path c) = k"
  by (auto simp: by_path_def dest!: map_of_SomeD)

lemma Validate_by_path:
  assumes "Validate p = None" "c \<in> set (pf_Claims p)"
  shows "by_path (pf_Claims p) (pathKey (c_Path c)) = Some c"
proof (cases "by_path (pf_Claims p) (pathKey (c_Path c))")
  case (Some d)
  from by_path_Some [OF this] have d: "d \<in> set (pf_Claims p)" "c_Path d = c_Path c"
    using Validate_pathKey_inj [OF assms(1,1) _ assms(2)] by auto
  have "sorted_wrt apart (pf_Claims p)" by (rule paths_apart_sorted [OF Validate_paths(1) [OF assms(1)]])
  with d assms(2) have "d = c" by (auto simp: in_set_conv_nth sorted_wrt_iff_nth_less related_def) (metis linorder_neqE_nat prefix_order.refl)
  with Some show ?thesis by simp
qed (use assms(2) by_path_None in blast)

lemma diff_rows_silent:
  "fst (diff_rows olds gone cs) = [] \<longleftrightarrow> (\<forall>c \<in> set cs. \<exists>d. by_path olds (pathKey (c_Path c)) = Some d \<and> sameContent d c)"
  by (induction olds gone cs rule: diff_rows.induct) (auto split: option.splits prod.splits)

lemma diff_rows_left: "fst (diff_rows olds gone cs) = [] \<Longrightarrow> snd (diff_rows olds gone cs) = gone"
  by (induction olds gone cs rule: diff_rows.induct) (auto split: option.splits prod.splits if_splits)

definition same_rows :: "profile \<Rightarrow> profile \<Rightarrow> bool" where
  "same_rows old new \<longleftrightarrow>
     (\<forall>c \<in> set (pf_Claims new). \<exists>d \<in> set (pf_Claims old). c_Path d = c_Path c \<and> sameContent d c) \<and>
     (\<forall>d \<in> set (pf_Claims old). \<exists>c \<in> set (pf_Claims new). c_Path d = c_Path c)"

section \<open>Words and roles\<close>

text \<open>The word a role held is sent under, if it is sent at all.\<close>

definition sent_as :: "profile \<Rightarrow> string \<Rightarrow> string option" where
  "sent_as p k = (case role_of p k of (included, w) \<Rightarrow> if included then Some w else None)"

lemma set_add_word [simp]: "set (add_word w out) = insert w (set out)"
  by (auto simp: add_word_def)

lemma set_fold_add: "set (fold (\<lambda>x out. if P x then add_word (g x) out else out) xs out) = set out \<union> g ` {x \<in> set xs. P x}"
  by (induction xs arbitrary: out) auto

lemma diff_keys_set: "set (diff_keys old new) = rm_Key ` (set (pf_Roles old) \<union> set (pf_Roles new))"
  using set_fold_add [of "\<lambda>_. True" rm_Key "pf_Roles new @ pf_Roles old" "[]"] by (auto simp: diff_keys_def)

lemma role_error_distinct: "role_error seen ms = None \<Longrightarrow> distinct (map rm_Key ms) \<and> set seen \<inter> rm_Key ` set ms = {}"
  by (induction seen ms rule: role_error.induct) (auto split: if_splits)

lemma Validate_roles_distinct: "Validate p = None \<Longrightarrow> distinct (map rm_Key (pf_Roles p))"
  using role_error_distinct by (fastforce simp: Validate_def split: if_splits option.splits)

lemma find_distinct_key:
  assumes "distinct (map f xs)" "x \<in> set xs"
  shows "find (\<lambda>y. f y = f x) xs = Some x"
  using assms by (induction xs) auto

lemma sent_as_listed: "distinct (map rm_Key (pf_Roles p)) \<Longrightarrow> m \<in> set (pf_Roles p) \<Longrightarrow>
    sent_as p (rm_Key m) = (if rm_Included m then Some (word_of m) else None)"
  by (simp add: sent_as_def role_of_def find_distinct_key)

lemma sent_as_unlisted: "k \<notin> rm_Key ` set (pf_Roles p) \<Longrightarrow> sent_as p k = (if pf_IncludeNew p then Some k else None)"
  by (auto simp: sent_as_def role_of_def find_None_iff split: option.splits dest!: find_Some_iff [THEN iffD1])

lemma sent_as_Some:
  assumes "distinct (map rm_Key (pf_Roles p))"
  shows "sent_as p k = Some w \<longleftrightarrow> (if k \<in> rm_Key ` set (pf_Roles p) then \<exists>m \<in> set (pf_Roles p). rm_Key m = k \<and> rm_Included m \<and> w = word_of m
     else pf_IncludeNew p \<and> w = k)"
proof (cases "k \<in> rm_Key ` set (pf_Roles p)")
  case True
  then obtain m where m: "m \<in> set (pf_Roles p)" "rm_Key m = k" by auto
  have "m' = m" if "m' \<in> set (pf_Roles p)" "rm_Key m' = k" for m'
    using that m assms inj_onD [of rm_Key "set (pf_Roles p)" m' m] by (simp add: distinct_map)
  then have "(\<exists>m' \<in> set (pf_Roles p). rm_Key m' = k \<and> rm_Included m' \<and> w = word_of m') \<longleftrightarrow> rm_Included m \<and> w = word_of m"
    using m by metis
  with m True sent_as_listed [OF assms m(1)] show ?thesis by auto
qed (auto simp: sent_as_unlisted)

lemma Words_set:
  assumes "distinct (map rm_Key (pf_Roles p))"
  shows "set (Words p hs) = {w. \<exists>k \<in> set hs. sent_as p k = Some w}" (is "?L = ?R")
proof -
  have L: "?L = word_of ` {m \<in> set (pf_Roles p). rm_Included m \<and> rm_Key m \<in> set hs} \<union>
      (if pf_IncludeNew p then {k \<in> set hs. k \<notin> rm_Key ` set (pf_Roles p)} else {})"
    using set_fold_add [of "\<lambda>r. r \<notin> rm_Key ` set (pf_Roles p)" "\<lambda>r. r"] set_fold_add [of "\<lambda>m. rm_Included m \<and> rm_Key m \<in> set hs" word_of]
    by (simp add: Words_def Let_def)
  show ?thesis
    unfolding L by (auto simp: sent_as_Some [OF assms] split: if_splits)
qed

lemma role_change_silent: "role_change old new k = [] \<longleftrightarrow> sent_as old k = sent_as new k"
  by (auto simp: role_change_def sent_as_def split: prod.splits)

lemma sent_as_by_Words:
  assumes "distinct (map rm_Key (pf_Roles p))" "distinct (map rm_Key (pf_Roles q))"
  shows "(\<forall>k. sent_as p k = sent_as q k) \<longleftrightarrow> (\<forall>hs. set (Words p hs) = set (Words q hs))"
proof
  assume R: "\<forall>hs. set (Words p hs) = set (Words q hs)"
  have "sent_as p k = Some w \<longleftrightarrow> sent_as q k = Some w" for k w
    using R [rule_format, of "[k]"] by (auto simp: Words_set assms)
  then show "\<forall>k. sent_as p k = sent_as q k" by (metis not_Some_eq)
qed (simp add: Words_set assms)

lemma diff_keys_cover:
  assumes "pf_IncludeNew old = pf_IncludeNew new" "k \<notin> set (diff_keys old new)"
  shows "sent_as old k = sent_as new k"
  using assms by (simp add: diff_keys_set image_Un sent_as_unlisted)

lemma same_rows_sendsRoles: "same_rows old new \<Longrightarrow> sendsRoles new \<Longrightarrow> sendsRoles old"
  by (auto simp: same_rows_def sendsRoles_def list_ex_iff sameContent_def) metis+

section \<open>Nothing is said when nothing changes, and only then\<close>

lemma Diff_normal_rows:
  assumes "Validate old = None" "Validate new = None"
  defines "gone \<equiv> filter (\<lambda>c. by_path (pf_Claims new) (pathKey (c_Path c)) = None) (pf_Claims old)"
  shows "fst (diff_rows (pf_Claims old) gone (pf_Claims new)) = [] \<and> gone = [] \<longleftrightarrow> same_rows old new"
proof -
  have here: "by_path (pf_Claims old) (pathKey (c_Path c)) = Some d \<longleftrightarrow> d \<in> set (pf_Claims old) \<and> c_Path d = c_Path c"
    if "c \<in> set (pf_Claims new)" for c d
    using that by_path_Some Validate_pathKey_inj [OF assms(1,2)] Validate_by_path [OF assms(1)] by metis
  have "gone = [] \<longleftrightarrow> (\<forall>d \<in> set (pf_Claims old). \<exists>c \<in> set (pf_Claims new). c_Path d = c_Path c)"
    unfolding gone_def filter_empty_conv by_path_None using Validate_pathKey_inj [OF assms(1,2)] by metis
  then show ?thesis
    unfolding diff_rows_silent same_rows_def using here by auto
qed

text \<open>
  The one comparison behind the preview, the save summary and the history says nothing
  exactly when the two shapes send the same: the same rows under the same paths with the
  same content, the same words for every set of roles a person may hold (while roles are
  sent at all), landing in the same place, with the same rule for roles added later. So no
  change is silent, and nothing is reported that no application could see.
\<close>

theorem Diff_silent_iff:
  assumes "Validate (Normalize old) = None" and "Validate (Normalize new) = None"
  shows "Diff old new = [] \<longleftrightarrow>
    same_rows (Normalize old) (Normalize new) \<and>
    (sendsRoles (Normalize new) \<longrightarrow> (\<forall>hs. set (Words (Normalize old) hs) = set (Words (Normalize new) hs))) \<and>
    pf_Lands (Normalize old) = pf_Lands (Normalize new) \<and> pf_IncludeNew old = pf_IncludeNew new"
proof -
  define p q where "p = Normalize old" and "q = Normalize new"
  let ?gone = "filter (\<lambda>c. by_path (pf_Claims q) (pathKey (c_Path c)) = None) (pf_Claims p)"
  let ?rows = "diff_rows (pf_Claims p) ?gone (pf_Claims q)"
  have valid: "Validate p = None" "Validate q = None" using assms by (simp_all add: p_def q_def)
  note dist = valid [THEN Validate_roles_distinct]
  have inc: "pf_IncludeNew old = pf_IncludeNew p" "pf_IncludeNew new = pf_IncludeNew q"
    by (simp_all add: p_def q_def Normalize_def)
  have "fst ?rows = [] \<and> snd ?rows = [] \<longleftrightarrow> same_rows p q"
    using diff_rows_left Diff_normal_rows [OF valid] by metis
  moreover have "Diff old new = [] \<longleftrightarrow> (fst ?rows = [] \<and> snd ?rows = []) \<and>
      (sendsRoles p \<and> sendsRoles q \<longrightarrow> (\<forall>k \<in> set (diff_keys p q). sent_as p k = sent_as q k)) \<and>
      pf_Lands p = pf_Lands q \<and> pf_IncludeNew p = pf_IncludeNew q"
    by (auto simp: Diff_def Diff_normal_def Let_def role_change_silent p_def [symmetric] q_def [symmetric] split: prod.splits)
  moreover have "(\<forall>k \<in> set (diff_keys p q). sent_as p k = sent_as q k) \<longleftrightarrow> (\<forall>hs. set (Words p hs) = set (Words q hs))"
    if "pf_IncludeNew p = pf_IncludeNew q"
    using diff_keys_cover [OF that] sent_as_by_Words [OF dist] by metis
  ultimately show ?thesis
    unfolding inc p_def [symmetric] q_def [symmetric] using same_rows_sendsRoles by auto
qed

definition demo_renamed :: profile where
  "demo_renamed = demo_profile\<lparr>pf_Roles := [\<lparr>rm_Key = ''laser'', rm_As = ''lasers'', rm_Included = True\<rparr>]\<rparr>"

lemma demo_shapes_valid: "Validate (Normalize demo_profile) = None" "Validate (Normalize demo_renamed) = None"
  by code_simp+

theorem Diff_silent_iff_witness:
  "Diff demo_profile demo_profile = [] \<and> Diff demo_profile demo_renamed \<noteq> [] \<and>
   same_rows (Normalize demo_profile) (Normalize demo_profile)"
proof -
  have "Diff demo_profile demo_profile = []" "Diff demo_profile demo_renamed \<noteq> []" by code_simp+
  with Diff_silent_iff [OF demo_shapes_valid(1,1)] show ?thesis by simp
qed

section \<open>What is not breaking takes nothing away\<close>

lemma diff_rows_only_adds:
  assumes "\<forall>x \<in> set (fst (diff_rows olds gone cs)). ch_Kind x = ChangeAdd"
  shows "snd (diff_rows olds gone cs) = gone \<and>
    (\<forall>c \<in> set cs. \<forall>d. by_path olds (pathKey (c_Path c)) = Some d \<longrightarrow> sameContent d c)"
  using assms
proof (induction olds gone cs rule: diff_rows.induct)
  case (2 olds gone c cs)
  show ?case
  proof (cases "by_path olds (pathKey (c_Path c))")
    case (Some prev)
    with "2.prems" have same: "sameContent prev c" and rest: "\<forall>x \<in> set (fst (diff_rows olds gone cs)). ch_Kind x = ChangeAdd"
      by (cases "sameContent prev c"; simp add: case_prod_unfold no_change_def)+
    from "2.IH"(3) [OF Some rest] Some same show ?thesis by (simp add: case_prod_unfold)
  next
    case None
    show ?thesis
    proof (cases "indexSame gone c")
      case None
      with "2.prems" \<open>by_path olds (pathKey (c_Path c)) = None\<close> have "\<forall>x \<in> set (fst (diff_rows olds gone cs)). ch_Kind x = ChangeAdd"
        by (simp add: case_prod_unfold)
      from "2.IH"(1) [OF \<open>by_path olds (pathKey (c_Path c)) = None\<close> None this] show ?thesis
        using None \<open>by_path olds (pathKey (c_Path c)) = None\<close> by (simp add: case_prod_unfold)
    next
      case (Some i)
      with "2.prems" \<open>by_path olds (pathKey (c_Path c)) = None\<close> show ?thesis by (simp add: case_prod_unfold no_change_def)
    qed
  qed
qed simp

lemma diff_rows_kinds: "x \<in> set (fst (diff_rows olds gone cs)) \<Longrightarrow>
    ch_Role x = [] \<and> ch_Kind x \<in> {ChangeAdd, ChangeMove, ChangeRetype}"
  by (induction olds gone cs rule: diff_rows.induct)
    (auto simp: no_change_def case_prod_unfold simp del: list.inject char.inject split: option.splits if_splits)

lemma Diff_normal_parts:
  defines "gone p q \<equiv> filter (\<lambda>c. by_path (pf_Claims q) (pathKey (c_Path c)) = None) (pf_Claims p)"
  shows "x \<in> set (fst (diff_rows (pf_Claims p) (gone p q) (pf_Claims q))) \<Longrightarrow> x \<in> set (Diff_normal p q)"
    and "d \<in> set (snd (diff_rows (pf_Claims p) (gone p q) (pf_Claims q))) \<Longrightarrow>
      no_change\<lparr>ch_Kind := ChangeRemove, ch_Path := c_Path d, ch_From := describe d\<rparr> \<in> set (Diff_normal p q)"
    and "pf_Lands p \<noteq> pf_Lands q \<Longrightarrow>
      no_change\<lparr>ch_Kind := ChangeLands, ch_From := pf_Lands p, ch_To := pf_Lands q\<rparr> \<in> set (Diff_normal p q)"
    and "sendsRoles p \<Longrightarrow> sendsRoles q \<Longrightarrow> k \<in> set (diff_keys p q) \<Longrightarrow> x \<in> set (role_change p q k) \<Longrightarrow> x \<in> set (Diff_normal p q)"
  by (simp_all add: Diff_normal_def Let_def case_prod_unfold gone_def) auto

lemma breaks_claim_change:
  "tp_Breaks t = BreaksRenameOrRemove \<Longrightarrow> ch_Role x = [] \<Longrightarrow> ch_Kind x \<in> {ChangeRemove, ChangeMove, ChangeRetype, ChangeLands} \<Longrightarrow> breaks t x"
  by (auto simp: breaks_def)

lemma role_change_not_breaking:
  assumes "\<forall>x \<in> set (role_change old new k). ch_Kind x \<notin> {ChangeRename, ChangeRemove}" "sent_as old k = Some w"
  shows "sent_as new k = Some w"
  using assms
  by (cases "role_of old k", cases "role_of new k") (simp add: role_change_def sent_as_def no_change_def split: if_splits)

lemma Validate_role_keys: "Validate p = None \<Longrightarrow> m \<in> set (pf_Roles p) \<Longrightarrow> rm_Key m \<noteq> []"
proof -
  have "role_error seen ms = None \<Longrightarrow> m \<in> set ms \<Longrightarrow> rm_Key m \<noteq> []" for seen ms
    by (induction seen ms rule: role_error.induct) (auto split: if_splits)
  then show "Validate p = None \<Longrightarrow> m \<in> set (pf_Roles p) \<Longrightarrow> rm_Key m \<noteq> []"
    by (auto simp: Validate_def split: if_splits option.splits)
qed

lemma breaks_role_change:
  "tp_Breaks t = BreaksRenameOrRemove \<Longrightarrow> ch_Role x \<noteq> [] \<Longrightarrow> ch_Kind x = ChangeRename \<or> ch_Kind x = ChangeRemove \<Longrightarrow> breaks t x"
  by (auto simp: breaks_def)

lemma role_change_role: "x \<in> set (role_change old new k) \<Longrightarrow> ch_Role x = k"
  by (simp add: role_change_def no_change_def case_prod_unfold split: if_splits)

lemma words_kept:
  assumes "Validate p = None" "Validate q = None" "tp_Breaks t = BreaksRenameOrRemove" and quiet: "\<And>x. x \<in> set (Diff_normal p q) \<Longrightarrow> \<not> breaks t x"
    and sends: "sendsRoles p" "sendsRoles q" and inc: "pf_IncludeNew p \<longrightarrow> pf_IncludeNew q"
  shows "set (Words p hs) \<subseteq> set (Words q hs)"
proof -
  have "sent_as q k = Some w" if w: "sent_as p k = Some w" for k w
  proof (cases "k \<in> set (diff_keys p q)")
    case True
    then have "k \<noteq> []" using Validate_role_keys assms(1,2) by (auto simp: diff_keys_set)
    then have "\<forall>x \<in> set (role_change p q k). ch_Kind x \<notin> {ChangeRename, ChangeRemove}"
      using quiet [OF Diff_normal_parts(4) [OF sends True]] breaks_role_change [OF assms(3)] role_change_role by blast
    then show ?thesis using role_change_not_breaking w by blast
  next
    case False
    then show ?thesis using w inc by (auto simp: diff_keys_set image_Un sent_as_unlisted split: if_splits)
  qed
  then show ?thesis using assms(1,2) [THEN Validate_roles_distinct] by (auto simp: Words_set)
qed


definition demo_grown :: profile where
  "demo_grown = demo_profile\<lparr>pf_Roles := [\<lparr>rm_Key = ''laser'', rm_As = ''cutters'', rm_Included = True\<rparr>,
     \<lparr>rm_Key = ''wood'', rm_As = [], rm_Included = True\<rparr>]\<rparr>"


end
