(* ===== verification/Lru.thy ===== *)
theory Lru
  imports Claims
begin

text \<open>
  The last-known-good copy of a person's facts (\<^verbatim>\<open>backend/internal/claimserve/lru.go\<close>): a map
  from keys to the elements of a doubly linked list, most recently served first, bounded by
  a capacity. An element of \<open>container/list\<close> is an identity with a value: the model gives
  every element a number that is never used again, the list is in order from front to back,
  and the map holds numbers. Every operation runs under the one mutex, so it is one step.

  The contract of such a cache is the locale \<open>recency_cache\<close>: what each operation does to the
  entries in order of use. Its client lemma, that an entry stays until as many other keys
  were served as the cache holds, is proved there once and reaches the linked list through
  the interpretation at the end.
\<close>

section \<open>The cache\<close>

record lkgEntry =
  lk_key :: string
  lk_facts :: facts
  lk_at :: int

type_synonym element = "nat \<times> lkgEntry"

record lru =
  lru_cap :: int
  lru_order :: "element list"
  lru_items :: "(string, nat) gomap"
  lru_fresh :: nat

definition newLRU :: "int \<Rightarrow> lru" where
  "newLRU capacity = \<lparr>lru_cap = capacity, lru_order = [], lru_items = [], lru_fresh = 0\<rparr>"

definition set_value :: "nat \<Rightarrow> lkgEntry \<Rightarrow> element list \<Rightarrow> element list" where
  "set_value e v order = map (\<lambda>x. if fst x = e then (e, v) else x) order"

definition MoveToFront :: "nat \<Rightarrow> element list \<Rightarrow> element list" where
  "MoveToFront e order = filter (\<lambda>x. fst x = e) order @ filter (\<lambda>x. fst x \<noteq> e) order"

definition Remove :: "nat \<Rightarrow> element list \<Rightarrow> element list" where
  "Remove e order = filter (\<lambda>x. fst x \<noteq> e) order"

definition lru_put :: "string \<Rightarrow> facts \<Rightarrow> int \<Rightarrow> lru \<Rightarrow> lru" where
  "lru_put key f at c =
     (let v = \<lparr>lk_key = key, lk_facts = f, lk_at = at\<rparr>
      in case map_of (lru_items c) key of
           Some e \<Rightarrow> c\<lparr>lru_order := MoveToFront e (set_value e v (lru_order c))\<rparr>
         | None \<Rightarrow>
             let e = lru_fresh c;
                 c1 = c\<lparr>lru_order := (e, v) # lru_order c, lru_items := AList.update key e (lru_items c), lru_fresh := Suc e\<rparr>
             in if int (length (lru_order c1)) > lru_cap c1
                then let final = last (lru_order c1)
                     in c1\<lparr>lru_order := Remove (fst final) (lru_order c1), lru_items := AList.delete (lk_key (snd final)) (lru_items c1)\<rparr>
                else c1)"

definition lru_get :: "string \<Rightarrow> lru \<Rightarrow> (facts \<times> int) option \<times> lru" where
  "lru_get key c =
     (case map_of (lru_items c) key of
        None \<Rightarrow> (None, c)
      | Some e \<Rightarrow>
          (map_option (\<lambda>v. (lk_facts v, lk_at v)) (map_of (lru_order c) e), c\<lparr>lru_order := MoveToFront e (lru_order c)\<rparr>))"

definition lru_drop :: "string \<Rightarrow> lru \<Rightarrow> lru" where
  "lru_drop key c =
     (case map_of (lru_items c) key of
        Some e \<Rightarrow> c\<lparr>lru_order := Remove e (lru_order c), lru_items := AList.delete key (lru_items c)\<rparr>
      | None \<Rightarrow> c)"

definition lru_len :: "lru \<Rightarrow> int" where
  "lru_len c = int (length (lru_order c))"

section \<open>The contract\<close>

definition others :: "string \<Rightarrow> lkgEntry list \<Rightarrow> lkgEntry list" where
  "others k es = filter (\<lambda>e. lk_key e \<noteq> k) es"

definition entry_for :: "string \<Rightarrow> lkgEntry list \<Rightarrow> lkgEntry option" where
  "entry_for k es = find (\<lambda>e. lk_key e = k) es"

lemma entry_for_distinct: "distinct (map lk_key es) \<Longrightarrow> e \<in> set es \<Longrightarrow> entry_for (lk_key e) es = Some e"
  by (induction es) (auto simp: entry_for_def)

lemma entry_for_None: "entry_for k es = None \<longleftrightarrow> k \<notin> lk_key ` set es"
  by (auto simp: entry_for_def find_None_iff)

lemma others_behind: "lk_key e \<noteq> k \<Longrightarrow> others k (pre @ e # post) = others k pre @ e # others k post"
  by (simp add: others_def)

lemma others_subset: "lk_key ` set es \<subseteq> T \<Longrightarrow> lk_key ` set (others k es) \<subseteq> T"
  by (auto simp: others_def)

lemma take_past: "take (Suc (length us) + Suc n) (x # us @ e # vs) = (x # us) @ e # take n vs"
  by simp

datatype lru_op = Put string facts int | Get string | Drop string

text \<open>Whether an operation sets what is held under a key, and what a key was last set to.\<close>

fun sets_key :: "string \<Rightarrow> lru_op \<Rightarrow> bool" where
  "sets_key k (Put k' _ _) = (k' = k)"
| "sets_key k (Get _) = False"
| "sets_key k (Drop k') = (k' = k)"

fun op_key :: "lru_op \<Rightarrow> string" where
  "op_key (Put k _ _) = k"
| "op_key (Get k) = k"
| "op_key (Drop k) = k"

definition last_set :: "string \<Rightarrow> lru_op list \<Rightarrow> lru_op option" where
  "last_set k ops = find (sets_key k) (rev ops)"

text \<open>The other keys put or read.\<close>

definition served_besides :: "string \<Rightarrow> lru_op list \<Rightarrow> string list" where
  "served_besides k ops = filter (\<lambda>k'. k' \<noteq> k) (map op_key ops)"

lemma served_op:
  assumes "\<not> list_ex (sets_key k) ops" "op \<in> set ops"
  shows "case op of Put k' _ _ \<Rightarrow> k' \<noteq> k \<and> k' \<in> set (served_besides k ops) | Get k' \<Rightarrow> k' = k \<or> k' \<in> set (served_besides k ops) | Drop k' \<Rightarrow> k' \<noteq> k"
proof -
  have "\<not> sets_key k op" "op_key op = k \<or> op_key op \<in> set (served_besides k ops)"
    using assms by (auto simp: list_ex_iff served_besides_def)
  then show ?thesis by (auto split: lru_op.splits)
qed

locale recency_cache =
  fixes good :: "'s \<Rightarrow> bool" and entries :: "'s \<Rightarrow> lkgEntry list" and room :: "'s \<Rightarrow> nat"
    and put :: "string \<Rightarrow> facts \<Rightarrow> int \<Rightarrow> 's \<Rightarrow> 's" and get :: "string \<Rightarrow> 's \<Rightarrow> (facts \<times> int) option \<times> 's" and drop_key :: "string \<Rightarrow> 's \<Rightarrow> 's"
  assumes one_each: "good s \<Longrightarrow> distinct (map lk_key (entries s))"
    and bounded: "good s \<Longrightarrow> length (entries s) \<le> room s"
    and put_good: "good s \<Longrightarrow> good (put k f t s) \<and> room (put k f t s) = room s"
    and put_entries: "good s \<Longrightarrow> entries (put k f t s) = take (room s) (\<lparr>lk_key = k, lk_facts = f, lk_at = t\<rparr> # others k (entries s))"
    and get_good: "good s \<Longrightarrow> good (snd (get k s)) \<and> room (snd (get k s)) = room s"
    and get_value: "good s \<Longrightarrow> fst (get k s) = map_option (\<lambda>e. (lk_facts e, lk_at e)) (entry_for k (entries s))"
    and get_entries: "good s \<Longrightarrow> entries (snd (get k s)) =
          (case entry_for k (entries s) of None \<Rightarrow> entries s | Some e \<Rightarrow> e # others k (entries s))"
    and drop_good: "good s \<Longrightarrow> good (drop_key k s) \<and> room (drop_key k s) = room s"
    and drop_entries: "good s \<Longrightarrow> entries (drop_key k s) = others k (entries s)"
begin

fun apply_op :: "lru_op \<Rightarrow> 's \<Rightarrow> 's" where
  "apply_op (Put k f t) s = put k f t s"
| "apply_op (Get k) s = snd (get k s)"
| "apply_op (Drop k) s = drop_key k s"

lemma apply_good: "good s \<Longrightarrow> good (apply_op op s) \<and> room (apply_op op s) = room s"
  by (cases op) (simp_all add: put_good get_good drop_good)

lemma run_good: "good s \<Longrightarrow> good (fold apply_op ops s) \<and> room (fold apply_op ops s) = room s"
  by (induction ops arbitrary: s) (simp_all add: apply_good)

text \<open>Before an entry stand only keys of a set: those served since.\<close>

definition behind :: "string set \<Rightarrow> lkgEntry \<Rightarrow> 's \<Rightarrow> bool" where
  "behind T e s \<longleftrightarrow> (\<exists>pre post. entries s = pre @ e # post \<and> lk_key ` set pre \<subseteq> T)"

lemma put_behind: "good s \<Longrightarrow> 0 < room s \<Longrightarrow> behind {} \<lparr>lk_key = k, lk_facts = f, lk_at = t\<rparr> (put k f t s)"
  by (cases "room s") (auto simp: behind_def put_entries)

lemma behind_get: "good s \<Longrightarrow> behind T e s \<Longrightarrow> fst (get (lk_key e) s) = Some (lk_facts e, lk_at e)"
  using entry_for_distinct [OF one_each, of s e] by (auto simp: behind_def get_value)

lemma behindI: "entries s = pre @ e # post \<Longrightarrow> lk_key ` set pre \<subseteq> T \<Longrightarrow> behind T e s"
  by (auto simp: behind_def)

lemma behind_length:
  assumes "good s" "entries s = pre @ e # post" "lk_key ` set pre \<subseteq> T" "finite T"
  shows "length (others k pre) \<le> card (T - {k})"
proof -
  have "distinct (map lk_key (others k pre))" using one_each [OF assms(1)] assms(2) by (simp add: others_def distinct_map_filter)
  then have "length (others k pre) = card (lk_key ` set (others k pre))" by (metis distinct_card length_map list.set_map)
  also have "\<dots> \<le> card (T - {k})" using assms(3,4) by (intro card_mono) (auto simp: others_def)
  finally show ?thesis .
qed

lemma apply_behind:
  assumes good: "good s" and b: "behind T e s" and T: "finite T"
    and op: "case op of Put k _ _ \<Rightarrow> k \<noteq> lk_key e \<and> k \<in> T | Get k \<Rightarrow> k = lk_key e \<or> k \<in> T | Drop k \<Rightarrow> k \<noteq> lk_key e"
    and small: "card T < room s"
  shows "behind T e (apply_op op s)"
proof -
  obtain pre post where es: "entries s = pre @ e # post" and pre: "lk_key ` set pre \<subseteq> T" using b by (auto simp: behind_def)
  show ?thesis
  proof (cases op)
    case (Put k f t)
    then have k: "lk_key e \<noteq> k" "k \<in> T" using op by auto
    have "length (others k pre) \<le> card (T - {k})" by (rule behind_length [OF good es pre T])
    then have "Suc (length (others k pre)) < room s" using small card_Diff1_less [OF T k(2)] by linarith
    then obtain n where "room s = Suc (length (others k pre)) + Suc n" by (auto simp: less_iff_Suc_add)
    then have "entries (put k f t s) = (\<lparr>lk_key = k, lk_facts = f, lk_at = t\<rparr> # others k pre) @ e # take n (others k post)"
      unfolding put_entries [OF good] es others_behind [OF k(1)] by (simp only: take_past)
    with others_subset [OF pre, of k] k(2) show ?thesis
      unfolding Put apply_op.simps by (intro behindI [of _ "\<lparr>lk_key = k, lk_facts = f, lk_at = t\<rparr> # others k pre"]) auto
  next
    case (Drop k)
    with op es have "entries (apply_op op s) = others k pre @ e # others k post" by (simp add: drop_entries [OF good] others_behind)
    with others_subset [OF pre] show ?thesis by (intro behindI) auto
  next
    case (Get k)
    show ?thesis
    proof (cases "entry_for k (entries s)")
      case None
      with es pre show ?thesis by (intro behindI [of _ pre e post]) (simp_all add: Get get_entries [OF good])
    next
      case (Some x)
      then have at: "entries (apply_op op s) = x # others k (entries s)" by (simp add: Get get_entries [OF good])
      show ?thesis
      proof (cases "k = lk_key e")
        case True
        with Some es have "x = e" using entry_for_distinct [OF one_each [OF good], of e] by simp
        with at show ?thesis by (intro behindI [of _ "[]"]) auto
      next
        case False
        have "lk_key x = k" using Some by (auto simp: entry_for_def find_Some_iff)
        with False op Get others_subset [OF pre] at es show ?thesis
          by (intro behindI [of _ "x # others k pre" e "others k post"]) (auto simp: others_behind)
      qed
    qed
  qed
qed

text \<open>The client's lemma: an entry outlives fewer other keys than there is room for.\<close>

lemma run_behind:
  assumes "good s" "behind T e s" "finite T" "card T < room s"
    and "\<And>op. op \<in> set ops \<Longrightarrow> case op of Put k _ _ \<Rightarrow> k \<noteq> lk_key e \<and> k \<in> T | Get k \<Rightarrow> k = lk_key e \<or> k \<in> T | Drop k \<Rightarrow> k \<noteq> lk_key e"
  shows "behind T e (fold apply_op ops s)"
  using assms(1,2,4,5)
proof (induction ops arbitrary: s)
  case (Cons op ops)
  have "behind T e (apply_op op s)" using Cons.prems by (intro apply_behind assms(3)) auto
  with Cons apply_good [of s op] show ?case by simp
qed simp

text \<open>What is held under a key is what it was last set to.\<close>

lemma held_is_last_set:
  assumes "good s" "entries s = []" "e \<in> set (entries (fold apply_op ops s))"
  shows "last_set (lk_key e) ops = Some (Put (lk_key e) (lk_facts e) (lk_at e))"
  using assms(3)
proof (induction ops rule: rev_induct)
  case (snoc op ops)
  let ?s = "fold apply_op ops s"
  have good: "good ?s" using run_good [OF assms(1)] by blast
  have old: "e \<in> set (entries ?s) \<and> \<not> sets_key (lk_key e) op \<or> op = Put (lk_key e) (lk_facts e) (lk_at e)"
  proof (cases op)
    case (Put k f t)
    with snoc.prems have "e \<in> insert \<lparr>lk_key = k, lk_facts = f, lk_at = t\<rparr> (set (others k (entries ?s)))"
      by (auto simp: put_entries [OF good] dest: in_set_takeD)
    with Put show ?thesis by (auto simp: others_def)
  next
    case (Get k)
    with snoc.prems show ?thesis
      by (auto simp: get_entries [OF good] others_def entry_for_def find_Some_iff split: option.splits)
  next
    case (Drop k)
    with snoc.prems show ?thesis by (auto simp: drop_entries [OF good] others_def)
  qed
  then show ?case
  proof
    assume "e \<in> set (entries ?s) \<and> \<not> sets_key (lk_key e) op"
    with snoc.IH show ?thesis by (simp add: last_set_def)
  qed (simp add: last_set_def)
qed (simp add: assms(2))

end

section \<open>The linked list keeps the contract\<close>

text \<open>The map and the list agree, element by element.\<close>

definition linked :: "lru \<Rightarrow> bool" where
  "linked c \<longleftrightarrow> distinct (map fst (lru_order c)) \<and> (\<forall>x \<in> set (lru_order c). fst x < lru_fresh c) \<and>
     distinct (map (lk_key \<circ> snd) (lru_order c)) \<and>
     (\<forall>k e. map_of (lru_items c) k = Some e \<longleftrightarrow> (e, k) \<in> (\<lambda>x. (fst x, lk_key (snd x))) ` set (lru_order c))"

definition lru_good :: "lru \<Rightarrow> bool" where
  "lru_good c \<longleftrightarrow> linked c \<and> 0 \<le> lru_cap c \<and> lru_len c \<le> lru_cap c"

definition lru_entries :: "lru \<Rightarrow> lkgEntry list" where
  "lru_entries c = map snd (lru_order c)"

definition lru_room :: "lru \<Rightarrow> nat" where
  "lru_room c = nat (lru_cap c)"

lemma newLRU_good: "0 \<le> capacity \<Longrightarrow> lru_good (newLRU capacity)"
  by (simp add: lru_good_def linked_def newLRU_def lru_len_def)

lemma linked_None:
  assumes "linked c" "map_of (lru_items c) k = None"
  shows "k \<notin> lk_key ` snd ` set (lru_order c)"
proof
  assume "k \<in> lk_key ` snd ` set (lru_order c)"
  then obtain x where "x \<in> set (lru_order c)" "k = lk_key (snd x)" by auto
  then have "(fst x, k) \<in> (\<lambda>x. (fst x, lk_key (snd x))) ` set (lru_order c)" by simp
  then have "map_of (lru_items c) k = Some (fst x)" using assms(1) by (simp add: linked_def)
  with assms(2) show False by simp
qed

lemma linked_split:
  assumes "linked c" "map_of (lru_items c) k = Some e"
  obtains us v vs where "lru_order c = us @ (e, v) # vs" "lk_key v = k"
proof -
  from assms obtain v where "(e, v) \<in> set (lru_order c)" "lk_key v = k" by (fastforce simp: linked_def)
  then show ?thesis using that by (auto simp: in_set_conv_decomp)
qed

lemma linked_apart:
  assumes "linked c" "lru_order c = us @ (e, v) # vs"
  shows "\<forall>x \<in> set us \<union> set vs. fst x \<noteq> e \<and> lk_key (snd x) \<noteq> lk_key v"
  using assms by (fastforce simp: linked_def image_iff)

lemma element_ops:
  assumes "\<forall>x \<in> set us \<union> set vs. fst x \<noteq> e \<and> lk_key (snd x) \<noteq> lk_key v"
  shows "set_value e v' (us @ (e, v) # vs) = us @ (e, v') # vs"
    and "MoveToFront e (us @ (e, w) # vs) = (e, w) # us @ vs"
    and "Remove e (us @ (e, v) # vs) = us @ vs"
    and "map_of (us @ (e, v) # vs) e = Some v"
    and "entry_for (lk_key v) (map snd (us @ (e, v) # vs)) = Some v"
    and "others (lk_key v) (map snd (us @ (e, v) # vs)) = map snd (us @ vs)"
proof -
  have "map (\<lambda>x. if fst x = e then (e, v') else x) ys = ys \<and> filter (\<lambda>x. fst x = e) ys = [] \<and> filter (\<lambda>x. fst x \<noteq> e) ys = ys \<and>
      map_of ys e = None \<and> others (lk_key v) (map snd ys) = map snd ys"
    if "set ys \<subseteq> set us \<union> set vs" for ys
    using that assms by (induction ys) (auto simp: others_def)
  from this [of us] this [of vs]
  show "set_value e v' (us @ (e, v) # vs) = us @ (e, v') # vs" "MoveToFront e (us @ (e, w) # vs) = (e, w) # us @ vs"
    "Remove e (us @ (e, v) # vs) = us @ vs" "map_of (us @ (e, v) # vs) e = Some v"
    "others (lk_key v) (map snd (us @ (e, v) # vs)) = map snd (us @ vs)"
    by (auto simp: set_value_def MoveToFront_def Remove_def map_add_def others_def)
  show "entry_for (lk_key v) (map snd (us @ (e, v) # vs)) = Some v"
    using assms by (induction us) (auto simp: entry_for_def)
qed

text \<open>To the front, with another value under the same key; and out of the list and the map.\<close>

lemma linked_front:
  assumes "linked c" "lru_order c = us @ (e, v) # vs" "lk_key w = lk_key v"
  shows "linked (c\<lparr>lru_order := (e, w) # us @ vs\<rparr>)"
  using assms unfolding linked_def by (auto simp: image_Un)

lemma linked_without:
  assumes "linked c" "lru_order c = us @ (e, v) # vs"
  shows "linked (c\<lparr>lru_order := us @ vs, lru_items := AList.delete (lk_key v) (lru_items c)\<rparr>)"
  using linked_apart [OF assms] assms unfolding linked_def by (auto simp: image_Un)

lemma linked_new:
  assumes "linked c" "map_of (lru_items c) (lk_key v) = None"
  shows "linked (c\<lparr>lru_order := (lru_fresh c, v) # lru_order c, lru_items := AList.update (lk_key v) (lru_fresh c) (lru_items c), lru_fresh := Suc (lru_fresh c)\<rparr>)"
proof -
  let ?g = "\<lambda>x :: element. (fst x, lk_key (snd x))"
  have absent: "lk_key v \<notin> (lk_key \<circ> snd) ` set (lru_order c)" using linked_None [OF assms] by (simp add: image_comp)
  then have "(e, lk_key v) \<notin> ?g ` set (lru_order c)" for e by force
  moreover have "lru_fresh c \<notin> fst ` set (lru_order c)" using assms(1) by (auto simp: linked_def)
  ultimately show ?thesis using absent assms(1) unfolding linked_def by (auto simp: less_Suc_eq)
qed

lemma lru_get_law:
  assumes "lru_good c"
  shows "lru_good (snd (lru_get k c)) \<and> lru_room (snd (lru_get k c)) = lru_room c \<and>
    fst (lru_get k c) = map_option (\<lambda>e. (lk_facts e, lk_at e)) (entry_for k (lru_entries c)) \<and>
    lru_entries (snd (lru_get k c)) = (case entry_for k (lru_entries c) of None \<Rightarrow> lru_entries c | Some e \<Rightarrow> e # others k (lru_entries c))"
proof (cases "map_of (lru_items c) k")
  case None
  with assms linked_None have "entry_for k (lru_entries c) = None" by (auto simp: lru_good_def entry_for_None lru_entries_def)
  with None assms show ?thesis by (simp add: lru_get_def)
next
  case (Some e)
  have L: "linked c" using assms by (simp add: lru_good_def)
  obtain us v vs where split: "lru_order c = us @ (e, v) # vs" and k: "lk_key v = k" by (rule linked_split [OF L Some])
  note at = element_ops [OF linked_apart [OF L split], folded split, unfolded k]
  from linked_front [OF L split refl] Some at split assms show ?thesis
    by (simp add: lru_get_def lru_good_def lru_len_def lru_room_def lru_entries_def)
qed

lemma lru_drop_law:
  assumes "lru_good c"
  shows "lru_good (lru_drop k c) \<and> lru_room (lru_drop k c) = lru_room c \<and> lru_entries (lru_drop k c) = others k (lru_entries c)"
proof (cases "map_of (lru_items c) k")
  case None
  with assms linked_None have "others k (lru_entries c) = lru_entries c" by (force simp: lru_good_def others_def lru_entries_def filter_id_conv)
  with None assms show ?thesis by (simp add: lru_drop_def)
next
  case (Some e)
  have L: "linked c" using assms by (simp add: lru_good_def)
  obtain us v vs where split: "lru_order c = us @ (e, v) # vs" and k: "lk_key v = k" by (rule linked_split [OF L Some])
  note at = element_ops [OF linked_apart [OF L split], folded split, unfolded k]
  from linked_without [OF L split, unfolded k] Some at split assms show ?thesis
    by (simp add: lru_drop_def lru_good_def lru_len_def lru_room_def lru_entries_def)
qed

lemma Remove_last:
  assumes "distinct (map fst xs)" "xs \<noteq> []"
  shows "Remove (fst (last xs)) xs = butlast xs"
proof -
  obtain us x where xs: "xs = us @ [x]" using assms(2) by (metis append_butlast_last_id)
  with assms(1) have "\<forall>y \<in> set us. fst y \<noteq> fst x" by (auto simp: image_iff)
  then show ?thesis by (simp add: xs Remove_def filter_id_conv)
qed

lemma lru_put_law:
  assumes "lru_good c"
  shows "lru_good (lru_put k f t c) \<and> lru_room (lru_put k f t c) = lru_room c \<and>
    lru_entries (lru_put k f t c) = take (lru_room c) (\<lparr>lk_key = k, lk_facts = f, lk_at = t\<rparr> # others k (lru_entries c))"
proof -
  let ?v = "\<lparr>lk_key = k, lk_facts = f, lk_at = t\<rparr>"
  have L: "linked c" and size: "length (lru_order c) \<le> lru_room c" "0 \<le> lru_cap c"
    using assms by (auto simp: lru_good_def lru_len_def lru_room_def)
  show ?thesis
  proof (cases "map_of (lru_items c) k")
    case (Some e)
    obtain us v vs where split: "lru_order c = us @ (e, v) # vs" and k: "lk_key v = k" by (rule linked_split [OF L Some])
    note at = element_ops [OF linked_apart [OF L split], folded split, unfolded k]
    have "linked (c\<lparr>lru_order := (e, ?v) # us @ vs\<rparr>)" using linked_front [OF L split] k by simp
    with Some at element_ops(2) [OF linked_apart [OF L split], of ?v] split assms size show ?thesis
      by (simp add: lru_put_def Let_def lru_good_def lru_len_def lru_room_def lru_entries_def)
  next
    case None
    define c1 where "c1 = c\<lparr>lru_order := (lru_fresh c, ?v) # lru_order c, lru_items := AList.update k (lru_fresh c) (lru_items c), lru_fresh := Suc (lru_fresh c)\<rparr>"
    have L1: "linked c1" using linked_new [OF L, of ?v] None by (simp add: c1_def)
    have same: "others k (lru_entries c) = lru_entries c"
      using linked_None [OF L None] by (force simp: others_def lru_entries_def filter_id_conv)
    have es: "lru_entries c1 = ?v # others k (lru_entries c)" by (simp add: same, simp add: lru_entries_def c1_def)
    show ?thesis
    proof (cases "int (length (lru_order c1)) > lru_cap c1")
      case False
      then have "lru_put k f t c = c1" using None by (simp add: lru_put_def Let_def c1_def)
      moreover have "length (lru_entries c1) \<le> lru_room c" using False by (simp add: lru_entries_def lru_room_def c1_def)
      ultimately show ?thesis using L1 es False size by (simp add: lru_good_def lru_len_def lru_room_def c1_def)
    next
      case True
      define x where "x = last (lru_order c1)"
      have ne: "lru_order c1 \<noteq> []" by (simp add: c1_def)
      have split: "lru_order c1 = butlast (lru_order c1) @ (fst x, snd x) # []" using ne by (simp add: x_def)
      have dist: "distinct (map fst (lru_order c1))" using L1 by (simp add: linked_def)
      have out: "lru_put k f t c = c1\<lparr>lru_order := butlast (lru_order c1), lru_items := AList.delete (lk_key (snd x)) (lru_items c1)\<rparr>" (is "_ = ?c2")
        using None True Remove_last [OF dist ne] by (simp add: lru_put_def Let_def c1_def x_def)
      have "linked ?c2" using linked_without [OF L1 split] by simp
      moreover have n: "length (lru_order c1) = Suc (lru_room c)" "lru_cap c1 = lru_cap c" using True size by (simp_all add: c1_def lru_room_def)
      then have "lru_entries ?c2 = take (lru_room c) (lru_entries c1)"
        by (simp add: butlast_conv_take lru_entries_def take_map)
      ultimately show ?thesis
        unfolding out es [symmetric] using n size by (simp add: lru_good_def lru_len_def lru_room_def)
    qed
  qed
qed

interpretation lkg: recency_cache lru_good lru_entries lru_room lru_put lru_get lru_drop
  using lru_put_law lru_get_law lru_drop_law
  by unfold_locales (auto simp: lru_good_def linked_def lru_entries_def lru_room_def lru_len_def)

fun lru_apply :: "lru_op \<Rightarrow> lru \<Rightarrow> lru" where
  "lru_apply (Put k f t) c = lru_put k f t c"
| "lru_apply (Get k) c = snd (lru_get k c)"
| "lru_apply (Drop k) c = lru_drop k c"

lemma lru_apply_is: "lru_apply = lkg.apply_op"
proof (intro ext)
  show "lru_apply op c = lkg.apply_op op c" for op c by (cases op) simp_all
qed

lemma lru_run_good:
  assumes "0 \<le> capacity"
  shows "lru_good (fold lru_apply ops (newLRU capacity))" "lru_cap (fold lru_apply ops (newLRU capacity)) = capacity"
    "lru_room (fold lru_apply ops (newLRU capacity)) = nat capacity"
proof -
  show g: "lru_good (fold lru_apply ops (newLRU capacity))" and r: "lru_room (fold lru_apply ops (newLRU capacity)) = nat capacity"
    using lkg.run_good [OF newLRU_good [OF assms], of ops] by (auto simp: lru_apply_is lru_room_def newLRU_def)
  from g r assms show "lru_cap (fold lru_apply ops (newLRU capacity)) = capacity"
    by (auto simp: lru_good_def lru_room_def)
qed

lemma lru_get_last_set:
  assumes "0 \<le> capacity" and got: "fst (lru_get k (fold lru_apply ops (newLRU capacity))) = Some (f, t)"
  shows "last_set k ops = Some (Put k f t)"
proof -
  let ?c = "fold lru_apply ops (newLRU capacity)"
  have empty: "lru_entries (newLRU capacity) = []" by (simp add: lru_entries_def newLRU_def)
  obtain e where e: "entry_for k (lru_entries ?c) = Some e" "lk_facts e = f" "lk_at e = t"
    using got lkg.get_value [OF lru_run_good(1) [OF assms(1)], of k ops] by (cases "entry_for k (lru_entries ?c)") auto
  then have "e \<in> set (lru_entries ?c)" "lk_key e = k" by (auto simp: entry_for_def find_Some_iff)
  with lkg.held_is_last_set [OF newLRU_good [OF assms(1)] empty, of e ops] e show ?thesis by (simp add: lru_apply_is)
qed

lemma lru_get_recent:
  assumes "\<not> list_ex (sets_key k) later" and room: "int (card (set (served_besides k later))) < capacity"
  shows "fst (lru_get k (fold lru_apply (before @ Put k f t # later) (newLRU capacity))) = Some (f, t)"
proof -
  let ?e = "\<lparr>lk_key = k, lk_facts = f, lk_at = t\<rparr>" and ?s = "fold lru_apply (before @ [Put k f t]) (newLRU capacity)"
    and ?T = "set (served_besides k later)"
  have cap: "0 \<le> capacity" using room by linarith
  note good = lru_run_good [OF cap]
  have "lkg.behind {} ?e ?s" using good [of before] room by (auto intro!: lkg.put_behind)
  then have "lkg.behind ?T ?e ?s" unfolding lkg.behind_def by blast
  moreover have "case op of Put k' _ _ \<Rightarrow> k' \<noteq> lk_key ?e \<and> k' \<in> ?T | Get k' \<Rightarrow> k' = lk_key ?e \<or> k' \<in> ?T | Drop k' \<Rightarrow> k' \<noteq> lk_key ?e"
    if "op \<in> set later" for op
    using served_op [OF assms(1) that] by (simp only: lkgEntry.select_convs)
  ultimately have "lkg.behind ?T ?e (fold lkg.apply_op later ?s)"
    using good [of "before @ [Put k f t]"] room by (intro lkg.run_behind) auto
  then show ?thesis
    using lkg.behind_get [of "fold lru_apply (before @ Put k f t # later) (newLRU capacity)" ?T ?e] good(1) [of "before @ Put k f t # later"] by (simp add: lru_apply_is)
qed

text \<open>
  A copy is there when Redis is not: from any history, facts put under a key are what a
  later read of that key returns, until it is put again or dropped or as many other keys as
  the cache holds have been used since; reading it counts as use and keeps it longer. What
  a read returns is never anything but what the key was last set to, and the cache never
  holds more than its capacity.
\<close>

theorem lru_keeps_the_recent:
  assumes "0 \<le> capacity"
  shows "lru_len (fold lru_apply ops (newLRU capacity)) \<le> capacity \<and>
    (\<forall>k f t. fst (lru_get k (fold lru_apply ops (newLRU capacity))) = Some (f, t) \<longrightarrow> last_set k ops = Some (Put k f t)) \<and>
    (\<forall>before k f t later. ops = before @ Put k f t # later \<and> \<not> list_ex (sets_key k) later \<and>
       int (card (set (served_besides k later))) < capacity \<longrightarrow>
       fst (lru_get k (fold lru_apply ops (newLRU capacity))) = Some (f, t))"
  using lru_run_good [OF assms, of ops] lru_get_last_set [OF assms] lru_get_recent by (auto simp: lru_good_def simp del: fold_append)

theorem lru_keeps_the_recent_witness:
  "fst (lru_get ''a'' (fold lru_apply [Put ''a'' demo_facts 1, Put ''b'' demo_facts 2, Get ''b''] (newLRU 2))) = Some (demo_facts, 1)"
  using lru_keeps_the_recent [of 2 "[Put ''a'' demo_facts 1, Put ''b'' demo_facts 2, Get ''b'']", THEN conjunct2, THEN conjunct2,
      rule_format, of "[]" "''a''" demo_facts 1 "[Put ''b'' demo_facts 2, Get ''b'']"]
  by (simp add: served_besides_def)

end
