(* ===== verification/Claim_Plane.thy ===== *)
theory Claim_Plane
  imports Lru Clock
begin

text \<open>
  The claims data plane, \<^verbatim>\<open>backend/internal/claimserve\<close>: the published configuration
  (\<^verbatim>\<open>config.go\<close>) and the answer to one call (\<^verbatim>\<open>plane.go\<close>).

  Redis is what the plane is told: a read gives a value, says there is none, or fails. The
  decoding of stored facts is a parameter: the plane relies on it only through what it
  returns. A call's context is whether it has ended. The shaper is \<open>claims.Shape\<close>; the
  field it is held in exists for tests.
\<close>

section \<open>Outcomes\<close>

datatype outcome = Served | ServedLKG | ServedWelcome | ServedRolesOnly | DegradedNoFacts | DegradedShapeUnreadable
  | DegradedMalformed | NoGrants | ContractFault | RefusedCrossProject | NotLanding | UnknownFunction
  | SigMissing | SigStale | SigMismatch | BadRequest | DeadlineExceeded | Panic

datatype severity = Informational | Soft | Hard

fun Severity :: "outcome \<Rightarrow> severity" where
  "Severity SigStale = Hard" | "Severity SigMismatch = Hard" | "Severity ContractFault = Hard"
| "Severity BadRequest = Hard" | "Severity Panic = Hard"
| "Severity ServedLKG = Soft" | "Severity DegradedNoFacts = Soft" | "Severity DegradedShapeUnreadable = Soft"
| "Severity DegradedMalformed = Soft" | "Severity DeadlineExceeded = Soft" | "Severity UnknownFunction = Soft"
| "Severity _ = Informational"

fun Rank :: "outcome \<Rightarrow> int" where
  "Rank Served = 0" | "Rank NotLanding = 1"
| "Rank ServedLKG = 2" | "Rank ServedWelcome = 2" | "Rank ServedRolesOnly = 2" | "Rank UnknownFunction = 2"
| "Rank NoGrants = 3"
| "Rank x = 4 + (case Severity x of Informational \<Rightarrow> 0 | Soft \<Rightarrow> 1 | Hard \<Rightarrow> 2)"

definition Worse :: "outcome \<Rightarrow> outcome \<Rightarrow> bool" where
  "Worse a b \<longleftrightarrow> Rank a > Rank b"

section \<open>The published configuration\<close>

record app_shape =
  as_ApplicationID :: string
  as_Version :: int
  as_TemplateID :: string
  as_Profile :: profile

record project_shapes =
  ps_Default :: profile
  ps_DefaultSource :: string
  ps_ByClient :: "(string, app_shape) gomap"

record fail_mode =
  md_Mode :: string
  md_MinimalSafeClaims :: "(string, jval) gomap"
  md_LKGMaxAgeS :: int

record claim_project =
  pj_Shapes :: project_shapes
  pj_Mode :: fail_mode

record welcome_claims =
  we_On :: bool
  we_Facts :: "(string, facts) gomap"
  we_Clients :: "(string, string) gomap"

record keyring =
  kr_Current :: string
  kr_Previous :: string
  kr_PreviousUntil :: int
  kr_ChangedAt :: int

record debug_watch =
  dw_UserID :: string
  dw_Ends :: int

record plane_config =
  cf_Gen :: int
  cf_BuiltAt :: int
  cf_Projects :: "(string, claim_project) gomap"
  cf_ClientProject :: "(string, string) gomap"
  cf_Keys :: keyring
  cf_Debug :: "(string, debug_watch) gomap"
  cf_Welcome :: welcome_claims

abbreviation minute :: int where "minute \<equiv> 60 * second"

text \<open>Seconds since the epoch of a time in nanoseconds since the zero time.\<close>

definition unix :: "int \<Rightarrow> int" where
  "unix t = t div second - 62135596800"

definition PreviousKeyKeep :: int where
  "PreviousKeyKeep = 15 * minute"

definition no_keys :: keyring where
  "no_keys = \<lparr>kr_Current = [], kr_Previous = [], kr_PreviousUntil = 0, kr_ChangedAt = 0\<rparr>"

definition Keyring_Next :: "keyring \<Rightarrow> string \<Rightarrow> int \<Rightarrow> keyring" where
  "Keyring_Next k key now =
     (if key = [] \<or> key = kr_Current k \<or> (key = kr_Previous k \<and> unix now < kr_PreviousUntil k) then k
      else let new = no_keys\<lparr>kr_Current := key\<rparr>
           in if kr_Current k \<noteq> []
              then new\<lparr>kr_Previous := kr_Current k, kr_PreviousUntil := unix (now + PreviousKeyKeep), kr_ChangedAt := unix now\<rparr>
              else new)"

definition Keyring_Hold :: "keyring \<Rightarrow> int \<Rightarrow> keyring" where
  "Keyring_Hold k until =
     (if kr_Previous k \<noteq> [] \<and> unix until > kr_PreviousUntil k then k\<lparr>kr_PreviousUntil := unix until\<rparr> else k)"

record slot_key =
  sk_Slot :: string
  sk_Key :: string

definition Keyring_Keys :: "keyring \<Rightarrow> int \<Rightarrow> slot_key list" where
  "Keyring_Keys k now =
     (if kr_Current k \<noteq> [] then [\<lparr>sk_Slot = ''current'', sk_Key = kr_Current k\<rparr>] else []) @
     (if kr_Previous k \<noteq> [] \<and> unix now < kr_PreviousUntil k then [\<lparr>sk_Slot = ''previous'', sk_Key = kr_Previous k\<rparr>] else [])"

definition KeysWithEnv :: "slot_key list \<Rightarrow> string \<Rightarrow> slot_key list" where
  "KeysWithEnv ring env =
     (if env = [] then ring
      else if list_ex (\<lambda>k. sk_Key k = env) ring then ring
      else ring @ [\<lparr>sk_Slot = ''env'', sk_Key = env\<rparr>])"

definition FactsKey :: "string \<Rightarrow> string" where
  "FactsKey userID = ''facts:'' @ userID"

definition LegacyFactsKey :: "string \<Rightarrow> string \<Rightarrow> string" where
  "LegacyFactsKey userID projectID = ''mapping:'' @ userID @ '':'' @ projectID"

definition Shapes_For :: "project_shapes \<Rightarrow> string \<Rightarrow> app_shape \<times> bool" where
  "Shapes_For ps clientID =
     (case map_of (ps_ByClient ps) clientID of
        Some s \<Rightarrow> if clientID \<noteq> [] then (s, True)
          else (\<lparr>as_ApplicationID = [], as_Version = 0, as_TemplateID = [], as_Profile = ps_Default ps\<rparr>, False)
      | None \<Rightarrow> (\<lparr>as_ApplicationID = [], as_Version = 0, as_TemplateID = [], as_Profile = ps_Default ps\<rparr>, False))"

definition DefaultLKGMaxAge :: int where
  "DefaultLKGMaxAge = 6 * 60 * minute"

definition LKGMaxAge :: "fail_mode \<Rightarrow> int" where
  "LKGMaxAge m = (if md_LKGMaxAgeS m > 0 then md_LKGMaxAgeS m * second else DefaultLKGMaxAge)"

definition Mode_Claims :: "fail_mode \<Rightarrow> jobject" where
  "Mode_Claims m =
     (if md_Mode m \<noteq> ''minimal_safe'' then []
      else map (\<lambda>k. (k, the (map_of (md_MinimalSafeClaims m) k))) (sort (map fst (md_MinimalSafeClaims m))))"

text \<open>An object's keys are distinct, so the list of its keys with their values is the object.\<close>

definition Envelope :: "jobject \<Rightarrow> jobject" where
  "Envelope ob = map (\<lambda>k. (k, the (map_of ob k))) (map fst ob)"

section \<open>Facts\<close>

datatype 'a reply = Answered 'a | NilReply | Failed

record redis_reads =
  rd_HGet :: "string \<Rightarrow> string \<Rightarrow> string reply"
  rd_Get :: "string \<Rightarrow> string reply"

definition rawFacts :: "redis_reads \<Rightarrow> string \<Rightarrow> string \<Rightarrow> string reply" where
  "rawFacts r userID projectID =
     (case rd_HGet r (FactsKey userID) projectID of
        NilReply \<Rightarrow> rd_Get r (LegacyFactsKey userID projectID)
      | x \<Rightarrow> x)"

definition lkg_key :: "string \<Rightarrow> string \<Rightarrow> string" where
  "lkg_key userID projectID = userID @ [CHR 0x00] @ projectID"

definition filled :: "string \<Rightarrow> string \<Rightarrow> facts \<Rightarrow> facts" where
  "filled userID projectID f =
     (let f1 = (if fa_ProjectID f = [] then f\<lparr>fa_ProjectID := projectID\<rparr> else f)
      in if fa_UserID f1 = [] then f1\<lparr>fa_UserID := userID\<rparr> else f1)"

definition no_facts :: facts where
  "no_facts = \<lparr>fa_Roles = [], fa_UserID = [], fa_ProjectID = [], fa_Email = [], fa_Name = [],
     fa_GivenName = [], fa_FamilyName = [], fa_Username = [], fa_Title = [], fa_Team = [], fa_CompiledAt = [], fa_Bundles = [],
     fa_RoleEnds = [], fa_IsServiceAccount = False, fa_machine = False\<rparr>"

text \<open>The facts, the outcome, whether Redis said there are none, and the copy afterwards.\<close>

definition plane_facts :: "(string \<Rightarrow> facts option) \<Rightarrow> string reply \<Rightarrow> int \<Rightarrow> string \<Rightarrow> string \<Rightarrow> int \<Rightarrow> lru \<Rightarrow> (facts \<times> outcome \<times> bool) \<times> lru" where
  "plane_facts decode raw now userID projectID maxAge lkg =
     (case raw of
        Answered text \<Rightarrow>
          (case decode text of
             None \<Rightarrow> ((no_facts, DegradedMalformed, False), lkg)
           | Some f \<Rightarrow> ((filled userID projectID f, Served, False), lru_put (lkg_key userID projectID) (filled userID projectID f) now lkg))
      | NilReply \<Rightarrow> ((no_facts, ServedRolesOnly, True), lru_drop (lkg_key userID projectID) lkg)
      | Failed \<Rightarrow>
          (case lru_get (lkg_key userID projectID) lkg of
             (Some (f, at), lkg') \<Rightarrow>
               (if now - at \<le> maxAge then (f, ServedLKG, False) else (no_facts, ServedRolesOnly, False), lkg')
           | (None, lkg') \<Rightarrow> ((no_facts, ServedRolesOnly, False), lkg')))"

section \<open>The answer\<close>

record plane_result =
  rs_Claims :: jobject
  rs_Outcome :: outcome
  rs_ClientKnown :: bool
  rs_Miss :: bool
  rs_Gen :: int

definition FunctionPreAccessToken :: string where "FunctionPreAccessToken = ''function/preaccesstoken''"
definition FunctionPreUserinfo :: string where "FunctionPreUserinfo = ''function/preuserinfo''"

definition Plane_Answer :: "(string \<Rightarrow> facts option) \<Rightarrow> redis_reads \<Rightarrow> int \<Rightarrow> bool \<Rightarrow> plane_config option \<Rightarrow>
    string \<Rightarrow> string \<Rightarrow> string \<Rightarrow> string \<Rightarrow> string list \<Rightarrow> identity \<Rightarrow> lru \<Rightarrow> plane_result \<times> lru" where
  "Plane_Answer decode redis now ended config userID projectID clientID func roles ident lkg =
     (case config of
        None \<Rightarrow> (\<lparr>rs_Claims = [], rs_Outcome = DegradedShapeUnreadable, rs_ClientKnown = False, rs_Miss = False, rs_Gen = 0\<rparr>, lkg)
      | Some cfg \<Rightarrow>
          (case map_of (cf_Projects cfg) projectID of
             None \<Rightarrow> (\<lparr>rs_Claims = [], rs_Outcome = DegradedShapeUnreadable, rs_ClientKnown = False, rs_Miss = False, rs_Gen = cf_Gen cfg\<rparr>, lkg)
           | Some proj \<Rightarrow>
               let (shape, known) = Shapes_For (pj_Shapes proj) clientID; prof = as_Profile shape
               in if \<not> LandsIn prof func
                  then (\<lparr>rs_Claims = [], rs_Outcome = NotLanding, rs_ClientKnown = known, rs_Miss = False, rs_Gen = cf_Gen cfg\<rparr>, lkg)
                  else
                    (case plane_facts decode (rawFacts redis userID projectID) now userID projectID (LKGMaxAge (pj_Mode proj)) lkg of
                       ((facts, outcome, miss), lkg') \<Rightarrow>
                         let (claims, outcome') =
                               (if outcome = Served \<or> outcome = ServedLKG
                                then (Envelope (Shape prof (Identify (facts\<lparr>fa_Roles := roles\<rparr>) ident)), outcome)
                                else if outcome = ServedRolesOnly \<and> \<not> ended
                                then let bare = Identify (no_facts\<lparr>fa_UserID := userID, fa_ProjectID := projectID, fa_Roles := roles\<rparr>) ident;
                                         only = RolesOnly prof
                                     in (Envelope (Shape only bare),
                                         if length (pf_Claims only) = length (pf_Claims prof) then Served else outcome)
                                else (Mode_Claims (pj_Mode proj), if ended then DeadlineExceeded else outcome))
                         in (\<lparr>rs_Claims = claims,
                              rs_Outcome = (if outcome' = Served \<and> func \<noteq> FunctionPreAccessToken \<and> func \<noteq> FunctionPreUserinfo
                                then UnknownFunction else outcome'),
                              rs_ClientKnown = known, rs_Miss = miss, rs_Gen = cf_Gen cfg\<rparr>, lkg'))))"

section \<open>The last known good copy\<close>

definition LKGCap :: int where
  "LKGCap = 20000"

record facts_read =
  fr_user :: string
  fr_project :: string
  fr_raw :: "string reply"
  fr_maxAge :: int
  fr_now :: int

definition read_facts :: "(string \<Rightarrow> facts option) \<Rightarrow> facts_read \<Rightarrow> lru \<Rightarrow> (facts \<times> outcome \<times> bool) \<times> lru" where
  "read_facts decode r = plane_facts decode (fr_raw r) (fr_now r) (fr_user r) (fr_project r) (fr_maxAge r)"

definition after_reads :: "(string \<Rightarrow> facts option) \<Rightarrow> facts_read list \<Rightarrow> lru" where
  "after_reads decode rs = fold (\<lambda>r c. snd (read_facts decode r c)) rs (newLRU LKGCap)"

definition read_key :: "facts_read \<Rightarrow> string" where
  "read_key r = lkg_key (fr_user r) (fr_project r)"

text \<open>What a read does to the copy, and whether Redis answered it: with facts that decode, or that there are none.\<close>

definition read_op :: "(string \<Rightarrow> facts option) \<Rightarrow> facts_read \<Rightarrow> lru_op option" where
  "read_op decode r =
     (case fr_raw r of
        Answered text \<Rightarrow> map_option (\<lambda>f. Put (read_key r) (filled (fr_user r) (fr_project r) f) (fr_now r)) (decode text)
      | NilReply \<Rightarrow> Some (Drop (read_key r))
      | Failed \<Rightarrow> Some (Get (read_key r)))"

definition answered :: "(string \<Rightarrow> facts option) \<Rightarrow> facts_read \<Rightarrow> bool" where
  "answered decode r = (case fr_raw r of Answered text \<Rightarrow> decode text \<noteq> None | NilReply \<Rightarrow> True | Failed \<Rightarrow> False)"

lemma read_facts_op: "snd (read_facts decode r c) = (case read_op decode r of None \<Rightarrow> c | Some op \<Rightarrow> lru_apply op c)"
  by (auto simp: read_facts_def plane_facts_def read_op_def read_key_def split: reply.splits option.splits prod.splits)

lemma after_reads_ops: "after_reads decode rs = fold lru_apply (List.map_filter (read_op decode) rs) (newLRU LKGCap)"
proof -
  have "fold (\<lambda>r c. snd (read_facts decode r c)) rs c = fold lru_apply (List.map_filter (read_op decode) rs) c" for c
    by (induction rs arbitrary: c) (auto simp: read_facts_op List.map_filter_simps split: option.splits)
  then show ?thesis by (simp add: after_reads_def)
qed

lemma read_op_sets: "read_op decode r = Some op \<Longrightarrow> sets_key k op \<longleftrightarrow> read_key r = k \<and> answered decode r"
  by (auto simp: read_op_def answered_def split: reply.splits)

lemma read_op_key: "read_op decode r = Some op \<Longrightarrow> op_key op = read_key r"
  by (auto simp: read_op_def split: reply.splits)

lemma map_filter_append: "List.map_filter g (xs @ ys) = List.map_filter g xs @ List.map_filter g ys"
  by (simp add: List.map_filter_def)

lemma last_set_split:
  assumes "last_set k (List.map_filter (read_op decode) rs) = Some op"
  shows "\<exists>before r later. rs = before @ r # later \<and> read_op decode r = Some op \<and> sets_key k op \<and>
    (\<forall>x \<in> set later. read_key x = k \<longrightarrow> \<not> answered decode x)"
  using assms
proof (induction rs rule: rev_induct)
  case (snoc r rs)
  show ?case
  proof (cases "read_key r = k \<and> answered decode r")
    case True
    then obtain op' where "read_op decode r = Some op'" by (cases "read_op decode r") (auto simp: read_op_def answered_def split: reply.splits)
    with True snoc.prems read_op_sets show ?thesis
      by (intro exI [of _ rs] exI [of _ r] exI [of _ "[]"]) (auto simp: last_set_def map_filter_append List.map_filter_simps)
  next
    case False
    then have "last_set k (List.map_filter (read_op decode) rs) = Some op"
      using snoc.prems read_op_sets by (auto simp: last_set_def map_filter_append List.map_filter_simps split: option.splits if_splits)
    from snoc.IH [OF this] obtain before r0 later where "rs = before @ r0 # later" "read_op decode r0 = Some op \<and> sets_key k op"
      "\<forall>x \<in> set later. read_key x = k \<longrightarrow> \<not> answered decode x" by auto
    with False show ?thesis by (intro exI [of _ before] exI [of _ r0] exI [of _ "later @ [r]"]) auto
  qed
qed (simp add: last_set_def List.map_filter_simps)

lemma lkg_key_inj: "CHR 0x00 \<notin> set u \<Longrightarrow> CHR 0x00 \<notin> set v \<Longrightarrow> lkg_key u p = lkg_key v q \<longleftrightarrow> u = v \<and> p = q"
proof
  assume nul: "CHR 0x00 \<notin> set u" "CHR 0x00 \<notin> set v" and eq: "lkg_key u p = lkg_key v q"
  have "takeWhile (\<lambda>c. c \<noteq> CHR 0x00) (lkg_key w r) = w" if "CHR 0x00 \<notin> set w" for w r
    using that by (auto simp: lkg_key_def takeWhile_append)
  with nul eq have "u = v" by metis
  with eq show "u = v \<and> p = q" by (simp add: lkg_key_def)
qed simp

lemma besides_reads:
  "set (served_besides k (List.map_filter (read_op decode) rs)) \<subseteq> {read_key x | x. x \<in> set rs \<and> read_key x \<noteq> k}"
  using read_op_key by (fastforce simp: served_besides_def List.map_filter_def)

definition same_read :: "facts_read \<Rightarrow> facts_read \<Rightarrow> bool" where
  "same_read a b \<longleftrightarrow> fr_user a = fr_user b \<and> fr_project a = fr_project b"

lemma read_key_same:
  "CHR 0x00 \<notin> set (fr_user x) \<Longrightarrow> CHR 0x00 \<notin> set (fr_user r) \<Longrightarrow> read_key x = read_key r \<longleftrightarrow> same_read x r"
  by (simp add: read_key_def same_read_def lkg_key_inj)

lemma served_lkg_was_answered:
  assumes nul: "\<forall>x \<in> set (r # rs). CHR 0x00 \<notin> set (fr_user x)" and out: "fst (read_facts decode r (after_reads decode rs)) = (f, ServedLKG, miss)"
  shows "fr_raw r = Failed \<and>
    (\<exists>before r0 later body f0. rs = before @ r0 # later \<and> same_read r0 r \<and> fr_raw r0 = Answered body \<and> decode body = Some f0 \<and>
       f = filled (fr_user r) (fr_project r) f0 \<and> fr_now r - fr_now r0 \<le> fr_maxAge r \<and> (\<forall>x \<in> set later. same_read x r \<longrightarrow> \<not> answered decode x))"
proof -
  let ?k = "read_key r"
  from out obtain at where raw: "fr_raw r = Failed" and got: "fst (lru_get ?k (after_reads decode rs)) = Some (f, at)" and age: "fr_now r - at \<le> fr_maxAge r"
    by (auto simp: read_facts_def plane_facts_def read_key_def split: reply.splits option.splits prod.splits if_splits)
  have "last_set ?k (List.map_filter (read_op decode) rs) = Some (Put ?k f at)"
    using got by (intro lru_get_last_set [of LKGCap]) (simp_all add: after_reads_ops LKGCap_def)
  from last_set_split [OF this] obtain before r0 later where rs: "rs = before @ r0 # later"
    and put: "read_op decode r0 = Some (Put ?k f at)" and quiet: "\<forall>x \<in> set later. read_key x = ?k \<longrightarrow> \<not> answered decode x" by auto
  have same: "same_read r0 r" using read_key_same [of r0 r] nul rs read_op_key [OF put] by simp
  from put obtain body f0 where f0: "fr_raw r0 = Answered body" "decode body = Some f0" "f = filled (fr_user r0) (fr_project r0) f0" "at = fr_now r0"
    by (auto simp: read_op_def split: reply.splits)
  have "\<forall>x \<in> set later. same_read x r \<longrightarrow> \<not> answered decode x"
    using quiet read_key_same nul rs by simp
  with raw rs same f0 age show ?thesis
    by (intro conjI exI [of _ before] exI [of _ r0] exI [of _ later] exI [of _ body] exI [of _ f0]) (simp_all add: same_read_def)
qed

lemma answered_is_served_lkg:
  assumes nul: "\<forall>x \<in> set (r # before @ r0 # later). CHR 0x00 \<notin> set (fr_user x)"
    and r0: "same_read r0 r" "fr_raw r0 = Answered body" "decode body = Some f0" "fr_now r - fr_now r0 \<le> fr_maxAge r"
    and quiet: "\<forall>x \<in> set later. same_read x r \<longrightarrow> \<not> answered decode x"
    and few: "card {read_key x | x. x \<in> set later \<and> \<not> same_read x r} < 20000" and raw: "fr_raw r = Failed"
  shows "fst (read_facts decode r (after_reads decode (before @ r0 # later))) = (filled (fr_user r) (fr_project r) f0, ServedLKG, False)"
proof -
  let ?ops = "List.map_filter (read_op decode)" and ?k = "read_key r" and ?f = "filled (fr_user r) (fr_project r) f0"
  have same: "read_key x = ?k \<longleftrightarrow> same_read x r" if "x \<in> set later" for x using nul that read_key_same by simp
  have "set (served_besides ?k (?ops later)) \<subseteq> {read_key x | x. x \<in> set later \<and> \<not> same_read x r}"
    using besides_reads [of ?k decode later] same by auto
  then have "card (set (served_besides ?k (?ops later))) \<le> card {read_key x | x. x \<in> set later \<and> \<not> same_read x r}"
    by (intro card_mono) auto
  then have "int (card (set (served_besides ?k (?ops later)))) < LKGCap" using few by (simp add: LKGCap_def)
  moreover have "\<not> list_ex (sets_key ?k) (?ops later)"
    using quiet same read_op_sets by (auto simp: list_ex_iff List.map_filter_def)
  ultimately have got: "fst (lru_get ?k (fold lru_apply (?ops before @ Put ?k ?f (fr_now r0) # ?ops later) (newLRU LKGCap))) = Some (?f, fr_now r0)"
    by (intro lru_get_recent)
  have "read_op decode r0 = Some (Put ?k ?f (fr_now r0))" using r0 by (simp add: read_op_def read_key_def same_read_def)
  then have "after_reads decode (before @ r0 # later) = fold lru_apply (?ops before @ Put ?k ?f (fr_now r0) # ?ops later) (newLRU LKGCap)"
    by (simp add: after_reads_ops map_filter_append List.map_filter_simps)
  with got raw r0(4) show ?thesis
    by (auto simp: read_facts_def plane_facts_def read_key_def split: prod.splits)
qed

text \<open>
  C38. What is served while Redis is out. An answer from the last known good copy is given
  only when the read failed; the facts are exactly those of an earlier read of the same
  person and project that Redis answered, no older than the project's bound, and Redis has
  answered nothing else for them since: facts that were replaced or dropped are never
  served again. And the copy is there to be served: with such a read and fewer than 20,000
  other pairs read since, the answer is that one.
\<close>

theorem last_known_good_is_bounded:
  assumes "\<forall>x \<in> set (r # rs). CHR 0x00 \<notin> set (fr_user x)"
  shows "(\<forall>f miss. fst (read_facts decode r (after_reads decode rs)) = (f, ServedLKG, miss) \<longrightarrow>
      fr_raw r = Failed \<and>
      (\<exists>before r0 later body f0. rs = before @ r0 # later \<and> same_read r0 r \<and> fr_raw r0 = Answered body \<and> decode body = Some f0 \<and>
         f = filled (fr_user r) (fr_project r) f0 \<and> fr_now r - fr_now r0 \<le> fr_maxAge r \<and>
         (\<forall>x \<in> set later. same_read x r \<longrightarrow> \<not> answered decode x))) \<and>
    (\<forall>before r0 later body f0. rs = before @ r0 # later \<and> same_read r0 r \<and> fr_raw r0 = Answered body \<and> decode body = Some f0 \<and>
       fr_now r - fr_now r0 \<le> fr_maxAge r \<and> (\<forall>x \<in> set later. same_read x r \<longrightarrow> \<not> answered decode x) \<and>
       card {read_key x | x. x \<in> set later \<and> \<not> same_read x r} < 20000 \<and> fr_raw r = Failed \<longrightarrow>
       fst (read_facts decode r (after_reads decode rs)) = (filled (fr_user r) (fr_project r) f0, ServedLKG, False))"
  using served_lkg_was_answered [OF assms] answered_is_served_lkg assms by (intro conjI allI impI) blast+

definition demo_read :: "string reply \<Rightarrow> int \<Rightarrow> facts_read" where
  "demo_read raw now = \<lparr>fr_user = ''u'', fr_project = ''p'', fr_raw = raw, fr_maxAge = 100, fr_now = now\<rparr>"

theorem last_known_good_is_bounded_witness:
  "fst (read_facts (\<lambda>_. Some demo_facts) (demo_read Failed 50) (after_reads (\<lambda>_. Some demo_facts) [demo_read (Answered []) 1])) =
     (demo_facts, ServedLKG, False)"
proof -
  let ?r = "demo_read Failed 50" and ?early = "demo_read (Answered []) 1" and ?decode = "\<lambda>_. Some demo_facts"
  have nul: "\<forall>x \<in> set [?r, ?early]. CHR 0x00 \<notin> set (fr_user x)" by (simp add: demo_read_def)
  have filled: "filled (fr_user ?r) (fr_project ?r) demo_facts = demo_facts" by (simp add: filled_def demo_facts_def)
  have "[?early] = [] @ ?early # [] \<and> same_read ?early ?r \<and> fr_raw ?early = Answered [] \<and> ?decode [] = Some demo_facts \<and>
      fr_now ?r - fr_now ?early \<le> fr_maxAge ?r \<and> (\<forall>x \<in> set []. same_read x ?r \<longrightarrow> \<not> answered ?decode x) \<and>
      card {read_key x | x. x \<in> set [] \<and> \<not> same_read x ?r} < 20000 \<and> fr_raw ?r = Failed"
    by (simp add: demo_read_def same_read_def)
  from last_known_good_is_bounded [OF nul, THEN conjunct2, rule_format, OF this] show ?thesis by (simp only: filled)
qed

section \<open>What an answer carries\<close>

lemma Identify_Roles [simp]: "fa_Roles (Identify f i) = fa_Roles f"
  by (simp add: Identify_def Let_def)

lemma map_of_Envelope: "map_of (Envelope ob) = map_of ob"
proof
  show "map_of (Envelope ob) k = map_of ob k" for k
    unfolding Envelope_def
  proof (cases "map_of ob k")
    case None
    then show "map_of (map (\<lambda>k. (k, the (map_of ob k))) (map fst ob)) k = map_of ob k"
      unfolding map_of_map_restrict by (simp add: restrict_map_def map_of_eq_None_iff [THEN iffD1])
  next
    case (Some v)
    then have "k \<in> fst ` set ob" by (metis map_of_eq_None_iff option.distinct(1))
    with Some show "map_of (map (\<lambda>k. (k, the (map_of ob k))) (map fst ob)) k = map_of ob k"
      unfolding map_of_map_restrict by (simp add: restrict_map_def)
  qed
qed

lemma get_path_Envelope [simp]: "get_path (Envelope ob) q = get_path ob q"
  by (cases "(Envelope ob, q)" rule: get_path.cases) (simp_all add: map_of_Envelope)

lemma RolesOnly_roles [simp]: "pf_Roles (RolesOnly p) = pf_Roles p" "pf_IncludeNew (RolesOnly p) = pf_IncludeNew p"
  by (simp_all add: RolesOnly_def)

lemma RolesOnly_Words [simp]: "Words (RolesOnly p) hs = Words p hs"
  unfolding Words_def RolesOnly_roles ..

lemma RolesOnly_subset: "set (pf_Claims (RolesOnly p)) \<subseteq> set (pf_Claims p)"
  by (auto simp: RolesOnly_def)

lemma RolesOnly_keeps: "c \<in> set (pf_Claims p) \<Longrightarrow> c_Kind c = KindRoles \<Longrightarrow> c \<in> set (pf_Claims (RolesOnly p))"
  by (simp add: RolesOnly_def)

text \<open>A row of roles is delivered with the words of the roles in the facts, and a cut-down shape delivers it too.\<close>

lemma Shape_roles_row:
  assumes "Validate p = None" "c \<in> set (pf_Claims p)" "c_Kind c = KindRoles"
  shows "get_path (Shape p f) (c_Path c) = Some (FormatRoles (Words p (fa_Roles f)) (c_Format c))"
    and "get_path (Shape (RolesOnly p) f) (c_Path c) = Some (FormatRoles (Words p (fa_Roles f)) (c_Format c))"
proof -
  have apart: "sorted_wrt apart (pf_Claims p)" and paths: "\<And>c. c \<in> set (pf_Claims p) \<Longrightarrow> c_Path c \<noteq> []"
    using Validate_paths [OF assms(1)] paths_apart_sorted by auto
  show "get_path (Shape p f) (c_Path c) = Some (FormatRoles (Words p (fa_Roles f)) (c_Format c))"
    by (rule Shape_rows(1) [OF apart paths]) (simp_all add: assms claim_value_def)
  have "sorted_wrt apart (pf_Claims (RolesOnly p))" using apart by (simp add: RolesOnly_def sorted_wrt_filter)
  then show "get_path (Shape (RolesOnly p) f) (c_Path c) = Some (FormatRoles (Words p (fa_Roles f)) (c_Format c))"
    by (rule Shape_rows(1)) (use assms paths RolesOnly_subset [of p] RolesOnly_keeps in \<open>auto simp: claim_value_def\<close>)
qed

end
