(* ===== verification/Door.thy ===== *)
theory Door
  imports Claim_Plane
begin

text \<open>
  The claims target's route, \<^verbatim>\<open>backend/internal/claimserve\<close>: the signature on a call
  (\<^verbatim>\<open>signature.go\<close>), the check that stands before the answer and the answer to a decoded
  call (\<^verbatim>\<open>door.go\<close>, \<^verbatim>\<open>decode.go\<close>), and the welcome answer (\<^verbatim>\<open>plane.go\<close>).

  HMAC-SHA256 is a parameter, a function of key and message. The theorems ask nothing of
  it: a call passes only with the code of its own bytes under a key the door holds. A
  timestamp is the number in the header; differences of times are exact, where the library
  saturates at about 292 years.
\<close>

section \<open>The signature header\<close>

definition cut_at :: "char \<Rightarrow> string \<Rightarrow> (string \<times> string) option" where
  "cut_at sep s =
     (case dropWhile (\<lambda>c. c \<noteq> sep) s of [] \<Rightarrow> None | _ # after \<Rightarrow> Some (takeWhile (\<lambda>c. c \<noteq> sep) s, after))"

definition hex_digit :: "char \<Rightarrow> nat option" where
  "hex_digit c =
     (let n = (of_char c :: nat)
      in if 48 \<le> n \<and> n \<le> 57 then Some (n - 48)
         else if 97 \<le> n \<and> n \<le> 102 then Some (n - 87)
         else if 65 \<le> n \<and> n \<le> 70 then Some (n - 55)
         else None)"

fun hex_decode :: "string \<Rightarrow> string option" where
  "hex_decode [] = Some []"
| "hex_decode [_] = None"
| "hex_decode (a # b # s) =
     (case (hex_digit a, hex_digit b, hex_decode s) of
        (Some x, Some y, Some r) \<Rightarrow> Some (char_of (16 * x + y) # r)
      | _ \<Rightarrow> None)"

definition hex_char :: "nat \<Rightarrow> char" where
  "hex_char n = (if n < 10 then char_of (48 + n) else char_of (87 + n))"

definition hex_encode :: "string \<Rightarrow> string" where
  "hex_encode s = concat (map (\<lambda>c. [hex_char (of_char c div 16), hex_char (of_char c mod 16)]) s)"

datatype sig_error = ErrSignatureMissing | ErrSignatureStale | ErrSignatureMismatch

fun SignatureOutcome :: "sig_error \<Rightarrow> outcome" where
  "SignatureOutcome ErrSignatureMissing = SigMissing"
| "SignatureOutcome ErrSignatureStale = SigStale"
| "SignatureOutcome ErrSignatureMismatch = SigMismatch"

definition SignatureTolerance :: int where
  "SignatureTolerance = 300 * second"

text \<open>The pairs in order: the last timestamp and every readable code; a pair with no \<open>=\<close> or an unreadable timestamp ends it.\<close>

fun sig_pairs :: "string list \<Rightarrow> int option \<times> string list \<Rightarrow> (int option \<times> string list) option" where
  "sig_pairs [] acc = Some acc"
| "sig_pairs (pair # ps) (ts, sigs) =
     (case cut_at CHR ''='' pair of
        None \<Rightarrow> None
      | Some (key, v) \<Rightarrow>
          if trim_space key = ''t'' then
            (case ParseInt (trim_space v) of None \<Rightarrow> None | Some n \<Rightarrow> sig_pairs ps (Some n, sigs))
          else if trim_space key = ''v1'' then
            (case hex_decode (trim_space v) of None \<Rightarrow> sig_pairs ps (ts, sigs) | Some sg \<Rightarrow> sig_pairs ps (ts, sigs @ [sg]))
          else sig_pairs ps (ts, sigs))"

definition int_text :: "int \<Rightarrow> string" where
  "int_text n = (if n < 0 then CHR ''-'' # itoa (nat (- n)) else itoa (nat n))"

definition ComputeSignature :: "(string \<Rightarrow> string \<Rightarrow> string) \<Rightarrow> int \<Rightarrow> string \<Rightarrow> string \<Rightarrow> string" where
  "ComputeSignature hmac ts body secret = hmac secret (int_text ts @ ''.'' @ body)"

text \<open>A timestamp in seconds of the epoch as a time.\<close>

definition unix_time :: "int \<Rightarrow> int" where
  "unix_time n = (n + 62135596800) * second"

definition VerifySignature :: "(string \<Rightarrow> string \<Rightarrow> string) \<Rightarrow> string \<Rightarrow> string \<Rightarrow> slot_key list \<Rightarrow> int \<Rightarrow> int \<Rightarrow> sig_error + string" where
  "VerifySignature hmac body header keys tolerance now =
     (if header = [] then Inl ErrSignatureMissing
      else case sig_pairs (split_on CHR '','' header) (None, []) of
             None \<Rightarrow> Inl ErrSignatureMismatch
           | Some (None, _) \<Rightarrow> Inl ErrSignatureMismatch
           | Some (Some ts, sigs) \<Rightarrow>
               if sigs = [] then Inl ErrSignatureMismatch
               else if now - unix_time ts > tolerance \<or> unix_time ts - now > tolerance then Inl ErrSignatureStale
               else (case find (\<lambda>k. ComputeSignature hmac ts body (sk_Key k) \<in> set sigs) keys of
                       Some k \<Rightarrow> Inr (sk_Slot k)
                     | None \<Rightarrow> Inl ErrSignatureMismatch))"

definition SignatureHeaderValue :: "(string \<Rightarrow> string \<Rightarrow> string) \<Rightarrow> int \<Rightarrow> string \<Rightarrow> string \<Rightarrow> string" where
  "SignatureHeaderValue hmac ts body secret = ''t='' @ int_text ts @ '',v1='' @ hex_encode (ComputeSignature hmac ts body secret)"

definition KeyProblem :: "string \<Rightarrow> string" where
  "KeyProblem key =
     (if length key < 32 then ''is '' @ itoa (length key) @ '' bytes, under 32''
      else case find (\<lambda>i. (of_char (key ! i) :: nat) \<le> 32 \<or> (of_char (key ! i) :: nat) > 126) [0..<length key] of
             Some i \<Rightarrow> ''has a non-printable or space byte at '' @ itoa i
           | None \<Rightarrow> [])"

section \<open>The check before the answer\<close>

datatype verdict = Passes string | DevPasses | Misconfigured | UnreadableBody | TooMany int | Unauthorized

record checked =
  ck_verdict :: verdict
  ck_outcome :: "outcome option"
  ck_mismatch_heard :: bool
  ck_counted :: bool

text \<open>
  The keys before and after the second look, the body when it could be read, and how long
  the limiter makes the caller wait: each is consulted only where the code does so.
\<close>

definition SignatureCheck :: "(string \<Rightarrow> string \<Rightarrow> string) \<Rightarrow> slot_key list \<Rightarrow> slot_key list option \<Rightarrow> bool \<Rightarrow> bool \<Rightarrow> int option \<Rightarrow>
    string option \<Rightarrow> string \<Rightarrow> int \<Rightarrow> int \<Rightarrow> checked" where
  "SignatureCheck hmac ks refresh onMismatch devMode limit read header now again_at =
     (if ks = [] then
        (if devMode then \<lparr>ck_verdict = DevPasses, ck_outcome = None, ck_mismatch_heard = False, ck_counted = False\<rparr>
         else \<lparr>ck_verdict = Misconfigured, ck_outcome = Some SigMismatch, ck_mismatch_heard = False, ck_counted = False\<rparr>)
      else case read of
        None \<Rightarrow> \<lparr>ck_verdict = UnreadableBody, ck_outcome = Some BadRequest, ck_mismatch_heard = False, ck_counted = False\<rparr>
      | Some body \<Rightarrow>
          let first = VerifySignature hmac body header ks SignatureTolerance now;
              final = (case (first, refresh) of
                  (Inl ErrSignatureMismatch, Some again) \<Rightarrow>
                    if again \<noteq> [] then VerifySignature hmac body header again SignatureTolerance again_at else first
                | _ \<Rightarrow> first)
          in case final of
               Inr slot \<Rightarrow> \<lparr>ck_verdict = Passes slot, ck_outcome = None, ck_mismatch_heard = False, ck_counted = False\<rparr>
             | Inl e \<Rightarrow>
                 \<lparr>ck_verdict = (case limit of Some wait \<Rightarrow> if wait > 0 then TooMany wait else Unauthorized | None \<Rightarrow> Unauthorized),
                  ck_outcome = Some (SignatureOutcome e),
                  ck_mismatch_heard = (SignatureOutcome e = SigMismatch \<and> onMismatch),
                  ck_counted = (limit \<noteq> None)\<rparr>)"

section \<open>The answer to a decoded call\<close>

record user_ref =
  ur_ID :: string
  ur_CreatedAt :: int
  ur_Human :: bool
  ur_Identity :: identity

record grant_ref =
  gr_ProjectID :: string
  gr_Roles :: "string list"

record action_request =
  rq_Function :: string
  rq_User :: user_ref
  rq_UserGrants :: "grant_ref list"
  rq_ClientID :: string

definition Request_Projects :: "action_request \<Rightarrow> string list" where
  "Request_Projects r =
     fold (\<lambda>g out. let ident = trim_space (gr_ProjectID g) in if ident \<noteq> [] then add_word ident out else out) (rq_UserGrants r) []"

definition Request_Roles :: "action_request \<Rightarrow> string \<Rightarrow> string list" where
  "Request_Roles r projectID =
     RoleSet (concat (map gr_Roles (filter (\<lambda>g. trim_space (gr_ProjectID g) = projectID) (rq_UserGrants r))))"

definition NewPersonWithin :: int where
  "NewPersonWithin = 10 * minute"

definition Plane_Welcome :: "redis_reads \<Rightarrow> int \<Rightarrow> plane_config option \<Rightarrow> user_ref \<Rightarrow> string \<Rightarrow> string \<Rightarrow> (plane_result \<times> string) option" where
  "Plane_Welcome redis now config user clientID func =
     (case config of
        None \<Rightarrow> None
      | Some cfg \<Rightarrow>
          let age = now - ur_CreatedAt user;
              projectID = (case map_of (we_Clients (cf_Welcome cfg)) clientID of Some p \<Rightarrow> p | None \<Rightarrow> [])
          in if \<not> we_On (cf_Welcome cfg) \<or> \<not> ur_Human user \<or> ur_CreatedAt user = 0 then None
             else if age < - minute \<or> age > NewPersonWithin then None
             else case (map_of (we_Facts (cf_Welcome cfg)) projectID, map_of (cf_Projects cfg) projectID) of
                    (Some facts, Some proj) \<Rightarrow>
                      if clientID = [] \<or> rawFacts redis (ur_ID user) projectID \<noteq> NilReply then None
                      else let (shape, known) = Shapes_For (pj_Shapes proj) clientID
                           in if \<not> LandsIn (as_Profile shape) func
                              then Some (\<lparr>rs_Claims = [], rs_Outcome = NotLanding, rs_ClientKnown = known, rs_Miss = False, rs_Gen = cf_Gen cfg\<rparr>, projectID)
                              else Some (\<lparr>rs_Claims = Envelope (Shape (as_Profile shape) (Identify (facts\<lparr>fa_UserID := ur_ID user, fa_ProjectID := projectID\<rparr>) (ur_Identity user))),
                                     rs_Outcome = ServedWelcome, rs_ClientKnown = known, rs_Miss = False, rs_Gen = cf_Gen cfg\<rparr>, projectID)
                  | _ \<Rightarrow> None)"

record answer =
  an_Claims :: jobject
  an_ProjectID :: string
  an_Outcome :: outcome
  an_ClientKnown :: bool
  an_Gen :: int

text \<open>The answer, the person to recompile if Redis held no facts, and the copy afterwards.\<close>

definition Door_Answer :: "(string \<Rightarrow> facts option) \<Rightarrow> redis_reads \<Rightarrow> int \<Rightarrow> bool \<Rightarrow> plane_config option \<Rightarrow> action_request \<Rightarrow> lru \<Rightarrow> answer \<times> string option \<times> lru" where
  "Door_Answer decode redis now ended config req lkg =
     (case Request_Projects req of
        [] \<Rightarrow>
          (case Plane_Welcome redis now config (rq_User req) (rq_ClientID req) (rq_Function req) of
             Some (res, pid) \<Rightarrow> (\<lparr>an_Claims = rs_Claims res, an_ProjectID = pid, an_Outcome = rs_Outcome res, an_ClientKnown = rs_ClientKnown res, an_Gen = rs_Gen res\<rparr>, None, lkg)
           | None \<Rightarrow> (\<lparr>an_Claims = [], an_ProjectID = [], an_Outcome = NoGrants, an_ClientKnown = False, an_Gen = 0\<rparr>, None, lkg))
      | [pid] \<Rightarrow>
          (case Plane_Answer decode redis now ended config (ur_ID (rq_User req)) pid (rq_ClientID req) (rq_Function req) (Request_Roles req pid) (ur_Identity (rq_User req)) lkg of
             (res, lkg') \<Rightarrow>
               (\<lparr>an_Claims = rs_Claims res, an_ProjectID = pid, an_Outcome = rs_Outcome res, an_ClientKnown = rs_ClientKnown res, an_Gen = rs_Gen res\<rparr>,
                if rs_Miss res then Some (ur_ID (rq_User req)) else None, lkg'))
      | _ \<Rightarrow> (\<lparr>an_Claims = [], an_ProjectID = [], an_Outcome = RefusedCrossProject, an_ClientKnown = False, an_Gen = 0\<rparr>, None, lkg))"

section \<open>Whose roles a token carries\<close>

definition config_valid :: "plane_config \<Rightarrow> bool" where
  "config_valid cfg = list_all (\<lambda>(_, proj). Validate (ps_Default (pj_Shapes proj)) = None \<and>
     list_all (\<lambda>(_, s). Validate (as_Profile s) = None) (ps_ByClient (pj_Shapes proj))) (cf_Projects cfg)"

lemma Shapes_For_valid:
  assumes "config_valid cfg" "map_of (cf_Projects cfg) pid = Some proj"
  shows "Validate (as_Profile (fst (Shapes_For (pj_Shapes proj) client))) = None"
proof -
  have "(pid, proj) \<in> set (cf_Projects cfg)" using assms(2) by (rule map_of_SomeD)
  with assms(1) have d: "Validate (ps_Default (pj_Shapes proj)) = None"
    and s: "\<forall>(_, s) \<in> set (ps_ByClient (pj_Shapes proj)). Validate (as_Profile s) = None"
    by (auto simp: config_valid_def list_all_iff)
  show ?thesis using d s by (auto simp: Shapes_For_def split: option.splits dest!: map_of_SomeD)
qed

lemma plane_facts_outcome: "fst (snd (fst (plane_facts decode raw now u p m lkg))) \<in> {Served, ServedLKG, ServedRolesOnly, DegradedMalformed}"
  by (auto simp: plane_facts_def split: reply.splits option.splits prod.splits)

text \<open>An answer of the plane: shaped over the roles it was given, or nothing, or the project's failure mode.\<close>

definition shaped_over :: "profile \<Rightarrow> string list \<Rightarrow> jobject \<Rightarrow> bool" where
  "shaped_over prof roles claims \<longleftrightarrow>
     (\<exists>f. fa_Roles f = roles \<and> (claims = Envelope (Shape prof f) \<or> claims = Envelope (Shape (RolesOnly prof) f)))"

abbreviation with_claims :: "outcome set" where
  "with_claims \<equiv> {Served, ServedLKG, ServedRolesOnly, UnknownFunction}"

lemma Plane_Answer_cases:
  fixes decode redis now ended config u pid client func roles ident lkg
  defines "res \<equiv> fst (Plane_Answer decode redis now ended config u pid client func roles ident lkg)"
  shows "(rs_Outcome res \<in> {DegradedShapeUnreadable, NotLanding} \<and> rs_Claims res = []) \<or>
    (\<exists>cfg proj. config = Some cfg \<and> map_of (cf_Projects cfg) pid = Some proj \<and>
       (rs_Outcome res \<in> with_claims \<and> LandsIn (as_Profile (fst (Shapes_For (pj_Shapes proj) client))) func \<and>
          shaped_over (as_Profile (fst (Shapes_For (pj_Shapes proj) client))) roles (rs_Claims res) \<or>
        rs_Outcome res \<in> {DegradedMalformed, DeadlineExceeded} \<and> rs_Claims res = Mode_Claims (pj_Mode proj)))"
proof (cases config)
  case (Some cfg)
  show ?thesis
  proof (cases "map_of (cf_Projects cfg) pid")
    case None
    with Some show ?thesis by (simp add: res_def Plane_Answer_def)
  next
    case proj: (Some proj)
    obtain shape known where shape: "Shapes_For (pj_Shapes proj) client = (shape, known)" by (rule prod.exhaust)
    show ?thesis
    proof (cases "LandsIn (as_Profile shape) func")
      case False
      with Some proj shape show ?thesis by (simp add: res_def Plane_Answer_def)
    next
      case True
      obtain facts outcome miss lkg' where
        f: "plane_facts decode (rawFacts redis u pid) now u pid (LKGMaxAge (pj_Mode proj)) lkg = ((facts, outcome, miss), lkg')"
        by (metis prod.exhaust)
      have "outcome \<in> {Served, ServedLKG, ServedRolesOnly, DegradedMalformed}" using plane_facts_outcome [of decode "rawFacts redis u pid"] f by (metis fst_conv snd_conv)
      moreover have "shaped_over prof roles (Envelope (Shape prof (Identify (facts\<lparr>fa_Roles := roles\<rparr>) ident)))"
        "shaped_over prof roles (Envelope (Shape (RolesOnly prof) (Identify (no_facts\<lparr>fa_UserID := u, fa_ProjectID := pid, fa_Roles := roles\<rparr>) ident)))" for prof
        unfolding shaped_over_def by (metis Identify_Roles facts.select_convs(1) facts.surjective facts.update_convs(1))+
      ultimately show ?thesis
        using Some proj shape True by (auto simp: res_def Plane_Answer_def f Let_def)
    qed
  qed
qed (simp add: res_def Plane_Answer_def)

lemma shaped_over_roles_row:
  assumes "shaped_over prof roles claims" "Validate prof = None" "c \<in> set (pf_Claims prof)" "c_Kind c = KindRoles"
  shows "get_path claims (c_Path c) = Some (FormatRoles (Words prof roles) (c_Format c))"
  using assms(1) Shape_roles_row [OF assms(2-4)] by (auto simp: shaped_over_def)

lemma Plane_Welcome_only_new:
  assumes "Plane_Welcome redis now config user client func = Some (res, pid)"
  shows "(rs_Outcome res = ServedWelcome \<or> rs_Outcome res = NotLanding \<and> rs_Claims res = []) \<and>
    (\<exists>cfg. config = Some cfg \<and> we_On (cf_Welcome cfg)) \<and> ur_Human user \<and> - minute \<le> now - ur_CreatedAt user \<and>
    now - ur_CreatedAt user \<le> NewPersonWithin \<and> rawFacts redis (ur_ID user) pid = NilReply"
  using assms by (auto simp: Plane_Welcome_def Let_def split: option.splits if_splits prod.splits)

text \<open>
  C39. A token's roles are Zitadel's, whatever Syndra knows. When an answer carries claims
  for a project, it is the one project the call's grants name, and every roles row of the
  application's shape holds exactly the words for the roles Zitadel listed for it, whether
  Redis had facts, had none, failed or was stale. The one exception is the welcome answer,
  given only when the grants name no project, the switch is on, the account is a person's
  and minutes old, and Redis says they have no facts. Every other answer carries no claims,
  or the fixed set the project chose for when facts cannot be read.
\<close>

theorem token_roles_are_zitadels:
  fixes decode redis now ended req lkg
  assumes "config_valid cfg"
  defines "ans \<equiv> fst (Door_Answer decode redis now ended (Some cfg) req lkg)"
  shows "(an_Outcome ans \<in> with_claims \<longrightarrow> Request_Projects req = [an_ProjectID ans] \<and>
      (\<exists>proj. map_of (cf_Projects cfg) (an_ProjectID ans) = Some proj \<and>
        (let prof = as_Profile (fst (Shapes_For (pj_Shapes proj) (rq_ClientID req)))
         in LandsIn prof (rq_Function req) \<and>
           (\<forall>c \<in> set (pf_Claims prof). c_Kind c = KindRoles \<longrightarrow>
              get_path (an_Claims ans) (c_Path c) = Some (FormatRoles (Words prof (Request_Roles req (an_ProjectID ans))) (c_Format c)))))) \<and>
    (an_Outcome ans = ServedWelcome \<longrightarrow> Request_Projects req = [] \<and> we_On (cf_Welcome cfg) \<and> ur_Human (rq_User req) \<and>
      - minute \<le> now - ur_CreatedAt (rq_User req) \<and> now - ur_CreatedAt (rq_User req) \<le> NewPersonWithin \<and>
      rawFacts redis (ur_ID (rq_User req)) (an_ProjectID ans) = NilReply) \<and>
    (an_Outcome ans \<notin> insert ServedWelcome with_claims \<longrightarrow> an_Claims ans = [] \<or>
      an_Outcome ans \<in> {DegradedMalformed, DeadlineExceeded} \<and>
      (\<exists>proj. map_of (cf_Projects cfg) (an_ProjectID ans) = Some proj \<and> an_Claims ans = Mode_Claims (pj_Mode proj)))"
proof (cases "Request_Projects req")
  case Nil
  then show ?thesis
    using Plane_Welcome_only_new [of redis now "Some cfg" "rq_User req" "rq_ClientID req" "rq_Function req"]
    by (auto simp: ans_def Door_Answer_def split: option.splits prod.splits)
next
  case (Cons pid more)
  show ?thesis
  proof (cases more)
    case Nil
    obtain res lkg' where res: "Plane_Answer decode redis now ended (Some cfg) (ur_ID (rq_User req)) pid (rq_ClientID req) (rq_Function req)
        (Request_Roles req pid) (ur_Identity (rq_User req)) lkg = (res, lkg')" by (rule prod.exhaust)
    have ans: "an_Claims ans = rs_Claims res" "an_ProjectID ans = pid" "an_Outcome ans = rs_Outcome res"
      using Cons Nil res by (simp_all add: ans_def Door_Answer_def)
    from Plane_Answer_cases [of decode redis now ended "Some cfg" "ur_ID (rq_User req)" pid "rq_ClientID req" "rq_Function req"
        "Request_Roles req pid" "ur_Identity (rq_User req)" lkg, unfolded res fst_conv]
    show ?thesis
      unfolding ans using Cons Nil Shapes_For_valid [OF assms(1)] shaped_over_roles_row by (auto simp: Let_def)
  next
    case (Cons pid2 rest)
    with \<open>Request_Projects req = pid # more\<close> show ?thesis by (simp add: ans_def Door_Answer_def)
  qed
qed

definition demo_project :: claim_project where
  "demo_project = \<lparr>pj_Shapes = \<lparr>ps_Default = demo_profile, ps_DefaultSource = [], ps_ByClient = []\<rparr>,
     pj_Mode = \<lparr>md_Mode = ''fail_closed'', md_MinimalSafeClaims = [], md_LKGMaxAgeS = 0\<rparr>\<rparr>"

definition demo_config :: plane_config where
  "demo_config = \<lparr>cf_Gen = 1, cf_BuiltAt = 0, cf_Projects = [(''p'', demo_project)], cf_ClientProject = [], cf_Keys = no_keys,
     cf_Debug = [], cf_Welcome = \<lparr>we_On = False, we_Facts = [], we_Clients = []\<rparr>\<rparr>"

definition demo_request :: action_request where
  "demo_request = \<lparr>rq_Function = ''function/preuserinfo'',
     rq_User = \<lparr>ur_ID = ''u'', ur_CreatedAt = 0, ur_Human = True,
       ur_Identity = \<lparr>id_Human = True, id_Machine = False, id_GivenName = [], id_FamilyName = [], id_Username = [], id_Email = []\<rparr>\<rparr>,
     rq_UserGrants = [\<lparr>gr_ProjectID = ''p'', gr_Roles = [''laser'']\<rparr>], rq_ClientID = ''c''\<rparr>"

definition redis_down :: redis_reads where
  "redis_down = \<lparr>rd_HGet = (\<lambda>_ _. Failed), rd_Get = (\<lambda>_. Failed)\<rparr>"

lemma demo_config_valid: "config_valid demo_config"
  using demo_profile_valid by (simp add: config_valid_def demo_config_def demo_project_def)

theorem token_roles_are_zitadels_witness:
  "get_path (an_Claims (fst (Door_Answer (\<lambda>_. None) redis_down 0 False (Some demo_config) demo_request (newLRU 5)))) [''custom_claims'', ''groups''] =
     Some (JList [''cutters''])"
proof -
  let ?ans = "fst (Door_Answer (\<lambda>_. None) redis_down 0 False (Some demo_config) demo_request (newLRU 5))"
  let ?c = "roles_row [''custom_claims'', ''groups''] FormatArray"
  have "an_Outcome ?ans \<in> with_claims" "an_ProjectID ?ans = ''p''" by code_simp+
  moreover have "map_of (cf_Projects demo_config) ''p'' = Some demo_project"
    "as_Profile (fst (Shapes_For (pj_Shapes demo_project) (rq_ClientID demo_request))) = demo_profile"
    by (simp_all add: demo_config_def demo_project_def Shapes_For_def)
  moreover have "?c \<in> set (pf_Claims demo_profile)" "c_Kind ?c = KindRoles" "c_Path ?c = [''custom_claims'', ''groups'']"
    by (simp_all add: demo_profile_def roles_row_def)
  moreover have "FormatRoles (Words demo_profile (Request_Roles demo_request ''p'')) (c_Format ?c) = JList [''cutters'']" by code_simp
  ultimately show ?thesis
    using token_roles_are_zitadels [OF demo_config_valid, of "\<lambda>_. None" redis_down 0 False demo_request "newLRU 5", THEN conjunct1]
    unfolding Let_def by (metis option.inject)
qed

section \<open>Reading a header back\<close>

lemma cut_at_first: "sep \<notin> set k \<Longrightarrow> cut_at sep (k @ sep # v) = Some (k, v)"
  by (auto simp: cut_at_def dropWhile_append takeWhile_append)

lemma int_text_chars:
  "list_all (\<lambda>c. is_digit c \<or> c = CHR ''-'') (int_text n)"
  using itoa_digits by (auto simp: int_text_def list_all_iff)

lemma ParseInt_int_text:
  assumes "- (2 ^ 63) \<le> n" "n < 2 ^ 63"
  shows "ParseInt (int_text n) = Some n"
proof (cases "n < 0")
  case True
  then show ?thesis using assms itoa_digits [of "nat (- n)"] by (simp add: ParseInt_def int_text_def)
next
  case False
  then obtain c r where r: "int_text n = c # r" "is_digit c" using itoa_digits [of "nat n"] by (cases "itoa (nat n)") (auto simp: int_text_def)
  then have "c \<noteq> CHR ''-''" "c \<noteq> CHR ''+''" by (auto simp: is_digit_def)
  then have "ParseInt (int_text n) = (let ds = int_text n; m = int (atoi ds) in if ds = [] \<or> \<not> list_all is_digit ds \<or> m < - (2 ^ 63) \<or> m \<ge> 2 ^ 63 then None else Some m)"
    using r by (simp add: ParseInt_def Let_def)
  then show ?thesis using False assms itoa_digits [of "nat n"] by (simp add: int_text_def Let_def)
qed

lemma of_char_char_of [simp]: "n < 256 \<Longrightarrow> (of_char (char_of n) :: nat) = n"
  by simp

lemma hex_char_facts:
  assumes "n < 16"
  shows "hex_digit (hex_char n) = Some n" "hex_char n \<noteq> CHR '',''" "\<not> is_space (hex_char n)"
proof -
  have n: "(of_char (hex_char n) :: nat) = (if n < 10 then 48 + n else 87 + n)" using assms by (simp add: hex_char_def)
  show "hex_digit (hex_char n) = Some n" using assms by (auto simp: hex_digit_def n Let_def)
  show "\<not> is_space (hex_char n)" using assms by (auto simp: is_space_def n Let_def)
  show "hex_char n \<noteq> CHR '',''"
  proof
    assume "hex_char n = CHR '',''"
    then have "(of_char (hex_char n) :: nat) = 44" by simp
    then show False using n by (simp split: if_splits)
  qed
qed

lemma of_char_less: "(of_char c :: nat) < 256"
  using range_nat_of_char by auto

lemma nibbles: "(of_char c :: nat) div 16 < 16" "(of_char c :: nat) mod 16 < 16"
  using of_char_less [of c] by (auto intro: less_mult_imp_div_less)

lemma hex_decode_encode: "hex_decode (hex_encode s) = Some s"
proof (induction s)
  case (Cons c s)
  with nibbles [of c] show ?case by (simp add: hex_encode_def hex_char_facts)
qed (simp add: hex_encode_def)

lemma hex_encode_chars: "list_all (\<lambda>c. c \<noteq> CHR '','' \<and> \<not> is_space c) (hex_encode s)"
proof (induction s)
  case (Cons c s)
  with nibbles [of c] show ?case by (simp add: hex_encode_def hex_char_facts)
qed (simp add: hex_encode_def)

lemma sig_pairs_own_header:
  assumes "- (2 ^ 63) \<le> ts" "ts < 2 ^ 63"
  shows "sig_pairs (split_on CHR '','' (SignatureHeaderValue hmac ts body secret)) (None, []) = Some (Some ts, [ComputeSignature hmac ts body secret])"
proof -
  let ?code = "ComputeSignature hmac ts body secret"
  have tc: "list_all (\<lambda>c. c \<noteq> CHR '','' \<and> c \<noteq> CHR ''='' \<and> \<not> is_space c) (int_text ts)"
    using int_text_chars [of ts] by (rule list.pred_mono_strong) (auto simp: is_digit_def is_space_def Let_def)
  have "SignatureHeaderValue hmac ts body secret = (''t='' @ int_text ts) @ CHR '','' # ''v1='' @ hex_encode ?code"
    by (simp add: SignatureHeaderValue_def)
  moreover have free: "CHR '','' \<notin> set (''t='' @ int_text ts)" "CHR '','' \<notin> set (''v1='' @ hex_encode ?code)"
    using tc hex_encode_chars [of ?code] by (auto simp: list_all_iff)
  ultimately have parts: "split_on CHR '','' (SignatureHeaderValue hmac ts body secret) = [''t='' @ int_text ts, ''v1='' @ hex_encode ?code]"
    using split_on_cons [OF free(1)] split_on_free [OF free(2)] by metis
  have "cut_at CHR ''='' (''t'' @ CHR ''='' # int_text ts) = Some (''t'', int_text ts)"
    "cut_at CHR ''='' (''v1'' @ CHR ''='' # hex_encode ?code) = Some (''v1'', hex_encode ?code)" by (simp_all add: cut_at_def)
  moreover have "trim_space (int_text ts) = int_text ts" "trim_space (hex_encode ?code) = hex_encode ?code"
    by (rule trim_space_free, rule list.pred_mono_strong [OF tc], simp)
      (rule trim_space_free, rule list.pred_mono_strong [OF hex_encode_chars], simp)
  moreover have "trim_space ''t'' = ''t''" "trim_space ''v1'' = ''v1''" by (simp_all add: trim_space_def is_space_def)
  ultimately show ?thesis
    unfolding parts using assms by (simp add: ParseInt_int_text hex_decode_encode)
qed

lemma own_header_verifies:
  assumes "- (2 ^ 63) \<le> ts" "ts < 2 ^ 63" "\<bar>now - unix_time ts\<bar> \<le> tolerance" "k \<in> set keys"
  shows "\<exists>slot. VerifySignature hmac body (SignatureHeaderValue hmac ts body (sk_Key k)) keys tolerance now = Inr slot"
proof -
  have "find (\<lambda>k'. ComputeSignature hmac ts body (sk_Key k') \<in> set [ComputeSignature hmac ts body (sk_Key k)]) keys \<noteq> None"
    using assms(4) by (auto simp: find_None_iff)
  moreover have "SignatureHeaderValue hmac ts body (sk_Key k) \<noteq> []" by (simp add: SignatureHeaderValue_def)
  ultimately show ?thesis using assms(3) by (auto simp: VerifySignature_def sig_pairs_own_header [OF assms(1,2)] split: option.splits)
qed

text \<open>The header carries, for a time close to now, the code of that time and the body under a key of the slot.\<close>

definition signed_under :: "(string \<Rightarrow> string \<Rightarrow> string) \<Rightarrow> string \<Rightarrow> string \<Rightarrow> slot_key list \<Rightarrow> int \<Rightarrow> int \<Rightarrow> string \<Rightarrow> bool" where
  "signed_under hmac body header keys tolerance now slot \<longleftrightarrow>
     (\<exists>ts sigs k. sig_pairs (split_on CHR '','' header) (None, []) = Some (Some ts, sigs) \<and> \<bar>now - unix_time ts\<bar> \<le> tolerance \<and>
       k \<in> set keys \<and> sk_Slot k = slot \<and> ComputeSignature hmac ts body (sk_Key k) \<in> set sigs)"

lemma VerifySignature_sound:
  assumes "VerifySignature hmac body header keys tolerance now = Inr slot"
  shows "signed_under hmac body header keys tolerance now slot"
  using assms by (auto simp: signed_under_def VerifySignature_def find_Some_iff split: if_splits option.splits prod.splits) (metis nth_mem)

text \<open>Reading Zitadel's key, whatever it says, leaves the key calls are signed with accepted for fifteen minutes.\<close>

lemma unix_later: "unix (t + n * second) = unix t + n"
  by (simp add: unix_def)

lemma current_key_kept:
  assumes "kr_Current kr \<noteq> []" "unix now < unix t0 + 15 * 60"
  shows "kr_Current kr \<in> sk_Key ` set (Keyring_Keys (Keyring_Next kr key t0) now)"
  using assms unix_later [of t0 "15 * 60"]
  by (auto simp: Keyring_Next_def Keyring_Keys_def Let_def no_keys_def PreviousKeyKeep_def)

lemma new_key_accepted:
  assumes "key \<noteq> []" "key = kr_Previous kr \<longrightarrow> \<not> unix t0 < kr_PreviousUntil kr"
  shows "key \<in> sk_Key ` set (Keyring_Keys (Keyring_Next kr key t0) now)"
  using assms by (auto simp: Keyring_Next_def Keyring_Keys_def Let_def no_keys_def)

lemma KeysWithEnv_keys: "sk_Key ` set ring \<subseteq> sk_Key ` set (KeysWithEnv ring env)"
  by (auto simp: KeysWithEnv_def)

text \<open>
  C40. The claims target answers exactly the calls that are signed. A call is let through with
  a slot only when its header carries, for a time within five minutes of now, the code of
  that time and this very body under a key of that slot; it is then neither counted nor
  limited, whatever the limiter says. And replacing the key drops no call: after Zitadel's
  key was read as any key at all, a call signed with the key that was current before, or
  with the one just read, passes; the old one for fifteen minutes.
\<close>

theorem signed_calls_pass:
  fixes hmac :: "string \<Rightarrow> string \<Rightarrow> string"
  shows "(\<forall>ks refresh onMismatch devMode limit body header now again_at slot.
      ck_verdict (SignatureCheck hmac ks refresh onMismatch devMode limit (Some body) header now again_at) = Passes slot \<longrightarrow>
      \<not> ck_counted (SignatureCheck hmac ks refresh onMismatch devMode limit (Some body) header now again_at) \<and>
      (signed_under hmac body header ks SignatureTolerance now slot \<or>
       (\<exists>again. refresh = Some again \<and> signed_under hmac body header again SignatureTolerance again_at slot))) \<and>
    (\<forall>kr read t0 env secret ts now body refresh onMismatch devMode limit again_at.
      secret \<noteq> [] \<and> (secret = kr_Current kr \<and> unix now < unix t0 + 15 * 60 \<or> secret = read \<and> (read = kr_Previous kr \<longrightarrow> \<not> unix t0 < kr_PreviousUntil kr)) \<and>
      \<bar>now - unix_time ts\<bar> \<le> SignatureTolerance \<and> - (2 ^ 63) \<le> ts \<and> ts < 2 ^ 63 \<longrightarrow>
      (\<exists>slot. ck_verdict (SignatureCheck hmac (KeysWithEnv (Keyring_Keys (Keyring_Next kr read t0) now) env) refresh onMismatch devMode limit
         (Some body) (SignatureHeaderValue hmac ts body secret) now again_at) = Passes slot))"
proof (intro conjI allI impI)
  fix ks refresh onMismatch devMode limit body header now again_at slot
  let ?c = "SignatureCheck hmac ks refresh onMismatch devMode limit (Some body) header now again_at"
  assume pass: "ck_verdict ?c = Passes slot"
  then have v: "VerifySignature hmac body header ks SignatureTolerance now = Inr slot \<or>
      (\<exists>again. refresh = Some again \<and> VerifySignature hmac body header again SignatureTolerance again_at = Inr slot)" and "\<not> ck_counted ?c"
    by (auto simp: SignatureCheck_def Let_def split: if_splits sum.splits option.splits sig_error.splits)
  then show "\<not> ck_counted ?c" by blast
  from v show "signed_under hmac body header ks SignatureTolerance now slot \<or>
      (\<exists>again. refresh = Some again \<and> signed_under hmac body header again SignatureTolerance again_at slot)"
    using VerifySignature_sound by blast
next
  fix kr read t0 env secret ts now body refresh onMismatch devMode limit again_at
  let ?keys = "KeysWithEnv (Keyring_Keys (Keyring_Next kr read t0) now) env"
  assume A: "secret \<noteq> [] \<and> (secret = kr_Current kr \<and> unix now < unix t0 + 15 * 60 \<or> secret = read \<and> (read = kr_Previous kr \<longrightarrow> \<not> unix t0 < kr_PreviousUntil kr)) \<and>
      \<bar>now - unix_time ts\<bar> \<le> SignatureTolerance \<and> - (2 ^ 63) \<le> ts \<and> ts < 2 ^ 63"
  then have "secret \<in> sk_Key ` set ?keys"
    using current_key_kept [of kr now t0 read] new_key_accepted [of read kr t0 now] KeysWithEnv_keys by blast
  then obtain k where k: "k \<in> set ?keys" "sk_Key k = secret" by auto
  with own_header_verifies [of ts now SignatureTolerance k ?keys hmac body] A obtain slot where
    "VerifySignature hmac body (SignatureHeaderValue hmac ts body secret) ?keys SignatureTolerance now = Inr slot" by auto
  moreover have "?keys \<noteq> []" using k(1) by auto
  ultimately show "\<exists>slot. ck_verdict (SignatureCheck hmac ?keys refresh onMismatch devMode limit
      (Some body) (SignatureHeaderValue hmac ts body secret) now again_at) = Passes slot"
    by (simp add: SignatureCheck_def)
qed

definition demo_ring :: keyring where
  "demo_ring = no_keys\<lparr>kr_Current := ''old''\<rparr>"

theorem signed_calls_pass_witness:
  "\<exists>slot. ck_verdict (SignatureCheck (\<lambda>k m. k @ m) (KeysWithEnv (Keyring_Keys (Keyring_Next demo_ring ''new'' (unix_time 1700000000)) (unix_time 1700000200)) []) None True False (Some 9)
     (Some ''body'') (SignatureHeaderValue (\<lambda>k m. k @ m) 1700000100 ''body'' ''old'') (unix_time 1700000200) 0) = Passes slot"
  using signed_calls_pass [of "\<lambda>k m. k @ m", THEN conjunct2, rule_format, of "''old''" demo_ring "unix_time 1700000200" "unix_time 1700000000" "''new''" 1700000100
      "[]" None True False "Some 9" "''body''" 0]
  by (simp add: demo_ring_def no_keys_def unix_def unix_time_def SignatureTolerance_def)

end
