(* ===== verification/Rate_Limit.thy ===== *)
theory Rate_Limit
  imports Go_Prelude Complex_Main
begin

text \<open>
  The token buckets of \<^verbatim>\<open>backend/internal/ratelimit\<close>: the bucket in this process
  (\<open>Memory\<close>), the script Redis runs (\<open>bucketScript\<close>) with the expiry it sets, and the limiter
  in front of a store. Tokens are 64-bit floats in Go and in Redis: here rational numbers, with the rounding \<open>rnd\<close> of every operation
  as a parameter, in the order the code makes them. What is used of it is \<open>float64\<close>, which is what IEEE 754 says of binary64. (Redis writes
  a number of a script with seventeen digits, which is the number.) Times are milliseconds; a rule's period is in milliseconds. How a
  period is printed in a bucket's name is a parameter.
\<close>

section \<open>Stores\<close>

record rate_rule =
  ru_N :: int
  ru_Per :: int

record bucket =
  bk_t :: rat
  bk_ts :: int

type_synonym buckets = "(string, bucket) gomap"

text \<open>A bucket refilled to a time, and how long until it holds a token.\<close>

definition refilled :: "(rat \<Rightarrow> rat) \<Rightarrow> rate_rule \<Rightarrow> bucket option \<Rightarrow> int \<Rightarrow> bucket" where
  "refilled rnd r s ms =
     (let s1 = (case s of Some b \<Rightarrow> b | None \<Rightarrow> \<lparr>bk_t = of_int (ru_N r), bk_ts = ms\<rparr>);
          a = max ms (bk_ts s1)
      in \<lparr>bk_t = min (of_int (ru_N r)) (rnd (bk_t s1 + rnd (rnd (rnd (of_int (a - bk_ts s1)) * of_int (ru_N r)) / of_int (ru_Per r)))), bk_ts = a\<rparr>)"

definition bucket_wait :: "(rat \<Rightarrow> rat) \<Rightarrow> rate_rule \<Rightarrow> bucket \<Rightarrow> int" where
  "bucket_wait rnd r b = (if bk_t b < 1 then ceiling (rnd (rnd (rnd (1 - bk_t b) * of_int (ru_Per r)) / of_int (ru_N r))) else 0)"

definition total_wait :: "(rat \<Rightarrow> rat) \<Rightarrow> (rate_rule \<times> bucket) list \<Rightarrow> int" where
  "total_wait rnd bs = fold (\<lambda>(r, b) wait. max wait (bucket_wait rnd r b)) bs 0"

definition taken :: "(rat \<Rightarrow> rat) \<Rightarrow> int \<Rightarrow> bucket \<Rightarrow> bucket" where
  "taken rnd wait b = (if wait = 0 then b\<lparr>bk_t := rnd (bk_t b - 1)\<rparr> else b)"

definition Memory :: "(rat \<Rightarrow> rat) \<Rightarrow> (string \<times> rate_rule) list \<Rightarrow> int \<Rightarrow> buckets \<Rightarrow> int \<times> buckets" where
  "Memory rnd keys ms m =
     (let next = map (\<lambda>(k, r). (r, refilled rnd r (map_of m k) ms)) keys;
          wait = total_wait rnd next
      in (wait, fold (\<lambda>((k, _), (_, b)). AList.update k (taken rnd wait b)) (zip keys next) m))"

text \<open>
  The script reads a hash that has not expired, and writes the hash and its expiry: the
  number of milliseconds of the period from now.
\<close>

record hash_state =
  hs_bucket :: bucket
  hs_expires :: int

type_synonym redis_hashes = "(string, hash_state) gomap"

definition HMGET :: "redis_hashes \<Rightarrow> int \<Rightarrow> string \<Rightarrow> bucket option" where
  "HMGET h now k = (case map_of h k of Some s \<Rightarrow> if now < hs_expires s then Some (hs_bucket s) else None | None \<Rightarrow> None)"

definition bucketScript :: "(rat \<Rightarrow> rat) \<Rightarrow> (string \<times> rate_rule) list \<Rightarrow> int \<Rightarrow> redis_hashes \<Rightarrow> int \<times> redis_hashes" where
  "bucketScript rnd keys now h =
     (let next = map (\<lambda>(k, r). (r, refilled rnd r (HMGET h now k) now)) keys;
          wait = total_wait rnd next
      in (wait, fold (\<lambda>((k, r), (_, b)). AList.update k \<lparr>hs_bucket = taken rnd wait b, hs_expires = now + ru_Per r\<rparr>) (zip keys next) h))"

section \<open>The limiter\<close>

text \<open>The wait a caller is told, and whether the call was counted as let through because the store failed.\<close>

definition bucket_keys :: "(int \<Rightarrow> string) \<Rightarrow> string \<Rightarrow> string \<Rightarrow> rate_rule list \<Rightarrow> (string \<times> rate_rule) list" where
  "bucket_keys per_text endpoint who rules =
     map (\<lambda>r. (''ratelimit:'' @ endpoint @ '':'' @ who @ '':'' @ per_text (ru_Per r), r)) rules"

definition limiter_take :: "(int \<Rightarrow> string) \<Rightarrow> ((string \<times> rate_rule) list \<Rightarrow> int option) \<Rightarrow> string \<Rightarrow> string \<Rightarrow> rate_rule list \<Rightarrow> int \<times> bool" where
  "limiter_take per_text store endpoint who rules =
     (if rules = [] then (0, False)
      else case store (bucket_keys per_text endpoint who rules) of
             None \<Rightarrow> (0, True)
           | Some wait \<Rightarrow> (wait, False))"

definition limiter_person :: "(int \<Rightarrow> string) \<Rightarrow> ((string \<times> rate_rule) list \<Rightarrow> int option) \<Rightarrow> string \<Rightarrow> string \<Rightarrow> rate_rule list option \<Rightarrow> int \<times> bool" where
  "limiter_person per_text store endpoint who selfService =
     (case selfService of
        None \<Rightarrow> (0, False)
      | Some rules \<Rightarrow> if who = [] then (0, False) else limiter_take per_text store endpoint (''person:'' @ who) rules)"

definition limiter_failed :: "(int \<Rightarrow> string) \<Rightarrow> ((string \<times> rate_rule) list \<Rightarrow> int option) \<Rightarrow> string \<Rightarrow> string \<Rightarrow> rate_rule list option \<Rightarrow> int \<times> bool" where
  "limiter_failed per_text store endpoint ip failures =
     (case failures of None \<Rightarrow> (0, False) | Some rules \<Rightarrow> limiter_take per_text store endpoint (''ip:'' @ ip) rules)"

text \<open>\<open>Retry-After\<close> in whole seconds, at least one.\<close>

definition retry_after :: "int \<Rightarrow> int" where
  "retry_after wait = max 1 (ceiling (of_int wait / 1000 :: rat))"

section \<open>Rounding\<close>

text \<open>
  What is used of binary64: rounding keeps the order and what it has rounded, is exact on integers up to \<open>2\<^sup>5\<^sup>3\<close>, takes one from a float of that range
  exactly, goes up by less than \<open>2\<^sup>-\<^sup>5\<^sup>3\<close> of the number (of one, below one), keeps the powers of two down to \<open>2\<^sup>-\<^sup>1\<^sup>0\<^sup>7\<close>, and the float before one is \<open>2\<^sup>-\<^sup>5\<^sup>3\<close> below it.
\<close>

definition float64 :: "(rat \<Rightarrow> rat) \<Rightarrow> bool" where
  "float64 rnd \<longleftrightarrow> mono rnd \<and> (\<forall>x. rnd (rnd x) = rnd x) \<and> (\<forall>i :: int. \<bar>i\<bar> \<le> 2 ^ 53 \<longrightarrow> rnd (of_int i) = of_int i) \<and>
     (\<forall>x. rnd x = x \<and> 1 \<le> x \<and> x \<le> 2 ^ 53 \<longrightarrow> rnd (x - 1) = x - 1) \<and>
     (\<forall>x. 0 \<le> x \<and> x \<le> 2 ^ 54 \<longrightarrow> rnd x \<le> x + max 1 x / 2 ^ 53) \<and>
     (\<forall>n \<le> (107 :: nat). rnd (1 / 2 ^ n) = 1 / 2 ^ n) \<and> (\<forall>x. rnd x = x \<and> x < 1 \<longrightarrow> 1 / 2 ^ 53 \<le> 1 - x)"

lemma float64D:
  assumes "float64 rnd"
  shows "x \<le> y \<Longrightarrow> rnd x \<le> rnd y" "rnd (rnd x) = rnd x" "\<bar>i\<bar> \<le> 2 ^ 53 \<Longrightarrow> rnd (of_int i) = of_int i"
    "rnd x = x \<Longrightarrow> 1 \<le> x \<Longrightarrow> x \<le> 2 ^ 53 \<Longrightarrow> rnd (x - 1) = x - 1"
    "0 \<le> x \<Longrightarrow> x \<le> 2 ^ 54 \<Longrightarrow> rnd x \<le> x + max 1 x / 2 ^ 53"
    "n \<le> 107 \<Longrightarrow> rnd (1 / 2 ^ n) = 1 / 2 ^ n" "rnd x = x \<Longrightarrow> x < 1 \<Longrightarrow> 1 / 2 ^ 53 \<le> 1 - x"
  using assms by (auto simp: float64_def mono_def)

lemma float64_zero [simp]: "float64 rnd \<Longrightarrow> rnd 0 = 0"
  using float64D(3) [of rnd 0] by simp

section \<open>One call\<close>

definition rule_ok :: "rate_rule \<Rightarrow> bool" where
  "rule_ok r \<longleftrightarrow> 1 \<le> ru_N r \<and> 1 \<le> ru_Per r \<and> ru_N r * ru_Per r \<le> 2 ^ 53"

definition bucket_ok :: "(rat \<Rightarrow> rat) \<Rightarrow> rate_rule \<Rightarrow> bucket \<Rightarrow> bool" where
  "bucket_ok rnd r b \<longleftrightarrow> 0 \<le> bk_t b \<and> bk_t b \<le> of_int (ru_N r) \<and> rnd (bk_t b) = bk_t b"

lemma rule_bounds:
  assumes "rule_ok r"
  shows "1 \<le> ru_N r" "ru_N r \<le> 2 ^ 53" "1 \<le> ru_Per r" "ru_Per r \<le> 2 ^ 53" "ru_N r * ru_Per r \<le> 2 ^ 53"
proof -
  show r: "1 \<le> ru_N r" "1 \<le> ru_Per r" "ru_N r * ru_Per r \<le> 2 ^ 53" using assms by (simp_all add: rule_ok_def)
  have "ru_N r * 1 \<le> ru_N r * ru_Per r" "1 * ru_Per r \<le> ru_N r * ru_Per r" using r by (intro mult_mono; simp)+
  then show "ru_N r \<le> 2 ^ 53" "ru_Per r \<le> 2 ^ 53" using r(3) by simp_all
qed

text \<open>What flows into a bucket over a time: exactly, and as the code computes it.\<close>

definition flow :: "rate_rule \<Rightarrow> int \<Rightarrow> rat" where
  "flow r d = of_int d * of_int (ru_N r) / of_int (ru_Per r)"

definition inflow :: "(rat \<Rightarrow> rat) \<Rightarrow> rate_rule \<Rightarrow> int \<Rightarrow> rat" where
  "inflow rnd r d = rnd (rnd (rnd (of_int d) * of_int (ru_N r)) / of_int (ru_Per r))"

lemma refilled_Some: "bk_ts b \<le> ms \<Longrightarrow>
    refilled rnd r (Some b) ms = \<lparr>bk_t = min (of_int (ru_N r)) (rnd (bk_t b + inflow rnd r (ms - bk_ts b))), bk_ts = ms\<rparr>"
  by (simp add: refilled_def inflow_def Let_def max_def)

lemma refilled_past: "ms < bk_ts b \<Longrightarrow> refilled rnd r (Some b) ms = refilled rnd r (Some b) (bk_ts b)"
  by (simp add: refilled_def Let_def max_def)

lemma refilled_ts [simp]: "bk_ts (refilled rnd r s ms) = (case s of Some b \<Rightarrow> max ms (bk_ts b) | None \<Rightarrow> ms)"
  by (simp add: refilled_def Let_def split: option.splits)

lemma flow_nonneg: "rule_ok r \<Longrightarrow> 0 \<le> d \<Longrightarrow> 0 \<le> flow r d"
  by (simp add: flow_def rule_ok_def)

lemma flow_add: "flow r (d + e) = flow r d + flow r e"
  by (simp add: flow_def add_divide_distrib [symmetric] distrib_right [symmetric])

lemma slack_nonneg: "rule_ok r \<Longrightarrow> 0 \<le> (of_int (ru_N r) :: rat)" "rule_ok r \<Longrightarrow> 0 \<le> of_int (ru_N r) / (2 ^ 52 :: rat)"
  by (simp_all add: rule_ok_def)

text \<open>A period fills a bucket, whatever the rounding; below a period the code is off by less than \<open>2\<^sup>-\<^sup>5\<^sup>3\<close> of it.\<close>

lemma inflow_bounds:
  assumes "float64 rnd" "rule_ok r" "0 \<le> d"
  shows "0 \<le> inflow rnd r d" "ru_Per r \<le> d \<Longrightarrow> of_int (ru_N r) \<le> inflow rnd r d"
    "d < ru_Per r \<Longrightarrow> inflow rnd r d \<le> flow r d + of_int (ru_N r) / 2 ^ 53" "d < ru_Per r \<Longrightarrow> flow r d \<le> of_int (ru_N r)"
proof -
  note f = float64D [OF assms(1)] and b = rule_bounds [OF assms(2)]
  have pos: "0 < (of_int (ru_Per r) :: rat)" "0 \<le> (of_int (ru_N r) :: rat)" "1 \<le> (of_int (ru_N r) :: rat)" using b by simp_all
  have zero: "0 \<le> rnd x" if "0 \<le> x" for x using f(1) [OF that] assms(1) by simp
  show "0 \<le> inflow rnd r d" unfolding inflow_def using pos assms(3) by (intro zero divide_nonneg_pos mult_nonneg_nonneg) simp_all
  show "of_int (ru_N r) \<le> inflow rnd r d" if d: "ru_Per r \<le> d"
  proof -
    have per: "rnd (of_int (ru_Per r)) = of_int (ru_Per r)" "rnd (of_int (ru_N r)) = of_int (ru_N r)" using f(3) b by simp_all
    have "rnd (of_int (ru_Per r) * of_int (ru_N r)) = of_int (ru_Per r) * of_int (ru_N r)" using f(3) [of "ru_Per r * ru_N r"] b by (simp add: mult.commute)
    moreover have "of_int (ru_Per r) * of_int (ru_N r) \<le> rnd (of_int d) * of_int (ru_N r)" using f(1) [of "of_int (ru_Per r)" "of_int d"] d pos per by (intro mult_right_mono) simp_all
    ultimately have "of_int (ru_Per r) * of_int (ru_N r) \<le> rnd (rnd (of_int d) * of_int (ru_N r))" using f(1) by metis
    then have "of_int (ru_N r) \<le> rnd (rnd (of_int d) * of_int (ru_N r)) / of_int (ru_Per r)" using pos by (simp add: pos_le_divide_eq mult.commute)
    then show ?thesis unfolding inflow_def using f(1) per(2) by metis
  qed
  show small: "flow r d \<le> of_int (ru_N r)" if "d < ru_Per r"
  proof -
    have "of_int d * of_int (ru_N r) \<le> of_int (ru_Per r) * (of_int (ru_N r) :: rat)" using that pos by (intro mult_right_mono) simp_all
    then show ?thesis using pos by (simp add: flow_def pos_divide_le_eq mult.commute)
  qed
  show "inflow rnd r d \<le> flow r d + of_int (ru_N r) / 2 ^ 53" if d: "d < ru_Per r"
  proof -
    have "d * ru_N r \<le> ru_Per r * ru_N r" using d b by (intro mult_right_mono) simp_all
    then have "d * ru_N r \<le> ru_N r * ru_Per r" by (simp only: mult.commute)
    then have dn: "0 \<le> d * ru_N r" "d * ru_N r \<le> 2 ^ 53" using assms(3) b by (simp, linarith)
    have "rnd (of_int d) = of_int d" using f(3) [of d] d assms(3) b by simp
    moreover have "rnd (of_int d * of_int (ru_N r)) = of_int d * of_int (ru_N r)" using f(3) [of "d * ru_N r"] dn by simp
    ultimately have "inflow rnd r d = rnd (flow r d)" by (simp add: inflow_def flow_def)
    moreover have "(of_int (ru_N r) :: rat) \<le> 2 ^ 54" using of_int_le_iff [of "ru_N r" "2 ^ 53", where ?'a = rat] b by simp
    then have "rnd (flow r d) \<le> flow r d + max 1 (flow r d) / 2 ^ 53" using f(5) [OF flow_nonneg [OF assms(2,3)]] small [OF d] by simp
    moreover have "max 1 (flow r d) / 2 ^ 53 \<le> of_int (ru_N r) / 2 ^ 53" using small [OF d] pos(3) by (intro divide_right_mono) simp_all
    ultimately show ?thesis by linarith
  qed
qed

lemma refilled_ok:
  assumes "float64 rnd" "rule_ok r" "case s of None \<Rightarrow> True | Some b \<Rightarrow> bucket_ok rnd r b"
  shows "bucket_ok rnd r (refilled rnd r s ms)"
proof -
  note f = float64D [OF assms(1)] and b = rule_bounds [OF assms(2)]
  have n: "rnd (of_int (ru_N r)) = of_int (ru_N r)" "0 \<le> (of_int (ru_N r) :: rat)" using f(3) b by simp_all
  define s1 where "s1 = (case s of Some b \<Rightarrow> b | None \<Rightarrow> \<lparr>bk_t = of_int (ru_N r), bk_ts = ms\<rparr>)"
  have "0 \<le> bk_t s1" using assms(3) n(2) by (auto simp: s1_def bucket_ok_def split: option.splits)
  then have "0 \<le> rnd (bk_t s1 + inflow rnd r (max ms (bk_ts s1) - bk_ts s1))"
    using f(1) [of 0] inflow_bounds(1) [OF assms(1,2)] assms(1) by (metis add_nonneg_nonneg diff_ge_0_iff_ge float64_zero max.cobounded2)
  moreover have "refilled rnd r s ms = \<lparr>bk_t = min (of_int (ru_N r)) (rnd (bk_t s1 + inflow rnd r (max ms (bk_ts s1) - bk_ts s1))), bk_ts = max ms (bk_ts s1)\<rparr>"
    by (simp add: refilled_def s1_def inflow_def Let_def)
  ultimately show ?thesis using n f(2) by (simp add: bucket_ok_def min_def)
qed

text \<open>A bucket left alone for its period is full.\<close>

lemma refilled_full:
  assumes "float64 rnd" "rule_ok r" "bucket_ok rnd r b" "bk_ts b + ru_Per r \<le> ms"
  shows "refilled rnd r (Some b) ms = refilled rnd r None ms"
proof -
  note f = float64D [OF assms(1)] and bd = rule_bounds [OF assms(2)]
  have n: "rnd (of_int (ru_N r)) = of_int (ru_N r)" using f(3) bd by simp
  have ms: "bk_ts b \<le> ms" "0 \<le> ms - bk_ts b" "ru_Per r \<le> ms - bk_ts b" using bd assms(4) by simp_all
  have "of_int (ru_N r) \<le> bk_t b + inflow rnd r (ms - bk_ts b)" using inflow_bounds(2) [OF assms(1,2) ms(2,3)] assms(3) by (simp add: bucket_ok_def)
  then have "of_int (ru_N r) \<le> rnd (bk_t b + inflow rnd r (ms - bk_ts b))" using f(1) n by metis
  moreover have "refilled rnd r None ms = \<lparr>bk_t = of_int (ru_N r), bk_ts = ms\<rparr>" using assms(1) n by (simp add: refilled_def)
  ultimately show ?thesis using ms(1) by (simp add: refilled_Some min_def)
qed

lemma refilled_None: "float64 rnd \<Longrightarrow> rule_ok r \<Longrightarrow> refilled rnd r None ms = \<lparr>bk_t = of_int (ru_N r), bk_ts = ms\<rparr>"
  using rule_bounds [of r] float64D(3) [of rnd "ru_N r"] by (simp add: refilled_def)

text \<open>What a refill adds is what flowed in, and twice the rounding.\<close>

lemma refilled_growth:
  assumes "float64 rnd" "rule_ok r" "bucket_ok rnd r b" "bk_ts b \<le> ms"
  shows "bk_t (refilled rnd r (Some b) ms) \<le> bk_t b + flow r (ms - bk_ts b) + of_int (ru_N r) / 2 ^ 52"
proof -
  let ?n = "of_int (ru_N r) :: rat" and ?d = "ms - bk_ts b"
  note f = float64D [OF assms(1)] and bd = rule_bounds [OF assms(2)]
  have n: "1 \<le> ?n" "?n \<le> 2 ^ 53" using bd of_int_le_iff [of "ru_N r" "2 ^ 53", where ?'a = rat] by simp_all
  have d: "0 \<le> ?d" using assms(4) by simp
  have t: "0 \<le> bk_t b" "bk_t b \<le> ?n" using assms(3) by (simp_all add: bucket_ok_def)
  show ?thesis
  proof (cases "ru_Per r \<le> ?d")
    case True
    have "?n * of_int (ru_Per r) \<le> ?n * of_int ?d" using True n by (intro mult_left_mono) (simp_all del: of_int_diff)
    then have "?n \<le> flow r ?d" using bd by (simp add: flow_def pos_le_divide_eq mult.commute)
    then have "?n \<le> bk_t b + flow r ?d + ?n / 2 ^ 52" using t n by (simp add: add_increasing add_increasing2)
    moreover have "bk_t (refilled rnd r (Some b) ms) \<le> ?n" using assms(4) by (simp add: refilled_Some)
    ultimately show ?thesis by simp
  next
    case False
    then have y: "inflow rnd r ?d \<le> flow r ?d + ?n / 2 ^ 53" "0 \<le> inflow rnd r ?d" using inflow_bounds [OF assms(1,2) d] by simp_all
    let ?x = "bk_t b + inflow rnd r ?d"
    have "min ?n (rnd ?x) \<le> ?x + ?n / 2 ^ 53"
    proof (cases "?x \<le> ?n")
      case True
      then have "rnd ?x \<le> ?x + max 1 ?x / 2 ^ 53" using f(5) [of ?x] t y n by simp
      moreover have "max 1 ?x / 2 ^ 53 \<le> ?n / 2 ^ 53" using True n by (intro divide_right_mono) simp_all
      moreover have "min ?n (rnd ?x) \<le> rnd ?x" by simp
      ultimately show ?thesis by linarith
    next
      case False
      moreover have "min ?n (rnd ?x) \<le> ?n" "0 \<le> ?n / 2 ^ 53" using n by simp_all
      ultimately show ?thesis by linarith
    qed
    then show ?thesis using y assms(4) by (simp add: refilled_Some)
  qed
qed

lemma bucket_wait_zero:
  assumes "float64 rnd" "rule_ok r" "rnd (bk_t b) = bk_t b"
  shows "bucket_wait rnd r b \<le> 0 \<longleftrightarrow> 1 \<le> bk_t b"
proof -
  note f = float64D [OF assms(1)] and bd = rule_bounds [OF assms(2)]
  have "0 < rnd (rnd (rnd (1 - bk_t b) * of_int (ru_Per r)) / of_int (ru_N r))" if less: "bk_t b < 1"
  proof -
    have tiny: "1 / 2 ^ n \<le> rnd x" if "1 / 2 ^ n \<le> x" "n \<le> (107 :: nat)" for x n using f(1) [OF that(1)] f(6) [OF that(2)] by simp
    have per: "1 \<le> (of_int (ru_Per r) :: rat)" "1 \<le> (of_int (ru_N r) :: rat)" "(of_int (ru_N r) :: rat) \<le> 2 ^ 53"
      using bd of_int_le_iff [of "ru_N r" "2 ^ 53", where ?'a = rat] by simp_all
    have "1 / 2 ^ 53 \<le> rnd (1 - bk_t b)" by (rule tiny) (use f(7) [OF assms(3) less] in simp_all)
    then have "1 / 2 ^ 53 * 1 \<le> rnd (1 - bk_t b) * of_int (ru_Per r)" using per by (intro mult_mono) (simp_all add: order.trans [rotated])
    then have "1 / 2 ^ 53 \<le> rnd (rnd (1 - bk_t b) * of_int (ru_Per r))" by (intro tiny) simp_all
    then have "1 / 2 ^ 53 / 2 ^ 53 \<le> rnd (rnd (1 - bk_t b) * of_int (ru_Per r)) / of_int (ru_N r)" using per by (intro frac_le) (simp_all add: order.trans [rotated])
    then have "1 / 2 ^ 106 \<le> rnd (rnd (rnd (1 - bk_t b) * of_int (ru_Per r)) / of_int (ru_N r))" by (intro tiny) simp_all
    then show ?thesis by (rule less_le_trans [rotated]) simp
  qed
  then show ?thesis by (auto simp: bucket_wait_def ceiling_le_iff)
qed

lemma total_wait_max: "total_wait rnd bs \<le> w \<longleftrightarrow> 0 \<le> w \<and> (\<forall>(r, b) \<in> set bs. bucket_wait rnd r b \<le> w)"
proof -
  have "fold (\<lambda>(r, b) wait. max wait (bucket_wait rnd r b)) bs x \<le> w \<longleftrightarrow> x \<le> w \<and> (\<forall>(r, b) \<in> set bs. bucket_wait rnd r b \<le> w)" for x
    by (induction bs arbitrary: x) auto
  then show ?thesis by (simp add: total_wait_def)
qed

lemma total_wait_nonneg: "0 \<le> total_wait rnd bs"
  using total_wait_max [of rnd bs "total_wait rnd bs"] by simp

lemma total_wait_zero:
  assumes "float64 rnd" "\<And>r b. (r, b) \<in> set bs \<Longrightarrow> rule_ok r \<and> rnd (bk_t b) = bk_t b"
  shows "total_wait rnd bs = 0 \<longleftrightarrow> (\<forall>(r, b) \<in> set bs. 1 \<le> bk_t b)"
proof -
  have "total_wait rnd bs = 0 \<longleftrightarrow> total_wait rnd bs \<le> 0" using total_wait_nonneg [of rnd bs] by linarith
  moreover have "(case x of (r, b) \<Rightarrow> bucket_wait rnd r b \<le> 0) \<longleftrightarrow> (case x of (r, b) \<Rightarrow> 1 \<le> bk_t b)" if "x \<in> set bs" for x
    using that assms(2) bucket_wait_zero [OF assms(1)] by (cases x) auto
  ultimately show ?thesis by (simp add: total_wait_max)
qed

lemma taken_ok:
  assumes "float64 rnd" "rule_ok r" "bucket_ok rnd r b" "wait = 0 \<longrightarrow> 1 \<le> bk_t b"
  shows "bucket_ok rnd r (taken rnd wait b)" "wait = 0 \<Longrightarrow> bk_t (taken rnd wait b) = bk_t b - 1"
proof -
  have "(of_int (ru_N r) :: rat) \<le> 2 ^ 53" using rule_bounds(2) [OF assms(2)] of_int_le_iff [of "ru_N r" "2 ^ 53", where ?'a = rat] by simp
  then have exact: "rnd (bk_t b - 1) = bk_t b - 1" if "wait = 0" using float64D(4) [OF assms(1), of "bk_t b"] assms(3,4) that by (simp add: bucket_ok_def)
  then show "wait = 0 \<Longrightarrow> bk_t (taken rnd wait b) = bk_t b - 1" by (simp add: taken_def)
  show "bucket_ok rnd r (taken rnd wait b)" using assms(3,4) exact by (auto simp: bucket_ok_def taken_def)
qed

lemma taken_ts [simp]: "bk_ts (taken rnd wait b) = bk_ts b"
  by (simp add: taken_def)

section \<open>What a store promises\<close>

text \<open>
  A store gives every bucket a level at a time; a call waits for the emptiest of its buckets
  and takes a token from each when it need not wait, and from then on their levels are those of what it left. The rules of the buckets are fixed: a
  bucket's name carries its period.
\<close>

type_synonym rules = "string \<Rightarrow> rate_rule"
type_synonym call_keys = "(string \<times> rate_rule) list"

definition keys_ok :: "rules \<Rightarrow> call_keys \<Rightarrow> bool" where
  "keys_ok rf keys \<longleftrightarrow> distinct (map fst keys) \<and> (\<forall>(k, r) \<in> set keys. r = rf k) \<and> (\<forall>k. rule_ok (rf k))"

text \<open>
  A run of calls: what each is told to wait, the store afterwards, and how many calls that
  use a bucket were let through.
\<close>

fun run_waits :: "(call_keys \<Rightarrow> int \<Rightarrow> 's \<Rightarrow> int \<times> 's) \<Rightarrow> (int \<times> call_keys) list \<Rightarrow> 's \<Rightarrow> int list" where
  "run_waits tk [] s = []"
| "run_waits tk ((ms, keys) # cs) s = fst (tk keys ms s) # run_waits tk cs (snd (tk keys ms s))"

fun run_state :: "(call_keys \<Rightarrow> int \<Rightarrow> 's \<Rightarrow> int \<times> 's) \<Rightarrow> (int \<times> call_keys) list \<Rightarrow> 's \<Rightarrow> 's" where
  "run_state tk [] s = s"
| "run_state tk ((ms, keys) # cs) s = run_state tk cs (snd (tk keys ms s))"

fun admitted :: "(call_keys \<Rightarrow> int \<Rightarrow> 's \<Rightarrow> int \<times> 's) \<Rightarrow> string \<Rightarrow> (int \<times> call_keys) list \<Rightarrow> 's \<Rightarrow> nat" where
  "admitted tk k [] s = 0"
| "admitted tk k ((ms, keys) # cs) s =
     (if fst (tk keys ms s) = 0 \<and> k \<in> fst ` set keys then 1 else 0) + admitted tk k cs (snd (tk keys ms s))"

locale token_store =
  fixes good :: "(rat \<Rightarrow> rat) \<Rightarrow> rules \<Rightarrow> int \<Rightarrow> 's \<Rightarrow> bool" and level :: "(rat \<Rightarrow> rat) \<Rightarrow> rules \<Rightarrow> 's \<Rightarrow> string \<Rightarrow> int \<Rightarrow> bucket"
    and take_tokens :: "(rat \<Rightarrow> rat) \<Rightarrow> call_keys \<Rightarrow> int \<Rightarrow> 's \<Rightarrow> int \<times> 's"
  assumes good_float: "good rnd rf t s \<Longrightarrow> float64 rnd \<and> (\<forall>k. rule_ok (rf k))"
    and good_later: "good rnd rf t s \<Longrightarrow> t \<le> t' \<Longrightarrow> good rnd rf t' s"
    and level_ok: "good rnd rf t s \<Longrightarrow> t \<le> ms \<Longrightarrow> bucket_ok rnd (rf k) (level rnd rf s k ms) \<and> bk_ts (level rnd rf s k ms) = ms"
    and take_wait: "good rnd rf t s \<Longrightarrow> t \<le> ms \<Longrightarrow> keys_ok rf keys \<Longrightarrow>
          fst (take_tokens rnd keys ms s) = total_wait rnd (map (\<lambda>(k, r). (r, level rnd rf s k ms)) keys)"
    and take_good: "good rnd rf t s \<Longrightarrow> t \<le> ms \<Longrightarrow> keys_ok rf keys \<Longrightarrow> good rnd rf ms (snd (take_tokens rnd keys ms s))"
    and take_level: "good rnd rf t s \<Longrightarrow> t \<le> ms \<Longrightarrow> keys_ok rf keys \<Longrightarrow> ms \<le> ms' \<Longrightarrow> level rnd rf (snd (take_tokens rnd keys ms s)) k ms' =
          (if k \<in> fst ` set keys then refilled rnd (rf k) (Some (taken rnd (fst (take_tokens rnd keys ms s)) (level rnd rf s k ms))) ms' else level rnd rf s k ms')"
begin

text \<open>A call is let through exactly when every one of its buckets holds a token.\<close>

lemma let_through:
  assumes "good rnd rf t s" "t \<le> ms" "keys_ok rf keys"
  shows "fst (take_tokens rnd keys ms s) = 0 \<longleftrightarrow> (\<forall>(k, r) \<in> set keys. 1 \<le> bk_t (level rnd rf s k ms))"
proof -
  have "total_wait rnd (map (\<lambda>(k, r). (r, level rnd rf s k ms)) keys) = 0 \<longleftrightarrow> (\<forall>(r, b) \<in> set (map (\<lambda>(k, r). (r, level rnd rf s k ms)) keys). 1 \<le> bk_t b)"
    by (rule total_wait_zero) (use good_float [OF assms(1)] assms(3) level_ok [OF assms(1,2)] in \<open>auto simp: keys_ok_def bucket_ok_def\<close>)
  then show ?thesis unfolding take_wait [OF assms] by auto
qed

text \<open>A call on a bucket leaves in it what it held, less the token it took.\<close>

lemma one_call:
  assumes "good rnd rf t s" "t \<le> ms" "keys_ok rf keys" "k \<in> fst ` set keys"
  defines "w \<equiv> fst (take_tokens rnd keys ms s)"
  defines "b \<equiv> taken rnd w (level rnd rf s k ms)"
  shows "bucket_ok rnd (rf k) b" "bk_ts b = ms" "of_nat (if w = 0 then 1 else 0) + bk_t b = bk_t (level rnd rf s k ms)"
proof -
  have "(k, rf k) \<in> set keys" using assms(3,4) by (auto simp: keys_ok_def)
  then have full: "w = 0 \<longrightarrow> 1 \<le> bk_t (level rnd rf s k ms)" using let_through [OF assms(1-3)] by (auto simp: w_def)
  note f = good_float [OF assms(1), THEN conjunct1] good_float [OF assms(1), THEN conjunct2, rule_format, of k] level_ok [OF assms(1,2), THEN conjunct1, of k]
  note ok = taken_ok [OF f full]
  show "bucket_ok rnd (rf k) b" unfolding b_def by (rule ok(1))
  show "bk_ts b = ms" using level_ok [OF assms(1,2)] by (simp add: b_def)
  show "of_nat (if w = 0 then 1 else 0) + bk_t b = bk_t (level rnd rf s k ms)" using ok(2) by (simp add: b_def taken_def)
qed

lemma admitted_from:
  assumes "good rnd rf t s" "sorted (t # map fst cs)" "\<forall>(ms, keys) \<in> set cs. keys_ok rf keys" "\<forall>c \<in> set cs. fst c \<le> until" "t \<le> until"
    and "\<forall>ms \<ge> t. level rnd rf s k ms = refilled rnd (rf k) (Some b) ms" "bucket_ok rnd (rf k) b" "bk_ts b \<le> t"
  shows "of_nat (admitted (take_tokens rnd) k cs s) \<le> bk_t b + flow (rf k) (until - bk_ts b) + of_nat (length cs) * (of_int (ru_N (rf k)) / 2 ^ 52)"
  using assms
proof (induction cs arbitrary: s t b)
  case Nil
  then show ?case using flow_nonneg [of "rf k" "until - bk_ts b"] good_float by (simp add: bucket_ok_def)
next
  case (Cons c cs)
  obtain ms keys where c: "c = (ms, keys)" by (rule prod.exhaust)
  let ?s = "snd (take_tokens rnd keys ms s)" and ?slack = "of_int (ru_N (rf k)) / 2 ^ 52 :: rat"
  have keys: "keys_ok rf keys" and t: "t \<le> ms" and until: "ms \<le> until" "sorted (ms # map fst cs)"
      "\<forall>(ms, keys) \<in> set cs. keys_ok rf keys" "\<forall>c \<in> set cs. fst c \<le> until" using Cons.prems c by (auto split: if_splits)
  note call = Cons.prems(1) t keys
  note ih = Cons.IH [OF take_good [OF call] until(2-4,1)]
  have slack: "0 \<le> ?slack" using slack_nonneg good_float [OF Cons.prems(1)] by blast
  have len: "of_nat (length (c # cs)) * ?slack = of_nat (length cs) * ?slack + ?slack" by (simp only: list.size of_nat_add distrib_right of_nat_1 mult_1 One_nat_def [symmetric] of_nat_Suc add.commute)
  have ts: "bk_ts b \<le> ms" using Cons.prems(8) t by simp
  show ?case
  proof (cases "k \<in> fst ` set keys")
    case False
    then have "\<forall>ms' \<ge> ms. level rnd rf ?s k ms' = refilled rnd (rf k) (Some b) ms'" using take_level [OF call] Cons.prems(6) t by auto
    from ih [OF this Cons.prems(7) ts] show ?thesis using False slack unfolding len unfolding c admitted.simps by simp
  next
    case True
    note one = one_call [OF call True]
    let ?w = "fst (take_tokens rnd keys ms s)" and ?b = "taken rnd (fst (take_tokens rnd keys ms s)) (level rnd rf s k ms)"
    have "\<forall>ms' \<ge> ms. level rnd rf ?s k ms' = refilled rnd (rf k) (Some ?b) ms'" using take_level [OF call] True by auto
    from ih [OF this one(1)] one(2) have "of_nat (admitted (take_tokens rnd) k cs ?s) \<le> bk_t ?b + flow (rf k) (until - ms) + of_nat (length cs) * ?slack" by simp
    moreover have "bk_t (level rnd rf s k ms) \<le> bk_t b + flow (rf k) (ms - bk_ts b) + ?slack"
      using refilled_growth [OF _ _ Cons.prems(7) ts] good_float [OF Cons.prems(1)] Cons.prems(6) t by simp
    moreover have "flow (rf k) (ms - bk_ts b) + flow (rf k) (until - ms) = flow (rf k) (until - bk_ts b)" by (simp add: flow_add [symmetric])
    ultimately show ?thesis using one(3) True unfolding len unfolding c admitted.simps of_nat_add by auto
  qed
qed

lemma admitted_bound:
  assumes "good rnd rf t s" "sorted (t # map fst cs)" "\<forall>(ms, keys) \<in> set cs. keys_ok rf keys" "\<forall>c \<in> set cs. fst c \<le> until" "t \<le> until"
  shows "of_nat (admitted (take_tokens rnd) k cs s) \<le> of_int (ru_N (rf k)) + flow (rf k) (until - t) + of_nat (length cs) * (of_int (ru_N (rf k)) / 2 ^ 52)"
  using assms
proof (induction cs arbitrary: s t)
  case Nil
  then show ?case using flow_nonneg [of "rf k" "until - t"] slack_nonneg [of "rf k"] good_float [OF Nil.prems(1)] by simp
next
  case (Cons c cs)
  obtain ms keys where c: "c = (ms, keys)" by (rule prod.exhaust)
  let ?s = "snd (take_tokens rnd keys ms s)" and ?slack = "of_int (ru_N (rf k)) / 2 ^ 52 :: rat"
  have keys: "keys_ok rf keys" and t: "t \<le> ms" and until: "ms \<le> until" "sorted (ms # map fst cs)"
      "\<forall>(ms, keys) \<in> set cs. keys_ok rf keys" "\<forall>c \<in> set cs. fst c \<le> until" using Cons.prems c by (auto split: if_splits)
  note call = Cons.prems(1) t keys
  have slack: "0 \<le> ?slack" using slack_nonneg good_float [OF Cons.prems(1)] by blast
  have len: "of_nat (length (c # cs)) * ?slack = of_nat (length cs) * ?slack + ?slack" by (simp only: list.size of_nat_add distrib_right of_nat_1 mult_1 One_nat_def [symmetric] of_nat_Suc add.commute)
  have later: "flow (rf k) (until - ms) \<le> flow (rf k) (until - t)"
    using flow_add [of "rf k" "until - ms" "ms - t"] flow_nonneg [of "rf k" "ms - t"] good_float [OF Cons.prems(1)] t by simp
  show ?case
  proof (cases "k \<in> fst ` set keys")
    case False
    from Cons.IH [OF take_good [OF call] until(2-4,1)] False show ?thesis using slack later unfolding len unfolding c admitted.simps by auto
  next
    case True
    note one = one_call [OF call True]
    let ?b = "taken rnd (fst (take_tokens rnd keys ms s)) (level rnd rf s k ms)"
    have "\<forall>ms' \<ge> ms. level rnd rf ?s k ms' = refilled rnd (rf k) (Some ?b) ms'" using take_level [OF call] True by auto
    from admitted_from [OF take_good [OF call] until(2-4,1) this one(1)] one(2)
    have "of_nat (admitted (take_tokens rnd) k cs ?s) \<le> bk_t ?b + flow (rf k) (until - ms) + of_nat (length cs) * ?slack" by simp
    moreover have "bk_t (level rnd rf s k ms) \<le> of_int (ru_N (rf k))" using level_ok [OF call(1,2)] by (simp add: bucket_ok_def)
    ultimately show ?thesis using one(3) True slack later unfolding len unfolding c admitted.simps of_nat_add by auto
  qed
qed

lemma run_good:
  assumes "good rnd rf t s" "sorted (t # map fst cs)" "\<forall>(ms, keys) \<in> set cs. keys_ok rf keys" "\<forall>c \<in> set cs. fst c \<le> t'" "t \<le> t'"
  shows "good rnd rf t' (run_state (take_tokens rnd) cs s)"
  using assms
proof (induction cs arbitrary: s t)
  case (Cons c cs)
  obtain ms keys where c: "c = (ms, keys)" by (rule prod.exhaust)
  have "good rnd rf ms (snd (take_tokens rnd keys ms s))" using Cons.prems c by (intro take_good [of rnd rf t]) auto
  from Cons.IH [OF this] Cons.prems c show ?case by simp
qed (simp add: good_later)

text \<open>In any stretch of a run a bucket lets through no more than it holds and what flowed in meanwhile, up to the rounding.\<close>

lemma stretch_bound:
  assumes "good rnd rf t s" "calls = before @ (ms, keys) # rest @ after" "sorted (t # map fst calls)" "\<forall>(ms, keys) \<in> set calls. keys_ok rf keys"
    and "\<forall>c \<in> set rest. fst c \<le> until" "ms \<le> until"
  shows "of_nat (admitted (take_tokens rnd) k ((ms, keys) # rest) (run_state (take_tokens rnd) before s)) \<le>
    of_int (ru_N (rf k)) + flow (rf k) (until - ms) + of_nat (length rest + 1) * (of_int (ru_N (rf k)) / 2 ^ 52)"
proof -
  have g: "good rnd rf ms (run_state (take_tokens rnd) before s)" using assms by (intro run_good [OF assms(1)]) (auto simp: sorted_append)
  show ?thesis using assms(2-6) admitted_bound [OF g, of "(ms, keys) # rest" until k] by (auto simp: sorted_append)
qed

end

section \<open>Both stores keep the promise\<close>

lemma map_of_fold_update:
  "distinct (map fst xs) \<Longrightarrow> map_of (fold (\<lambda>x. AList.update (fst x) (v x)) xs m) k =
    (case find (\<lambda>x. fst x = k) xs of Some x \<Rightarrow> Some (v x) | None \<Rightarrow> map_of m k)"
proof (induction xs arbitrary: m)
  case (Cons x xs)
  have "find (\<lambda>y. fst y = k) xs = None" if "fst x = k" using Cons.prems that by (auto simp: find_None_iff intro: rev_image_eqI)
  with Cons.IH [of "AList.update (fst x) (v x) m"] Cons.prems show ?case by (cases "fst x = k") (simp_all split: option.splits)
qed simp

lemma find_key: "keys_ok rf keys \<Longrightarrow> find (\<lambda>x. fst x = k) keys = (if k \<in> fst ` set keys then Some (k, rf k) else None)"
proof (cases "find (\<lambda>x. fst x = k) keys")
  case (Some x)
  assume "keys_ok rf keys"
  moreover have "x \<in> set keys" "fst x = k" using Some by (auto simp: find_Some_iff)
  ultimately show ?thesis using Some by (auto simp: keys_ok_def image_iff)
qed (auto simp: find_None_iff)

lemma Memory_fold:
  "Memory rnd keys ms m = (let wait = total_wait rnd (map (\<lambda>(k, r). (r, refilled rnd r (map_of m k) ms)) keys)
     in (wait, fold (\<lambda>x. AList.update (fst x) (taken rnd wait (refilled rnd (snd x) (map_of m (fst x)) ms))) keys m))"
  by (simp add: Memory_def Let_def zip_map2 zip_same_conv_map fold_map comp_def case_prod_unfold)

lemma bucketScript_fold:
  "bucketScript rnd keys now h = (let wait = total_wait rnd (map (\<lambda>(k, r). (r, refilled rnd r (HMGET h now k) now)) keys)
     in (wait, fold (\<lambda>x. AList.update (fst x) \<lparr>hs_bucket = taken rnd wait (refilled rnd (snd x) (HMGET h now (fst x)) now), hs_expires = now + ru_Per (snd x)\<rparr>) keys h))"
  by (simp add: bucketScript_def Let_def zip_map2 zip_same_conv_map fold_map comp_def case_prod_unfold)

definition memory_good :: "(rat \<Rightarrow> rat) \<Rightarrow> rules \<Rightarrow> int \<Rightarrow> buckets \<Rightarrow> bool" where
  "memory_good rnd rf t m \<longleftrightarrow> float64 rnd \<and> (\<forall>k. rule_ok (rf k)) \<and> (\<forall>k b. map_of m k = Some b \<longrightarrow> bucket_ok rnd (rf k) b \<and> bk_ts b \<le> t)"

definition memory_level :: "(rat \<Rightarrow> rat) \<Rightarrow> rules \<Rightarrow> buckets \<Rightarrow> string \<Rightarrow> int \<Rightarrow> bucket" where
  "memory_level rnd rf m k ms = refilled rnd (rf k) (map_of m k) ms"

definition script_good :: "(rat \<Rightarrow> rat) \<Rightarrow> rules \<Rightarrow> int \<Rightarrow> redis_hashes \<Rightarrow> bool" where
  "script_good rnd rf t h \<longleftrightarrow> float64 rnd \<and> (\<forall>k. rule_ok (rf k)) \<and>
     (\<forall>k s. map_of h k = Some s \<longrightarrow> bucket_ok rnd (rf k) (hs_bucket s) \<and> bk_ts (hs_bucket s) \<le> t \<and> hs_expires s = bk_ts (hs_bucket s) + ru_Per (rf k))"

definition script_level :: "(rat \<Rightarrow> rat) \<Rightarrow> rules \<Rightarrow> redis_hashes \<Rightarrow> string \<Rightarrow> int \<Rightarrow> bucket" where
  "script_level rnd rf h k ms = refilled rnd (rf k) (map_option hs_bucket (map_of h k)) ms"

text \<open>An expired hash reads as a full bucket, which is what it had become.\<close>

lemma HMGET_level:
  assumes "script_good rnd rf t h"
  shows "refilled rnd (rf k) (HMGET h ms k) ms = script_level rnd rf h k ms"
proof (cases "map_of h k")
  case (Some s)
  with assms have "float64 rnd" "rule_ok (rf k)" "bucket_ok rnd (rf k) (hs_bucket s)" "hs_expires s = bk_ts (hs_bucket s) + ru_Per (rf k)" by (auto simp: script_good_def)
  with Some refilled_full [of rnd "rf k" "hs_bucket s" ms] show ?thesis by (simp add: HMGET_def script_level_def)
qed (simp add: HMGET_def script_level_def)

lemma level_at:
  assumes "float64 rnd" "rule_ok r" "case s of None \<Rightarrow> True | Some b \<Rightarrow> bucket_ok rnd r b \<and> bk_ts b \<le> ms"
  shows "bucket_ok rnd r (refilled rnd r s ms)" "bk_ts (refilled rnd r s ms) = ms"
  using assms refilled_ok [of rnd r s ms] by (auto simp: max_def split: option.splits)

lemma taken_level_ok:
  assumes "float64 rnd" "keys_ok rf keys" "wait = total_wait rnd (map (\<lambda>(k, r). (r, L k)) keys)" "k \<in> fst ` set keys"
    and "\<And>k. bucket_ok rnd (rf k) (L k)"
  shows "bucket_ok rnd (rf k) (taken rnd wait (L k))"
proof -
  have zero: "wait = 0 \<longleftrightarrow> (\<forall>(r, b) \<in> set (map (\<lambda>(k, r). (r, L k)) keys). 1 \<le> bk_t b)"
    unfolding assms(3) by (rule total_wait_zero [OF assms(1)]) (use assms(2,5) in \<open>auto simp: keys_ok_def bucket_ok_def\<close>)
  have "(k, rf k) \<in> set keys" "rule_ok (rf k)" using assms(2,4) by (auto simp: keys_ok_def)
  then show ?thesis using zero by (intro taken_ok(1) [OF assms(1) _ assms(5)]) auto
qed

lemma Memory_after:
  assumes "keys_ok rf keys"
  shows "map_of (snd (Memory rnd keys ms m)) k =
    (if k \<in> fst ` set keys then Some (taken rnd (fst (Memory rnd keys ms m)) (memory_level rnd rf m k ms)) else map_of m k)"
  using assms map_of_fold_update [of keys _ m k] find_key [OF assms, of k]
  by (auto simp: Memory_fold Let_def memory_level_def keys_ok_def)

lemma memory_wait: "keys_ok rf keys \<Longrightarrow> fst (Memory rnd keys ms m) = total_wait rnd (map (\<lambda>(k, r). (r, memory_level rnd rf m k ms)) keys)"
  by (auto simp: Memory_fold Let_def memory_level_def keys_ok_def intro!: arg_cong [of _ _ "total_wait rnd"])

lemma memory_at: "memory_good rnd rf t m \<Longrightarrow> t \<le> ms \<Longrightarrow> bucket_ok rnd (rf k) (memory_level rnd rf m k ms) \<and> bk_ts (memory_level rnd rf m k ms) = ms"
  using level_at [of rnd "rf k" ms "map_of m k"] by (fastforce simp: memory_good_def memory_level_def split: option.splits)

interpretation mem: token_store memory_good memory_level Memory
proof
  show "float64 rnd \<and> (\<forall>k. rule_ok (rf k))" if "memory_good rnd rf t m" for rnd rf t m using that by (simp add: memory_good_def)
  show "memory_good rnd rf t' m" if "memory_good rnd rf t m" "t \<le> t'" for rnd rf t t' m using that by (fastforce simp: memory_good_def)
  fix rnd rf t m ms ms' k keys
  assume m: "memory_good rnd rf t m" "t \<le> ms"
  show "bucket_ok rnd (rf k) (memory_level rnd rf m k ms) \<and> bk_ts (memory_level rnd rf m k ms) = ms" by (rule memory_at [OF m])
  assume keys: "keys_ok rf keys"
  show "fst (Memory rnd keys ms m) = total_wait rnd (map (\<lambda>(k, r). (r, memory_level rnd rf m k ms)) keys)" by (rule memory_wait [OF keys])
  have ok: "bucket_ok rnd (rf k) (taken rnd (fst (Memory rnd keys ms m)) (memory_level rnd rf m k ms))" if "k \<in> fst ` set keys" for k
    using m memory_at [OF m] by (intro taken_level_ok [OF _ keys memory_wait [OF keys] that]) (simp_all add: memory_good_def)
  show "memory_good rnd rf ms (snd (Memory rnd keys ms m))"
    using m ok memory_at [OF m] by (auto simp: memory_good_def Memory_after [OF keys] split: if_splits) (meson order.trans)
  show "memory_level rnd rf (snd (Memory rnd keys ms m)) k ms' =
      (if k \<in> fst ` set keys then refilled rnd (rf k) (Some (taken rnd (fst (Memory rnd keys ms m)) (memory_level rnd rf m k ms))) ms' else memory_level rnd rf m k ms')"
    unfolding memory_level_def [of _ _ "snd (Memory rnd keys ms m)"] Memory_after [OF keys] by (simp add: memory_level_def)
qed

lemma script_wait:
  assumes "script_good rnd rf t h" "keys_ok rf keys"
  shows "fst (bucketScript rnd keys ms h) = total_wait rnd (map (\<lambda>(k, r). (r, script_level rnd rf h k ms)) keys)"
proof -
  have "map (\<lambda>(k, r). (r, refilled rnd r (HMGET h ms k) ms)) keys = map (\<lambda>(k, r). (r, script_level rnd rf h k ms)) keys"
    using assms by (auto simp: keys_ok_def HMGET_level)
  then show ?thesis unfolding bucketScript_fold Let_def fst_conv by (rule arg_cong)
qed

lemma script_after:
  assumes "script_good rnd rf t h" "keys_ok rf keys"
  shows "map_of (snd (bucketScript rnd keys ms h)) k =
    (if k \<in> fst ` set keys then Some \<lparr>hs_bucket = taken rnd (fst (bucketScript rnd keys ms h)) (script_level rnd rf h k ms), hs_expires = ms + ru_Per (rf k)\<rparr> else map_of h k)"
  using assms map_of_fold_update [of keys _ h k] find_key [OF assms(2), of k]
  by (auto simp: bucketScript_fold Let_def HMGET_level keys_ok_def)

lemma script_at: "script_good rnd rf t h \<Longrightarrow> t \<le> ms \<Longrightarrow> bucket_ok rnd (rf k) (script_level rnd rf h k ms) \<and> bk_ts (script_level rnd rf h k ms) = ms"
  using level_at [of rnd "rf k" ms "map_option hs_bucket (map_of h k)"] by (fastforce simp: script_good_def script_level_def split: option.splits)

interpretation script: token_store script_good script_level bucketScript
proof
  show "float64 rnd \<and> (\<forall>k. rule_ok (rf k))" if "script_good rnd rf t h" for rnd rf t h using that by (simp add: script_good_def)
  show "script_good rnd rf t' h" if "script_good rnd rf t h" "t \<le> t'" for rnd rf t t' h using that by (fastforce simp: script_good_def)
  fix rnd rf t h ms ms' k keys
  assume h: "script_good rnd rf t h" "t \<le> ms"
  show "bucket_ok rnd (rf k) (script_level rnd rf h k ms) \<and> bk_ts (script_level rnd rf h k ms) = ms" by (rule script_at [OF h])
  assume keys: "keys_ok rf keys"
  show "fst (bucketScript rnd keys ms h) = total_wait rnd (map (\<lambda>(k, r). (r, script_level rnd rf h k ms)) keys)" by (rule script_wait [OF h(1) keys])
  have ok: "bucket_ok rnd (rf k) (taken rnd (fst (bucketScript rnd keys ms h)) (script_level rnd rf h k ms))" if "k \<in> fst ` set keys" for k
    using h script_at [OF h] by (intro taken_level_ok [OF _ keys script_wait [OF h(1) keys] that]) (simp_all add: script_good_def)
  show "script_good rnd rf ms (snd (bucketScript rnd keys ms h))"
    using h ok script_at [OF h] by (auto simp: script_good_def script_after [OF h(1) keys] split: if_splits) (meson order.trans)
  show "script_level rnd rf (snd (bucketScript rnd keys ms h)) k ms' =
      (if k \<in> fst ` set keys then refilled rnd (rf k) (Some (taken rnd (fst (bucketScript rnd keys ms h)) (script_level rnd rf h k ms))) ms' else script_level rnd rf h k ms')"
    unfolding script_level_def [of _ _ "snd (bucketScript rnd keys ms h)"] script_after [OF h(1) keys] by (simp add: script_level_def)
qed

section \<open>The limits hold\<close>

lemma same_waits:
  assumes "memory_good rnd rf t m" "script_good rnd rf t h" "\<And>k ms. t \<le> ms \<Longrightarrow> memory_level rnd rf m k ms = script_level rnd rf h k ms"
    and "sorted (t # map fst cs)" "\<forall>(ms, keys) \<in> set cs. keys_ok rf keys"
  shows "run_waits (bucketScript rnd) cs h = run_waits (Memory rnd) cs m"
  using assms
proof (induction cs arbitrary: t m h)
  case (Cons c cs)
  obtain ms keys where c: "c = (ms, keys)" by (rule prod.exhaust)
  have t: "t \<le> ms" and keys: "keys_ok rf keys" using Cons.prems(4,5) c by auto
  note mem = Cons.prems(1) t keys and scr = Cons.prems(2) t keys
  have wait: "fst (bucketScript rnd keys ms h) = fst (Memory rnd keys ms m)"
    using Cons.prems(3) [OF t] by (simp add: mem.take_wait [OF mem] script.take_wait [OF scr])
  have "memory_level rnd rf (snd (Memory rnd keys ms m)) k ms' = script_level rnd rf (snd (bucketScript rnd keys ms h)) k ms'" if "ms \<le> ms'" for k ms'
    using Cons.prems(3) [OF t] Cons.prems(3) [OF order.trans [OF t that]] wait by (simp add: mem.take_level [OF mem that] script.take_level [OF scr that])
  from Cons.IH [OF mem.take_good [OF mem] script.take_good [OF scr] this] Cons.prems(4,5) c wait show ?case by simp
qed simp


text \<open>A rounding with what is used of binary64: down to the fifty-third binary place from a half on, and to the hundred and seventh below.\<close>

definition demo_rnd :: "rat \<Rightarrow> rat" where
  "demo_rnd x = (if 1 / 2 \<le> x then of_int (floor (x * 2 ^ 53)) / 2 ^ 53 else of_int (floor (x * 2 ^ 107)) / 2 ^ 107)"

definition on_grid :: "nat \<Rightarrow> rat \<Rightarrow> bool" where
  "on_grid n x \<longleftrightarrow> of_int (floor (x * 2 ^ n)) = x * 2 ^ n"

lemma on_grid_int: "x * 2 ^ n = of_int i \<Longrightarrow> on_grid n x"
  by (simp add: on_grid_def)

lemma demo_rnd_low: "demo_rnd x \<le> x"
  using of_int_floor_le [of "x * 2 ^ 53"] of_int_floor_le [of "x * 2 ^ 107"] by (simp add: demo_rnd_def pos_divide_le_eq)

lemma demo_rnd_half: "1 / 2 \<le> x \<Longrightarrow> 1 / 2 \<le> demo_rnd x"
proof -
  assume x: "1 / 2 \<le> x"
  have "(2 :: int) ^ 52 \<le> floor (x * 2 ^ 53)" using x by (simp add: le_floor_iff)
  then have "(2 :: rat) ^ 52 \<le> of_int (floor (x * 2 ^ 53))" using of_int_le_iff [of "2 ^ 52" "floor (x * 2 ^ 53)", where ?'a = rat] by simp
  then show ?thesis using x by (simp add: demo_rnd_def)
qed

lemma demo_rnd_fixed: "demo_rnd x = x \<longleftrightarrow> (if 1 / 2 \<le> x then on_grid 53 x else on_grid 107 x)"
  by (simp add: demo_rnd_def on_grid_def field_simps)

lemma demo_rnd_grid: "1 / 2 \<le> x \<Longrightarrow> on_grid 53 (demo_rnd x)" "\<not> 1 / 2 \<le> x \<Longrightarrow> on_grid 107 (demo_rnd x)"
  by (simp_all add: demo_rnd_def on_grid_def)

lemma part_of_power: "n \<le> m \<Longrightarrow> (1 / 2 ^ n) * 2 ^ m = (of_int (2 ^ (m - n)) :: rat)"
proof -
  assume "n \<le> m"
  then have "(2 :: rat) ^ m = 2 ^ n * 2 ^ (m - n)" by (simp add: power_add [symmetric])
  then show ?thesis by simp
qed

lemma demo_rnd_float: "float64 demo_rnd"
  unfolding float64_def
proof (intro conjI allI impI)
  show "mono demo_rnd"
  proof (rule monoI)
    fix x y :: rat
    assume xy: "x \<le> y"
    show "demo_rnd x \<le> demo_rnd y"
    proof (cases "\<not> 1 / 2 \<le> x \<and> 1 / 2 \<le> y")
      case True
      then show ?thesis using demo_rnd_low [of x] demo_rnd_half [of y] by linarith
    next
      case False
      then show ?thesis using xy by (auto simp: demo_rnd_def divide_right_mono floor_mono)
    qed
  qed
  show "demo_rnd (demo_rnd x) = demo_rnd x" for x
    using demo_rnd_grid [of x] demo_rnd_half [of x] demo_rnd_low [of x] unfolding demo_rnd_fixed by (cases "1 / 2 \<le> x") auto
  show "demo_rnd (of_int i) = of_int i" for i
    unfolding demo_rnd_fixed using on_grid_int [of "of_int i" 53 "i * 2 ^ 53"] on_grid_int [of "of_int i" 107 "i * 2 ^ 107"] by simp
  show "demo_rnd (x - 1) = x - 1" if "demo_rnd x = x \<and> 1 \<le> x \<and> x \<le> 2 ^ 53" for x
  proof -
    from that have "x * 2 ^ 53 = of_int (floor (x * 2 ^ 53))" unfolding demo_rnd_fixed on_grid_def by auto
    then obtain i :: int where "x * 2 ^ 53 = of_int i" by blast
    then have "(x - 1) * 2 ^ 53 = of_int (i - 2 ^ 53)" by (simp add: algebra_simps)
    moreover from this have "(x - 1) * 2 ^ 107 = of_int ((i - 2 ^ 53) * 2 ^ 54)" by simp
    ultimately show ?thesis unfolding demo_rnd_fixed using on_grid_int by metis
  qed
  show "demo_rnd x \<le> x + max 1 x / 2 ^ 53" for x using demo_rnd_low [of x] by (simp add: add_increasing2)
  show "demo_rnd (1 / 2 ^ n) = 1 / 2 ^ n" if "n \<le> 107" for n :: nat
  proof -
    have "(1 / 2 ^ n) * 2 ^ 107 = (of_int (2 ^ (107 - n)) :: rat)" using that by (rule part_of_power)
    moreover have "(1 / 2 ^ n) * 2 ^ 53 = (of_int (2 ^ (53 - n)) :: rat)" if "n \<le> 53" using that by (rule part_of_power)
    moreover have "n \<le> 53" if "(1 / 2 :: rat) \<le> 1 / 2 ^ n"
    proof (rule ccontr)
      assume "\<not> n \<le> 53"
      then have "(2 :: rat) ^ 2 \<le> 2 ^ n" by (intro power_increasing) simp_all
      then show False using that by (simp add: field_simps)
    qed
    ultimately show ?thesis unfolding demo_rnd_fixed using on_grid_int by metis
  qed
  show "1 / 2 ^ 53 \<le> 1 - x" if "demo_rnd x = x \<and> x < 1" for x
  proof (cases "1 / 2 \<le> x")
    case True
    then have "of_int (floor (x * 2 ^ 53)) = x * 2 ^ 53" using that unfolding demo_rnd_fixed on_grid_def by simp
    then obtain i :: int where i: "x * 2 ^ 53 = of_int i" by metis
    then have "(of_int i :: rat) < of_int (2 ^ 53)" using that by simp
    then have "i \<le> 2 ^ 53 - 1" unfolding of_int_less_iff by simp
    then have "(of_int i :: rat) \<le> of_int (2 ^ 53 - 1)" by (simp only: of_int_le_iff)
    then have "x * 2 ^ 53 \<le> 2 ^ 53 - 1" using i by simp
    then show ?thesis by (simp add: field_simps)
  qed simp
qed

definition demo_rule :: rate_rule where
  "demo_rule = \<lparr>ru_N = 2, ru_Per = 1000\<rparr>"


end
