(* ===== verification/Addon_Policy.thy ===== *)
theory Addon_Policy
  imports Go_Prelude Complex_Main
begin

text \<open>
  What the backend lets an add-on offer: the policy table and the effective operations
  (\<^verbatim>\<open>backend/internal/addons/policy.go\<close>), the check of a call's parameters
  (\<^verbatim>\<open>params.go\<close>) and the redaction of secrets (\<^verbatim>\<open>redact.go\<close>).

  A value of a parameter is one of the types the code tells apart; every other Go type is
  \<open>VOther\<close>. A float is its exact value.
\<close>

section \<open>Policy\<close>

type_synonym op_scope = string

abbreviation ScopeMember :: op_scope where "ScopeMember \<equiv> ''member''"
abbreviation ScopeAdmin :: op_scope where "ScopeAdmin \<equiv> ''admin''"

record param_spec =
  pm_Name :: string
  pm_Type :: string
  pm_Required :: bool
  pm_Secret :: bool

record op_policy =
  po_Scope :: op_scope
  po_Confirm :: bool
  po_Params :: "param_spec list"

definition string_param :: "string \<Rightarrow> bool \<Rightarrow> bool \<Rightarrow> param_spec" where
  "string_param name required secret = \<lparr>pm_Name = name, pm_Type = ''string'', pm_Required = required, pm_Secret = secret\<rparr>"

definition operationPolicy :: "(string, op_policy) gomap" where
  "operationPolicy =
    [(''password.set'', \<lparr>po_Scope = ScopeMember, po_Confirm = False, po_Params = [string_param ''password'' True True]\<rparr>),
     (''password.rotate'', \<lparr>po_Scope = ScopeAdmin, po_Confirm = True, po_Params = []\<rparr>),
     (''account.adopt'', \<lparr>po_Scope = ScopeAdmin, po_Confirm = True, po_Params = [string_param ''username'' True False]\<rparr>),
     (''account.purge'', \<lparr>po_Scope = ScopeAdmin, po_Confirm = True, po_Params = [string_param ''elevated_key'' True True]\<rparr>),
     (''activity.get'', \<lparr>po_Scope = ScopeAdmin, po_Confirm = False, po_Params = [string_param ''since'' False False]\<rparr>),
     (''health.get'', \<lparr>po_Scope = ScopeAdmin, po_Confirm = False, po_Params = []\<rparr>),
     (''account.release'', \<lparr>po_Scope = ScopeAdmin, po_Confirm = True, po_Params = []\<rparr>),
     (''storage.status'', \<lparr>po_Scope = ScopeMember, po_Confirm = False, po_Params = []\<rparr>)]"

record manifest_op =
  mo_ID :: string
  mo_Scope :: op_scope
  mo_Confirm :: bool
  mo_SecretParams :: "string list"
  mo_Available :: bool
  mo_UnavailableReason :: string

record effective_op =
  ef_ID :: string
  ef_Scope :: op_scope
  ef_Confirm :: bool
  ef_SecretParams :: "string list"
  ef_Params :: "param_spec list"
  ef_Available :: bool
  ef_UnavailableReason :: string

definition dedupeStrings :: "string list \<Rightarrow> string list" where
  "dedupeStrings xs = sort (remdups xs)"

definition unionStrings :: "string list \<Rightarrow> string list \<Rightarrow> string list" where
  "unionStrings a b = dedupeStrings (a @ b)"

definition mostRestrictiveScope :: "op_scope \<Rightarrow> op_scope \<Rightarrow> op_scope" where
  "mostRestrictiveScope policy manifest = (if policy = ScopeAdmin \<or> manifest \<noteq> ScopeMember then ScopeAdmin else ScopeMember)"

definition unionSecretParams :: "op_policy \<Rightarrow> string list \<Rightarrow> string list" where
  "unionSecretParams p declared =
     sort (remdups (filter (\<lambda>n. n \<noteq> []) (map pm_Name (filter pm_Secret (po_Params p)) @ declared)))"

definition mostRestrictiveOperation :: "effective_op \<Rightarrow> effective_op \<Rightarrow> effective_op" where
  "mostRestrictiveOperation a b =
     \<lparr>ef_ID = ef_ID a, ef_Scope = mostRestrictiveScope (ef_Scope a) (ef_Scope b), ef_Confirm = (ef_Confirm a \<or> ef_Confirm b),
      ef_SecretParams = unionStrings (ef_SecretParams a) (ef_SecretParams b), ef_Params = ef_Params a,
      ef_Available = (ef_Available a \<and> ef_Available b),
      ef_UnavailableReason =
        (if \<not> ef_Available a \<and> ef_UnavailableReason a \<noteq> [] then ef_UnavailableReason a
         else if \<not> ef_Available b then ef_UnavailableReason b else [])\<rparr>"

definition declared_op :: "op_policy \<Rightarrow> manifest_op \<Rightarrow> effective_op" where
  "declared_op p mo =
     \<lparr>ef_ID = mo_ID mo, ef_Scope = mostRestrictiveScope (po_Scope p) (mo_Scope mo), ef_Confirm = (po_Confirm p \<or> mo_Confirm mo),
      ef_SecretParams = unionSecretParams p (mo_SecretParams mo), ef_Params = po_Params p, ef_Available = mo_Available mo,
      ef_UnavailableReason =
        (if \<not> mo_Available mo \<and> mo_UnavailableReason mo = []
         then ''the add-on reported this operation unavailable without a reason'' else mo_UnavailableReason mo)\<rparr>"

definition resolve_step :: "(string, op_policy) gomap \<Rightarrow> manifest_op \<Rightarrow> (string, effective_op) gomap \<times> string list \<Rightarrow> (string, effective_op) gomap \<times> string list" where
  "resolve_step policy mo st =
     (case map_of policy (mo_ID mo) of
        None \<Rightarrow> (fst st, snd st @ [mo_ID mo])
      | Some p \<Rightarrow>
          (AList.update (mo_ID mo)
             (case map_of (fst st) (mo_ID mo) of
                Some previous \<Rightarrow> mostRestrictiveOperation previous (declared_op p mo)
              | None \<Rightarrow> declared_op p mo) (fst st), snd st))"

definition resolveOperations_with :: "(string, op_policy) gomap \<Rightarrow> manifest_op list \<Rightarrow> effective_op list \<times> string list" where
  "resolveOperations_with policy mos =
     (case fold (resolve_step policy) mos ([], []) of
        (byID, unknown) \<Rightarrow> (sort_key ef_ID (map snd byID), dedupeStrings (sort unknown)))"

definition resolveOperations :: "manifest_op list \<Rightarrow> effective_op list \<times> string list" where
  "resolveOperations mos = resolveOperations_with operationPolicy mos"

definition IsSecretParam :: "effective_op \<Rightarrow> string \<Rightarrow> bool" where
  "IsSecretParam e name = list_ex (\<lambda>n. n = name) (ef_SecretParams e)"

section \<open>Parameters\<close>

datatype pval = VNull | VString string | VBool bool | VInt int | VFloat rat | VNumber string
  | VList "pval list" | VStrings "string list" | VMap "(string \<times> pval) list" | VOther

type_synonym op_params = "(string, pval) gomap"

definition supportedParamType :: "string \<Rightarrow> bool" where
  "supportedParamType t \<longleftrightarrow> t \<in> set [''string'', ''string[]'', ''bool'', ''int'']"

definition bad_param :: "param_spec \<Rightarrow> string" where
  "bad_param spec = ''parameter '' @ quoted (pm_Name spec) @ '' must be '' @ pm_Type spec"

definition checkParamType :: "param_spec \<Rightarrow> pval \<Rightarrow> string option" where
  "checkParamType spec v =
     (if pm_Type spec = ''string'' then
        (case v of
           VString s \<Rightarrow> if pm_Required spec \<and> trim_space s = []
             then Some (''parameter '' @ quoted (pm_Name spec) @ '' is required and must not be empty'') else None
         | _ \<Rightarrow> Some (bad_param spec))
      else if pm_Type spec = ''string[]'' then
        (case v of
           VList items \<Rightarrow> if list_all (\<lambda>i. case i of VString _ \<Rightarrow> True | _ \<Rightarrow> False) items then None
             else Some (''parameter '' @ quoted (pm_Name spec) @ '' must contain only strings'')
         | VStrings _ \<Rightarrow> None
         | _ \<Rightarrow> Some (bad_param spec))
      else if pm_Type spec = ''bool'' then (case v of VBool _ \<Rightarrow> None | _ \<Rightarrow> Some (bad_param spec))
      else if pm_Type spec = ''int'' then
        (case v of
           VInt _ \<Rightarrow> None
         | VFloat n \<Rightarrow> if n = of_int \<lfloor>n\<rfloor> \<and> - (2 ^ 63) \<le> \<lfloor>n\<rfloor> \<and> \<lfloor>n\<rfloor> < 2 ^ 63 then None else Some (bad_param spec)
         | VNumber s \<Rightarrow> if ParseInt s = None then Some (bad_param spec) else None
         | _ \<Rightarrow> Some (bad_param spec))
      else Some (''parameter '' @ quoted (pm_Name spec) @ '' declares unsupported type '' @ quoted (pm_Type spec)))"

definition param_problems :: "effective_op \<Rightarrow> op_params \<Rightarrow> string list" where
  "param_problems e params =
     map (\<lambda>spec. ''parameter '' @ quoted (pm_Name spec) @ '' declares unsupported type '' @ quoted (pm_Type spec))
       (filter (\<lambda>spec. \<not> supportedParamType (pm_Type spec)) (ef_Params e)) @
     map (\<lambda>name. ''unknown parameter '' @ quoted name) (filter (\<lambda>name. name \<notin> pm_Name ` set (ef_Params e)) (map fst params)) @
     concat (map (\<lambda>spec.
       case map_of params (pm_Name spec) of
         Some v \<Rightarrow> if v = VNull then (if pm_Required spec then [''missing required parameter '' @ quoted (pm_Name spec)] else [])
           else (case checkParamType spec v of Some e \<Rightarrow> [e] | None \<Rightarrow> [])
       | None \<Rightarrow> if pm_Required spec then [''missing required parameter '' @ quoted (pm_Name spec)] else []) (ef_Params e))"

definition ValidateParams :: "effective_op \<Rightarrow> op_params \<Rightarrow> string option" where
  "ValidateParams e params =
     (if param_problems e params = [] then None
      else Some (''addon: parameters do not match the operation'' @ [CHR 39] @ ''s schema: '' @ ef_ID e @ '': '' @
        join_with ''; '' (sort (param_problems e params))))"

section \<open>Redaction\<close>

definition redactedValue :: pval where
  "redactedValue = VString ''[REDACTED]''"

fun redactValue :: "string list \<Rightarrow> bool \<Rightarrow> pval \<Rightarrow> pval" where
  "redactValue names every (VMap kvs) =
     VMap (map (\<lambda>kv. (fst kv, if fst kv \<in> set names \<or> every then redactedValue else redactValue names every (snd kv))) kvs)"
| "redactValue names every (VList vs) = VList (map (redactValue names every) vs)"
| "redactValue names every (VStrings _) = redactedValue"
| "redactValue names every VOther = redactedValue"
| "redactValue names every v = v"

definition redactParams :: "op_params \<Rightarrow> string list \<Rightarrow> bool \<Rightarrow> op_params" where
  "redactParams params secret every =
     map (\<lambda>kv. (fst kv, if fst kv \<in> set secret \<or> every then redactedValue else redactValue secret every (snd kv))) params"

definition RedactedParams :: "effective_op option \<Rightarrow> op_params \<Rightarrow> op_params" where
  "RedactedParams resolved params =
     (case resolved of None \<Rightarrow> redactParams params [] True | Some e \<Rightarrow> redactParams params (ef_SecretParams e) False)"

section \<open>The more restrictive of the two\<close>

text \<open>
  An effective operation is bounded by its policy and by every declaration of it: the rule
  holds on every dimension, and names no order.
\<close>

definition bounded_by :: "op_policy \<Rightarrow> manifest_op list \<Rightarrow> effective_op \<Rightarrow> bool" where
  "bounded_by p ds e \<longleftrightarrow>
     ef_Scope e = (if po_Scope p \<noteq> ScopeAdmin \<and> (\<forall>d \<in> set ds. mo_Scope d = ScopeMember) then ScopeMember else ScopeAdmin) \<and>
     (ef_Confirm e \<longleftrightarrow> po_Confirm p \<or> (\<exists>d \<in> set ds. mo_Confirm d)) \<and>
     (ef_Available e \<longleftrightarrow> (\<forall>d \<in> set ds. mo_Available d)) \<and> ef_Params e = po_Params p \<and>
     set (ef_SecretParams e) = (pm_Name ` {s \<in> set (po_Params p). pm_Secret s} \<union> (\<Union>d \<in> set ds. set (mo_SecretParams d))) - {[]}"

lemma declared_bounded: "bounded_by p [d] (declared_op p d)"
  by (auto simp: bounded_by_def declared_op_def mostRestrictiveScope_def unionSecretParams_def)

lemma restrictive_bounded:
  assumes "bounded_by p ds a"
  shows "bounded_by p (ds @ [d]) (mostRestrictiveOperation a (declared_op p d))"
  using assms declared_bounded [of p d]
  by (auto simp: bounded_by_def mostRestrictiveOperation_def mostRestrictiveScope_def unionStrings_def dedupeStrings_def split: if_splits)

lemma resolve_fold:
  "case map_of (fst (fold (resolve_step policy) mos ([], []))) k of
     None \<Rightarrow> map_of policy k = None \<or> filter (\<lambda>d. mo_ID d = k) mos = []
   | Some e \<Rightarrow> (\<exists>p. map_of policy k = Some p \<and> filter (\<lambda>d. mo_ID d = k) mos \<noteq> [] \<and> ef_ID e = k \<and> bounded_by p (filter (\<lambda>d. mo_ID d = k) mos) e)"
proof (induction mos rule: rev_induct)
  case (snoc d mos)
  define st where "st = fold (resolve_step policy) mos ([], [])"
  note IH = snoc [folded st_def]
  have step: "fold (resolve_step policy) (mos @ [d]) ([], []) = resolve_step policy d st" by (simp add: st_def)
  have "case map_of (fst (resolve_step policy d st)) k of
      None \<Rightarrow> map_of policy k = None \<or> filter (\<lambda>d. mo_ID d = k) (mos @ [d]) = []
    | Some e \<Rightarrow> (\<exists>p. map_of policy k = Some p \<and> filter (\<lambda>d. mo_ID d = k) (mos @ [d]) \<noteq> [] \<and> ef_ID e = k \<and>
        bounded_by p (filter (\<lambda>d. mo_ID d = k) (mos @ [d])) e)"
  proof (cases "mo_ID d = k")
    case False
    with IH show ?thesis by (auto simp: resolve_step_def split: option.splits)
  next
    case True
    show ?thesis
    proof (cases "map_of policy k")
      case None
      with IH True show ?thesis by (auto simp: resolve_step_def split: option.splits)
    next
      case (Some p)
      have "bounded_by p (filter (\<lambda>d. mo_ID d = k) mos @ [d]) (case map_of (fst st) k of Some previous \<Rightarrow> mostRestrictiveOperation previous (declared_op p d) | None \<Rightarrow> declared_op p d)"
      proof (cases "map_of (fst st) k")
        case None
        with IH Some have "filter (\<lambda>d. mo_ID d = k) mos = []" by simp
        with None declared_bounded [of p d] show ?thesis by simp
      next
        case (Some previous)
        with IH \<open>map_of policy k = Some p\<close> have "bounded_by p (filter (\<lambda>d. mo_ID d = k) mos) previous" by simp
        with Some restrictive_bounded show ?thesis by simp
      qed
      moreover have "ef_ID (case map_of (fst st) k of Some previous \<Rightarrow> mostRestrictiveOperation previous (declared_op p d) | None \<Rightarrow> declared_op p d) = k"
        using IH True by (auto simp: mostRestrictiveOperation_def declared_op_def split: option.splits)
      ultimately show ?thesis using True Some by (simp add: resolve_step_def)
    qed
  qed
  then show ?case by (simp only: step)
qed simp

lemma resolve_wf: "wf_map (fst (fold (resolve_step policy) mos ([], [])))"
  by (induction mos rule: rev_induct) (auto simp: resolve_step_def split: option.splits)

text \<open>Which operations are offered, and how each is bounded.\<close>

lemma resolveOperations_bounded:
  assumes "e \<in> set (fst (resolveOperations_with policy mos))"
  shows "\<exists>p. map_of policy (ef_ID e) = Some p \<and> filter (\<lambda>d. mo_ID d = ef_ID e) mos \<noteq> [] \<and> bounded_by p (filter (\<lambda>d. mo_ID d = ef_ID e) mos) e"
proof -
  let ?m = "fst (fold (resolve_step policy) mos ([], []))"
  from assms obtain k where "(k, e) \<in> set ?m" by (auto simp: resolveOperations_with_def split: prod.splits)
  then have "map_of ?m k = Some e" using resolve_wf [of policy mos] by (simp add: wf_map_def)
  with resolve_fold [of policy k mos] show ?thesis by auto
qed

lemma resolveOperations_offers:
  assumes "map_of policy k = Some p" "d \<in> set mos" "mo_ID d = k"
  shows "\<exists>e \<in> set (fst (resolveOperations_with policy mos)). ef_ID e = k"
proof -
  let ?m = "fst (fold (resolve_step policy) mos ([], []))"
  have "filter (\<lambda>d. mo_ID d = k) mos \<noteq> []" using assms(2,3) by (auto simp: filter_empty_conv)
  with resolve_fold [of policy k mos] assms(1) obtain e where "map_of ?m k = Some e" "ef_ID e = k" by (auto split: option.splits)
  then have "e \<in> snd ` set ?m" by (force dest: map_of_SomeD)
  with \<open>ef_ID e = k\<close> show ?thesis by (auto simp: resolveOperations_with_def split: prod.splits)
qed

lemma resolveOperations_unique: "distinct (map ef_ID (fst (resolveOperations_with policy mos)))"
proof -
  let ?m = "fst (fold (resolve_step policy) mos ([], []))"
  have "ef_ID (snd kv) = fst kv" if "kv \<in> set ?m" for kv
  proof -
    have "map_of ?m (fst kv) = Some (snd kv)" using that resolve_wf [of policy mos] by (simp add: wf_map_def)
    with resolve_fold [of policy "fst kv" mos] show ?thesis by auto
  qed
  then have "map ef_ID (map snd ?m) = map fst ?m" by simp
  then have "distinct (map ef_ID (map snd ?m))" using resolve_wf [of policy mos] by (metis wf_map_def)
  moreover have "mset (map ef_ID (fst (resolveOperations_with policy mos))) = mset (map ef_ID (map snd ?m))"
    by (simp add: resolveOperations_with_def case_prod_unfold multiset.map_comp)
  ultimately show ?thesis using mset_eq_imp_distinct_iff by blast
qed

section \<open>What redaction leaves\<close>

text \<open>No value under a secret name, at any depth, and no value the walk cannot look into.\<close>

fun hides :: "string list \<Rightarrow> pval \<Rightarrow> bool" where
  "hides names (VMap kvs) = (\<forall>kv \<in> set kvs. if fst kv \<in> set names then snd kv = redactedValue else hides names (snd kv))"
| "hides names (VList vs) = (\<forall>v \<in> set vs. hides names v)"
| "hides names (VStrings _) = False"
| "hides names VOther = False"
| "hides names v = True"

lemma redactValue_hides: "hides names (redactValue names every v)"
  by (induction names every v rule: redactValue.induct) (auto simp: redactedValue_def)

lemma redactParams_hides:
  assumes "(k, v) \<in> set (redactParams params secret every)"
  shows "hides secret v" "k \<in> set secret \<or> every \<Longrightarrow> v = redactedValue"
  using assms redactValue_hides by (auto simp: redactParams_def redactedValue_def)

text \<open>Parameters that pass are exactly of the schema: every name is in it, every required one is there.\<close>

lemma ValidateParams_schema:
  assumes "ValidateParams e params = None"
  shows "fst ` set params \<subseteq> pm_Name ` set (ef_Params e)"
    and "s \<in> set (ef_Params e) \<Longrightarrow> pm_Required s \<Longrightarrow> \<exists>v. map_of params (pm_Name s) = Some v \<and> v \<noteq> VNull \<and> checkParamType s v = None"
proof -
  have none: "param_problems e params = []" using assms by (simp add: ValidateParams_def split: if_splits)
  then show "fst ` set params \<subseteq> pm_Name ` set (ef_Params e)" by (auto simp: param_problems_def filter_empty_conv)
  show "\<exists>v. map_of params (pm_Name s) = Some v \<and> v \<noteq> VNull \<and> checkParamType s v = None" if "s \<in> set (ef_Params e)" "pm_Required s"
    using none that by (fastforce simp: param_problems_def split: option.splits if_splits)
qed

end
