(* ===== verification/Addon_Op.thy ===== *)
theory Addon_Op
  imports Addon_Policy
begin

text \<open>
  One operation on an add-on, from the request to the record of how it ended: the record
  table (\<^verbatim>\<open>backend/internal/db/addon_operations.go\<close>), the one path a request leaves by
  (\<^verbatim>\<open>backend/internal/addons/transport.go\<close>, \<^verbatim>\<open>pipe.go\<close>, \<^verbatim>\<open>record.go\<close>) and the dispatch
  (\<^verbatim>\<open>backend/internal/services/addonop/dispatch.go\<close>).

  What the surroundings answer is an argument: whether a statement of the database fails, the
  identity the database gives a record, the operations the registry offers at each of the two
  times the code asks, and the reply of the network. The requests handed to the network are
  kept in a list of their own, so that it can be said which calls left and when.
\<close>

section \<open>The record table\<close>

abbreviation Dispatching :: string where "Dispatching \<equiv> ''dispatching''"
abbreviation OpSucceeded :: string where "OpSucceeded \<equiv> ''succeeded''"
abbreviation OpRejected :: string where "OpRejected \<equiv> ''rejected''"
abbreviation OpUnreached :: string where "OpUnreached \<equiv> ''unreached''"
abbreviation OpIndeterminate :: string where "OpIndeterminate \<equiv> ''indeterminate''"

record addon_row =
  ao_id :: string
  ao_target :: string
  ao_operation :: string
  ao_actor :: string
  ao_subject :: string
  ao_status :: string
  ao_about :: string
  ao_created :: int
  ao_claimed :: "int option"
  ao_settled :: "int option"
  ao_attempt :: nat
  ao_retry_of :: "string option"
  ao_resolution :: "string option"

record addon_params =
  ap_Target :: string
  ap_Operation :: string
  ap_ActorID :: string
  ap_SubjectID :: string
  ap_About :: string
  ap_RetryOf :: string

record op_audit =
  au_actor :: string
  au_subject :: string
  au_action :: string
  au_resource :: string

definition op_Dispatched :: "addon_row \<Rightarrow> bool" where
  "op_Dispatched r \<longleftrightarrow> ao_claimed r \<noteq> None"

definition op_Unresolved :: "addon_row \<Rightarrow> bool" where
  "op_Unresolved r \<longleftrightarrow> ao_status r = Dispatching \<or> ao_status r = OpIndeterminate"

definition first_send :: "addon_params \<Rightarrow> addon_row list \<Rightarrow> bool" where
  "first_send p rows \<longleftrightarrow>
     list_ex (\<lambda>r. ao_id r = ap_RetryOf p \<and> ao_attempt r = 1 \<and> ao_target r = ap_Target p \<and> ao_operation r = ap_Operation p \<and> ao_subject r = ap_SubjectID p) rows"

text \<open>The record and its audit row, both or neither. The index on \<open>retry_of\<close> is unique.\<close>

definition BeginAddonOperation :: "string \<Rightarrow> int \<Rightarrow> addon_params \<Rightarrow> addon_row list \<Rightarrow> op_audit list \<Rightarrow> (addon_row list \<times> op_audit list) option" where
  "BeginAddonOperation ident now p rows audit =
     (let audited = audit @ [\<lparr>au_actor = ap_ActorID p, au_subject = ap_SubjectID p,
            au_action = ''addon.'' @ ap_Target p @ ''.'' @ ap_Operation p @ ''.dispatched'', au_resource = ident\<rparr>];
          row = \<lparr>ao_id = ident, ao_target = ap_Target p, ao_operation = ap_Operation p, ao_actor = ap_ActorID p, ao_subject = ap_SubjectID p,
            ao_status = Dispatching, ao_about = ap_About p, ao_created = now, ao_claimed = None, ao_settled = None,
            ao_attempt = 1, ao_retry_of = None, ao_resolution = None\<rparr>
      in if ap_RetryOf p = [] then Some (rows @ [row], audited)
         else if first_send p rows \<and> \<not> list_ex (\<lambda>r. ao_retry_of r = Some (ap_RetryOf p)) rows
         then Some (rows @ [row\<lparr>ao_about := [], ao_attempt := 2, ao_retry_of := Some (ap_RetryOf p)\<rparr>], audited)
         else None)"

definition claimable :: "string \<Rightarrow> string \<Rightarrow> string \<Rightarrow> string \<Rightarrow> addon_row \<Rightarrow> bool" where
  "claimable ident target operation subject r \<longleftrightarrow>
     ao_id r = ident \<and> ao_status r = Dispatching \<and> ao_claimed r = None \<and> ao_target r = target \<and> ao_operation r = operation \<and> ao_subject r = subject"

definition ClaimAddonOperation :: "string \<Rightarrow> string \<Rightarrow> string \<Rightarrow> string \<Rightarrow> int \<Rightarrow> addon_row list \<Rightarrow> addon_row list option" where
  "ClaimAddonOperation ident target operation subject now rows =
     (if list_ex (claimable ident target operation subject) rows
      then Some (map (\<lambda>r. if claimable ident target operation subject r then r\<lparr>ao_claimed := Some now\<rparr> else r) rows)
      else None)"

definition settleable :: "string \<Rightarrow> string \<Rightarrow> addon_row \<Rightarrow> bool" where
  "settleable ident status r \<longleftrightarrow> ao_id r = ident \<and> ao_status r = Dispatching \<and> (ao_claimed r \<noteq> None \<or> status = OpUnreached)"

definition SettleAddonOperation :: "string \<Rightarrow> string \<Rightarrow> int \<Rightarrow> addon_row list \<Rightarrow> addon_row list option" where
  "SettleAddonOperation ident status now rows =
     (if list_ex (settleable ident status) rows
      then Some (map (\<lambda>r. if settleable ident status r then r\<lparr>ao_status := status, ao_settled := Some now\<rparr> else r) rows)
      else None)"

definition SettleUnclaimedAddonOperations :: "string \<Rightarrow> int \<Rightarrow> int \<Rightarrow> addon_row list \<Rightarrow> addon_row list" where
  "SettleUnclaimedAddonOperations target grace now rows =
     map (\<lambda>r. if ao_target r = target \<and> ao_status r = Dispatching \<and> ao_claimed r = None \<and> ao_created r < now - grace
       then r\<lparr>ao_status := OpUnreached, ao_settled := Some now\<rparr> else r) rows"

definition SelfSettledOperations :: "string list" where
  "SelfSettledOperations = [''password.set'', ''password.rotate'']"

definition answerable :: "string \<Rightarrow> string \<Rightarrow> int \<Rightarrow> int \<Rightarrow> addon_row \<Rightarrow> bool" where
  "answerable target ident grace now r \<longleftrightarrow>
     ao_id r = ident \<and> ao_target r = target \<and> ao_resolution r = None \<and> ao_operation r \<notin> set SelfSettledOperations \<and>
     (case ao_claimed r of None \<Rightarrow> False
      | Some since \<Rightarrow> ao_status r = OpIndeterminate \<or> ao_status r = Dispatching \<and> since < now - grace)"

definition op_answered_row :: "bool \<Rightarrow> int \<Rightarrow> addon_row \<Rightarrow> addon_row" where
  "op_answered_row happened now r =
     r\<lparr>ao_status := OpIndeterminate, ao_settled := (case ao_settled r of Some t \<Rightarrow> Some t | None \<Rightarrow> Some now),
       ao_resolution := Some (if happened then ''happened'' else ''not_happened'')\<rparr>"

definition ResolveAddonOperation :: "string \<Rightarrow> string \<Rightarrow> bool \<Rightarrow> string \<Rightarrow> int \<Rightarrow> int \<Rightarrow> addon_row list \<Rightarrow> op_audit list \<Rightarrow> (addon_row list \<times> op_audit list) option" where
  "ResolveAddonOperation target ident happened who grace now rows audit =
     (case find (answerable target ident grace now) rows of
        None \<Rightarrow> None
      | Some r \<Rightarrow>
          Some (map (\<lambda>r. if answerable target ident grace now r then op_answered_row happened now r else r) rows,
                audit @ [\<lparr>au_actor = who, au_subject = ao_subject r,
                  au_action = ''addon.'' @ ao_target r @ ''.'' @ ao_operation r @ (if who = ''system:syndra'' then ''.read'' else ''.answered''), au_resource = ident\<rparr>]))"

definition supersedes :: "addon_row \<Rightarrow> addon_row \<Rightarrow> bool" where
  "supersedes b r \<longleftrightarrow> ao_target r = ao_target b \<and> ao_subject r = ao_subject b \<and> ao_operation r = ao_operation b \<and> ao_id r \<noteq> ao_id b \<and>
     ao_created r \<le> ao_created b \<and> ao_resolution r = None \<and> ao_claimed r \<noteq> None \<and> op_Unresolved r"

definition SupersedeAddonOperations :: "string \<Rightarrow> addon_row list \<Rightarrow> addon_row list" where
  "SupersedeAddonOperations who rows =
     (case find (\<lambda>b. ao_id b = who \<and> ao_status b = OpSucceeded) rows of
        None \<Rightarrow> rows
      | Some b \<Rightarrow> map (\<lambda>r. if supersedes b r then r\<lparr>ao_resolution := Some ''superseded''\<rparr> else r) rows)"

definition CountRecentAddonOperations :: "string \<Rightarrow> string \<Rightarrow> string \<Rightarrow> int \<Rightarrow> int \<Rightarrow> addon_row list \<Rightarrow> nat" where
  "CountRecentAddonOperations target subject operation window now rows =
     length (filter (\<lambda>r. ao_target r = target \<and> ao_subject r = subject \<and> ao_operation r = operation \<and> ao_retry_of r = None \<and>
       ao_created r > now - window) rows)"

section \<open>The transport\<close>

datatype addon_outcome = OutcomeSucceeded | OutcomeRejected | OutcomeUnreached | OutcomeIndeterminate

definition StatusFor :: "addon_outcome \<Rightarrow> string" where
  "StatusFor x = (case x of OutcomeSucceeded \<Rightarrow> OpSucceeded | OutcomeRejected \<Rightarrow> OpRejected | OutcomeUnreached \<Rightarrow> OpUnreached | OutcomeIndeterminate \<Rightarrow> OpIndeterminate)"

definition classifyStatus :: "int \<Rightarrow> bool \<Rightarrow> addon_outcome" where
  "classifyStatus code retryAfter =
     (if 200 \<le> code \<and> code < 300 then OutcomeSucceeded
      else if code = 429 then OutcomeUnreached
      else if code = 408 then OutcomeIndeterminate
      else if code = 503 \<and> retryAfter then OutcomeUnreached
      else if code \<ge> 500 then OutcomeIndeterminate
      else OutcomeRejected)"

text \<open>
  What the client makes of a request: the context had ended, the connection could not be
  made, the exchange broke, or an answer came, with whether its body was cut off, whether it
  was over the bound, and whether it carried \<open>Retry-After\<close>.
\<close>

datatype http_reply = CtxEnded | DialFailed | Broken | HttpAnswer int bool bool bool string

record call_response =
  cr_Outcome :: addon_outcome
  cr_Body :: string
  cr_LifecycleRefusal :: bool

definition doAuthenticated :: "http_reply \<Rightarrow> call_response" where
  "doAuthenticated reply =
     (case reply of
        CtxEnded \<Rightarrow> \<lparr>cr_Outcome = OutcomeUnreached, cr_Body = [], cr_LifecycleRefusal = False\<rparr>
      | DialFailed \<Rightarrow> \<lparr>cr_Outcome = OutcomeUnreached, cr_Body = [], cr_LifecycleRefusal = False\<rparr>
      | Broken \<Rightarrow> \<lparr>cr_Outcome = OutcomeIndeterminate, cr_Body = [], cr_LifecycleRefusal = False\<rparr>
      | HttpAnswer code cut_off oversized retry_after body \<Rightarrow>
          let lifecycle = (code = 503 \<and> retry_after); out = classifyStatus code lifecycle
          in \<lparr>cr_Outcome = (if (cut_off \<or> oversized) \<and> out = OutcomeSucceeded then OutcomeIndeterminate else out),
              cr_Body = body, cr_LifecycleRefusal = lifecycle\<rparr>)"

record breaker =
  br_failures :: nat
  br_openUntil :: int

definition breakerThreshold :: nat where "breakerThreshold = 5"
definition breakerCooldown :: int where "breakerCooldown = 30 * 1000000000"

definition breaker_allow :: "breaker \<Rightarrow> int \<Rightarrow> bool" where
  "breaker_allow b now \<longleftrightarrow> br_openUntil b = 0 \<or> \<not> now < br_openUntil b"

definition breaker_record :: "int \<Rightarrow> call_response \<Rightarrow> breaker \<Rightarrow> breaker" where
  "breaker_record now resp b =
     (if cr_Outcome resp = OutcomeSucceeded \<or> cr_Outcome resp = OutcomeRejected then \<lparr>br_failures = 0, br_openUntil = 0\<rparr>
      else if cr_LifecycleRefusal resp then b
      else let n = Suc (br_failures b)
           in \<lparr>br_failures = n, br_openUntil = (if n \<ge> breakerThreshold then now + breakerCooldown else br_openUntil b)\<rparr>)"

section \<open>Sending\<close>

record op_world =
  ow_rows :: "addon_row list"
  ow_audit :: "op_audit list"
  ow_breaker :: breaker
  ow_wire :: "string list"

text \<open>What the surroundings answer while one operation is sent.\<close>

record send_env =
  se_now :: int
  se_credential :: bool
  se_claim_fails :: bool
  se_reply :: http_reply

definition unreached :: call_response where
  "unreached = \<lparr>cr_Outcome = OutcomeUnreached, cr_Body = [], cr_LifecycleRefusal = False\<rparr>"

text \<open>
  The pipe's \<open>send\<close> for a write that carries a claim: the breaker, the credential, the claim,
  and only then the request. A context that had ended is found after the claim.
\<close>

definition pipe_send :: "send_env \<Rightarrow> string \<Rightarrow> string \<Rightarrow> string \<Rightarrow> string \<Rightarrow> op_world \<Rightarrow> call_response \<times> op_world" where
  "pipe_send env ident target operation subject w =
     (if \<not> breaker_allow (ow_breaker w) (se_now env) then (unreached, w)
      else if \<not> se_credential env then (unreached, w)
      else case (if se_claim_fails env then None else ClaimAddonOperation ident target operation subject (se_now env) (ow_rows w)) of
             None \<Rightarrow> (unreached, w)
           | Some rows \<Rightarrow>
               let resp = doAuthenticated (se_reply env)
               in (resp, w\<lparr>ow_rows := rows, ow_wire := (if se_reply env = CtxEnded then ow_wire w else ow_wire w @ [ident]),
                     ow_breaker := breaker_record (se_now env) resp (ow_breaker w)\<rparr>))"

datatype op_error = ErrNotRegistered | ErrNoManifest | ErrUnknownOperation | ErrOperationUnavailable string
  | ErrConfirmationRequired | ErrSubjectNotActor | ErrInvalidParams string | ErrRateLimited | NothingDispatched | OutcomeNotRecorded

text \<open>The registry as the callability gate reads it: the operations of the accepted manifest, if there is one.\<close>

record op_registry =
  og_registered :: bool
  og_ops :: "effective_op list option"

definition ResolveOperation :: "op_registry \<Rightarrow> string \<Rightarrow> op_error + effective_op" where
  "ResolveOperation reg ident =
     (if \<not> og_registered reg then Inl ErrNotRegistered
      else case og_ops reg of
             None \<Rightarrow> Inl ErrNoManifest
           | Some ops \<Rightarrow>
               (case find (\<lambda>e. ef_ID e = ident) ops of
                  None \<Rightarrow> Inl ErrUnknownOperation
                | Some e \<Rightarrow> if ef_Available e then Inr e else Inl (ErrOperationUnavailable (ef_UnavailableReason e))))"

record op_request =
  or_Target :: string
  or_Operation :: string
  or_ActorID :: string
  or_SubjectID :: string
  or_Confirmed :: bool
  or_Params :: op_params
  or_About :: string
  or_RetryOf :: string

definition addon_Call :: "op_registry \<Rightarrow> send_env \<Rightarrow> string \<Rightarrow> op_request \<Rightarrow> op_world \<Rightarrow> call_response \<times> op_world" where
  "addon_Call reg env ident req w =
     (case ResolveOperation reg (or_Operation req) of
        Inl _ \<Rightarrow> (unreached, w)
      | Inr e \<Rightarrow>
          if ValidateParams e (or_Params req) \<noteq> None then (unreached, w)
          else if ident = [] then (unreached, w)
          else pipe_send env ident (or_Target req) (or_Operation req) (or_SubjectID req) w)"

section \<open>The dispatch\<close>

definition bindSubjectToActor :: "op_scope \<Rightarrow> string \<Rightarrow> string \<Rightarrow> bool" where
  "bindSubjectToActor scope actor subject \<longleftrightarrow>
     scope \<noteq> ScopeMember \<or> trim_space actor \<noteq> [] \<and> trim_space subject \<noteq> [] \<and> actor = subject"

definition memberOpWindow :: int where
  "memberOpWindow = 3600 * 1000000000"

text \<open>The count, or a failure to read it, and the limit of the environment.\<close>

definition withinSubjectRate :: "effective_op \<Rightarrow> nat option \<Rightarrow> nat \<Rightarrow> bool" where
  "withinSubjectRate e counted limit \<longleftrightarrow>
     ef_Scope e \<noteq> ScopeMember \<or> (case counted of None \<Rightarrow> False | Some n \<Rightarrow> n < limit)"

definition aboutOperations :: "string list" where
  "aboutOperations = [''account.adopt'', ''account.release'', ''account.purge'', ''setting.put'']"

record dispatch_env =
  de_now :: int
  de_registry :: op_registry
  de_count_fails :: bool
  de_limit :: nat
  de_begin_fails :: bool
  de_ident :: string
  de_registry_at_call :: op_registry
  de_send :: send_env
  de_settle_fails :: bool

record op_result =
  re_OperationID :: string
  re_Status :: string
  re_Outcome :: addon_outcome
  re_AccountUID :: int

definition op_counted :: "dispatch_env \<Rightarrow> op_request \<Rightarrow> op_world \<Rightarrow> nat option" where
  "op_counted env req w =
     (if de_count_fails env then None
      else Some (CountRecentAddonOperations (or_Target req) (or_SubjectID req) (or_Operation req) memberOpWindow (de_now env) (ow_rows w)))"

definition op_record :: "op_request \<Rightarrow> addon_params" where
  "op_record req = \<lparr>ap_Target = or_Target req, ap_Operation = or_Operation req, ap_ActorID = or_ActorID req, ap_SubjectID = or_SubjectID req,
     ap_About = (if or_Operation req \<in> set aboutOperations then or_About req else []), ap_RetryOf = or_RetryOf req\<rparr>"

text \<open>From the committed record on: the call, then its outcome. \<open>uid\<close> reads the account from an answer's body.\<close>

definition dispatch_recorded :: "(string \<Rightarrow> int option) \<Rightarrow> dispatch_env \<Rightarrow> op_request \<Rightarrow> op_world \<Rightarrow> (op_result option \<times> op_error option) \<times> op_world" where
  "dispatch_recorded uid env req w =
     (case addon_Call (de_registry_at_call env) (de_send env) (de_ident env) req w of
        (resp, w1) \<Rightarrow>
          let status = StatusFor (cr_Outcome resp);
              account = (if cr_Outcome resp = OutcomeSucceeded \<and> cr_Body resp \<noteq> [] then (case uid (cr_Body resp) of Some n \<Rightarrow> n | None \<Rightarrow> 0) else 0);
              result = \<lparr>re_OperationID = de_ident env, re_Status = status, re_Outcome = cr_Outcome resp, re_AccountUID = account\<rparr>
          in case (if de_settle_fails env then None else SettleAddonOperation (de_ident env) status (de_now env) (ow_rows w1)) of
               None \<Rightarrow> ((Some (result\<lparr>re_Status := Dispatching\<rparr>), Some OutcomeNotRecorded), w1)
             | Some rows \<Rightarrow> ((Some result, None), w1\<lparr>ow_rows := rows\<rparr>))"

text \<open>A request that is refused before the record: nothing is written and nothing leaves. No result is the empty one.\<close>

definition dispatch_refusal :: "dispatch_env \<Rightarrow> op_request \<Rightarrow> op_world \<Rightarrow> op_error option" where
  "dispatch_refusal env req w =
     (case ResolveOperation (de_registry env) (or_Operation req) of
        Inl err \<Rightarrow> Some err
      | Inr e \<Rightarrow>
          if ef_Confirm e \<and> \<not> or_Confirmed req then Some ErrConfirmationRequired
          else if \<not> bindSubjectToActor (ef_Scope e) (or_ActorID req) (or_SubjectID req) then Some ErrSubjectNotActor
          else case ValidateParams e (or_Params req) of
                 Some msg \<Rightarrow> Some (ErrInvalidParams msg)
               | None \<Rightarrow>
                   if or_RetryOf req = [] \<and> \<not> withinSubjectRate e (op_counted env req w) (de_limit env) then Some ErrRateLimited
                   else None)"

definition op_Dispatch :: "(string \<Rightarrow> int option) \<Rightarrow> dispatch_env \<Rightarrow> op_request \<Rightarrow> op_world \<Rightarrow> (op_result option \<times> op_error option) \<times> op_world" where
  "op_Dispatch uid env req w =
     (case dispatch_refusal env req w of
        Some err \<Rightarrow> ((None, Some err), w)
      | None \<Rightarrow>
          (case (if de_begin_fails env then None else BeginAddonOperation (de_ident env) (de_now env) (op_record req) (ow_rows w) (ow_audit w)) of
             None \<Rightarrow> ((None, Some NothingDispatched), w)
           | Some (rows, audit) \<Rightarrow> dispatch_recorded uid env req (w\<lparr>ow_rows := rows, ow_audit := audit\<rparr>)))"

section \<open>Who may have what sent\<close>

lemma pipe_send_wire:
  assumes "pipe_send env ident target operation subject w = (resp, w')"
  shows "(w' = w \<and> resp = unreached) \<or>
    (\<exists>rows. ClaimAddonOperation ident target operation subject (se_now env) (ow_rows w) = Some rows \<and> ow_rows w' = rows \<and> ow_audit w' = ow_audit w \<and>
       resp = doAuthenticated (se_reply env) \<and> ow_wire w' = (if se_reply env = CtxEnded then ow_wire w else ow_wire w @ [ident]))"
  using assms by (auto simp: pipe_send_def Let_def split: if_splits option.splits)

lemma addon_Call_wire:
  assumes "addon_Call reg env ident req w = (resp, w')"
  shows "(w' = w \<and> resp = unreached) \<or>
    (\<exists>rows. ClaimAddonOperation ident (or_Target req) (or_Operation req) (or_SubjectID req) (se_now env) (ow_rows w) = Some rows \<and> ow_rows w' = rows \<and> ow_audit w' = ow_audit w \<and>
       resp = doAuthenticated (se_reply env) \<and> ow_wire w' = (if se_reply env = CtxEnded then ow_wire w else ow_wire w @ [ident]))"
  using assms pipe_send_wire [of env ident "or_Target req" "or_Operation req" "or_SubjectID req" w resp w']
  by (auto simp: addon_Call_def split: sum.splits if_splits)

lemma dispatch_recorded_wire:
  assumes "dispatch_recorded uid env req w = (out, w')"
  obtains resp w1 where "addon_Call (de_registry_at_call env) (de_send env) (de_ident env) req w = (resp, w1)"
    "w' = w1 \<or> (\<exists>rows. SettleAddonOperation (de_ident env) (StatusFor (cr_Outcome resp)) (de_now env) (ow_rows w1) = Some rows \<and> w' = w1\<lparr>ow_rows := rows\<rparr>)"
proof -
  obtain resp w1 where c: "addon_Call (de_registry_at_call env) (de_send env) (de_ident env) req w = (resp, w1)" by (rule prod.exhaust)
  with assms have "w' = w1 \<or> (\<exists>rows. SettleAddonOperation (de_ident env) (StatusFor (cr_Outcome resp)) (de_now env) (ow_rows w1) = Some rows \<and> w' = w1\<lparr>ow_rows := rows\<rparr>)"
    by (auto simp: dispatch_recorded_def Let_def split: option.splits if_splits)
  with c show ?thesis by (rule that)
qed

text \<open>What a claim and a settle keep of a row.\<close>

lemma claim_marks:
  assumes "ClaimAddonOperation ident target operation subject now rows = Some rows'"
  shows "\<exists>r \<in> set rows. claimable ident target operation subject r \<and> r\<lparr>ao_claimed := Some now\<rparr> \<in> set rows'"
  using assms by (auto simp: ClaimAddonOperation_def list_ex_iff split: if_splits)

lemma settle_keeps:
  assumes "SettleAddonOperation ident status now rows = Some rows'" "r \<in> set rows"
  shows "\<exists>r' \<in> set rows'. r' = r \<or> r' = r\<lparr>ao_status := status, ao_settled := Some now\<rparr>"
proof -
  let ?f = "\<lambda>r. if settleable ident status r then r\<lparr>ao_status := status, ao_settled := Some now\<rparr> else r"
  have "rows' = map ?f rows" using assms(1) by (simp add: SettleAddonOperation_def split: if_splits)
  hence "?f r \<in> set rows'" using assms(2) by simp
  thus ?thesis by (cases "settleable ident status r") auto
qed

lemma begin_appends:
  assumes "BeginAddonOperation ident now rec rows audit = Some (rows', audit')"
  obtains row line where "rows' = rows @ [row]" "audit' = audit @ [line]" "ao_id row = ident" "ao_actor row = ap_ActorID rec"
    "ao_subject row = ap_SubjectID rec" "ao_status row = Dispatching" "ao_claimed row = None" "ao_settled row = None"
    "au_actor line = ap_ActorID rec" "au_subject line = ap_SubjectID rec" "au_resource line = ident"
  using assms by (auto simp: BeginAddonOperation_def Let_def split: if_splits)

definition authorised :: "manifest_op list \<Rightarrow> op_request \<Rightarrow> bool" where
  "authorised mos req \<longleftrightarrow>
     (\<exists>p. map_of operationPolicy (or_Operation req) = Some p \<and>
       (let ds = filter (\<lambda>d. mo_ID d = or_Operation req) mos
        in ds \<noteq> [] \<and> (\<forall>d \<in> set ds. mo_Available d) \<and>
          (po_Confirm p \<or> (\<exists>d \<in> set ds. mo_Confirm d) \<longrightarrow> or_Confirmed req) \<and>
          (po_Scope p \<noteq> ScopeAdmin \<and> (\<forall>d \<in> set ds. mo_Scope d = ScopeMember) \<longrightarrow>
             or_ActorID req = or_SubjectID req \<and> trim_space (or_ActorID req) \<noteq> []) \<and>
          fst ` set (or_Params req) \<subseteq> pm_Name ` set (po_Params p) \<and>
          (\<forall>s \<in> set (po_Params p). pm_Required s \<longrightarrow> (\<exists>v. map_of (or_Params req) (pm_Name s) = Some v \<and> v \<noteq> VNull \<and> checkParamType s v = None))))"

lemma not_refused_authorised:
  assumes "dispatch_refusal env req w = None" "og_ops (de_registry env) = Some (fst (resolveOperations mos))"
  shows "authorised mos req"
proof -
  obtain e where e: "ResolveOperation (de_registry env) (or_Operation req) = Inr e" and conf: "ef_Confirm e \<longrightarrow> or_Confirmed req"
    and bind: "bindSubjectToActor (ef_Scope e) (or_ActorID req) (or_SubjectID req)" and params: "ValidateParams e (or_Params req) = None"
    using assms(1) by (auto simp: dispatch_refusal_def split: sum.splits if_splits option.splits)
  from e assms(2) have "e \<in> set (fst (resolveOperations mos))" "ef_ID e = or_Operation req" and av: "ef_Available e"
    by (auto simp: ResolveOperation_def find_Some_iff split: if_splits option.splits)
  then obtain p where p: "map_of operationPolicy (or_Operation req) = Some p" "filter (\<lambda>d. mo_ID d = or_Operation req) mos \<noteq> []"
    and b: "bounded_by p (filter (\<lambda>d. mo_ID d = or_Operation req) mos) e"
    using resolveOperations_bounded [of e operationPolicy mos] by (auto simp: resolveOperations_def)
  have "ef_Params e = po_Params p" using b by (simp add: bounded_by_def)
  with ValidateParams_schema [OF params] p b conf bind av show ?thesis
    unfolding authorised_def Let_def by (intro exI [of _ p]) (auto simp: bounded_by_def bindSubjectToActor_def split: if_splits)
qed

definition op_row_of :: "string \<Rightarrow> op_request \<Rightarrow> addon_row \<Rightarrow> bool" where
  "op_row_of ident req r \<longleftrightarrow> ao_id r = ident \<and> ao_actor r = or_ActorID req \<and> ao_subject r = or_SubjectID req \<and>
     ao_target r = or_Target req \<and> ao_operation r = or_Operation req \<and> ao_claimed r \<noteq> None"

lemma op_row_of_settled: "op_row_of ident req (r\<lparr>ao_status := s, ao_settled := t\<rparr>) = op_row_of ident req r"
  by (simp add: op_row_of_def)

lemma recorded_sends:
  assumes "dispatch_recorded uid env req w = ((result, err), w')"
    and only: "\<And>r. r \<in> set (ow_rows w) \<Longrightarrow> ao_id r = de_ident env \<Longrightarrow> ao_actor r = or_ActorID req"
  shows "ow_audit w' = ow_audit w"
    and "ow_wire w' = ow_wire w \<or> ow_wire w' = ow_wire w @ [de_ident env] \<and> (\<exists>r \<in> set (ow_rows w'). op_row_of (de_ident env) req r)"
proof -
  obtain resp w1 where call: "addon_Call (de_registry_at_call env) (de_send env) (de_ident env) req w = (resp, w1)"
    and w': "w' = w1 \<or> (\<exists>rows. SettleAddonOperation (de_ident env) (StatusFor (cr_Outcome resp)) (de_now env) (ow_rows w1) = Some rows \<and> w' = w1\<lparr>ow_rows := rows\<rparr>)"
    by (rule dispatch_recorded_wire [OF assms(1)])
  have same: "ow_audit w' = ow_audit w1" "ow_wire w' = ow_wire w1" using w' by auto
  from addon_Call_wire [OF call] same(1) show "ow_audit w' = ow_audit w" by auto
  from addon_Call_wire [OF call]
  show "ow_wire w' = ow_wire w \<or> ow_wire w' = ow_wire w @ [de_ident env] \<and> (\<exists>r \<in> set (ow_rows w'). op_row_of (de_ident env) req r)"
  proof (elim disjE exE conjE)
    assume "w1 = w" thus ?thesis using same by simp
  next
    fix rows
    assume rows: "ClaimAddonOperation (de_ident env) (or_Target req) (or_Operation req) (or_SubjectID req) (se_now (de_send env)) (ow_rows w) = Some rows"
      and w1: "ow_rows w1 = rows" and wire: "ow_wire w1 = (if se_reply (de_send env) = CtxEnded then ow_wire w else ow_wire w @ [de_ident env])"
    obtain r where r: "r \<in> set (ow_rows w)" "claimable (de_ident env) (or_Target req) (or_Operation req) (or_SubjectID req) r"
      and mine: "r\<lparr>ao_claimed := Some (se_now (de_send env))\<rparr> \<in> set rows" using claim_marks [OF rows] by blast
    let ?r = "r\<lparr>ao_claimed := Some (se_now (de_send env))\<rparr>"
    have row: "op_row_of (de_ident env) req ?r" using r only by (simp add: claimable_def op_row_of_def)
    from w' have "\<exists>r \<in> set (ow_rows w'). op_row_of (de_ident env) req r"
    proof
      assume "w' = w1" thus ?thesis using mine row w1 by auto
    next
      assume "\<exists>rs. SettleAddonOperation (de_ident env) (StatusFor (cr_Outcome resp)) (de_now env) (ow_rows w1) = Some rs \<and> w' = w1\<lparr>ow_rows := rs\<rparr>"
      then obtain rs where "SettleAddonOperation (de_ident env) (StatusFor (cr_Outcome resp)) (de_now env) (ow_rows w1) = Some rs" "ow_rows w' = rs" by auto
      with settle_keeps [of "de_ident env" "StatusFor (cr_Outcome resp)" "de_now env" "ow_rows w1" rs ?r] mine w1
      obtain r' where "r' \<in> set (ow_rows w')" "r' = ?r \<or> r' = ?r\<lparr>ao_status := StatusFor (cr_Outcome resp), ao_settled := Some (de_now env)\<rparr>" by blast
      thus ?thesis using row op_row_of_settled by metis
    qed
    thus ?thesis using wire same by simp
  qed
qed

text \<open>
  C24. Nothing reaches an add-on that the backend's own policy does not allow. When a
  dispatch puts a request on the wire, the operation is one the policy knows and every
  declaration of it in the manifest says is available; it was confirmed if the policy or any
  declaration asks for it; if members may use it, it acts on the very person who asked; its
  parameters are the policy's and the required ones are there. Exactly one request left,
  under a record with this actor and subject that was committed with its audit line before.
  A refused dispatch changes nothing at all. A manifest can only ever narrow.
\<close>

theorem dispatch_needs_authority:
  assumes "og_ops (de_registry env) = Some (fst (resolveOperations mos))" and "de_ident env \<notin> ao_id ` set (ow_rows w)"
    and "op_Dispatch uid env req w = ((result, err), w')"
  shows "(ow_wire w' \<noteq> ow_wire w \<longrightarrow>
      authorised mos req \<and> ow_wire w' = ow_wire w @ [de_ident env] \<and>
      (\<exists>line. ow_audit w' = ow_audit w @ [line] \<and> au_actor line = or_ActorID req \<and> au_subject line = or_SubjectID req \<and> au_resource line = de_ident env) \<and>
      (\<exists>r \<in> set (ow_rows w'). op_row_of (de_ident env) req r)) \<and>
    (result = None \<longrightarrow> w' = w)"
proof (cases "dispatch_refusal env req w")
  case (Some e)
  with assms(3) show ?thesis by (simp add: op_Dispatch_def)
next
  case None
  note auth = not_refused_authorised [OF None assms(1)]
  show ?thesis
  proof (cases "if de_begin_fails env then None else BeginAddonOperation (de_ident env) (de_now env) (op_record req) (ow_rows w) (ow_audit w)")
    case n: None
    with None assms(3) show ?thesis by (simp add: op_Dispatch_def)
  next
    case (Some ra)
    obtain rows audit where ra: "ra = (rows, audit)" by (rule prod.exhaust)
    let ?w = "w\<lparr>ow_rows := rows, ow_audit := audit\<rparr>"
    have begun: "BeginAddonOperation (de_ident env) (de_now env) (op_record req) (ow_rows w) (ow_audit w) = Some (rows, audit)"
      using Some ra by (auto split: if_splits)
    have rec: "dispatch_recorded uid env req ?w = ((result, err), w')" using assms(3) None Some ra by (simp add: op_Dispatch_def)
    have res: "result \<noteq> None" using rec by (auto simp: dispatch_recorded_def Let_def split: prod.splits option.splits if_splits)
    from begun have line: "\<exists>line. audit = ow_audit w @ [line] \<and> au_actor line = or_ActorID req \<and> au_subject line = or_SubjectID req \<and> au_resource line = de_ident env"
      by (rule begin_appends) (simp add: op_record_def)
    from begun have only: "r \<in> set (ow_rows ?w) \<Longrightarrow> ao_id r = de_ident env \<Longrightarrow> ao_actor r = or_ActorID req" for r
      by (rule begin_appends) (use assms(2) in \<open>auto simp: op_record_def image_iff\<close>)
    from recorded_sends [OF rec only] auth line res show ?thesis by auto
  qed
qed

definition sample_manifest :: "manifest_op list" where
  "sample_manifest = [\<lparr>mo_ID = ''password.set'', mo_Scope = ScopeMember, mo_Confirm = False, mo_SecretParams = [], mo_Available = True, mo_UnavailableReason = []\<rparr>]"

definition sample_request :: op_request where
  "sample_request = \<lparr>or_Target = ''nas'', or_Operation = ''password.set'', or_ActorID = ''u1'', or_SubjectID = ''u1'', or_Confirmed = False,
     or_Params = [(''password'', VString ''pw'')], or_About = [], or_RetryOf = []\<rparr>"

definition sample_env :: dispatch_env where
  "sample_env = \<lparr>de_now = 10, de_registry = \<lparr>og_registered = True, og_ops = Some (fst (resolveOperations sample_manifest))\<rparr>,
     de_count_fails = False, de_limit = 5, de_begin_fails = False, de_ident = ''op1'',
     de_registry_at_call = \<lparr>og_registered = True, og_ops = Some (fst (resolveOperations sample_manifest))\<rparr>,
     de_send = \<lparr>se_now = 11, se_credential = True, se_claim_fails = False, se_reply = HttpAnswer 200 False False False []\<rparr>, de_settle_fails = False\<rparr>"

definition sample_world :: op_world where
  "sample_world = \<lparr>ow_rows = [], ow_audit = [], ow_breaker = \<lparr>br_failures = 0, br_openUntil = 0\<rparr>, ow_wire = []\<rparr>"

lemma sample_sent: "ow_wire (snd (op_Dispatch (\<lambda>_. None) sample_env sample_request sample_world)) = [''op1'']"
  by code_simp

theorem dispatch_needs_authority_witness:
  "authorised sample_manifest sample_request \<and> ow_wire (snd (op_Dispatch (\<lambda>_. None) sample_env sample_request sample_world)) = [''op1'']"
proof -
  let ?d = "op_Dispatch (\<lambda>_. None) sample_env sample_request sample_world"
  have sent: "ow_wire (snd ?d) \<noteq> ow_wire sample_world" using sample_sent by (simp add: sample_world_def)
  have "og_ops (de_registry sample_env) = Some (fst (resolveOperations sample_manifest))" "de_ident sample_env \<notin> ao_id ` set (ow_rows sample_world)"
    by (simp_all add: sample_env_def sample_world_def)
  from dispatch_needs_authority [OF this, of "\<lambda>_. None" sample_request "fst (fst ?d)" "snd (fst ?d)" "snd ?d"] sent sample_sent
  show ?thesis by simp
qed

section \<open>Every operation is sent at most once\<close>

text \<open>
  Senders, settlers, operators and the sweep, in any interleaving. A state is the table, the
  records that some sender has claimed and not sent yet, and the requests on the wire. The
  identity of a new record is the database's and fresh.
\<close>

type_synonym op_state = "addon_row list \<times> string list \<times> string list"

inductive op_step :: "op_state \<Rightarrow> op_state \<Rightarrow> bool" where
  op_Begin: "BeginAddonOperation ident now p rows audit = Some (rows', audit') \<Longrightarrow> ident \<notin> ao_id ` set rows \<Longrightarrow> op_step (rows, claims, wire) (rows', claims, wire)"
| op_Claim: "ClaimAddonOperation ident target operation subject now rows = Some rows' \<Longrightarrow> op_step (rows, claims, wire) (rows', ident # claims, wire)"
| op_Send: "op_step (rows, ident # claims, wire) (rows, claims, wire @ [ident])"
| op_Lost: "op_step (rows, ident # claims, wire) (rows, claims, wire)"
| op_Turn: "mset claims' = mset claims \<Longrightarrow> op_step (rows, claims, wire) (rows, claims', wire)"
| op_Settle: "SettleAddonOperation ident status now rows = Some rows' \<Longrightarrow> op_step (rows, claims, wire) (rows', claims, wire)"
| op_Unclaimed: "op_step (rows, claims, wire) (SettleUnclaimedAddonOperations target grace now rows, claims, wire)"
| op_Resolve: "ResolveAddonOperation target ident happened who grace now rows audit = Some (rows', audit') \<Longrightarrow> op_step (rows, claims, wire) (rows', claims, wire)"
| op_Supersede: "op_step (rows, claims, wire) (SupersedeAddonOperations ident rows, claims, wire)"

inductive_cases op_stepE: "op_step s s'"

text \<open>Every statement but the insert is a change of single rows that keeps who asked for what, and never takes a claim back.\<close>

definition row_moves :: "addon_row \<Rightarrow> addon_row \<Rightarrow> bool" where
  "row_moves r r' \<longleftrightarrow>
     ao_id r' = ao_id r \<and> ao_target r' = ao_target r \<and> ao_operation r' = ao_operation r \<and> ao_subject r' = ao_subject r \<and>
     ao_attempt r' = ao_attempt r \<and> ao_retry_of r' = ao_retry_of r \<and>
     (ao_claimed r \<noteq> None \<longrightarrow> ao_claimed r' \<noteq> None) \<and>
     (ao_claimed r' = None \<longrightarrow> ao_status r' \<in> {ao_status r, OpUnreached} \<and> ao_resolution r' = ao_resolution r)"

definition rows_move :: "addon_row list \<Rightarrow> addon_row list \<Rightarrow> bool" where
  "rows_move rows rows' \<longleftrightarrow> (\<exists>f. rows' = map f rows \<and> (\<forall>r. row_moves r (f r)))"

lemma rows_moveI: "rows' = map f rows \<Longrightarrow> (\<And>r. row_moves r (f r)) \<Longrightarrow> rows_move rows rows'"
  by (auto simp: rows_move_def)

lemma claim_moves: "ClaimAddonOperation ident target operation subject now rows = Some rows' \<Longrightarrow> rows_move rows rows'"
  by (rule rows_moveI [of _ "\<lambda>r. if claimable ident target operation subject r then r\<lparr>ao_claimed := Some now\<rparr> else r"])
    (auto simp: ClaimAddonOperation_def row_moves_def split: if_splits)

lemma settle_moves: "SettleAddonOperation ident status now rows = Some rows' \<Longrightarrow> rows_move rows rows'"
  by (rule rows_moveI [of _ "\<lambda>r. if settleable ident status r then r\<lparr>ao_status := status, ao_settled := Some now\<rparr> else r"])
    (auto simp: SettleAddonOperation_def settleable_def row_moves_def split: if_splits)

lemma unclaimed_moves: "rows_move rows (SettleUnclaimedAddonOperations target grace now rows)"
  unfolding SettleUnclaimedAddonOperations_def by (rule rows_moveI [OF refl]) (simp add: row_moves_def)

lemma resolve_moves: "ResolveAddonOperation target ident happened who grace now rows audit = Some (rows', audit') \<Longrightarrow> rows_move rows rows'"
  by (rule rows_moveI [of _ "\<lambda>r. if answerable target ident grace now r then op_answered_row happened now r else r"])
    (auto simp: ResolveAddonOperation_def op_answered_row_def answerable_def row_moves_def split: option.splits if_splits)

lemma supersede_moves: "rows_move rows (SupersedeAddonOperations ident rows)"
proof (cases "find (\<lambda>b. ao_id b = ident \<and> ao_status b = OpSucceeded) rows")
  case None
  thus ?thesis by (intro rows_moveI [of _ id]) (auto simp: SupersedeAddonOperations_def row_moves_def)
next
  case (Some b)
  thus ?thesis
    by (intro rows_moveI [of _ "\<lambda>r. if supersedes b r then r\<lparr>ao_resolution := Some ''superseded''\<rparr> else r"])
      (auto simp: SupersedeAddonOperations_def supersedes_def row_moves_def)
qed

definition unsent_row :: "addon_row \<Rightarrow> bool" where
  "unsent_row r \<longleftrightarrow> (ao_status r = Dispatching \<or> ao_status r = OpUnreached) \<and> ao_resolution r = None"

definition retry_row :: "addon_row list \<Rightarrow> addon_row \<Rightarrow> bool" where
  "retry_row rows r \<longleftrightarrow> (case ao_retry_of r of
       None \<Rightarrow> ao_attempt r = 1
     | Some i \<Rightarrow> ao_attempt r = 2 \<and> (\<exists>r1 \<in> set rows. ao_id r1 = i \<and> ao_attempt r1 = 1 \<and> ao_target r1 = ao_target r \<and>
         ao_operation r1 = ao_operation r \<and> ao_subject r1 = ao_subject r))"

definition table_ok :: "addon_row list \<Rightarrow> bool" where
  "table_ok rows \<longleftrightarrow> distinct (map ao_id rows) \<and> (\<forall>r \<in> set rows. (ao_claimed r = None \<longrightarrow> unsent_row r) \<and> retry_row rows r) \<and>
     distinct (filter (\<lambda>x. x \<noteq> None) (map ao_retry_of rows))"

definition sends_ok :: "addon_row list \<Rightarrow> string list \<Rightarrow> bool" where
  "sends_ok rows used \<longleftrightarrow> distinct used \<and> (\<forall>i \<in> set used. \<exists>r \<in> set rows. ao_id r = i \<and> ao_claimed r \<noteq> None)"

lemma moves_table:
  assumes "table_ok rows" "rows_move rows rows'"
  shows "table_ok rows'"
proof -
  obtain f where f: "rows' = map f rows" "\<And>r. row_moves r (f r)" using assms(2) by (auto simp: rows_move_def)
  have ids: "map ao_id rows' = map ao_id rows" "map ao_retry_of rows' = map ao_retry_of rows" using f by (auto simp: row_moves_def)
  have "(ao_claimed (f r) = None \<longrightarrow> unsent_row (f r)) \<and> retry_row rows' (f r)" if "r \<in> set rows" for r
  proof -
    have "ao_claimed (f r) = None \<longrightarrow> unsent_row (f r)" using assms(1) that f(2) [of r] by (auto simp: table_ok_def unsent_row_def row_moves_def)
    moreover have "retry_row rows r" using assms(1) that by (simp add: table_ok_def)
    hence "retry_row rows' (f r)" using f by (auto simp: retry_row_def row_moves_def split: option.splits)
    ultimately show ?thesis by simp
  qed
  hence "\<forall>r \<in> set rows'. (ao_claimed r = None \<longrightarrow> unsent_row r) \<and> retry_row rows' r" by (simp add: f(1))
  thus ?thesis using assms(1) unfolding table_ok_def ids by blast
qed

lemma moves_sends:
  assumes "sends_ok rows used" "rows_move rows rows'"
  shows "sends_ok rows' used"
proof -
  obtain f where f: "rows' = map f rows" "\<And>r. row_moves r (f r)" using assms(2) by (auto simp: rows_move_def)
  have "ao_id (f r) = ao_id r \<and> (ao_claimed r \<noteq> None \<longrightarrow> ao_claimed (f r) \<noteq> None)" for r using f(2) [of r] by (simp add: row_moves_def)
  thus ?thesis using assms(1) f(1) by (auto simp: sends_ok_def) (metis option.exhaust)+
qed

text \<open>The two statements that are more than a change of rows: a new record, and the claim that lets one sender go ahead.\<close>

lemma begin_new_row:
  assumes "BeginAddonOperation ident now p rows audit = Some (rows', audit')"
  shows "\<exists>row. rows' = rows @ [row] \<and> ao_id row = ident \<and> unsent_row row \<and> retry_row rows row \<and>
    (ao_retry_of row \<noteq> None \<longrightarrow> ao_retry_of row \<notin> ao_retry_of ` set rows)"
proof (cases "ap_RetryOf p = []")
  case True
  with assms show ?thesis by (auto simp: BeginAddonOperation_def Let_def unsent_row_def retry_row_def)
next
  case False
  let ?row = "\<lparr>ao_id = ident, ao_target = ap_Target p, ao_operation = ap_Operation p, ao_actor = ap_ActorID p, ao_subject = ap_SubjectID p,
    ao_status = Dispatching, ao_about = [], ao_created = now, ao_claimed = None, ao_settled = None, ao_attempt = 2,
    ao_retry_of = Some (ap_RetryOf p), ao_resolution = None\<rparr>"
  have ok: "first_send p rows" "\<not> list_ex (\<lambda>r. ao_retry_of r = Some (ap_RetryOf p)) rows" "rows' = rows @ [?row]"
    using assms False by (auto simp: BeginAddonOperation_def Let_def split: if_splits)
  have "retry_row rows ?row" using ok(1) by (auto simp: retry_row_def first_send_def list_ex_iff)
  moreover have "Some (ap_RetryOf p) \<notin> ao_retry_of ` set rows" using ok(2) by (auto simp: list_ex_iff)
  ultimately show ?thesis using ok(3) by (intro exI [of _ ?row]) (simp add: unsent_row_def)
qed

lemma begin_table:
  assumes "table_ok rows" "BeginAddonOperation ident now p rows audit = Some (rows', audit')" "ident \<notin> ao_id ` set rows"
  shows "table_ok rows'"
proof -
  have more: "retry_row rows r \<Longrightarrow> retry_row (rows @ xs) r" for r xs by (auto simp: retry_row_def split: option.splits)
  from begin_new_row [OF assms(2)]
  obtain row where row: "rows' = rows @ [row]" "ao_id row = ident" "unsent_row row" "retry_row rows row"
    "ao_retry_of row \<noteq> None \<longrightarrow> ao_retry_of row \<notin> ao_retry_of ` set rows" by blast
  have "distinct (filter (\<lambda>x. x \<noteq> None) (map ao_retry_of rows'))" using assms(1) row(1,5) by (auto simp: table_ok_def)
  moreover have "distinct (map ao_id rows')" using assms(1,3) row(1,2) by (simp add: table_ok_def)
  ultimately show ?thesis using assms(1) row more by (auto simp: table_ok_def)
qed

lemma begin_sends: "sends_ok rows used \<Longrightarrow> BeginAddonOperation ident now p rows audit = Some (rows', audit') \<Longrightarrow> sends_ok rows' used"
  by (erule begin_appends) (auto simp: sends_ok_def)

lemma claim_sends:
  assumes "table_ok rows" "sends_ok rows used" "ClaimAddonOperation ident target operation subject now rows = Some rows'"
  shows "sends_ok rows' (ident # used)"
proof -
  obtain r where r: "r \<in> set rows" "ao_id r = ident" "ao_claimed r = None" "r\<lparr>ao_claimed := Some now\<rparr> \<in> set rows'"
    using claim_marks [OF assms(3)] by (auto simp: claimable_def)
  have "ident \<notin> set used"
  proof
    assume "ident \<in> set used"
    then obtain r' where "r' \<in> set rows" "ao_id r' = ident" "ao_claimed r' \<noteq> None" using assms(2) by (auto simp: sends_ok_def)
    with r assms(1) show False by (auto simp: table_ok_def distinct_map dest: inj_onD)
  qed
  moreover have "\<exists>r \<in> set rows'. ao_id r = ident \<and> ao_claimed r \<noteq> None" using r(2,4) by (intro bexI [of _ "r\<lparr>ao_claimed := Some now\<rparr>"]) simp_all
  ultimately show ?thesis using moves_sends [OF assms(2) claim_moves [OF assms(3)]] by (simp add: sends_ok_def)
qed

definition op_inv :: "op_state \<Rightarrow> bool" where
  "op_inv st = (case st of (rows, claims, wire) \<Rightarrow> table_ok rows \<and> sends_ok rows (claims @ wire))"

lemma sends_ok_perm: "sends_ok rows xs \<Longrightarrow> mset xs = mset ys \<Longrightarrow> sends_ok rows ys"
  unfolding sends_ok_def by (metis mset_eq_imp_distinct_iff set_mset_mset)

lemma sends_ok_less: "sends_ok rows (i # xs) \<Longrightarrow> sends_ok rows xs"
  by (simp add: sends_ok_def)

lemma op_inv_moves: "rows_move rows rows' \<Longrightarrow> op_inv (rows, claims, wire) \<Longrightarrow> op_inv (rows', claims, wire)"
  by (auto simp: op_inv_def intro: moves_table moves_sends)

lemma op_step_inv: "op_step s s' \<Longrightarrow> op_inv s \<Longrightarrow> op_inv s'"
proof (induction rule: op_step.induct)
  case (op_Begin ident now p rows audit rows' audit' claims wire)
  thus ?case using begin_table begin_sends by (simp add: op_inv_def) blast
next
  case (op_Claim ident target operation subject now rows rows' claims wire)
  thus ?case using moves_table claim_moves claim_sends [OF _ _ op_Claim(1), of "claims @ wire"] by (simp add: op_inv_def) blast
next
  case (op_Send rows ident claims wire)
  thus ?case using sends_ok_perm [of rows "ident # claims @ wire" "claims @ wire @ [ident]"] by (simp add: op_inv_def)
next
  case (op_Lost rows ident claims wire)
  thus ?case using sends_ok_less [of rows ident "claims @ wire"] by (simp add: op_inv_def)
next
  case (op_Turn claims' claims rows wire)
  thus ?case using sends_ok_perm [of rows "claims @ wire" "claims' @ wire"] by (simp add: op_inv_def)
qed (auto intro: op_inv_moves settle_moves unclaimed_moves resolve_moves supersede_moves)

lemma op_steps_inv: "op_step\<^sup>*\<^sup>* s s' \<Longrightarrow> op_inv s \<Longrightarrow> op_inv s'"
  by (induction rule: rtranclp_induct) (auto intro: op_step_inv)

text \<open>A dispatch is a run of such steps, so dispatches in any interleaving with the others are covered.\<close>

definition op_view :: "op_world \<Rightarrow> string list \<Rightarrow> op_state" where
  "op_view w claims = (ow_rows w, claims, ow_wire w)"

lemma addon_Call_steps:
  assumes "addon_Call reg env ident req w = (resp, w')"
  shows "op_step\<^sup>*\<^sup>* (op_view w claims) (op_view w' claims)"
  using addon_Call_wire [OF assms]
proof (elim disjE exE conjE)
  assume "w' = w" thus ?thesis by simp
next
  fix rows
  assume rows: "ClaimAddonOperation ident (or_Target req) (or_Operation req) (or_SubjectID req) (se_now env) (ow_rows w) = Some rows"
    and w': "ow_rows w' = rows" "ow_wire w' = (if se_reply env = CtxEnded then ow_wire w else ow_wire w @ [ident])"
  have "op_step (op_view w claims) (rows, ident # claims, ow_wire w)" using op_Claim [OF rows] by (simp add: op_view_def)
  moreover have "op_step (rows, ident # claims, ow_wire w) (op_view w' claims)" using w' by (auto simp: op_view_def intro: op_Send op_Lost)
  ultimately show ?thesis by (meson rtranclp.rtrancl_into_rtrancl rtranclp.rtrancl_refl)
qed

lemma recorded_steps:
  assumes "dispatch_recorded uid env req w = (out, w')"
  shows "op_step\<^sup>*\<^sup>* (op_view w claims) (op_view w' claims)"
proof -
  obtain resp w1 where call: "addon_Call (de_registry_at_call env) (de_send env) (de_ident env) req w = (resp, w1)"
    and w': "w' = w1 \<or> (\<exists>rows. SettleAddonOperation (de_ident env) (StatusFor (cr_Outcome resp)) (de_now env) (ow_rows w1) = Some rows \<and> w' = w1\<lparr>ow_rows := rows\<rparr>)"
    by (rule dispatch_recorded_wire [OF assms])
  from w' have "op_step\<^sup>*\<^sup>* (op_view w1 claims) (op_view w' claims)"
  proof
    assume "\<exists>rows. SettleAddonOperation (de_ident env) (StatusFor (cr_Outcome resp)) (de_now env) (ow_rows w1) = Some rows \<and> w' = w1\<lparr>ow_rows := rows\<rparr>"
    then obtain rows where rows: "SettleAddonOperation (de_ident env) (StatusFor (cr_Outcome resp)) (de_now env) (ow_rows w1) = Some rows" "w' = w1\<lparr>ow_rows := rows\<rparr>" by blast
    have "op_step (op_view w1 claims) (op_view w' claims)" using op_Settle [OF rows(1)] rows(2) by (simp add: op_view_def)
    thus ?thesis by (rule r_into_rtranclp)
  qed simp
  with addon_Call_steps [OF call] show ?thesis by (rule rtranclp_trans)
qed

lemma dispatch_steps:
  assumes "op_Dispatch uid env req w = (out, w')" "de_ident env \<notin> ao_id ` set (ow_rows w)"
  shows "op_step\<^sup>*\<^sup>* (op_view w claims) (op_view w' claims)"
proof (cases "w' = w")
  case False
  then obtain rows audit where begun: "BeginAddonOperation (de_ident env) (de_now env) (op_record req) (ow_rows w) (ow_audit w) = Some (rows, audit)"
    and rec: "dispatch_recorded uid env req (w\<lparr>ow_rows := rows, ow_audit := audit\<rparr>) = (out, w')"
    using assms(1) by (auto simp: op_Dispatch_def split: option.splits if_splits)
  have "op_step (op_view w claims) (op_view (w\<lparr>ow_rows := rows, ow_audit := audit\<rparr>) claims)"
    using op_Begin [OF begun assms(2)] by (simp add: op_view_def)
  with recorded_steps [OF rec] show ?thesis by (meson converse_rtranclp_into_rtranclp)
qed simp

lemma same_id: "table_ok rows \<Longrightarrow> r \<in> set rows \<Longrightarrow> r' \<in> set rows \<Longrightarrow> ao_id r = ao_id r' \<Longrightarrow> r = r'"
  by (auto simp: table_ok_def distinct_map dest: inj_onD)

lemma unclaimed_unsent:
  assumes "table_ok rows" "sends_ok rows (claims @ wire)" "r \<in> set rows" "ao_claimed r = None"
  shows "ao_id r \<notin> set wire"
proof
  assume "ao_id r \<in> set wire"
  then obtain r' where "r' \<in> set rows" "ao_id r' = ao_id r" "ao_claimed r' \<noteq> None" using assms(2) unfolding sends_ok_def by force
  with same_id [OF assms(1,3) this(1)] assms(4) show False by simp
qed

lemma filtered_map_inj:
  "distinct (filter P (map f xs)) \<Longrightarrow> x \<in> set xs \<Longrightarrow> y \<in> set xs \<Longrightarrow> P (f x) \<Longrightarrow> f x = f y \<Longrightarrow> x = y"
proof (induction xs)
  case (Cons a xs)
  have "f a \<noteq> f z" if "z \<in> set xs" "P (f a)" for z using Cons.prems(1) that by auto
  moreover have "distinct (filter P (map f xs))" using Cons.prems(1) by (simp split: if_splits)
  ultimately show ?case using Cons.IH Cons.prems(2-5) by (metis set_ConsD)
qed simp

lemma retried_once:
  assumes "table_ok rows" "r \<in> set rows" "r' \<in> set rows" "ao_retry_of r' = Some (ao_id r)"
  shows "ao_retry_of r = None \<and> ao_operation r' = ao_operation r \<and> ao_subject r' = ao_subject r \<and>
    (\<forall>r'' \<in> set rows. ao_retry_of r'' = Some (ao_id r) \<longrightarrow> r'' = r')"
proof -
  have "retry_row rows r'" "retry_row rows r" using assms(1-3) by (auto simp: table_ok_def)
  then obtain r1 where r1: "r1 \<in> set rows" "ao_id r1 = ao_id r" "ao_attempt r1 = 1" "ao_operation r1 = ao_operation r'" "ao_subject r1 = ao_subject r'"
    using assms(4) by (auto simp: retry_row_def)
  have "r1 = r" using same_id [OF assms(1) r1(1) assms(2)] r1(2) by simp
  moreover have "ao_retry_of r = None" using \<open>retry_row rows r\<close> r1(3) \<open>r1 = r\<close> by (auto simp: retry_row_def split: option.splits)
  moreover have "r'' = r'" if "r'' \<in> set rows" "ao_retry_of r'' = Some (ao_id r)" for r''
    using filtered_map_inj [of "\<lambda>x. x \<noteq> None" ao_retry_of rows r'' r'] assms that by (simp add: table_ok_def)
  ultimately show ?thesis using r1 by simp
qed

text \<open>
  C13. An operation is sent at most once, whoever dispatches, settles, sweeps, answers or
  supersedes, in whatever order, and wherever a process stops. No record's request is on the
  wire twice. What is on the wire has a claimed record; a record that was never claimed has
  nothing on the wire, says only \<open>dispatching\<close> or \<open>unreached\<close> and carries no answer; and a first
  send is retried by at most one record, for the same operation and subject, which is itself
  never retried. A whole dispatch is a run of these steps.
\<close>

theorem operation_sent_once:
  assumes "op_step\<^sup>*\<^sup>* ([], [], []) (rows, claims, wire)"
  shows "distinct wire \<and>
    (\<forall>i \<in> set wire. \<exists>r \<in> set rows. ao_id r = i \<and> ao_claimed r \<noteq> None) \<and>
    (\<forall>r \<in> set rows. ao_claimed r = None \<longrightarrow> ao_id r \<notin> set wire \<and> unsent_row r) \<and>
    (\<forall>r \<in> set rows. \<forall>r' \<in> set rows. ao_retry_of r' = Some (ao_id r) \<longrightarrow>
      ao_retry_of r = None \<and> ao_operation r' = ao_operation r \<and> ao_subject r' = ao_subject r \<and>
      (\<forall>r'' \<in> set rows. ao_retry_of r'' = Some (ao_id r) \<longrightarrow> r'' = r')) \<and>
    (\<forall>w w'. op_view w claims = (rows, claims, wire) \<and> de_ident env \<notin> ao_id ` set rows \<and> op_Dispatch uid env req w = (out, w') \<longrightarrow>
      op_step\<^sup>*\<^sup>* ([], [], []) (op_view w' claims))"
proof (intro conjI)
  have inv: "table_ok rows" "sends_ok rows (claims @ wire)"
    using op_steps_inv [OF assms] by (simp_all add: op_inv_def table_ok_def sends_ok_def)
  show "distinct wire" "\<forall>i \<in> set wire. \<exists>r \<in> set rows. ao_id r = i \<and> ao_claimed r \<noteq> None" using inv(2) by (auto simp: sends_ok_def)
  show "\<forall>r \<in> set rows. ao_claimed r = None \<longrightarrow> ao_id r \<notin> set wire \<and> unsent_row r"
    using unclaimed_unsent [OF inv] inv(1) by (auto simp: table_ok_def)
  show "\<forall>r \<in> set rows. \<forall>r' \<in> set rows. ao_retry_of r' = Some (ao_id r) \<longrightarrow>
      ao_retry_of r = None \<and> ao_operation r' = ao_operation r \<and> ao_subject r' = ao_subject r \<and>
      (\<forall>r'' \<in> set rows. ao_retry_of r'' = Some (ao_id r) \<longrightarrow> r'' = r')"
    using retried_once [OF inv(1)] by blast
  show "\<forall>w w'. op_view w claims = (rows, claims, wire) \<and> de_ident env \<notin> ao_id ` set rows \<and> op_Dispatch uid env req w = (out, w') \<longrightarrow>
      op_step\<^sup>*\<^sup>* ([], [], []) (op_view w' claims)"
  proof (intro allI impI, elim conjE)
    fix w w'
    assume w: "op_view w claims = (rows, claims, wire)" "de_ident env \<notin> ao_id ` set rows" "op_Dispatch uid env req w = (out, w')"
    hence "op_step\<^sup>*\<^sup>* (op_view w claims) (op_view w' claims)" using dispatch_steps [OF w(3)] by (simp add: op_view_def)
    with assms w(1) show "op_step\<^sup>*\<^sup>* ([], [], []) (op_view w' claims)" by (auto intro: rtranclp_trans)
  qed
qed

theorem operation_sent_once_witness:
  "distinct (ow_wire (snd (op_Dispatch (\<lambda>_. None) sample_env sample_request sample_world)))"
proof -
  let ?d = "op_Dispatch (\<lambda>_. None) sample_env sample_request sample_world"
  have "op_step\<^sup>*\<^sup>* (op_view sample_world []) (op_view (snd ?d) [])"
    by (rule dispatch_steps [of "\<lambda>_. None" sample_env sample_request _ "fst ?d"]) (simp_all add: sample_world_def)
  hence "op_step\<^sup>*\<^sup>* ([], [], []) (ow_rows (snd ?d), [], ow_wire (snd ?d))" by (simp add: op_view_def sample_world_def)
  from operation_sent_once [OF this] show ?thesis by blast
qed

end
