(* ===== verification/Mutation_Log.thy ===== *)
theory Mutation_Log
  imports Fingerprint "HOL-Library.Word" "HOL-Library.Sublist"
begin

text \<open>
  The mutation log of the NAS add-on, \<^verbatim>\<open>addons/truenas/mutationlog.go\<close>: the records and
  their chain of digests, the append with its rotation and its rollback, the recovery after a
  restart, and the two verifiers.

  The directory is the bytes of the live file, when there is one, and the rotated files by the
  time stamp of their names; a \<open>Glob\<close> of them, sorted, is in the order of the stamps.
  Each system call can fail, as the append's environment says. The digest is a parameter, and so
  is the JSON text of a record with its reader: what the log needs of them is stated
  as \<open>codec\<close>. A line longer than the scanner's buffer is an error of the scan, as in the code.
\<close>

section \<open>Records\<close>

record mut_record =
  mr_Seq :: "64 word"
  mr_At :: string
  mr_Operation :: string
  mr_Subject :: string
  mr_Actor :: string
  mr_CallID :: string
  mr_Outcome :: string
  mr_Prev :: string
  mr_Digest :: string

definition digest_fields :: "mut_record \<Rightarrow> string list" where
  "digest_fields r =
     [itoa (unat (mr_Seq r)), mr_At r, mr_Operation r, mr_Subject r, mr_Actor r, mr_CallID r, mr_Outcome r, mr_Prev r]"

definition digestOf :: "(string \<Rightarrow> string) \<Rightarrow> mut_record \<Rightarrow> string" where
  "digestOf H r = H (encode_fields (digest_fields r))"

abbreviation newline :: char where "newline \<equiv> CHR 0x0A"

datatype log_error = OpenFailed | ScanFailed | NotReadable "64 word" | RecordMissing "64 word" "64 word" | DoesNotFollow "64 word"
  | RecordAltered "64 word" | RotateFailed | PruneFailed | AppendFailed | FsyncFailed

section \<open>Files\<close>

text \<open>The scanner: its lines up to one that does not fit its buffer, and whether there was one.\<close>

definition scanMax :: nat where "scanMax = 2 ^ 20"

definition log_lines :: "string \<Rightarrow> string list" where
  "log_lines s = (let ls = split_on newline s in if last ls = [] then butlast ls else ls)"

definition scan :: "string \<Rightarrow> string list \<times> bool" where
  "scan s = (let short = takeWhile (\<lambda>l. length l < scanMax) (log_lines s) in (short, length short < length (log_lines s)))"

definition lastRecordIn :: "(string \<Rightarrow> mut_record option) \<Rightarrow> string option \<Rightarrow> log_error + mut_record option" where
  "lastRecordIn dec file =
     (case file of
        None \<Rightarrow> Inr None
      | Some s \<Rightarrow>
          (case scan s of (ls, too_long) \<Rightarrow>
             if too_long then Inl ScanFailed
             else Inr (fold (\<lambda>l last. let line = trim_space l
                in if line = [] then last else case dec line of None \<Rightarrow> last | Some r \<Rightarrow> Some r) ls None)))"

fun torn_loop :: "(string \<Rightarrow> mut_record option) \<Rightarrow> string list \<Rightarrow> nat \<Rightarrow> nat \<Rightarrow> nat" where
  "torn_loop dec [] off keep = keep"
| "torn_loop dec (l # ls) off keep =
     (let off' = off + length l + 1; line = trim_space l
      in torn_loop dec ls off' (if line = [] \<or> dec line \<noteq> None then off' else keep))"

definition truncateTornTail :: "(string \<Rightarrow> mut_record option) \<Rightarrow> string \<Rightarrow> string" where
  "truncateTornTail dec data = take (torn_loop dec (butlast (split_on newline data)) 0 0) data"

record mutation_log =
  ml_maxBytes :: int
  ml_keep :: nat
  ml_open :: bool
  ml_size :: int
  ml_seq :: "64 word"
  ml_head :: string
  ml_live :: "string option"
  ml_rotated :: "(string \<times> string) list"

definition by_stamp :: "(string \<times> string) list \<Rightarrow> (string \<times> string) list" where
  "by_stamp files = sort_key fst files"

definition segmentsNewestFirst :: "mutation_log \<Rightarrow> string option list" where
  "segmentsNewestFirst l = ml_live l # map (\<lambda>f. Some (snd f)) (rev (by_stamp (ml_rotated l)))"

fun recover_from :: "(string \<Rightarrow> mut_record option) \<Rightarrow> string option list \<Rightarrow> log_error + mut_record option" where
  "recover_from dec [] = Inr None"
| "recover_from dec (f # fs) =
     (case lastRecordIn dec f of
        Inl e \<Rightarrow> Inl e
      | Inr (Some r) \<Rightarrow> Inr (Some r)
      | Inr None \<Rightarrow> recover_from dec fs)"

definition recoverHead :: "(string \<Rightarrow> mut_record option) \<Rightarrow> mutation_log \<Rightarrow> log_error + mutation_log" where
  "recoverHead dec l =
     (case recover_from dec (segmentsNewestFirst l) of
        Inl e \<Rightarrow> Inl e
      | Inr None \<Rightarrow> Inr l
      | Inr (Some r) \<Rightarrow> Inr (l\<lparr>ml_seq := mr_Seq r, ml_head := mr_Digest r\<rparr>))"

definition defaultLogMaxSize :: int where "defaultLogMaxSize = 8 * 2 ^ 20"
definition defaultLogKeep :: nat where "defaultLogKeep = 24"

text \<open>\<open>io\<close> says whether the directory and the file could be opened, cut and read.\<close>

definition OpenMutationLog :: "(string \<Rightarrow> mut_record option) \<Rightarrow> bool \<Rightarrow> int \<Rightarrow> int \<Rightarrow> string option \<Rightarrow> (string \<times> string) list \<Rightarrow> log_error + mutation_log" where
  "OpenMutationLog dec io maxBytes keep live rotated =
     (if \<not> io then Inl OpenFailed
      else let data = truncateTornTail dec (case live of None \<Rightarrow> [] | Some s \<Rightarrow> s)
           in recoverHead dec
             \<lparr>ml_maxBytes = (if maxBytes \<le> 0 then defaultLogMaxSize else maxBytes), ml_keep = (if keep \<le> 0 then defaultLogKeep else nat keep),
              ml_open = True, ml_size = int (length data), ml_seq = 0, ml_head = [], ml_live = Some data, ml_rotated = rotated\<rparr>)"

section \<open>Appending\<close>

text \<open>
  What the system answers during one append: the two times, whether each call of the rotation
  succeeds, after how many removals the pruning fails, how many bytes of the line are written
  before the write fails, whether it can be synced, and whether the rollback is taken.
\<close>

record append_env =
  ae_at :: string
  ae_stamp :: string
  ae_presync :: bool
  ae_close :: bool
  ae_rename :: bool
  ae_reopen :: bool
  ae_stat :: bool
  ae_newfile :: bool
  ae_removes :: "nat option"
  ae_write :: "nat option"
  ae_sync :: bool
  ae_truncate :: bool

definition pruneLocked :: "append_env \<Rightarrow> mutation_log \<Rightarrow> log_error option \<times> mutation_log" where
  "pruneLocked env l =
     (let entries = by_stamp (ml_rotated l); n = length entries - ml_keep l
      in if length entries \<le> ml_keep l then (None, l)
         else case ae_removes env of
                None \<Rightarrow> (None, l\<lparr>ml_rotated := drop n entries\<rparr>)
              | Some k \<Rightarrow> if n \<le> k then (None, l\<lparr>ml_rotated := drop n entries\<rparr>)
                          else (Some PruneFailed, l\<lparr>ml_rotated := drop k entries\<rparr>))"

definition rotateIfNeededLocked :: "append_env \<Rightarrow> mutation_log \<Rightarrow> log_error option \<times> mutation_log" where
  "rotateIfNeededLocked env l =
     (if ml_size l < ml_maxBytes l then (None, l)
      else if \<not> (ml_open l \<and> ae_presync env) then (Some RotateFailed, l)
      else if \<not> ae_close env then (Some RotateFailed, l\<lparr>ml_open := False\<rparr>)
      else case ml_live l of
             Some data \<Rightarrow>
               if ae_rename env then
                 (let moved = l\<lparr>ml_open := False, ml_live := None, ml_rotated := AList.update (ae_stamp env) data (ml_rotated l)\<rparr>
                  in if ae_newfile env then pruneLocked env (moved\<lparr>ml_open := True, ml_live := Some [], ml_size := 0\<rparr>)
                     else (Some RotateFailed, moved))
               else (Some RotateFailed,
                     if ae_reopen env then l\<lparr>ml_size := (if ae_stat env then int (length data) else ml_size l)\<rparr>
                     else l\<lparr>ml_open := False\<rparr>)
           | None \<Rightarrow> (Some RotateFailed,
                     if ae_reopen env then l\<lparr>ml_live := Some [], ml_size := (if ae_stat env then 0 else ml_size l)\<rparr>
                     else l\<lparr>ml_open := False\<rparr>))"

definition rollbackLocked :: "append_env \<Rightarrow> mutation_log \<Rightarrow> mutation_log" where
  "rollbackLocked env l =
     (if ml_open l \<and> ae_truncate env then l\<lparr>ml_live := map_option (take (nat (ml_size l))) (ml_live l)\<rparr> else l)"

definition new_record :: "(string \<Rightarrow> string) \<Rightarrow> append_env \<Rightarrow> string \<Rightarrow> string \<Rightarrow> string \<Rightarrow> string \<Rightarrow> string \<Rightarrow> mutation_log \<Rightarrow> mut_record" where
  "new_record H env operation subject actor callID outcome l =
     (let r = \<lparr>mr_Seq = ml_seq l + 1, mr_At = ae_at env, mr_Operation = operation, mr_Subject = subject, mr_Actor = actor,
        mr_CallID = callID, mr_Outcome = outcome, mr_Prev = ml_head l, mr_Digest = []\<rparr>
      in r\<lparr>mr_Digest := digestOf H r\<rparr>)"

text \<open>The bytes that reached the file before the write failed, or all of them.\<close>

definition log_written :: "append_env \<Rightarrow> string \<Rightarrow> mutation_log \<Rightarrow> mutation_log" where
  "log_written env line l =
     (if \<not> ml_open l then l
      else l\<lparr>ml_live := map_option (\<lambda>d. d @ (case ae_write env of None \<Rightarrow> line | Some k \<Rightarrow> take k line)) (ml_live l)\<rparr>)"

definition log_Append :: "(mut_record \<Rightarrow> string) \<Rightarrow> (string \<Rightarrow> string) \<Rightarrow> append_env \<Rightarrow> string \<Rightarrow> string \<Rightarrow> string \<Rightarrow> string \<Rightarrow> string \<Rightarrow>
    mutation_log \<Rightarrow> (log_error + mut_record) \<times> mutation_log" where
  "log_Append enc H env operation subject actor callID outcome l =
     (case rotateIfNeededLocked env l of
        (Some e, l1) \<Rightarrow> (Inl e, l1)
      | (None, l1) \<Rightarrow>
          let r = new_record H env operation subject actor callID outcome l1;
              line = enc r @ [newline];
              l2 = log_written env line l1
          in if \<not> ml_open l1 \<or> ae_write env \<noteq> None then (Inl AppendFailed, rollbackLocked env l2)
             else if \<not> ae_sync env then (Inl FsyncFailed, rollbackLocked env l2)
             else (Inr r, l2\<lparr>ml_size := ml_size l2 + int (length line), ml_seq := mr_Seq r, ml_head := mr_Digest r\<rparr>))"

definition log_Head :: "mutation_log \<Rightarrow> string \<times> 64 word" where
  "log_Head l = (ml_head l, ml_seq l)"

section \<open>Verifying\<close>

fun verify_lines :: "(string \<Rightarrow> mut_record option) \<Rightarrow> (string \<Rightarrow> string) \<Rightarrow> string list \<Rightarrow> string \<Rightarrow> 64 word \<Rightarrow> (string \<times> 64 word) \<times> log_error option" where
  "verify_lines dec H [] prev expectSeq = ((prev, expectSeq), None)"
| "verify_lines dec H (l # ls) prev expectSeq =
     (let line = trim_space l
      in if line = [] then verify_lines dec H ls prev expectSeq
         else case dec line of
           None \<Rightarrow> ((prev, expectSeq), Some (NotReadable expectSeq))
         | Some r \<Rightarrow>
             let ex = (if expectSeq = 0 then mr_Seq r else expectSeq); pr = (if expectSeq = 0 then mr_Prev r else prev)
             in if mr_Seq r \<noteq> ex then ((pr, ex), Some (RecordMissing ex (mr_Seq r)))
                else if mr_Prev r \<noteq> pr then ((pr, ex), Some (DoesNotFollow (mr_Seq r)))
                else if mr_Digest r \<noteq> digestOf H r then ((pr, ex), Some (RecordAltered (mr_Seq r)))
                else verify_lines dec H ls (mr_Digest r) (ex + 1))"

definition verifySegment :: "(string \<Rightarrow> mut_record option) \<Rightarrow> (string \<Rightarrow> string) \<Rightarrow> string option \<Rightarrow> string \<Rightarrow> 64 word \<Rightarrow> (string \<times> 64 word) \<times> log_error option" where
  "verifySegment dec H file prev expectSeq =
     (case file of
        None \<Rightarrow> ((prev, expectSeq), None)
      | Some s \<Rightarrow>
          (case scan s of (ls, too_long) \<Rightarrow>
             case verify_lines dec H ls prev expectSeq of
               (st, Some e) \<Rightarrow> (st, Some e)
             | (st, None) \<Rightarrow> (st, if too_long then Some ScanFailed else None)))"

definition VerifyChain :: "(string \<Rightarrow> mut_record option) \<Rightarrow> (string \<Rightarrow> string) \<Rightarrow> string option \<Rightarrow> log_error option" where
  "VerifyChain dec H file = snd (verifySegment dec H file [] 0)"

fun verify_files :: "(string \<Rightarrow> mut_record option) \<Rightarrow> (string \<Rightarrow> string) \<Rightarrow> string option list \<Rightarrow> string \<Rightarrow> 64 word \<Rightarrow> log_error option" where
  "verify_files dec H [] prev expectSeq = None"
| "verify_files dec H (f # fs) prev expectSeq =
     (case verifySegment dec H f prev expectSeq of
        (_, Some e) \<Rightarrow> Some e
      | ((prev', expectSeq'), None) \<Rightarrow> verify_files dec H fs prev' expectSeq')"

definition VerifyLog :: "(string \<Rightarrow> mut_record option) \<Rightarrow> (string \<Rightarrow> string) \<Rightarrow> string option \<Rightarrow> (string \<times> string) list \<Rightarrow> log_error option" where
  "VerifyLog dec H live rotated = verify_files dec H (map (\<lambda>f. Some (snd f)) (by_stamp rotated) @ [live]) [] 0"

section \<open>The chain\<close>

text \<open>What two verified logs with one head have in common. The first lemmas are about lists of records.\<close>

fun chained :: "(string \<Rightarrow> string) \<Rightarrow> mut_record list \<Rightarrow> bool" where
  "chained H [] \<longleftrightarrow> True"
| "chained H [r] \<longleftrightarrow> mr_Digest r = digestOf H r"
| "chained H (r # r' # rs) \<longleftrightarrow> mr_Digest r = digestOf H r \<and> mr_Prev r' = mr_Digest r \<and> mr_Seq r' = mr_Seq r + 1 \<and> chained H (r' # rs)"

definition no_wrap :: "mut_record list \<Rightarrow> bool" where
  "no_wrap rs \<longleftrightarrow> list_all (\<lambda>r. mr_Seq r + 1 \<noteq> 0) rs"

definition end_state :: "string \<Rightarrow> 64 word \<Rightarrow> mut_record list \<Rightarrow> string \<times> 64 word" where
  "end_state prev ex rs = (if rs = [] then (prev, ex) else (mr_Digest (last rs), mr_Seq (last rs) + 1))"

definition follows :: "(string \<Rightarrow> string) \<Rightarrow> string \<Rightarrow> 64 word \<Rightarrow> mut_record list \<Rightarrow> bool" where
  "follows H prev ex rs \<longleftrightarrow> chained H rs \<and> (ex \<noteq> 0 \<and> rs \<noteq> [] \<longrightarrow> mr_Prev (hd rs) = prev \<and> mr_Seq (hd rs) = ex)"

lemma chained_Cons:
  "chained H (r # rs) \<longleftrightarrow> mr_Digest r = digestOf H r \<and> (rs \<noteq> [] \<longrightarrow> mr_Prev (hd rs) = mr_Digest r \<and> mr_Seq (hd rs) = mr_Seq r + 1) \<and> chained H rs"
  by (cases rs) auto

lemma chained_append:
  "chained H (xs @ ys) \<longleftrightarrow> chained H xs \<and> chained H ys \<and>
     (xs \<noteq> [] \<and> ys \<noteq> [] \<longrightarrow> mr_Prev (hd ys) = mr_Digest (last xs) \<and> mr_Seq (hd ys) = mr_Seq (last xs) + 1)"
proof (induction xs)
  case (Cons x xs)
  have "hd (xs @ ys) = (if xs = [] then hd ys else hd xs)" by simp
  thus ?case using Cons.IH by (auto simp: chained_Cons)
qed simp

lemma chained_digest: "chained H rs \<Longrightarrow> r \<in> set rs \<Longrightarrow> mr_Digest r = digestOf H r"
  by (induction rs) (auto simp: chained_Cons)

lemma digest_fields_inj: "digest_fields r = digest_fields r' \<Longrightarrow> mr_Digest r = mr_Digest r' \<Longrightarrow> r = r'"
  by (rule mut_record.equality) (auto simp: digest_fields_def word_unat_eq_iff)

lemma same_digest_same_record:
  assumes "inj_on H ((\<lambda>r. encode_fields (digest_fields r)) ` (set R \<union> set R'))" "chained H R" "chained H R'"
    and "r \<in> set R" "r' \<in> set R'" "mr_Digest r = mr_Digest r'"
  shows "r = r'"
proof -
  have "H (encode_fields (digest_fields r)) = H (encode_fields (digest_fields r'))"
    using chained_digest [OF assms(2,4)] chained_digest [OF assms(3,5)] assms(6) by (simp add: digestOf_def)
  hence "encode_fields (digest_fields r) = encode_fields (digest_fields r')" using assms(1,4,5) by (auto dest: inj_onD)
  thus ?thesis using encode_fields_inj digest_fields_inj assms(6) by blast
qed

lemma chain_suffix:
  assumes "inj_on H ((\<lambda>r. encode_fields (digest_fields r)) ` (set R \<union> set R'))" "chained H R" "chained H R'"
    and "R \<noteq> []" "R' \<noteq> []" "mr_Digest (last R) = mr_Digest (last R')" "length R' \<le> length R"
  shows "\<exists>older. R = older @ R'"
  using assms
proof (induction R' arbitrary: R rule: rev_induct)
  case (snoc x' xs')
  obtain xs x where R: "R = xs @ [x]" using snoc.prems(4) by (cases R rule: rev_cases) auto
  have x: "x = x'" by (rule same_digest_same_record [OF snoc.prems(1-3)]) (use R snoc.prems(6) in auto)
  show ?case
  proof (cases "xs' = []")
    case False
    hence "xs \<noteq> []" using R snoc.prems(7) by auto
    have "\<exists>older. xs = older @ xs'"
    proof (rule snoc.IH)
      show "inj_on H ((\<lambda>r. encode_fields (digest_fields r)) ` (set xs \<union> set xs'))" by (rule inj_on_subset [OF snoc.prems(1)]) (auto simp: R)
      show "mr_Digest (last xs) = mr_Digest (last xs')"
        using snoc.prems(2,3) x False \<open>xs \<noteq> []\<close> by (simp add: R chained_append)
    qed (use snoc.prems R False \<open>xs \<noteq> []\<close> in \<open>auto simp: chained_append\<close>)
    thus ?thesis using R x by auto
  qed (use R x in simp)
qed simp

lemma follows_Nil [simp]: "follows H prev ex []"
  by (simp add: follows_def)

lemma follows_Cons:
  "follows H prev ex (r # rs) \<longleftrightarrow>
     (ex \<noteq> 0 \<longrightarrow> mr_Prev r = prev \<and> mr_Seq r = ex) \<and> mr_Digest r = digestOf H r \<and>
     (rs \<noteq> [] \<longrightarrow> mr_Prev (hd rs) = mr_Digest r \<and> mr_Seq (hd rs) = mr_Seq r + 1) \<and> chained H rs"
  by (auto simp: follows_def chained_Cons)

text \<open>The records of some lines and of the files of a log.\<close>

definition line_records :: "(string \<Rightarrow> mut_record option) \<Rightarrow> string list \<Rightarrow> mut_record list" where
  "line_records dec ls = List.map_filter (\<lambda>l. dec (trim_space l)) (filter (\<lambda>l. trim_space l \<noteq> []) ls)"

definition file_records :: "(string \<Rightarrow> mut_record option) \<Rightarrow> string option \<Rightarrow> mut_record list" where
  "file_records dec file = (case file of None \<Rightarrow> [] | Some s \<Rightarrow> line_records dec (log_lines s))"

definition log_records :: "(string \<Rightarrow> mut_record option) \<Rightarrow> string option \<Rightarrow> (string \<times> string) list \<Rightarrow> mut_record list" where
  "log_records dec live rotated = concat (map (file_records dec) (map (\<lambda>f. Some (snd f)) (by_stamp rotated) @ [live]))"

lemma verify_lines_passes:
  assumes "verify_lines dec H ls prev ex = (st, None)" "no_wrap (line_records dec ls)"
  shows "follows H prev ex (line_records dec ls) \<and> st = end_state prev ex (line_records dec ls)"
  using assms
proof (induction ls arbitrary: prev ex)
  case (Cons l ls)
  show ?case
  proof (cases "trim_space l = []")
    case True
    with Cons show ?thesis by (simp add: line_records_def)
  next
    case False
    then obtain r where r: "dec (trim_space l) = Some r" using Cons.prems(1) by (auto simp: Let_def split: option.splits)
    have recs: "line_records dec (l # ls) = r # line_records dec ls" using False r by (simp add: line_records_def map_filter_simps)
    have here: "ex \<noteq> 0 \<longrightarrow> mr_Prev r = prev \<and> mr_Seq r = ex" "mr_Digest r = digestOf H r" "verify_lines dec H ls (mr_Digest r) (mr_Seq r + 1) = (st, None)"
      using Cons.prems(1) False r by (auto simp: Let_def split: if_splits)
    have nw: "mr_Seq r + 1 \<noteq> 0" "no_wrap (line_records dec ls)" using Cons.prems(2) recs by (auto simp: no_wrap_def)
    from Cons.IH [OF here(3) nw(2)] show ?thesis using here nw(1) recs by (auto simp: chained_Cons follows_def end_state_def)
  qed
qed (simp add: end_state_def line_records_def)

lemma follows_append:
  assumes "follows H prev ex xs" "follows H (fst (end_state prev ex xs)) (snd (end_state prev ex xs)) ys" "no_wrap xs"
  shows "follows H prev ex (xs @ ys)"
proof (cases "xs = []")
  case False
  hence "mr_Seq (last xs) + 1 \<noteq> 0" using assms(3) by (simp add: no_wrap_def list_all_iff)
  thus ?thesis using assms(1,2) False by (auto simp: follows_def chained_append end_state_def)
qed (use assms in \<open>simp add: end_state_def\<close>)

lemma scan_complete: "scan s = (ls, False) \<Longrightarrow> ls = log_lines s"
proof -
  assume "scan s = (ls, False)"
  hence ls: "ls = takeWhile (\<lambda>l. length l < scanMax) (log_lines s)" "length (log_lines s) \<le> length ls" by (auto simp: scan_def Let_def not_less)
  hence "ls = take (length ls) (log_lines s)" by (metis takeWhile_eq_take)
  thus ?thesis using ls(2) by simp
qed

lemma verifySegment_passes:
  assumes "verifySegment dec H f prev ex = (st, None)" "no_wrap (file_records dec f)"
  shows "follows H prev ex (file_records dec f) \<and> st = end_state prev ex (file_records dec f)"
proof (cases f)
  case None
  thus ?thesis using assms(1) by (simp add: verifySegment_def file_records_def end_state_def)
next
  case (Some s)
  obtain ls too_long where sc: "scan s = (ls, too_long)" by (rule prod.exhaust)
  have v: "verify_lines dec H ls prev ex = (st, None)" "\<not> too_long"
    using assms(1) Some sc by (auto simp: verifySegment_def split: prod.splits option.splits if_splits)
  have "ls = log_lines s" using scan_complete [of s ls] sc v(2) by simp
  thus ?thesis using verify_lines_passes [OF v(1)] assms(2) Some by (simp add: file_records_def)
qed

lemma verify_files_passes:
  assumes "verify_files dec H fs prev ex = None" "no_wrap (concat (map (file_records dec) fs))"
  shows "follows H prev ex (concat (map (file_records dec) fs))"
  using assms
proof (induction fs arbitrary: prev ex)
  case (Cons f fs)
  obtain st where st: "verifySegment dec H f prev ex = (st, None)" "verify_files dec H fs (fst st) (snd st) = None"
    using Cons.prems(1) by (auto split: prod.splits option.splits)
  have nw: "no_wrap (file_records dec f)" "no_wrap (concat (map (file_records dec) fs))" using Cons.prems(2) by (auto simp: no_wrap_def)
  from verifySegment_passes [OF st(1) nw(1)] Cons.IH [OF st(2) nw(2)] nw(1) show ?case by (auto intro: follows_append)
qed simp

lemma VerifyLog_chained:
  assumes "VerifyLog dec H live rotated = None" "no_wrap (log_records dec live rotated)"
  shows "chained H (log_records dec live rotated)"
  using verify_files_passes [of dec H "map (\<lambda>f. Some (snd f)) (by_stamp rotated) @ [live]" "[]" 0] assms
  unfolding VerifyLog_def log_records_def follows_def by blast

text \<open>
  C8. The log's chain is tamper evident. Two logs that both verify, whose newest records have
  the same digest, hold the same records, newest first, as far back as the shorter one goes:
  one is the other without some of its oldest records, which is what pruning leaves. So no
  record can be altered, put in, taken out of the middle or moved without changing the head
  that is anchored elsewhere, as long as the digest does not collide on the records of the two
  and no record bears the largest number there is.
\<close>

theorem chain_is_tamper_evident:
  assumes "VerifyLog dec H live rotated = None" "VerifyLog dec H live' rotated' = None"
    and "R = log_records dec live rotated" "R' = log_records dec live' rotated'"
    and "no_wrap R" "no_wrap R'" "inj_on H ((\<lambda>r. encode_fields (digest_fields r)) ` (set R \<union> set R'))"
    and "R \<noteq> []" "R' \<noteq> []" "mr_Digest (last R) = mr_Digest (last R')" "length R' \<le> length R"
  shows "\<exists>older. R = older @ R'"
proof -
  have "chained H R" "chained H R'" using VerifyLog_chained assms(1-6) by simp_all
  thus ?thesis using chain_suffix assms(7-11) by blast
qed

section \<open>What the log writes\<close>

text \<open>What the log needs of the JSON text of a record: it is one line, it fits the scanner, and it reads back.\<close>

definition codec :: "(mut_record \<Rightarrow> string) \<Rightarrow> (string \<Rightarrow> mut_record option) \<Rightarrow> mut_record \<Rightarrow> bool" where
  "codec enc dec r \<longleftrightarrow> newline \<notin> set (enc r) \<and> trim_space (enc r) = enc r \<and> enc r \<noteq> [] \<and> length (enc r) < scanMax \<and> dec (enc r) = Some r"

definition file_of :: "(mut_record \<Rightarrow> string) \<Rightarrow> mut_record list \<Rightarrow> string" where
  "file_of enc rs = concat (map (\<lambda>r. enc r @ [newline]) rs)"

lemma file_of_simps [simp]:
  "file_of enc [] = []" "file_of enc (r # rs) = enc r @ newline # file_of enc rs" "file_of enc (xs @ ys) = file_of enc xs @ file_of enc ys"
  by (simp_all add: file_of_def)

lemma split_file:
  "list_all (codec enc dec) rs \<Longrightarrow> newline \<notin> set tail \<Longrightarrow> split_on newline (file_of enc rs @ tail) = map enc rs @ [tail]"
  by (induction rs) (simp_all add: codec_def split_on_free split_on_cons)

lemma log_lines_file: "list_all (codec enc dec) rs \<Longrightarrow> log_lines (file_of enc rs) = map enc rs"
  using split_file [of enc dec rs "[]"] by (simp add: log_lines_def)

lemma scan_file: "list_all (codec enc dec) rs \<Longrightarrow> scan (file_of enc rs) = (map enc rs, False)"
proof -
  assume rs: "list_all (codec enc dec) rs"
  hence t: "takeWhile (\<lambda>l. length l < scanMax) (map enc rs) = map enc rs" by (induction rs) (simp_all add: codec_def)
  show ?thesis unfolding scan_def log_lines_file [OF rs] Let_def t by simp
qed

lemma file_records_file: "list_all (codec enc dec) rs \<Longrightarrow> file_records dec (Some (file_of enc rs)) = rs"
proof -
  assume rs: "list_all (codec enc dec) rs"
  hence "line_records dec (map enc rs) = rs" by (induction rs) (simp_all add: line_records_def codec_def map_filter_simps)
  thus ?thesis by (simp add: file_records_def log_lines_file [OF rs])
qed

lemma lastRecordIn_file:
  assumes "list_all (codec enc dec) rs"
  shows "lastRecordIn dec (Some (file_of enc rs)) = Inr (if rs = [] then None else Some (last rs))"
proof -
  have "fold (\<lambda>l last. let line = trim_space l in if line = [] then last else case dec line of None \<Rightarrow> last | Some r \<Rightarrow> Some r) (map enc rs) a =
      (if rs = [] then a else Some (last rs))" for a
    using assms by (induction rs arbitrary: a) (simp_all add: codec_def)
  thus ?thesis by (simp add: lastRecordIn_def scan_file [OF assms])
qed

lemma torn_loop_file:
  "list_all (codec enc dec) rs \<Longrightarrow> torn_loop dec (map enc rs) off keep = (if rs = [] then keep else off + length (file_of enc rs))"
  by (induction rs arbitrary: off keep) (simp_all add: codec_def Let_def)

text \<open>A torn tail is cut off; a whole line that was never acknowledged stays.\<close>

lemma truncateTornTail_file:
  assumes "list_all (codec enc dec) rs" "newline \<notin> set tail"
  shows "truncateTornTail dec (file_of enc rs @ tail) = file_of enc rs"
  using torn_loop_file [OF assms(1), of 0 0] by (simp add: truncateTornTail_def split_file [OF assms])

lemma truncateTornTail_crash:
  assumes "list_all (codec enc dec) rs" "codec enc dec r"
  shows "truncateTornTail dec (file_of enc rs @ take k (enc r @ [newline])) = file_of enc (if k \<le> length (enc r) then rs else rs @ [r])"
proof (cases "k \<le> length (enc r)")
  case True
  have "newline \<notin> set (take k (enc r @ [newline]))" using True assms(2) by (auto simp: codec_def dest: in_set_takeD)
  thus ?thesis using truncateTornTail_file [OF assms(1)] True by simp
next
  case False
  thus ?thesis using truncateTornTail_file [of enc dec "rs @ [r]" "[]"] assms by simp
qed

lemma verify_lines_file:
  assumes "list_all (codec enc dec) rs" "follows H prev ex rs" "no_wrap rs"
  shows "verify_lines dec H (map enc rs) prev ex = (end_state prev ex rs, None)"
  using assms
proof (induction rs arbitrary: prev ex)
  case (Cons r rs)
  have "follows H (mr_Digest r) (mr_Seq r + 1) rs" using Cons.prems(2) by (auto simp: follows_def chained_Cons)
  hence "verify_lines dec H (map enc rs) (mr_Digest r) (mr_Seq r + 1) = (end_state (mr_Digest r) (mr_Seq r + 1) rs, None)"
    using Cons.IH Cons.prems(1,3) by (simp add: no_wrap_def)
  moreover have "end_state (mr_Digest r) (mr_Seq r + 1) rs = end_state prev ex (r # rs)" by (simp add: end_state_def)
  ultimately show ?case using Cons.prems(1,2) by (auto simp: codec_def follows_def chained_Cons Let_def)
qed (simp add: end_state_def)

lemma verifySegment_file:
  "list_all (codec enc dec) rs \<Longrightarrow> follows H prev ex rs \<Longrightarrow> no_wrap rs \<Longrightarrow> verifySegment dec H (Some (file_of enc rs)) prev ex = (end_state prev ex rs, None)"
  by (simp add: verifySegment_def scan_file verify_lines_file)

lemma follows_split:
  "follows H prev ex (xs @ ys) \<Longrightarrow> follows H prev ex xs \<and> follows H (fst (end_state prev ex xs)) (snd (end_state prev ex xs)) ys"
  by (auto simp: follows_def chained_append end_state_def)

lemma verify_files_file:
  assumes "list_all (\<lambda>rs. list_all (codec enc dec) rs) segs" "follows H prev ex (concat segs)" "no_wrap (concat segs)"
  shows "verify_files dec H (map (\<lambda>rs. Some (file_of enc rs)) segs) prev ex = None"
  using assms
proof (induction segs arbitrary: prev ex)
  case (Cons rs segs)
  note f = follows_split [of H prev ex rs "concat segs"]
  have "verifySegment dec H (Some (file_of enc rs)) prev ex = (end_state prev ex rs, None)"
    using Cons.prems f by (intro verifySegment_file) (auto simp: no_wrap_def)
  thus ?case using Cons.IH [of "fst (end_state prev ex rs)" "snd (end_state prev ex rs)"] Cons.prems f by (simp add: no_wrap_def split_beta)
qed simp

section \<open>Appending, failing and restarting\<close>

text \<open>
  The state of a log with its history: \<open>gone\<close> are the records of pruned files, \<open>segs\<close> those of
  the rotated files, oldest first, and \<open>cur\<close> those of the live one. A file that could not be
  opened again is missing, and then the log is closed.
\<close>

definition log_disk :: "(mut_record \<Rightarrow> string) \<Rightarrow> mut_record list list \<Rightarrow> mut_record list \<Rightarrow> mutation_log \<Rightarrow> bool" where
  "log_disk enc segs cur l \<longleftrightarrow>
     distinct (map fst (ml_rotated l)) \<and> map snd (by_stamp (ml_rotated l)) = map (file_of enc) segs \<and>
     (ml_live l = Some (file_of enc cur) \<or> ml_live l = None \<and> cur = [] \<and> \<not> ml_open l)"

definition log_counts :: "mut_record list \<Rightarrow> mutation_log \<Rightarrow> bool" where
  "log_counts rs l \<longleftrightarrow> ml_seq l = of_nat (length rs) \<and> ml_head l = (if rs = [] then [] else mr_Digest (last rs))"

definition history_ok :: "(mut_record \<Rightarrow> string) \<Rightarrow> (string \<Rightarrow> mut_record option) \<Rightarrow> (string \<Rightarrow> string) \<Rightarrow> mut_record list \<Rightarrow> bool" where
  "history_ok enc dec H rs \<longleftrightarrow>
     list_all (codec enc dec) rs \<and> chained H rs \<and> length rs < 2 ^ 64 - 1 \<and> (rs \<noteq> [] \<longrightarrow> mr_Seq (hd rs) = 1 \<and> mr_Prev (hd rs) = [])"

definition log_inv :: "(mut_record \<Rightarrow> string) \<Rightarrow> (string \<Rightarrow> mut_record option) \<Rightarrow> (string \<Rightarrow> string) \<Rightarrow> mut_record list \<Rightarrow> mutation_log \<Rightarrow> bool" where
  "log_inv enc dec H rs l \<longleftrightarrow>
     (\<exists>gone segs cur. rs = gone @ concat segs @ cur \<and> log_disk enc segs cur l \<and> list_all (\<lambda>s. s \<noteq> []) segs \<and> (gone \<noteq> [] \<longrightarrow> segs \<noteq> [])) \<and>
     history_ok enc dec H rs \<and> log_counts rs l \<and> 0 < ml_maxBytes l \<and> 0 < ml_keep l \<and>
     (ml_open l \<longrightarrow> map_option (\<lambda>d. int (length d)) (ml_live l) = Some (ml_size l))"

lemma chained_seq: "chained H rs \<Longrightarrow> rs \<noteq> [] \<Longrightarrow> mr_Seq (hd rs) = 1 \<Longrightarrow> mr_Seq (last rs) = of_nat (length rs)"
proof (induction rs rule: rev_induct)
  case (snoc r rs)
  thus ?case by (cases "rs = []") (auto simp: chained_append)
qed simp

lemma chained_seqs: "chained H rs \<Longrightarrow> rs \<noteq> [] \<Longrightarrow> mr_Seq (hd rs) = 1 \<Longrightarrow> r \<in> set rs \<Longrightarrow> \<exists>n. 1 \<le> n \<and> n \<le> length rs \<and> mr_Seq r = of_nat n"
proof (induction rs rule: rev_induct)
  case (snoc x rs)
  show ?case
  proof (cases "r \<in> set rs")
    case True
    hence "rs \<noteq> []" by auto
    with snoc True show ?thesis by (auto simp: chained_append dest!: snoc.IH)
  next
    case False
    hence "r = x" using snoc.prems(4) by simp
    thus ?thesis using chained_seq [OF snoc.prems(1-3)] by (intro exI [of _ "length (rs @ [x])"]) simp
  qed
qed simp

lemma history_no_wrap:
  assumes "history_ok enc dec H rs"
  shows "no_wrap rs"
proof -
  have "mr_Seq r + 1 \<noteq> 0" if r: "r \<in> set rs" for r
  proof -
    have "rs \<noteq> []" using r by auto
    then obtain n where n: "1 \<le> n" "n \<le> length rs" "mr_Seq r = of_nat n"
      using chained_seqs [OF _ _ _ r] assms unfolding history_ok_def by blast
    have "n + 1 < 2 ^ 64" using n(2) assms by (simp add: history_ok_def)
    hence "unat (of_nat (n + 1) :: 64 word) = n + 1" by (simp only: unat_of_nat) simp
    thus ?thesis using n(3) by (metis add_eq_0_iff_both_eq_0 of_nat_1 of_nat_add unat_0 zero_neq_one)
  qed
  thus ?thesis by (simp add: no_wrap_def list_all_iff)
qed

lemma by_stamp_sorted: "sorted (map fst (by_stamp fs))"
  by (simp add: by_stamp_def)

lemma by_stamp_id: "sorted (map fst fs) \<Longrightarrow> by_stamp fs = fs"
  unfolding by_stamp_def by (rule properties_for_sort_key) simp_all

lemma by_stamp_newest:
  assumes "\<And>f. f \<in> set fs \<Longrightarrow> fst f < s"
  shows "by_stamp (AList.update s d fs) = by_stamp fs @ [(s, d)]"
proof -
  have new: "s \<notin> fst ` set fs" using assms by force
  hence "AList.update s d fs = fs @ [(s, d)]" by (induction fs) auto
  moreover have "sort_key fst (fs @ [(s, d)]) = sort_key fst fs @ [(s, d)]"
  proof (rule properties_for_sort_key)
    fix k assume "k \<in> set (sort_key fst fs @ [(s, d)])"
    show "filter (\<lambda>x. fst k = fst x) (sort_key fst fs @ [(s, d)]) = filter (\<lambda>x. fst k = fst x) (fs @ [(s, d)])"
      using sort_key_stable [of fst "fst k" fs] by (simp add: eq_commute [of "fst k"])
  next
    show "sorted (map fst (sort_key fst fs @ [(s, d)]))" using assms by (auto simp: sorted_append intro: less_imp_le)
  qed simp
  ultimately show ?thesis by (simp add: by_stamp_def)
qed

text \<open>Opening the directory finds the newest record and goes on from it.\<close>

lemma recover_finds:
  assumes "list_all (codec enc dec) (concat segs @ cur)" "list_all (\<lambda>s. s \<noteq> []) segs"
  shows "recover_from dec (Some (file_of enc cur) # map (\<lambda>rs. Some (file_of enc rs)) (rev segs)) =
    Inr (if concat segs @ cur = [] then None else Some (last (concat segs @ cur)))"
proof (cases "cur = []")
  case True
  show ?thesis
  proof (cases segs rule: rev_cases)
    case (snoc ss s)
    have "lastRecordIn dec (Some (file_of enc s)) = Inr (Some (last s))" using lastRecordIn_file [of enc dec s] assms snoc by simp
    thus ?thesis using True snoc assms(2) lastRecordIn_file [of enc dec "[]"] by simp
  qed (use True lastRecordIn_file [of enc dec "[]"] in simp)
next
  case False
  thus ?thesis using lastRecordIn_file [of enc dec cur] assms(1) by simp
qed

lemma open_finds_the_head:
  assumes "history_ok enc dec H rs" "rs = gone @ concat segs @ cur" "list_all (\<lambda>s. s \<noteq> []) segs" "gone \<noteq> [] \<longrightarrow> segs \<noteq> []"
    and "distinct (map fst rotated)" "map snd (by_stamp rotated) = map (file_of enc) segs"
    and "truncateTornTail dec (case live of None \<Rightarrow> [] | Some s \<Rightarrow> s) = file_of enc cur"
  shows "\<exists>l. OpenMutationLog dec True maxBytes keep live rotated = Inr l \<and> log_inv enc dec H rs l"
proof -
  define l where "l = \<lparr>ml_maxBytes = (if maxBytes \<le> 0 then defaultLogMaxSize else maxBytes), ml_keep = (if keep \<le> 0 then defaultLogKeep else nat keep),
    ml_open = True, ml_size = int (length (file_of enc cur)), ml_seq = 0, ml_head = [], ml_live = Some (file_of enc cur), ml_rotated = rotated\<rparr>"
  have codecs: "list_all (codec enc dec) (concat segs @ cur)" using assms(1,2) by (auto simp: history_ok_def)
  have "segmentsNewestFirst l = Some (file_of enc cur) # map Some (rev (map snd (by_stamp rotated)))"
    by (simp add: segmentsNewestFirst_def l_def rev_map comp_def)
  hence rec: "recover_from dec (segmentsNewestFirst l) = Inr (if concat segs @ cur = [] then None else Some (last (concat segs @ cur)))"
    using recover_finds [OF codecs assms(3)] by (simp add: assms(6) rev_map comp_def)
  have empty: "concat segs @ cur = [] \<longleftrightarrow> rs = []" using assms(2-4) by (cases segs) (auto simp: list_all_iff)
  have lst: "rs \<noteq> [] \<Longrightarrow> last (concat segs @ cur) = last rs" using empty assms(2) by (metis append_is_Nil_conv last_appendR)
  have num: "rs \<noteq> [] \<Longrightarrow> mr_Seq (last rs) = of_nat (length rs)" using assms(1) chained_seq by (auto simp: history_ok_def)
  let ?l = "if rs = [] then l else l\<lparr>ml_seq := mr_Seq (last rs), ml_head := mr_Digest (last rs)\<rparr>"
  have "OpenMutationLog dec True maxBytes keep live rotated = Inr ?l"
    using rec empty lst assms(7) by (auto simp: OpenMutationLog_def recoverHead_def l_def Let_def)
  moreover have "log_disk enc segs cur ?l" using assms(5,6) by (simp add: log_disk_def l_def)
  moreover have "log_counts rs ?l" using num by (simp add: log_counts_def l_def)
  moreover have "0 < ml_maxBytes ?l" "0 < ml_keep ?l" by (simp_all add: l_def defaultLogMaxSize_def defaultLogKeep_def)
  moreover have "ml_open ?l \<longrightarrow> map_option (\<lambda>d. int (length d)) (ml_live ?l) = Some (ml_size ?l)" by (simp add: l_def)
  ultimately show ?thesis using assms(1-4) unfolding log_inv_def by blast
qed

lemma log_invE:
  assumes "log_inv enc dec H rs l"
  obtains gone segs cur where "rs = gone @ concat segs @ cur" "log_disk enc segs cur l" "list_all (\<lambda>s. s \<noteq> []) segs" "gone \<noteq> [] \<longrightarrow> segs \<noteq> []"
  using assms by (auto simp: log_inv_def)

lemma log_inv_parts:
  assumes "log_inv enc dec H rs l"
  shows "history_ok enc dec H rs" "log_counts rs l" "0 < ml_maxBytes l" "0 < ml_keep l"
    "ml_open l \<longrightarrow> map_option (\<lambda>d. int (length d)) (ml_live l) = Some (ml_size l)"
  using assms by (simp_all add: log_inv_def)

lemma log_invI:
  assumes "rs = gone @ concat segs @ cur" "log_disk enc segs cur l" "list_all (\<lambda>s. s \<noteq> []) segs" "gone \<noteq> [] \<longrightarrow> segs \<noteq> []"
    and "history_ok enc dec H rs" "log_counts rs l" "0 < ml_maxBytes l" "0 < ml_keep l"
    and "ml_open l \<longrightarrow> map_option (\<lambda>d. int (length d)) (ml_live l) = Some (ml_size l)"
  shows "log_inv enc dec H rs l"
  using assms unfolding log_inv_def by blast

text \<open>Dropping the oldest files, all but some of them, keeps the log what it was.\<close>

lemma drop_oldest:
  assumes "log_inv enc dec H rs l" "n < length (ml_rotated l)"
  shows "log_inv enc dec H rs (l\<lparr>ml_rotated := drop n (by_stamp (ml_rotated l))\<rparr>)"
proof -
  from assms(1) obtain gone segs cur where inv: "rs = gone @ concat segs @ cur" "log_disk enc segs cur l" "list_all (\<lambda>s. s \<noteq> []) segs"
    by (rule log_invE)
  let ?fs = "by_stamp (ml_rotated l)"
  have "sorted (map fst (drop n ?fs))" using by_stamp_sorted [of "ml_rotated l"] by (simp add: drop_map [symmetric] sorted_wrt_drop)
  hence same: "by_stamp (drop n ?fs) = drop n ?fs" by (rule by_stamp_id)
  have len: "length segs = length (ml_rotated l)" using inv(2) by (metis log_disk_def by_stamp_def length_map length_sort)
  have "mset (map fst ?fs) = mset (map fst (ml_rotated l))" by (simp add: by_stamp_def)
  hence "distinct (map fst ?fs)" using inv(2) mset_eq_imp_distinct_iff unfolding log_disk_def by blast
  hence names: "distinct (map fst (drop n ?fs))" by (simp add: drop_map [symmetric])
  have "log_disk enc (drop n segs) cur (l\<lparr>ml_rotated := drop n ?fs\<rparr>)"
    using inv(2) names same by (simp add: log_disk_def drop_map [symmetric])
  moreover have "rs = (gone @ concat (take n segs)) @ concat (drop n segs) @ cur" using inv(1) by (simp add: concat_append [symmetric] del: concat_append)
  moreover have "drop n segs \<noteq> []" using len assms(2) by simp
  moreover have "list_all (\<lambda>s. s \<noteq> []) (drop n segs)" using inv(3) by (auto simp: list_all_iff dest: in_set_dropD)
  ultimately show ?thesis using log_inv_parts [OF assms(1)]
    by (intro log_invI [of rs "gone @ concat (take n segs)" "drop n segs" cur]) (simp_all only: log_counts_def mutation_log.simps mutation_log.update_convs, simp_all)
qed

lemma log_prune_keeps:
  assumes "log_inv enc dec H rs l" "pruneLocked env l = (e, l')"
  shows "log_inv enc dec H rs l'" and "ml_open l' = ml_open l" and "ml_live l' = ml_live l" and "ml_size l' = ml_size l"
proof -
  have len: "length (by_stamp (ml_rotated l)) = length (ml_rotated l)" by (simp add: by_stamp_def)
  have keep: "0 < ml_keep l" using assms(1) by (simp add: log_inv_def)
  have "l' = l \<or> (\<exists>n < length (ml_rotated l). l' = l\<lparr>ml_rotated := drop n (by_stamp (ml_rotated l))\<rparr>)"
    using assms(2) len keep by (auto simp: pruneLocked_def Let_def split: if_splits option.splits) (metis diff_less less_le_trans not_le order_less_trans)+
  thus "log_inv enc dec H rs l'" "ml_open l' = ml_open l" "ml_live l' = ml_live l" "ml_size l' = ml_size l" using assms(1) drop_oldest by auto
qed

lemma log_inv_closed: "log_inv enc dec H rs l \<Longrightarrow> log_inv enc dec H rs (l\<lparr>ml_open := False\<rparr>)"
  by (auto simp: log_inv_def log_disk_def log_counts_def)

lemma file_of_Nil: "list_all (codec enc dec) rs \<Longrightarrow> file_of enc rs = [] \<longleftrightarrow> rs = []"
  by (cases rs) auto

lemma rename_keeps:
  assumes "log_inv enc dec H rs l" "ml_live l = Some data" "data \<noteq> []" "\<And>f. f \<in> set (ml_rotated l) \<Longrightarrow> fst f < s"
  shows "log_inv enc dec H rs (l\<lparr>ml_open := False, ml_live := None, ml_rotated := AList.update s data (ml_rotated l)\<rparr>)"
    and "log_inv enc dec H rs (l\<lparr>ml_rotated := AList.update s data (ml_rotated l), ml_open := True, ml_live := Some [], ml_size := 0\<rparr>)"
proof -
  from assms(1) obtain gone segs cur where inv: "rs = gone @ concat segs @ cur" "log_disk enc segs cur l" "list_all (\<lambda>s. s \<noteq> []) segs"
    by (rule log_invE)
  have data: "data = file_of enc cur" using inv(2) assms(2) by (simp add: log_disk_def)
  hence cur: "cur \<noteq> []" using assms(3) by auto
  have segs: "map snd (by_stamp (AList.update s data (ml_rotated l))) = map (file_of enc) (segs @ [cur])"
    using by_stamp_newest [OF assms(4)] inv(2) data by (simp add: log_disk_def)
  have names: "distinct (map fst (AList.update s data (ml_rotated l)))" using inv(2) by (simp add: log_disk_def distinct_update)
  have split: "rs = gone @ concat (segs @ [cur]) @ []" using inv(1) by simp
  have ne: "list_all (\<lambda>s. s \<noteq> []) (segs @ [cur])" using inv(3) cur by simp
  note parts = log_inv_parts [OF assms(1)]
  show "log_inv enc dec H rs (l\<lparr>ml_open := False, ml_live := None, ml_rotated := AList.update s data (ml_rotated l)\<rparr>)"
    by (rule log_invI [OF split _ ne]) (use parts segs names in \<open>simp_all add: log_disk_def log_counts_def\<close>)
  show "log_inv enc dec H rs (l\<lparr>ml_rotated := AList.update s data (ml_rotated l), ml_open := True, ml_live := Some [], ml_size := 0\<rparr>)"
    by (rule log_invI [OF split _ ne]) (use parts segs names in \<open>simp_all add: log_disk_def log_counts_def\<close>)
qed

lemma rotate_keeps:
  assumes "log_inv enc dec H rs l" "rotateIfNeededLocked env l = (e, l')" "\<And>f. f \<in> set (ml_rotated l) \<Longrightarrow> fst f < ae_stamp env"
  shows "log_inv enc dec H rs l'"
proof (cases "ml_open l \<and> \<not> ml_size l < ml_maxBytes l \<and> ae_presync env \<and> ae_close env")
  case False
  thus ?thesis using assms(1,2) log_inv_closed [OF assms(1)] by (auto simp: rotateIfNeededLocked_def split: if_splits)
next
  case True
  have size: "map_option (\<lambda>d. int (length d)) (ml_live l) = Some (ml_size l)" "0 < ml_maxBytes l" using log_inv_parts [OF assms(1)] True by auto
  then obtain data where data: "ml_live l = Some data" "int (length data) = ml_size l" by auto
  hence ne: "data \<noteq> []" using True size(2) by auto
  note moved = rename_keeps [OF assms(1) data(1) ne assms(3)]
  show ?thesis
  proof (cases "ae_rename env")
    case False
    have "l\<lparr>ml_size := (if ae_stat env then int (length data) else ml_size l)\<rparr> = l" using data(2) by simp
    thus ?thesis using False True assms(1,2) data(1) log_inv_closed [OF assms(1)] by (auto simp: rotateIfNeededLocked_def split: if_splits)
  next
    case renamed: True
    thus ?thesis using True assms(2) data(1) moved log_prune_keeps(1) [OF moved(2)]
      by (auto simp: rotateIfNeededLocked_def Let_def split: if_splits)
  qed
qed

lemma rotate_open: "rotateIfNeededLocked env l = (None, l') \<Longrightarrow> log_inv enc dec H rs l \<Longrightarrow> ml_seq l' = ml_seq l \<and> ml_head l' = ml_head l"
  by (auto simp: rotateIfNeededLocked_def pruneLocked_def Let_def split: if_splits option.splits)

text \<open>What an append needs of the world: the record's text, a clock that has moved on since the last rotation, and numbers that have not run out.\<close>

definition append_usable :: "(mut_record \<Rightarrow> string) \<Rightarrow> (string \<Rightarrow> mut_record option) \<Rightarrow> append_env \<Rightarrow> mut_record \<Rightarrow> mutation_log \<Rightarrow> bool" where
  "append_usable enc dec env r l \<longleftrightarrow> codec enc dec r \<and> (\<forall>f \<in> set (ml_rotated l). fst f < ae_stamp env) \<and> unat (ml_seq l) < 2 ^ 64 - 2"

lemma log_counts_nat: "log_inv enc dec H rs l \<Longrightarrow> unat (ml_seq l) = length rs"
  using log_inv_parts(1,2) [of enc dec H rs l] by (simp add: log_counts_def history_ok_def unat_of_nat)

lemma history_grows:
  assumes "log_inv enc dec H rs l" "codec enc dec r" "unat (ml_seq l) < 2 ^ 64 - 2"
    and "r = new_record H env operation subject actor callID outcome l1" "ml_seq l1 = ml_seq l" "ml_head l1 = ml_head l"
  shows "history_ok enc dec H (rs @ [r])"
proof -
  note inv = log_inv_parts(1,2) [OF assms(1)]
  have len: "length rs < 2 ^ 64 - 2" using log_counts_nat [OF assms(1)] assms(3) by simp
  have r: "mr_Seq r = of_nat (length rs) + 1" "mr_Prev r = (if rs = [] then [] else mr_Digest (last rs))" "mr_Digest r = digestOf H r"
    using assms(4-6) inv(2) by (simp_all add: new_record_def log_counts_def Let_def digestOf_def digest_fields_def)
  have "rs \<noteq> [] \<Longrightarrow> mr_Seq (last rs) = of_nat (length rs)" using chained_seq inv(1) by (auto simp: history_ok_def)
  hence "chained H (rs @ [r])" using inv(1) r by (auto simp: history_ok_def chained_append)
  thus ?thesis using inv(1) assms(2) r len by (cases rs) (auto simp: history_ok_def)
qed

lemma written_disk:
  assumes "log_inv enc dec H rs l" "ml_open l" "ae_write env = None" "history_ok enc dec H (rs @ [r])" "mr_Seq r = ml_seq l + 1"
  shows "log_inv enc dec H (rs @ [r]) ((log_written env (enc r @ [newline]) l)\<lparr>ml_size := ml_size l + int (length (enc r @ [newline])), ml_seq := mr_Seq r, ml_head := mr_Digest r\<rparr>)"
proof -
  from assms(1) obtain gone segs cur where inv: "rs = gone @ concat segs @ cur" "log_disk enc segs cur l" "list_all (\<lambda>s. s \<noteq> []) segs" "gone \<noteq> [] \<longrightarrow> segs \<noteq> []"
    by (rule log_invE)
  have split: "rs @ [r] = gone @ concat segs @ (cur @ [r])" using inv(1) by simp
  have live: "ml_live l = Some (file_of enc cur)" using inv(2) assms(2) by (simp add: log_disk_def)
  note parts = log_inv_parts [OF assms(1)]
  show ?thesis
    by (rule log_invI [OF split _ inv(3,4) assms(4)]) (use parts inv(2) live assms(2,3,5) in \<open>simp_all add: log_disk_def log_counts_def log_written_def\<close>)
qed

lemma rolled_back:
  assumes "log_inv enc dec H rs l" "ae_truncate env"
  shows "rollbackLocked env (log_written env line l) = l"
proof (cases "ml_open l")
  case True
  then obtain d where d: "ml_live l = Some d" "int (length d) = ml_size l" using log_inv_parts(5) [OF assms(1)] by auto
  hence "nat (ml_size l) = length d" by simp
  thus ?thesis using True assms(2) d by (cases l) (simp add: rollbackLocked_def log_written_def)
qed (simp add: rollbackLocked_def log_written_def)

lemma append_keeps:
  assumes "log_inv enc dec H rs l" "log_Append enc H env operation subject actor callID outcome l = (res, l')"
    and "append_usable enc dec env (new_record H env operation subject actor callID outcome l) l" "ae_truncate env"
  shows "case res of Inl e \<Rightarrow> log_inv enc dec H rs l' | Inr r \<Rightarrow> log_inv enc dec H (rs @ [r]) l'"
proof -
  have stamps: "\<And>f. f \<in> set (ml_rotated l) \<Longrightarrow> fst f < ae_stamp env" using assms(3) by (simp add: append_usable_def)
  obtain e l1 where rot: "rotateIfNeededLocked env l = (e, l1)" by (rule prod.exhaust)
  note inv1 = rotate_keeps [OF assms(1) rot stamps]
  show ?thesis
  proof (cases e)
    case (Some x)
    thus ?thesis using assms(2) rot inv1 by (auto simp: log_Append_def)
  next
    case None
    let ?r = "new_record H env operation subject actor callID outcome l1"
    note same = rotate_open [OF rot [unfolded None] assms(1)]
    have r: "?r = new_record H env operation subject actor callID outcome l" using same by (simp add: new_record_def)
    have hist: "history_ok enc dec H (rs @ [?r])"
      by (rule history_grows [OF assms(1) _ _ refl]) (use assms(3) same r in \<open>simp_all add: append_usable_def\<close>)
    have seq: "mr_Seq ?r = ml_seq l1 + 1" by (simp add: new_record_def Let_def)
    show ?thesis
    proof (cases "ml_open l1 \<and> ae_write env = None \<and> ae_sync env")
      case True
      thus ?thesis using assms(2) rot None written_disk [OF inv1 _ _ hist seq] by (auto simp: log_Append_def Let_def log_written_def)
    next
      case False
      thus ?thesis using assms(2) rot None inv1 rolled_back [OF inv1 assms(4)] by (auto simp: log_Append_def Let_def split: if_splits)
    qed
  qed
qed

lemma reopened:
  assumes "log_inv enc dec H rs l" "ml_rotated l' = ml_rotated l" "ml_live l' = map_option (\<lambda>d. d @ take k (enc r @ [newline])) (ml_live l)"
    and "codec enc dec r" "history_ok enc dec H (rs @ [r])"
  shows "\<exists>l2 rs'. OpenMutationLog dec True maxBytes keep (ml_live l') (ml_rotated l') = Inr l2 \<and> log_inv enc dec H rs' l2 \<and>
    rs' = (if ml_live l = None \<or> k \<le> length (enc r) then rs else rs @ [r])"
proof -
  from assms(1) obtain gone segs cur where inv: "rs = gone @ concat segs @ cur" "log_disk enc segs cur l" "list_all (\<lambda>s. s \<noteq> []) segs" "gone \<noteq> [] \<longrightarrow> segs \<noteq> []"
    by (rule log_invE)
  let ?new = "if ml_live l = None \<or> k \<le> length (enc r) then [] else [r]"
  have hist: "history_ok enc dec H (rs @ ?new)" using log_inv_parts(1) [OF assms(1)] assms(5) by simp
  have cur: "list_all (codec enc dec) cur" using log_inv_parts(1) [OF assms(1)] inv(1) by (simp add: history_ok_def)
  have split: "rs @ ?new = gone @ concat segs @ (cur @ ?new)" using inv(1) by simp
  have disk: "distinct (map fst (ml_rotated l'))" "map snd (by_stamp (ml_rotated l')) = map (file_of enc) segs" using inv(2) assms(2) by (simp_all add: log_disk_def)
  have "truncateTornTail dec (case ml_live l' of None \<Rightarrow> [] | Some s \<Rightarrow> s) = file_of enc (cur @ ?new)"
  proof (cases "ml_live l")
    case None
    hence "cur = []" using inv(2) by (simp add: log_disk_def)
    thus ?thesis using None assms(3) by (simp add: truncateTornTail_def)
  next
    case (Some d)
    hence "d = file_of enc cur" using inv(2) by (simp add: log_disk_def)
    thus ?thesis using Some assms(3) truncateTornTail_crash [OF cur assms(4), of k] by simp
  qed
  from open_finds_the_head [OF hist split inv(3,4) disk this]
  obtain l2 where "OpenMutationLog dec True maxBytes keep (ml_live l') (ml_rotated l') = Inr l2" "log_inv enc dec H (rs @ ?new) l2" by blast
  moreover have "rs @ ?new = (if ml_live l = None \<or> k \<le> length (enc r) then rs else rs @ [r])" by simp
  ultimately show ?thesis by metis
qed

lemma reopened_plain:
  assumes "log_inv enc dec H rs l"
  shows "\<exists>l2. OpenMutationLog dec True maxBytes keep (ml_live l) (ml_rotated l) = Inr l2 \<and> log_inv enc dec H rs l2"
proof -
  from assms obtain gone segs cur where inv: "rs = gone @ concat segs @ cur" "log_disk enc segs cur l" "list_all (\<lambda>s. s \<noteq> []) segs" "gone \<noteq> [] \<longrightarrow> segs \<noteq> []"
    by (rule log_invE)
  note hist = log_inv_parts(1) [OF assms]
  have "list_all (codec enc dec) cur" using hist inv(1) by (simp add: history_ok_def)
  hence "truncateTornTail dec (case ml_live l of None \<Rightarrow> [] | Some s \<Rightarrow> s) = file_of enc cur"
    using inv(2) truncateTornTail_file [of enc dec cur "[]"] by (auto simp: log_disk_def truncateTornTail_def)
  thus ?thesis using open_finds_the_head [OF hist inv(1,3,4)] inv(2) by (simp add: log_disk_def)
qed

text \<open>Whatever an append left on the disk when the process stopped, with no rollback taken, a start makes a log of it again.\<close>

lemma crash_keeps:
  assumes "log_inv enc dec H rs l" "log_Append enc H env operation subject actor callID outcome l = (res, l')"
    and "append_usable enc dec env (new_record H env operation subject actor callID outcome l) l"
  shows "\<exists>l2 rs'. OpenMutationLog dec True maxBytes keep (ml_live l') (ml_rotated l') = Inr l2 \<and> log_inv enc dec H rs' l2 \<and>
    (case res of Inl e \<Rightarrow> rs' = rs \<or> (\<exists>r. rs' = rs @ [r]) | Inr r \<Rightarrow> rs' = rs @ [r])"
proof -
  have stamps: "\<And>f. f \<in> set (ml_rotated l) \<Longrightarrow> fst f < ae_stamp env" using assms(3) by (simp add: append_usable_def)
  obtain e l1 where rot: "rotateIfNeededLocked env l = (e, l1)" by (rule prod.exhaust)
  note inv1 = rotate_keeps [OF assms(1) rot stamps]
  show ?thesis
  proof (cases e)
    case (Some x)
    hence "res = Inl x" "l' = l1" using assms(2) rot by (auto simp: log_Append_def)
    thus ?thesis using reopened_plain [OF inv1, of maxBytes keep] by auto
  next
    case None
    let ?r = "new_record H env operation subject actor callID outcome l1" and ?line = "enc (new_record H env operation subject actor callID outcome l1) @ [newline]"
    note same = rotate_open [OF rot [unfolded None] assms(1)]
    have r: "?r = new_record H env operation subject actor callID outcome l" using same by (simp add: new_record_def)
    have hist: "history_ok enc dec H (rs @ [?r])"
      by (rule history_grows [OF assms(1) _ _ refl]) (use assms(3) same r in \<open>simp_all add: append_usable_def\<close>)
    have cod: "codec enc dec ?r" using assms(3) r by (simp add: append_usable_def)
    show ?thesis
    proof (cases "ml_open l1 \<and> ae_write env = None \<and> ae_sync env")
      case True
      hence "case res of Inl e \<Rightarrow> False | Inr r \<Rightarrow> r = ?r \<and> log_inv enc dec H (rs @ [?r]) l'"
        using assms(2) rot None written_disk [OF inv1 _ _ hist] by (auto simp: log_Append_def Let_def log_written_def new_record_def)
      thus ?thesis using reopened_plain [of enc dec H "rs @ [?r]" l' maxBytes keep] by (cases res) auto
    next
      case False
      then obtain x where res: "res = Inl x" "l' = rollbackLocked env (log_written env ?line l1)"
        using assms(2) rot None by (auto simp: log_Append_def Let_def split: if_splits)
      show ?thesis
      proof (cases "ml_open l1 \<and> \<not> ae_truncate env")
        case closed: False
        have "l' = l1" using closed res(2) rolled_back [OF inv1] by (cases "ae_truncate env") (auto simp: rollbackLocked_def log_written_def)
        thus ?thesis using reopened_plain [OF inv1, of maxBytes keep] res(1) by auto
      next
        case True
        have "ml_live l' = map_option (\<lambda>d. d @ take (case ae_write env of None \<Rightarrow> length ?line | Some k \<Rightarrow> k) ?line) (ml_live l1)" "ml_rotated l' = ml_rotated l1"
          using True res(2) by (auto simp: rollbackLocked_def log_written_def split: option.splits)
        from reopened [OF inv1 this(2,1) cod hist, of maxBytes keep]
        obtain l2 rs' where "OpenMutationLog dec True maxBytes keep (ml_live l') (ml_rotated l') = Inr l2" "log_inv enc dec H rs' l2" "rs' = rs \<or> rs' = rs @ [?r]"
          by (metis (full_types))
        thus ?thesis using res(1) by auto
      qed
    qed
  qed
qed

text \<open>
  A log in use, with the records it has acknowledged: appends that succeed or fail, a process
  that stops during an append, at any byte of it, and starts again, and a plain restart.
\<close>

inductive log_step :: "(mut_record \<Rightarrow> string) \<Rightarrow> (string \<Rightarrow> mut_record option) \<Rightarrow> (string \<Rightarrow> string) \<Rightarrow>
    mutation_log \<times> mut_record list \<Rightarrow> mutation_log \<times> mut_record list \<Rightarrow> bool"
  for enc :: "mut_record \<Rightarrow> string" and dec :: "string \<Rightarrow> mut_record option" and H :: "string \<Rightarrow> string" where
  log_appends: "log_Append enc H env operation subject actor callID outcome l = (Inr r, l') \<Longrightarrow>
     append_usable enc dec env (new_record H env operation subject actor callID outcome l) l \<Longrightarrow> ae_truncate env \<Longrightarrow> log_step enc dec H (l, acked) (l', acked @ [r])"
| log_fails: "log_Append enc H env operation subject actor callID outcome l = (Inl e, l') \<Longrightarrow>
     append_usable enc dec env (new_record H env operation subject actor callID outcome l) l \<Longrightarrow> ae_truncate env \<Longrightarrow> log_step enc dec H (l, acked) (l', acked)"
| log_crash: "log_Append enc H env operation subject actor callID outcome l = (Inl e, l1) \<Longrightarrow>
     append_usable enc dec env (new_record H env operation subject actor callID outcome l) l \<Longrightarrow>
     OpenMutationLog dec True maxBytes keep (ml_live l1) (ml_rotated l1) = Inr l' \<Longrightarrow> log_step enc dec H (l, acked) (l', acked)"
| log_restart: "OpenMutationLog dec True maxBytes keep (ml_live l) (ml_rotated l) = Inr l' \<Longrightarrow> log_step enc dec H (l, acked) (l', acked)"

lemma log_step_inv:
  assumes "log_step enc dec H s s'" "log_inv enc dec H rs (fst s)" "subseq (snd s) rs"
  shows "\<exists>rs'. log_inv enc dec H rs' (fst s') \<and> subseq (snd s') rs' \<and> prefix rs rs'"
  using assms
proof (induction arbitrary: rs rule: log_step.induct)
  case (log_appends env operation subject actor callID outcome l r l' acked)
  thus ?case using append_keeps [OF _ log_appends(1-3)] by (auto intro!: exI [of _ "rs @ [r]"] list_emb_append_mono)
next
  case (log_fails env operation subject actor callID outcome l e l' acked)
  thus ?case using append_keeps [OF _ log_fails(1-3)] by auto
next
  case (log_crash env operation subject actor callID outcome l e l1 maxBytes keep l' acked)
  from crash_keeps [OF _ log_crash(1,2), of rs maxBytes keep] log_crash(3-5)
  obtain rs' where "log_inv enc dec H rs' l'" "rs' = rs \<or> (\<exists>r. rs' = rs @ [r])" by auto
  thus ?case using log_crash(5) by (auto intro: list_emb_append2)
next
  case (log_restart maxBytes keep l l' acked)
  thus ?case using reopened_plain [of enc dec H rs l maxBytes keep] by auto
qed

lemma log_steps_inv:
  assumes "(log_step enc dec H)\<^sup>*\<^sup>* s s'" "log_inv enc dec H rs (fst s)" "subseq (snd s) rs"
  shows "\<exists>rs'. log_inv enc dec H rs' (fst s') \<and> subseq (snd s') rs' \<and> prefix rs rs'"
  using assms by (induction rule: rtranclp_induct) (auto dest!: log_step_inv intro: prefix_order.order_trans)

lemma log_inv_records:
  assumes "log_inv enc dec H rs l"
  shows "\<exists>gone. rs = gone @ log_records dec (ml_live l) (ml_rotated l)" and "VerifyLog dec H (ml_live l) (ml_rotated l) = None"
proof -
  from assms obtain gone segs cur where inv: "rs = gone @ concat segs @ cur" "log_disk enc segs cur l" by (rule log_invE)
  note hist = log_inv_parts(1) [OF assms]
  have cods: "list_all (\<lambda>rs. list_all (codec enc dec) rs) segs" "list_all (codec enc dec) cur"
    using hist inv(1) by (auto simp: history_ok_def list_all_iff)
  have files: "map (\<lambda>f. Some (snd f)) (by_stamp (ml_rotated l)) = map (\<lambda>rs. Some (file_of enc rs)) segs"
    using inv(2) by (simp add: log_disk_def) (metis (mono_tags, lifting) comp_def list.map_comp map_eq_conv)
  have "map (file_records dec) (map (\<lambda>rs. Some (file_of enc rs)) segs) = segs"
    using cods(1) by (simp add: list_all_iff file_records_file map_idI)
  moreover have live: "file_records dec (ml_live l) = cur"
    using inv(2) cods(2) file_records_file [of enc dec cur] by (auto simp: log_disk_def file_records_def)
  ultimately have "log_records dec (ml_live l) (ml_rotated l) = concat segs @ cur" unfolding log_records_def files by simp
  thus "\<exists>gone. rs = gone @ log_records dec (ml_live l) (ml_rotated l)" using inv(1) by auto
  have "follows H [] 0 (concat (segs @ [cur]))" "no_wrap (concat (segs @ [cur]))"
    using hist history_no_wrap [OF hist] inv(1) by (auto simp: follows_def history_ok_def chained_append no_wrap_def)
  hence v: "verify_files dec H (map (\<lambda>rs. Some (file_of enc rs)) (segs @ [cur])) [] 0 = None"
    by (intro verify_files_file [where enc = enc and dec = dec]) (use cods in simp_all)
  show "VerifyLog dec H (ml_live l) (ml_rotated l) = None"
  proof (cases "ml_live l")
    case None
    have "verify_files dec H (fs @ [Some []]) p x = verify_files dec H (fs @ [None]) p x" for fs p x
      by (induction fs arbitrary: p x) (simp_all add: verifySegment_def scan_def log_lines_def split: prod.splits option.splits)
    thus ?thesis using v None inv(2) unfolding VerifyLog_def files by (simp add: log_disk_def)
  next
    case (Some d)
    thus ?thesis using v inv(2) unfolding VerifyLog_def files by (simp add: log_disk_def)
  qed
qed

text \<open>
  C16. The log survives what it is kept for. From an empty directory, after any run of appends
  that succeed or fail at any of their system calls, rotations, pruning, crashes in the middle
  of a line and restarts, the log verifies, and every record that was acknowledged is in it, in
  order, but for those of pruned files; the count and the head digest that are anchored are
  those of the whole history; and a restart succeeds and finds the same head. The hypotheses of
  a step are that a record's text reads back, that the clock has moved on since the last
  rotation, and that a log that stays up can take back a failed write.
\<close>

theorem mutation_log_intact:
  assumes "OpenMutationLog dec True maxBytes keep None [] = Inr l0" "(log_step enc dec H)\<^sup>*\<^sup>* (l0, []) (l, acked)"
  shows "VerifyLog dec H (ml_live l) (ml_rotated l) = None \<and>
    (\<exists>gone rs. rs = gone @ log_records dec (ml_live l) (ml_rotated l) \<and> subseq acked rs \<and> chained H rs \<and>
       log_Head l = (if rs = [] then [] else mr_Digest (last rs), of_nat (length rs))) \<and>
    (\<exists>l'. OpenMutationLog dec True maxBytes' keep' (ml_live l) (ml_rotated l) = Inr l' \<and> log_Head l' = log_Head l)"
proof -
  have start: "history_ok enc dec H []" by (simp add: history_ok_def)
  have "log_inv enc dec H [] l0"
    using open_finds_the_head [OF start, of "[]" "[]" "[]" "[]" None maxBytes keep] assms(1) by (simp add: by_stamp_def truncateTornTail_def)
  then obtain rs where rs: "log_inv enc dec H rs l" "subseq acked rs" using log_steps_inv [OF assms(2)] by auto
  from log_inv_records(1) [OF rs(1)] obtain gone where gone: "rs = gone @ log_records dec (ml_live l) (ml_rotated l)" by blast
  note parts = log_inv_parts(1,2) [OF rs(1)]
  obtain l' where l': "OpenMutationLog dec True maxBytes' keep' (ml_live l) (ml_rotated l) = Inr l'" "log_inv enc dec H rs l'"
    using reopened_plain [OF rs(1)] by blast
  have "log_Head l' = log_Head l" using parts(2) log_inv_parts(2) [OF l'(2)] by (simp add: log_counts_def log_Head_def)
  moreover have "log_Head l = (if rs = [] then [] else mr_Digest (last rs), of_nat (length rs))" using parts(2) by (simp add: log_counts_def log_Head_def)
  ultimately show ?thesis using log_inv_records(2) [OF rs(1)] gone rs(2) l'(1) parts(1) unfolding history_ok_def by blast
qed

section \<open>Two records\<close>

definition demo_record :: "64 word \<Rightarrow> string \<Rightarrow> mut_record" where
  "demo_record n prev =
     (let r = \<lparr>mr_Seq = n, mr_At = ''t'', mr_Operation = ''apply'', mr_Subject = ''u1'', mr_Actor = ''op'', mr_CallID = ''c'', mr_Outcome = ''succeeded'', mr_Prev = prev, mr_Digest = []\<rparr>
      in r\<lparr>mr_Digest := digestOf (\<lambda>s. s) r\<rparr>)"

definition demo_first :: mut_record where "demo_first = demo_record 1 []"
definition demo_second :: mut_record where "demo_second = demo_record 2 (mr_Digest demo_first)"

definition demo_enc :: "mut_record \<Rightarrow> string" where "demo_enc r = itoa (unat (mr_Seq r))"
definition demo_dec :: "string \<Rightarrow> mut_record option" where
  "demo_dec s = (if s = itoa 1 then Some demo_first else if s = itoa 2 then Some demo_second else None)"

lemma demo_seq: "mr_Seq demo_first = 1" "mr_Seq demo_second = 2" "mr_Prev demo_second = mr_Digest demo_first" "mr_Prev demo_first = []"
  by (simp_all add: demo_first_def demo_second_def demo_record_def)

lemma demo_digest: "mr_Digest demo_first = digestOf (\<lambda>s. s) demo_first" "mr_Digest demo_second = digestOf (\<lambda>s. s) demo_second"
  by (simp_all add: demo_first_def demo_second_def demo_record_def digestOf_def digest_fields_def)

lemma demo_codec: "codec demo_enc demo_dec demo_first" "codec demo_enc demo_dec demo_second"
proof -
  have one: "itoa 1 = ''1''" and two: "itoa 2 = ''2''" by (code_simp, code_simp)
  hence e: "demo_enc demo_first = ''1''" "demo_enc demo_second = ''2''" by (simp_all add: demo_enc_def demo_seq)
  show "codec demo_enc demo_dec demo_first" "codec demo_enc demo_dec demo_second"
    unfolding codec_def demo_dec_def e one two by (simp_all add: trim_space_def is_space_def scanMax_def)
qed

lemma demo_chained: "chained (\<lambda>s. s) [demo_first, demo_second]"
  by (simp add: demo_seq demo_digest)

lemma demo_log:
  assumes "chained (\<lambda>s. s) rs" "set rs \<subseteq> {demo_first, demo_second}"
  shows "VerifyLog demo_dec (\<lambda>s. s) (Some (file_of demo_enc rs)) [] = None" "log_records demo_dec (Some (file_of demo_enc rs)) [] = rs" "no_wrap rs"
proof -
  have cods: "list_all (codec demo_enc demo_dec) rs" using assms(2) demo_codec by (auto simp: list_all_iff)
  show wrap: "no_wrap rs" using assms(2) demo_seq by (auto simp: no_wrap_def list_all_iff)
  show "VerifyLog demo_dec (\<lambda>s. s) (Some (file_of demo_enc rs)) [] = None"
    using verify_files_file [of demo_enc demo_dec "[rs]" "\<lambda>s. s" "[]" 0] cods assms(1) wrap by (simp add: VerifyLog_def by_stamp_def follows_def)
  show "log_records demo_dec (Some (file_of demo_enc rs)) [] = rs" using file_records_file [OF cods] by (simp add: log_records_def by_stamp_def)
qed

theorem chain_is_tamper_evident_witness:
  "\<exists>older. log_records demo_dec (Some (file_of demo_enc [demo_first, demo_second])) [] = older @ log_records demo_dec (Some (file_of demo_enc [demo_second])) []"
proof -
  have two: "chained (\<lambda>s. s) [demo_first, demo_second]" "set [demo_first, demo_second] \<subseteq> {demo_first, demo_second}" using demo_chained by simp_all
  have one: "chained (\<lambda>s. s) [demo_second]" "set [demo_second] \<subseteq> {demo_first, demo_second}" using demo_digest by simp_all
  show ?thesis
    by (rule chain_is_tamper_evident [OF demo_log(1) [OF two] demo_log(1) [OF one] refl refl]) (simp_all only: demo_log [OF two] demo_log [OF one], simp_all add: inj_on_def)
qed

definition demo_append :: append_env where
  "demo_append = \<lparr>ae_at = ''t'', ae_stamp = ''s'', ae_presync = True, ae_close = True, ae_rename = True, ae_reopen = True, ae_stat = True, ae_newfile = True,
     ae_removes = None, ae_write = None, ae_sync = True, ae_truncate = True\<rparr>"

definition demo_empty :: mutation_log where
  "demo_empty = \<lparr>ml_maxBytes = defaultLogMaxSize, ml_keep = defaultLogKeep, ml_open = True, ml_size = 0, ml_seq = 0, ml_head = [], ml_live = Some [], ml_rotated = []\<rparr>"

lemma demo_empty_opened: "OpenMutationLog demo_dec True 0 0 None [] = Inr demo_empty"
  by (simp add: OpenMutationLog_def recoverHead_def segmentsNewestFirst_def by_stamp_def lastRecordIn_def scan_def log_lines_def truncateTornTail_def demo_empty_def)

lemma demo_append_step:
  "\<exists>l. log_step demo_enc demo_dec (\<lambda>s. s) (demo_empty, []) (l, [demo_first]) \<and> ml_live l = Some (file_of demo_enc [demo_first]) \<and> log_Head l = (mr_Digest demo_first, 1)"
proof -
  have new: "new_record (\<lambda>s. s) demo_append ''apply'' ''u1'' ''op'' ''c'' ''succeeded'' demo_empty = demo_first"
    by (simp add: new_record_def demo_first_def demo_record_def demo_append_def demo_empty_def)
  have f: "ml_open demo_empty" "ml_live demo_empty = Some []" "ae_write demo_append = None" "ae_sync demo_append" by (simp_all add: demo_empty_def demo_append_def)
  have rot: "rotateIfNeededLocked demo_append demo_empty = (None, demo_empty)"
    by (simp add: rotateIfNeededLocked_def demo_empty_def defaultLogMaxSize_def)
  obtain res l where app: "log_Append demo_enc (\<lambda>s. s) demo_append ''apply'' ''u1'' ''op'' ''c'' ''succeeded'' demo_empty = (res, l)" by (rule prod.exhaust)
  have res: "res = Inr demo_first" "ml_live l = Some (file_of demo_enc [demo_first])" and head: "log_Head l = (mr_Digest demo_first, 1)"
    using app f demo_seq(1) unfolding log_Append_def rot by (auto simp: new Let_def log_written_def log_Head_def)
  have "log_step demo_enc demo_dec (\<lambda>s. s) (demo_empty, []) (l, [] @ [demo_first])"
    by (rule log_appends [OF app [unfolded res]]) (unfold new, simp_all add: append_usable_def demo_codec demo_empty_def demo_append_def)
  thus ?thesis using res(2) head by auto
qed

theorem mutation_log_intact_witness:
  "\<exists>l. ml_live l = Some (file_of demo_enc [demo_first]) \<and> (log_step demo_enc demo_dec (\<lambda>s. s))\<^sup>*\<^sup>* (demo_empty, []) (l, [demo_first]) \<and>
     VerifyLog demo_dec (\<lambda>s. s) (ml_live l) (ml_rotated l) = None"
proof -
  obtain l where live: "ml_live l = Some (file_of demo_enc [demo_first])" and "log_step demo_enc demo_dec (\<lambda>s. s) (demo_empty, []) (l, [demo_first])" using demo_append_step by blast
  from this(2) have run: "(log_step demo_enc demo_dec (\<lambda>s. s))\<^sup>*\<^sup>* (demo_empty, []) (l, [demo_first])" by (rule r_into_rtranclp)
  from mutation_log_intact [OF demo_empty_opened run, of 0 0] run live show ?thesis by blast
qed

text \<open>Why the numbers matter: after a record with the largest number any record is taken, whatever it says it follows.\<close>

lemma largest_number_resets:
  assumes "mr_Seq r + 1 = 0" "mr_Digest r = digestOf H r" "mr_Digest r' = digestOf H r'" "codec enc dec r" "codec enc dec r'"
  shows "snd (verify_lines dec H [enc r, enc r'] prev 0) = None"
proof -
  have "mr_Seq r \<noteq> 0" using assms(1) by auto
  thus ?thesis using assms by (simp add: codec_def Let_def)
qed

end
