(* ===== verification/Nas_Username.thy ===== *)
theory Nas_Username
  imports Go_Prelude
begin

text \<open>
  The name of a new account on the NAS, \<^verbatim>\<open>addons/truenas/username.go\<close>: from the
  localpart of an email, made to fit what TrueNAS takes, with a suffix from a digest of the
  subject where the name is taken.

  A localpart is walked by code points, as \<open>range\<close> over a string walks it: a byte that is
  no part of a code point is U+FFFD. Lower case is what \<open>unicode.ToLower\<close> makes of the
  code points whose lower case is ASCII (the Kelvin sign and the dotted capital I among
  them); every other one is left, since none of them becomes ASCII and all of them are
  replaced. The digest is a parameter, a function from bytes to bytes.
\<close>

section \<open>Code points\<close>

definition cont_byte :: "nat \<Rightarrow> bool" where
  "cont_byte b \<longleftrightarrow> 128 \<le> b \<and> b \<le> 191"

text \<open>\<open>utf8.DecodeRune\<close>: the code point and its width.\<close>

fun decode_rune :: "nat list \<Rightarrow> nat \<times> nat" where
  "decode_rune [] = (65533, 0)"
| "decode_rune (a # bs) =
     (if a < 128 then (a, 1)
      else case bs of
        b # c # d # _ \<Rightarrow>
          if 194 \<le> a \<and> a \<le> 223 \<and> cont_byte b then ((a - 192) * 64 + (b - 128), 2)
          else if 224 \<le> a \<and> a \<le> 239 \<and> cont_byte b \<and> (a = 224 \<longrightarrow> 160 \<le> b) \<and> (a = 237 \<longrightarrow> b \<le> 159) \<and> cont_byte c
            then ((a - 224) * 4096 + (b - 128) * 64 + (c - 128), 3)
          else if 240 \<le> a \<and> a \<le> 244 \<and> cont_byte b \<and> (a = 240 \<longrightarrow> 144 \<le> b) \<and> (a = 244 \<longrightarrow> b \<le> 143) \<and> cont_byte c \<and> cont_byte d
            then ((a - 240) * 262144 + (b - 128) * 4096 + (c - 128) * 64 + (d - 128), 4)
          else (65533, 1)
      | [b, c] \<Rightarrow>
          if 194 \<le> a \<and> a \<le> 223 \<and> cont_byte b then ((a - 192) * 64 + (b - 128), 2)
          else if 224 \<le> a \<and> a \<le> 239 \<and> cont_byte b \<and> (a = 224 \<longrightarrow> 160 \<le> b) \<and> (a = 237 \<longrightarrow> b \<le> 159) \<and> cont_byte c
            then ((a - 224) * 4096 + (b - 128) * 64 + (c - 128), 3)
          else (65533, 1)
      | [b] \<Rightarrow> if 194 \<le> a \<and> a \<le> 223 \<and> cont_byte b then ((a - 192) * 64 + (b - 128), 2) else (65533, 1)
      | [] \<Rightarrow> (65533, 1))"

fun runes_fuel :: "nat \<Rightarrow> nat list \<Rightarrow> nat list" where
  "runes_fuel 0 bs = []"
| "runes_fuel (Suc n) bs =
     (if bs = [] then [] else case decode_rune bs of (r, w) \<Rightarrow> r # runes_fuel n (drop w bs))"

definition runes :: "string \<Rightarrow> nat list" where
  "runes s = runes_fuel (length s) (map of_char s)"

definition rune_space :: "nat \<Rightarrow> bool" where
  "rune_space r \<longleftrightarrow> 9 \<le> r \<and> r \<le> 13 \<or> r = 32 \<or> r = 133 \<or> r = 160 \<or> r = 5760 \<or> 8192 \<le> r \<and> r \<le> 8202 \<or>
     r = 8232 \<or> r = 8233 \<or> r = 8239 \<or> r = 8287 \<or> r = 12288"

definition rune_trim :: "nat list \<Rightarrow> nat list" where
  "rune_trim s = rev (dropWhile rune_space (rev (dropWhile rune_space s)))"

definition rune_lower :: "nat \<Rightarrow> nat" where
  "rune_lower r = (if 65 \<le> r \<and> r \<le> 90 then r + 32 else if r = 8490 then 107 else if r = 304 then 105 else r)"

text \<open>Every code point has a width of one at least, so the walk ends with the string.\<close>

lemma decode_rune_width: "bs \<noteq> [] \<Longrightarrow> 1 \<le> snd (decode_rune bs)"
  by (cases bs) (auto split: list.splits)

lemma runes_fuel_enough: "length bs \<le> n \<Longrightarrow> length bs \<le> m \<Longrightarrow> runes_fuel n bs = runes_fuel m bs"
proof (induction n arbitrary: m bs)
  case 0
  thus ?case by (cases m) simp_all
next
  case (Suc n)
  show ?case
  proof (cases m)
    case 0
    thus ?thesis using Suc.prems by simp
  next
    case (Suc m')
    obtain r w where d: "decode_rune bs = (r, w)" by (rule prod.exhaust)
    have "runes_fuel n (drop w bs) = runes_fuel m' (drop w bs)" if "bs \<noteq> []"
      by (rule Suc.IH) (use Suc.prems \<open>m = Suc m'\<close> decode_rune_width [OF that] d in auto)
    thus ?thesis using \<open>m = Suc m'\<close> d by simp
  qed
qed

section \<open>The name\<close>

definition usernameMaxLen :: nat where "usernameMaxLen = 32"
definition suffixLen :: nat where "suffixLen = 5"

definition lower_or_digit :: "char \<Rightarrow> bool" where
  "lower_or_digit c \<longleftrightarrow> (let n = of_char c :: nat in 97 \<le> n \<and> n \<le> 122 \<or> 48 \<le> n \<and> n \<le> 57)"

definition name_rune :: "nat \<Rightarrow> char" where
  "name_rune r =
     (if 97 \<le> r \<and> r \<le> 122 \<or> 48 \<le> r \<and> r \<le> 57 \<or> r = 95 \<or> r = 46 \<or> r = 45 then char_of r else CHR ''_'')"

definition normalizeLocalpart :: "string \<Rightarrow> string" where
  "normalizeLocalpart email =
     (let localpart = takeWhile (\<lambda>r. r \<noteq> 43) (map rune_lower (rune_trim (runes (takeWhile (\<lambda>c. c \<noteq> CHR ''@'') email))));
          out = map name_rune localpart
      in if \<not> list_ex lower_or_digit out then []
         else if \<not> lower_or_digit (hd out) \<and> hd out \<noteq> CHR ''_'' then CHR ''u'' # out
         else out)"

definition trim_right :: "char list \<Rightarrow> string \<Rightarrow> string" where
  "trim_right cs s = rev (dropWhile (\<lambda>c. c \<in> set cs) (rev s))"

definition clampUsername :: "string \<Rightarrow> nat \<Rightarrow> string" where
  "clampUsername s n = trim_right ''.-'' (take (max n 1) s)"

text \<open>Base32 without padding: the bits, five at a time, the last group filled up with zeros.\<close>

definition byte_bits :: "char \<Rightarrow> bool list" where
  "byte_bits c = (let n = of_char c :: nat in map (\<lambda>i. odd (n div 2 ^ i)) [7, 6, 5, 4, 3, 2, 1, 0])"

definition base32_char :: "bool list \<Rightarrow> char" where
  "base32_char bs =
     (let n = foldl (\<lambda>a b. 2 * a + of_bool b) 0 (take 5 (bs @ replicate 5 False)) :: nat
      in if n < 26 then char_of (97 + n) else char_of (24 + n))"

fun base32_bits :: "nat \<Rightarrow> bool list \<Rightarrow> string" where
  "base32_bits 0 bs = []"
| "base32_bits (Suc n) bs = (if bs = [] then [] else base32_char bs # base32_bits n (drop 5 bs))"

definition base32_lower :: "string \<Rightarrow> string" where
  "base32_lower s = base32_bits (8 * length s) (concat (map byte_bits s))"

definition digestSuffix :: "(string \<Rightarrow> string) \<Rightarrow> string \<Rightarrow> nat \<Rightarrow> string" where
  "digestSuffix H subject n = take n (base32_lower (H subject))"

definition DeriveUsername :: "(string \<Rightarrow> string) \<Rightarrow> string \<Rightarrow> string \<Rightarrow> (string \<Rightarrow> bool) \<Rightarrow> string" where
  "DeriveUsername H email subject collides =
     (let normal = normalizeLocalpart email;
          base = (if normal = [] then CHR ''u'' # digestSuffix H subject 8 else normal);
          candidate = clampUsername base usernameMaxLen
      in if \<not> collides candidate then candidate
         else clampUsername base (usernameMaxLen - suffixLen) @ ''_'' @ digestSuffix H subject 4)"

definition name_first :: "char \<Rightarrow> bool" where
  "name_first c \<longleftrightarrow> (let n = of_char c :: nat in 97 \<le> n \<and> n \<le> 122 \<or> 65 \<le> n \<and> n \<le> 90 \<or> 48 \<le> n \<and> n \<le> 57 \<or> n = 95)"

definition name_later :: "char \<Rightarrow> bool" where
  "name_later c \<longleftrightarrow> name_first c \<or> c = CHR ''.'' \<or> c = CHR ''-''"

definition ValidUsername :: "string \<Rightarrow> bool" where
  "ValidUsername s \<longleftrightarrow>
     s \<noteq> [] \<and> length s \<le> usernameMaxLen \<and>
     (let body = (if last s = CHR ''$'' then butlast s else s)
      in body \<noteq> [] \<and> name_first (hd body) \<and> list_all name_later (tl body))"

section \<open>Every derived name is one TrueNAS takes\<close>

definition plain_name :: "string \<Rightarrow> bool" where
  "plain_name s \<longleftrightarrow> s \<noteq> [] \<and> name_first (hd s) \<and> list_all name_later s"

lemma plain_name_Cons [simp]: "plain_name (c # s) \<longleftrightarrow> name_first c \<and> list_all name_later s"
  by (auto simp: plain_name_def name_later_def)

lemma plain_name_valid:
  assumes "plain_name s" "length s \<le> usernameMaxLen"
  shows "ValidUsername s"
proof -
  obtain c t where s: "s = c # t" using assms(1) by (cases s) (simp_all add: plain_name_def)
  have "last s \<in> set s" using s by simp
  hence "name_later (last s)" using assms(1) by (simp add: plain_name_def list_all_iff)
  hence "last s \<noteq> CHR ''$''" by (auto simp: name_later_def name_first_def)
  thus ?thesis using assms s by (simp add: ValidUsername_def)
qed

lemma dot_and_dash: "char_of (46 :: nat) = CHR ''.''" "char_of (45 :: nat) = CHR ''-''"
  by (code_simp, code_simp)

lemma name_rune_later: "name_later (name_rune r)"
  by (auto simp: name_rune_def name_later_def name_first_def of_char_of dot_and_dash)

lemma normalizeLocalpart_plain: "normalizeLocalpart email = [] \<or> plain_name (normalizeLocalpart email)"
proof -
  define out where "out = map name_rune (takeWhile (\<lambda>r. r \<noteq> 43) (map rune_lower (rune_trim (runes (takeWhile (\<lambda>c. c \<noteq> CHR ''@'') email)))))"
  have later: "list_all name_later out" by (simp add: out_def list_all_iff name_rune_later)
  have norm: "normalizeLocalpart email =
      (if \<not> list_ex lower_or_digit out then [] else if \<not> lower_or_digit (hd out) \<and> hd out \<noteq> CHR ''_'' then CHR ''u'' # out else out)"
    unfolding normalizeLocalpart_def Let_def out_def ..
  show ?thesis
  proof (cases "list_ex lower_or_digit out \<and> (lower_or_digit (hd out) \<or> hd out = CHR ''_'')")
    case True
    hence "out \<noteq> []" "name_first (hd out)" by (auto simp: lower_or_digit_def name_first_def Let_def)
    thus ?thesis using True later norm by (auto simp: plain_name_def)
  next
    case False
    have "name_first (CHR ''u'')" by (simp add: name_first_def)
    thus ?thesis using False later norm by auto
  qed
qed

lemma base32_char_first: "name_first (base32_char bs)"
proof -
  let ?n = "foldl (\<lambda>a b. 2 * a + of_bool b) 0 (take 5 (bs @ replicate 5 False)) :: nat"
  have "foldl (\<lambda>a b. 2 * a + of_bool b) a xs < (a + 1) * 2 ^ length xs" for a :: nat and xs
  proof (induction xs arbitrary: a)
    case (Cons b xs)
    have "foldl (\<lambda>a b. 2 * a + of_bool b) (2 * a + of_bool b) xs < (2 * a + of_bool b + 1) * 2 ^ length xs" by (rule Cons.IH)
    also have "\<dots> \<le> (a + 1) * 2 ^ length (b # xs)" by (cases b) simp_all
    finally show ?case by simp
  qed simp
  from this [of 0 "take 5 (bs @ replicate 5 False)"] have "?n < 1 * 2 ^ length (take 5 (bs @ replicate 5 False))" by simp
  moreover have "length (take 5 (bs @ replicate 5 False)) = 5" by simp
  ultimately have "?n < 32" by (simp only: power_numeral_reduce) simp
  thus ?thesis unfolding base32_char_def Let_def name_first_def by (auto simp: of_char_of)
qed

lemma base32_bits_first: "list_all name_first (base32_bits n bs)"
  by (induction n arbitrary: bs) (simp_all add: base32_char_first)

lemma digestSuffix_later: "list_all name_later (digestSuffix H subject n)"
  using base32_bits_first [of "8 * length (H subject)" "concat (map byte_bits (H subject))"] set_take_subset
  by (fastforce simp: digestSuffix_def base32_lower_def list_all_iff name_later_def)

lemma digestSuffix_length: "length (digestSuffix H subject n) \<le> n"
  by (simp add: digestSuffix_def)

lemma trim_right_take: "\<exists>k. trim_right cs s = take k s"
proof -
  have "rev s = takeWhile (\<lambda>c. c \<in> set cs) (rev s) @ dropWhile (\<lambda>c. c \<in> set cs) (rev s)" by simp
  hence "s = trim_right cs s @ rev (takeWhile (\<lambda>c. c \<in> set cs) (rev s))" unfolding trim_right_def by (metis rev_append rev_rev_ident)
  thus ?thesis by (metis append_eq_conv_conj)
qed

lemma trim_right_nonempty: "s \<noteq> [] \<Longrightarrow> hd s \<notin> set cs \<Longrightarrow> trim_right cs s \<noteq> []"
  by (cases s) (auto simp: trim_right_def dropWhile_eq_Nil_conv)

lemma clampUsername_plain:
  assumes "plain_name s" "1 \<le> n"
  shows "plain_name (clampUsername s n)" and "length (clampUsername s n) \<le> n"
proof -
  obtain k where k: "trim_right ''.-'' (take n s) = take k (take n s)" using trim_right_take by blast
  have first: "hd (take n s) = hd s" "take n s \<noteq> []" using assms by (auto simp: plain_name_def hd_take)
  have "hd s \<notin> set ''.-''" using assms(1) by (auto simp: plain_name_def name_first_def)
  hence ne: "take k (take n s) \<noteq> []" using trim_right_nonempty [OF first(2), of "''.-''"] first(1) k by simp
  have "list_all name_later (take k (take n s))" using assms(1) by (auto simp: plain_name_def list_all_iff dest!: in_set_takeD)
  moreover have "hd (take k (take n s)) = hd s" using ne by (simp add: hd_take)
  ultimately show "plain_name (clampUsername s n)" using assms k ne by (simp add: clampUsername_def plain_name_def max_def)
  show "length (clampUsername s n) \<le> n" using assms(2) k by (simp add: clampUsername_def max_def)
qed

text \<open>The base a name is made of, and the two names that can come of it.\<close>

definition name_base :: "(string \<Rightarrow> string) \<Rightarrow> string \<Rightarrow> string \<Rightarrow> string" where
  "name_base H email subject = (if normalizeLocalpart email = [] then CHR ''u'' # digestSuffix H subject 8 else normalizeLocalpart email)"

lemma name_base_plain: "plain_name (name_base H email subject)"
proof -
  have "name_first (CHR ''u'')" by (simp add: name_first_def)
  thus ?thesis using normalizeLocalpart_plain [of email] digestSuffix_later [of H subject 8] by (auto simp: name_base_def)
qed

lemma DeriveUsername_base:
  "DeriveUsername H email subject collides =
     (if \<not> collides (clampUsername (name_base H email subject) 32) then clampUsername (name_base H email subject) 32
      else clampUsername (name_base H email subject) 27 @ ''_'' @ digestSuffix H subject 4)"
  by (simp add: DeriveUsername_def name_base_def usernameMaxLen_def suffixLen_def Let_def)

lemma suffixed_valid: "plain_name s \<Longrightarrow> ValidUsername (clampUsername s 27 @ ''_'' @ digestSuffix H subject 4)"
proof (rule plain_name_valid)
  assume s: "plain_name s"
  have "name_later (CHR ''_'')" by (simp add: name_later_def name_first_def)
  thus "plain_name (clampUsername s 27 @ ''_'' @ digestSuffix H subject 4)"
    using clampUsername_plain(1) [OF s, of 27] digestSuffix_later [of H subject 4] by (auto simp: plain_name_def)
  show "length (clampUsername s 27 @ ''_'' @ digestSuffix H subject 4) \<le> usernameMaxLen"
    using clampUsername_plain(2) [OF s, of 27] digestSuffix_length [of H subject 4] by (simp add: usernameMaxLen_def)
qed

lemma base32_bits_step: "base32_bits (numeral n) (b # bs) = base32_char (b # bs) # base32_bits (pred_numeral n) (drop 5 (b # bs))"
  by (simp add: numeral_eq_Suc)

lemma base32_bits_length: "20 \<le> length bs \<Longrightarrow> 4 \<le> n \<Longrightarrow> 4 \<le> length (base32_bits n bs)"
  by (cases n; cases "n - 1"; cases "n - 2"; cases "n - 3") auto

lemma digestSuffix_full: "3 \<le> length (H subject) \<Longrightarrow> length (digestSuffix H subject 4) = 4"
proof -
  assume h: "3 \<le> length (H subject)"
  have "length (concat (map byte_bits (H subject))) = 8 * length (H subject)"
    by (induction "H subject" rule: list.induct) (simp_all add: length_concat byte_bits_def Let_def comp_def sum_list_triv)
  thus ?thesis using base32_bits_length [of "concat (map byte_bits (H subject))" "8 * length (H subject)"] h
    by (simp add: digestSuffix_def base32_lower_def)
qed

text \<open>A localpart of ordinary characters, which a tag after it does not change.\<close>

definition plain_local :: "string \<Rightarrow> bool" where
  "plain_local l \<longleftrightarrow> list_all (\<lambda>c. of_char c < (128 :: nat) \<and> \<not> is_space c \<and> c \<noteq> CHR ''+'' \<and> c \<noteq> CHR ''@'') l"

lemma runes_ascii: "list_all (\<lambda>c. of_char c < (128 :: nat)) l \<Longrightarrow> runes (l @ s) = map of_char l @ runes s"
  by (induction l) (simp_all add: runes_def)

lemma rune_trim_keeps:
  assumes "list_all (\<lambda>r. \<not> rune_space r) xs"
  shows "rune_trim xs = xs" and "\<not> rune_space x \<Longrightarrow> \<exists>zs. rune_trim (xs @ x # ys) = xs @ x # zs"
proof -
  have free: "dropWhile rune_space (xs @ zs) = (if xs = [] then dropWhile rune_space zs else xs @ zs)" for zs
    using assms by (cases xs) auto
  have "dropWhile rune_space zs = zs" if "list_all (\<lambda>r. \<not> rune_space r) zs" for zs using that by (cases zs) auto
  from this [of xs] this [of "rev xs"] show "rune_trim xs = xs" using assms by (simp add: rune_trim_def list_all_iff)
  assume x: "\<not> rune_space x"
  have "dropWhile rune_space (xs @ x # ys) = xs @ x # ys" using free [of "x # ys"] x by (cases xs) auto
  moreover have "dropWhile rune_space (rev ys @ x # rev xs) = dropWhile rune_space (rev ys) @ x # rev xs"
    using x by (induction "rev ys") (auto simp: dropWhile_append)
  ultimately show "\<exists>zs. rune_trim (xs @ x # ys) = xs @ x # zs" by (auto simp: rune_trim_def)
qed

lemma plus_char: "char_of (43 :: nat) = CHR ''+''"
  by code_simp

lemma plain_local_runes:
  assumes "plain_local l"
  shows "list_all (\<lambda>r. \<not> rune_space r) (map of_char l)" "list_all (\<lambda>r. rune_lower r \<noteq> 43) (map of_char l)"
    "list_all (\<lambda>c. of_char c < (128 :: nat)) l" "CHR ''@'' \<notin> set l"
proof -
  have "\<not> rune_space (of_char c) \<and> rune_lower (of_char c) \<noteq> 43" if "c \<in> set l" for c
  proof -
    have c: "of_char c < (128 :: nat)" "\<not> is_space c" "c \<noteq> CHR ''+''" using assms that by (auto simp: plain_local_def list_all_iff)
    have "of_char c \<noteq> (43 :: nat)" using c(3) by (metis char_of_char plus_char)
    thus ?thesis using c(1,2) by (auto simp: rune_space_def rune_lower_def is_space_def Let_def)
  qed
  thus "list_all (\<lambda>r. \<not> rune_space r) (map of_char l)" "list_all (\<lambda>r. rune_lower r \<noteq> 43) (map of_char l)" by (auto simp: list_all_iff)
  show "list_all (\<lambda>c. of_char c < (128 :: nat)) l" "CHR ''@'' \<notin> set l" using assms by (auto simp: plain_local_def list_all_iff)
qed

lemma takeWhile_lower: "list_all (\<lambda>r. rune_lower r \<noteq> 43) xs \<Longrightarrow> takeWhile (\<lambda>r. r \<noteq> 43) (map rune_lower xs @ ys) = map rune_lower xs @ takeWhile (\<lambda>r. r \<noteq> 43) ys"
  by (induction xs) auto

lemma normalizeLocalpart_tag:
  assumes "plain_local l" "CHR ''@'' \<notin> set tag"
  shows "normalizeLocalpart (l @ ''+'' @ tag @ ''@'' @ d) = normalizeLocalpart (l @ ''@'' @ d')"
proof -
  note l = plain_local_runes [OF assms(1)]
  have cut: "takeWhile (\<lambda>c. c \<noteq> CHR ''@'') (l @ ''+'' @ tag @ ''@'' @ d) = l @ ''+'' @ tag" "takeWhile (\<lambda>c. c \<noteq> CHR ''@'') (l @ ''@'' @ d') = l"
    using l(4) assms(2) by (auto simp: takeWhile_append)
  have "runes (l @ ''+'' @ tag) = map of_char l @ 43 # runes tag"
    using runes_ascii [OF l(3), of "''+'' @ tag"] runes_ascii [of "''+''" tag] by simp
  moreover obtain zs where "rune_trim (map of_char l @ 43 # runes tag) = map of_char l @ 43 # zs"
    using rune_trim_keeps(2) [OF l(1), of 43 "runes tag"] by (auto simp: rune_space_def)
  ultimately have tagged: "takeWhile (\<lambda>r. r \<noteq> 43) (map rune_lower (rune_trim (runes (l @ ''+'' @ tag)))) = map rune_lower (map of_char l)"
    using takeWhile_lower [OF l(2), of "map rune_lower (43 # zs)"] by (simp add: rune_lower_def)
  have "runes l = map of_char l" using runes_ascii [OF l(3), of "[]"] by (simp add: runes_def)
  hence plain: "takeWhile (\<lambda>r. r \<noteq> 43) (map rune_lower (rune_trim (runes l))) = map rune_lower (map of_char l)"
    using rune_trim_keeps(1) [OF l(1)] takeWhile_lower [OF l(2), of "[]"] by simp
  show ?thesis unfolding normalizeLocalpart_def cut tagged plain ..
qed

text \<open>
  C3. Whatever the email and the subject, the derived name is one TrueNAS takes: its first
  character is a letter, a digit or an underscore, the others may be a dot or a dash too, and
  with the suffix it is still within 32. A tagged address gives the name of the plain one, so
  nobody gets a second account by it; and where the name is taken, two people get different
  names as long as the four characters of their digests differ.
\<close>

theorem DeriveUsername_valid:
  "ValidUsername (DeriveUsername H email subject collides) \<and>
   (plain_local l \<and> CHR ''@'' \<notin> set tag \<longrightarrow>
      DeriveUsername H (l @ ''+'' @ tag @ ''@'' @ d) subject collides = DeriveUsername H (l @ ''@'' @ d') subject collides) \<and>
   (3 \<le> length (H subject) \<and> 3 \<le> length (H other) \<and> digestSuffix H subject 4 \<noteq> digestSuffix H other 4 \<longrightarrow>
      DeriveUsername H email subject (\<lambda>_. True) \<noteq> DeriveUsername H email' other (\<lambda>_. True))"
proof (intro conjI impI)
  have base: "plain_name (name_base H email subject)" by (rule name_base_plain)
  have "ValidUsername (clampUsername (name_base H email subject) 32)"
    using plain_name_valid clampUsername_plain [OF base, of 32] by (simp add: usernameMaxLen_def)
  thus "ValidUsername (DeriveUsername H email subject collides)" using suffixed_valid [OF base] by (simp add: DeriveUsername_base)
next
  assume "plain_local l \<and> CHR ''@'' \<notin> set tag"
  hence "name_base H (l @ ''+'' @ tag @ ''@'' @ d) subject = name_base H (l @ ''@'' @ d') subject"
    using normalizeLocalpart_tag [of l tag d d'] unfolding name_base_def by auto
  thus "DeriveUsername H (l @ ''+'' @ tag @ ''@'' @ d) subject collides = DeriveUsername H (l @ ''@'' @ d') subject collides"
    unfolding DeriveUsername_base by (simp only:)
next
  assume h: "3 \<le> length (H subject) \<and> 3 \<le> length (H other) \<and> digestSuffix H subject 4 \<noteq> digestSuffix H other 4"
  hence "length (digestSuffix H subject 4) = length (digestSuffix H other 4)" using digestSuffix_full by metis
  thus "DeriveUsername H email subject (\<lambda>_. True) \<noteq> DeriveUsername H email' other (\<lambda>_. True)" using h by (simp add: DeriveUsername_base)
qed

theorem DeriveUsername_valid_witness:
  "DeriveUsername (\<lambda>s. s) ''ada+lab@x'' ''a00'' (\<lambda>_. True) = DeriveUsername (\<lambda>s. s) ''ada@x'' ''a00'' (\<lambda>_. True) \<and>
   DeriveUsername (\<lambda>s. s) ''ada@x'' ''a00'' (\<lambda>_. True) \<noteq> DeriveUsername (\<lambda>s. s) ''ada@x'' ''z00'' (\<lambda>_. True)"
proof -
  have l: "plain_local ''ada''" "CHR ''@'' \<notin> set ''lab''" by (simp_all add: plain_local_def is_space_def)
  have "hd (digestSuffix (\<lambda>s. s) ''a00'' 4) \<noteq> hd (digestSuffix (\<lambda>s. s) ''z00'' 4)"
    by (simp add: digestSuffix_def base32_lower_def byte_bits_def base32_char_def base32_bits_step)
  hence d: "digestSuffix (\<lambda>s. s) ''a00'' 4 \<noteq> digestSuffix (\<lambda>s. s) ''z00'' 4" by metis
  show ?thesis
    using l d DeriveUsername_valid [of "\<lambda>s. s" "''ada@x''" "''a00''" "\<lambda>_. True" "''ada''" "''lab''" "''x''" "''x''" "''z00''" "''ada@x''"] by simp
qed

text \<open>Replacing a character does not keep two localparts apart, whatever it replaces.\<close>

lemma normalizeLocalpart_merges: "normalizeLocalpart ''a#b@x'' = normalizeLocalpart ''a?b@x''"
proof -
  have "runes ''a#b'' = [97, 35, 98]" "runes ''a?b'' = [97, 63, 98]" using runes_ascii [of "''a#b''" "[]"] runes_ascii [of "''a?b''" "[]"] by (simp_all add: runes_def)
  thus ?thesis by (simp add: normalizeLocalpart_def rune_trim_def rune_space_def rune_lower_def name_rune_def)
qed

end
