(* ===== verification/Nas_Store.thy ===== *)
theory Nas_Store
  imports Nas_Username
begin

text \<open>
  What the NAS add-on keeps and what it reads: the bindings of subjects to accounts, the
  numbers it hands out and the results it remembers (\<^verbatim>\<open>addons/truenas/store.go\<close>,
  \<^verbatim>\<open>identity.go\<close>), and the read of the target's accounts with its groups
  (\<^verbatim>\<open>subjects.go\<close>).

  The NAS is not part of the repository: what its calls answer and do is the parameter
  \<open>nas_env\<close>, on a state \<open>'z\<close> of its own that every call threads through. The mutating calls
  handed to it are kept in a list, so that it can be said which calls were made. Whether
  the local store takes a transaction is a field of the same record. A record key is the text
  that the middleware and the add-on exchange.
\<close>

section \<open>The local store\<close>

record binding =
  b_SubjectID :: string
  b_Username :: string
  b_UID :: int
  b_BoundBy :: string
  b_WantsSMB :: "bool option"

type_synonym bindings = "(string, binding) gomap"

datatype bind_error = ErrUsernameBound string string | StoreFailed

definition PutBinding :: "binding \<Rightarrow> bindings \<Rightarrow> bindings" where
  "PutBinding b bs = AList.update (b_SubjectID b) b bs"

definition BindIfFree :: "binding \<Rightarrow> bindings \<Rightarrow> bind_error + bindings" where
  "BindIfFree b bs =
     (case find (\<lambda>(k, other). b_Username other = b_Username b \<and> k \<noteq> b_SubjectID b) (sort_key fst bs) of
        Some (k, _) \<Rightarrow> Inl (ErrUsernameBound (b_Username b) k)
      | None \<Rightarrow> Inr (PutBinding b bs))"

definition DeleteBinding :: "string \<Rightarrow> bindings \<Rightarrow> bindings" where
  "DeleteBinding subject bs = AList.delete subject bs"

definition BoundUsernames :: "bindings \<Rightarrow> (string, string) gomap" where
  "BoundUsernames bs = fold (\<lambda>(k, b) out. AList.update (b_Username b) (b_SubjectID b) out) (sort_key fst bs) []"

definition defaultIDFloor :: int where "defaultIDFloor = 200000"
definition defaultIDCeiling :: int where "defaultIDCeiling = 999999"

definition idRange :: "int \<Rightarrow> int \<Rightarrow> int \<times> int" where
  "idRange floor ceiling = (if floor \<le> 0 then defaultIDFloor else floor, if ceiling \<le> 0 then defaultIDCeiling else ceiling)"

text \<open>The number, and the high-water mark it leaves; none when the range is used up.\<close>

definition ClaimID :: "int \<Rightarrow> int \<Rightarrow> int \<Rightarrow> int option \<Rightarrow> int option \<times> int option" where
  "ClaimID floor ceiling observedMax high =
     (let last = floor - 1;
          last = (case high of Some n \<Rightarrow> max last n | None \<Rightarrow> last);
          claimed = max last observedMax + 1
      in if claimed > ceiling then (None, high) else (Some claimed, Some claimed))"

section \<open>The target\<close>

datatype nas_error = TargetUnreachable | TargetRateLimited | NoSuchPath | TargetRefused | GroupsTruncated

definition nas_status :: "nas_error \<Rightarrow> int" where
  "nas_status e = (case e of TargetUnreachable \<Rightarrow> 503 | TargetRateLimited \<Rightarrow> 429 | _ \<Rightarrow> 502)"

record nas_user =
  nu_ID :: string
  nu_Username :: string
  nu_UID :: int
  nu_Locked :: bool
  nu_SMB :: bool
  nu_PasswordDisabled :: bool
  nu_Builtin :: bool
  nu_Groups :: "string list"
  nu_Home :: string

record nas_group =
  ng_ID :: string
  ng_GID :: int
  ng_Name :: string
  ng_Builtin :: bool

datatype user_filter = AllUsers | ByName string | ByUID int

record user_update =
  uu_Groups :: "string list option"
  uu_Locked :: "bool option"
  uu_SMB :: "bool option"
  uu_Home :: "string option"
  uu_Password :: bool

record user_create =
  uc_Username :: string
  uc_UID :: int
  uc_Group :: string
  uc_Groups :: "string list option"
  uc_Locked :: bool
  uc_Home :: "string option"

text \<open>The calls that change the target.\<close>

datatype nas_write = WUpdate string user_update | WCreate user_create | WGroup string int | WUngroup string
  | WQuota string int int | WDelete string

datatype store_call = CGetBinding | CPutBinding | CBind | CBoundNames | CClaim | CDeleteBinding | CSetting | CRemember | CRecall | CSnapshot

record 'z nas_env =
  ne_floor :: int
  ne_ceiling :: int
  ne_store :: "store_call \<Rightarrow> bool"
  ne_self :: "string option"
  user_query :: "user_filter \<Rightarrow> nat \<Rightarrow> 'z \<Rightarrow> (nas_error + nas_user list) \<times> 'z"
  group_query :: "nat \<Rightarrow> 'z \<Rightarrow> (nas_error + nas_group list) \<times> 'z"
  empty_groups :: "string \<Rightarrow> 'z \<Rightarrow> (nas_error + (nas_group \<times> nat) list) \<times> 'z"
  highest_uid :: "int \<Rightarrow> int \<Rightarrow> 'z \<Rightarrow> (nas_error + int list) \<times> 'z"
  highest_gid :: "int \<Rightarrow> int \<Rightarrow> 'z \<Rightarrow> (nas_error + int list) \<times> 'z"
  stat_owner :: "string \<Rightarrow> 'z \<Rightarrow> (nas_error + int) \<times> 'z"
  acl_places :: "'z \<Rightarrow> (nas_error + (string \<times> string \<times> bool) list) \<times> 'z"
  get_quota :: "string \<Rightarrow> int \<Rightarrow> 'z \<Rightarrow> (nas_error + (int \<times> int) list) \<times> 'z"
  nas_write :: "nas_write \<Rightarrow> 'z \<Rightarrow> (nas_error + string) \<times> 'z"

record 'z nas_server =
  ns_bindings :: bindings
  ns_high :: "int option"
  ns_homeRoot :: string
  ns_writes :: "nas_write list"
  ns_log :: "(string \<times> string \<times> string \<times> string) list"
  ns_z :: 'z

definition ask :: "('z \<Rightarrow> 'a \<times> 'z) \<Rightarrow> 'z nas_server \<Rightarrow> 'a \<times> 'z nas_server" where
  "ask f s = (case f (ns_z s) of (r, z) \<Rightarrow> (r, s\<lparr>ns_z := z\<rparr>))"

definition do_write :: "'z nas_env \<Rightarrow> nas_write \<Rightarrow> 'z nas_server \<Rightarrow> (nas_error + string) \<times> 'z nas_server" where
  "do_write env w s = ask (nas_write env w) (s\<lparr>ns_writes := ns_writes s @ [w]\<rparr>)"

section \<open>Accounts\<close>

record subject =
  su_ID :: string
  su_Username :: string
  su_UID :: int
  su_Groups :: "string list"
  su_Home :: string
  su_Enabled :: bool
  su_SMBEnabled :: bool
  su_PasswordSet :: bool
  su_Self :: bool
  su_Builtin :: "string list"

record snapshot =
  sn_Subjects :: "subject list"
  sn_Truncated :: bool

definition subjectReadCap :: nat where "subjectReadCap = 5000"
definition systemUIDCeiling :: int where "systemUIDCeiling = 1000"

definition homeOf :: "string \<Rightarrow> string" where
  "homeOf raw = (if raw = [] \<or> raw = ''/var/empty'' \<or> raw = ''/nonexistent'' then [] else raw)"

definition withoutSystemAccounts :: "nas_user list \<Rightarrow> nas_user list" where
  "withoutSystemAccounts users = filter (\<lambda>u. \<not> (nu_Builtin u \<or> nu_UID u < systemUIDCeiling)) users"

text \<open>Both directions of the group table, and the machine's own groups.\<close>

record group_index =
  gi_byID :: "(string, string) gomap"
  gi_byName :: "(string, string) gomap"
  gi_builtin :: "string list"

definition index_groups :: "nas_group list \<Rightarrow> group_index" where
  "index_groups gs =
     \<lparr>gi_byID = fold (\<lambda>g m. AList.update (ng_ID g) (ng_Name g) m) gs [],
      gi_byName = fold (\<lambda>g m. AList.update (ng_Name g) (ng_ID g) m) gs [],
      gi_builtin = map ng_Name (filter ng_Builtin gs)\<rparr>"

definition readGroups :: "'z nas_env \<Rightarrow> 'z nas_server \<Rightarrow> (nas_error + nas_group list) \<times> 'z nas_server" where
  "readGroups env s =
     (case ask (group_query env (subjectReadCap + 1)) s of
        (Inl e, s1) \<Rightarrow> (Inl e, s1)
      | (Inr gs, s1) \<Rightarrow> (if length gs > subjectReadCap then Inl GroupsTruncated else Inr gs, s1))"

definition groupIndex :: "'z nas_env \<Rightarrow> 'z nas_server \<Rightarrow> (nas_error + group_index) \<times> 'z nas_server" where
  "groupIndex env s =
     (case readGroups env s of (Inl e, s1) \<Rightarrow> (Inl e, s1) | (Inr gs, s1) \<Rightarrow> (Inr (index_groups gs), s1))"

definition subject_of :: "string option \<Rightarrow> group_index \<Rightarrow> nas_user \<Rightarrow> subject" where
  "subject_of self gi u =
     \<lparr>su_ID = nu_ID u, su_Username = nu_Username u, su_UID = nu_UID u,
      su_Groups = filter (\<lambda>n. n \<notin> set (gi_builtin gi)) (List.map_filter (map_of (gi_byID gi)) (nu_Groups u)),
      su_Home = homeOf (nu_Home u), su_Enabled = (\<not> nu_Locked u), su_SMBEnabled = nu_SMB u, su_PasswordSet = (\<not> nu_PasswordDisabled u),
      su_Self = (case self of None \<Rightarrow> False | Some n \<Rightarrow> n \<noteq> [] \<and> to_lower (nu_Username u) = to_lower n),
      su_Builtin = filter (\<lambda>i. case map_of (gi_byID gi) i of None \<Rightarrow> False | Some n \<Rightarrow> n \<in> set (gi_builtin gi)) (nu_Groups u)\<rparr>"

definition readSubjectsWhere :: "'z nas_env \<Rightarrow> user_filter \<Rightarrow> 'z nas_server \<Rightarrow> (nas_error + snapshot) \<times> 'z nas_server" where
  "readSubjectsWhere env f s =
     (case ask (user_query env f (subjectReadCap + 1)) s of
        (Inl e, s1) \<Rightarrow> (Inl e, s1)
      | (Inr users, s1) \<Rightarrow>
          (case groupIndex env s1 of
             (Inl e, s2) \<Rightarrow> (Inl e, s2)
           | (Inr gi, s2) \<Rightarrow>
               (Inr \<lparr>sn_Subjects = map (subject_of (ne_self env) gi) (withoutSystemAccounts (take subjectReadCap users)),
                     sn_Truncated = length users > subjectReadCap\<rparr>, s2)))"

definition readSubjects :: "'z nas_env \<Rightarrow> 'z nas_server \<Rightarrow> (nas_error + snapshot) \<times> 'z nas_server" where
  "readSubjects env s = readSubjectsWhere env AllUsers s"

definition subject_matches :: "user_filter \<Rightarrow> subject \<Rightarrow> bool" where
  "subject_matches f x = (case f of AllUsers \<Rightarrow> False | ByName n \<Rightarrow> su_Username x = n | ByUID n \<Rightarrow> su_UID x = n)"

definition subjectWhere :: "'z nas_env \<Rightarrow> user_filter \<Rightarrow> 'z nas_server \<Rightarrow> (nas_error + subject option \<times> bool) \<times> 'z nas_server" where
  "subjectWhere env f s =
     (case readSubjectsWhere env f s of
        (Inl e, s1) \<Rightarrow> (Inl e, s1)
      | (Inr snap, s1) \<Rightarrow> (Inr (find (subject_matches f) (sn_Subjects snap), sn_Truncated snap), s1))"

definition readBack :: "'z nas_env \<Rightarrow> string \<Rightarrow> 'z nas_server \<Rightarrow> (nas_error + subject) \<times> 'z nas_server" where
  "readBack env username s =
     (case subjectWhere env (ByName username) s of
        (Inl e, s1) \<Rightarrow> (Inl e, s1)
      | (Inr (None, _), s1) \<Rightarrow> (Inl TargetRefused, s1)
      | (Inr (Some x, _), s1) \<Rightarrow> (Inr x, s1))"

text \<open>The ids of some groups, refusing a built-in one and one that is not there.\<close>

datatype group_refusal = BuiltinGroup string | NoSuchGroup string | GroupsUnreadable nas_error

fun ids_for :: "group_index \<Rightarrow> string list \<Rightarrow> group_refusal + string list" where
  "ids_for gi [] = Inr []"
| "ids_for gi (n # ns) =
     (if n \<in> set (gi_builtin gi) then Inl (BuiltinGroup n)
      else case map_of (gi_byName gi) n of
        None \<Rightarrow> Inl (NoSuchGroup n)
      | Some i \<Rightarrow> (case ids_for gi ns of Inl e \<Rightarrow> Inl e | Inr is \<Rightarrow> Inr (i # is)))"

definition groupIDsFor :: "'z nas_env \<Rightarrow> string list \<Rightarrow> 'z nas_server \<Rightarrow> (group_refusal + string list) \<times> 'z nas_server" where
  "groupIDsFor env names s =
     (if names = [] then (Inr [], s)
      else case groupIndex env s of (Inl e, s1) \<Rightarrow> (Inl (GroupsUnreadable e), s1) | (Inr gi, s1) \<Rightarrow> (ids_for gi names, s1))"

definition nextIdentity :: "'z nas_env \<Rightarrow> 'z nas_server \<Rightarrow> (nas_error option + int) \<times> 'z nas_server" where
  "nextIdentity env s =
     (case idRange (ne_floor env) (ne_ceiling env) of (floor, ceiling) \<Rightarrow>
        case ask (highest_uid env floor ceiling) s of
          (Inl e, s1) \<Rightarrow> (Inl (Some e), s1)
        | (Inr users, s1) \<Rightarrow>
            (case ask (highest_gid env floor ceiling) s1 of
               (Inl e, s2) \<Rightarrow> (Inl (Some e), s2)
             | (Inr groups, s2) \<Rightarrow>
                 let observed = (case users of [] \<Rightarrow> 0 | u # _ \<Rightarrow> u);
                     observed = (case groups of [] \<Rightarrow> observed | g # _ \<Rightarrow> max observed g)
                 in if \<not> ne_store env CClaim then (Inl None, s2)
                    else case ClaimID floor ceiling observed (ns_high s2) of
                      (None, _) \<Rightarrow> (Inl None, s2)
                    | (Some n, high) \<Rightarrow> (Inr n, s2\<lparr>ns_high := high\<rparr>)))"

end
