(* ===== verification/Nas_Apply.thy ===== *)
theory Nas_Apply
  imports Nas_Store Fingerprint
begin

text \<open>
  The entitlement plane of the NAS add-on: the desired state, the one decision that plan and
  apply share, the home folder and its limit (\<^verbatim>\<open>addons/truenas/apply.go\<close>,
  \<^verbatim>\<open>home.go\<close>), the apply of one subject and the plan of one
  (\<^verbatim>\<open>plan.go\<close>).

  A field's value is what its JSON decodes to. The fields of a request are walked in the
  order of the list; Go leaves it open, and it decides only which of several errors is
  reported. The decimal of a limit that is no whole number of GiB is rounded as the code prints
  it for limits below \<open>2 ^ 53\<close> bytes.
\<close>

section \<open>Paths\<close>

fun clean_parts :: "bool \<Rightarrow> string list \<Rightarrow> string list \<Rightarrow> string list" where
  "clean_parts rooted [] out = rev out"
| "clean_parts rooted (p # ps) out =
     (if p = [] \<or> p = ''.'' then clean_parts rooted ps out
      else if p = ''..'' then
        (case out of
           [] \<Rightarrow> clean_parts rooted ps (if rooted then [] else [''..''])
         | q # qs \<Rightarrow> clean_parts rooted ps (if q = ''..'' then ''..'' # out else qs))
      else clean_parts rooted ps (p # out))"

definition path_clean :: "string \<Rightarrow> string" where
  "path_clean p =
     (let rooted = has_prefix p ''/'';
          s = (if rooted then ''/'' else []) @ join_with ''/'' (clean_parts rooted (split_on CHR ''/'' p) [])
      in if s = [] then ''.'' else s)"

definition path_join :: "string \<Rightarrow> string \<Rightarrow> string" where
  "path_join a b = (let elems = filter (\<lambda>e. e \<noteq> []) [a, b] in if elems = [] then [] else path_clean (join_with ''/'' elems))"

definition path_dir :: "string \<Rightarrow> string" where
  "path_dir p = path_clean (join_with ''/'' (butlast (split_on CHR ''/'' p)) @ (if CHR ''/'' \<in> set p then ''/'' else []))"

section \<open>The desired state\<close>

datatype fval = FNull | FBool bool | FStrings "string list" | FOther

definition FieldGroup :: string where "FieldGroup = ''group''"
definition FieldEnabled :: string where "FieldEnabled = ''enabled''"
definition FieldSMBEnabled :: string where "FieldSMBEnabled = ''smb_enabled''"
definition FieldHome :: string where "FieldHome = ''home''"
definition FieldHomeQuota :: string where "FieldHomeQuota = ''home_quota''"

record desired_state =
  dd_groups :: "string list"
  dd_enabled :: bool
  dd_smbEnabled :: bool
  dd_wantsHome :: bool
  dd_homeRoot :: string
  dd_homeQuota :: int
  dd_homeUnlimited :: bool
  dd_managed :: "string list"

definition no_desired :: desired_state where
  "no_desired = \<lparr>dd_groups = [], dd_enabled = False, dd_smbEnabled = False, dd_wantsHome = False, dd_homeRoot = [],
     dd_homeQuota = 0, dd_homeUnlimited = False, dd_managed = []\<rparr>"

definition managed :: "desired_state \<Rightarrow> string \<Rightarrow> bool" where
  "managed d f \<longleftrightarrow> f \<in> set (dd_managed d)"

definition field_strings :: "fval \<Rightarrow> string list option" where
  "field_strings v = (case v of FNull \<Rightarrow> Some [] | FStrings xs \<Rightarrow> Some xs | _ \<Rightarrow> None)"

definition field_bool :: "fval \<Rightarrow> bool option" where
  "field_bool v = (case v of FNull \<Rightarrow> Some False | FBool b \<Rightarrow> Some b | _ \<Rightarrow> None)"

fun quota_limits :: "string list \<Rightarrow> desired_state \<Rightarrow> string + desired_state" where
  "quota_limits [] d = Inr d"
| "quota_limits (l # ls) d =
     (case ParseInt (trim_space l) of
        None \<Rightarrow> Inl l
      | Some n \<Rightarrow>
          if n < 0 then Inl l
          else quota_limits ls (d\<lparr>dd_homeUnlimited := (n = 0 \<or> dd_homeUnlimited d), dd_homeQuota := max n (dd_homeQuota d)\<rparr>))"

definition decode_field :: "string \<Rightarrow> fval \<Rightarrow> desired_state \<Rightarrow> string + desired_state" where
  "decode_field field v d0 =
     (let d = d0\<lparr>dd_managed := field # dd_managed d0\<rparr>
      in if field = FieldGroup then
           (case field_strings v of None \<Rightarrow> Inl (''field '' @ quoted field @ '' must be a list of group names'') | Some gs \<Rightarrow> Inr (d\<lparr>dd_groups := sort gs\<rparr>))
         else if field = FieldEnabled then
           (case field_bool v of None \<Rightarrow> Inl (''field '' @ quoted field @ '' must be a boolean'') | Some b \<Rightarrow> Inr (d\<lparr>dd_enabled := b\<rparr>))
         else if field = FieldSMBEnabled then
           (case field_bool v of None \<Rightarrow> Inl (''field '' @ quoted field @ '' must be a boolean'') | Some b \<Rightarrow> Inr (d\<lparr>dd_smbEnabled := b\<rparr>))
         else if field = FieldHome then
           (case field_strings v of
              None \<Rightarrow> Inl (''field '' @ quoted field @ '' must be a list of '' @ quoted ''true'')
            | Some gives \<Rightarrow>
                (case find (\<lambda>g. g \<noteq> ''true'') gives of
                   Some g \<Rightarrow> Inl (''field '' @ quoted field @ '': a role either gives a home folder ('' @ quoted ''true'' @ '') or names nothing, not '' @ quoted g)
                 | None \<Rightarrow> Inr (d\<lparr>dd_wantsHome := (gives \<noteq> [])\<rparr>)))
         else if field = FieldHomeQuota then
           (case field_strings v of
              None \<Rightarrow> Inl (''field '' @ quoted field @ '' must be a list of byte counts'')
            | Some limits \<Rightarrow>
                (case quota_limits limits d of
                   Inl l \<Rightarrow> Inl (''field '' @ quoted field @ '': '' @ quoted l @ '' is not a byte count'')
                 | Inr d' \<Rightarrow> Inr d'))
         else Inl (''field '' @ quoted field @ '' is not in this add-on's entitlement schema''))"

fun decodeDesiredFields :: "(string \<times> fval) list \<Rightarrow> desired_state \<Rightarrow> string + desired_state" where
  "decodeDesiredFields [] d = Inr d"
| "decodeDesiredFields ((f, v) # rest) d = (case decode_field f v d of Inl e \<Rightarrow> Inl e | Inr d' \<Rightarrow> decodeDesiredFields rest d')"

definition decodeDesired :: "'z nas_env \<Rightarrow> (string \<times> fval) list \<Rightarrow> 'z nas_server \<Rightarrow> string + desired_state" where
  "decodeDesired env raw s =
     (case decodeDesiredFields raw no_desired of
        Inl e \<Rightarrow> Inl e
      | Inr d \<Rightarrow>
          if \<not> dd_wantsHome d then Inr d
          else if ne_store env CSetting then Inr (d\<lparr>dd_homeRoot := ns_homeRoot s\<rparr>)
          else Inl ''read where home folders go'')"

section \<open>The fingerprint\<close>

definition bool_text :: "bool \<Rightarrow> string" where
  "bool_text b = (if b then ''true'' else ''false'')"

definition subject_fields :: "subject option \<Rightarrow> string list" where
  "subject_fields x =
     (case x of
        None \<Rightarrow> [''absent'']
      | Some u \<Rightarrow> [''present'', su_Username u, itoa_int (su_UID u), bool_text (su_Enabled u), bool_text (su_SMBEnabled u)] @ sort (su_Groups u))"

definition fingerprintSubject :: "(string \<Rightarrow> string) \<Rightarrow> subject option \<Rightarrow> string" where
  "fingerprintSubject H x = Fingerprint H (subject_fields x)"

section \<open>The decision\<close>

record home_decision =
  hd_path :: string
  hd_note :: string

definition no_home :: home_decision where "no_home = \<lparr>hd_path = [], hd_note = []\<rparr>"

record nas_change =
  ch_groups :: "string list option"
  ch_locked :: "bool option"
  ch_smbOff :: bool
  ch_smbPending :: bool
  ch_home :: home_decision

definition sameSet :: "string list \<Rightarrow> string list \<Rightarrow> bool" where
  "sameSet a b \<longleftrightarrow> length a = length b \<and> sort a = sort b"

definition decide :: "subject option \<Rightarrow> desired_state \<Rightarrow> home_decision \<Rightarrow> nas_change" where
  "decide current d home =
     \<lparr>ch_groups = (if managed d FieldGroup \<and> (case current of None \<Rightarrow> True | Some u \<Rightarrow> \<not> sameSet (su_Groups u) (dd_groups d)) then Some (dd_groups d) else None),
      ch_locked = (if managed d FieldEnabled \<and> (case current of None \<Rightarrow> True | Some u \<Rightarrow> su_Enabled u \<noteq> dd_enabled d) then Some (\<not> dd_enabled d) else None),
      ch_smbOff = (case current of None \<Rightarrow> False | Some u \<Rightarrow> managed d FieldSMBEnabled \<and> su_SMBEnabled u \<noteq> dd_smbEnabled d \<and> \<not> dd_smbEnabled d),
      ch_smbPending = (case current of None \<Rightarrow> False | Some u \<Rightarrow> managed d FieldSMBEnabled \<and> su_SMBEnabled u \<noteq> dd_smbEnabled d \<and> dd_smbEnabled d),
      ch_home = home\<rparr>"

definition change_writes :: "nas_change \<Rightarrow> bool" where
  "change_writes c \<longleftrightarrow> ch_groups c \<noteq> None \<or> ch_locked c \<noteq> None \<or> ch_smbOff c \<or> hd_path (ch_home c) \<noteq> []"

definition applyTo :: "nas_change \<Rightarrow> subject \<Rightarrow> subject" where
  "applyTo c u =
     u\<lparr>su_Groups := (case ch_groups c of None \<Rightarrow> su_Groups u | Some gs \<Rightarrow> gs),
       su_Enabled := (case ch_locked c of None \<Rightarrow> su_Enabled u | Some l \<Rightarrow> \<not> l),
       su_SMBEnabled := (su_SMBEnabled u \<and> \<not> ch_smbOff c),
       su_Home := (if hd_path (ch_home c) \<noteq> [] then hd_path (ch_home c) else su_Home u)\<rparr>"

section \<open>Home folders\<close>

definition home_taken_note :: "string \<Rightarrow> int \<Rightarrow> string \<Rightarrow> string" where
  "home_taken_note want owner username =
     ''A folder already exists at '' @ want @ '' and belongs to someone else (uid '' @ itoa_int owner @ ''), so it was not made '' @ username @ CHR 39 # ''s home.''"

definition decideHome :: "'z nas_env \<Rightarrow> desired_state \<Rightarrow> string \<Rightarrow> string \<Rightarrow> int \<Rightarrow> 'z nas_server \<Rightarrow> (nas_error + home_decision) \<times> 'z nas_server" where
  "decideHome env d username current uid s =
     (if \<not> managed d FieldHome \<or> \<not> dd_wantsHome d then (Inr no_home, s)
      else if managed d FieldEnabled \<and> \<not> dd_enabled d then (Inr no_home, s)
      else if dd_homeRoot d = [] then
        (Inr (no_home\<lparr>hd_note := username @ CHR 39 # ''s role gives a home folder, and this system has no place for home folders chosen yet, so none was made.''\<rparr>), s)
      else let want = path_join (dd_homeRoot d) username
           in if current \<noteq> [] then (Inr no_home, s)
              else case ask (stat_owner env want) s of
                     (Inl NoSuchPath, s1) \<Rightarrow> (Inr (no_home\<lparr>hd_path := want\<rparr>), s1)
                   | (Inl e, s1) \<Rightarrow> (Inl e, s1)
                   | (Inr owner, s1) \<Rightarrow>
                       (Inr (if uid \<ge> 0 \<and> owner = uid then no_home\<lparr>hd_path := want\<rparr> else no_home\<lparr>hd_note := home_taken_note want owner username\<rparr>), s1))"

definition uniqueSorted :: "string list \<Rightarrow> string list" where
  "uniqueSorted xs = sort (remdups (filter (\<lambda>v. v \<noteq> []) (map (\<lambda>v. trim_right ''/'' (trim_space v)) xs)))"

definition homePlaces :: "'z nas_env \<Rightarrow> 'z nas_server \<Rightarrow> (nas_error + string list) \<times> 'z nas_server" where
  "homePlaces env s =
     (case ask (acl_places env) s of
        (Inl e, s1) \<Rightarrow> (Inl e, s1)
      | (Inr places, s1) \<Rightarrow>
          (Inr (uniqueSorted (map fst (filter (\<lambda>(_, folder, mounted). folder \<noteq> [] \<and> \<not> has_prefix folder ''.'' \<and> mounted) places))), s1))"

definition datasetOf :: "string \<Rightarrow> string" where
  "datasetOf p = (if has_prefix p ''/mnt/'' then dropWhile (\<lambda>c. c = CHR ''/'') (trim_right ''/'' (drop 5 p)) else [])"

definition quotaOwed :: "'z nas_env \<Rightarrow> desired_state \<Rightarrow> string \<Rightarrow> int \<Rightarrow> 'z nas_server \<Rightarrow> (nas_error + string \<times> int \<times> bool) \<times> 'z nas_server" where
  "quotaOwed env d home uid s =
     (if \<not> managed d FieldHomeQuota \<or> home = [] \<or> dd_homeQuota d = 0 \<and> \<not> dd_homeUnlimited d then (Inr ([], 0, False), s)
      else let want = (if dd_homeUnlimited d then 0 else dd_homeQuota d)
           in case homePlaces env s of
                (Inl e, s1) \<Rightarrow> (Inl e, s1)
              | (Inr places, s1) \<Rightarrow>
                  if path_dir home \<notin> set places \<or> datasetOf (path_dir home) = [] then (Inr ([], 0, False), s1)
                  else (case ask (get_quota env (datasetOf (path_dir home)) uid) s1 of
                     (Inl e, s2) \<Rightarrow> (Inl e, s2)
                   | (Inr rows, s2) \<Rightarrow>
                       (Inr (datasetOf (path_dir home), want, \<not> (list_ex (\<lambda>r. r = (uid, want)) rows \<or> want = 0 \<and> rows = [])), s2)))"

definition humanBytes :: "int \<Rightarrow> string" where
  "humanBytes n =
     (let gib = 2 ^ 30; tenths = n * 10 div gib; left = n * 10 mod gib;
          rounded = (if 2 * left > gib \<or> 2 * left = gib \<and> odd tenths then tenths + 1 else tenths)
      in if n mod gib = 0 then itoa_int (n div gib) @ '' GiB''
         else itoa_int (rounded div 10) @ ''.'' @ itoa_int (rounded mod 10) @ '' GiB'')"

definition quotaWords :: "int \<Rightarrow> string" where
  "quotaWords want = (if want = 0 then ''Home folder limit lifted.'' else ''Home folder limit set to '' @ humanBytes want @ ''.'')"

definition convergeQuota :: "'z nas_env \<Rightarrow> desired_state \<Rightarrow> string \<Rightarrow> int \<Rightarrow> 'z nas_server \<Rightarrow> (nas_error + string) \<times> 'z nas_server" where
  "convergeQuota env d home uid s =
     (case quotaOwed env d home uid s of
        (Inl e, s1) \<Rightarrow> (Inl e, s1)
      | (Inr (dataset, want, owed), s1) \<Rightarrow>
          if \<not> owed then (Inr [], s1)
          else case do_write env (WQuota dataset uid want) s1 of
                 (Inl e, s2) \<Rightarrow> (Inl e, s2)
               | (Inr _, s2) \<Rightarrow> (Inr (quotaWords want), s2))"

section \<open>Words\<close>

text \<open>The text of an error, without the words of the call that met it.\<close>

definition nas_text :: "nas_error \<Rightarrow> string" where
  "nas_text e = (case e of TargetUnreachable \<Rightarrow> ''the target is not reachable'' | TargetRateLimited \<Rightarrow> ''the target is rate-limiting''
     | NoSuchPath \<Rightarrow> ''the target refused the call: no such path'' | TargetRefused \<Rightarrow> ''the target refused the call''
     | GroupsTruncated \<Rightarrow> ''the target has more groups than one read returns, so this list would be partial'')"

definition EffectApplied :: string where "EffectApplied = ''applied''"
definition EffectNoChange :: string where "EffectNoChange = ''no_change''"
definition EffectBlocked :: string where "EffectBlocked = ''blocked''"
definition EffectApply :: string where "EffectApply = ''apply''"

lemmas effects = EffectApplied_def EffectNoChange_def EffectBlocked_def EffectApply_def

definition smbWaiting :: "subject \<Rightarrow> string" where
  "smbWaiting u =
     (if su_PasswordSet u then ''Waiting for '' @ su_Username u @ '' to set their password again: TrueNAS switches SMB on only together with a new password.''
      else ''Waiting for '' @ su_Username u @ '' to set a password before SMB can be enabled.'')"

definition describeHolding :: "subject \<Rightarrow> string" where
  "describeHolding u =
     (if \<not> su_Enabled u then ''The account is disabled and reaches nothing until it is enabled again.''
      else if su_Groups u = [] then ''The account is enabled and in no managed group, so it reaches nothing.''
      else ''Reaches '' @ join_with '', '' (su_Groups u) @ ''.'')"

definition describeChange :: "user_update \<Rightarrow> string list \<Rightarrow> string" where
  "describeChange u names =
     (let parts =
        (if uu_Groups u = None then [] else if names = [] then [''removed from every managed group''] else [''groups set to '' @ join_with '', '' names]) @
        (case uu_Locked u of None \<Rightarrow> [] | Some l \<Rightarrow> [if l then ''account disabled'' else ''account enabled'']) @
        (case uu_SMB u of None \<Rightarrow> [] | Some b \<Rightarrow> [if b then ''SMB enabled'' else ''SMB disabled''])
      in if parts = [] then [] else join_with ''; '' parts @ ''.'')"

definition diffSets :: "string list \<Rightarrow> string list \<Rightarrow> string list \<times> string list" where
  "diffSets before after = (filter (\<lambda>a. a \<notin> set before) after, filter (\<lambda>b. b \<notin> set after) before)"

definition describePlannedChange :: "subject \<Rightarrow> subject \<Rightarrow> string" where
  "describePlannedChange before after =
     (let (gained, lost) = diffSets (su_Groups before) (su_Groups after);
          parts =
            (if su_Home after \<noteq> su_Home before \<and> su_Home after \<noteq> [] then [''gets a home folder at '' @ su_Home after] else []) @
            (if \<not> sameSet (su_Groups before) (su_Groups after)
             then (if gained = [] then [] else [''joins '' @ join_with '', '' gained]) @ (if lost = [] then [] else [''leaves '' @ join_with '', '' lost])
             else []) @
            (if su_Enabled before \<noteq> su_Enabled after then [if su_Enabled after then ''account enabled'' else ''account disabled''] else []) @
            (if su_SMBEnabled before \<noteq> su_SMBEnabled after then [if su_SMBEnabled after then ''SMB enabled'' else ''SMB disabled''] else [])
      in case parts of
           [] \<Rightarrow> ''No change.''
         | p # ps \<Rightarrow> to_upper (take 1 p) @ drop 1 p @ (if ps = [] then [] else ''; '' @ join_with ''; '' ps) @ ''.'')"

datatype obs = OStrings "string list" | OBool bool

definition entitlementState :: "subject \<Rightarrow> (string, obs) gomap" where
  "entitlementState u =
     [(FieldGroup, OStrings (sort (su_Groups u))), (FieldEnabled, OBool (su_Enabled u)), (FieldSMBEnabled, OBool (su_SMBEnabled u)),
      (FieldHome, OStrings (if su_Home u \<noteq> [] then [''true''] else []))]"

definition observedFields :: "desired_state \<Rightarrow> subject \<Rightarrow> (string, obs) gomap" where
  "observedFields d u = filter (\<lambda>(f, _). managed d f) (entitlementState u)"

record binding_conflict =
  bc_Username :: string
  bc_UID :: int
  bc_Adoptable :: bool
  bc_BoundTo :: string

record apply_outcome =
  oc_Subject :: string
  oc_Effect :: string
  oc_Detail :: string
  oc_Consequence :: string
  oc_Username :: string
  oc_UID :: int
  oc_Fingerprint :: string
  oc_Observed :: "(string, obs) gomap"
  oc_Unverified :: bool
  oc_Conflict :: "binding_conflict option"

definition blank_outcome :: "string \<Rightarrow> string \<Rightarrow> apply_outcome" where
  "blank_outcome subject effect =
     \<lparr>oc_Subject = subject, oc_Effect = effect, oc_Detail = [], oc_Consequence = [], oc_Username = [], oc_UID = 0, oc_Fingerprint = [],
      oc_Observed = [], oc_Unverified = False, oc_Conflict = None\<rparr>"

section \<open>Finding the account\<close>

record apply_request =
  aq_CallID :: string
  aq_Subject :: string
  aq_Email :: string
  aq_Fingerprint :: string
  aq_Actor :: string
  aq_Desired :: "(string \<times> fval) list"

datatype nas_apply_error = AStale | ABadField string | AStore | ANas nas_error | AGroups group_refusal | AName string | ANoNumber "nas_error option"
  | AGroupMake nas_error | ABinding bind_error | AReadBack nas_error

datatype located = LNoIdentity | LFailed nas_apply_error | LConflict binding_conflict | LFound subject | LAbsent binding bool

definition put_binding :: "'z nas_env \<Rightarrow> binding \<Rightarrow> 'z nas_server \<Rightarrow> 'z nas_server" where
  "put_binding env b s = (if ne_store env CPutBinding then s\<lparr>ns_bindings := PutBinding b (ns_bindings s)\<rparr> else s)"

definition in_range :: "'z nas_env \<Rightarrow> int \<Rightarrow> bool" where
  "in_range env n \<longleftrightarrow> fst (idRange (ne_floor env) (ne_ceiling env)) \<le> n \<and> n \<le> snd (idRange (ne_floor env) (ne_ceiling env))"

definition locate_bound :: "'z nas_env \<Rightarrow> binding \<Rightarrow> 'z nas_server \<Rightarrow> located \<times> 'z nas_server" where
  "locate_bound env b s =
     (case subjectWhere env (ByName (b_Username b)) s of
        (Inl e, s1) \<Rightarrow> (LFailed (ANas e), s1)
      | (Inr (Some u, _), s1) \<Rightarrow>
          if in_range env (b_UID b) \<and> su_UID u \<noteq> b_UID b
          then (LConflict \<lparr>bc_Username = su_Username u, bc_UID = su_UID u, bc_Adoptable = False, bc_BoundTo = []\<rparr>, s1)
          else (LFound u, if \<not> in_range env (b_UID b) \<and> in_range env (su_UID u) then put_binding env (b\<lparr>b_UID := su_UID u\<rparr>) s1 else s1)
      | (Inr (None, short), s1) \<Rightarrow>
          if \<not> in_range env (b_UID b) then (LAbsent b short, s1)
          else case subjectWhere env (ByUID (b_UID b)) s1 of
                 (Inl e, s2) \<Rightarrow> (LFailed (ANas e), s2)
               | (Inr (Some u, _), s2) \<Rightarrow> (LFound u, put_binding env (b\<lparr>b_Username := su_Username u\<rparr>) s2)
               | (Inr (None, shortUID), s2) \<Rightarrow> (LAbsent b (short \<or> shortUID), s2))"

definition name_claimed :: "(string, string) gomap \<Rightarrow> string \<Rightarrow> string \<Rightarrow> bool" where
  "name_claimed claimed subject candidate \<longleftrightarrow> (case map_of claimed candidate of None \<Rightarrow> False | Some owner \<Rightarrow> owner \<noteq> subject)"

definition owner_of :: "(string, string) gomap \<Rightarrow> string \<Rightarrow> string" where
  "owner_of claimed name = (case map_of claimed name of None \<Rightarrow> [] | Some owner \<Rightarrow> owner)"

definition new_binding :: "string \<Rightarrow> string \<Rightarrow> binding" where
  "new_binding subject name = \<lparr>b_SubjectID = subject, b_Username = name, b_UID = 0, b_BoundBy = [], b_WantsSMB = None\<rparr>"

definition locate :: "'z nas_env \<Rightarrow> (string \<Rightarrow> string) \<Rightarrow> string \<Rightarrow> string \<Rightarrow> 'z nas_server \<Rightarrow> located \<times> 'z nas_server" where
  "locate env H subject email s =
     (if \<not> ne_store env CGetBinding then (LFailed AStore, s)
      else case map_of (ns_bindings s) subject of
        Some b \<Rightarrow> locate_bound env b s
      | None \<Rightarrow>
          if trim_space email = [] then (LNoIdentity, s)
          else if \<not> ne_store env CBoundNames then (LFailed AStore, s)
          else let claimed = BoundUsernames (ns_bindings s);
                   derived = DeriveUsername H email subject (name_claimed claimed subject)
               in case subjectWhere env (ByName derived) s of
                    (Inl e, s1) \<Rightarrow> (LFailed (ANas e), s1)
                  | (Inr (Some u, _), s1) \<Rightarrow>
                      (LConflict \<lparr>bc_Username = derived, bc_UID = su_UID u, bc_Adoptable = (owner_of claimed derived = []), bc_BoundTo = owner_of claimed derived\<rparr>, s1)
                  | (Inr (None, short), s1) \<Rightarrow> (LAbsent (new_binding subject derived) short, s1))"

section \<open>Applying\<close>

type_synonym 'z applied = "(nas_apply_error + apply_outcome) \<times> int \<times> 'z nas_server"

definition record_event :: "string \<Rightarrow> apply_request \<Rightarrow> 'z nas_server \<Rightarrow> 'z nas_server" where
  "record_event operation req s =
     s\<lparr>ns_log := ns_log s @ [(operation, aq_Subject req, if trim_space (aq_Actor req) = [] then ''syndra'' else aq_Actor req, aq_CallID req)]\<rparr>"

definition with_notes :: "string \<Rightarrow> string list \<Rightarrow> string" where
  "with_notes base extra = trim_space (base @ concat (map (\<lambda>e. '' '' @ e) (filter (\<lambda>e. e \<noteq> []) extra)))"

definition build_update :: "nas_change \<Rightarrow> string list option \<Rightarrow> user_update" where
  "build_update c ids =
     \<lparr>uu_Groups = ids, uu_Locked = ch_locked c, uu_SMB = (if ch_smbOff c then Some False else None),
      uu_Home = (if hd_path (ch_home c) \<noteq> [] then Some (hd_path (ch_home c)) else None), uu_Password = False\<rparr>"

definition same_account :: "(string \<Rightarrow> string) \<Rightarrow> apply_request \<Rightarrow> subject \<Rightarrow> string \<Rightarrow> string \<Rightarrow> string \<Rightarrow> apply_outcome" where
  "same_account H req u effect detail consequence =
     (blank_outcome (aq_Subject req) effect)\<lparr>oc_Detail := detail, oc_Consequence := consequence, oc_Username := su_Username u, oc_UID := su_UID u,
        oc_Fingerprint := fingerprintSubject H (Some u)\<rparr>"

definition converge_nothing :: "'z nas_env \<Rightarrow> (string \<Rightarrow> string) \<Rightarrow> apply_request \<Rightarrow> desired_state \<Rightarrow> subject \<Rightarrow> nas_change \<Rightarrow> 'z nas_server \<Rightarrow> 'z applied" where
  "converge_nothing env H req d u c s =
     (case convergeQuota env d (su_Home u) (su_UID u) s of
        (Inl e, s1) \<Rightarrow> (Inl (ANas e), nas_status e, s1)
      | (Inr quota, s1) \<Rightarrow>
          if quota \<noteq> [] then
            (Inr (same_account H req u EffectApplied (with_notes quota (hd_note (ch_home c) # (if ch_smbPending c then [smbWaiting u] else []))) []), 200,
             record_event ''apply'' req s1)
          else if ch_smbPending c then
            (Inr (same_account H req u EffectNoChange (with_notes (smbWaiting u) [hd_note (ch_home c)])
               (''The account exists and is otherwise converged. TrueNAS switches SMB on '' @
                ''only in the call that sets a password, so this completes itself when the member sets one.'')), 200, s1)
          else (Inr (same_account H req u EffectNoChange (with_notes ''Already in the requested state.'' [hd_note (ch_home c)]) []), 200, s1))"

definition converge_write :: "'z nas_env \<Rightarrow> (string \<Rightarrow> string) \<Rightarrow> apply_request \<Rightarrow> desired_state \<Rightarrow> subject \<Rightarrow> nas_change \<Rightarrow> string list option \<Rightarrow> 'z nas_server \<Rightarrow> 'z applied" where
  "converge_write env H req d u c ids s =
     (let update = build_update c ids; home = hd_path (ch_home c)
      in case do_write env (WUpdate (su_ID u) update) s of
           (Inl e, s1) \<Rightarrow> (Inl (ANas e), nas_status e, s1)
         | (Inr _, s1) \<Rightarrow>
             (case readBack env (su_Username u) s1 of
                (Inl e, s2) \<Rightarrow>
                  (Inr ((blank_outcome (aq_Subject req) EffectApplied)\<lparr>oc_Unverified := True,
                     oc_Detail := describeChange update (dd_groups d) @ '' The account could not be read back afterwards, so what the target now holds has not been confirmed.'',
                     oc_Consequence := ''The change was written to '' @ su_Username u @ '' and the account could not be read back, so what the target now holds has not been confirmed. The next plan reads it fresh.'',
                     oc_Username := su_Username u, oc_UID := su_UID u\<rparr>), 200, record_event ''apply.unverified'' req s2)
              | (Inr now, s2) \<Rightarrow>
                  (case convergeQuota env d (if home \<noteq> [] then home else su_Home u) (su_UID u) s2 of
                     (q, s3) \<Rightarrow>
                       let quota = (case q of Inr t \<Rightarrow> t | Inl e \<Rightarrow> ''The home folder limit could not be set yet: '' @ nas_text e @ ''.'');
                           detail = (if home \<noteq> [] then with_notes (describeChange update (dd_groups d)) [hd_note (ch_home c), ''Home folder created at '' @ home @ ''.'', quota]
                                     else with_notes (describeChange update (dd_groups d)) [hd_note (ch_home c), quota])
                       in (Inr ((same_account H req now EffectApplied (if ch_smbPending c then detail @ '' '' @ smbWaiting u else detail) (describeHolding now))
                            \<lparr>oc_Observed := observedFields d now\<rparr>), 200, record_event ''apply'' req s3))))"

definition converge :: "'z nas_env \<Rightarrow> (string \<Rightarrow> string) \<Rightarrow> apply_request \<Rightarrow> desired_state \<Rightarrow> subject \<Rightarrow> 'z nas_server \<Rightarrow> 'z applied" where
  "converge env H req d u s =
     (let c = decide (Some u) d no_home
      in case (case ch_groups c of None \<Rightarrow> (Inr None, s)
               | Some gs \<Rightarrow> (case groupIDsFor env gs s of (Inl e, s1) \<Rightarrow> (Inl e, s1) | (Inr ids, s1) \<Rightarrow> (Inr (Some (ids @ su_Builtin u)), s1))) of
           (Inl e, s1) \<Rightarrow> (Inl (AGroups e), 422, s1)
         | (Inr ids, s1) \<Rightarrow>
             (case decideHome env d (su_Username u) (su_Home u) (su_UID u) s1 of
                (Inl e, s2) \<Rightarrow> (Inl (ANas e), nas_status e, s2)
              | (Inr home, s2) \<Rightarrow>
                  let c' = c\<lparr>ch_home := home\<rparr>
                  in if change_writes c' then converge_write env H req d u c' ids s2 else converge_nothing env H req d u c' s2))"

definition emptyGroupNamed :: "'z nas_env \<Rightarrow> string \<Rightarrow> 'z nas_server \<Rightarrow> (string \<times> int) option \<times> 'z nas_server" where
  "emptyGroupNamed env name s =
     (case ask (empty_groups env name) s of
        (Inr [(g, members)], s1) \<Rightarrow>
          (if \<not> ng_Builtin g \<and> members = 0 \<and> ng_ID g \<noteq> [] \<and> ng_ID g \<noteq> ''null'' \<and> in_range env (ng_GID g) then Some (ng_ID g, ng_GID g) else None, s1)
      | (_, s1) \<Rightarrow> (None, s1))"

definition undoGroup :: "'z nas_env \<Rightarrow> string \<Rightarrow> 'z nas_server \<Rightarrow> 'z nas_server" where
  "undoGroup env i s = (if i = [] \<or> i = ''null'' then s else snd (do_write env (WUngroup i) s))"

text \<open>The number of a new account and its own group: made, or taken over when it is an empty one an earlier attempt left.\<close>

definition personal_group :: "'z nas_env \<Rightarrow> string \<Rightarrow> 'z nas_server \<Rightarrow> (nas_apply_error + string \<times> int \<times> bool) \<times> 'z nas_server" where
  "personal_group env name s =
     (case nextIdentity env s of
        (Inl e, s1) \<Rightarrow> (Inl (ANoNumber e), s1)
      | (Inr n, s1) \<Rightarrow>
          (case do_write env (WGroup name n) s1 of
             (Inr g, s2) \<Rightarrow> (Inr (g, n, False), s2)
           | (Inl e, s2) \<Rightarrow>
               (case emptyGroupNamed env name s2 of
                  (None, s3) \<Rightarrow> (Inl (AGroupMake e), s3)
                | (Some (g, gid), s3) \<Rightarrow> (Inr (g, gid, True), s3))))"

definition apply_status :: "nas_apply_error \<Rightarrow> int" where
  "apply_status e =
     (case e of AStale \<Rightarrow> 409 | ABadField _ \<Rightarrow> 400 | AStore \<Rightarrow> 502 | ANas x \<Rightarrow> nas_status x | AGroups _ \<Rightarrow> 422 | AName _ \<Rightarrow> 422
      | ANoNumber None \<Rightarrow> 502 | ANoNumber (Some x) \<Rightarrow> nas_status x | AGroupMake x \<Rightarrow> nas_status x | ABinding _ \<Rightarrow> 500 | AReadBack x \<Rightarrow> nas_status x)"

text \<open>The binding of the new account: its uid as read back, or the one asked for when it could not be read.\<close>

definition bind_created :: "'z nas_env \<Rightarrow> apply_request \<Rightarrow> binding \<Rightarrow> int \<Rightarrow> 'z nas_server \<Rightarrow> bind_error + bindings" where
  "bind_created env req b uid s =
     (if ne_store env CBind then BindIfFree (b\<lparr>b_SubjectID := aq_Subject req, b_UID := uid, b_BoundBy := ''apply''\<rparr>) (ns_bindings s)
      else Inl StoreFailed)"

definition finish_create :: "'z nas_env \<Rightarrow> (string \<Rightarrow> string) \<Rightarrow> apply_request \<Rightarrow> desired_state \<Rightarrow> binding \<Rightarrow> int \<Rightarrow> home_decision \<Rightarrow> 'z nas_server \<Rightarrow> 'z applied" where
  "finish_create env H req d b n home s =
     (case readBack env (b_Username b) s of (back, s1) \<Rightarrow>
        let name = b_Username b
        in case bind_created env req b (case back of Inl _ \<Rightarrow> n | Inr u \<Rightarrow> su_UID u) s1 of
             Inl e \<Rightarrow> (Inl (ABinding e), 500, s1)
           | Inr bs \<Rightarrow>
               let s2 = s1\<lparr>ns_bindings := bs\<rparr>
               in case back of
                    Inl e \<Rightarrow> (Inl (AReadBack e), nas_status e, s2)
                  | Inr u \<Rightarrow>
                      (case convergeQuota env d (hd_path home) (su_UID u) s2 of (q, s3) \<Rightarrow>
                         let detail = ''Created '' @ name @ ''.'' @
                               (if hd_path home \<noteq> [] then '' Home folder created at '' @ hd_path home @ ''.'' else []) @
                               (case q of Inl e \<Rightarrow> '' The home folder limit could not be set yet: '' @ nas_text e @ ''.'' | Inr t \<Rightarrow> if t \<noteq> [] then '' '' @ t else []) @
                               (if hd_note home \<noteq> [] then '' '' @ hd_note home else [])
                         in (Inr ((same_account H req u EffectApplied detail (describeHolding u))\<lparr>oc_Username := name, oc_Observed := observedFields d u\<rparr>), 200,
                             record_event ''apply.create'' req s3)))"

definition create_with :: "'z nas_env \<Rightarrow> (string \<Rightarrow> string) \<Rightarrow> apply_request \<Rightarrow> desired_state \<Rightarrow> binding \<Rightarrow> string list option \<Rightarrow> 'z nas_server \<Rightarrow> 'z applied" where
  "create_with env H req d b ids s =
     (let name = b_Username b; want = decide None d no_home
      in case personal_group env name s of
           (Inl e, s1) \<Rightarrow> (Inl e, apply_status e, s1)
         | (Inr (g, n, adopted), s1) \<Rightarrow>
             (case decideHome env d name [] (-1) s1 of
                (Inl e, s2) \<Rightarrow> (Inl (ANas e), nas_status e, if adopted then s2 else undoGroup env g s2)
              | (Inr home, s2) \<Rightarrow>
                  (case do_write env (WCreate \<lparr>uc_Username = name, uc_UID = n, uc_Group = g, uc_Groups = ids, uc_Locked = (ch_locked want = Some True),
                       uc_Home = (if hd_path home \<noteq> [] then Some (hd_path home) else None)\<rparr>) s2 of
                     (Inl e, s3) \<Rightarrow> (Inl (ANas e), nas_status e, if adopted then s3 else undoGroup env g s3)
                   | (Inr _, s3) \<Rightarrow> finish_create env H req d b n home s3)))"

definition createAndConverge :: "'z nas_env \<Rightarrow> (string \<Rightarrow> string) \<Rightarrow> apply_request \<Rightarrow> desired_state \<Rightarrow> binding \<Rightarrow> 'z nas_server \<Rightarrow> 'z applied" where
  "createAndConverge env H req d b s =
     (if \<not> ValidUsername (b_Username b) then (Inl (AName (b_Username b)), 422, s)
      else case (case ch_groups (decide None d no_home) of None \<Rightarrow> (Inr None, s)
                 | Some gs \<Rightarrow> (case groupIDsFor env gs s of (Inl e, s1) \<Rightarrow> (Inl e, s1) | (Inr ids, s1) \<Rightarrow> (Inr (Some ids), s1))) of
             (Inl e, s1) \<Rightarrow> (Inl (AGroups e), 422, s1)
           | (Inr ids, s1) \<Rightarrow> create_with env H req d b ids s1)"

definition rememberWantedSMB :: "'z nas_env \<Rightarrow> string \<Rightarrow> desired_state \<Rightarrow> 'z applied \<Rightarrow> 'z applied" where
  "rememberWantedSMB env subject d res =
     (case res of (out, status, s) \<Rightarrow>
        (out, status,
         if \<not> managed d FieldSMBEnabled \<or> (case out of Inl _ \<Rightarrow> True | Inr _ \<Rightarrow> False) \<or> \<not> ne_store env CGetBinding then s
         else case map_of (ns_bindings s) subject of
                None \<Rightarrow> s
              | Some b \<Rightarrow> put_binding env (b\<lparr>b_WantsSMB := Some (dd_smbEnabled d)\<rparr>) s))"

definition truncated_detail :: string where
  "truncated_detail = ''The account list was longer than one read returns, so this subject's absence from it proves nothing.''"

definition conflict_detail :: "string \<Rightarrow> string" where
  "conflict_detail name = ''An account named '' @ name @ '' already exists and is not bound to anyone.''"

definition applyOne :: "'z nas_env \<Rightarrow> (string \<Rightarrow> string) \<Rightarrow> apply_request \<Rightarrow> 'z nas_server \<Rightarrow> 'z applied" where
  "applyOne env H req s =
     (case decodeDesired env (aq_Desired req) s of
        Inl e \<Rightarrow> (Inl (ABadField e), 400, s)
      | Inr d \<Rightarrow>
          (case locate env H (aq_Subject req) (aq_Email req) s of
             (LNoIdentity, s1) \<Rightarrow>
               (Inr ((blank_outcome (aq_Subject req) EffectBlocked)\<lparr>
                  oc_Detail := ''This subject has no account here and the call carried no identity to derive a name from.'', oc_Consequence := ''Nothing was changed.''\<rparr>), 422, s1)
           | (LFailed e, s1) \<Rightarrow> (Inl e, 502, s1)
           | (LConflict c, s1) \<Rightarrow>
               (Inr ((blank_outcome (aq_Subject req) EffectBlocked)\<lparr>oc_Detail := conflict_detail (bc_Username c),
                  oc_Consequence := ''Nothing was changed. Adopt it, or create under a suffixed name.'', oc_Username := bc_Username c, oc_Conflict := Some c\<rparr>), 409, s1)
           | (LFound u, s1) \<Rightarrow>
               if aq_Fingerprint req \<noteq> fingerprintSubject H (Some u) then (Inl AStale, 409, s1)
               else rememberWantedSMB env (aq_Subject req) d (converge env H req d u s1)
           | (LAbsent b short, s1) \<Rightarrow>
               if aq_Fingerprint req \<noteq> fingerprintSubject H None then (Inl AStale, 409, s1)
               else if short then
                 (Inr ((blank_outcome (aq_Subject req) EffectBlocked)\<lparr>oc_Detail := truncated_detail, oc_Consequence := ''Nothing was changed.''\<rparr>), 409, s1)
               else rememberWantedSMB env (aq_Subject req) d (createAndConverge env H req d b s1)))"

section \<open>Planning\<close>

record nas_plan_subject =
  pq_Subject :: string
  pq_Email :: string
  pq_Desired :: "(string \<times> fval) list"

definition projected :: "desired_state \<Rightarrow> string \<Rightarrow> subject" where
  "projected d name =
     (let u = applyTo (decide None d no_home)
        \<lparr>su_ID = [], su_Username = name, su_UID = 0, su_Groups = [], su_Home = [], su_Enabled = True, su_SMBEnabled = False,
         su_PasswordSet = False, su_Self = False, su_Builtin = []\<rparr>
      in if managed d FieldHome \<and> dd_wantsHome d \<and> dd_homeRoot d \<noteq> [] \<and> (managed d FieldEnabled \<longrightarrow> dd_enabled d)
         then u\<lparr>su_Home := path_join (dd_homeRoot d) name\<rparr> else u)"

definition plan_existing :: "'z nas_env \<Rightarrow> (string \<Rightarrow> string) \<Rightarrow> nas_plan_subject \<Rightarrow> desired_state \<Rightarrow> subject \<Rightarrow> 'z nas_server \<Rightarrow> apply_outcome \<times> 'z nas_server" where
  "plan_existing env H req d u s =
     (let out = (\<lambda>effect. (blank_outcome (pq_Subject req) effect)\<lparr>oc_Username := su_Username u, oc_Fingerprint := fingerprintSubject H (Some u)\<rparr>)
      in case decideHome env d (su_Username u) (su_Home u) (su_UID u) s of
           (Inl e, s1) \<Rightarrow>
             ((out EffectBlocked)\<lparr>oc_Detail := ''Where the home folder would go could not be read: '' @ nas_text e @ ''.'', oc_Consequence := ''Nothing would change.''\<rparr>, s1)
         | (Inr home, s1) \<Rightarrow>
             let c = decide (Some u) d home; after = applyTo c u
             in case quotaOwed env d (su_Home after) (su_UID u) s1 of (q, s2) \<Rightarrow>
                  let owed = (case q of Inl _ \<Rightarrow> False | Inr (_, _, o') \<Rightarrow> o'); want = (case q of Inl _ \<Rightarrow> 0 | Inr (_, w, _) \<Rightarrow> w)
                  in if \<not> change_writes c \<and> \<not> owed then
                       ((out EffectNoChange)\<lparr>
                          oc_Detail := (if managed d FieldSMBEnabled \<and> dd_smbEnabled d \<and> \<not> su_SMBEnabled u then smbWaiting u else ''Already in the requested state.'') @
                            (if hd_note home \<noteq> [] then '' '' @ hd_note home else []),
                          oc_Consequence := describeHolding u\<rparr>, s2)
                     else
                       (let detail = (if change_writes c then describePlannedChange u after else [])
                        in ((out EffectApply)\<lparr>oc_Detail := (if owed then trim_space (detail @ '' '' @ quotaWords want) else detail),
                              oc_Consequence := describeHolding after\<rparr>, s2)))"

definition planOne :: "'z nas_env \<Rightarrow> (string \<Rightarrow> string) \<Rightarrow> nas_plan_subject \<Rightarrow> subject list \<Rightarrow> (string, string) gomap \<Rightarrow> bool \<Rightarrow> 'z nas_server \<Rightarrow> apply_outcome \<times> 'z nas_server" where
  "planOne env H req subjects claimed truncated s =
     (let out = blank_outcome (pq_Subject req); byName = (\<lambda>n. find (\<lambda>u. su_Username u = n) (rev subjects))
      in case decodeDesired env (pq_Desired req) s of
           Inl e \<Rightarrow> ((out EffectBlocked)\<lparr>oc_Detail := e\<rparr>, s)
         | Inr d \<Rightarrow>
             if \<not> ne_store env CGetBinding then ((out EffectBlocked)\<lparr>oc_Detail := ''The local binding store could not be read.''\<rparr>, s)
             else
               let bound = map_of (ns_bindings s) (pq_Subject req);
                   name = (case bound of Some b \<Rightarrow> b_Username b
                     | None \<Rightarrow> DeriveUsername H (pq_Email req) (pq_Subject req) (name_claimed claimed (pq_Subject req)))
               in case (bound, byName name) of
                    (None, Some u) \<Rightarrow>
                      ((out EffectBlocked)\<lparr>oc_Detail := conflict_detail name, oc_Consequence := ''Nothing would change. Adopt it, or create under a suffixed name.'',
                         oc_Username := name, oc_Fingerprint := fingerprintSubject H (Some u),
                         oc_Conflict := Some \<lparr>bc_Username = name, bc_UID = su_UID u, bc_Adoptable = (owner_of claimed name = []), bc_BoundTo = owner_of claimed name\<rparr>\<rparr>, s)
                  | (_, None) \<Rightarrow>
                      if truncated then
                        ((out EffectBlocked)\<lparr>oc_Detail := truncated_detail, oc_Consequence := ''Nothing would change.'', oc_Fingerprint := fingerprintSubject H None\<rparr>, s)
                      else ((out EffectApply)\<lparr>oc_Detail := ''Creates '' @ name @ ''.'', oc_Consequence := describeHolding (projected d name), oc_Username := name,
                              oc_Fingerprint := fingerprintSubject H None\<rparr>, s)
                  | (Some b, Some u) \<Rightarrow> plan_existing env H req d u s)"

end
