(* ===== verification/Nas_Calls.thy ===== *)
theory Nas_Calls
  imports Nas_Apply
begin

text \<open>
  Which mutating calls an apply makes on the NAS (\<^verbatim>\<open>addons/truenas/apply.go\<close>): on the account
  the subject is bound to and no other, carrying what was decided and nothing else, and
  told truthfully.  Nothing is assumed of the target here.
\<close>

section \<open>What a call leaves alone\<close>

text \<open>Reads make no mutating call and touch nothing of the store.\<close>

definition reads_only :: "'z nas_server \<Rightarrow> 'z nas_server \<Rightarrow> bool" where
  "reads_only s s' \<longleftrightarrow> ns_writes s' = ns_writes s \<and> ns_bindings s' = ns_bindings s \<and> ns_homeRoot s' = ns_homeRoot s \<and> ns_log s' = ns_log s"

lemma reads_only_refl [simp]: "reads_only s s"
  by (simp add: reads_only_def)

lemma reads_only_trans: "reads_only a b \<Longrightarrow> reads_only b c \<Longrightarrow> reads_only a c"
  by (simp add: reads_only_def)

lemma ask_reads: "ask f s = (r, s') \<Longrightarrow> reads_only s s'"
  by (auto simp: ask_def reads_only_def split: prod.splits)

lemma readGroups_reads: "readGroups env s = (r, s') \<Longrightarrow> reads_only s s'"
  by (auto simp: readGroups_def split: prod.splits sum.splits dest: ask_reads)

lemma groupIndex_reads: "groupIndex env s = (r, s') \<Longrightarrow> reads_only s s'"
  by (auto simp: groupIndex_def split: prod.splits sum.splits dest: readGroups_reads)

lemma readSubjectsWhere_reads: "readSubjectsWhere env f s = (r, s') \<Longrightarrow> reads_only s s'"
  by (auto simp: readSubjectsWhere_def split: prod.splits sum.splits dest!: ask_reads groupIndex_reads intro: reads_only_trans)

lemma subjectWhere_reads: "subjectWhere env f s = (r, s') \<Longrightarrow> reads_only s s'"
  by (auto simp: subjectWhere_def split: prod.splits sum.splits dest: readSubjectsWhere_reads)

lemma readBack_reads: "readBack env n s = (r, s') \<Longrightarrow> reads_only s s'"
  by (auto simp: readBack_def split: prod.splits sum.splits option.splits dest: subjectWhere_reads)

lemma groupIDsFor_reads: "groupIDsFor env ns s = (r, s') \<Longrightarrow> reads_only s s'"
  by (auto simp: groupIDsFor_def split: if_splits prod.splits sum.splits dest: groupIndex_reads)

lemma decideHome_reads: "decideHome env d n h uid s = (r, s') \<Longrightarrow> reads_only s s'"
  by (auto simp: decideHome_def Let_def split: if_splits prod.splits sum.splits nas_error.splits dest: ask_reads)

lemma homePlaces_reads: "homePlaces env s = (r, s') \<Longrightarrow> reads_only s s'"
  by (auto simp: homePlaces_def split: prod.splits sum.splits dest: ask_reads)

lemma quotaOwed_reads: "quotaOwed env d h uid s = (r, s') \<Longrightarrow> reads_only s s'"
  by (auto simp: quotaOwed_def Let_def split: if_splits prod.splits sum.splits dest!: homePlaces_reads ask_reads intro: reads_only_trans)

lemma nextIdentity_reads: "nextIdentity env s = (r, s') \<Longrightarrow> reads_only s s'"
  by (auto simp: nextIdentity_def Let_def split: if_splits prod.splits sum.splits option.splits dest!: ask_reads) (auto simp: reads_only_def)

lemma emptyGroupNamed_reads: "emptyGroupNamed env n s = (r, s') \<Longrightarrow> reads_only s s'"
  by (auto simp: emptyGroupNamed_def split: if_splits prod.splits sum.splits list.splits dest: ask_reads)

lemmas nas_reads = ask_reads readGroups_reads groupIndex_reads readSubjectsWhere_reads subjectWhere_reads readBack_reads groupIDsFor_reads
  decideHome_reads homePlaces_reads quotaOwed_reads nextIdentity_reads emptyGroupNamed_reads

text \<open>A run that made some mutating calls and wrote nothing to the mutation log.\<close>

definition calls :: "'z nas_server \<Rightarrow> 'z nas_server \<Rightarrow> nas_write list \<Rightarrow> bool" where
  "calls s s' ws \<longleftrightarrow> ns_writes s' = ns_writes s @ ws \<and> ns_log s' = ns_log s"

lemma calls_trans: "calls a b ws \<Longrightarrow> calls b c vs \<Longrightarrow> calls a c (ws @ vs)"
  by (simp add: calls_def)

lemma calls_reads: "reads_only s s' \<Longrightarrow> calls s s' []"
  by (simp add: calls_def reads_only_def)

lemma calls_after_reads: "reads_only a b \<Longrightarrow> calls b c ws \<Longrightarrow> calls a c ws"
  by (simp add: calls_def reads_only_def)

lemma reads_after_calls: "calls a b ws \<Longrightarrow> reads_only b c \<Longrightarrow> calls a c ws"
  by (simp add: calls_def reads_only_def)

lemma do_write_calls: "do_write env w s = (r, s') \<Longrightarrow> calls s s' [w]"
  by (auto simp: do_write_def ask_def calls_def split: prod.splits)

lemma do_write_reply: "do_write env w s = (r, s') \<Longrightarrow> \<exists>z z'. nas_write env w z = (r, z')"
  by (auto simp: do_write_def ask_def split: prod.splits)

lemma calls_put [simp]: "calls s (put_binding env b t) ws \<longleftrightarrow> calls s t ws"
  by (simp add: calls_def put_binding_def)

lemma calls_bindings [simp]: "calls s (t\<lparr>ns_bindings := bs\<rparr>) ws \<longleftrightarrow> calls s t ws"
  by (simp add: calls_def)

lemma calls_from_bindings [simp]: "calls (s\<lparr>ns_bindings := bs\<rparr>) t ws \<longleftrightarrow> calls s t ws"
  by (simp add: calls_def)

lemma quotaWords_nonempty [simp]: "quotaWords n \<noteq> []"
  by (simp add: quotaWords_def)

lemma convergeQuota_calls:
  assumes "convergeQuota env d home uid s = (r, s')"
  shows "\<exists>ws. calls s s' ws \<and> (ws = [] \<or> (\<exists>ds n. ws = [WQuota ds uid n])) \<and> (\<forall>t. r = Inr t \<longrightarrow> (t = [] \<longleftrightarrow> ws = []))"
  using assms
  by (auto simp: convergeQuota_def split: prod.splits sum.splits if_splits dest!: quotaOwed_reads do_write_calls
      intro: calls_reads calls_after_reads)

section \<open>An apply touches only its own account\<close>

text \<open>
  The calls an apply may make on an account it found: an update of that record, which never
  carries a password and never switches SMB on, and the storage limit of that uid.
\<close>

definition own_write :: "subject \<Rightarrow> nas_write \<Rightarrow> bool" where
  "own_write u w \<longleftrightarrow>
     (case w of WUpdate i up \<Rightarrow> i = su_ID u \<and> \<not> uu_Password up \<and> uu_SMB up \<noteq> Some True | WQuota _ uid _ \<Rightarrow> uid = su_UID u | _ \<Rightarrow> False)"

text \<open>The report: it says applied exactly when a call was made, and then one event is logged.\<close>

definition truthful :: "apply_request \<Rightarrow> nas_apply_error + apply_outcome \<Rightarrow> nas_write list \<Rightarrow> 'z nas_server \<Rightarrow> 'z nas_server \<Rightarrow> bool" where
  "truthful req out ws s s' \<longleftrightarrow>
     (case out of
        Inl _ \<Rightarrow> ns_log s' = ns_log s
      | Inr x \<Rightarrow>
          if ws = [] then oc_Effect x \<noteq> EffectApplied \<and> ns_log s' = ns_log s
          else oc_Effect x = EffectApplied \<and> (\<exists>op actor. ns_log s' = ns_log s @ [(op, aq_Subject req, actor, aq_CallID req)]))"

definition ran :: "apply_request \<Rightarrow> 'z nas_server \<Rightarrow> 'z applied \<Rightarrow> nas_write list \<Rightarrow> bool" where
  "ran req s res ws \<longleftrightarrow> (case res of (out, _, s') \<Rightarrow> ns_writes s' = ns_writes s @ ws \<and> truthful req out ws s s')"

lemma ran_error: "ran req s (Inl e, st, s') ws \<longleftrightarrow> calls s s' ws"
  by (simp add: ran_def truthful_def calls_def)

lemma ran_quiet: "ran req s (Inr x, st, s') [] \<longleftrightarrow> calls s s' [] \<and> oc_Effect x \<noteq> EffectApplied"
  by (auto simp: ran_def truthful_def calls_def)

lemma ran_applied:
  assumes "calls s t ws" "ws \<noteq> []" "oc_Effect x = EffectApplied"
  shows "ran req s (Inr x, st, record_event op req t) ws"
  using assms by (simp add: ran_def truthful_def calls_def record_event_def)

lemma ran_after_reads: "reads_only a b \<Longrightarrow> ran req b res ws \<Longrightarrow> ran req a res ws"
  by (auto simp: ran_def truthful_def reads_only_def split: sum.splits prod.splits)

lemma same_account_effect [simp]: "oc_Effect (same_account H req u e dt cq) = e"
  by (simp add: same_account_def blank_outcome_def)

lemma blank_effect [simp]: "oc_Effect (blank_outcome x e) = e"
  by (simp add: blank_outcome_def)

lemma effect_noted [simp]:
  "oc_Effect (x\<lparr>oc_Observed := a\<rparr>) = oc_Effect x" "oc_Effect (x\<lparr>oc_Username := b\<rparr>) = oc_Effect x"
  by (cases x; simp)+

lemma nochange_not_applied [simp]: "EffectNoChange \<noteq> EffectApplied" "EffectBlocked \<noteq> EffectApplied"
  by (simp_all add: effects)

definition quota_call :: "nas_write \<Rightarrow> bool" where
  "quota_call w \<longleftrightarrow> (\<exists>ds uid n. w = WQuota ds uid n)"

lemma converge_nothing_ran: "\<exists>ws. ran req s (converge_nothing env H req d u c s) ws \<and> list_all (own_write u) ws \<and> list_all quota_call ws"
proof (cases "convergeQuota env d (su_Home u) (su_UID u) s")
  case q: (Pair r s1)
  obtain ws where ws: "calls s s1 ws" "ws = [] \<or> (\<exists>ds n. ws = [WQuota ds (su_UID u) n])" "\<forall>t. r = Inr t \<longrightarrow> (t = [] \<longleftrightarrow> ws = [])"
    using convergeQuota_calls [OF q] by blast
  have "list_all (own_write u) ws \<and> list_all quota_call ws" using ws(2) by (auto simp: own_write_def quota_call_def)
  moreover have "ran req s (converge_nothing env H req d u c s) ws"
    using ws(1,3) by (cases r) (auto simp: converge_nothing_def q ran_error ran_quiet intro: ran_applied)
  ultimately show ?thesis by blast
qed

lemma converge_write_ran:
  "\<exists>ws. ran req s (converge_write env H req d u c ids s) ws \<and> list_all (own_write u) ws \<and> (\<exists>rest. ws = WUpdate (su_ID u) (build_update c ids) # rest \<and> list_all quota_call rest)"
proof (cases "do_write env (WUpdate (su_ID u) (build_update c ids)) s")
  case w: (Pair r s1)
  let ?w = "WUpdate (su_ID u) (build_update c ids)"
  have own: "own_write u ?w" by (simp add: own_write_def build_update_def)
  have c1: "calls s s1 [?w]" by (rule do_write_calls [OF w])
  show ?thesis
  proof (cases r)
    case (Inl e)
    then have "ran req s (converge_write env H req d u c ids s) [?w]" using c1 by (simp add: converge_write_def Let_def w ran_error)
    then show ?thesis using own by (intro exI [of _ "[?w]"]) simp
  next
    case r: (Inr i)
    obtain got s2 where b: "readBack env (su_Username u) s1 = (got, s2)" by (rule prod.exhaust)
    have c2: "calls s s2 [?w]" by (rule reads_after_calls [OF c1 readBack_reads [OF b]])
    show ?thesis
    proof (cases got)
      case (Inl e)
      then have "ran req s (converge_write env H req d u c ids s) [?w]" using r c2 by (simp add: converge_write_def Let_def w b ran_applied)
      then show ?thesis using own by (intro exI [of _ "[?w]"]) simp
    next
      case got: (Inr now)
      obtain q s3 where q: "convergeQuota env d (if hd_path (ch_home c) \<noteq> [] then hd_path (ch_home c) else su_Home u) (su_UID u) s2 = (q, s3)" by (rule prod.exhaust)
      obtain ws where ws: "calls s2 s3 ws" "ws = [] \<or> (\<exists>ds n. ws = [WQuota ds (su_UID u) n])" using convergeQuota_calls [OF q] by blast
      have "calls s s3 (?w # ws)" using calls_trans [OF c2 ws(1)] by simp
      then have "ran req s (converge_write env H req d u c ids s) (?w # ws)"
        using r got q by (simp add: converge_write_def Let_def w b ran_applied split: if_splits)
      moreover have "list_all (own_write u) (?w # ws)" using own ws(2) by (auto simp: own_write_def)
      moreover have "list_all quota_call ws" using ws(2) by (auto simp: quota_call_def)
      ultimately show ?thesis by blast
    qed
  qed
qed

lemma decide_home [simp]: "(decide x d h)\<lparr>ch_home := h'\<rparr> = decide x d h'"
  by (simp add: decide_def)

lemma decide_fields [simp]:
  "ch_groups (decide x d (\<lparr>hd_path = p, hd_note = n\<rparr>)) = ch_groups (decide x d no_home)"
  "ch_locked (decide x d (\<lparr>hd_path = p, hd_note = n\<rparr>)) = ch_locked (decide x d no_home)"
  "ch_smbOff (decide x d (\<lparr>hd_path = p, hd_note = n\<rparr>)) = ch_smbOff (decide x d no_home)"
  by (simp_all add: decide_def)

text \<open>The update of an account carries the decision for it and nothing else: the ids of the groups, with the built-in ones it has kept.\<close>

definition carries :: "'z nas_env \<Rightarrow> desired_state \<Rightarrow> subject \<Rightarrow> user_update \<Rightarrow> bool" where
  "carries env d u up \<longleftrightarrow>
     (let c = decide (Some u) d no_home
      in uu_Locked up = ch_locked c \<and> uu_SMB up = (if ch_smbOff c then Some False else None) \<and>
         (case ch_groups c of
            None \<Rightarrow> uu_Groups up = None
          | Some gs \<Rightarrow> \<exists>s1 ids s2. groupIDsFor env gs s1 = (Inr ids, s2) \<and> uu_Groups up = Some (ids @ su_Builtin u)))"

lemma build_update_carries:
  assumes "case ch_groups (decide (Some u) d no_home) of None \<Rightarrow> ids = None
     | Some gs \<Rightarrow> \<exists>s1 is s2. groupIDsFor env gs s1 = (Inr is, s2) \<and> ids = Some (is @ su_Builtin u)"
  shows "carries env d u (build_update (decide (Some u) d home) ids)"
  using assms by (cases home) (auto simp: carries_def build_update_def Let_def split: option.splits)

lemma converge_res_ran:
  fixes home :: home_decision
  assumes "case ch_groups (decide (Some u) d no_home) of None \<Rightarrow> ids = None
     | Some gs \<Rightarrow> \<exists>s1 is s2. groupIDsFor env gs s1 = (Inr is, s2) \<and> ids = Some (is @ su_Builtin u)"
  defines "c \<equiv> decide (Some u) d home"
  shows "\<exists>ws. ran req s (if change_writes c then converge_write env H req d u c ids s else converge_nothing env H req d u c s) ws \<and>
     list_all (own_write u) ws \<and> (\<forall>i up. WUpdate i up \<in> set ws \<longrightarrow> carries env d u up)"
proof (cases "change_writes c")
  case True
  obtain ws rest where ws: "ran req s (converge_write env H req d u c ids s) ws" "list_all (own_write u) ws"
      "ws = WUpdate (su_ID u) (build_update c ids) # rest" "list_all quota_call rest" using converge_write_ran by blast
  have "carries env d u (build_update c ids)" unfolding c_def by (rule build_update_carries [OF assms(1)])
  then have "\<forall>i up. WUpdate i up \<in> set ws \<longrightarrow> carries env d u up" using ws(3,4) by (auto simp: list_all_iff quota_call_def)
  then show ?thesis using True ws(1,2) by (intro exI [of _ ws]) simp
next
  case False
  obtain ws where ws: "ran req s (converge_nothing env H req d u c s) ws" "list_all quota_call ws" "list_all (own_write u) ws"
    using converge_nothing_ran by blast
  have "\<forall>i up. WUpdate i up \<notin> set ws" using ws(2) by (auto simp: list_all_iff quota_call_def)
  then show ?thesis using False ws(1,3) by (intro exI [of _ ws]) simp
qed

lemma converge_ran:
  "\<exists>ws. ran req s (converge env H req d u s) ws \<and> list_all (own_write u) ws \<and> (\<forall>i up. WUpdate i up \<in> set ws \<longrightarrow> carries env d u up)"
proof -
  let ?c = "decide (Some u) d no_home"
  let ?gids = "case ch_groups ?c of None \<Rightarrow> (Inr None, s)
      | Some gs \<Rightarrow> (case groupIDsFor env gs s of (Inl e, s1) \<Rightarrow> (Inl e, s1) | (Inr ids, s1) \<Rightarrow> (Inr (Some (ids @ su_Builtin u)), s1))"
  obtain g s1 where g: "?gids = (g, s1)" by (rule prod.exhaust)
  have r1: "reads_only s s1"
    using g by (auto split: option.splits prod.splits sum.splits dest: groupIDsFor_reads)
  have gs: "g = Inr ids \<Longrightarrow> case ch_groups ?c of None \<Rightarrow> ids = None
     | Some gs \<Rightarrow> \<exists>s1 is s2. groupIDsFor env gs s1 = (Inr is, s2) \<and> ids = Some (is @ su_Builtin u)" for ids
    using g by (auto split: option.splits prod.splits sum.splits)
  show ?thesis
  proof (cases g)
    case (Inl e)
    then have "ran req s (converge env H req d u s) []" using g by (simp add: converge_def Let_def ran_error calls_reads r1)
    then show ?thesis by (intro exI [of _ "[]"]) simp
  next
    case ids: (Inr ids)
    obtain h s2 where h: "decideHome env d (su_Username u) (su_Home u) (su_UID u) s1 = (h, s2)" by (rule prod.exhaust)
    have r2: "reads_only s s2" by (rule reads_only_trans [OF r1 decideHome_reads [OF h]])
    show ?thesis
    proof (cases h)
      case (Inl e)
      then have "ran req s (converge env H req d u s) []" using g ids h by (simp add: converge_def Let_def ran_error calls_reads r2)
      then show ?thesis by (intro exI [of _ "[]"]) simp
    next
      case home: (Inr home)
      let ?res = "if change_writes (decide (Some u) d home) then converge_write env H req d u (decide (Some u) d home) ids s2
        else converge_nothing env H req d u (decide (Some u) d home) s2"
      have eq: "converge env H req d u s = ?res" using g ids h home by (simp add: converge_def Let_def)
      have "\<exists>ws. ran req s2 ?res ws \<and> list_all (own_write u) ws \<and> (\<forall>i up. WUpdate i up \<in> set ws \<longrightarrow> carries env d u up)"
        using converge_res_ran [OF gs [OF ids]] by simp
      then show ?thesis unfolding eq using ran_after_reads [OF r2] by blast
    qed
  qed
qed

text \<open>
  The calls of a creation: the personal group, the account under the same name with a number of the
  add-on's range, its storage limit; and when the account is not made, the group that was.
\<close>

definition made_group :: "'z nas_env \<Rightarrow> string \<Rightarrow> int \<Rightarrow> string \<Rightarrow> bool" where
  "made_group env name n g \<longleftrightarrow> (\<exists>z z'. nas_write env (WGroup name n) z = (Inr g, z'))"

definition create_calls :: "'z nas_env \<Rightarrow> string \<Rightarrow> nas_write list \<Rightarrow> bool" where
  "create_calls env name ws \<longleftrightarrow>
     ws = [] \<or>
     (\<exists>n more. ws = WGroup name n # more \<and> in_range env n \<and>
        (more = [] \<or> (\<exists>g. more = [WUngroup g] \<and> made_group env name n g) \<or>
         (\<exists>c rest. more = WCreate c # rest \<and> uc_Username c = name \<and> in_range env (uc_UID c) \<and>
            (rest = [] \<or> rest = [WUngroup (uc_Group c)] \<and> made_group env name n (uc_Group c) \<or> (\<exists>ds uid q. rest = [WQuota ds uid q])))))"

lemma ClaimID_in_range:
  assumes "ClaimID floor ceiling observed high = (Some n, high')"
  shows "floor \<le> n" "n \<le> ceiling" "high' = Some n" "observed < n" "\<And>m. high = Some m \<Longrightarrow> m < n"
  using assms by (auto simp: ClaimID_def Let_def split: if_splits option.splits)

lemma nextIdentity_in_range: "nextIdentity env s = (Inr n, s') \<Longrightarrow> in_range env n"
  by (auto simp: nextIdentity_def Let_def in_range_def split: if_splits prod.splits sum.splits option.splits dest: ClaimID_in_range(1,2))

lemma emptyGroupNamed_in_range: "emptyGroupNamed env name s = (Some (g, n), s') \<Longrightarrow> in_range env n"
  by (auto simp: emptyGroupNamed_def split: if_splits prod.splits sum.splits list.splits)

lemma personal_group_calls:
  assumes "personal_group env name s = (r, s')"
  shows "calls s s' [] \<and> (\<exists>e. r = Inl e) \<or>
     (\<exists>n. in_range env n \<and> calls s s' [WGroup name n] \<and> (\<forall>g m adopted. r = Inr (g, m, adopted) \<longrightarrow> in_range env m \<and> (\<not> adopted \<longrightarrow> made_group env name n g)))"
proof (cases "nextIdentity env s")
  case i: (Pair i s1)
  show ?thesis
  proof (cases i)
    case (Inl e)
    then show ?thesis using assms i by (auto simp: personal_group_def calls_reads nextIdentity_reads)
  next
    case n: (Inr n)
    obtain w s2 where w: "do_write env (WGroup name n) s1 = (w, s2)" by (rule prod.exhaust)
    have c: "calls s s2 [WGroup name n]"
      by (rule calls_after_reads [OF nextIdentity_reads [OF i] do_write_calls [OF w]])
    have n': "in_range env n" using i n nextIdentity_in_range by blast
    show ?thesis
    proof (cases w)
      case g: (Inr g)
      have "made_group env name n g" using do_write_reply [OF w] g by (auto simp: made_group_def)
      then show ?thesis using assms i n w g c n' by (auto simp: personal_group_def)
    next
      case e: (Inl e)
      obtain q s3 where q: "emptyGroupNamed env name s2 = (q, s3)" by (rule prod.exhaust)
      have c3: "calls s s3 [WGroup name n]" by (rule reads_after_calls [OF c emptyGroupNamed_reads [OF q]])
      show ?thesis
        using assms i n w e q c3 n' emptyGroupNamed_in_range [of env name s2]
        by (auto simp: personal_group_def split: option.splits prod.splits)
    qed
  qed
qed

lemma undoGroup_calls: "calls s (undoGroup env g s) [] \<or> calls s (undoGroup env g s) [WUngroup g]"
proof (cases "do_write env (WUngroup g) s")
  case (Pair r s')
  then show ?thesis using do_write_calls [OF Pair] by (simp add: undoGroup_def calls_def)
qed

lemma given_up_calls:
  assumes "calls s t ws"
  shows "\<exists>vs. calls s (if adopted then t else undoGroup env g t) (ws @ vs) \<and> (vs = [] \<or> \<not> adopted \<and> vs = [WUngroup g])"
  using undoGroup_calls [of t env g] calls_trans [OF assms] assms by (cases adopted) (auto intro: exI [of _ "[]"])

lemma finish_create_ran:
  assumes "calls s0 s ws" "ws \<noteq> []"
  shows "\<exists>vs. ran req s0 (finish_create env H req d b n home s) (ws @ vs) \<and> (vs = [] \<or> (\<exists>ds uid q. vs = [WQuota ds uid q]))"
proof -
  obtain got s1 where got: "readBack env (b_Username b) s = (got, s1)" by (rule prod.exhaust)
  have c1: "calls s0 s1 ws" by (rule reads_after_calls [OF assms(1) readBack_reads [OF got]])
  show ?thesis
  proof (cases "bind_created env req b (case got of Inl _ \<Rightarrow> n | Inr u \<Rightarrow> su_UID u) s1")
    case (Inl e)
    then show ?thesis using got c1 by (intro exI [of _ "[]"]) (simp add: finish_create_def Let_def ran_error)
  next
    case bs: (Inr bs)
    show ?thesis
    proof (cases got)
      case (Inl e)
      then show ?thesis using got bs c1 by (intro exI [of _ "[]"]) (simp add: finish_create_def Let_def ran_error)
    next
      case u: (Inr u)
      obtain q s3 where q: "convergeQuota env d (hd_path home) (su_UID u) (s1\<lparr>ns_bindings := bs\<rparr>) = (q, s3)" by (rule prod.exhaust)
      obtain vs where vs: "calls s1 s3 vs" "vs = [] \<or> (\<exists>ds n. vs = [WQuota ds (su_UID u) n])" using convergeQuota_calls [OF q] by auto
      have "ran req s0 (finish_create env H req d b n home s) (ws @ vs)"
        using got bs u q assms(2) calls_trans [OF c1 vs(1)] by (simp add: finish_create_def Let_def ran_applied)
      then show ?thesis using vs(2) by blast
    qed
  qed
qed

lemma create_with_ran: "\<exists>ws. ran req s (create_with env H req d b ids s) ws \<and> create_calls env (b_Username b) ws"
proof -
  let ?name = "b_Username b"
  obtain p s1 where p: "personal_group env ?name s = (p, s1)" by (rule prod.exhaust)
  show ?thesis
  proof (cases p)
    case (Inl e)
    then have "create_with env H req d b ids s = (Inl e, apply_status e, s1)" using p by (simp add: create_with_def)
    then show ?thesis using personal_group_calls [OF p] by (auto simp: ran_error create_calls_def)
  next
    case tr: (Inr tr)
    obtain g m adopted where gm: "tr = (g, m, adopted)" by (rule prod_cases3)
    obtain n where n: "in_range env n" "calls s s1 [WGroup ?name n]" "in_range env m" "\<not> adopted \<longrightarrow> made_group env ?name n g"
      using personal_group_calls [OF p] tr gm by auto
    obtain h s2 where h: "decideHome env d ?name [] (-1) s1 = (h, s2)" by (rule prod.exhaust)
    have c2: "calls s s2 [WGroup ?name n]" by (rule reads_after_calls [OF n(2) decideHome_reads [OF h]])
    show ?thesis
    proof (cases h)
      case (Inl e)
      then have eq: "create_with env H req d b ids s = (Inl (ANas e), nas_status e, if adopted then s2 else undoGroup env g s2)"
        using p tr gm h by (simp add: create_with_def)
      show ?thesis unfolding eq using given_up_calls [OF c2, of adopted env g] n by (auto simp: ran_error create_calls_def)
    next
      case home: (Inr home)
      define c where "c = \<lparr>uc_Username = ?name, uc_UID = m, uc_Group = g, uc_Groups = ids,
          uc_Locked = (ch_locked (decide None d no_home) = Some True), uc_Home = (if hd_path home \<noteq> [] then Some (hd_path home) else None)\<rparr>"
      have cf: "uc_Username c = ?name" "uc_UID c = m" "uc_Group c = g" by (simp_all add: c_def)
      obtain w s3 where w: "do_write env (WCreate c) s2 = (w, s3)" by (rule prod.exhaust)
      have c3: "calls s s3 [WGroup ?name n, WCreate c]" using calls_trans [OF c2 do_write_calls [OF w]] by simp
      show ?thesis
      proof (cases w)
        case (Inl e)
        then have eq: "create_with env H req d b ids s = (Inl (ANas e), nas_status e, if adopted then s3 else undoGroup env g s3)"
          using p tr gm h home w by (simp add: create_with_def c_def)
        show ?thesis unfolding eq using given_up_calls [OF c3, of adopted env g] n cf by (auto simp: ran_error create_calls_def)
      next
        case (Inr i)
        then have eq: "create_with env H req d b ids s = finish_create env H req d b m home s3"
          using p tr gm h home w by (simp add: create_with_def c_def)
        obtain vs where "ran req s (finish_create env H req d b m home s3) ([WGroup ?name n, WCreate c] @ vs)" "vs = [] \<or> (\<exists>ds uid q. vs = [WQuota ds uid q])"
          using finish_create_ran [OF c3] by blast
        then show ?thesis unfolding eq using n cf by (intro exI [of _ "[WGroup ?name n, WCreate c] @ vs"]) (auto simp: create_calls_def)
      qed
    qed
  qed
qed

lemma createAndConverge_ran:
  "\<exists>ws. ran req s (createAndConverge env H req d b s) ws \<and> create_calls env (b_Username b) ws \<and> (ws \<noteq> [] \<longrightarrow> ValidUsername (b_Username b))"
proof -
  let ?ids = "case ch_groups (decide None d no_home) of None \<Rightarrow> (Inr None, s)
      | Some gs \<Rightarrow> (case groupIDsFor env gs s of (Inl e, s1) \<Rightarrow> (Inl e, s1) | (Inr ids, s1) \<Rightarrow> (Inr (Some ids), s1))"
  obtain g s1 where g: "?ids = (g, s1)" by (rule prod.exhaust)
  have r1: "reads_only s s1" using g by (auto split: option.splits prod.splits sum.splits dest: groupIDsFor_reads)
  have quiet: "calls s s []" by (simp add: calls_def)
  show ?thesis
  proof (cases "ValidUsername (b_Username b)")
    case False
    then show ?thesis using quiet by (intro exI [of _ "[]"]) (simp add: createAndConverge_def ran_error create_calls_def)
  next
    case valid: True
    show ?thesis
    proof (cases g)
      case (Inl e)
      then show ?thesis using g valid calls_reads [OF r1] by (intro exI [of _ "[]"]) (simp add: createAndConverge_def ran_error create_calls_def)
    next
      case (Inr ids)
      then have "createAndConverge env H req d b s = create_with env H req d b ids s1" using g valid by (simp add: createAndConverge_def)
      then show ?thesis using create_with_ran [of req s1 env H d b ids] ran_after_reads [OF r1] valid by metis
    qed
  qed
qed

lemma subjectWhere_matches:
  assumes "subjectWhere env f s = (Inr (Some u, short), s')"
  shows "subject_matches f u" "systemUIDCeiling \<le> su_UID u"
proof -
  obtain snap where snap: "readSubjectsWhere env f s = (Inr snap, s')" "find (subject_matches f) (sn_Subjects snap) = Some u"
    using assms by (auto simp: subjectWhere_def split: prod.splits sum.splits)
  then show "subject_matches f u" by (auto simp: find_Some_iff)
  have "u \<in> set (sn_Subjects snap)" using snap(2) by (auto simp: find_Some_iff)
  then show "systemUIDCeiling \<le> su_UID u"
    using snap(1) by (auto simp: readSubjectsWhere_def withoutSystemAccounts_def subject_of_def split: prod.splits sum.splits)
qed

lemma subjectWhere_found:
  "subjectWhere env f s = (Inr (Some u, short), s') \<Longrightarrow> subject_matches f u \<and> systemUIDCeiling \<le> su_UID u"
  using subjectWhere_matches by blast

lemma locate_bound_calls: "locate_bound env b s = (r, s') \<Longrightarrow> calls s s' []"
  by (auto simp: locate_bound_def split: prod.splits sum.splits option.splits if_splits
      dest!: subjectWhere_reads intro: calls_reads) (simp_all add: calls_def reads_only_def)

lemma locate_calls: "locate env H subject email s = (r, s') \<Longrightarrow> calls s s' []"
  by (auto simp: locate_def Let_def split: prod.splits sum.splits option.splits if_splits
      dest!: subjectWhere_reads intro: calls_reads locate_bound_calls)

text \<open>The account found is the one bound: by its number where the binding has one of the add-on's own, by its name otherwise.\<close>

definition bound_account :: "'z nas_env \<Rightarrow> bindings \<Rightarrow> string \<Rightarrow> subject \<Rightarrow> bool" where
  "bound_account env bs subject u \<longleftrightarrow> systemUIDCeiling \<le> su_UID u \<and>
     (case map_of bs subject of
        None \<Rightarrow> False
      | Some b \<Rightarrow> if in_range env (b_UID b) then su_UID u = b_UID b else su_Username u = b_Username b)"

text \<open>The name of an account that is to be made: the bound one, or one derived; and a complete read showed none.\<close>

definition free_name :: "'z nas_env \<Rightarrow> (string \<Rightarrow> string) \<Rightarrow> bindings \<Rightarrow> string \<Rightarrow> string \<Rightarrow> string \<Rightarrow> bool" where
  "free_name env H bs subject email name \<longleftrightarrow>
     name = (case map_of bs subject of Some b \<Rightarrow> b_Username b | None \<Rightarrow> DeriveUsername H email subject (name_claimed (BoundUsernames bs) subject)) \<and>
     (\<exists>s s'. subjectWhere env (ByName name) s = (Inr (None, False), s'))"

lemma locate_found: "locate env H subject email s = (LFound u, s') \<Longrightarrow> bound_account env (ns_bindings s) subject u"
  by (auto simp: locate_def locate_bound_def Let_def bound_account_def subject_matches_def
      split: prod.splits sum.splits option.splits if_splits dest!: subjectWhere_found)

lemma locate_absent:
  "locate env H subject email s = (LAbsent b False, s') \<Longrightarrow> free_name env H (ns_bindings s) subject email (b_Username b)"
  by (auto simp: locate_def locate_bound_def Let_def free_name_def new_binding_def split: prod.splits sum.splits option.splits if_splits) blast+

lemma ran_remember [simp]: "ran req s (rememberWantedSMB env subject d res) ws \<longleftrightarrow> ran req s res ws"
  by (auto simp: rememberWantedSMB_def ran_def truthful_def put_binding_def split: prod.splits sum.splits option.splits)

lemma ran_after_locate: "calls a b [] \<Longrightarrow> ran req b res ws \<Longrightarrow> ran req a res ws"
  by (auto simp: ran_def truthful_def calls_def split: sum.splits prod.splits)

lemma decide_homeRoot [simp]: "decide x (d\<lparr>dd_homeRoot := r\<rparr>) h = decide x d h"
  by (cases x) (simp_all add: decide_def managed_def)

lemma carries_homeRoot [simp]: "carries env (d\<lparr>dd_homeRoot := r\<rparr>) u up \<longleftrightarrow> carries env d u up"
  by (simp add: carries_def)

lemma decodeDesired_fields:
  assumes "decodeDesired env raw s = Inr d"
  obtains d0 r where "decodeDesiredFields raw no_desired = Inr d0" "d = d0 \<or> d = d0\<lparr>dd_homeRoot := r\<rparr>"
  using assms by (auto simp: decodeDesired_def split: sum.splits if_splits)

text \<open>What the calls of an apply are, by what it found.\<close>

definition calls_for :: "'z nas_env \<Rightarrow> (string \<Rightarrow> string) \<Rightarrow> apply_request \<Rightarrow> located \<Rightarrow> nas_write list \<Rightarrow> bool" where
  "calls_for env H req l ws \<longleftrightarrow>
     (case l of
        LFound u \<Rightarrow>
          aq_Fingerprint req = fingerprintSubject H (Some u) \<and> list_all (own_write u) ws \<and>
          (\<exists>d. decodeDesiredFields (aq_Desired req) no_desired = Inr d \<and> (\<forall>i up. WUpdate i up \<in> set ws \<longrightarrow> carries env d u up))
      | LAbsent b short \<Rightarrow>
          \<not> short \<and> aq_Fingerprint req = fingerprintSubject H None \<and> ValidUsername (b_Username b) \<and> create_calls env (b_Username b) ws
      | _ \<Rightarrow> False)"

lemma apply_calls:
  assumes l: "locate env H (aq_Subject req) (aq_Email req) s = (l, s1)"
  shows "\<exists>ws. ran req s (applyOne env H req s) ws \<and> (ws = [] \<or> calls_for env H req l ws)"
proof (cases "decodeDesired env (aq_Desired req) s")
  case (Inl e)
  then show ?thesis by (intro exI [of _ "[]"]) (simp add: applyOne_def ran_error calls_def)
next
  case d: (Inr d)
  obtain d0 r where d0: "decodeDesiredFields (aq_Desired req) no_desired = Inr d0" "d = d0 \<or> d = d0\<lparr>dd_homeRoot := r\<rparr>"
    using decodeDesired_fields [OF d] .
  note c1 = locate_calls [OF l]
  have quiet: "ran req s (Inl e, st, s1) []" "oc_Effect x \<noteq> EffectApplied \<Longrightarrow> ran req s (Inr x, st, s1) []" for e x st
    using c1 by (simp_all add: ran_error ran_quiet)
  show ?thesis
  proof (cases l)
    case u: (LFound u)
    obtain ws where ws: "ran req s (converge env H req d u s1) ws" "list_all (own_write u) ws" "\<forall>i up. WUpdate i up \<in> set ws \<longrightarrow> carries env d u up"
      using converge_ran ran_after_locate [OF c1] by metis
    show ?thesis
    proof (cases "aq_Fingerprint req = fingerprintSubject H (Some u)")
      case True
      then show ?thesis using d l u ws d0 by (intro exI [of _ ws]) (auto simp: applyOne_def calls_for_def)
    next
      case False
      then show ?thesis using d l u by (intro exI [of _ "[]"]) (simp add: applyOne_def quiet)
    qed
  next
    case b: (LAbsent b short)
    obtain ws where ws: "ran req s (createAndConverge env H req d b s1) ws" "create_calls env (b_Username b) ws" "ws \<noteq> [] \<longrightarrow> ValidUsername (b_Username b)"
      using createAndConverge_ran ran_after_locate [OF c1] by metis
    show ?thesis
    proof (cases "aq_Fingerprint req = fingerprintSubject H None \<and> \<not> short")
      case True
      then show ?thesis using d l b ws by (intro exI [of _ ws]) (auto simp: applyOne_def calls_for_def)
    next
      case False
      then show ?thesis using d l b by (intro exI [of _ "[]"]) (auto simp: applyOne_def quiet)
    qed
  qed (insert d l, auto intro!: exI [of _ "[]"] simp: applyOne_def quiet)
qed

text \<open>
  C14. An apply never touches anybody else's account. Whatever the NAS answers, the calls an apply makes are
  none at all; or, when the account the subject is bound to still is as the caller's fingerprint says,
  updates of that record that never carry a password and never switch SMB on, and the storage limit of its
  uid; or, when the caller's fingerprint says there is no account and a complete read showed none of that
  name, the creation of one under a valid name with a number of the add-on's own range, undoing only a group
  it made itself. The answer says applied exactly when a call was made, and then one event is in the log.
\<close>

theorem apply_touches_only_its_own:
  "case applyOne env H req s of (out, status, s') \<Rightarrow>
     \<exists>ws. ns_writes s' = ns_writes s @ ws \<and> truthful req out ws s s' \<and>
       (ws = [] \<or>
        (\<exists>u. bound_account env (ns_bindings s) (aq_Subject req) u \<and> aq_Fingerprint req = fingerprintSubject H (Some u) \<and> list_all (own_write u) ws) \<or>
        (\<exists>name. free_name env H (ns_bindings s) (aq_Subject req) (aq_Email req) name \<and> aq_Fingerprint req = fingerprintSubject H None \<and>
           ValidUsername name \<and> create_calls env name ws))"
proof -
  obtain out status s' where res: "applyOne env H req s = (out, status, s')" by (rule prod_cases3)
  obtain l s1 where l: "locate env H (aq_Subject req) (aq_Email req) s = (l, s1)" by (rule prod.exhaust)
  obtain ws where ws: "ran req s (applyOne env H req s) ws" "ws = [] \<or> calls_for env H req l ws" using apply_calls [OF l] by blast
  have "ns_writes s' = ns_writes s @ ws \<and> truthful req out ws s s'" using ws(1) res by (simp add: ran_def)
  moreover have "ws = [] \<or>
        (\<exists>u. bound_account env (ns_bindings s) (aq_Subject req) u \<and> aq_Fingerprint req = fingerprintSubject H (Some u) \<and> list_all (own_write u) ws) \<or>
        (\<exists>name. free_name env H (ns_bindings s) (aq_Subject req) (aq_Email req) name \<and> aq_Fingerprint req = fingerprintSubject H None \<and>
           ValidUsername name \<and> create_calls env name ws)"
    using ws(2) l locate_found [of env H] locate_absent [of env H] by (cases l) (auto simp: calls_for_def)
  ultimately show ?thesis using res by auto
qed

section \<open>What was planned is what is written\<close>

lemma bool_text_inj [simp]: "bool_text a = bool_text b \<longleftrightarrow> a = b"
  by (simp add: bool_text_def)

lemma subject_fields_eq:
  "subject_fields (Some u) = subject_fields (Some v) \<longleftrightarrow>
     su_Username u = su_Username v \<and> su_UID u = su_UID v \<and> su_Enabled u = su_Enabled v \<and> su_SMBEnabled u = su_SMBEnabled v \<and>
     mset (su_Groups u) = mset (su_Groups v)"
  by (simp add: subject_fields_def sort_eq_iff_mset)

lemma subject_fields_absent [simp]: "subject_fields (Some u) \<noteq> subject_fields None"
  by (simp add: subject_fields_def)

lemma sameSet_mset: "sameSet a b \<longleftrightarrow> mset a = mset b"
  by (auto simp: sameSet_def sort_eq_iff_mset dest: mset_eq_length)

lemma decide_fingerprint: "subject_fields (Some u) = subject_fields (Some v) \<Longrightarrow> decide (Some u) d h = decide (Some v) d h"
  by (simp add: subject_fields_eq decide_def sameSet_mset)

text \<open>The account an apply finds, none when it halts or fails before it found one.\<close>

definition found_account :: "'z nas_env \<Rightarrow> (string \<Rightarrow> string) \<Rightarrow> apply_request \<Rightarrow> 'z nas_server \<Rightarrow> subject option" where
  "found_account env H req s =
     (case fst (locate env H (aq_Subject req) (aq_Email req) s) of LFound u \<Rightarrow> Some u | _ \<Rightarrow> None)"

text \<open>The update carries a decision: its lock, its SMB, the ids of its groups beside the built-in ones of the account.\<close>

definition carries_change :: "'z nas_env \<Rightarrow> nas_change \<Rightarrow> subject \<Rightarrow> user_update \<Rightarrow> bool" where
  "carries_change env c now up \<longleftrightarrow>
     uu_Locked up = ch_locked c \<and> uu_SMB up = (if ch_smbOff c then Some False else None) \<and>
     (case ch_groups c of
        None \<Rightarrow> uu_Groups up = None
      | Some gs \<Rightarrow> \<exists>s1 ids s2. groupIDsFor env gs s1 = (Inr ids, s2) \<and> uu_Groups up = Some (ids @ su_Builtin now))"

lemma carries_decide: "carries env d u up \<longleftrightarrow> carries_change env (decide (Some u) d no_home) u up"
  by (simp add: carries_def carries_change_def Let_def)

lemma plan_existing_says:
  assumes "plan_existing env H preq d u s = (p, s')"
  shows "oc_Fingerprint p = fingerprintSubject H (Some u)" "oc_Username p = su_Username u"
    "oc_Effect p = EffectApply \<Longrightarrow> \<exists>home. oc_Consequence p = describeHolding (applyTo (decide (Some u) d home) u)"
  using assms by (auto simp: plan_existing_def Let_def blank_outcome_def effects split: prod.splits sum.splits if_splits)

lemma planOne_existing:
  assumes plan: "planOne env H preq subjects claimed short s = (p, s')" and effect: "oc_Effect p = EffectApply"
    and b: "map_of (ns_bindings s) (pq_Subject preq) = Some b" and u: "find (\<lambda>u. su_Username u = b_Username b) (rev subjects) = Some u"
  obtains d where "decodeDesired env (pq_Desired preq) s = Inr d" "plan_existing env H preq d u s = (p, s')"
  using plan effect by (auto simp: planOne_def Let_def b u blank_outcome_def effects split: sum.splits if_splits)

lemma carries_change_home: "carries_change env (decide (Some u) d home) now up \<longleftrightarrow> carries_change env (decide (Some u) d no_home) now up"
  by (cases home) (simp add: carries_change_def)

lemma applyTo_homeRoot [simp]: "decodeDesired env raw s = Inr d \<Longrightarrow> decodeDesiredFields raw no_desired = Inr d0 \<Longrightarrow> decide x d h = decide x d0 h"
  by (auto elim!: decodeDesired_fields)

end
