(* ===== verification/Nas_Target.thy ===== *)
theory Nas_Target
  imports Nas_Calls
begin

text \<open>
  The convergence of \<^verbatim>\<open>addons/truenas/apply.go\<close> on a NAS that does what its calls say: a query
  answers what it holds, an update of a record changes the fields it carries and no other
  record, and a storage limit changes no account. \<open>accts\<close> and \<open>grps\<close> are what the NAS holds.
\<close>

section \<open>A target that does what its calls say\<close>

definition user_matches :: "user_filter \<Rightarrow> nas_user \<Rightarrow> bool" where
  "user_matches f x = (case f of AllUsers \<Rightarrow> True | ByName n \<Rightarrow> nu_Username x = n | ByUID n \<Rightarrow> nu_UID x = n)"

definition updated :: "user_update \<Rightarrow> nas_user \<Rightarrow> nas_user" where
  "updated up x =
     x\<lparr>nu_Locked := (case uu_Locked up of None \<Rightarrow> nu_Locked x | Some l \<Rightarrow> l),
       nu_SMB := (case uu_SMB up of None \<Rightarrow> nu_SMB x | Some b \<Rightarrow> b),
       nu_PasswordDisabled := (nu_PasswordDisabled x \<and> \<not> uu_Password up),
       nu_Groups := (case uu_Groups up of None \<Rightarrow> nu_Groups x | Some gs \<Rightarrow> gs),
       nu_Home := (case uu_Home up of None \<Rightarrow> nu_Home x | Some p \<Rightarrow> p)\<rparr>"

definition holds_same :: "('z \<Rightarrow> nas_user list) \<Rightarrow> ('z \<Rightarrow> nas_group list) \<Rightarrow> 'z \<Rightarrow> 'z \<Rightarrow> bool" where
  "holds_same accts grps z z' \<longleftrightarrow> accts z' = accts z \<and> grps z' = grps z"

definition reads_hold :: "'z nas_env \<Rightarrow> ('z \<Rightarrow> nas_user list) \<Rightarrow> ('z \<Rightarrow> nas_group list) \<Rightarrow> bool" where
  "reads_hold env accts grps \<longleftrightarrow>
     (\<forall>f n z. case user_query env f n z of (r, z') \<Rightarrow> holds_same accts grps z z' \<and>
        (case r of Inl _ \<Rightarrow> True | Inr us \<Rightarrow> us = take n (filter (user_matches f) (accts z)))) \<and>
     (\<forall>n z. case group_query env n z of (r, z') \<Rightarrow> holds_same accts grps z z' \<and> (case r of Inl _ \<Rightarrow> True | Inr gs \<Rightarrow> gs = take n (grps z))) \<and>
     (\<forall>p z. holds_same accts grps z (snd (stat_owner env p z))) \<and>
     (\<forall>z. holds_same accts grps z (snd (acl_places env z))) \<and>
     (\<forall>ds uid z. holds_same accts grps z (snd (get_quota env ds uid z)))"

definition writes_hold :: "'z nas_env \<Rightarrow> ('z \<Rightarrow> nas_user list) \<Rightarrow> ('z \<Rightarrow> nas_group list) \<Rightarrow> bool" where
  "writes_hold env accts grps \<longleftrightarrow>
     (\<forall>i up z. case nas_write env (WUpdate i up) z of (Inl _, _) \<Rightarrow> True
        | (Inr _, z') \<Rightarrow> grps z' = grps z \<and> accts z' = map (\<lambda>x. if nu_ID x = i then updated up x else x) (accts z)) \<and>
     (\<forall>ds uid n z. holds_same accts grps z (snd (nas_write env (WQuota ds uid n) z)))"

text \<open>Keys are keys: no two accounts or groups share an id or a name.\<close>

definition tidy :: "nas_user list \<Rightarrow> nas_group list \<Rightarrow> bool" where
  "tidy us gs \<longleftrightarrow> distinct (map nu_ID us) \<and> distinct (map nu_Username us) \<and> distinct (map nu_UID us) \<and>
     distinct (map ng_ID gs) \<and> distinct (map ng_Name gs)"

definition same_target :: "('z \<Rightarrow> nas_user list) \<Rightarrow> ('z \<Rightarrow> nas_group list) \<Rightarrow> 'z nas_server \<Rightarrow> 'z nas_server \<Rightarrow> bool" where
  "same_target accts grps s s' \<longleftrightarrow> holds_same accts grps (ns_z s) (ns_z s')"

lemma same_target_refl [simp]: "same_target accts grps s s"
  by (simp add: same_target_def holds_same_def)

lemma same_target_trans: "same_target accts grps a b \<Longrightarrow> same_target accts grps b c \<Longrightarrow> same_target accts grps a c"
  by (simp add: same_target_def holds_same_def)

lemma same_target_store [simp]:
  "same_target accts grps s (put_binding env b t) \<longleftrightarrow> same_target accts grps s t"
  "same_target accts grps s (record_event op req t) \<longleftrightarrow> same_target accts grps s t"
  by (simp_all add: same_target_def put_binding_def record_event_def)

lemma ask_same: "ask f s = (r, s') \<Longrightarrow> (\<And>z. holds_same accts grps z (snd (f z))) \<Longrightarrow> same_target accts grps s s'"
  by (auto simp: ask_def same_target_def split: prod.splits) (metis snd_conv)

lemma user_query_holds:
  assumes "reads_hold env accts grps" "ask (user_query env f n) s = (r, s')"
  shows "same_target accts grps s s'" "\<And>us. r = Inr us \<Longrightarrow> us = take n (filter (user_matches f) (accts (ns_z s)))"
proof -
  have "case user_query env f n (ns_z s) of (r, z') \<Rightarrow> holds_same accts grps (ns_z s) z' \<and>
      (case r of Inl _ \<Rightarrow> True | Inr us \<Rightarrow> us = take n (filter (user_matches f) (accts (ns_z s))))"
    by (rule conjunct1 [OF assms(1) [unfolded reads_hold_def], rule_format])
  then show "same_target accts grps s s'" "\<And>us. r = Inr us \<Longrightarrow> us = take n (filter (user_matches f) (accts (ns_z s)))"
    using assms(2) by (auto simp: ask_def same_target_def split: prod.splits)
qed

lemma group_query_holds:
  assumes "reads_hold env accts grps" "ask (group_query env n) s = (r, s')"
  shows "same_target accts grps s s'" "\<And>gs. r = Inr gs \<Longrightarrow> gs = take n (grps (ns_z s))"
proof -
  have "case group_query env n (ns_z s) of (r, z') \<Rightarrow> holds_same accts grps (ns_z s) z' \<and> (case r of Inl _ \<Rightarrow> True | Inr gs \<Rightarrow> gs = take n (grps (ns_z s)))"
    by (rule conjunct1 [OF conjunct2 [OF assms(1) [unfolded reads_hold_def]], rule_format])
  then show "same_target accts grps s s'" "\<And>gs. r = Inr gs \<Longrightarrow> gs = take n (grps (ns_z s))"
    using assms(2) by (auto simp: ask_def same_target_def split: prod.splits)
qed

text \<open>The groups of the target as a read of them gives them.\<close>

lemma readGroups_holds:
  assumes "reads_hold env accts grps" "readGroups env s = (r, s')"
  shows "same_target accts grps s s' \<and> (\<forall>gs. r = Inr gs \<longrightarrow> gs = grps (ns_z s))"
proof -
  obtain q s1 where q: "ask (group_query env (subjectReadCap + 1)) s = (q, s1)" by (rule prod.exhaust)
  show ?thesis
    using assms(2) q group_query_holds [OF assms(1) q] by (auto simp: readGroups_def split: sum.splits if_splits)
qed

lemma groupIndex_holds:
  assumes "reads_hold env accts grps" "groupIndex env s = (r, s')"
  shows "same_target accts grps s s' \<and> (\<forall>gi. r = Inr gi \<longrightarrow> gi = index_groups (grps (ns_z s)))"
  using assms(2) by (auto simp: groupIndex_def split: prod.splits sum.splits dest!: readGroups_holds [OF assms(1)])

lemma readSubjectsWhere_holds:
  assumes "reads_hold env accts grps" "readSubjectsWhere env f s = (r, s')"
  shows "same_target accts grps s s'"
    "\<And>snap. r = Inr snap \<Longrightarrow>
       sn_Subjects snap = map (subject_of (ne_self env) (index_groups (grps (ns_z s))))
         (withoutSystemAccounts (take subjectReadCap (filter (user_matches f) (accts (ns_z s)))))"
proof -
  obtain q s1 where q: "ask (user_query env f (subjectReadCap + 1)) s = (q, s1)" by (rule prod.exhaust)
  have h: "same_target accts grps s s1" "\<And>us. q = Inr us \<Longrightarrow> us = take (subjectReadCap + 1) (filter (user_matches f) (accts (ns_z s)))"
    using user_query_holds [OF assms(1) q] by blast+
  obtain g s2 where g: "groupIndex env s1 = (g, s2)" by (rule prod.exhaust)
  have gh: "same_target accts grps s s2" "\<And>gi. g = Inr gi \<Longrightarrow> gi = index_groups (grps (ns_z s))"
    using groupIndex_holds [OF assms(1) g] h(1) by (auto simp: same_target_def holds_same_def)
  show "same_target accts grps s s'" using assms(2) q g h(1) gh(1) by (auto simp: readSubjectsWhere_def split: sum.splits)
  show "sn_Subjects snap = map (subject_of (ne_self env) (index_groups (grps (ns_z s))))
         (withoutSystemAccounts (take subjectReadCap (filter (user_matches f) (accts (ns_z s)))))" if r: "r = Inr snap" for snap
    using assms(2) q g h(2) gh(2) r by (auto simp: readSubjectsWhere_def split: sum.splits)
qed

lemma find_in: "find P xs = Some x \<Longrightarrow> x \<in> set xs \<and> P x"
  by (auto simp: find_Some_iff)

lemma subjectWhere_holds:
  assumes "reads_hold env accts grps" "subjectWhere env f s = (r, s')"
  shows "same_target accts grps s s' \<and>
     (\<forall>u short. r = Inr (Some u, short) \<longrightarrow> subject_matches f u \<and> (\<exists>x\<in>set (accts (ns_z s)). u = subject_of (ne_self env) (index_groups (grps (ns_z s))) x))"
proof -
  obtain q s1 where q: "readSubjectsWhere env f s = (q, s1)" by (rule prod.exhaust)
  note h = readSubjectsWhere_holds [OF assms(1) q]
  show ?thesis
  proof (cases q)
    case (Inl e)
    then show ?thesis using assms(2) q h(1) by (auto simp: subjectWhere_def)
  next
    case snap: (Inr snap)
    have r: "r = Inr (find (subject_matches f) (sn_Subjects snap), sn_Truncated snap)" "s' = s1"
      using assms(2) q snap by (auto simp: subjectWhere_def)
    have "\<exists>x\<in>set (accts (ns_z s)). u = subject_of (ne_self env) (index_groups (grps (ns_z s))) x" if u: "u \<in> set (sn_Subjects snap)" for u
      using u unfolding h(2) [OF snap] by (auto simp: withoutSystemAccounts_def dest!: in_set_takeD)
    then show ?thesis using r h(1) find_in [of "subject_matches f" "sn_Subjects snap"] by simp
  qed
qed

lemma readBack_holds:
  assumes "reads_hold env accts grps" "readBack env n s = (r, s')"
  shows "same_target accts grps s s' \<and>
     (\<forall>u. r = Inr u \<longrightarrow> su_Username u = n \<and> (\<exists>x\<in>set (accts (ns_z s)). u = subject_of (ne_self env) (index_groups (grps (ns_z s))) x))"
proof -
  obtain q s1 where q: "subjectWhere env (ByName n) s = (q, s1)" by (rule prod.exhaust)
  have "s' = s1" "\<And>u. r = Inr u \<Longrightarrow> \<exists>short. q = Inr (Some u, short)"
    using assms(2) q by (simp_all add: readBack_def split: sum.splits prod.splits option.splits)
  then show ?thesis using subjectWhere_holds [OF assms(1) q] by (fastforce simp: subject_matches_def)
qed

lemma groupIDsFor_holds:
  assumes "reads_hold env accts grps" "groupIDsFor env names s = (r, s')"
  shows "same_target accts grps s s' \<and> (\<forall>ids. r = Inr ids \<longrightarrow> ids_for (index_groups (grps (ns_z s))) names = Inr ids)"
  using assms(2) by (auto simp: groupIDsFor_def split: if_splits prod.splits sum.splits dest!: groupIndex_holds [OF assms(1)])

lemma decideHome_holds:
  assumes "reads_hold env accts grps" "decideHome env d n h uid s = (r, s')"
  shows "same_target accts grps s s'"
proof -
  have st: "\<And>p z. holds_same accts grps z (snd (stat_owner env p z))" using assms(1) by (simp add: reads_hold_def)
  show ?thesis
    using assms(2) by (auto simp: decideHome_def Let_def split: if_splits prod.splits sum.splits nas_error.splits dest!: ask_same [OF _ st])
qed

lemma convergeQuota_holds:
  assumes "reads_hold env accts grps" "writes_hold env accts grps" "convergeQuota env d h uid s = (r, s')"
  shows "same_target accts grps s s'"
proof -
  have r: "\<And>z. holds_same accts grps z (snd (acl_places env z))" "\<And>ds uid z. holds_same accts grps z (snd (get_quota env ds uid z))"
    using assms(1) by (simp_all add: reads_hold_def)
  have w: "same_target accts grps t t'" if "do_write env (WQuota ds uid n) t = (q, t')" for ds uid n t q t'
    using that assms(2) by (auto simp: do_write_def ask_def writes_hold_def same_target_def split: prod.splits) (metis snd_conv)
  have q: "same_target accts grps t t'" if "quotaOwed env d h uid t = (q, t')" for t q t'
    using that by (auto simp: quotaOwed_def homePlaces_def Let_def split: if_splits prod.splits sum.splits
        dest!: ask_same [OF _ r(1)] ask_same [OF _ r(2)] intro: same_target_trans)
  show ?thesis
    using assms(3) by (auto simp: convergeQuota_def split: prod.splits sum.splits if_splits dest!: w q intro: same_target_trans)
qed

section \<open>Groups by name and by id\<close>

lemma map_of_keyed_fold:
  "distinct (map k gs) \<Longrightarrow> map_of (fold (\<lambda>g m. AList.update (k g) (v g) m) gs m0) = map_of m0 ++ map_of (map (\<lambda>g. (k g, v g)) gs)"
  by (induction gs arbitrary: m0) (simp_all add: update_conv' map_add_upd_left dom_map_of_conv_image_fst image_image)

lemma byID_index:
  "distinct (map ng_ID gs) \<Longrightarrow> map_of (gi_byID (index_groups gs)) i = Some n \<longleftrightarrow> (\<exists>g\<in>set gs. ng_ID g = i \<and> ng_Name g = n)"
  by (auto simp: index_groups_def map_of_keyed_fold o_def intro!: map_of_is_SomeI dest!: map_of_SomeD)

lemma byName_index:
  "distinct (map ng_Name gs) \<Longrightarrow> map_of (gi_byName (index_groups gs)) n = Some i \<longleftrightarrow> (\<exists>g\<in>set gs. ng_Name g = n \<and> ng_ID g = i)"
  by (auto simp: index_groups_def map_of_keyed_fold o_def intro!: map_of_is_SomeI dest!: map_of_SomeD)

lemma ids_for_names:
  assumes "tidy us gs" "ids_for (index_groups gs) names = Inr ids"
  shows "map (map_of (gi_byID (index_groups gs))) ids = map Some names \<and> (\<forall>n\<in>set names. n \<notin> set (gi_builtin (index_groups gs)))"
proof -
  have d: "distinct (map ng_ID gs)" "distinct (map ng_Name gs)" using assms(1) by (auto simp: tidy_def)
  have inv: "map_of (gi_byName (index_groups gs)) n = Some i \<Longrightarrow> map_of (gi_byID (index_groups gs)) i = Some n" for n i
    using byID_index [OF d(1)] byName_index [OF d(2)] by blast
  show ?thesis using assms(2)
    by (induction names arbitrary: ids) (auto simp: inv split: if_splits option.splits sum.splits)
qed

section \<open>An update leaves the account as decided\<close>

text \<open>A folder a machine has for accounts without one reads as none.\<close>

definition homed :: "subject \<Rightarrow> subject" where
  "homed u = u\<lparr>su_Home := homeOf (su_Home u)\<rparr>"

lemma homeOf_idem [simp]: "homeOf (homeOf p) = homeOf p"
  by (simp add: homeOf_def)

lemma homed_subject_of [simp]: "homed (subject_of self gi x) = subject_of self gi x"
  by (simp add: homed_def subject_of_def)

lemma map_filter_Some: "map f xs = map Some ys \<Longrightarrow> List.map_filter f xs = ys"
  by (induction xs arbitrary: ys) (auto simp: map_filter_simps)

lemma groups_updated:
  assumes t: "tidy us gs" and ids: "ids_for (index_groups gs) names = Inr ids"
    and u: "u = subject_of self (index_groups gs) x"
  shows "su_Groups (subject_of self (index_groups gs) (x\<lparr>nu_Groups := ids @ su_Builtin u\<rparr>)) = names"
    "su_Builtin (subject_of self (index_groups gs) (x\<lparr>nu_Groups := ids @ su_Builtin u\<rparr>)) = su_Builtin u"
proof -
  let ?gi = "index_groups gs"
  have n: "map (map_of (gi_byID ?gi)) ids = map Some names" "\<forall>n\<in>set names. n \<notin> set (gi_builtin ?gi)"
    using ids_for_names [OF t ids] by auto
  have own: "\<exists>n. map_of (gi_byID ?gi) i = Some n \<and> n \<in> set (gi_builtin ?gi)" if "i \<in> set (su_Builtin u)" for i
    using that by (auto simp: u subject_of_def split: option.splits)
  have new: "\<exists>n. map_of (gi_byID ?gi) i = Some n \<and> n \<notin> set (gi_builtin ?gi)" if "i \<in> set ids" for i
  proof -
    have "map_of (gi_byID ?gi) i \<in> set (map Some names)" using that unfolding n(1) [symmetric] by simp
    then show ?thesis using n(2) by auto
  qed
  have "filter (\<lambda>n. n \<notin> set (gi_builtin ?gi)) (List.map_filter (map_of (gi_byID ?gi)) (su_Builtin u)) = []"
    using own by (fastforce simp: List.map_filter_def filter_empty_conv)
  then show "su_Groups (subject_of self ?gi (x\<lparr>nu_Groups := ids @ su_Builtin u\<rparr>)) = names"
    using n map_filter_Some [OF n(1)] by (simp add: subject_of_def List.map_filter_def)
  show "su_Builtin (subject_of self ?gi (x\<lparr>nu_Groups := ids @ su_Builtin u\<rparr>)) = su_Builtin u"
    using own new by (fastforce simp: subject_of_def filter_id_conv filter_empty_conv split: option.splits)
qed

lemma subject_updated:
  assumes t: "tidy us gs" and u: "u = subject_of self (index_groups gs) x" and c: "c = decide (Some u) d home"
    and ids: "case ch_groups c of None \<Rightarrow> ids = None | Some names \<Rightarrow> \<exists>is. ids_for (index_groups gs) names = Inr is \<and> ids = Some (is @ su_Builtin u)"
  shows "subject_of self (index_groups gs) (updated (build_update c ids) x) = homed (applyTo c u)"
proof (cases "ch_groups c")
  case None
  then show ?thesis
    using ids by (cases self; cases "ch_locked c") (auto simp: updated_def build_update_def applyTo_def homed_def u subject_of_def)
next
  case (Some names)
  then obtain "is" where i: "ids_for (index_groups gs) names = Inr is" "ids = Some (is @ su_Builtin u)" using ids by auto
  have g: "filter (\<lambda>n. n \<notin> set (gi_builtin (index_groups gs))) (List.map_filter (map_of (gi_byID (index_groups gs))) (is @ su_Builtin u)) = names"
    "filter (\<lambda>i. case map_of (gi_byID (index_groups gs)) i of None \<Rightarrow> False | Some n \<Rightarrow> n \<in> set (gi_builtin (index_groups gs))) (is @ su_Builtin u) = su_Builtin u"
    using groups_updated [OF t i(1) u] by (simp_all add: subject_of_def)
  then show ?thesis
    using Some i(2) by (cases self; cases "ch_locked c") (auto simp: updated_def build_update_def applyTo_def homed_def subject_of_def u simp del: filter_append)
qed

lemma applyTo_nothing: "\<not> change_writes c \<Longrightarrow> applyTo c u = u"
  by (auto simp: change_writes_def applyTo_def)

lemma nothing_left: "\<not> change_writes (decide (Some (homed (applyTo (decide (Some u) d home) u))) d no_home)"
  by (auto simp: change_writes_def decide_def applyTo_def homed_def no_home_def sameSet_mset)

lemma locate_holds:
  assumes "reads_hold env accts grps" "locate env H subject email s = (LFound u, s')"
  shows "same_target accts grps s s'" "\<exists>x\<in>set (accts (ns_z s)). u = subject_of (ne_self env) (index_groups (grps (ns_z s))) x"
proof -
  obtain b where b: "locate_bound env b s = (LFound u, s')"
    using assms(2) by (auto simp: locate_def Let_def split: if_splits option.splits prod.splits sum.splits)
  obtain q s1 where q: "subjectWhere env (ByName (b_Username b)) s = (q, s1)" by (rule prod.exhaust)
  obtain q' s2 where q': "subjectWhere env (ByUID (b_UID b)) s1 = (q', s2)" by (rule prod.exhaust)
  note h = subjectWhere_holds [OF assms(1) q] subjectWhere_holds [OF assms(1) q']
  have same: "accts (ns_z s1) = accts (ns_z s)" "grps (ns_z s1) = grps (ns_z s)" using h(1) by (simp_all add: same_target_def holds_same_def)
  consider (name) short where "q = Inr (Some u, short)" "same_target accts grps s1 s'"
    | (uid) short where "q' = Inr (Some u, short)" "same_target accts grps s2 s'"
    using b q q' by (auto simp: locate_bound_def split: if_splits option.splits prod.splits sum.splits)
  then show "same_target accts grps s s'" "\<exists>x\<in>set (accts (ns_z s)). u = subject_of (ne_self env) (index_groups (grps (ns_z s))) x"
    using h same by (cases; auto intro: same_target_trans)+
qed

text \<open>The outcome of a convergence on the account \<open>y\<close>: \<open>y'\<close> in its place, everybody else as they were.\<close>

definition reached ::
  "'z nas_env \<Rightarrow> ('z \<Rightarrow> nas_user list) \<Rightarrow> ('z \<Rightarrow> nas_group list) \<Rightarrow> (string \<Rightarrow> string) \<Rightarrow> 'z nas_server \<Rightarrow> nas_user \<Rightarrow> subject \<Rightarrow> apply_outcome \<Rightarrow> 'z nas_server \<Rightarrow> bool" where
  "reached env accts grps H s y after x s' \<longleftrightarrow>
     grps (ns_z s') = grps (ns_z s) \<and>
     (\<exists>y'. accts (ns_z s') = map (\<lambda>z. if nu_ID z = nu_ID y then y' else z) (accts (ns_z s)) \<and>
        subject_of (ne_self env) (index_groups (grps (ns_z s))) y' = after \<and>
        (oc_Unverified x \<or> oc_Fingerprint x = fingerprintSubject H (Some after)))"

lemma reachedE:
  assumes "reached env accts grps H s y after x s'"
  obtains y' where "grps (ns_z s') = grps (ns_z s)" "accts (ns_z s') = map (\<lambda>z. if nu_ID z = nu_ID y then y' else z) (accts (ns_z s))"
    "subject_of (ne_self env) (index_groups (grps (ns_z s))) y' = after" "oc_Unverified x \<or> oc_Fingerprint x = fingerprintSubject H (Some after)"
  using assms unfolding reached_def by blast

lemma reached_same_target:
  assumes "reached env accts grps H s y after x t"
  shows "same_target accts grps t t' \<Longrightarrow> reached env accts grps H s y after x t'"
    "same_target accts grps s0 s \<Longrightarrow> reached env accts grps H s0 y after x t"
  using assms by (auto simp: reached_def same_target_def holds_same_def)

lemma same_account_report [simp]:
  "oc_Fingerprint (same_account H req u e dt cq) = fingerprintSubject H (Some u)"
  "oc_Fingerprint ((same_account H req u e dt cq)\<lparr>oc_Observed := v\<rparr>) = fingerprintSubject H (Some u)"
  by (simp_all add: same_account_def)

lemma reached_unchanged:
  assumes t: "tidy (accts (ns_z s)) gs" and y: "y \<in> set (accts (ns_z s))" and s: "same_target accts grps s s'"
    and u: "subject_of (ne_self env) (index_groups (grps (ns_z s))) y = u" and x: "oc_Fingerprint x = fingerprintSubject H (Some u)"
  shows "reached env accts grps H s y u x s'"
proof -
  have "map (\<lambda>z. if nu_ID z = nu_ID y then y else z) (accts (ns_z s)) = accts (ns_z s)"
    using t y by (auto simp: tidy_def distinct_map inj_on_def intro!: map_idI)
  then show ?thesis using s u x by (auto simp: reached_def same_target_def holds_same_def intro!: exI [of _ y])
qed

lemma updated_keys [simp]: "nu_ID (updated up x) = nu_ID x" "nu_Username (updated up x) = nu_Username x"
  by (simp_all add: updated_def)

lemma update_replaces:
  assumes "tidy us gs" "y \<in> set us"
  shows "map (\<lambda>x. if nu_ID x = nu_ID y then updated up x else x) us = map (\<lambda>z. if nu_ID z = nu_ID y then updated up y else z) us"
  using assms by (auto simp: tidy_def distinct_map inj_on_def intro!: map_cong)

text \<open>The account read back by its name is the one in its place.\<close>

lemma read_back_is_it:
  assumes t: "tidy us gs" and y: "y \<in> set us" and y': "nu_Username y' = nu_Username y"
    and w: "w \<in> set (map (\<lambda>z. if nu_ID z = nu_ID y then y' else z) us)" "nu_Username w = nu_Username y"
  shows "w = y'"
  using assms by (auto simp: tidy_def distinct_map inj_on_def)

lemma converge_nothing_reaches:
  assumes h: "reads_hold env accts grps" "writes_hold env accts grps" and t: "tidy (accts (ns_z s)) gs" and y: "y \<in> set (accts (ns_z s))"
    and u: "u = subject_of (ne_self env) (index_groups (grps (ns_z s))) y" and c: "converge_nothing env H req d u c s = (Inr x, st, s')"
  shows "reached env accts grps H s y u x s'"
proof -
  obtain q s1 where q: "convergeQuota env d (su_Home u) (su_UID u) s = (q, s1)" by (rule prod.exhaust)
  have "same_target accts grps s s'" "oc_Fingerprint x = fingerprintSubject H (Some u)"
    using c q convergeQuota_holds [OF h q] by (auto simp: converge_nothing_def split: sum.splits if_splits)
  then show ?thesis using reached_unchanged [of accts s gs y grps s' env u x H] t y u by simp
qed

lemma converge_write_reaches:
  assumes h: "reads_hold env accts grps" "writes_hold env accts grps" and t: "tidy (accts (ns_z s)) (grps (ns_z s))" and y: "y \<in> set (accts (ns_z s))"
    and u: "u = subject_of (ne_self env) (index_groups (grps (ns_z s))) y" and c: "converge_write env H req d u c ids s = (Inr x, st, s')"
    and after: "subject_of (ne_self env) (index_groups (grps (ns_z s))) (updated (build_update c ids) y) = after"
  shows "reached env accts grps H s y after x s'"
proof -
  let ?up = "build_update c ids"
  have id: "su_ID u = nu_ID y" "su_Username u = nu_Username y" by (simp_all add: u subject_of_def)
  obtain w s1 where w: "do_write env (WUpdate (su_ID u) ?up) s = (w, s1)" by (rule prod.exhaust)
  obtain i where i: "w = Inr i" using c w by (cases w) (auto simp: converge_write_def Let_def)
  have "case nas_write env (WUpdate (su_ID u) ?up) (ns_z s) of (Inl _, _) \<Rightarrow> True
      | (Inr _, z') \<Rightarrow> grps z' = grps (ns_z s) \<and> accts z' = map (\<lambda>x. if nu_ID x = su_ID u then updated ?up x else x) (accts (ns_z s))"
    by (rule conjunct1 [OF h(2) [unfolded writes_hold_def], rule_format])
  then have z1: "grps (ns_z s1) = grps (ns_z s)" "accts (ns_z s1) = map (\<lambda>z. if nu_ID z = nu_ID y then updated ?up y else z) (accts (ns_z s))"
    using w i id(1) update_replaces [OF t y] by (auto simp: do_write_def ask_def split: prod.splits sum.splits)
  obtain b s2 where b: "readBack env (su_Username u) s1 = (b, s2)" by (rule prod.exhaust)
  note bh = readBack_holds [OF h(1) b]
  have base: "reached env accts grps H s y after x s1" if "oc_Unverified x \<or> oc_Fingerprint x = fingerprintSubject H (Some after)" for x
    using z1 after that by (auto simp: reached_def)
  show ?thesis
  proof (cases b)
    case (Inl e)
    then have "same_target accts grps s1 s'" "oc_Unverified x" using c w i b bh by (auto simp: converge_write_def Let_def)
    then show ?thesis using base [of x] reached_same_target(1) by blast
  next
    case now: (Inr now)
    obtain q s3 where q: "convergeQuota env d (if hd_path (ch_home c) \<noteq> [] then hd_path (ch_home c) else su_Home u) (su_UID u) s2 = (q, s3)" by (rule prod.exhaust)
    obtain v where v: "v \<in> set (accts (ns_z s1))" "now = subject_of (ne_self env) (index_groups (grps (ns_z s1))) v" "su_Username now = nu_Username y"
      using bh now id(2) by auto
    have "v = updated ?up y" using read_back_is_it [OF t y, of "updated ?up y" v] v z1(2) by (simp add: subject_of_def)
    then have "now = after" using v(2) z1(1) after by simp
    then have "oc_Fingerprint x = fingerprintSubject H (Some after)" "same_target accts grps s1 s'"
      using c w i b now q bh convergeQuota_holds [OF h q] by (auto simp: converge_write_def Let_def split: if_splits intro: same_target_trans)
    then show ?thesis using base [of x] reached_same_target(1) by blast
  qed
qed

lemma converge_reaches:
  assumes h: "reads_hold env accts grps" "writes_hold env accts grps" and t: "tidy (accts (ns_z s)) (grps (ns_z s))" and y: "y \<in> set (accts (ns_z s))"
    and u: "u = subject_of (ne_self env) (index_groups (grps (ns_z s))) y" and c: "converge env H req d u s = (Inr x, st, s')"
  shows "\<exists>home. reached env accts grps H s y (homed (applyTo (decide (Some u) d home) u)) x s'"
proof -
  let ?gids = "case ch_groups (decide (Some u) d no_home) of None \<Rightarrow> (Inr None, s)
      | Some gs \<Rightarrow> (case groupIDsFor env gs s of (Inl e, s1) \<Rightarrow> (Inl e, s1) | (Inr ids, s1) \<Rightarrow> (Inr (Some (ids @ su_Builtin u)), s1))"
  obtain g s1 where g: "?gids = (g, s1)" by (rule prod.exhaust)
  obtain ids where ids: "g = Inr ids" using c g by (cases g) (auto simp: converge_def Let_def)
  obtain hm s2 where hm: "decideHome env d (su_Username u) (su_Home u) (su_UID u) s1 = (hm, s2)" by (rule prod.exhaust)
  obtain home where home: "hm = Inr home" using c g ids hm by (cases hm) (auto simp: converge_def Let_def)
  have gh: "same_target accts grps s s1" "case ch_groups (decide (Some u) d no_home) of None \<Rightarrow> ids = None
      | Some names \<Rightarrow> \<exists>is. ids_for (index_groups (grps (ns_z s))) names = Inr is \<and> ids = Some (is @ su_Builtin u)"
    using g ids by (auto split: option.splits prod.splits sum.splits dest!: groupIDsFor_holds [OF h(1)])
  have s2: "same_target accts grps s s2" using gh(1) decideHome_holds [OF h(1) hm] by (rule same_target_trans)
  then have z2: "accts (ns_z s2) = accts (ns_z s)" "grps (ns_z s2) = grps (ns_z s)" by (simp_all add: same_target_def holds_same_def)
  let ?c = "decide (Some u) d home"
  have res: "(if change_writes ?c then converge_write env H req d u ?c ids s2 else converge_nothing env H req d u ?c s2) = (Inr x, st, s')"
    using c g ids hm home by (simp add: converge_def Let_def)
  have "case ch_groups ?c of None \<Rightarrow> ids = None | Some names \<Rightarrow> \<exists>is. ids_for (index_groups (grps (ns_z s))) names = Inr is \<and> ids = Some (is @ su_Builtin u)"
    using gh(2) by (cases home) simp
  then have after: "subject_of (ne_self env) (index_groups (grps (ns_z s2))) (updated (build_update ?c ids) y) = homed (applyTo ?c u)"
    using subject_updated [OF t u refl] z2(2) by simp
  have "reached env accts grps H s2 y (homed (applyTo ?c u)) x s'"
  proof (cases "change_writes ?c")
    case True
    then show ?thesis using res t y u z2 after converge_write_reaches [OF h, of s2 y u H req d ?c ids x st s'] by simp
  next
    case False
    then have "homed (applyTo ?c u) = u" using u by (simp add: applyTo_nothing)
    then show ?thesis using False res t y u z2 converge_nothing_reaches [OF h, of s2 "grps (ns_z s)" y u H req d ?c x st s'] by simp
  qed
  then show ?thesis using reached_same_target(2) s2 by blast
qed

lemma rememberWantedSMB_same:
  assumes "rememberWantedSMB env subject d res = (out, st, s')"
  obtains s1 where "res = (out, st, s1)" "same_target accts grps s1 s'"
  using assms by (cases res) (auto simp: rememberWantedSMB_def split: if_splits option.splits)

lemma apply_reaches:
  assumes target: "reads_hold env accts grps" "writes_hold env accts grps" "tidy (accts (ns_z s)) (grps (ns_z s))"
    and found: "found_account env H req s = Some u"
    and applied: "applyOne env H req s = (Inr x, status, s')"
  defines "seen \<equiv> subject_of (ne_self env) (index_groups (grps (ns_z s)))"
  shows "\<exists>d home y y'. decodeDesired env (aq_Desired req) s = Inr d \<and> y \<in> set (accts (ns_z s)) \<and> seen y = u \<and>
     grps (ns_z s') = grps (ns_z s) \<and> accts (ns_z s') = map (\<lambda>z. if nu_ID z = nu_ID y then y' else z) (accts (ns_z s)) \<and>
     seen y' = homed (applyTo (decide (Some u) d home) u) \<and> \<not> change_writes (decide (Some (seen y')) d no_home) \<and>
     (oc_Unverified x \<or> oc_Fingerprint x = fingerprintSubject H (Some (seen y')))"
proof -
  obtain s1 where l: "locate env H (aq_Subject req) (aq_Email req) s = (LFound u, s1)"
    using found by (cases "locate env H (aq_Subject req) (aq_Email req) s") (auto simp: found_account_def split: located.splits)
  obtain d where d: "decodeDesired env (aq_Desired req) s = Inr d" using applied by (cases "decodeDesired env (aq_Desired req) s") (auto simp: applyOne_def)
  have "rememberWantedSMB env (aq_Subject req) d (converge env H req d u s1) = (Inr x, status, s')"
    using applied l d by (simp add: applyOne_def split: if_splits)
  then obtain s2 where s2: "converge env H req d u s1 = (Inr x, status, s2)" "same_target accts grps s2 s'" by (rule rememberWantedSMB_same)
  have l1: "same_target accts grps s s1" and y: "\<exists>y\<in>set (accts (ns_z s)). u = seen y"
    using locate_holds [OF target(1) l] by (auto simp: seen_def)
  have z1: "accts (ns_z s1) = accts (ns_z s)" "grps (ns_z s1) = grps (ns_z s)" using l1 by (simp_all add: same_target_def holds_same_def)
  obtain y where y: "y \<in> set (accts (ns_z s))" "u = seen y" using y by blast
  obtain home where "reached env accts grps H s1 y (homed (applyTo (decide (Some u) d home) u)) x s2"
    using converge_reaches [OF target(1,2) _ _ _ s2(1), of y] target(3) y z1 by (auto simp: seen_def)
  then have "reached env accts grps H s y (homed (applyTo (decide (Some u) d home) u)) x s'"
    using reached_same_target l1 s2(2) by blast
  then obtain y' where "grps (ns_z s') = grps (ns_z s)" "accts (ns_z s') = map (\<lambda>z. if nu_ID z = nu_ID y then y' else z) (accts (ns_z s))"
      "seen y' = homed (applyTo (decide (Some u) d home) u)"
      "oc_Unverified x \<or> oc_Fingerprint x = fingerprintSubject H (Some (homed (applyTo (decide (Some u) d home) u)))"
    unfolding seen_def by (rule reachedE)
  then show ?thesis using d y nothing_left by (intro exI [of _ d] exI [of _ home] exI [of _ y] exI [of _ y']) simp
qed

text \<open>
  C11. A convergence leaves the account in the state that was asked for and touches no other. On a NAS that does
  what its calls say, whose keys are keys: when an apply on an account it found answers with an outcome, the
  accounts afterwards are those before with that one account in its place, as the decision leaves it:
  its groups the desired ones beside its built-in ones, its lock and SMB as decided, its home the folder decided,
  and all else of it unchanged. Nothing is left to decide for it, and unless the outcome says it could not be read
  back, the outcome's fingerprint is that of what the NAS now holds, which the next plan will read.
\<close>

theorem apply_reaches_desired:
  assumes target: "reads_hold env accts grps" "writes_hold env accts grps" "tidy (accts (ns_z s)) (grps (ns_z s))"
    and found: "found_account env H req s = Some u"
    and applied: "applyOne env H req s = (Inr x, status, s')"
  defines "seen \<equiv> subject_of (ne_self env) (index_groups (grps (ns_z s)))"
  shows "\<exists>d home y y'. decodeDesired env (aq_Desired req) s = Inr d \<and> y \<in> set (accts (ns_z s)) \<and> seen y = u \<and>
     grps (ns_z s') = grps (ns_z s) \<and> accts (ns_z s') = map (\<lambda>z. if nu_ID z = nu_ID y then y' else z) (accts (ns_z s)) \<and>
     seen y' = homed (applyTo (decide (Some u) d home) u) \<and> \<not> change_writes (decide (Some (seen y')) d no_home) \<and>
     (oc_Unverified x \<or> oc_Fingerprint x = fingerprintSubject H (Some (seen y')))"
  unfolding seen_def by (rule apply_reaches [OF target found applied])

section \<open>The plan and the apply\<close>


text \<open>A NAS of two accounts and two groups that does what its calls say, for the witnesses.\<close>

type_synonym bench = "nas_user list \<times> nas_group list"

definition bench_nas :: "bench nas_env" where
  "bench_nas = \<lparr>ne_floor = 0, ne_ceiling = 0, ne_store = (\<lambda>_. True), ne_self = None,
     user_query = (\<lambda>f n z. (Inr (take n (filter (user_matches f) (fst z))), z)), group_query = (\<lambda>n z. (Inr (take n (snd z)), z)),
     empty_groups = (\<lambda>_ z. (Inr [], z)), highest_uid = (\<lambda>_ _ z. (Inr [], z)), highest_gid = (\<lambda>_ _ z. (Inr [], z)),
     stat_owner = (\<lambda>_ z. (Inl NoSuchPath, z)), acl_places = (\<lambda>z. (Inr [], z)), get_quota = (\<lambda>_ _ z. (Inr [], z)),
     nas_write = (\<lambda>w z. case w of WUpdate i up \<Rightarrow> (Inr i, (map (\<lambda>x. if nu_ID x = i then updated up x else x) (fst z), snd z)) | _ \<Rightarrow> (Inr [], z))\<rparr>"

definition bench_user :: "string \<Rightarrow> string \<Rightarrow> int \<Rightarrow> nas_user" where
  "bench_user i name uid = \<lparr>nu_ID = i, nu_Username = name, nu_UID = uid, nu_Locked = False, nu_SMB = False, nu_PasswordDisabled = True,
     nu_Builtin = False, nu_Groups = [''1''], nu_Home = []\<rparr>"

definition bench_server :: "bench nas_server" where
  "bench_server = \<lparr>ns_bindings = [(''ada'', \<lparr>b_SubjectID = ''ada'', b_Username = ''ada'', b_UID = 200001, b_BoundBy = ''apply'', b_WantsSMB = None\<rparr>)],
     ns_high = None, ns_homeRoot = [], ns_writes = [], ns_log = [],
     ns_z = ([bench_user ''7'' ''ada'' 200001, bench_user ''8'' ''bob'' 200002],
       [\<lparr>ng_ID = ''1'', ng_GID = 300, ng_Name = ''staff'', ng_Builtin = False\<rparr>, \<lparr>ng_ID = ''2'', ng_GID = 301, ng_Name = ''lab'', ng_Builtin = False\<rparr>])\<rparr>"

definition bench_desired :: "(string \<times> fval) list" where
  "bench_desired = [(FieldGroup, FStrings [''lab'']), (FieldEnabled, FBool False)]"

definition bench_plan :: nas_plan_subject where
  "bench_plan = \<lparr>pq_Subject = ''ada'', pq_Email = [], pq_Desired = bench_desired\<rparr>"

definition bench_subject :: "string \<Rightarrow> string \<Rightarrow> int \<Rightarrow> subject" where
  "bench_subject i name uid = \<lparr>su_ID = i, su_Username = name, su_UID = uid, su_Groups = [''staff''], su_Home = [], su_Enabled = True, su_SMBEnabled = False,
     su_PasswordSet = False, su_Self = False, su_Builtin = []\<rparr>"

definition bench_request :: apply_request where
  "bench_request = \<lparr>aq_CallID = ''c'', aq_Subject = ''ada'', aq_Email = [], aq_Fingerprint = fingerprintSubject (\<lambda>x. x) (Some (bench_subject ''7'' ''ada'' 200001)),
     aq_Actor = [], aq_Desired = bench_desired\<rparr>"

lemma bench_groups: "ns_z s = ns_z bench_server \<Longrightarrow> groupIndex bench_nas s =
   (Inr \<lparr>gi_byID = [(''1'', ''staff''), (''2'', ''lab'')], gi_byName = [(''staff'', ''1''), (''lab'', ''2'')], gi_builtin = []\<rparr>, s)"
  by (simp add: groupIndex_def readGroups_def ask_def bench_nas_def bench_server_def subjectReadCap_def index_groups_def)

lemma bench_ada: "subjectWhere bench_nas (ByName ''ada'') bench_server = (Inr (Some (bench_subject ''7'' ''ada'' 200001), False), bench_server)"
proof -
  have "ask (user_query bench_nas (ByName ''ada'') (subjectReadCap + 1)) bench_server = (Inr [bench_user ''7'' ''ada'' 200001], bench_server)"
    by (simp add: ask_def bench_nas_def bench_server_def bench_user_def user_matches_def subjectReadCap_def)
  moreover have "ne_self bench_nas = None" by (simp add: bench_nas_def)
  ultimately show ?thesis
    by (simp add: subjectWhere_def readSubjectsWhere_def bench_groups subjectReadCap_def bench_user_def bench_subject_def withoutSystemAccounts_def
        systemUIDCeiling_def subject_matches_def subject_of_def homeOf_def map_filter_simps)
qed

lemma bench_locate: "locate bench_nas H ''ada'' email bench_server = (LFound (bench_subject ''7'' ''ada'' 200001), bench_server)"
proof -
  have b: "map_of (ns_bindings bench_server) ''ada'' =
      Some \<lparr>b_SubjectID = ''ada'', b_Username = ''ada'', b_UID = 200001, b_BoundBy = ''apply'', b_WantsSMB = None\<rparr>" by (simp add: bench_server_def)
  have "in_range bench_nas 200001" "ne_store bench_nas c" for c
    by (simp_all add: bench_nas_def in_range_def idRange_def defaultIDFloor_def defaultIDCeiling_def)
  then show ?thesis by (simp add: locate_def b locate_bound_def bench_ada) (simp add: bench_subject_def)
qed

definition bench_want :: desired_state where
  "bench_want = \<lparr>dd_groups = [''lab''], dd_enabled = False, dd_smbEnabled = False, dd_wantsHome = False, dd_homeRoot = [],
     dd_homeQuota = 0, dd_homeUnlimited = False, dd_managed = [FieldEnabled, FieldGroup]\<rparr>"

lemma bench_decode: "decodeDesiredFields bench_desired no_desired = Inr bench_want" "decodeDesired env bench_desired s = Inr bench_want"
  by (simp_all add: decodeDesired_def bench_desired_def bench_want_def decode_field_def no_desired_def field_strings_def field_bool_def
      FieldGroup_def FieldEnabled_def)

lemma bench_fields: "managed bench_want FieldGroup" "managed bench_want FieldEnabled" "\<not> managed bench_want FieldHome"
    "\<not> managed bench_want FieldHomeQuota" "\<not> managed bench_want FieldSMBEnabled"
  by (simp_all add: managed_def bench_want_def FieldGroup_def FieldEnabled_def FieldHome_def FieldHomeQuota_def FieldSMBEnabled_def)

lemma bench_decide: "decide (Some (bench_subject i n uid)) bench_want h = \<lparr>ch_groups = Some [''lab''], ch_locked = Some True, ch_smbOff = False, ch_smbPending = False, ch_home = h\<rparr>"
  by (simp add: decide_def bench_fields) (simp add: bench_want_def bench_subject_def sameSet_def)

lemma bench_quiet: "decideHome env bench_want n p uid s = (Inr no_home, s)" "quotaOwed env bench_want p uid s = (Inr ([], 0, False), s)"
  by (simp_all add: decideHome_def quotaOwed_def bench_fields)

lemma bench_planned:
  obtains p where "planOne bench_nas H bench_plan [bench_subject ''7'' ''ada'' 200001] [] False bench_server = (p, bench_server)"
    "oc_Effect p = EffectApply" "oc_Fingerprint p = fingerprintSubject H (Some (bench_subject ''7'' ''ada'' 200001))"
proof -
  have s: "ne_store bench_nas CGetBinding" by (simp add: bench_nas_def)
  have b: "map_of (ns_bindings bench_server) ''ada'' =
      Some \<lparr>b_SubjectID = ''ada'', b_Username = ''ada'', b_UID = 200001, b_BoundBy = ''apply'', b_WantsSMB = None\<rparr>" by (simp add: bench_server_def)
  have n: "su_Username (bench_subject ''7'' ''ada'' 200001) = ''ada''" by (simp add: bench_subject_def)
  have "planOne bench_nas H bench_plan [bench_subject ''7'' ''ada'' 200001] [] False bench_server =
      plan_existing bench_nas H bench_plan bench_want (bench_subject ''7'' ''ada'' 200001) bench_server"
    by (simp add: planOne_def bench_plan_def bench_decode s b n Let_def)
  moreover obtain p where "plan_existing bench_nas H bench_plan bench_want (bench_subject ''7'' ''ada'' 200001) bench_server = (p, bench_server)"
      "oc_Effect p = EffectApply"
    by (simp add: plan_existing_def bench_quiet bench_decide change_writes_def Let_def)
  ultimately show thesis using that plan_existing_says(1) by metis
qed

lemma converge_write_answers:
  "do_write env (WUpdate (su_ID u) (build_update c ids)) s = (Inr i, s1) \<Longrightarrow> \<exists>x s'. converge_write env H req d u c ids s = (Inr x, 200, s')"
  by (auto simp: converge_write_def Let_def split: prod.splits sum.splits)

lemma bench_applied: "\<exists>x s'. applyOne bench_nas (\<lambda>x. x) bench_request bench_server = (Inr x, 200, s')"
proof -
  let ?u = "bench_subject ''7'' ''ada'' 200001"
  have r: "aq_Subject bench_request = ''ada''" "aq_Desired bench_request = bench_desired" "aq_Fingerprint bench_request = fingerprintSubject (\<lambda>x. x) (Some ?u)"
    by (simp_all add: bench_request_def)
  have g: "groupIDsFor bench_nas [''lab''] bench_server = (Inr [''2''], bench_server)" by (simp add: groupIDsFor_def bench_groups)
  have "\<exists>i s1. do_write bench_nas (WUpdate (su_ID ?u) up) bench_server = (Inr i, s1)" for up
    by (simp add: do_write_def ask_def bench_nas_def)
  then have w: "\<exists>x s'. converge_write bench_nas (\<lambda>x. x) bench_request bench_want ?u c ids bench_server = (Inr x, 200, s')" for c ids
    using converge_write_answers by metis
  have "\<exists>x s'. converge bench_nas (\<lambda>x. x) bench_request bench_want ?u bench_server = (Inr x, 200, s')"
    using w
    by (simp add: converge_def Let_def bench_decide g bench_quiet change_writes_def)
  then show ?thesis
    using r by (auto simp: applyOne_def bench_decode bench_locate rememberWantedSMB_def bench_fields)
qed

lemma bench_target: "reads_hold bench_nas fst snd" "writes_hold bench_nas fst snd" "tidy (fst (ns_z bench_server)) (snd (ns_z bench_server))"
  by (simp_all add: bench_nas_def reads_hold_def writes_hold_def holds_same_def tidy_def bench_server_def bench_user_def)

lemma bench_found: "found_account bench_nas H bench_request bench_server = Some (bench_subject ''7'' ''ada'' 200001)"
  by (simp add: found_account_def bench_request_def bench_locate)


theorem apply_reaches_desired_witness:
  "case applyOne bench_nas (\<lambda>x. x) bench_request bench_server of (_, _, s') \<Rightarrow> \<exists>home y'. fst (ns_z s') = [y', bench_user ''8'' ''bob'' 200002] \<and>
     subject_of None (index_groups (snd (ns_z bench_server))) y' =
       homed (applyTo (decide (Some (bench_subject ''7'' ''ada'' 200001)) bench_want home) (bench_subject ''7'' ''ada'' 200001))"
proof -
  let ?u = "bench_subject ''7'' ''ada'' 200001"
  obtain x s' where a: "applyOne bench_nas (\<lambda>x. x) bench_request bench_server = (Inr x, 200, s')" using bench_applied by blast
  have "ne_self bench_nas = None" "aq_Desired bench_request = bench_desired" by (simp_all add: bench_nas_def bench_request_def)
  with apply_reaches_desired [OF bench_target bench_found a] obtain home y y' where
    y: "y \<in> set (fst (ns_z bench_server))" "subject_of None (index_groups (snd (ns_z bench_server))) y = ?u"
      "fst (ns_z s') = map (\<lambda>z. if nu_ID z = nu_ID y then y' else z) (fst (ns_z bench_server))"
      "subject_of None (index_groups (snd (ns_z bench_server))) y' = homed (applyTo (decide (Some ?u) bench_want home) ?u)"
    by (auto simp: bench_decode)
  have "nu_ID y = ''7''" using arg_cong [OF y(2), of su_ID] by (simp add: subject_of_def bench_subject_def)
  then have "fst (ns_z s') = [y', bench_user ''8'' ''bob'' 200002]" using y(3) by (simp add: bench_server_def bench_user_def)
  then show ?thesis using y(4) a by auto
qed

end
