(* ===== verification/Nas_Ops.thy ===== *)
theory Nas_Ops
  imports Nas_Calls
begin

text \<open>
  The one-shot operations of the NAS add-on and the handlers around them: the credential, purge,
  adoption and release operations (\<^verbatim>\<open>addons/truenas/operations.go\<close>), the lookup of a bound account
  (\<^verbatim>\<open>subjects.go\<close>), the remembered results of calls (\<^verbatim>\<open>store.go\<close>), the lifecycle gate (\<^verbatim>\<open>lifecycle.go\<close>), and
  the apply and operation handlers from the decoded request on. The three read operations
  (activity, storage and health) make queries only; they are a field of the environment, on the
  state of the NAS alone. Of a submitted credential only its presence is kept.
\<close>

section \<open>Finding the bound account\<close>

datatype lookup_error = NoSuchAccount | AmbiguousAccount | LookupFailed nas_error

definition known_id :: "string \<Rightarrow> bool" where
  "known_id i \<longleftrightarrow> i \<noteq> [] \<and> i \<noteq> ''null''"

definition lookupOne :: "'z nas_env \<Rightarrow> user_filter \<Rightarrow> 'z nas_server \<Rightarrow> (lookup_error + string) \<times> 'z nas_server" where
  "lookupOne env f s =
     (case ask (user_query env f 2) s of
        (Inl e, s1) \<Rightarrow> (Inl (LookupFailed e), s1)
      | (Inr [], s1) \<Rightarrow> (Inl NoSuchAccount, s1)
      | (Inr [x], s1) \<Rightarrow> (if known_id (nu_ID x) then Inr (nu_ID x) else Inl NoSuchAccount, s1)
      | (Inr _, s1) \<Rightarrow> (Inl AmbiguousAccount, s1))"

definition recordID :: "'z nas_env \<Rightarrow> binding \<Rightarrow> 'z nas_server \<Rightarrow> (lookup_error + string) \<times> 'z nas_server" where
  "recordID env b s =
     (if b_UID b = 0 then lookupOne env (ByName (b_Username b)) s
      else case lookupOne env (ByUID (b_UID b)) s of
             (Inl NoSuchAccount, s1) \<Rightarrow> lookupOne env (ByName (b_Username b)) s1
           | (r, s1) \<Rightarrow> (r, s1))"

definition statusForLookup :: "lookup_error \<Rightarrow> int" where
  "statusForLookup e = (case e of NoSuchAccount \<Rightarrow> 422 | AmbiguousAccount \<Rightarrow> 409 | LookupFailed x \<Rightarrow> nas_status x)"

section \<open>The operations\<close>

datatype pval = PText string | POther

record op_call =
  oq_CallID :: string
  oq_Operation :: string
  oq_Subject :: string
  oq_Actor :: string
  oq_Params :: "(string \<times> pval) list"

record nas_result =
  nr_Operation :: string
  nr_Subject :: string
  nr_Outcome :: string
  nr_Detail :: string
  nr_Rotated :: bool
  nr_AccountUID :: int

datatype op_failure = SecretMissing string | NotBoundYet | StoreBroken | LookupRefused lookup_error | MintFailed
  | CredentialRefused nas_error | RotationRefused nas_error | SelfUnknown | SelfAccount string | ElevatedFailed | DeletionRefused nas_error
  | NoAccountNamed | NoSubject | AlreadyBound string | NameTaken string string | ReadFailed nas_error | NotAdoptable string
  | ReleaseFailed | NoSuchOperation | ReadOpFailed string

type_synonym 'z operated = "(op_failure + nas_result) \<times> int \<times> 'z nas_server"

record 'z op_env =
  oe_nas :: "'z nas_env"
  oe_now :: int
  oe_mint :: bool
  oe_elevated :: "string \<Rightarrow> 'z \<Rightarrow> bool \<times> 'z"
  oe_version :: string
  oe_majors :: "string list"
  oe_reads :: "string \<Rightarrow> op_call \<Rightarrow> 'z \<Rightarrow> ((op_failure + nas_result) \<times> int) \<times> 'z"

definition succeeded :: "string \<Rightarrow> op_call \<Rightarrow> string \<Rightarrow> nas_result" where
  "succeeded op req detail =
     \<lparr>nr_Operation = op, nr_Subject = oq_Subject req, nr_Outcome = ''succeeded'', nr_Detail = detail, nr_Rotated = False, nr_AccountUID = 0\<rparr>"

definition op_event :: "string \<Rightarrow> op_call \<Rightarrow> 'z nas_server \<Rightarrow> 'z nas_server" where
  "op_event operation req s =
     s\<lparr>ns_log := ns_log s @ [(operation, oq_Subject req, if trim_space (oq_Actor req) = [] then ''syndra'' else oq_Actor req, oq_CallID req)]\<rparr>"

definition requireSecret :: "(string \<times> pval) list \<Rightarrow> string \<Rightarrow> string option" where
  "requireSecret params name =
     (case map_of params name of Some (PText v) \<Rightarrow> if trim_space v = [] then None else Some v | _ \<Rightarrow> None)"

definition boundAccount :: "'z nas_env \<Rightarrow> string \<Rightarrow> 'z nas_server \<Rightarrow> op_failure + binding" where
  "boundAccount env subject s =
     (if \<not> ne_store env CGetBinding then Inl StoreBroken
      else case map_of (ns_bindings s) subject of None \<Rightarrow> Inl NotBoundYet | Some b \<Rightarrow> Inr b)"

definition desiredSMB :: "'z nas_env \<Rightarrow> string \<Rightarrow> 'z nas_server \<Rightarrow> bool option" where
  "desiredSMB env subject s =
     (if \<not> ne_store env CGetBinding then None else case map_of (ns_bindings s) subject of None \<Rightarrow> None | Some b \<Rightarrow> b_WantsSMB b)"

definition credential_update :: "bool \<Rightarrow> user_update" where
  "credential_update smb = \<lparr>uu_Groups = None, uu_Locked = None, uu_SMB = (if smb then Some True else None), uu_Home = None, uu_Password = True\<rparr>"

definition setPassword :: "'z op_env \<Rightarrow> op_call \<Rightarrow> 'z nas_server \<Rightarrow> 'z operated" where
  "setPassword oe req s =
     (case requireSecret (oq_Params req) ''password'' of
        None \<Rightarrow> (Inl (SecretMissing ''password''), 400, s)
      | Some _ \<Rightarrow>
          (case boundAccount (oe_nas oe) (oq_Subject req) s of
             Inl e \<Rightarrow> (Inl e, 422, s)
           | Inr b \<Rightarrow>
               (case recordID (oe_nas oe) b s of
                  (Inl e, s1) \<Rightarrow> (Inl (LookupRefused e), statusForLookup e, s1)
                | (Inr i, s1) \<Rightarrow>
                    (case do_write (oe_nas oe) (WUpdate i (credential_update (desiredSMB (oe_nas oe) (oq_Subject req) s1 = Some True))) s1 of
                       (Inl e, s2) \<Rightarrow> (Inl (CredentialRefused e), nas_status e, s2)
                     | (Inr _, s2) \<Rightarrow>
                         (Inr (succeeded ''password.set'' req (''The credential was set on '' @ b_Username b @ ''.'')), 200, op_event ''password.set'' req s2)))))"

definition rotatePassword :: "'z op_env \<Rightarrow> op_call \<Rightarrow> 'z nas_server \<Rightarrow> 'z operated" where
  "rotatePassword oe req s =
     (case boundAccount (oe_nas oe) (oq_Subject req) s of
        Inl e \<Rightarrow> (Inl e, 422, s)
      | Inr b \<Rightarrow>
          if \<not> oe_mint oe then (Inl MintFailed, 500, s)
          else (case recordID (oe_nas oe) b s of
             (Inl e, s1) \<Rightarrow> (Inl (LookupRefused e), statusForLookup e, s1)
           | (Inr i, s1) \<Rightarrow>
               (case do_write (oe_nas oe) (WUpdate i (credential_update False)) s1 of
                  (Inl e, s2) \<Rightarrow> (Inl (RotationRefused e), nas_status e, s2)
                | (Inr _, s2) \<Rightarrow>
                    (Inr ((succeeded ''password.rotate'' req (''A new credential was set on '' @ b_Username b @ ''. Established sessions end when they next reconnect, not immediately.''))
                       \<lparr>nr_Rotated := True\<rparr>), 200, op_event ''password.rotate'' req s2))))"

text \<open>The account the add-on itself logs in with; none while it does not know.\<close>

definition self_known :: "'z nas_env \<Rightarrow> string option" where
  "self_known env = (case ne_self env of None \<Rightarrow> None | Some n \<Rightarrow> if n = [] then None else Some n)"

definition refuseSelfAccount :: "'z nas_env \<Rightarrow> string \<Rightarrow> string option" where
  "refuseSelfAccount env username =
     (case self_known env of None \<Rightarrow> None | Some n \<Rightarrow> if to_lower (trim_space username) = to_lower n then Some n else None)"

definition purgeAccount :: "'z op_env \<Rightarrow> op_call \<Rightarrow> 'z nas_server \<Rightarrow> 'z operated" where
  "purgeAccount oe req s =
     (case requireSecret (oq_Params req) ''elevated_key'' of
        None \<Rightarrow> (Inl (SecretMissing ''elevated_key''), 400, s)
      | Some key \<Rightarrow>
          (case boundAccount (oe_nas oe) (oq_Subject req) s of
             Inl e \<Rightarrow> (Inl e, 422, s)
           | Inr b \<Rightarrow>
               if self_known (oe_nas oe) = None then (Inl SelfUnknown, 422, s)
               else (case refuseSelfAccount (oe_nas oe) (b_Username b) of
                  Some n \<Rightarrow> (Inl (SelfAccount n), 422, s)
                | None \<Rightarrow>
                    (case recordID (oe_nas oe) b s of
                       (Inl e, s1) \<Rightarrow> (Inl (LookupRefused e), statusForLookup e, s1)
                     | (Inr i, s1) \<Rightarrow>
                         (case ask (oe_elevated oe key) s1 of
                            (False, s2) \<Rightarrow> (Inl ElevatedFailed, 502, s2)
                          | (True, s2) \<Rightarrow>
                              (case do_write (oe_nas oe) (WDelete i) s2 of
                                 (Inl e, s3) \<Rightarrow> (Inl (DeletionRefused e), nas_status e, s3)
                               | (Inr _, s3) \<Rightarrow>
                                   let gone = ne_store (oe_nas oe) CDeleteBinding;
                                       s4 = (if gone then s3\<lparr>ns_bindings := DeleteBinding (oq_Subject req) (ns_bindings s3)\<rparr> else s3);
                                       detail = ''Deleted '' @ b_Username b @ ''.'' @
                                         (if gone then [] else '' The binding to this subject could not be removed and is still recorded; release it before the next apply.'')
                                   in (Inr (succeeded ''account.purge'' req detail), 200, op_event ''account.purge'' req s4)))))))"

definition adoptAccount :: "'z op_env \<Rightarrow> op_call \<Rightarrow> 'z nas_server \<Rightarrow> 'z operated" where
  "adoptAccount oe req s =
     (let env = oe_nas oe;
          username = (case map_of (oq_Params req) ''username'' of Some (PText v) \<Rightarrow> trim_space v | _ \<Rightarrow> [])
      in if username = [] then (Inl NoAccountNamed, 400, s)
         else if trim_space (oq_Subject req) = [] then (Inl NoSubject, 400, s)
         else case refuseSelfAccount env username of
           Some n \<Rightarrow> (Inl (SelfAccount n), 422, s)
         | None \<Rightarrow>
             if \<not> ne_store env CGetBinding then (Inl StoreBroken, 500, s)
             else (case map_of (ns_bindings s) (oq_Subject req) of
                Some old \<Rightarrow>
                  if b_Username old = username
                  then (Inr ((succeeded ''account.adopt'' req (username @ '' was already bound to this subject.''))\<lparr>nr_AccountUID := b_UID old\<rparr>), 200, s)
                  else (Inl (AlreadyBound (b_Username old)), 409, s)
              | None \<Rightarrow>
                  if \<not> ne_store env CBoundNames then (Inl StoreBroken, 500, s)
                  else (case map_of (BoundUsernames (ns_bindings s)) username of
                     Some owner \<Rightarrow> (Inl (NameTaken username owner), 409, s)
                   | None \<Rightarrow>
                       (case readSubjects env s of
                          (Inl e, s1) \<Rightarrow> (Inl (ReadFailed e), nas_status e, s1)
                        | (Inr snap, s1) \<Rightarrow>
                            (case find (\<lambda>u. su_Username u = username) (sn_Subjects snap) of
                               None \<Rightarrow> (Inl (NotAdoptable username), 404, s1)
                             | Some u \<Rightarrow>
                                 (case (if ne_store env CBind
                                        then BindIfFree \<lparr>b_SubjectID = oq_Subject req, b_Username = su_Username u, b_UID = su_UID u, b_BoundBy = oq_Actor req, b_WantsSMB = None\<rparr> (ns_bindings s1)
                                        else Inl StoreFailed) of
                                    Inl (ErrUsernameBound n owner) \<Rightarrow> (Inl (NameTaken n owner), 409, s1)
                                  | Inl StoreFailed \<Rightarrow> (Inl StoreBroken, 500, s1)
                                  | Inr bs \<Rightarrow>
                                      (Inr ((succeeded ''account.adopt'' req (su_Username u @ '' is now bound to this subject. Nothing on the account was changed.''))
                                         \<lparr>nr_AccountUID := su_UID u\<rparr>), 200, op_event ''account.adopt'' req (s1\<lparr>ns_bindings := bs\<rparr>))))))))"

definition releaseAccount :: "'z op_env \<Rightarrow> op_call \<Rightarrow> 'z nas_server \<Rightarrow> 'z operated" where
  "releaseAccount oe req s =
     (if \<not> ne_store (oe_nas oe) CGetBinding then (Inl StoreBroken, 500, s)
      else case map_of (ns_bindings s) (oq_Subject req) of
        None \<Rightarrow> (Inr (succeeded ''account.release'' req ''No account was bound to this subject.''), 200, s)
      | Some b \<Rightarrow>
          if \<not> ne_store (oe_nas oe) CDeleteBinding then (Inl ReleaseFailed, 500, s)
          else (Inr (succeeded ''account.release'' req (''Syndra no longer manages '' @ b_Username b @
                  ''. Nothing on the target was changed '' @ [CHR 0xE2, CHR 0x80, CHR 0x94] @ '' the account still exists and still works.'')), 200,
                op_event ''account.release'' req (s\<lparr>ns_bindings := DeleteBinding (oq_Subject req) (ns_bindings s)\<rparr>)))"

definition mutatingOperation :: "string \<Rightarrow> bool" where
  "mutatingOperation name \<longleftrightarrow> name \<in> {''password.set'', ''password.rotate'', ''account.purge'', ''account.adopt''}"

definition runOperation :: "'z op_env \<Rightarrow> string \<Rightarrow> op_call \<Rightarrow> 'z nas_server \<Rightarrow> 'z operated" where
  "runOperation oe name req s =
     (if name = ''password.set'' then setPassword oe req s
      else if name = ''password.rotate'' then rotatePassword oe req s
      else if name = ''account.purge'' then purgeAccount oe req s
      else if name = ''account.adopt'' then adoptAccount oe req s
      else if name = ''account.release'' then releaseAccount oe req s
      else if name \<in> {''activity.get'', ''storage.status'', ''health.get''} then
        (case ask (oe_reads oe name req) s of ((r, status), s1) \<Rightarrow> (r, status, s1))
      else (Inl NoSuchOperation, 404, s))"

section \<open>Remembered results\<close>

text \<open>What is kept of a call is the JSON of its answer. An answer of one endpoint decoded as one of the other keeps the fields of the same name.\<close>

datatype answer_kept = KApply apply_outcome | KOperation nas_result

definition as_apply :: "answer_kept \<Rightarrow> apply_outcome" where
  "as_apply r = (case r of KApply x \<Rightarrow> x | KOperation x \<Rightarrow> (blank_outcome (nr_Subject x) [])\<lparr>oc_Detail := nr_Detail x\<rparr>)"

definition as_operation :: "answer_kept \<Rightarrow> nas_result" where
  "as_operation r =
     (case r of KOperation x \<Rightarrow> x
      | KApply x \<Rightarrow> \<lparr>nr_Operation = [], nr_Subject = oc_Subject x, nr_Outcome = [], nr_Detail = oc_Detail x, nr_Rotated = False, nr_AccountUID = 0\<rparr>)"

record idempotencyEntry =
  ie_StoredAt :: int
  ie_Kind :: string
  ie_Result :: answer_kept

text \<open>An entry that does not decode is \<open>None\<close>.\<close>

type_synonym kept_calls = "(string, idempotencyEntry option) gomap"

definition idempotencyTTL :: int where "idempotencyTTL = 30 * 24 * 3600 * 10 ^ 9"

datatype recall_error = KindMismatch | EntryUnreadable

definition Remember :: "int \<Rightarrow> string \<Rightarrow> string \<Rightarrow> answer_kept \<Rightarrow> kept_calls \<Rightarrow> kept_calls" where
  "Remember now callID kind r cs = AList.update callID (Some \<lparr>ie_StoredAt = now, ie_Kind = kind, ie_Result = r\<rparr>) cs"

definition Recall :: "int \<Rightarrow> string \<Rightarrow> string \<Rightarrow> kept_calls \<Rightarrow> recall_error + answer_kept option" where
  "Recall now callID kind cs =
     (case map_of cs callID of
        None \<Rightarrow> Inr None
      | Some None \<Rightarrow> Inl EntryUnreadable
      | Some (Some e) \<Rightarrow>
          if now - ie_StoredAt e > idempotencyTTL then Inr None
          else if ie_Kind e \<noteq> [] \<and> ie_Kind e \<noteq> kind then Inl KindMismatch
          else Inr (Some (ie_Result e)))"

definition SweepIdempotency :: "int \<Rightarrow> kept_calls \<Rightarrow> kept_calls" where
  "SweepIdempotency now cs =
     filter (\<lambda>(_, e). case e of None \<Rightarrow> True | Some x \<Rightarrow> \<not> now - ie_StoredAt x > idempotencyTTL) cs"

section \<open>The lifecycle\<close>

definition LifecycleActive :: string where "LifecycleActive = ''active''"
definition LifecycleDraining :: string where "LifecycleDraining = ''draining''"
definition LifecycleReadOnly :: string where "LifecycleReadOnly = ''read_only''"

record lifecycle =
  li_state :: string
  li_reason :: string
  li_inFlight :: int

definition life_Set :: "string \<Rightarrow> string \<Rightarrow> lifecycle \<Rightarrow> lifecycle option" where
  "life_Set state reason l =
     (if state \<in> {LifecycleActive, LifecycleDraining, LifecycleReadOnly} then Some (l\<lparr>li_state := state, li_reason := reason\<rparr>) else None)"

definition newLifecycle :: "string \<Rightarrow> lifecycle" where
  "newLifecycle state =
     (let l = \<lparr>li_state = [], li_reason = [], li_inFlight = 0\<rparr>
      in case life_Set state ''startup'' l of
           Some l' \<Rightarrow> l'
         | None \<Rightarrow> l\<lparr>li_state := LifecycleReadOnly, li_reason := ''configured lifecycle state was not recognised''\<rparr>)"

definition life_Begin :: "lifecycle \<Rightarrow> lifecycle option" where
  "life_Begin l = (if li_state l \<noteq> LifecycleActive then None else Some (l\<lparr>li_inFlight := li_inFlight l + 1\<rparr>))"

definition life_done :: "lifecycle \<Rightarrow> lifecycle" where
  "life_done l = l\<lparr>li_inFlight := li_inFlight l - 1\<rparr>"

definition life_Drained :: "lifecycle \<Rightarrow> bool" where
  "life_Drained l \<longleftrightarrow> li_state l \<noteq> LifecycleActive \<and> li_inFlight l = 0"

section \<open>The handlers\<close>

record 'z nas_addon =
  na_server :: "'z nas_server"
  na_calls :: kept_calls
  na_life :: lifecycle

datatype nas_reply = RApply apply_outcome | ROperation nas_result | RBadRequest | RContract int | RFingerprintRequired | RStoreUnreadable | RCallIDReused
  | RLifecycle string | RVersion string | RStale string | RApplyFailed nas_apply_error | RMismatch | RFailed op_failure

definition ContractVersion :: int where "ContractVersion = 1"
definition kindApply :: string where "kindApply = ''apply''"
definition kindOperation :: string where "kindOperation = ''operation:''"

definition recall_failure :: "recall_error \<Rightarrow> int \<times> nas_reply" where
  "recall_failure e = (case e of KindMismatch \<Rightarrow> (409, RCallIDReused) | EntryUnreadable \<Rightarrow> (500, RStoreUnreadable))"

text \<open>The first digits with a point between them, as the release is named.\<close>

fun release_number :: "string \<Rightarrow> string option" where
  "release_number [] = None"
| "release_number (c # cs) =
     (let n = takeWhile is_digit (c # cs); rest = dropWhile is_digit (c # cs)
      in case rest of
           d # ds \<Rightarrow>
             if n \<noteq> [] \<and> d = CHR ''.'' \<and> takeWhile is_digit ds \<noteq> [] then Some (n @ ''.'' @ takeWhile is_digit ds)
             else release_number cs
         | [] \<Rightarrow> release_number cs)"

definition majorOf :: "string \<Rightarrow> string" where
  "majorOf v = (case release_number v of Some m \<Rightarrow> m | None \<Rightarrow> trim_space v)"

definition MajorSupported :: "'z op_env \<Rightarrow> string option" where
  "MajorSupported oe =
     (if oe_version oe = [] then Some ''the target version has not been read yet''
      else if majorOf (oe_version oe) \<notin> set (oe_majors oe) then Some (''TrueNAS '' @ majorOf (oe_version oe) @ '' is outside the tested range for this add-on'')
      else None)"

text \<open>A recall when the store can be read.\<close>

definition recalled :: "'z op_env \<Rightarrow> string \<Rightarrow> string \<Rightarrow> 'z nas_addon \<Rightarrow> recall_error + answer_kept option" where
  "recalled oe callID kind A = (if ne_store (oe_nas oe) CRecall then Recall (oe_now oe) callID kind (na_calls A) else Inl EntryUnreadable)"

definition remembered :: "'z op_env \<Rightarrow> string \<Rightarrow> string \<Rightarrow> answer_kept \<Rightarrow> kept_calls \<Rightarrow> kept_calls" where
  "remembered oe callID kind r cs = (if ne_store (oe_nas oe) CRemember then Remember (oe_now oe) callID kind r cs else cs)"

text \<open>The mutating half of a handler, between the begin and the end the lifecycle counts.\<close>

definition gated :: "'z op_env \<Rightarrow> 'z nas_addon \<Rightarrow> ('z nas_addon \<Rightarrow> (int \<times> nas_reply) \<times> 'z nas_addon) \<Rightarrow> (int \<times> nas_reply) \<times> 'z nas_addon" where
  "gated oe A body =
     (case life_Begin (na_life A) of
        None \<Rightarrow> ((503, RLifecycle (li_state (na_life A))), A)
      | Some l \<Rightarrow>
          (case MajorSupported oe of
             Some why \<Rightarrow> ((422, RVersion why), A\<lparr>na_life := life_done l\<rparr>)
           | None \<Rightarrow> (case body (A\<lparr>na_life := l\<rparr>) of (r, A') \<Rightarrow> (r, A'\<lparr>na_life := life_done (na_life A')\<rparr>))))"

definition run_apply :: "'z op_env \<Rightarrow> (string \<Rightarrow> string) \<Rightarrow> apply_request \<Rightarrow> 'z nas_addon \<Rightarrow> (int \<times> nas_reply) \<times> 'z nas_addon" where
  "run_apply oe H req A =
     (case applyOne (oe_nas oe) H req (na_server A) of
        (Inl AStale, status, s) \<Rightarrow> ((status, RStale (aq_Subject req)), A\<lparr>na_server := s\<rparr>)
      | (Inl e, status, s) \<Rightarrow> ((status, RApplyFailed e), A\<lparr>na_server := s\<rparr>)
      | (Inr x, status, s) \<Rightarrow>
          ((status, RApply x),
           A\<lparr>na_server := s, na_calls := (if status div 100 = 2 then remembered oe (aq_CallID req) kindApply (KApply x) (na_calls A) else na_calls A)\<rparr>))"

definition handleApply :: "'z op_env \<Rightarrow> (string \<Rightarrow> string) \<Rightarrow> int \<Rightarrow> apply_request \<Rightarrow> 'z nas_addon \<Rightarrow> (int \<times> nas_reply) \<times> 'z nas_addon" where
  "handleApply oe H declared req A =
     (if declared \<noteq> ContractVersion then ((422, RContract declared), A)
      else if trim_space (aq_CallID req) = [] \<or> trim_space (aq_Subject req) = [] then ((400, RBadRequest), A)
      else if trim_space (aq_Fingerprint req) = [] then ((400, RFingerprintRequired), A)
      else case recalled oe (aq_CallID req) kindApply A of
             Inl e \<Rightarrow> (recall_failure e, A)
           | Inr (Some r) \<Rightarrow> ((200, RApply (as_apply r)), A)
           | Inr None \<Rightarrow> gated oe A (run_apply oe H req))"

definition run_operation :: "'z op_env \<Rightarrow> string \<Rightarrow> op_call \<Rightarrow> 'z nas_addon \<Rightarrow> (int \<times> nas_reply) \<times> 'z nas_addon" where
  "run_operation oe name req A =
     (case runOperation oe name req (na_server A) of
        (Inl e, status, s) \<Rightarrow> ((status, RFailed e), A\<lparr>na_server := s\<rparr>)
      | (Inr x, status, s) \<Rightarrow>
          ((status, ROperation x),
           A\<lparr>na_server := s,
             na_calls := (if mutatingOperation name then remembered oe (oq_CallID req) (kindOperation @ name) (KOperation x) (na_calls A) else na_calls A)\<rparr>))"

definition handleOperation :: "'z op_env \<Rightarrow> int \<Rightarrow> string \<Rightarrow> op_call \<Rightarrow> 'z nas_addon \<Rightarrow> (int \<times> nas_reply) \<times> 'z nas_addon" where
  "handleOperation oe declared name req A =
     (if declared \<noteq> ContractVersion then ((422, RContract declared), A)
      else if trim_space (oq_CallID req) = [] then ((400, RBadRequest), A)
      else if oq_Operation req \<noteq> [] \<and> oq_Operation req \<noteq> name then ((400, RMismatch), A)
      else case recalled oe (oq_CallID req) (kindOperation @ name) A of
             Inl e \<Rightarrow> (recall_failure e, A)
           | Inr (Some r) \<Rightarrow> ((200, ROperation (as_operation r)), A)
           | Inr None \<Rightarrow> if mutatingOperation name then gated oe A (run_operation oe name req) else run_operation oe name req A)"

definition handleLifecycle :: "int \<Rightarrow> string \<Rightarrow> string \<Rightarrow> 'z nas_addon \<Rightarrow> int \<times> 'z nas_addon" where
  "handleLifecycle declared state reason A =
     (if declared \<noteq> ContractVersion then (422, A)
      else if trim_space reason = [] then (400, A)
      else case life_Set state reason (na_life A) of None \<Rightarrow> (422, A) | Some l \<Rightarrow> (200, A\<lparr>na_life := l\<rparr>))"

section \<open>An operation touches only the account its subject is bound to\<close>

text \<open>The only account that answered a query of the binding's uid, or of its name.\<close>

definition looked_up :: "'z nas_env \<Rightarrow> binding \<Rightarrow> string \<Rightarrow> bool" where
  "looked_up env b i \<longleftrightarrow>
     (\<exists>f z x z'. (f = ByName (b_Username b) \<or> f = ByUID (b_UID b) \<and> b_UID b \<noteq> 0) \<and> user_query env f 2 z = (Inr [x], z') \<and> nu_ID x = i)"

lemma lookupOne_reads: "lookupOne env f s = (r, s') \<Longrightarrow> reads_only s s'"
  by (auto simp: lookupOne_def split: prod.splits sum.splits list.splits dest: ask_reads)

lemma lookupOne_one: "lookupOne env f s = (Inr i, s') \<Longrightarrow> \<exists>x z'. user_query env f 2 (ns_z s) = (Inr [x], z') \<and> nu_ID x = i"
  by (auto simp: lookupOne_def ask_def split: prod.splits sum.splits list.splits if_splits)

lemma recordID_reads: "recordID env b s = (r, s') \<Longrightarrow> reads_only s s'"
  by (auto simp: recordID_def split: if_splits prod.splits sum.splits lookup_error.splits dest!: lookupOne_reads intro: reads_only_trans)

lemma recordID_looked_up: "recordID env b s = (Inr i, s') \<Longrightarrow> looked_up env b i"
  by (auto simp: recordID_def looked_up_def split: if_splits prod.splits sum.splits lookup_error.splits dest!: lookupOne_one)

lemma op_event_keeps [simp]:
  "ns_writes (op_event op req s) = ns_writes s" "ns_bindings (op_event op req s) = ns_bindings s"
  by (simp_all add: op_event_def)

text \<open>What an operation may do to the target, to the bindings and to the log.\<close>

definition op_calls :: "'z nas_env \<Rightarrow> string \<Rightarrow> string \<Rightarrow> bindings \<Rightarrow> nas_write list \<Rightarrow> bool" where
  "op_calls env name subject bs ws \<longleftrightarrow>
     ws = [] \<or>
     (\<exists>b i. map_of bs subject = Some b \<and> looked_up env b i \<and>
        (name = ''password.set'' \<and> ws = [WUpdate i (credential_update (b_WantsSMB b = Some True))] \<or>
         name = ''password.rotate'' \<and> ws = [WUpdate i (credential_update False)] \<or>
         name = ''account.purge'' \<and> ws = [WDelete i] \<and> self_known env \<noteq> None \<and> refuseSelfAccount env (b_Username b) = None))"

definition op_kept :: "op_call \<Rightarrow> string \<Rightarrow> op_failure + nas_result \<Rightarrow> 'z nas_server \<Rightarrow> 'z nas_server \<Rightarrow> bool" where
  "op_kept req name out s s' \<longleftrightarrow>
     (map_of (ns_bindings s'))(oq_Subject req := None) = (map_of (ns_bindings s))(oq_Subject req := None) \<and>
     (if isl out \<or> name \<in> {''password.set'', ''password.rotate''} then ns_bindings s' = ns_bindings s else True) \<and>
     (if isl out then ns_log s' = ns_log s else ns_log s' = ns_log s \<or> (\<exists>actor. ns_log s' = ns_log s @ [(name, oq_Subject req, actor, oq_CallID req)]))"

definition op_ran :: "'z op_env \<Rightarrow> string \<Rightarrow> op_call \<Rightarrow> 'z nas_server \<Rightarrow> 'z operated \<Rightarrow> bool" where
  "op_ran oe name req s res \<longleftrightarrow>
     (case res of (out, _, s') \<Rightarrow>
        (\<exists>ws. ns_writes s' = ns_writes s @ ws \<and> op_calls (oe_nas oe) name (oq_Subject req) (ns_bindings s) ws) \<and> op_kept req name out s s')"

lemma op_ran_quiet: "reads_only s s' \<Longrightarrow> op_ran oe name req s (Inl e, st, s')"
  by (auto simp: op_ran_def op_kept_def op_calls_def reads_only_def)

lemma op_ran_refused:
  assumes "reads_only s t" "do_write env w t = (q, u)" "op_calls (oe_nas oe) name (oq_Subject req) (ns_bindings s) [w]"
  shows "op_ran oe name req s (Inl e, st, u)"
  using assms by (auto simp: op_ran_def op_kept_def reads_only_def do_write_def ask_def split: prod.splits)

lemma op_ran_written:
  assumes "reads_only s t" "do_write env w t = (q, u)" "op_calls (oe_nas oe) name (oq_Subject req) (ns_bindings s) [w]"
  shows "op_ran oe name req s (Inr r, st, op_event name req u)"
  using assms by (auto simp: op_ran_def op_kept_def reads_only_def do_write_def ask_def op_event_def split: prod.splits)

lemma boundAccount_bound: "boundAccount env subject s = Inr b \<Longrightarrow> map_of (ns_bindings s) subject = Some b \<and> ne_store env CGetBinding"
  by (auto simp: boundAccount_def split: if_splits option.splits)

text \<open>Both credential operations resolve the binding and send one update.\<close>

lemma credential_ran:
  assumes b: "boundAccount (oe_nas oe) (oq_Subject req) s = Inr b" and r: "recordID (oe_nas oe) b s = (Inr i, s1)"
    and q: "do_write (oe_nas oe) (WUpdate i (credential_update smb)) s1 = (q, s2)"
    and name: "name = ''password.set'' \<and> smb = (desiredSMB (oe_nas oe) (oq_Subject req) s1 = Some True) \<or> name = ''password.rotate'' \<and> \<not> smb"
  shows "op_ran oe name req s (Inl e, st, s2)" "op_ran oe name req s (Inr x, st, op_event name req s2)"
proof -
  note bound = boundAccount_bound [OF b] and ro = recordID_reads [OF r]
  have "desiredSMB (oe_nas oe) (oq_Subject req) s1 = b_WantsSMB b" using bound ro by (simp add: desiredSMB_def reads_only_def)
  then have "op_calls (oe_nas oe) name (oq_Subject req) (ns_bindings s) [WUpdate i (credential_update smb)]"
    using bound recordID_looked_up [OF r] name by (auto simp: op_calls_def)
  then show "op_ran oe name req s (Inl e, st, s2)" "op_ran oe name req s (Inr x, st, op_event name req s2)"
    using op_ran_refused [OF ro q] op_ran_written [OF ro q] by blast+
qed

lemma setPassword_ran: "op_ran oe ''password.set'' req s (setPassword oe req s)"
  by (auto simp: setPassword_def op_ran_quiet recordID_reads credential_ran split: option.splits sum.splits prod.splits)

lemma rotatePassword_ran: "op_ran oe ''password.rotate'' req s (rotatePassword oe req s)"
  by (auto simp: rotatePassword_def op_ran_quiet recordID_reads credential_ran split: option.splits sum.splits prod.splits)

lemma delete_binding_others: "(map_of (DeleteBinding k bs))(k := None) = (map_of bs)(k := None)"
  by (simp add: DeleteBinding_def delete_conv' fun_upd_idem)

lemma bind_others: "BindIfFree b bs = Inr bs' \<Longrightarrow> (map_of bs')(b_SubjectID b := None) = (map_of bs)(b_SubjectID b := None)"
  by (auto simp: BindIfFree_def PutBinding_def update_conv' split: option.splits)

lemma purge_deleted:
  assumes b: "boundAccount (oe_nas oe) (oq_Subject req) s = Inr b" and r: "recordID (oe_nas oe) b s = (Inr i, s1)"
    and el: "ask (oe_elevated oe key) s1 = (y, s2)" and q: "do_write (oe_nas oe) (WDelete i) s2 = (q, s3)"
    and self: "self_known (oe_nas oe) = Some me" "refuseSelfAccount (oe_nas oe) (b_Username b) = None"
  shows "op_ran oe ''account.purge'' req s (Inl e, st, s3)"
    "op_ran oe ''account.purge'' req s (Inr x, st, op_event ''account.purge'' req s3)"
    "op_ran oe ''account.purge'' req s (Inr x, st, op_event ''account.purge'' req (s3\<lparr>ns_bindings := DeleteBinding (oq_Subject req) (ns_bindings s3)\<rparr>))"
proof -
  have ro: "reads_only s s2" by (rule reads_only_trans [OF recordID_reads [OF r] ask_reads [OF el]])
  have ok: "op_calls (oe_nas oe) ''account.purge'' (oq_Subject req) (ns_bindings s) [WDelete i]"
    using boundAccount_bound [OF b] recordID_looked_up [OF r] self by (auto simp: op_calls_def)
  show "op_ran oe ''account.purge'' req s (Inl e, st, s3)"
    "op_ran oe ''account.purge'' req s (Inr x, st, op_event ''account.purge'' req s3)"
    using op_ran_refused [OF ro q ok] op_ran_written [OF ro q ok] by blast+
  show "op_ran oe ''account.purge'' req s (Inr x, st, op_event ''account.purge'' req (s3\<lparr>ns_bindings := DeleteBinding (oq_Subject req) (ns_bindings s3)\<rparr>))"
    using ro q ok by (auto simp: op_ran_def op_kept_def reads_only_def do_write_def ask_def op_event_def delete_binding_others split: prod.splits)
qed

lemma purge_quiet:
  assumes r: "recordID (oe_nas oe) b s = (q, s1)"
  shows "op_ran oe name req s (Inl e, st, s1)" "ask (oe_elevated oe key) s1 = (y, s2) \<Longrightarrow> op_ran oe name req s (Inl e, st, s2)"
  using recordID_reads [OF r] by (auto intro: op_ran_quiet reads_only_trans dest: ask_reads)

lemma purgeAccount_ran: "op_ran oe ''account.purge'' req s (purgeAccount oe req s)"
  by (auto simp: purgeAccount_def Let_def op_ran_quiet purge_deleted split: option.splits sum.splits prod.splits bool.splits intro: purge_quiet)

lemma readSubjects_reads: "readSubjects env s = (r, s') \<Longrightarrow> reads_only s s'"
  by (simp add: readSubjects_def readSubjectsWhere_reads)

lemma adopt_bound:
  assumes "reads_only s s1" "BindIfFree b (ns_bindings s1) = Inr bs" "b_SubjectID b = oq_Subject req"
  shows "op_ran oe ''account.adopt'' req s (Inr x, st, op_event ''account.adopt'' req (s1\<lparr>ns_bindings := bs\<rparr>))"
  using assms bind_others [OF assms(2)] by (auto simp: op_ran_def op_kept_def op_calls_def reads_only_def op_event_def)

lemma op_ran_same: "op_ran oe name req s (Inr x, st, s)"
  by (simp add: op_ran_def op_kept_def op_calls_def)

lemma adoptAccount_ran: "op_ran oe ''account.adopt'' req s (adoptAccount oe req s)"
  by (auto simp: adoptAccount_def Let_def op_ran_quiet op_ran_same split: option.splits sum.splits prod.splits bind_error.splits if_splits
      dest!: readSubjects_reads intro: adopt_bound)

lemma releaseAccount_ran: "op_ran oe ''account.release'' req s (releaseAccount oe req s)"
  by (auto simp: releaseAccount_def op_ran_quiet op_ran_same split: option.splits)
     (simp add: op_ran_def op_kept_def op_calls_def op_event_def delete_binding_others)

text \<open>
  C2. An operation touches the account its subject is bound to and no other. Whatever the NAS answers, an operation
  makes no call at all, or one: setting a credential on the one account that answered for the binding's uid (or for its
  name), which switches SMB on exactly when the last apply wanted it; rotating it, which leaves SMB alone; or deleting that
  account, and only while the add-on knows the account it logs in with itself and the bound name is another. Adoption, release and the reads make none. Only the subject's own
  binding can change, and an operation that fails changes no binding and logs nothing.
\<close>

theorem operations_touch_only_the_bound:
  "case runOperation oe name req s of (out, status, s') \<Rightarrow>
     (\<exists>ws. ns_writes s' = ns_writes s @ ws \<and> op_calls (oe_nas oe) name (oq_Subject req) (ns_bindings s) ws) \<and> op_kept req name out s s'"
proof -
  have "op_ran oe name req s (runOperation oe name req s)"
  proof (cases "name \<in> {''activity.get'', ''storage.status'', ''health.get''}")
    case True
    obtain r st s1 where "ask (oe_reads oe name req) s = ((r, st), s1)" by (metis prod.exhaust)
    moreover from this have "reads_only s s1" by (rule ask_reads)
    ultimately show ?thesis using True
      by (cases r) (auto simp: runOperation_def op_ran_def op_kept_def op_calls_def reads_only_def)
  next
    case False
    then show ?thesis
      by (simp add: runOperation_def setPassword_ran rotatePassword_ran purgeAccount_ran adoptAccount_ran releaseAccount_ran op_ran_quiet)
  qed
  then show ?thesis by (simp add: op_ran_def)
qed

section \<open>A replayed call\<close>

text \<open>What may happen to the add-on between two calls, up to a time: calls of any kind, the sweep, and the NAS changing.\<close>

inductive addon_step :: "int \<Rightarrow> 'z nas_addon \<Rightarrow> 'z nas_addon \<Rightarrow> bool" for until where
  applied: "oe_now oe \<le> until \<Longrightarrow> addon_step until A (snd (handleApply oe H v req A))"
| operated: "oe_now oe \<le> until \<Longrightarrow> addon_step until A (snd (handleOperation oe v name oreq A))"
| moded: "addon_step until A (snd (handleLifecycle v state reason A))"
| swept: "now \<le> until \<Longrightarrow> addon_step until A (A\<lparr>na_calls := SweepIdempotency now (na_calls A)\<rparr>)"
| moved: "addon_step until A (A\<lparr>na_server := (na_server A)\<lparr>ns_z := z\<rparr>\<rparr>)"

text \<open>A call was answered: by an apply with a success, or by a mutating operation.\<close>

definition answered_call :: "'z op_env \<Rightarrow> 'z nas_addon \<Rightarrow> string \<Rightarrow> string \<Rightarrow> answer_kept \<Rightarrow> 'z nas_addon \<Rightarrow> bool" where
  "answered_call oe A ident kind r A1 \<longleftrightarrow>
     (\<exists>H req status x. handleApply oe H ContractVersion req A = ((status, RApply x), A1) \<and> status div 100 = 2 \<and>
        ident = aq_CallID req \<and> kind = kindApply \<and> r = KApply x) \<or>
     (\<exists>name req status x. handleOperation oe ContractVersion name req A = ((status, ROperation x), A1) \<and> mutatingOperation name \<and>
        ident = oq_CallID req \<and> kind = kindOperation @ name \<and> r = KOperation x)"

lemma map_of_Remember: "map_of (Remember now ident kind r cs) = (map_of cs)(ident \<mapsto> Some \<lparr>ie_StoredAt = now, ie_Kind = kind, ie_Result = r\<rparr>)"
  by (simp add: Remember_def update_conv')

text \<open>A handler writes the entry of its own call id, and only when nothing was recalled for it.\<close>

definition keeps_but :: "string option \<Rightarrow> kept_calls \<Rightarrow> kept_calls \<Rightarrow> bool" where
  "keeps_but own cs cs' \<longleftrightarrow> (\<forall>k. Some k \<noteq> own \<longrightarrow> map_of cs' k = map_of cs k)"

lemma remembered_keeps: "keeps_but (Some ident) cs (remembered oe ident kind r cs)"
  by (simp add: keeps_but_def remembered_def map_of_Remember)

lemma keeps_refl [simp]: "keeps_but own cs cs"
  by (simp add: keeps_but_def)

lemma run_apply_keeps: "keeps_but (Some (aq_CallID req)) (na_calls A) (na_calls (snd (run_apply oe H req A)))"
  by (auto simp: run_apply_def remembered_keeps split: prod.splits sum.splits nas_apply_error.splits)

lemma run_operation_keeps: "keeps_but (Some (oq_CallID req)) (na_calls A) (na_calls (snd (run_operation oe name req A)))"
  by (auto simp: run_operation_def remembered_keeps split: prod.splits sum.splits)

lemma gated_keeps:
  assumes "\<And>B. keeps_but own (na_calls B) (na_calls (snd (body B)))"
  shows "keeps_but own (na_calls A) (na_calls (snd (gated oe A body)))"
proof (cases "life_Begin (na_life A)")
  case (Some l)
  then show ?thesis using assms [of "A\<lparr>na_life := l\<rparr>"] by (auto simp: gated_def split: option.splits prod.splits)
qed (simp add: gated_def)

lemma handleApply_keeps:
  "keeps_but (if recalled oe (aq_CallID req) kindApply A = Inr None then Some (aq_CallID req) else None) (na_calls A) (na_calls (snd (handleApply oe H v req A)))"
  by (auto simp: handleApply_def gated_keeps run_apply_keeps split: sum.splits option.splits)

lemma handleOperation_keeps:
  "keeps_but (if recalled oe (oq_CallID req) (kindOperation @ name) A = Inr None then Some (oq_CallID req) else None)
     (na_calls A) (na_calls (snd (handleOperation oe v name req A)))"
  by (auto simp: handleOperation_def gated_keeps run_operation_keeps split: sum.splits option.splits)

lemma map_of_filter_kept: "map_of xs k = Some v \<Longrightarrow> P (k, v) \<Longrightarrow> map_of (filter P xs) k = Some v"
  by (induction xs) (auto split: if_splits)

lemma recalled_recent:
  assumes "map_of (na_calls A) ident = Some (Some e)" "oe_now oe - ie_StoredAt e \<le> idempotencyTTL"
  shows "recalled oe ident kind A \<noteq> Inr None"
  using assms by (auto simp: recalled_def Recall_def)

lemma addon_step_keeps:
  assumes "addon_step until A A'" "map_of (na_calls A) ident = Some (Some e)" "until - ie_StoredAt e \<le> idempotencyTTL"
  shows "map_of (na_calls A') ident = Some (Some e)"
  using assms
proof cases
  case (applied oe H v req)
  then have "recalled oe ident kindApply A \<noteq> Inr None" using recalled_recent [OF assms(2)] assms(3) by force
  then show ?thesis using handleApply_keeps [of oe req A H v] applied(1) assms(2) by (cases "ident = aq_CallID req") (auto simp: keeps_but_def split: if_splits)
next
  case (operated oe v name req)
  then have "recalled oe ident (kindOperation @ name) A \<noteq> Inr None" using recalled_recent [OF assms(2)] assms(3) by force
  then show ?thesis using handleOperation_keeps [of oe req name A v] operated(1) assms(2) by (cases "ident = oq_CallID req") (auto simp: keeps_but_def split: if_splits)
next
  case (moded v state reason)
  then show ?thesis using assms(2) by (simp add: handleLifecycle_def split: option.splits)
next
  case (swept now)
  then show ?thesis using assms(2,3) by (auto simp: SweepIdempotency_def intro!: map_of_filter_kept)
qed (use assms(2) in simp)

lemma addon_steps_keep:
  assumes "(addon_step until)\<^sup>*\<^sup>* A A'" "map_of (na_calls A) ident = Some (Some e)" "until - ie_StoredAt e \<le> idempotencyTTL"
  shows "map_of (na_calls A') ident = Some (Some e)"
  using assms by (induction rule: rtranclp_induct) (auto intro: addon_step_keeps)

lemma gated_answer:
  assumes "gated oe A body = ((status, r), A1)" "\<And>l. r \<noteq> RLifecycle l" "\<And>w. r \<noteq> RVersion w"
  obtains l A' where "body (A\<lparr>na_life := l\<rparr>) = ((status, r), A')" "A1 = A'\<lparr>na_life := life_done (na_life A')\<rparr>"
  using assms by (auto simp: gated_def split: option.splits prod.splits)

lemma answered_is_kept:
  assumes "answered_call oe A ident kind r A1" "recalled oe ident kind A = Inr None" "ne_store (oe_nas oe) CRemember"
  shows "map_of (na_calls A1) ident = Some (Some \<lparr>ie_StoredAt = oe_now oe, ie_Kind = kind, ie_Result = r\<rparr>)" "trim_space ident \<noteq> []"
proof -
  consider (ap) H req status x where "handleApply oe H ContractVersion req A = ((status, RApply x), A1)" "status div 100 = 2"
      "ident = aq_CallID req" "kind = kindApply" "r = KApply x"
    | (op) name req status x where "handleOperation oe ContractVersion name req A = ((status, ROperation x), A1)" "mutatingOperation name"
      "ident = oq_CallID req" "kind = kindOperation @ name" "r = KOperation x"
    using assms(1) unfolding answered_call_def by blast
  then have "map_of (na_calls A1) ident = Some (Some \<lparr>ie_StoredAt = oe_now oe, ie_Kind = kind, ie_Result = r\<rparr>) \<and> trim_space ident \<noteq> []"
  proof cases
    case ap
    then have "trim_space ident \<noteq> []" "gated oe A (run_apply oe H req) = ((status, RApply x), A1)"
      using assms(2) by (auto simp: handleApply_def split: if_splits)
    then show ?thesis using ap(2-5) assms(3)
      by (auto elim!: gated_answer simp: run_apply_def remembered_def map_of_Remember split: prod.splits sum.splits nas_apply_error.splits)
  next
    case op
    then have "trim_space ident \<noteq> []" "gated oe A (run_operation oe name req) = ((status, ROperation x), A1)"
      using assms(2) by (auto simp: handleOperation_def split: if_splits)
    then show ?thesis using op(2-5) assms(3)
      by (auto elim!: gated_answer simp: run_operation_def remembered_def map_of_Remember split: prod.splits sum.splits)
  qed
  then show "map_of (na_calls A1) ident = Some (Some \<lparr>ie_StoredAt = oe_now oe, ie_Kind = kind, ie_Result = r\<rparr>)" "trim_space ident \<noteq> []" by auto
qed

lemma kind_nonempty: "answered_call oe A ident kind r A1 \<Longrightarrow> kind \<noteq> []"
  by (auto simp: answered_call_def kindApply_def kindOperation_def)


section \<open>A small add-on\<close>

definition desk_nas :: "unit nas_env" where
  "desk_nas = \<lparr>ne_floor = 0, ne_ceiling = 0, ne_store = (\<lambda>_. True), ne_self = None,
     user_query = (\<lambda>f n z. (Inr [\<lparr>nu_ID = ''7'', nu_Username = ''new'', nu_UID = 200001, nu_Locked = False, nu_SMB = False,
        nu_PasswordDisabled = True, nu_Builtin = False, nu_Groups = [], nu_Home = []\<rparr>], z)),
     group_query = (\<lambda>n z. (Inr [], z)), empty_groups = (\<lambda>_ z. (Inr [], z)), highest_uid = (\<lambda>_ _ z. (Inr [], z)), highest_gid = (\<lambda>_ _ z. (Inr [], z)),
     stat_owner = (\<lambda>_ z. (Inl NoSuchPath, z)), acl_places = (\<lambda>z. (Inr [], z)), get_quota = (\<lambda>_ _ z. (Inr [], z)),
     nas_write = (\<lambda>_ z. (Inr [], z))\<rparr>"

definition desk_env :: "unit op_env" where
  "desk_env = \<lparr>oe_nas = desk_nas, oe_now = 0, oe_mint = True, oe_elevated = (\<lambda>_ z. (True, z)), oe_version = ''TrueNAS-25.10.5'', oe_majors = [''25.10''],
     oe_reads = (\<lambda>_ _ z. ((Inl NoSuchOperation, 404), z))\<rparr>"

definition desk_binding :: binding where
  "desk_binding = \<lparr>b_SubjectID = ''ada'', b_Username = ''old'', b_UID = 200001, b_BoundBy = ''apply'', b_WantsSMB = None\<rparr>"

definition desk_server :: "unit nas_server" where
  "desk_server = \<lparr>ns_bindings = [(''ada'', desk_binding)], ns_high = None, ns_homeRoot = [], ns_writes = [], ns_log = [], ns_z = ()\<rparr>"

definition desk :: "unit nas_addon" where
  "desk = \<lparr>na_server = desk_server, na_calls = [], na_life = newLifecycle ''active''\<rparr>"

definition desk_call :: "string \<Rightarrow> op_call" where
  "desk_call subject = \<lparr>oq_CallID = ''c1'', oq_Operation = ''password.rotate'', oq_Subject = subject, oq_Actor = ''op'', oq_Params = [(''username'', PText ''new'')]\<rparr>"

lemma desk_answers: "\<exists>x A1. handleOperation desk_env ContractVersion ''password.rotate'' (desk_call ''ada'') desk = ((200, ROperation x), A1)"
proof -
  have v: "MajorSupported desk_env = None" by code_simp
  have l: "life_Begin (newLifecycle ''active'') = Some (newLifecycle ''active''\<lparr>li_inFlight := 1\<rparr>)"
    by (simp add: life_Begin_def newLifecycle_def life_Set_def LifecycleActive_def)
  have s: "ne_store desk_nas c" for c by (simp add: desk_nas_def)
  have b: "boundAccount desk_nas ''ada'' desk_server = Inr desk_binding" by (simp add: boundAccount_def s desk_server_def)
  have r: "recordID desk_nas desk_binding desk_server = (Inr ''7'', desk_server)"
    by (simp add: recordID_def lookupOne_def ask_def desk_nas_def desk_binding_def desk_server_def known_id_def)
  have "\<exists>x s. runOperation desk_env ''password.rotate'' (desk_call ''ada'') desk_server = (Inr x, 200, s)"
    by (simp add: runOperation_def rotatePassword_def desk_env_def desk_call_def b r do_write_def ask_def) (simp add: desk_nas_def)
  moreover have "recalled desk_env ''c1'' (kindOperation @ ''password.rotate'') desk = Inr None"
    by (simp add: recalled_def desk_env_def s Recall_def desk_def)
  moreover have "trim_space ''c1'' \<noteq> []" by code_simp
  ultimately show ?thesis
    by (auto simp: handleOperation_def desk_call_def mutatingOperation_def gated_def v l run_operation_def desk_def)
qed


text \<open>
  Adoption looks only at names. An account bound to one subject under a name it has since lost can be
  adopted by another under its new name: two subjects are then bound to one uid, and a credential
  set for either is set on the same account.
\<close>

lemma adoption_can_bind_twice:
  "case runOperation desk_env ''account.adopt'' (desk_call ''bob'') desk_server of (out, _, s) \<Rightarrow>
     \<not> isl out \<and> map_option b_UID (map_of (ns_bindings s) ''ada'') = Some 200001 \<and> map_option b_UID (map_of (ns_bindings s) ''bob'') = Some 200001"
proof -
  have r: "readSubjects desk_nas desk_server = (Inr \<lparr>sn_Subjects = [\<lparr>su_ID = ''7'', su_Username = ''new'', su_UID = 200001, su_Groups = [], su_Home = [], su_Enabled = True,
      su_SMBEnabled = False, su_PasswordSet = False, su_Self = False, su_Builtin = []\<rparr>], sn_Truncated = False\<rparr>, desk_server)"
    by (simp add: readSubjects_def readSubjectsWhere_def groupIndex_def readGroups_def ask_def desk_nas_def desk_server_def subjectReadCap_def index_groups_def
        withoutSystemAccounts_def systemUIDCeiling_def subject_of_def homeOf_def map_filter_simps)
  have t: "trim_space ''new'' = ''new''" "trim_space ''bob'' = ''bob''" by code_simp+
  have f: "ne_store desk_nas k" "refuseSelfAccount desk_nas n = None" "oe_nas desk_env = desk_nas" for k n
    by (simp_all add: desk_nas_def refuseSelfAccount_def self_known_def desk_env_def)
  have b: "ns_bindings desk_server = [(''ada'', desk_binding)]" "BoundUsernames [(''ada'', desk_binding)] = [(''old'', ''ada'')]"
    by (simp_all add: desk_server_def BoundUsernames_def desk_binding_def)
  have c: "oq_Subject (desk_call ''bob'') = ''bob''" "oq_Params (desk_call ''bob'') = [(''username'', PText ''new'')]"
    by (simp_all add: desk_call_def)
  have bind: "BindIfFree \<lparr>b_SubjectID = ''bob'', b_Username = ''new'', b_UID = 200001, b_BoundBy = a, b_WantsSMB = None\<rparr> [(''ada'', desk_binding)] =
      Inr [(''ada'', desk_binding), (''bob'', \<lparr>b_SubjectID = ''bob'', b_Username = ''new'', b_UID = 200001, b_BoundBy = a, b_WantsSMB = None\<rparr>)]" for a
    by (simp add: BindIfFree_def desk_binding_def PutBinding_def)
  have "\<exists>x s. runOperation desk_env ''account.adopt'' (desk_call ''bob'') desk_server = (Inr x, 200, s) \<and>
      ns_bindings s = [(''ada'', desk_binding), (''bob'', \<lparr>b_SubjectID = ''bob'', b_Username = ''new'', b_UID = 200001, b_BoundBy = oq_Actor (desk_call ''bob''), b_WantsSMB = None\<rparr>)]"
    by (simp add: runOperation_def adoptAccount_def Let_def f b c t r bind)
  then show ?thesis by (auto simp: desk_binding_def)
qed

text \<open>
  A release is not among the operations that count as mutating, so it is neither refused while the add-on is draining or
  read-only nor remembered.
\<close>

lemma release_is_not_gated:
  assumes "ne_store (oe_nas oe) CGetBinding" "ne_store (oe_nas oe) CDeleteBinding" "ne_store (oe_nas oe) CRecall"
    and "map_of (ns_bindings (na_server A)) (oq_Subject req) = Some b" "map_of (na_calls A) (oq_CallID req) = None"
    and "trim_space (oq_CallID req) \<noteq> []" "oq_Operation req = ''account.release''"
  shows "\<exists>x A1. handleOperation oe ContractVersion ''account.release'' req A = ((200, ROperation x), A1) \<and> na_calls A1 = na_calls A \<and>
     map_of (ns_bindings (na_server A1)) (oq_Subject req) = None"
proof -
  have "recalled oe (oq_CallID req) (kindOperation @ ''account.release'') A = Inr None" using assms(3,5) by (simp add: recalled_def Recall_def)
  moreover have "\<not> mutatingOperation ''account.release''" by (simp add: mutatingOperation_def)
  moreover have "\<exists>x s. runOperation oe ''account.release'' req (na_server A) = (Inr x, 200, s) \<and> map_of (ns_bindings s) (oq_Subject req) = None"
    using assms(1,2,4) by (simp add: runOperation_def releaseAccount_def DeleteBinding_def delete_conv')
  ultimately show ?thesis using assms(6,7) by (auto simp: handleOperation_def run_operation_def mutatingOperation_def)
qed

section \<open>Draining\<close>

text \<open>The lifecycle beside the number of mutations that have begun and not finished.\<close>

inductive life_step :: "lifecycle \<times> nat \<Rightarrow> lifecycle \<times> nat \<Rightarrow> bool" where
  begins: "life_Begin l = Some l' \<Longrightarrow> life_step (l, n) (l', Suc n)"
| finishes: "life_step (l, Suc n) (life_done l, n)"
| sets: "life_Set state reason l = Some l' \<Longrightarrow> life_step (l, n) (l', n)"

inductive_cases life_stepE: "life_step (l, n) (l', n')"

lemma life_counts:
  assumes "life_step\<^sup>*\<^sup>* (newLifecycle state, 0) (l, n)"
  shows "li_inFlight l = int n"
  using assms
proof (induction "(l, n)" arbitrary: l n rule: rtranclp_induct)
  case base
  then show ?case by (auto simp: newLifecycle_def Let_def life_Set_def)
next
  case (step y)
  obtain l0 n0 where y: "y = (l0, n0)" by (rule prod.exhaust)
  show ?case using step.hyps(2) step.hyps(3) [OF y] unfolding y
    by (auto elim!: life_stepE simp: life_Begin_def life_done_def life_Set_def split: if_splits)
qed

text \<open>A drained add-on has no mutation under way, and none begins until an operator makes it active again.\<close>

lemma drained_is_settled:
  assumes "life_step\<^sup>*\<^sup>* (newLifecycle state, 0) (l, n)" "life_Drained l"
  shows "n = 0" "life_step (l, n) (l', n') \<Longrightarrow> li_state l' \<noteq> LifecycleActive \<Longrightarrow> life_Drained l' \<and> n' = 0"
  using assms life_counts [OF assms(1)]
  by (auto simp: life_Drained_def life_Begin_def life_Set_def elim!: life_stepE split: if_splits)

text \<open>A name the configuration does not know leaves the add-on read-only, never serving.\<close>

lemma unknown_state_is_read_only: "state \<notin> {LifecycleActive, LifecycleDraining, LifecycleReadOnly} \<Longrightarrow> life_Begin (newLifecycle state) = None"
  by (simp add: newLifecycle_def life_Set_def life_Begin_def LifecycleActive_def LifecycleReadOnly_def)

section \<open>Planning a cohort\<close>

definition perRequestSubjectCap :: nat where "perRequestSubjectCap = 200"

record plan_response =
  pr_Outcomes :: "apply_outcome list"
  pr_Current :: bool
  pr_Truncated :: bool

datatype plan_reply = PlanContract int | PlanScope nat | PlanUnreadable nas_error | PlanStore | Planned plan_response

fun plan_all :: "'z nas_env \<Rightarrow> (string \<Rightarrow> string) \<Rightarrow> nas_plan_subject list \<Rightarrow> subject list \<Rightarrow> (string, string) gomap \<Rightarrow> bool \<Rightarrow> 'z nas_server \<Rightarrow> apply_outcome list \<times> 'z nas_server" where
  "plan_all env H [] subjects claimed short s = ([], s)"
| "plan_all env H (r # rs) subjects claimed short s =
     (case planOne env H r subjects claimed short s of (x, s1) \<Rightarrow>
        case plan_all env H rs subjects claimed short s1 of (xs, s2) \<Rightarrow> (x # xs, s2))"

text \<open>The mirror is the stored snapshot, none when there is none or it cannot be read.\<close>

definition handlePlan :: "'z nas_env \<Rightarrow> (string \<Rightarrow> string) \<Rightarrow> int \<Rightarrow> bool \<Rightarrow> nas_plan_subject list \<Rightarrow> snapshot option \<Rightarrow> 'z nas_server \<Rightarrow> (int \<times> plan_reply) \<times> 'z nas_server" where
  "handlePlan env H declared acknowledged reqs mirror s =
     (if declared \<noteq> ContractVersion then ((422, PlanContract declared), s)
      else if length reqs > perRequestSubjectCap \<and> \<not> acknowledged then ((422, PlanScope (length reqs)), s)
      else case readSubjects env s of (read, s1) \<Rightarrow>
        let use = (case read of Inr snap \<Rightarrow> Inr (snap, True)
                   | Inl e \<Rightarrow> (case (if ne_store env CSnapshot then mirror else None) of None \<Rightarrow> Inl e | Some snap \<Rightarrow> Inr (snap, False)))
        in case use of
             Inl e \<Rightarrow> ((nas_status e, PlanUnreadable e), s1)
           | Inr (snap, current) \<Rightarrow>
               if \<not> ne_store env CBoundNames then ((500, PlanStore), s1)
               else (case plan_all env H reqs (sn_Subjects snap) (BoundUsernames (ns_bindings s1)) (sn_Truncated snap) s1 of
                  (outs, s2) \<Rightarrow> ((200, Planned \<lparr>pr_Outcomes = outs, pr_Current = current, pr_Truncated = sn_Truncated snap\<rparr>), s2)))"

lemma plan_existing_reads: "plan_existing env H r d u s = (x, s') \<Longrightarrow> reads_only s s'"
  by (auto simp: plan_existing_def Let_def split: prod.splits sum.splits if_splits dest!: decideHome_reads quotaOwed_reads intro: reads_only_trans)

lemma planOne_reads: "planOne env H r subjects claimed short s = (x, s') \<Longrightarrow> reads_only s s'"
  by (auto simp: planOne_def Let_def split: sum.splits option.splits if_splits dest: plan_existing_reads)

lemma plan_all_reads: "plan_all env H rs subjects claimed short s = (xs, s') \<Longrightarrow> reads_only s s' \<and> length xs = length rs"
proof (induction rs arbitrary: s xs s')
  case (Cons r rs)
  obtain x s1 where x: "planOne env H r subjects claimed short s = (x, s1)" by (rule prod.exhaust)
  obtain ys s2 where y: "plan_all env H rs subjects claimed short s1 = (ys, s2)" by (rule prod.exhaust)
  show ?case using Cons.prems Cons.IH [OF y] planOne_reads [OF x] by (auto simp: x y intro: reads_only_trans)
qed simp

text \<open>A plan makes no mutating call and writes nothing of its own, whatever it answers; and it answers for every subject asked about.\<close>

lemma plan_only_reads:
  assumes "handlePlan env H v ack reqs mirror s = ((status, reply), s')"
  shows "reads_only s s'" "reply = Planned p \<Longrightarrow> length (pr_Outcomes p) = length reqs"
  using assms by (auto simp: handlePlan_def Let_def split: if_splits prod.splits sum.splits option.splits
      dest!: readSubjects_reads plan_all_reads intro: reads_only_trans)

end
