(* ===== verification/Merge.thy ===== *)
theory Merge
  imports Go_Prelude
begin

text \<open>
  \<^verbatim>\<open>src/backend/internal/services/merge/classify.go\<close>: the three-way merge of one subject's state on
  a target. What Syndra wants (\<open>ours\<close>), what the target holds (\<open>theirs\<close>) and what it held after the
  last apply (\<open>base\<close>) decide, field by field, who moved, and so whether a pass with nobody watching
  may write.

  A \<open>json.RawMessage\<close> is empty, a text that is no JSON, or a text that stands for the value it decodes
  to; an object's members are in the order of their keys, as Go encodes them. \<open>canonical\<close> encodes an
  array's elements and sorts the texts: two such lists are equal exactly when the arrays hold the same
  elements equally often, since distinct decoded values have distinct encodings, so the model keeps the
  bag of elements.
\<close>

section \<open>Values\<close>

datatype json_val =
    JNull
  | JBool bool
  | JNumber string
  | JString string
  | JArray "json_val list"
  | JObject "(string \<times> json_val) list"

datatype raw_message = RawEmpty | RawText string | RawValue json_val

datatype canonical_form = CanonBag "json_val multiset" | CanonOne json_val

definition canonical :: "json_val \<Rightarrow> canonical_form" where
  "canonical v = (case v of JArray xs \<Rightarrow> CanonBag (mset xs) | _ \<Rightarrow> CanonOne v)"

fun sameValue :: "raw_message \<Rightarrow> raw_message \<Rightarrow> bool" where
  "sameValue RawEmpty b = (b = RawEmpty)"
| "sameValue a RawEmpty = False"
| "sameValue (RawValue x) (RawValue y) = (canonical x = canonical y)"
| "sameValue a b = (a = b)"

section \<open>Outcomes\<close>

datatype merge_outcome = Unchanged | FastForward | AlreadyMerged | TheirsOnly | Conflict | NoBase | DeletedUpstream

type_synonym field_map = "(string, raw_message) gomap"

record FieldOutcome =
  fo_Field :: string
  fo_Outcome :: merge_outcome
  fo_Base :: raw_message
  fo_Ours :: raw_message
  fo_Theirs :: raw_message

record SubjectFinding =
  sf_SubjectID :: string
  sf_Field :: string
  sf_Outcome :: merge_outcome
  sf_Base :: raw_message
  sf_Ours :: raw_message
  sf_Theirs :: raw_message

record merge_subject =
  ms_SubjectID :: string
  ms_Fields :: "FieldOutcome list"
  ms_Absent :: bool

definition resolvable :: "merge_outcome \<Rightarrow> bool" where
  "resolvable x \<longleftrightarrow> x \<in> {Unchanged, FastForward, AlreadyMerged, NoBase}"

definition Convergeable :: "merge_subject \<Rightarrow> bool" where
  "Convergeable s \<longleftrightarrow> \<not> ms_Absent s \<and> list_all (\<lambda>f. resolvable (fo_Outcome f)) (ms_Fields s)"

definition finding_of :: "string \<Rightarrow> FieldOutcome \<Rightarrow> SubjectFinding" where
  "finding_of sid f = \<lparr>sf_SubjectID = sid, sf_Field = fo_Field f, sf_Outcome = fo_Outcome f, sf_Base = fo_Base f, sf_Ours = fo_Ours f, sf_Theirs = fo_Theirs f\<rparr>"

definition Findings :: "merge_subject \<Rightarrow> SubjectFinding list" where
  "Findings s =
     (if ms_Absent s then
        [\<lparr>sf_SubjectID = ms_SubjectID s, sf_Field = [], sf_Outcome = DeletedUpstream, sf_Base = RawEmpty, sf_Ours = RawEmpty, sf_Theirs = RawEmpty\<rparr>]
      else map (finding_of (ms_SubjectID s)) (filter (\<lambda>f. fo_Outcome f = Conflict \<or> fo_Outcome f = TheirsOnly) (ms_Fields s)))"

definition raw_at :: "field_map \<Rightarrow> string \<Rightarrow> raw_message" where
  "raw_at m f = (case map_of m f of None \<Rightarrow> RawEmpty | Some v \<Rightarrow> v)"

text \<open>The switch of the loop; a missing entry of a map is \<open>None\<close>.\<close>

definition field_outcome :: "raw_message \<Rightarrow> raw_message option \<Rightarrow> raw_message option \<Rightarrow> merge_outcome" where
  "field_outcome ours theirs base =
     (case base of
        None \<Rightarrow> (case theirs of Some t \<Rightarrow> if sameValue ours t then Unchanged else NoBase | None \<Rightarrow> NoBase)
      | Some b \<Rightarrow>
          (case theirs of
             None \<Rightarrow> TheirsOnly
           | Some t \<Rightarrow>
               if sameValue ours t then (if sameValue b t then Unchanged else AlreadyMerged)
               else if sameValue b t then FastForward
               else if sameValue b ours then TheirsOnly
               else Conflict))"

definition Classify :: "string \<Rightarrow> field_map \<Rightarrow> field_map \<Rightarrow> field_map \<Rightarrow> merge_subject" where
  "Classify sid ours theirs base =
     \<lparr>ms_SubjectID = sid,
      ms_Fields = map (\<lambda>f. \<lparr>fo_Field = f, fo_Outcome = field_outcome (raw_at ours f) (map_of theirs f) (map_of base f),
                     fo_Base = raw_at base f, fo_Ours = raw_at ours f, fo_Theirs = raw_at theirs f\<rparr>) (sort (map fst ours)),
      ms_Absent = False\<rparr>"

definition merge_Absent :: "string \<Rightarrow> merge_subject" where
  "merge_Absent sid = \<lparr>ms_SubjectID = sid, ms_Fields = [], ms_Absent = True\<rparr>"

section \<open>Agreement is an equivalence\<close>

text \<open>Two values agree when they have the same meaning; \<open>meaning\<close> is what the code compares.\<close>

definition meaning :: "raw_message \<Rightarrow> canonical_form + string option" where
  "meaning r = (case r of RawEmpty \<Rightarrow> Inr None | RawText s \<Rightarrow> Inr (Some s) | RawValue v \<Rightarrow> Inl (canonical v))"

lemma sameValue_meaning: "sameValue a b \<longleftrightarrow> meaning a = meaning b"
  by (cases a; cases b) (auto simp: meaning_def)

lemma sameValue_refl [simp]: "sameValue a a"
  by (simp add: sameValue_meaning)

lemma sameValue_sym: "sameValue a b \<longleftrightarrow> sameValue b a"
  by (auto simp: sameValue_meaning)

lemma sameValue_trans [trans]: "sameValue a b \<Longrightarrow> sameValue b c \<Longrightarrow> sameValue a c"
  by (simp add: sameValue_meaning)

lemma sameValue_arrays: "sameValue (RawValue (JArray xs)) (RawValue (JArray ys)) \<longleftrightarrow> mset xs = mset ys"
  by (simp add: canonical_def)

section \<open>Who moved\<close>

text \<open>
  With a base and a report, the outcome is the table of who moved away from the base: nobody, Syndra,
  the target, or both, in the last case to the same value or not.
\<close>

lemma field_outcome_moved:
  "field_outcome ours (Some t) (Some b) =
     (if \<not> sameValue b ours \<and> \<not> sameValue b t then (if sameValue ours t then AlreadyMerged else Conflict)
      else if \<not> sameValue b t then TheirsOnly
      else if \<not> sameValue b ours then FastForward
      else Unchanged)"
  by (auto simp: field_outcome_def sameValue_meaning)

lemma resolvable_cases [simp]:
  "resolvable Unchanged" "resolvable FastForward" "resolvable AlreadyMerged" "resolvable NoBase"
  "\<not> resolvable TheirsOnly" "\<not> resolvable Conflict" "\<not> resolvable DeletedUpstream"
  by (simp_all add: resolvable_def)

text \<open>A write that would take a value nobody here put there: the target moved it, and it is not what is wanted.\<close>

definition overwrites :: "raw_message \<Rightarrow> raw_message option \<Rightarrow> raw_message option \<Rightarrow> bool" where
  "overwrites ours theirs base \<longleftrightarrow>
     (\<exists>b. base = Some b \<and> (case theirs of None \<Rightarrow> True | Some t \<Rightarrow> \<not> sameValue b t \<and> \<not> sameValue ours t))"

lemma overwrites_no_base [simp]: "\<not> overwrites ours theirs None"
  by (simp add: overwrites_def)

lemma resolvable_iff: "resolvable (field_outcome ours theirs base) \<longleftrightarrow> \<not> overwrites ours theirs base"
  by (cases base; cases theirs) (auto simp: field_outcome_moved overwrites_def field_outcome_def [of _ None] field_outcome_def [of _ _ None] sameValue_meaning)

lemma finding_iff:
  "field_outcome ours theirs base = Conflict \<or> field_outcome ours theirs base = TheirsOnly \<longleftrightarrow> overwrites ours theirs base"
  by (cases base; cases theirs) (auto simp: field_outcome_moved overwrites_def field_outcome_def [of _ None] field_outcome_def [of _ _ None] sameValue_meaning)

lemma Classify_simps [simp]:
  "ms_SubjectID (Classify sid ours theirs base) = sid" "\<not> ms_Absent (Classify sid ours theirs base)"
  "map fo_Field (ms_Fields (Classify sid ours theirs base)) = sort (map fst ours)"
  by (simp_all add: Classify_def comp_def)

lemma Convergeable_iff:
  "Convergeable (Classify sid ours theirs base) \<longleftrightarrow> (\<forall>f \<in> fst ` set ours. \<not> overwrites (raw_at ours f) (map_of theirs f) (map_of base f))"
  by (simp add: Convergeable_def Classify_def list_all_iff resolvable_iff)

lemma Findings_fields:
  "sf_Field ` set (Findings (Classify sid ours theirs base)) = {f \<in> fst ` set ours. overwrites (raw_at ours f) (map_of theirs f) (map_of base f)}"
proof -
  let ?out = "\<lambda>f. field_outcome (raw_at ours f) (map_of theirs f) (map_of base f)"
  have "sf_Field ` set (Findings (Classify sid ours theirs base)) = {f \<in> fst ` set ours. ?out f = Conflict \<or> ?out f = TheirsOnly}"
    by (simp add: Findings_def Classify_def finding_of_def filter_map comp_def image_image)
  then show ?thesis by (simp only: finding_iff)
qed

lemma Findings_Nil_iff: "Findings (Classify sid ours theirs base) = [] \<longleftrightarrow> Convergeable (Classify sid ours theirs base)"
proof -
  have "Findings (Classify sid ours theirs base) = [] \<longleftrightarrow> sf_Field ` set (Findings (Classify sid ours theirs base)) = {}" by simp
  also have "\<dots> \<longleftrightarrow> Convergeable (Classify sid ours theirs base)" by (auto simp: Findings_fields Convergeable_iff)
  finally show ?thesis .
qed

lemma Absent_finding [simp]: "\<not> Convergeable (merge_Absent sid)" "map sf_Outcome (Findings (merge_Absent sid)) = [DeletedUpstream]"
    "map sf_Field (Findings (merge_Absent sid)) = [[]]"
  by (simp_all add: Convergeable_def merge_Absent_def Findings_def)

text \<open>Without a base nothing is attributed to anybody, so the subject converges.\<close>

lemma Classify_baseless: "Convergeable (Classify sid ours theirs [])"
  by (simp add: Convergeable_iff overwrites_def)

text \<open>The order the target lists the members of a group in makes no finding.\<close>

lemma order_is_no_conflict:
  assumes "mset xs = mset ys"
  shows "Convergeable (Classify sid [(f, RawValue (JArray xs))] [(f, RawValue (JArray ys))] base)"
  using assms by (simp add: Convergeable_iff overwrites_def raw_at_def canonical_def)

end
