(* ===== verification/Entitlement.thy ===== *)
theory Entitlement
  imports Access Merge
begin

text \<open>
  \<^verbatim>\<open>src/backend/internal/services/entitlement.go\<close> and \<^verbatim>\<open>db/allowances.go\<close>: what a subject should hold on
  an add-on target. The roles a person holds (\<^verbatim>\<open>services/views.go\<close>, \<open>collectUserRoles\<close>) select mappings,
  denials take values away, a person's own values replace fields, and the account's lifecycle follows from
  what is left and from the directory. The allowances live in a table whose writes are here too.

  A table is the list of its rows in the order of their insertion, \<open>now\<close> is the database's clock, and
  \<open>takes\<close> says whether the database takes the transaction. The names of projects and the reasons
  shown beside a role are left out of \<open>collectUserRoles\<close>.
\<close>

section \<open>Allowances\<close>

record Allowance =
  al_ID :: string
  al_SubjectID :: string
  al_Target :: string
  al_Field :: string
  al_Value :: string
  al_Direction :: string
  al_ActorID :: string
  al_Reason :: string
  al_CreatedAt :: time
  al_ExpiresAt :: "time option"
  al_ReviewDate :: "time option"
  al_LiftedAt :: "time option"
  al_LiftedBy :: string

definition AllowanceDeny :: string where "AllowanceDeny = ''deny''"
definition AllowanceAllow :: string where "AllowanceAllow = ''allow''"
definition AllowanceSet :: string where "AllowanceSet = ''set''"

datatype allowance_error =
    ErrAllowanceUnbounded
  | ErrAllowanceAdditiveUnsupported
  | ErrAllowanceInvalid
  | ErrAllowanceNotFound
  | ErrAllowanceAlreadyInForce
  | ErrAllowanceDatabase

definition InForce :: "time \<Rightarrow> Allowance \<Rightarrow> bool" where
  "InForce now a \<longleftrightarrow> al_LiftedAt a = None \<and> (case al_ExpiresAt a of None \<Rightarrow> True | Some e \<Rightarrow> now < e)"

definition ReviewDue :: "time \<Rightarrow> Allowance \<Rightarrow> bool" where
  "ReviewDue now a \<longleftrightarrow> InForce now a \<and> (case al_ReviewDate a of None \<Rightarrow> False | Some d \<Rightarrow> d \<le> now)"

definition validate_allowance :: "Allowance \<Rightarrow> allowance_error option" where
  "validate_allowance a =
     (if list_ex (\<lambda>v. trim_space v = []) [al_SubjectID a, al_Target a, al_Field a, al_Value a, al_ActorID a, al_Reason a]
      then Some ErrAllowanceInvalid
      else if al_Direction a = AllowanceAllow then Some ErrAllowanceAdditiveUnsupported
      else if al_Direction a \<noteq> AllowanceDeny \<and> al_Direction a \<noteq> AllowanceSet then Some ErrAllowanceInvalid
      else if al_ExpiresAt a = None \<and> al_ReviewDate a = None then Some ErrAllowanceUnbounded
      else None)"

definition same_slot :: "Allowance \<Rightarrow> Allowance \<Rightarrow> bool" where
  "same_slot a r \<longleftrightarrow> al_SubjectID r = al_SubjectID a \<and> al_Target r = al_Target a \<and> al_Field r = al_Field a \<and> al_Direction r = al_Direction a"

definition lift_row :: "time \<Rightarrow> string \<Rightarrow> Allowance \<Rightarrow> Allowance" where
  "lift_row now actor r = r\<lparr>al_LiftedAt := Some now, al_LiftedBy := actor\<rparr>"

definition insert_allowance :: "time \<Rightarrow> string \<Rightarrow> Allowance \<Rightarrow> Allowance" where
  "insert_allowance now fresh a = a\<lparr>al_ID := fresh, al_CreatedAt := now, al_LiftedAt := None, al_LiftedBy := []\<rparr>"

definition CreateAllowance ::
  "bool \<Rightarrow> time \<Rightarrow> string \<Rightarrow> Allowance \<Rightarrow> Allowance list \<Rightarrow> (allowance_error option \<times> Allowance) \<times> Allowance list"
where
  "CreateAllowance takes now fresh a rows =
     (case validate_allowance a of
        Some e \<Rightarrow> ((Some e, a), rows)
      | None \<Rightarrow>
          if \<not> takes then ((Some ErrAllowanceDatabase, a), rows)
          else if al_Direction a = AllowanceSet then
            ((None, a\<lparr>al_ID := fresh, al_CreatedAt := now\<rparr>),
             map (\<lambda>r. if same_slot a r \<and> InForce now r then lift_row now (al_ActorID a) r else r) rows @ [insert_allowance now fresh a])
          else
            (case find (\<lambda>r. same_slot a r \<and> al_Value r = al_Value a \<and> InForce now r) rows of
               Some r \<Rightarrow> ((Some ErrAllowanceAlreadyInForce, a\<lparr>al_ID := al_ID r, al_ExpiresAt := al_ExpiresAt r\<rparr>), rows)
             | None \<Rightarrow> ((None, a\<lparr>al_ID := fresh, al_CreatedAt := now\<rparr>), rows @ [insert_allowance now fresh a])))"

definition uuid_hex :: "char \<Rightarrow> bool" where
  "uuid_hex c \<longleftrightarrow> is_digit c \<or> (let n = of_char c :: nat in (97 \<le> n \<and> n \<le> 102) \<or> (65 \<le> n \<and> n \<le> 70))"

definition looksLikeUUID :: "string \<Rightarrow> bool" where
  "looksLikeUUID s \<longleftrightarrow> length s = 36 \<and>
     list_all (\<lambda>(i, c). if i \<in> {8, 13, 18, 23 :: nat} then c = CHR ''-'' else uuid_hex c) (zip [0..<36] s)"

definition LiftAllowance ::
  "bool \<Rightarrow> time \<Rightarrow> string \<Rightarrow> string \<Rightarrow> Allowance list \<Rightarrow> (allowance_error + string \<times> string) \<times> Allowance list"
where
  "LiftAllowance takes now ident actor rows =
     (if \<not> looksLikeUUID ident then (Inl ErrAllowanceNotFound, rows)
      else if \<not> takes then (Inl ErrAllowanceDatabase, rows)
      else
        (case find (\<lambda>r. al_ID r = ident \<and> al_LiftedAt r = None) rows of
           None \<Rightarrow> (Inl ErrAllowanceNotFound, rows)
         | Some r \<Rightarrow> (Inr (al_SubjectID r, al_Target r),
             map (\<lambda>x. if al_ID x = ident \<and> al_LiftedAt x = None then lift_row now actor x else x) rows)))"

definition by_created :: "Allowance \<Rightarrow> Allowance \<Rightarrow> int" where
  "by_created a b = al_CreatedAt a - al_CreatedAt b"

definition AllowancesInForce :: "time \<Rightarrow> string \<Rightarrow> string \<Rightarrow> Allowance list \<Rightarrow> Allowance list" where
  "AllowancesInForce now sid target rows =
     sort_by by_created (filter (\<lambda>r. al_SubjectID r = sid \<and> al_Target r = target \<and> InForce now r) rows)"

definition AllowancesDueForReview :: "time \<Rightarrow> Allowance list \<Rightarrow> Allowance list" where
  "AllowancesDueForReview now rows =
     sort_by (\<lambda>a b. (case (al_ReviewDate a, al_ReviewDate b) of (Some x, Some y) \<Rightarrow> x - y | _ \<Rightarrow> 0))
       (filter (\<lambda>r. al_Direction r \<in> {AllowanceDeny, AllowanceSet} \<and> ReviewDue now r) rows)"

definition expired :: "time \<Rightarrow> Allowance \<Rightarrow> bool" where
  "expired now r \<longleftrightarrow> al_LiftedAt r = None \<and> (case al_ExpiresAt r of None \<Rightarrow> False | Some e \<Rightarrow> e \<le> now)"

definition LapsedAllowances :: "time \<Rightarrow> int \<Rightarrow> Allowance list \<Rightarrow> Allowance list" where
  "LapsedAllowances now limit rows =
     take (nat (if limit \<le> 0 then 500 else limit))
       (sort_by (\<lambda>a b. (case (al_ExpiresAt a, al_ExpiresAt b) of (Some x, Some y) \<Rightarrow> x - y | _ \<Rightarrow> 0)) (filter (expired now) rows))"

text \<open>The sweep's update; its audit row is the second component: the subject, the action and the allowance.\<close>

definition ResolveLapsedAllowance ::
  "time \<Rightarrow> string \<Rightarrow> Allowance list \<Rightarrow> Allowance list \<times> (string \<times> string \<times> string) list"
where
  "ResolveLapsedAllowance now ident rows =
     (map (\<lambda>r. if al_ID r = ident \<and> expired now r then lift_row now ''expiry_sweep'' r else r) rows,
      map (\<lambda>r. (al_SubjectID r, ''allowance.'' @ al_Target r @ ''.lapsed'', al_ID r)) (filter (\<lambda>r. al_ID r = ident \<and> expired now r) rows))"

section \<open>The roles a person holds\<close>

record person_sources =
  ps_grants :: "(role_key \<times> time option) list"
  ps_bundles :: "string list"
  ps_bundle_roles :: "(string, role_key list) gomap"
  ps_rules :: "mapping_rule list"

definition role_hold :: "role_key \<Rightarrow> time \<Rightarrow> (role_key, time) gomap \<Rightarrow> (role_key, time) gomap" where
  "role_hold k e base = AList.update k (case map_of base k of Some cur \<Rightarrow> Later cur e | None \<Rightarrow> e) base"

definition bundle_roles_of :: "person_sources \<Rightarrow> role_key list" where
  "bundle_roles_of p = concat (map (\<lambda>b. case map_of (ps_bundle_roles p) b of Some rs \<Rightarrow> rs | None \<Rightarrow> []) (ps_bundles p))"

definition role_base :: "person_sources \<Rightarrow> (role_key, time) gomap" where
  "role_base p =
     fold (\<lambda>(k, e). role_hold k e)
       (map (\<lambda>(k, e). (k, case e of Some t \<Rightarrow> t | None \<Rightarrow> zero_time)) (ps_grants p) @ map (\<lambda>k. (k, zero_time)) (bundle_roles_of p)) []"

definition collectUserRoles :: "person_sources \<Rightarrow> role_key goset" where
  "collectUserRoles p =
     (let base = role_base p;
          closure = map (\<lambda>kv. (fst kv, True)) (Ends base (ps_rules p) RoleKey)
      in add_keys (map (tgt_of RoleKey) (Fired closure (ps_rules p) RoleKey))
           (add_keys (bundle_roles_of p) (add_keys (map fst (ps_grants p)) [])))"

definition effectiveRoleRefs :: "person_sources \<Rightarrow> role_key list" where
  "effectiveRoleRefs p = sort (held_keys (collectUserRoles p))"

section \<open>Mappings\<close>

record RoleMapping =
  rm_ID :: string
  rm_Target :: string
  rm_ProjectID :: string
  rm_RoleKey :: string
  rm_Field :: string
  rm_Value :: string

definition by_mapping :: "RoleMapping \<Rightarrow> RoleMapping \<Rightarrow> int" where
  "by_mapping a b =
     (if rm_ProjectID a \<noteq> rm_ProjectID b then str_cmp (rm_ProjectID a) (rm_ProjectID b)
      else if rm_RoleKey a \<noteq> rm_RoleKey b then str_cmp (rm_RoleKey a) (rm_RoleKey b)
      else str_cmp (rm_Field a) (rm_Field b))"

definition MappingsForRoles :: "string \<Rightarrow> role_key list \<Rightarrow> RoleMapping list \<Rightarrow> RoleMapping list" where
  "MappingsForRoles target roles rows =
     (if roles = [] then []
      else sort_by by_mapping
        (concat (map (\<lambda>m. map (\<lambda>_. m) (filter (\<lambda>r. ProjectID r = rm_ProjectID m \<and> RoleOf r = rm_RoleKey m) roles))
           (filter (\<lambda>m. rm_Target m = target) rows))))"

section \<open>Resolution\<close>

definition LifecycleEnabled :: string where "LifecycleEnabled = ''enabled''"
definition LifecycleSMBEnabled :: string where "LifecycleSMBEnabled = ''smb_enabled''"

definition IsLifecycleField :: "string \<Rightarrow> bool" where
  "IsLifecycleField f \<longleftrightarrow> f = LifecycleEnabled \<or> f = LifecycleSMBEnabled"

record Suppressed =
  sp_Field :: string
  sp_Value :: string
  sp_AllowanceID :: string
  sp_ActorID :: string
  sp_Reason :: string
  sp_Since :: time

record LifecycleState =
  lc_Enabled :: bool
  lc_SMBEnabled :: bool
  lc_NotAMember :: bool
  lc_Reason :: string

record EntitlementSet =
  es_SubjectID :: string
  es_Target :: string
  es_Fields :: "(string, string list) gomap"
  es_Suppressed :: "Suppressed list"
  es_Lifecycle :: LifecycleState
  es_Given :: "(string, role_key list) gomap"

text \<open>The key \<^verbatim>\<open>field + "\x00" + value\<close>.\<close>

definition term_key :: "string \<Rightarrow> string \<Rightarrow> string" where
  "term_key f v = f @ CHR 0x00 # v"

definition suppress :: "string \<Rightarrow> string \<Rightarrow> Allowance \<Rightarrow> Suppressed" where
  "suppress f v a = \<lparr>sp_Field = f, sp_Value = v, sp_AllowanceID = al_ID a, sp_ActorID = al_ActorID a, sp_Reason = al_Reason a, sp_Since = al_CreatedAt a\<rparr>"

fun sort_allowances ::
  "Allowance list \<Rightarrow> (string, Allowance) gomap \<Rightarrow> (string, Allowance) gomap \<Rightarrow> (string, Allowance) gomap \<times> (string, Allowance) gomap"
where
  "sort_allowances [] denied overrides = (denied, overrides)"
| "sort_allowances (a # as) denied overrides =
     (if al_Direction a = AllowanceSet then
        sort_allowances as denied
          (case map_of overrides (al_Field a) of
             None \<Rightarrow> AList.update (al_Field a) a overrides
           | Some prev \<Rightarrow> if al_CreatedAt prev < al_CreatedAt a then AList.update (al_Field a) a overrides else overrides)
      else if al_Direction a \<noteq> AllowanceDeny then sort_allowances as denied overrides
      else sort_allowances as (AList.update (term_key (al_Field a) (al_Value a)) a denied) overrides)"

record role_layer =
  rl_mapped :: bool
  rl_values :: "(string, string goset) gomap"
  rl_suppressed :: "Suppressed list"
  rl_given :: "(string, role_key list) gomap"

definition no_layer :: role_layer where
  "no_layer = \<lparr>rl_mapped = False, rl_values = [], rl_suppressed = [], rl_given = []\<rparr>"

definition map_default :: "'v \<Rightarrow> ('k, 'v) gomap \<Rightarrow> 'k \<Rightarrow> 'v" where
  "map_default d m k = (case map_of m k of None \<Rightarrow> d | Some v \<Rightarrow> v)"

fun layer_roles :: "(string, Allowance) gomap \<Rightarrow> RoleMapping list \<Rightarrow> role_layer \<Rightarrow> role_layer" where
  "layer_roles denied [] l = l"
| "layer_roles denied (m # ms) l =
     (if IsLifecycleField (rm_Field m) then layer_roles denied ms l
      else let l' = l\<lparr>rl_mapped := True\<rparr>; key = term_key (rm_Field m) (rm_Value m)
        in case map_of denied key of
             Some a \<Rightarrow> layer_roles denied ms (l'\<lparr>rl_suppressed := rl_suppressed l' @ [suppress (rm_Field m) (rm_Value m) a]\<rparr>)
           | None \<Rightarrow> layer_roles denied ms
               (l'\<lparr>rl_values := AList.update (rm_Field m) (AList.update (rm_Value m) True (map_default [] (rl_values l') (rm_Field m))) (rl_values l'),
                   rl_given := AList.update key (map_default [] (rl_given l') key @ [RoleKey (rm_ProjectID m) (rm_RoleKey m)]) (rl_given l')\<rparr>))"

definition sorted_values :: "string goset \<Rightarrow> string list" where
  "sorted_values m = sort (map fst m)"

fun fill_fields :: "(string, string goset) gomap \<Rightarrow> RoleMapping list \<Rightarrow> (string, string list) gomap \<Rightarrow> (string, string list) gomap" where
  "fill_fields values [] fs = fs"
| "fill_fields values (m # ms) fs =
     (if IsLifecycleField (rm_Field m) \<or> map_of fs (rm_Field m) \<noteq> None then fill_fields values ms fs
      else fill_fields values ms (AList.update (rm_Field m) (sorted_values (map_default [] values (rm_Field m))) fs))"

fun override_fields :: "(string, Allowance) gomap \<Rightarrow> (string, string list) gomap \<Rightarrow> (string, string list) gomap" where
  "override_fields [] fs = fs"
| "override_fields ((f, a) # os) fs =
     override_fields os (if IsLifecycleField f then fs else AList.update f [al_Value a] fs)"

definition resolveLifecycle :: "bool \<Rightarrow> (string, Allowance) gomap \<Rightarrow> LifecycleState \<times> Suppressed list" where
  "resolveLifecycle mapped denied =
     (let en = map_of denied (term_key LifecycleEnabled ''true''); smb = map_of denied (term_key LifecycleSMBEnabled ''true'')
      in (\<lparr>lc_Enabled = (mapped \<and> en = None), lc_SMBEnabled = (mapped \<and> en = None \<and> smb = None), lc_NotAMember = False, lc_Reason = []\<rparr>,
          (case en of Some a \<Rightarrow> [suppress LifecycleEnabled ''true'' a] | None \<Rightarrow> []) @
          (case smb of Some a \<Rightarrow> [suppress LifecycleSMBEnabled ''true'' a] | None \<Rightarrow> [])))"

text \<open>\<open>svcFindUser\<close> answers with an error, with nobody, or with a profile's status.\<close>

definition applyDirectoryStanding :: "string + string option \<Rightarrow> LifecycleState \<Rightarrow> LifecycleState" where
  "applyDirectoryStanding profile lc =
     (case profile of
        Inr (Some status) \<Rightarrow>
          if Left status then
            lc\<lparr>lc_Enabled := False, lc_SMBEnabled := False, lc_NotAMember := True,
               lc_Reason := ''the directory reports this person as '' @ to_lower (trim_space status)\<rparr>
          else lc
      | _ \<Rightarrow> lc)"

definition by_term :: "Suppressed \<Rightarrow> Suppressed \<Rightarrow> int" where
  "by_term a b = (if sp_Field a \<noteq> sp_Field b then str_cmp (sp_Field a) (sp_Field b) else str_cmp (sp_Value a) (sp_Value b))"

definition resolve_set :: "string \<Rightarrow> string \<Rightarrow> RoleMapping list \<Rightarrow> Allowance list \<Rightarrow> string + string option \<Rightarrow> EntitlementSet" where
  "resolve_set sid target mappings allowances profile =
     (case sort_allowances allowances [] [] of (denied, overrides) \<Rightarrow>
        let l = layer_roles denied mappings no_layer;
            fs = fill_fields (rl_values l) mappings [];
            (lc, sup) = resolveLifecycle (rl_mapped l) denied
        in \<lparr>es_SubjectID = sid, es_Target = target,
            es_Fields = (if rl_mapped l then override_fields overrides fs else fs),
            es_Suppressed = sort_by by_term (rl_suppressed l @ sup),
            es_Lifecycle = applyDirectoryStanding profile lc,
            es_Given = rl_given l\<rparr>)"

text \<open>Each read may fail, and the first that does ends the resolution.\<close>

definition ResolveEntitlements ::
  "string \<Rightarrow> string \<Rightarrow> string + role_key list \<Rightarrow> (role_key list \<Rightarrow> string + RoleMapping list) \<Rightarrow> string + Allowance list
     \<Rightarrow> string + string option \<Rightarrow> string + EntitlementSet"
where
  "ResolveEntitlements sid target roles mappingsFor allowances profile =
     (case roles of Inl e \<Rightarrow> Inl e
      | Inr held_roles \<Rightarrow>
          (case mappingsFor held_roles of Inl e \<Rightarrow> Inl e
           | Inr ms \<Rightarrow> (case allowances of Inl e \<Rightarrow> Inl e | Inr as \<Rightarrow> Inr (resolve_set sid target ms as profile))))"

section \<open>The desired state on the wire\<close>

definition boolJSON :: "bool \<Rightarrow> raw_message" where
  "boolJSON b = RawValue (JBool b)"

fun desired_fields :: "(string, string list) gomap \<Rightarrow> field_map \<Rightarrow> field_map" where
  "desired_fields [] out = out"
| "desired_fields ((f, vs) # rest) out =
     desired_fields rest (if IsLifecycleField f then out else AList.update f (RawValue (JArray (map JString vs))) out)"

definition Desired :: "EntitlementSet \<Rightarrow> field_map" where
  "Desired s =
     AList.update LifecycleSMBEnabled (boolJSON (lc_SMBEnabled (es_Lifecycle s)))
       (AList.update LifecycleEnabled (boolJSON (lc_Enabled (es_Lifecycle s))) (desired_fields (es_Fields s) []))"

section \<open>Terms an operator may write\<close>

definition NormaliseTerm :: "string \<Rightarrow> string \<Rightarrow> string \<times> string" where
  "NormaliseTerm f v = (trim_space f, trim_space v)"

definition ValidateAllowanceTerm :: "string list \<Rightarrow> string \<Rightarrow> string \<Rightarrow> (string \<times> string) option" where
  "ValidateAllowanceTerm declared f v =
     (case NormaliseTerm f v of (f', v') \<Rightarrow>
        if f' = [] \<or> v' = [] then None
        else if f' \<notin> set declared then None
        else if IsLifecycleField f' \<and> v' \<noteq> ''true'' then None
        else Some (f', v'))"

definition ValidateMappingField :: "string list \<Rightarrow> string \<Rightarrow> bool" where
  "ValidateMappingField declared f =
     (let f' = trim_space f in f' \<noteq> [] \<and> \<not> IsLifecycleField f' \<and> f' \<in> set declared)"

section \<open>What the loops compute\<close>

definition source_roles :: "person_sources \<Rightarrow> role_key set" where
  "source_roles p = fst ` set (ps_grants p) \<union> set (bundle_roles_of p)"

lemma map_of_role_hold: "map_of (role_hold k e base) j = None \<longleftrightarrow> j \<noteq> k \<and> map_of base j = None"
  by (simp add: role_hold_def)

lemma map_of_hold_fold: "map_of (fold (\<lambda>(k, e). role_hold k e) ks base) j = None \<longleftrightarrow> j \<notin> fst ` set ks \<and> map_of base j = None"
  by (induction ks arbitrary: base) (auto simp: map_of_role_hold)

lemma role_base_dom: "map_of (role_base p) k \<noteq> None \<longleftrightarrow> k \<in> source_roles p"
  by (force simp: role_base_def map_of_hold_fold source_roles_def)

lemma held_collect:
  "held (collectUserRoles p) k \<longleftrightarrow> (\<exists>b \<in> source_roles p. (b, k) \<in> (rule_edges RoleKey (ps_rules p))\<^sup>*)"
proof -
  let ?E = "rule_edges RoleKey (ps_rules p)" and ?closure = "map (\<lambda>kv. (fst kv, True)) (Ends (role_base p) (ps_rules p) RoleKey)"
  have closure: "held ?closure j \<longleftrightarrow> (\<exists>b \<in> source_roles p. (b, j) \<in> ?E\<^sup>*)" for j
    using Ends_sound [of "role_base p" RoleKey "ps_rules p"] Ends_complete [of _ j RoleKey "ps_rules p" "role_base p"] role_base_dom [of p]
    unfolding held_True_map ends_sound_def by blast
  have "held (collectUserRoles p) k \<longleftrightarrow> k \<in> source_roles p \<or> (\<exists>r \<in> set (ps_rules p). held ?closure (src_of RoleKey r) \<and> tgt_of RoleKey r = k)"
    by (auto simp: collectUserRoles_def Let_def set_Fired source_roles_def)
  also have "\<dots> \<longleftrightarrow> (\<exists>b \<in> source_roles p. (b, k) \<in> ?E\<^sup>*)"
  proof
    assume "\<exists>b \<in> source_roles p. (b, k) \<in> ?E\<^sup>*"
    then obtain b where b: "b \<in> source_roles p" "(b, k) \<in> ?E\<^sup>*" by blast
    from b(2) show "k \<in> source_roles p \<or> (\<exists>r \<in> set (ps_rules p). held ?closure (src_of RoleKey r) \<and> tgt_of RoleKey r = k)"
    proof (cases rule: rtranclE)
      case (step j)
      then show ?thesis using b(1) closure [of j] by (auto simp: rule_edges_def)
    qed (use b in simp)
  next
    assume "k \<in> source_roles p \<or> (\<exists>r \<in> set (ps_rules p). held ?closure (src_of RoleKey r) \<and> tgt_of RoleKey r = k)"
    then show "\<exists>b \<in> source_roles p. (b, k) \<in> ?E\<^sup>*"
    proof
      assume "\<exists>r \<in> set (ps_rules p). held ?closure (src_of RoleKey r) \<and> tgt_of RoleKey r = k"
      then obtain r b where "r \<in> set (ps_rules p)" "tgt_of RoleKey r = k" "b \<in> source_roles p" "(b, src_of RoleKey r) \<in> ?E\<^sup>*" using closure by blast
      moreover from this have "(src_of RoleKey r, k) \<in> ?E" by (auto simp: rule_edges_def)
      ultimately show ?thesis by (meson rtrancl.rtrancl_into_rtrancl)
    qed blast
  qed
  finally show ?thesis .
qed

lemma set_effectiveRoleRefs: "set (effectiveRoleRefs p) = {k. \<exists>b \<in> source_roles p. (b, k) \<in> (rule_edges RoleKey (ps_rules p))\<^sup>*}"
  by (simp add: effectiveRoleRefs_def set_held_keys held_collect)

lemma set_MappingsForRoles:
  "set (MappingsForRoles target roles rows) = {m \<in> set rows. rm_Target m = target \<and> RoleKey (rm_ProjectID m) (rm_RoleKey m) \<in> set roles}"
proof -
  have "(\<exists>r \<in> set roles. ProjectID r = p \<and> RoleOf r = k) \<longleftrightarrow> RoleKey p k \<in> set roles" for p k
    by (metis role_key.collapse role_key.sel)
  then show ?thesis by (force simp: MappingsForRoles_def)
qed

definition denies :: "Allowance list \<Rightarrow> string \<Rightarrow> string \<Rightarrow> bool" where
  "denies as f v \<longleftrightarrow> (\<exists>a \<in> set as. al_Direction a = AllowanceDeny \<and> term_key (al_Field a) (al_Value a) = term_key f v)"

definition own_value :: "Allowance list \<Rightarrow> string \<Rightarrow> Allowance option" where
  "own_value as f = map_of (snd (sort_allowances as [] [])) f"

lemma directions [simp]: "AllowanceSet \<noteq> AllowanceDeny" "AllowanceDeny \<noteq> AllowanceSet"
  by (simp_all add: AllowanceSet_def AllowanceDeny_def)

lemma term_key_inj: "CHR 0x00 \<notin> set f \<Longrightarrow> CHR 0x00 \<notin> set f' \<Longrightarrow> term_key f v = term_key f' v' \<longleftrightarrow> f = f' \<and> v = v'"
proof (induction f arbitrary: f')
  case Nil
  then show ?case by (cases f') (auto simp: term_key_def)
next
  case (Cons c f)
  then show ?case by (cases f') (auto simp: term_key_def)
qed

lemma sort_allowances_denied:
  "map_of (fst (sort_allowances as denied ov)) key = None \<longleftrightarrow>
     map_of denied key = None \<and> (\<forall>a \<in> set as. al_Direction a = AllowanceDeny \<longrightarrow> term_key (al_Field a) (al_Value a) \<noteq> key)"
  by (induction as denied ov rule: sort_allowances.induct) auto

lemma denied_iff: "map_of (fst (sort_allowances as [] [])) (term_key f v) \<noteq> None \<longleftrightarrow> denies as f v"
  by (auto simp: sort_allowances_denied denies_def)

lemma sort_allowances_wf: "wf_map ov \<Longrightarrow> wf_map (snd (sort_allowances as denied ov))"
  by (induction as denied ov rule: sort_allowances.induct) (auto split: option.splits)

text \<open>The own value of a field is the latest of those in force.\<close>

lemma sort_allowances_override:
  "map_of (snd (sort_allowances as denied ov)) f = Some a \<Longrightarrow>
     (map_of ov f = Some a \<or> a \<in> set as \<and> al_Direction a = AllowanceSet \<and> al_Field a = f) \<and>
     (\<forall>b \<in> set as. al_Direction b = AllowanceSet \<longrightarrow> al_Field b = f \<longrightarrow> al_CreatedAt b \<le> al_CreatedAt a) \<and>
     (\<forall>b. map_of ov f = Some b \<longrightarrow> al_CreatedAt b \<le> al_CreatedAt a)"
proof (induction as denied ov rule: sort_allowances.induct)
  case (2 x xs denied ov)
  show ?case
  proof (cases "al_Direction x = AllowanceSet")
    case set: True
    let ?ov = "case map_of ov (al_Field x) of None \<Rightarrow> AList.update (al_Field x) x ov
      | Some prev \<Rightarrow> if al_CreatedAt prev < al_CreatedAt x then AList.update (al_Field x) x ov else ov"
    from set 2(4) have "map_of (snd (sort_allowances xs denied ?ov)) f = Some a" by simp
    note ih = 2(1) [OF set this]
    show ?thesis
    proof (cases "al_Field x = f")
      case True
      then show ?thesis using ih set by (cases "map_of ov f") (force split: if_splits)+
    next
      case False
      then have "map_of ?ov f = map_of ov f" by (auto split: option.splits)
      then show ?thesis using ih False by auto
    qed
  next
    case False
    then show ?thesis using 2(2,3,4) by (cases "al_Direction x = AllowanceDeny") auto
  qed
qed simp

lemma own_value_None: "own_value as f = None \<longleftrightarrow> (\<forall>a \<in> set as. al_Direction a = AllowanceSet \<longrightarrow> al_Field a \<noteq> f)"
proof -
  have "map_of (snd (sort_allowances as denied ov)) f = None \<longleftrightarrow> map_of ov f = None \<and> (\<forall>a \<in> set as. al_Direction a = AllowanceSet \<longrightarrow> al_Field a \<noteq> f)" for denied ov
    by (induction as denied ov rule: sort_allowances.induct) (auto split: option.splits)
  then show ?thesis by (simp add: own_value_def)
qed

lemma layer_roles_mapped: "rl_mapped (layer_roles denied ms l) \<longleftrightarrow> rl_mapped l \<or> (\<exists>m \<in> set ms. \<not> IsLifecycleField (rm_Field m))"
  by (induction denied ms l rule: layer_roles.induct) (auto simp: Let_def split: option.splits)

lemma map_default_update: "map_default d (AList.update k v m) j = (if j = k then v else map_default d m j)"
  by (simp add: map_default_def)

lemma fst_set_update: "fst ` set (AList.update k v m) = insert k (fst ` set m)"
  by (induction m) auto

definition all_wf :: "(string, string goset) gomap \<Rightarrow> bool" where
  "all_wf m \<longleftrightarrow> (\<forall>f. wf_map (map_default [] m f))"

lemma layer_roles_wf: "all_wf (rl_values l) \<Longrightarrow> all_wf (rl_values (layer_roles denied ms l))"
  by (induction denied ms l rule: layer_roles.induct)
    (auto simp: Let_def all_wf_def map_default_update split: option.splits)

lemma layer_roles_values:
  "fst ` set (map_default [] (rl_values (layer_roles denied ms l)) f) =
     fst ` set (map_default [] (rl_values l) f) \<union>
     {rm_Value m | m. m \<in> set ms \<and> rm_Field m = f \<and> \<not> IsLifecycleField f \<and> map_of denied (term_key f (rm_Value m)) = None}"
proof (induction denied ms l rule: layer_roles.induct)
  case (2 denied m ms l)
  let ?A = "\<lambda>ms. {rm_Value m | m. m \<in> set ms \<and> rm_Field m = f \<and> \<not> IsLifecycleField f \<and> map_of denied (term_key f (rm_Value m)) = None}"
  have A: "?A (m # ms) = ?A ms \<union> (if rm_Field m = f \<and> \<not> IsLifecycleField f \<and> map_of denied (term_key f (rm_Value m)) = None then {rm_Value m} else {})"
    by auto
  show ?case
  proof (cases "IsLifecycleField (rm_Field m)")
    case True
    then show ?thesis unfolding A using 2(1) by auto
  next
    case False
    show ?thesis
    proof (cases "map_of denied (term_key (rm_Field m) (rm_Value m))")
      case None
      then show ?thesis unfolding A using False 2(2) [OF False refl refl None] by (simp add: Let_def map_default_update fst_set_update)
    next
      case (Some a)
      then show ?thesis unfolding A using False 2(3) [OF False refl refl Some] by (auto simp: Let_def)
    qed
  qed
qed simp

lemma fill_fields_map:
  "map_of (fill_fields vs ms fs) f =
     (if map_of fs f = None \<and> \<not> IsLifecycleField f \<and> f \<in> rm_Field ` set ms then Some (sorted_values (map_default [] vs f)) else map_of fs f)"
  by (induction vs ms fs rule: fill_fields.induct) auto

lemma override_fields_map:
  assumes "wf_map os"
  shows "map_of (override_fields os fs) f = (case map_of os f of Some a \<Rightarrow> if IsLifecycleField f then map_of fs f else Some [al_Value a] | None \<Rightarrow> map_of fs f)"
  using assms
proof (induction os fs rule: override_fields.induct)
  case (2 g a os fs)
  then have "map_of os g = None" by (simp add: wf_map_def map_of_eq_None_iff)
  with 2 show ?case by (auto simp: wf_map_def split: option.splits)
qed simp

lemma sortedKeys_set: "wf_map m \<Longrightarrow> sorted_values m = sorted_list_of_set (fst ` set m)"
  by (simp add: sorted_values_def wf_map_def sorted_list_of_set_sort_remdups distinct_remdups_id flip: set_map)

definition reaches :: "RoleMapping list \<Rightarrow> bool" where
  "reaches ms \<longleftrightarrow> (\<exists>m \<in> set ms. \<not> IsLifecycleField (rm_Field m))"

definition given_values :: "RoleMapping list \<Rightarrow> Allowance list \<Rightarrow> string \<Rightarrow> string set" where
  "given_values ms as f = {rm_Value m | m. m \<in> set ms \<and> rm_Field m = f \<and> \<not> denies as f (rm_Value m)}"

definition has_left :: "string + string option \<Rightarrow> bool" where
  "has_left profile \<longleftrightarrow> (\<exists>st. profile = Inr (Some st) \<and> Left st)"

lemma resolve_parts:
  "map_of (fst (sort_allowances as [] [])) (term_key f v) = None \<longleftrightarrow> \<not> denies as f v"
  "map_of (snd (sort_allowances as [] [])) f = own_value as f" "wf_map (snd (sort_allowances as [] []))"
  using denied_iff [of as f v] by (auto simp: own_value_def sort_allowances_wf)

lemma resolve_fields:
  assumes "\<not> IsLifecycleField f"
  shows "map_of (es_Fields (resolve_set sid target ms as profile)) f =
     (case own_value as f of
        Some a \<Rightarrow> if reaches ms then Some [al_Value a] else None
      | None \<Rightarrow> if f \<in> rm_Field ` set ms then Some (sorted_list_of_set (given_values ms as f)) else None)"
proof -
  let ?l = "layer_roles (fst (sort_allowances as [] [])) ms no_layer"
  have mapped: "rl_mapped ?l \<longleftrightarrow> reaches ms" by (simp add: layer_roles_mapped no_layer_def reaches_def)
  have "all_wf (rl_values ?l)" by (rule layer_roles_wf) (simp add: all_wf_def no_layer_def map_default_def)
  then have vs: "sorted_values (map_default [] (rl_values ?l) f) = sorted_list_of_set (given_values ms as f)"
    using assms by (simp add: all_wf_def sortedKeys_set layer_roles_values no_layer_def map_default_def [of _ "[]"] given_values_def resolve_parts)
  have "f \<in> rm_Field ` set ms \<Longrightarrow> reaches ms" using assms by (auto simp: reaches_def)
  then show ?thesis
    using assms mapped by (auto simp: resolve_set_def case_prod_beta Let_def fill_fields_map vs override_fields_map resolve_parts split: option.splits)
qed

lemma resolve_no_lifecycle_field:
  assumes "IsLifecycleField f" shows "map_of (es_Fields (resolve_set sid target ms as profile)) f = None"
  using assms by (auto simp: resolve_set_def case_prod_beta Let_def fill_fields_map override_fields_map resolve_parts split: option.splits)

lemma resolve_lifecycle:
  "lc_Enabled (es_Lifecycle (resolve_set sid target ms as profile)) \<longleftrightarrow> reaches ms \<and> \<not> denies as LifecycleEnabled ''true'' \<and> \<not> has_left profile"
  "lc_SMBEnabled (es_Lifecycle (resolve_set sid target ms as profile)) \<longleftrightarrow>
     lc_Enabled (es_Lifecycle (resolve_set sid target ms as profile)) \<and> \<not> denies as LifecycleSMBEnabled ''true''"
proof -
  have mapped: "rl_mapped (layer_roles (fst (sort_allowances as [] [])) ms no_layer) \<longleftrightarrow> reaches ms" by (simp add: layer_roles_mapped no_layer_def reaches_def)
  have lc: "es_Lifecycle (resolve_set sid target ms as profile) = applyDirectoryStanding profile
      \<lparr>lc_Enabled = (reaches ms \<and> \<not> denies as LifecycleEnabled ''true''),
       lc_SMBEnabled = (reaches ms \<and> \<not> denies as LifecycleEnabled ''true'' \<and> \<not> denies as LifecycleSMBEnabled ''true''),
       lc_NotAMember = False, lc_Reason = []\<rparr>"
    by (simp add: resolve_set_def case_prod_beta Let_def resolveLifecycle_def mapped resolve_parts)
  show "lc_Enabled (es_Lifecycle (resolve_set sid target ms as profile)) \<longleftrightarrow> reaches ms \<and> \<not> denies as LifecycleEnabled ''true'' \<and> \<not> has_left profile"
    "lc_SMBEnabled (es_Lifecycle (resolve_set sid target ms as profile)) \<longleftrightarrow>
     lc_Enabled (es_Lifecycle (resolve_set sid target ms as profile)) \<and> \<not> denies as LifecycleSMBEnabled ''true''"
    unfolding lc by (auto simp: applyDirectoryStanding_def has_left_def split: sum.splits option.splits)
qed

lemma resolved_wf: "wf_map (es_Fields (resolve_set sid target ms as profile))"
proof -
  have "wf_map fs \<Longrightarrow> wf_map (fill_fields vs ms fs)" for vs fs by (induction vs ms fs rule: fill_fields.induct) auto
  moreover have "wf_map fs \<Longrightarrow> wf_map (override_fields os fs)" for os fs by (induction os fs rule: override_fields.induct) auto
  ultimately show ?thesis by (simp add: resolve_set_def case_prod_beta Let_def)
qed

lemma desired_fields_map:
  "wf_map fs \<Longrightarrow> map_of (desired_fields fs out) f =
     (if IsLifecycleField f \<or> map_of fs f = None then map_of out f else map_option (\<lambda>vs. RawValue (JArray (map JString vs))) (map_of fs f))"
proof (induction fs out rule: desired_fields.induct)
  case (2 g vs rest out)
  then have "map_of rest g = None" by (simp add: wf_map_def map_of_eq_None_iff)
  with 2 show ?case by (auto simp: wf_map_def)
qed simp

text \<open>
  The wire carries the two lifecycle fields always, every other field exactly as it was resolved, a field with
  nothing left in it as an empty list, and a field nobody mapped not at all.
\<close>

lemma map_of_Desired:
  assumes "s = resolve_set sid target ms as profile"
  shows "map_of (Desired s) f =
     (if f = LifecycleEnabled then Some (boolJSON (lc_Enabled (es_Lifecycle s)))
      else if f = LifecycleSMBEnabled then Some (boolJSON (lc_SMBEnabled (es_Lifecycle s)))
      else map_option (\<lambda>vs. RawValue (JArray (map JString vs))) (map_of (es_Fields s) f))"
  using resolved_wf [of sid target ms as profile] assms
  by (auto simp: Desired_def desired_fields_map IsLifecycleField_def LifecycleEnabled_def LifecycleSMBEnabled_def)

section \<open>What a person gets\<close>

text \<open>A mapping of a role the person holds, over a chain of rules, gives a value of a field.\<close>

definition gives :: "RoleMapping list \<Rightarrow> string \<Rightarrow> person_sources \<Rightarrow> string \<Rightarrow> string \<Rightarrow> bool" where
  "gives maps target p f v \<longleftrightarrow>
     (\<exists>m \<in> set maps. rm_Target m = target \<and> rm_Field m = f \<and> rm_Value m = v \<and>
        (\<exists>b \<in> source_roles p. (b, RoleKey (rm_ProjectID m) (rm_RoleKey m)) \<in> (rule_edges RoleKey (ps_rules p))\<^sup>*))"

definition on_hold :: "time \<Rightarrow> Allowance list \<Rightarrow> string \<Rightarrow> string \<Rightarrow> string \<Rightarrow> string \<Rightarrow> bool" where
  "on_hold now rows sid target f v \<longleftrightarrow>
     (\<exists>a \<in> set rows. al_SubjectID a = sid \<and> al_Target a = target \<and> InForce now a \<and> al_Direction a = AllowanceDeny \<and>
        term_key (al_Field a) (al_Value a) = term_key f v)"

definition own_values :: "time \<Rightarrow> Allowance list \<Rightarrow> string \<Rightarrow> string \<Rightarrow> string \<Rightarrow> Allowance set" where
  "own_values now rows sid target f =
     {a \<in> set rows. al_SubjectID a = sid \<and> al_Target a = target \<and> InForce now a \<and> al_Direction a = AllowanceSet \<and> al_Field a = f}"

abbreviation resolve_person ::
  "string \<Rightarrow> string \<Rightarrow> person_sources \<Rightarrow> RoleMapping list \<Rightarrow> time \<Rightarrow> Allowance list \<Rightarrow> string + string option \<Rightarrow> string + EntitlementSet"
where
  "resolve_person sid target p maps now rows profile \<equiv>
     ResolveEntitlements sid target (Inr (effectiveRoleRefs p)) (\<lambda>rs. Inr (MappingsForRoles target rs maps))
       (Inr (AllowancesInForce now sid target rows)) profile"

lemma denies_in_force: "denies (AllowancesInForce now sid target rows) f v \<longleftrightarrow> on_hold now rows sid target f v"
  by (auto simp: denies_def on_hold_def AllowancesInForce_def)

lemma mappings_give: "m \<in> set (MappingsForRoles target (effectiveRoleRefs p) maps) \<Longrightarrow> gives maps target p (rm_Field m) (rm_Value m)"
  by (auto simp: set_MappingsForRoles set_effectiveRoleRefs gives_def)

lemma gives_mapping:
  assumes "gives maps target p f v"
  obtains m where "m \<in> set (MappingsForRoles target (effectiveRoleRefs p) maps)" "rm_Field m = f" "rm_Value m = v"
  using assms by (auto simp: set_MappingsForRoles set_effectiveRoleRefs gives_def)

lemma given_values_person:
  "given_values (MappingsForRoles target (effectiveRoleRefs p) maps) (AllowancesInForce now sid target rows) f =
     {v. gives maps target p f v \<and> \<not> on_hold now rows sid target f v}"
  by (force simp: given_values_def denies_in_force dest: mappings_give elim: gives_mapping)

lemma mapped_field_person: "f \<in> rm_Field ` set (MappingsForRoles target (effectiveRoleRefs p) maps) \<longleftrightarrow> (\<exists>v. gives maps target p f v)"
  by (force dest: mappings_give elim: gives_mapping)

lemma reaches_person: "reaches (MappingsForRoles target (effectiveRoleRefs p) maps) \<longleftrightarrow> (\<exists>f v. \<not> IsLifecycleField f \<and> gives maps target p f v)"
  by (force simp: reaches_def dest: mappings_give elim: gives_mapping)

lemma own_value_person:
  "own_value (AllowancesInForce now sid target rows) f = None \<longleftrightarrow> own_values now rows sid target f = {}"
  "own_value (AllowancesInForce now sid target rows) f = Some a \<Longrightarrow>
     a \<in> own_values now rows sid target f \<and> (\<forall>b \<in> own_values now rows sid target f. al_CreatedAt b \<le> al_CreatedAt a)"
proof -
  show "own_value (AllowancesInForce now sid target rows) f = None \<longleftrightarrow> own_values now rows sid target f = {}"
    by (auto simp: own_value_None AllowancesInForce_def own_values_def)
  assume "own_value (AllowancesInForce now sid target rows) f = Some a"
  from sort_allowances_override [OF this [unfolded own_value_def]]
  show "a \<in> own_values now rows sid target f \<and> (\<forall>b \<in> own_values now rows sid target f. al_CreatedAt b \<le> al_CreatedAt a)"
    by (auto simp: AllowancesInForce_def own_values_def)
qed

lemma finite_given: "finite {v. gives maps target p f v \<and> Q v}"
  by (rule finite_subset [of _ "rm_Value ` set maps"]) (auto simp: gives_def)


text \<open>Somebody with a group by a bundle and a rule, of which one is on hold.\<close>

definition demo_sources :: person_sources where
  "demo_sources = \<lparr>ps_grants = [], ps_bundles = [''b''], ps_bundle_roles = [(''b'', [RoleKey ''p'' ''lead''])],
     ps_rules = [\<lparr>rule_ID = ''1'', SourceProject = ''p'', SourceRole = ''lead'', TargetProject = ''p'', TargetRole = ''maker''\<rparr>]\<rparr>"

definition demo_mappings :: "RoleMapping list" where
  "demo_mappings =
     [\<lparr>rm_ID = ''1'', rm_Target = ''nas'', rm_ProjectID = ''p'', rm_RoleKey = ''maker'', rm_Field = ''group'', rm_Value = ''makers''\<rparr>,
      \<lparr>rm_ID = ''2'', rm_Target = ''nas'', rm_ProjectID = ''p'', rm_RoleKey = ''lead'', rm_Field = ''group'', rm_Value = ''leads''\<rparr>]"

definition demo_hold :: Allowance where
  "demo_hold = \<lparr>al_ID = ''h'', al_SubjectID = ''u'', al_Target = ''nas'', al_Field = ''group'', al_Value = ''leads'',
     al_Direction = AllowanceDeny, al_ActorID = ''op'', al_Reason = ''away'', al_CreatedAt = 1, al_ExpiresAt = Some 100,
     al_ReviewDate = None, al_LiftedAt = None, al_LiftedBy = []\<rparr>"


section \<open>Holds over time\<close>

datatype allow_event = EvCreate bool string Allowance | EvLift bool string string | EvLapse string

fun allow_effect :: "time \<Rightarrow> allow_event \<Rightarrow> Allowance list \<Rightarrow> Allowance list" where
  "allow_effect t (EvCreate takes fresh a) rows = snd (CreateAllowance takes t fresh a rows)"
| "allow_effect t (EvLift takes ident actor) rows = snd (LiftAllowance takes t ident actor rows)"
| "allow_effect t (EvLapse ident) rows = fst (ResolveLapsedAllowance t ident rows)"

definition allow_run :: "(time \<times> allow_event) list \<Rightarrow> Allowance list \<Rightarrow> Allowance list" where
  "allow_run evs rows = fold (\<lambda>(t, e). allow_effect t e) evs rows"

definition lifts :: "string \<Rightarrow> allow_event \<Rightarrow> bool" where
  "lifts ident e \<longleftrightarrow> (\<exists>takes actor. e = EvLift takes ident actor)"

definition runs_past :: "time \<Rightarrow> Allowance \<Rightarrow> bool" where
  "runs_past now r \<longleftrightarrow> (case al_ExpiresAt r of None \<Rightarrow> True | Some e \<Rightarrow> now < e)"

lemma map_keeps: "r \<in> set rows \<Longrightarrow> \<not> P r \<Longrightarrow> r \<in> set (map (\<lambda>x. if P x then g x else x) rows)"
  by (force simp: image_iff)

lemma hold_kept:
  assumes r: "r \<in> set rows" "al_Direction r = AllowanceDeny" "al_LiftedAt r = None" "runs_past now r"
    and t: "t \<le> now" and e: "\<not> lifts (al_ID r) e"
  shows "r \<in> set (allow_effect t e rows)"
proof (cases e)
  case (EvCreate takes fresh a)
  have "\<not> (same_slot a r \<and> InForce t r)" if "al_Direction a = AllowanceSet" using r(2) that by (simp add: same_slot_def)
  then show ?thesis using EvCreate r(1) by (auto simp: CreateAllowance_def split: option.splits)
next
  case (EvLift takes ident actor)
  then have "\<not> (al_ID r = ident \<and> al_LiftedAt r = None)" using e by (auto simp: lifts_def)
  then show ?thesis using EvLift r(1) by (auto simp: LiftAllowance_def split: option.splits)
next
  case (EvLapse ident)
  have "\<not> expired t r" using r(4) t by (auto simp: expired_def runs_past_def split: option.splits)
  then show ?thesis using EvLapse r(1) by (auto simp: ResolveLapsedAllowance_def)
qed

lemma hold_kept_run:
  assumes "r \<in> set rows" "al_Direction r = AllowanceDeny" "al_LiftedAt r = None" "runs_past now r"
    and "\<forall>(t, e) \<in> set evs. t \<le> now \<and> \<not> lifts (al_ID r) e"
  shows "r \<in> set (allow_run evs rows)"
  using assms(1,5)
proof (induction evs arbitrary: rows)
  case (Cons x evs)
  obtain t e where x: "x = (t, e)" by (rule prod.exhaust)
  have "r \<in> set (allow_effect t e rows)" using Cons.prems x by (intro hold_kept [OF _ assms(2,3,4)]) auto
  then show ?case using Cons.IH [of "allow_effect t e rows"] Cons.prems x by (simp add: allow_run_def)
qed (simp add: allow_run_def)

text \<open>A recorded hold is among the denials of every later resolution it runs past, unless it was lifted.\<close>

lemma recorded_hold_denies:
  assumes created: "CreateAllowance takes t0 fresh a rows0 = ((None, a'), rows)" and hold: "al_Direction a = AllowanceDeny"
    and later: "\<forall>(t, e) \<in> set evs. t \<le> now \<and> \<not> lifts fresh e" and past: "runs_past now a"
  shows "denies (AllowancesInForce now (al_SubjectID a) (al_Target a) (allow_run evs rows)) (al_Field a) (al_Value a)"
proof -
  let ?row = "insert_allowance t0 fresh a" and ?rows = "allow_run evs rows"
  have "?row \<in> set rows" using created hold by (auto simp: CreateAllowance_def split: option.splits if_splits)
  then have "?row \<in> set ?rows" using hold past later by (intro hold_kept_run) (auto simp: insert_allowance_def runs_past_def)
  then have "on_hold now ?rows (al_SubjectID a) (al_Target a) (al_Field a) (al_Value a)"
    unfolding on_hold_def using hold past by (intro bexI [of _ ?row]) (auto simp: insert_allowance_def InForce_def runs_past_def)
  then show ?thesis by (simp add: denies_in_force)
qed



text \<open>Two rows that must not be in force together: the same denial twice, or two own values of a field.\<close>

definition clash :: "time \<Rightarrow> Allowance \<Rightarrow> Allowance \<Rightarrow> bool" where
  "clash now r r' \<longleftrightarrow> InForce now r \<and> InForce now r' \<and> same_slot r r' \<and> (al_Direction r = AllowanceSet \<or> al_Value r = al_Value r')"

definition one_each :: "time \<Rightarrow> Allowance list \<Rightarrow> bool" where
  "one_each now rows \<longleftrightarrow> sorted_wrt (\<lambda>r r'. \<not> clash now r r') rows"

lemma InForce_earlier: "InForce t' r \<Longrightarrow> t \<le> t' \<Longrightarrow> InForce t r"
  by (auto simp: InForce_def split: option.splits)

lemma one_each_later: "one_each t rows \<Longrightarrow> t \<le> t' \<Longrightarrow> one_each t' rows"
  unfolding one_each_def by (erule sorted_wrt_mono_rel [rotated]) (auto simp: clash_def dest: InForce_earlier)

lemma one_each_map:
  assumes "one_each t rows" "\<And>r. r \<in> set rows \<Longrightarrow> g r = r \<or> \<not> InForce t (g r)"
  shows "one_each t (map g rows)"
  using assms unfolding one_each_def sorted_wrt_map
  by (elim sorted_wrt_mono_rel [rotated]) (metis clash_def)

lemma one_each_snoc: "one_each t (rows @ [x]) \<longleftrightarrow> one_each t rows \<and> (\<forall>r \<in> set rows. \<not> clash t r x)"
  by (simp add: one_each_def sorted_wrt_append)

lemma lifted_not_in_force [simp]: "\<not> InForce t (lift_row u actor r)"
  by (simp add: InForce_def lift_row_def)

lemma same_slot_sym: "same_slot a b \<longleftrightarrow> same_slot b a"
  by (auto simp: same_slot_def)

lemma same_slot_insert [simp]: "same_slot r (insert_allowance t fresh a) \<longleftrightarrow> same_slot r a"
  by (simp add: same_slot_def insert_allowance_def)

lemma CreateAllowance_one_each:
  assumes "one_each t rows" shows "one_each t (snd (CreateAllowance takes t fresh a rows))"
proof (cases "validate_allowance a = None \<and> takes")
  case ok: True
  show ?thesis
  proof (cases "al_Direction a = AllowanceSet")
    case True
    let ?g = "\<lambda>r. if same_slot a r \<and> InForce t r then lift_row t (al_ActorID a) r else r"
    have "one_each t (map ?g rows)" by (rule one_each_map [OF assms]) auto
    moreover have "\<not> clash t (?g r) (insert_allowance t fresh a)" for r
      by (auto simp: clash_def same_slot_sym [of _ a])
    moreover have "snd (CreateAllowance takes t fresh a rows) = map ?g rows @ [insert_allowance t fresh a]" using ok True by (simp add: CreateAllowance_def)
    ultimately show ?thesis by (simp only: one_each_snoc set_map ball_simps) blast
  next
    case False
    have "\<not> clash t r (insert_allowance t fresh a)"
      if "find (\<lambda>r. same_slot a r \<and> al_Value r = al_Value a \<and> InForce t r) rows = None" "r \<in> set rows" for r
      using that False by (auto simp: find_None_iff clash_def same_slot_sym [of _ a] insert_allowance_def same_slot_def)
    then show ?thesis using ok False assms by (auto simp: CreateAllowance_def one_each_snoc split: option.splits)
  qed
qed (use assms in \<open>auto simp: CreateAllowance_def split: option.splits\<close>)

lemma allow_effect_one_each:
  assumes "one_each t rows" shows "one_each t (allow_effect t e rows)"
proof -
  have lifted: "one_each t (map (\<lambda>x. if P x then lift_row u actor x else x) rows)" for P u actor
    by (rule one_each_map [OF assms]) auto
  show ?thesis
  proof (cases e)
    case (EvLift takes ident actor)
    then show ?thesis using assms lifted by (simp add: LiftAllowance_def split: option.split)
  next
    case (EvLapse ident)
    then show ?thesis using lifted by (simp add: ResolveLapsedAllowance_def)
  qed (simp add: CreateAllowance_one_each assms)
qed

text \<open>
  From the empty table, any run of creations, lifts and sweeps in the order of the clock leaves at most one
  own value per person, target and field, and at most one copy of a denial, in force at any time from then on.
\<close>

theorem one_allowance_in_force:
  assumes "sorted (map fst evs)" "\<forall>(t, e) \<in> set evs. t \<le> now"
  shows "one_each now (allow_run evs [])"
proof -
  have "one_each t0 rows \<Longrightarrow> \<forall>(t, e) \<in> set evs. t0 \<le> t \<and> t \<le> now \<Longrightarrow> t0 \<le> now \<Longrightarrow> one_each now (allow_run evs rows)" if "sorted (map fst evs)" for t0 rows
    using that
  proof (induction evs arbitrary: t0 rows)
    case Nil
    then show ?case using one_each_later by (auto simp: allow_run_def)
  next
    case (Cons x evs)
    obtain t e where x: "x = (t, e)" by (rule prod.exhaust)
    have "one_each t (allow_effect t e rows)" using Cons.prems x by (intro allow_effect_one_each) (auto intro: one_each_later)
    moreover have "\<forall>(u, e) \<in> set evs. t \<le> u \<and> u \<le> now" using Cons.prems x by fastforce
    ultimately show ?case using Cons.IH [of t "allow_effect t e rows"] Cons.prems x by (simp add: allow_run_def)
  qed
  note run = this [OF assms(1)]
  show ?thesis
  proof (cases evs)
    case (Cons x xs)
    then have "\<forall>(t, e) \<in> set evs. fst x \<le> t \<and> t \<le> now" "fst x \<le> now" using assms by auto
    then show ?thesis by (intro run [of "fst x"]) (simp add: one_each_def)
  qed (simp add: allow_run_def one_each_def)
qed

end
