(* ===== verification/Nas_Entitled.thy ===== *)
theory Nas_Entitled
  imports Entitlement Nas_Target
begin

text \<open>
  The backend and the NAS add-on together: what \<open>ResolveEntitlements\<close> resolves from the tables of the
  backend, sent as the desired state of an apply, is what the account on the NAS then holds. The add-on decodes a
  field's JSON as Go does: an array of strings, in which null reads as the empty string, a boolean, or null.
\<close>

section \<open>Over the wire\<close>

fun string_elem :: "json_val \<Rightarrow> string option" where
  "string_elem (JString s) = Some s"
| "string_elem JNull = Some []"
| "string_elem _ = None"

fun fval_of :: "raw_message \<Rightarrow> fval" where
  "fval_of (RawValue JNull) = FNull"
| "fval_of (RawValue (JBool b)) = FBool b"
| "fval_of (RawValue (JArray xs)) = (if list_all (\<lambda>x. string_elem x \<noteq> None) xs then FStrings (map (\<lambda>x. the (string_elem x)) xs) else FOther)"
| "fval_of _ = FOther"

definition wire_fields :: "field_map \<Rightarrow> (string \<times> fval) list" where
  "wire_fields m = map (\<lambda>(f, r). (f, fval_of r)) m"

lemma map_of_wire: "map_of (wire_fields m) f = map_option fval_of (map_of m f)"
  by (induction m) (auto simp: wire_fields_def)

lemma wf_wire: "wf_map (wire_fields m) \<longleftrightarrow> wf_map m"
  by (simp add: wf_map_def wire_fields_def comp_def case_prod_beta)

lemma fval_of_strings [simp]: "fval_of (RawValue (JArray (map JString vs))) = FStrings vs"
  by (simp add: list_all_iff comp_def)

lemma fval_of_bool [simp]: "fval_of (boolJSON b) = FBool b"
  by (simp add: boolJSON_def)

section \<open>Decoding\<close>

lemma quota_limits_keeps:
  "quota_limits ls d = Inr d' \<Longrightarrow> dd_enabled d' = dd_enabled d \<and> dd_smbEnabled d' = dd_smbEnabled d \<and> dd_groups d' = dd_groups d \<and> dd_managed d' = dd_managed d"
  by (induction ls d rule: quota_limits.induct) (auto split: option.splits if_splits)

lemmas field_names = FieldGroup_def FieldEnabled_def FieldSMBEnabled_def FieldHome_def FieldHomeQuota_def

lemma decode_field_effect:
  assumes "decode_field f v d = Inr d'"
  shows "dd_managed d' = f # dd_managed d"
    and "if f = FieldEnabled then field_bool v = Some (dd_enabled d') else dd_enabled d' = dd_enabled d"
    and "if f = FieldSMBEnabled then field_bool v = Some (dd_smbEnabled d') else dd_smbEnabled d' = dd_smbEnabled d"
    and "if f = FieldGroup then \<exists>gs. field_strings v = Some gs \<and> dd_groups d' = sort gs else dd_groups d' = dd_groups d"
  using assms
  by (auto simp: decode_field_def Let_def field_names split: if_splits option.splits sum.splits dest: quota_limits_keeps)

lemma decode_managed: "decodeDesiredFields fs d = Inr d' \<Longrightarrow> set (dd_managed d') = fst ` set fs \<union> set (dd_managed d)"
  by (induction fs d rule: decodeDesiredFields.induct) (auto split: sum.splits dest: decode_field_effect(1))

lemma decode_reads:
  assumes "decodeDesiredFields fs d = Inr d'" "wf_map fs"
  shows "case map_of fs FieldEnabled of None \<Rightarrow> dd_enabled d' = dd_enabled d | Some v \<Rightarrow> field_bool v = Some (dd_enabled d')"
    and "case map_of fs FieldSMBEnabled of None \<Rightarrow> dd_smbEnabled d' = dd_smbEnabled d | Some v \<Rightarrow> field_bool v = Some (dd_smbEnabled d')"
    and "case map_of fs FieldGroup of None \<Rightarrow> dd_groups d' = dd_groups d | Some v \<Rightarrow> \<exists>gs. field_strings v = Some gs \<and> dd_groups d' = sort gs"
proof -
  have "(case map_of fs FieldEnabled of None \<Rightarrow> dd_enabled d' = dd_enabled d | Some v \<Rightarrow> field_bool v = Some (dd_enabled d')) \<and>
    (case map_of fs FieldSMBEnabled of None \<Rightarrow> dd_smbEnabled d' = dd_smbEnabled d | Some v \<Rightarrow> field_bool v = Some (dd_smbEnabled d')) \<and>
    (case map_of fs FieldGroup of None \<Rightarrow> dd_groups d' = dd_groups d | Some v \<Rightarrow> \<exists>gs. field_strings v = Some gs \<and> dd_groups d' = sort gs)"
    using assms
  proof (induction fs d rule: decodeDesiredFields.induct)
    case (2 f v rest d)
    then obtain d1 where d1: "decode_field f v d = Inr d1" "decodeDesiredFields rest d1 = Inr d'" by (auto split: sum.splits)
    have "map_of rest f = None" "wf_map rest" using 2(3) by (simp_all add: wf_map_def map_of_eq_None_iff)
    then show ?case using 2(1) [OF d1] decode_field_effect [OF d1(1)] by (auto split: option.splits if_splits)
  qed simp
  then show "case map_of fs FieldEnabled of None \<Rightarrow> dd_enabled d' = dd_enabled d | Some v \<Rightarrow> field_bool v = Some (dd_enabled d')"
    "case map_of fs FieldSMBEnabled of None \<Rightarrow> dd_smbEnabled d' = dd_smbEnabled d | Some v \<Rightarrow> field_bool v = Some (dd_smbEnabled d')"
    "case map_of fs FieldGroup of None \<Rightarrow> dd_groups d' = dd_groups d | Some v \<Rightarrow> \<exists>gs. field_strings v = Some gs \<and> dd_groups d' = sort gs" by blast+
qed

section \<open>The account after the change\<close>

lemma reached_state:
  fixes u :: subject and d :: desired_state and home :: home_decision
  defines "v \<equiv> homed (applyTo (decide (Some u) d home) u)"
  shows "managed d FieldEnabled \<Longrightarrow> su_Enabled v = dd_enabled d"
    and "managed d FieldSMBEnabled \<Longrightarrow> su_SMBEnabled v \<Longrightarrow> dd_smbEnabled d"
    and "managed d FieldGroup \<Longrightarrow> set (su_Groups v) = set (dd_groups d)"
proof -
  have "sameSet a b \<Longrightarrow> set a = set b" for a b by (metis sameSet_def set_sort)
  then show "managed d FieldEnabled \<Longrightarrow> su_Enabled v = dd_enabled d" "managed d FieldSMBEnabled \<Longrightarrow> su_SMBEnabled v \<Longrightarrow> dd_smbEnabled d"
    "managed d FieldGroup \<Longrightarrow> set (su_Groups v) = set (dd_groups d)"
    by (auto simp: v_def homed_def applyTo_def decide_def)
qed

lemma wf_Desired: "wf_map (Desired s)"
proof -
  have "wf_map out \<Longrightarrow> wf_map (desired_fields fs out)" for fs out by (induction fs out rule: desired_fields.induct) auto
  then show ?thesis by (simp add: Desired_def)
qed

lemma lifecycle_names [simp]: "LifecycleEnabled = FieldEnabled" "LifecycleSMBEnabled = FieldSMBEnabled"
  by (simp_all add: LifecycleEnabled_def LifecycleSMBEnabled_def field_names)

lemma decoded_desired:
  assumes s: "s = resolve_set sid target ms as profile" and d: "decodeDesired env (wire_fields (Desired s)) z = Inr d"
  shows "managed d FieldEnabled" "managed d FieldSMBEnabled"
    and "dd_enabled d = lc_Enabled (es_Lifecycle s)" "dd_smbEnabled d = lc_SMBEnabled (es_Lifecycle s)"
    and "map_of (es_Fields s) FieldGroup = Some vs \<Longrightarrow> managed d FieldGroup \<and> set (dd_groups d) = set vs"
proof -
  obtain d0 r where d0: "decodeDesiredFields (wire_fields (Desired s)) no_desired = Inr d0" "d = d0 \<or> d = d0\<lparr>dd_homeRoot := r\<rparr>"
    using decodeDesired_fields [OF d] .
  then have keeps: "dd_enabled d = dd_enabled d0" "dd_smbEnabled d = dd_smbEnabled d0" "dd_groups d = dd_groups d0" "dd_managed d = dd_managed d0" by auto
  note reads = decode_reads [OF d0(1) wf_wire [THEN iffD2, OF wf_Desired]]
  have sent: "map_of (wire_fields (Desired s)) FieldEnabled = Some (FBool (lc_Enabled (es_Lifecycle s)))"
    "map_of (wire_fields (Desired s)) FieldSMBEnabled = Some (FBool (lc_SMBEnabled (es_Lifecycle s)))"
    by (simp_all add: map_of_wire map_of_Desired [OF s]) (simp add: field_names)
  have m: "map_of (wire_fields (Desired s)) f \<noteq> None \<Longrightarrow> managed d f" for f
    using decode_managed [OF d0(1)] keeps(4) map_of_eq_None_iff [of "wire_fields (Desired s)" f] by (simp add: managed_def)
  show "managed d FieldEnabled" "managed d FieldSMBEnabled" using sent by (auto intro: m)
  show "dd_enabled d = lc_Enabled (es_Lifecycle s)" "dd_smbEnabled d = lc_SMBEnabled (es_Lifecycle s)"
    using reads(1,2) sent keeps by (simp_all add: field_bool_def)
  assume "map_of (es_Fields s) FieldGroup = Some vs"
  then have g: "map_of (wire_fields (Desired s)) FieldGroup = Some (FStrings vs)"
    by (simp add: map_of_wire map_of_Desired [OF s]) (simp add: field_names list_all_iff comp_def)
  show "managed d FieldGroup \<and> set (dd_groups d) = set vs" using m [of FieldGroup] g reads(3) keeps(3) by (auto simp: field_strings_def)
qed


text \<open>Somebody whose role gives the group of a lab and whose account is on hold, on the NAS of the other witnesses.\<close>

definition held_sources :: person_sources where
  "held_sources = \<lparr>ps_grants = [(RoleKey ''p'' ''maker'', None)], ps_bundles = [], ps_bundle_roles = [], ps_rules = []\<rparr>"

definition held_mappings :: "RoleMapping list" where
  "held_mappings = [\<lparr>rm_ID = ''1'', rm_Target = ''nas'', rm_ProjectID = ''p'', rm_RoleKey = ''maker'', rm_Field = ''group'', rm_Value = ''lab''\<rparr>]"

definition held_rows :: "Allowance list" where
  "held_rows = [demo_hold\<lparr>al_SubjectID := ''ada'', al_Field := ''enabled'', al_Value := ''true''\<rparr>]"

definition held_desired :: "(string \<times> fval) list" where
  "held_desired = [(FieldGroup, FStrings [''lab'']), (FieldEnabled, FBool False), (FieldSMBEnabled, FBool False)]"

definition held_request :: apply_request where
  "held_request = bench_request\<lparr>aq_Desired := held_desired\<rparr>"

definition held_want :: desired_state where
  "held_want = bench_want\<lparr>dd_managed := [FieldSMBEnabled, FieldEnabled, FieldGroup]\<rparr>"

lemma held_decode: "decodeDesired env held_desired z = Inr held_want"
  by (simp add: decodeDesired_def held_desired_def held_want_def bench_want_def decode_field_def no_desired_def field_strings_def field_bool_def field_names)

lemma held_fields: "managed held_want FieldGroup" "managed held_want FieldEnabled" "managed held_want FieldSMBEnabled"
    "\<not> managed held_want FieldHome" "\<not> managed held_want FieldHomeQuota"
  by (simp_all add: managed_def held_want_def field_names)

lemma held_applied: "\<exists>x z'. applyOne bench_nas (\<lambda>x. x) held_request bench_server = (Inr x, 200, z')"
proof -
  let ?u = "bench_subject ''7'' ''ada'' 200001"
  have r: "aq_Subject held_request = ''ada''" "aq_Desired held_request = held_desired" "aq_Fingerprint held_request = fingerprintSubject (\<lambda>x. x) (Some ?u)"
    by (simp_all add: held_request_def bench_request_def)
  have g: "groupIDsFor bench_nas [''lab''] bench_server = (Inr [''2''], bench_server)" by (simp add: groupIDsFor_def bench_groups)
  have "\<exists>i z1. do_write bench_nas (WUpdate (su_ID ?u) up) bench_server = (Inr i, z1)" for up
    by (simp add: do_write_def ask_def bench_nas_def)
  then have w: "\<exists>x z'. converge_write bench_nas (\<lambda>x. x) held_request held_want ?u c ids bench_server = (Inr x, 200, z')" for c ids
    using converge_write_answers by metis
  have c: "decide (Some ?u) held_want h = \<lparr>ch_groups = Some [''lab''], ch_locked = Some True, ch_smbOff = False, ch_smbPending = False, ch_home = h\<rparr>" for h
    by (simp add: decide_def held_fields) (simp add: held_want_def bench_want_def bench_subject_def sameSet_def)
  have quiet: "decideHome bench_nas held_want n p uid z = (Inr no_home, z)" "quotaOwed bench_nas held_want p uid z = (Inr ([], 0, False), z)" for n p uid z
    by (simp_all add: decideHome_def quotaOwed_def held_fields)
  have "\<exists>x z'. converge bench_nas (\<lambda>x. x) held_request held_want ?u bench_server = (Inr x, 200, z')"
    using w by (simp add: converge_def Let_def c g quiet change_writes_def)
  then show ?thesis
    using r by (auto simp: applyOne_def held_decode bench_locate rememberWantedSMB_def held_fields split: prod.splits)
qed

lemma held_found: "found_account bench_nas H held_request bench_server = Some (bench_subject ''7'' ''ada'' 200001)"
  by (simp add: found_account_def held_request_def bench_request_def bench_locate)

lemma held_resolved: "\<exists>s. resolve_person ''ada'' ''nas'' held_sources held_mappings 50 held_rows (Inr None) = Inr s \<and> wire_fields (Desired s) = held_desired"
proof -
  let ?s = "resolve_person ''ada'' ''nas'' held_sources held_mappings 50 held_rows (Inr None)"
  have "case ?s of Inr s \<Rightarrow> wire_fields (Desired s) = held_desired | Inl _ \<Rightarrow> False" by code_simp
  then show ?thesis by (cases ?s) auto
qed


end
