(* ===== verification/Log_Anchor.thy ===== *)
theory Log_Anchor
  imports Mutation_Log
begin

text \<open>
  \<^verbatim>\<open>src/backend/internal/db/log_anchor.go\<close>: what the backend remembers of an add-on's mutation log. Each
  reconcile reads the head and the count of the log and compares them with the anchor; a report that does not
  extend the anchor is a finding, which freezes it until an operator adopts the head they were shown.

  The table holds at most one row per target. \<open>takes\<close> says whether the database takes the transaction; the
  times of a row are left out.
\<close>

section \<open>The anchor\<close>

datatype anchor_verdict = AnchorFirstSighting | AnchorExtended | AnchorUnchanged | AnchorRecordsDecreased | AnchorHeadRewritten

record LogAnchor =
  la_Head :: string
  la_Records :: int
  la_Violation :: "(anchor_verdict \<times> string \<times> int) option"

datatype anchor_error = AnchorNoTarget | AnchorNegative | AnchorNoHead | AnchorDatabase | ErrNoAnchorFinding | ErrAnchorMoved

definition Compromised :: "LogAnchor \<Rightarrow> bool" where
  "Compromised a \<longleftrightarrow> la_Violation a \<noteq> None"

definition ClassifyLogHead :: "string \<Rightarrow> int \<Rightarrow> string \<Rightarrow> int \<Rightarrow> anchor_verdict" where
  "ClassifyLogHead prevHead prevRecords head records =
     (if records < prevRecords then AnchorRecordsDecreased
      else if records = prevRecords \<and> head \<noteq> prevHead then AnchorHeadRewritten
      else if records = prevRecords then AnchorUnchanged
      else if head = prevHead then AnchorHeadRewritten
      else AnchorExtended)"

definition AnchorViolation :: "anchor_verdict \<Rightarrow> bool" where
  "AnchorViolation v \<longleftrightarrow> v = AnchorRecordsDecreased \<or> v = AnchorHeadRewritten"

type_synonym anchors = "(string, LogAnchor) gomap"

definition RecordLogHead ::
  "bool \<Rightarrow> string \<Rightarrow> string \<Rightarrow> int \<Rightarrow> anchors \<Rightarrow> (anchor_error + LogAnchor \<times> anchor_verdict) \<times> anchors"
where
  "RecordLogHead takes target head records anchors =
     (if trim_space target = [] then (Inl AnchorNoTarget, anchors)
      else if records < 0 then (Inl AnchorNegative, anchors)
      else if \<not> takes then (Inl AnchorDatabase, anchors)
      else
        (case map_of anchors target of
           None \<Rightarrow>
             if trim_space head = [] then (Inl AnchorNoHead, anchors)
             else let a = \<lparr>la_Head = head, la_Records = records, la_Violation = None\<rparr>
               in (Inr (a, AnchorFirstSighting), AList.update target a anchors)
         | Some prev \<Rightarrow>
             let verdict = ClassifyLogHead (la_Head prev) (la_Records prev) head records;
                 a = (if AnchorViolation verdict then prev\<lparr>la_Violation := Some (verdict, head, records)\<rparr>
                      else if \<not> Compromised prev then prev\<lparr>la_Head := head, la_Records := records\<rparr>
                      else prev)
             in (Inr (a, verdict), AList.update target a anchors)))"

text \<open>The audit row of a resolution is the second component of the state.\<close>

definition ResolveLogViolation ::
  "bool \<Rightarrow> string \<Rightarrow> string \<Rightarrow> string \<Rightarrow> string \<Rightarrow> anchors \<Rightarrow> (anchor_error + LogAnchor) \<times> anchors \<times> (string \<times> string \<times> string) list"
where
  "ResolveLogViolation takes target actor note cited anchors =
     (if trim_space actor = [] \<or> trim_space note = [] then (Inl ErrNoAnchorFinding, anchors, [])
      else if \<not> takes then (Inl AnchorDatabase, anchors, [])
      else
        (case map_of anchors target of
           None \<Rightarrow> (Inl ErrNoAnchorFinding, anchors, [])
         | Some prev \<Rightarrow>
             (case la_Violation prev of
                None \<Rightarrow> (Inl ErrNoAnchorFinding, anchors, [])
              | Some (_, head, records) \<Rightarrow>
                  if head \<noteq> cited then (Inl ErrAnchorMoved, anchors, [])
                  else let a = \<lparr>la_Head = head, la_Records = records, la_Violation = None\<rparr>
                    in (Inr a, AList.update target a anchors, [(actor, ''target.'' @ target @ ''.log_finding_resolved'', note)]))))"

section \<open>What is remembered\<close>

datatype anchor_event = Reported bool string string int | Resolved bool string string string string

fun anchor_effect :: "anchor_event \<Rightarrow> anchors \<Rightarrow> anchors" where
  "anchor_effect (Reported takes target head records) as = snd (RecordLogHead takes target head records as)"
| "anchor_effect (Resolved takes target actor note cited) as = fst (snd (ResolveLogViolation takes target actor note cited as))"

definition anchor_run :: "anchor_event list \<Rightarrow> anchors \<Rightarrow> anchors" where
  "anchor_run evs as = fold anchor_effect evs as"

lemma anchor_run_append: "anchor_run (es @ fs) as = anchor_run fs (anchor_run es as)"
  by (simp add: anchor_run_def)

definition resolves :: "string \<Rightarrow> anchor_event \<Rightarrow> bool" where
  "resolves target e \<longleftrightarrow> (\<exists>takes actor note cited. e = Resolved takes target actor note cited)"

text \<open>A report that counts: the database took it, and the add-on counts from zero.\<close>

definition goes_back :: "string \<Rightarrow> int \<Rightarrow> string \<Rightarrow> int \<Rightarrow> bool" where
  "goes_back head n head' n' \<longleftrightarrow> n' < n \<or> n' = n \<and> head' \<noteq> head"

definition at_least :: "string \<Rightarrow> int \<Rightarrow> LogAnchor \<Rightarrow> bool" where
  "at_least head n a \<longleftrightarrow> Compromised a \<or> n < la_Records a \<or> la_Records a = n \<and> la_Head a = head"

lemma violation_iff:
  "AnchorViolation (ClassifyLogHead h n h' n') \<longleftrightarrow> goes_back h n h' n' \<or> n < n' \<and> h' = h"
  by (auto simp: ClassifyLogHead_def AnchorViolation_def goes_back_def)

lemma anchor_effect_other:
  "(\<And>takes h n. e \<noteq> Reported takes target h n) \<Longrightarrow> \<not> resolves target e \<Longrightarrow> map_of (anchor_effect e as) target = map_of as target"
  by (cases e) (auto simp: RecordLogHead_def ResolveLogViolation_def resolves_def Let_def split: option.splits)

lemma report_moves:
  assumes "map_of as target = Some a"
  shows "\<exists>a'. map_of (snd (RecordLogHead takes target h' n' as)) target = Some a' \<and> (Compromised a \<longrightarrow> Compromised a') \<and>
     (\<not> Compromised a' \<longrightarrow> la_Records a < la_Records a' \<or> la_Records a' = la_Records a \<and> la_Head a' = la_Head a) \<and>
     (takes \<and> 0 \<le> n' \<and> trim_space target \<noteq> [] \<and> AnchorViolation (ClassifyLogHead (la_Head a) (la_Records a) h' n') \<longrightarrow> Compromised a')"
  using assms by (auto simp: RecordLogHead_def Let_def violation_iff Compromised_def goes_back_def)

lemma event_keeps_at_least:
  assumes "map_of as target = Some a" "at_least h n a" "\<not> resolves target e"
  shows "\<exists>a'. map_of (anchor_effect e as) target = Some a' \<and> at_least h n a' \<and> (Compromised a \<longrightarrow> Compromised a')"
proof (cases "\<exists>takes h' n'. e = Reported takes target h' n'")
  case True
  then obtain takes h' n' where e: "e = Reported takes target h' n'" by blast
  from report_moves [OF assms(1), of takes h' n'] show ?thesis using assms(2) by (auto simp: e at_least_def)
next
  case False
  then have "map_of (anchor_effect e as) target = Some a" using anchor_effect_other [OF _ assms(3)] assms(1) by metis
  then show ?thesis using assms(2) by blast
qed

lemma run_keeps_at_least:
  assumes "map_of as target = Some a" "at_least h n a" "list_all (\<lambda>e. \<not> resolves target e) es"
  shows "\<exists>a'. map_of (anchor_run es as) target = Some a' \<and> at_least h n a' \<and> (Compromised a \<longrightarrow> Compromised a')"
  using assms
proof (induction es arbitrary: as a)
  case (Cons e es)
  obtain a1 where a1: "map_of (anchor_effect e as) target = Some a1" "at_least h n a1" "Compromised a \<longrightarrow> Compromised a1"
    using event_keeps_at_least [OF Cons.prems(1,2)] Cons.prems(3) by auto
  show ?case using Cons.IH [OF a1(1,2)] Cons.prems(3) a1(3) by (auto simp: anchor_run_def)
qed (auto simp: anchor_run_def)

lemma report_reached:
  assumes "trim_space target \<noteq> []" "trim_space h \<noteq> []" "0 \<le> n"
  shows "\<exists>a. map_of (anchor_effect (Reported True target h n) as) target = Some a \<and> at_least h n a"
  using assms by (cases "map_of as target") (auto simp: RecordLogHead_def Let_def violation_iff at_least_def Compromised_def goes_back_def)

text \<open>
  C12. The anchor never forgets. Once a target reported a head and a count, a later report of fewer records, or of
  as many under another head, leaves the anchor with a finding, whatever was reported between and
  after: the anchor never adopts it by itself, and the finding stands until somebody resolves it. Reports of
  other targets and refused ones change nothing. A resolution of the target is needed to end it, and that
  succeeds only for the head the finding names and with an actor and a note, and adopts exactly that head.
\<close>

theorem anchor_remembers:
  assumes target: "trim_space target \<noteq> []" and first: "trim_space h \<noteq> []" "0 \<le> n" and second: "0 \<le> n'" "goes_back h n h' n'"
    and open_finding: "list_all (\<lambda>e. \<not> resolves target e) (between @ later)"
  shows "\<exists>a. map_of (anchor_run (before @ [Reported True target h n] @ between @ [Reported True target h' n'] @ later) anchors) target = Some a \<and>
     Compromised a \<and>
     (\<forall>takes actor note cited x as' audit. ResolveLogViolation takes target actor note cited
         (anchor_run (before @ [Reported True target h n] @ between @ [Reported True target h' n'] @ later) anchors) = (Inr x, as', audit) \<longrightarrow>
       trim_space actor \<noteq> [] \<and> trim_space note \<noteq> [] \<and> \<not> Compromised x \<and> la_Head x = cited \<and>
       (\<exists>v. la_Violation a = Some (v, cited, la_Records x)) \<and> audit \<noteq> [])"
proof -
  let ?s1 = "anchor_effect (Reported True target h n) (anchor_run before anchors)"
  let ?final = "anchor_run (before @ [Reported True target h n] @ between @ [Reported True target h' n'] @ later) anchors"
  obtain a1 where a1: "map_of ?s1 target = Some a1" "at_least h n a1" using report_reached [OF target first] by blast
  obtain a2 where a2: "map_of (anchor_run between ?s1) target = Some a2" "at_least h n a2"
    using run_keeps_at_least [OF a1] open_finding by auto
  let ?s3 = "anchor_effect (Reported True target h' n') (anchor_run between ?s1)"
  have "AnchorViolation (ClassifyLogHead (la_Head a2) (la_Records a2) h' n')" if "\<not> Compromised a2"
    using a2(2) that second(2) by (auto simp: violation_iff at_least_def goes_back_def)
  then obtain a3 where a3: "map_of ?s3 target = Some a3" "Compromised a3"
    using report_moves [OF a2(1), of True h' n'] target second(1) by (cases "Compromised a2") auto
  have "at_least h n a3" using a3(2) by (simp add: at_least_def)
  then obtain a where a: "map_of (anchor_run later ?s3) target = Some a" "Compromised a"
    using run_keeps_at_least [OF a3(1), of h n later] a3(2) open_finding by auto
  have same: "?final = anchor_run later ?s3" by (simp add: anchor_run_def)
  show ?thesis unfolding same using a
    by (intro exI [of _ a]) (auto simp: ResolveLogViolation_def Compromised_def Let_def split: if_splits option.splits prod.splits)
qed

theorem anchor_remembers_witness:
  "case map_of (anchor_run ([] @ [Reported True ''nas'' ''h9'' 9] @ [Reported True ''nas'' ''h12'' 12] @ [Reported True ''nas'' [] 0] @ [Reported True ''nas'' ''h30'' 30]) []) ''nas'' of
     Some a \<Rightarrow> Compromised a \<and> la_Head a = ''h12'' \<and> la_Records a = 12 | None \<Rightarrow> False"
proof -
  let ?final = "anchor_run ([] @ [Reported True ''nas'' ''h9'' 9] @ [Reported True ''nas'' ''h12'' 12] @ [Reported True ''nas'' [] 0] @ [Reported True ''nas'' ''h30'' 30]) []"
  have "case map_of ?final ''nas'' of Some a \<Rightarrow> la_Head a = ''h12'' \<and> la_Records a = 12 | None \<Rightarrow> False" by code_simp
  moreover have "trim_space ''nas'' \<noteq> []" "trim_space ''h9'' \<noteq> []" by code_simp+
  then have "\<exists>a. map_of ?final ''nas'' = Some a \<and> Compromised a"
    using anchor_remembers [of "''nas''" "''h9''" 9 0 "[]" "[Reported True ''nas'' ''h12'' 12]" "[Reported True ''nas'' ''h30'' 30]" "[]" "[]"]
    by (auto simp: goes_back_def resolves_def)
  ultimately show ?thesis by auto
qed

text \<open>
  What the anchor does not see: a log cut back and then grown past the anchored count, with another head, reads as
  extended, since no report shows that the anchored head is still in the chain.
\<close>

lemma regrown_log_passes: "n < n' \<Longrightarrow> h' \<noteq> h \<Longrightarrow> ClassifyLogHead h n h' n' = AnchorExtended"
  by (simp add: ClassifyLogHead_def)

section \<open>An honest log\<close>

text \<open>
  The log at work and the backend reading it: the add-on's steps, and reports of its head and count to the anchor, which a
  count past the range of \<^verbatim>\<open>int64\<close> never reaches.
\<close>

inductive watched_step :: "(mut_record \<Rightarrow> string) \<Rightarrow> (string \<Rightarrow> mut_record option) \<Rightarrow> (string \<Rightarrow> string) \<Rightarrow> string \<Rightarrow>
    mutation_log \<times> mut_record list \<times> anchors \<Rightarrow> mutation_log \<times> mut_record list \<times> anchors \<Rightarrow> bool"
  for enc :: "mut_record \<Rightarrow> string" and dec :: "string \<Rightarrow> mut_record option" and H :: "string \<Rightarrow> string" and target :: string where
  addon_works: "log_step enc dec H (l, acked) (l', acked') \<Longrightarrow> watched_step enc dec H target (l, acked, as) (l', acked', as)"
| backend_reads: "log_Head l = (h, c) \<Longrightarrow> uint c < 2 ^ 63 \<Longrightarrow>
     watched_step enc dec H target (l, acked, as) (l, acked, snd (RecordLogHead takes target h (uint c) as))"

definition no_collisions :: "(string \<Rightarrow> string) \<Rightarrow> bool" where
  "no_collisions H \<longleftrightarrow> (\<forall>r r'. digestOf H r = digestOf H r' \<longrightarrow> digest_fields r = digest_fields r')"

text \<open>The anchor is clean and stands at a part of the history the log begins with.\<close>

definition anchored :: "mut_record list \<Rightarrow> LogAnchor option \<Rightarrow> bool" where
  "anchored rs x \<longleftrightarrow> (\<forall>a. x = Some a \<longrightarrow> \<not> Compromised a \<and>
     (\<exists>ps. ps \<noteq> [] \<and> prefix ps rs \<and> la_Records a = int (length ps) \<and> la_Head a = mr_Digest (last ps)))"

lemma anchored_prefix: "anchored rs x \<Longrightarrow> prefix rs rs' \<Longrightarrow> anchored rs' x"
  by (auto simp: anchored_def intro: prefix_order.order_trans)

lemma longer_head_differs:
  assumes "history_ok enc dec H rs" "no_collisions H" "ps \<noteq> []" "prefix ps rs" "length ps < length rs"
  shows "mr_Digest (last rs) \<noteq> mr_Digest (last ps)"
proof
  assume eq: "mr_Digest (last rs) = mr_Digest (last ps)"
  have rs: "chained H rs" "rs \<noteq> []" "mr_Seq (hd rs) = 1" "length rs < 2 ^ 64 - 1"
    using assms(1,3,4) by (auto simp: history_ok_def)
  obtain qs where qs: "rs = ps @ qs" using assms(4) by (auto simp: prefix_def)
  then have ps: "chained H ps" "mr_Seq (hd ps) = 1" using rs assms(3) by (auto simp: chained_append)
  have "digest_fields (last rs) = digest_fields (last ps)"
  proof -
    have "digestOf H (last rs) = digestOf H (last ps)"
      using eq chained_digest [OF rs(1) last_in_set [OF rs(2)]] chained_digest [OF ps(1) last_in_set [OF assms(3)]] by simp
    then show ?thesis using assms(2) unfolding no_collisions_def by blast
  qed
  then have "mr_Seq (last rs) = mr_Seq (last ps)" by (simp add: digest_fields_def word_unat_eq_iff)
  then have "(of_nat (length rs) :: 64 word) = of_nat (length ps)"
    using chained_seq [OF rs(1,2,3)] chained_seq [OF ps(1) assms(3) ps(2)] by simp
  moreover have small: "unat (of_nat n :: 64 word) = n" if "n < 2 ^ 64" for n using that by (simp only: unat_of_nat) simp
  have "unat (of_nat (length rs) :: 64 word) = length rs" "unat (of_nat (length ps) :: 64 word) = length ps"
    using rs(4) assms(5) by (intro small; simp)+
  ultimately have "length rs = length ps" by metis
  then show False using assms(5) by simp
qed

lemma report_keeps_anchored:
  assumes inv: "log_inv enc dec H rs l" and H: "no_collisions H" and anch: "anchored rs (map_of as target)" and head: "log_Head l = (h, c)"
  shows "anchored rs (map_of (snd (RecordLogHead takes target h (uint c) as)) target)"
proof -
  note hist = log_inv_parts(1) [OF inv]
  have c: "uint c = int (length rs)" using log_counts_nat [OF inv] head by (simp add: log_Head_def uint_nat)
  have h: "h = (if rs = [] then [] else mr_Digest (last rs))" using log_inv_parts(2) [OF inv] head by (simp add: log_counts_def log_Head_def)
  show ?thesis
  proof (cases "map_of as target")
    case None
    then show ?thesis using anch h c by (cases "rs = []") (auto simp: RecordLogHead_def Let_def anchored_def Compromised_def intro: exI [of _ rs])
  next
    case (Some a)
    then obtain ps where ps: "ps \<noteq> []" "prefix ps rs" "la_Records a = int (length ps)" "la_Head a = mr_Digest (last ps)" and clean: "\<not> Compromised a"
      using anch by (auto simp: anchored_def)
    have rs: "rs \<noteq> []" "length ps \<le> length rs" using ps(1,2) by (auto dest: prefix_length_le)
    have "length ps = length rs \<Longrightarrow> rs = ps" using ps(2) by (auto simp: prefix_def)
    then have "\<not> AnchorViolation (ClassifyLogHead (la_Head a) (la_Records a) h (uint c))"
      using longer_head_differs [OF hist H ps(1,2)] ps(3,4) h c rs by (auto simp: violation_iff goes_back_def)
    then show ?thesis using Some anch clean h c rs(1)
      by (auto simp: RecordLogHead_def Let_def anchored_def Compromised_def intro: exI [of _ rs])
  qed
qed

lemma watched_inv:
  assumes "(watched_step enc dec H target)\<^sup>*\<^sup>* w w'" "no_collisions H" "log_inv enc dec H rs (fst w)" "subseq (fst (snd w)) rs"
    "anchored rs (map_of (snd (snd w)) target)"
  shows "\<exists>rs'. log_inv enc dec H rs' (fst w') \<and> subseq (fst (snd w')) rs' \<and> anchored rs' (map_of (snd (snd w')) target)"
  using assms(1)
proof (induction rule: rtranclp_induct)
  case base
  then show ?case using assms(3-5) by blast
next
  case (step y z)
  then obtain rs1 where rs1: "log_inv enc dec H rs1 (fst y)" "subseq (fst (snd y)) rs1" "anchored rs1 (map_of (snd (snd y)) target)" by blast
  from step(2) show ?case
  proof cases
    case (addon_works l acked l' acked' as)
    from log_step_inv [OF addon_works(3), of rs1] rs1 addon_works(1)
    obtain rs2 where "log_inv enc dec H rs2 l'" "subseq acked' rs2" "prefix rs1 rs2" by auto
    then show ?thesis using rs1(3) addon_works(1,2) anchored_prefix by (intro exI [of _ rs2]) auto
  next
    case (backend_reads l h c acked as takes)
    then show ?thesis using rs1 report_keeps_anchored [OF _ assms(2), of enc dec rs1 l as target h c takes] by (intro exI [of _ rs1]) auto
  qed
qed


lemma demo_no_collisions: "no_collisions (\<lambda>s. s)"
  by (auto simp: no_collisions_def digestOf_def dest: encode_fields_inj)


end
