(* ===== verification/Addon_Sync.thy ===== *)
theory Addon_Sync
  imports Entitlement Log_Anchor
begin

text \<open>
  \<^verbatim>\<open>src/backend/internal/services/drift/addon.go\<close> with the tables it writes (\<^verbatim>\<open>db/target_bindings.go\<close>,
  \<open>merge_bases.go\<close>, \<open>merge_findings.go\<close>, \<open>system_convergence.go\<close>, \<open>target_project.go\<close>,
  \<open>target_reconciliation.go\<close>): the periodic reconcile of an add-on target. It reads the accounts, classifies
  every bound subject by the three-way merge, persists what it may not resolve, and queues the convergences it may.

  What a pass meets is an environment: the add-on's answers, the resolution of a subject, the holders
  of a role, and whether the database takes each statement. A convergence in the queue carries the
  snapshot its plan subject points at. The ids of new findings come from it. Other ids and times are left out where nothing reads them.
\<close>

section \<open>Tables\<close>

record TargetBinding =
  tb_Target :: string
  tb_SubjectID :: string
  tb_Username :: string
  tb_AccountUID :: "int option"
  tb_BoundBy :: string

record MergeFinding =
  mf_ID :: string
  mf_Target :: string
  mf_SubjectID :: string
  mf_Field :: string
  mf_Outcome :: merge_outcome
  mf_Base :: raw_message
  mf_Ours :: raw_message
  mf_Theirs :: raw_message
  mf_Decision :: "(string \<times> string) option"
  mf_Reason :: "string option"
  mf_Resolved :: "(string \<times> string) option"

record SystemConvergence =
  cv_Target :: string
  cv_SubjectID :: string
  cv_Actor :: string
  cv_Reason :: string
  cv_Desired :: field_map
  cv_Waiting :: bool

record reconciliation =
  rc_last_read :: "time option"
  rc_since :: "time option"
  rc_reason :: "string option"

record sync_tables =
  sy_bindings :: "TargetBinding list"
  sy_bases :: "(string \<times> string, field_map) gomap"
  sy_findings :: "MergeFinding list"
  sy_queue :: "SystemConvergence list"
  sy_recon :: "(string, reconciliation) gomap"
  sy_anchors :: anchors

datatype sync_stmt =
    ListBindings | ListBases | ListMappings | ListHolders string string
  | SaveFinding string string | ClearFinding string string | SaveBase string | AskPending string | QueueApply string | MarkTarget | AnchorHead

definition TargetZitadel :: string where "TargetZitadel = ''zitadel''"

definition ListTargetBindings :: "string \<Rightarrow> sync_tables \<Rightarrow> TargetBinding list" where
  "ListTargetBindings target st = sort_by (\<lambda>a b. str_cmp (tb_Username a) (tb_Username b)) (filter (\<lambda>b. tb_Target b = target) (sy_bindings st))"

text \<open>\<open>ErrBindingConflict\<close> is the refusal by one of the two unique indexes.\<close>

definition binding_taken :: "TargetBinding \<Rightarrow> int option \<Rightarrow> TargetBinding list \<Rightarrow> bool" where
  "binding_taken b uid bs \<longleftrightarrow>
     list_ex (\<lambda>x. tb_Target x = tb_Target b \<and> tb_SubjectID x \<noteq> tb_SubjectID b \<and>
        (tb_Username x = tb_Username b \<or> uid \<noteq> None \<and> tb_AccountUID x = uid)) bs"

datatype binding_error = ErrInvalidTargetBinding | ErrBindingConflict | BindingDatabase

definition RecordTargetBinding :: "bool \<Rightarrow> TargetBinding \<Rightarrow> TargetBinding list \<Rightarrow> binding_error option \<times> TargetBinding list" where
  "RecordTargetBinding takes b bs =
     (if trim_space (tb_Target b) = [] \<or> tb_Target b = TargetZitadel \<or> trim_space (tb_SubjectID b) = [] \<or> trim_space (tb_Username b) = [] \<or> trim_space (tb_BoundBy b) = []
      then (Some ErrInvalidTargetBinding, bs)
      else if \<not> takes then (Some BindingDatabase, bs)
      else
        (case find (\<lambda>x. tb_Target x = tb_Target b \<and> tb_SubjectID x = tb_SubjectID b) bs of
           None \<Rightarrow> if binding_taken b (tb_AccountUID b) bs then (Some ErrBindingConflict, bs) else (None, bs @ [b])
         | Some old \<Rightarrow>
             let uid = (case tb_AccountUID b of None \<Rightarrow> tb_AccountUID old | Some u \<Rightarrow> Some u)
             in if binding_taken b uid bs then (Some ErrBindingConflict, bs)
                else (None, map (\<lambda>x. if tb_Target x = tb_Target b \<and> tb_SubjectID x = tb_SubjectID b
                       then x\<lparr>tb_Username := tb_Username b, tb_AccountUID := uid\<rparr> else x) bs)))"

definition ForgetTargetBinding :: "string \<Rightarrow> string \<Rightarrow> TargetBinding list \<Rightarrow> TargetBinding list" where
  "ForgetTargetBinding target sid bs = filter (\<lambda>x. \<not> (tb_Target x = target \<and> tb_SubjectID x = sid)) bs"

definition RecordMergeBase :: "bool \<Rightarrow> string \<Rightarrow> string \<Rightarrow> field_map \<Rightarrow> sync_tables \<Rightarrow> bool \<times> sync_tables" where
  "RecordMergeBase takes target sid base st =
     (if trim_space target = [] \<or> trim_space sid = [] \<or> base = [] \<or> \<not> takes then (False, st)
      else (True, st\<lparr>sy_bases := AList.update (target, sid) base (sy_bases st)\<rparr>))"

definition ForgetMergeBase :: "string \<Rightarrow> string \<Rightarrow> sync_tables \<Rightarrow> sync_tables" where
  "ForgetMergeBase target sid st = st\<lparr>sy_bases := AList.delete (target, sid) (sy_bases st)\<rparr>"

definition standing :: "string \<Rightarrow> string \<Rightarrow> string \<Rightarrow> MergeFinding \<Rightarrow> bool" where
  "standing target sid field r \<longleftrightarrow> mf_Target r = target \<and> mf_SubjectID r = sid \<and> mf_Field r = field \<and> mf_Resolved r = None"

definition RecordMergeFinding :: "bool \<Rightarrow> string \<Rightarrow> string \<Rightarrow> SubjectFinding \<Rightarrow> sync_tables \<Rightarrow> bool \<times> sync_tables" where
  "RecordMergeFinding takes fid target f st =
     (if trim_space target = [] \<or> trim_space (sf_SubjectID f) = [] \<or> sf_Outcome f \<notin> {TheirsOnly, Conflict, DeletedUpstream} \<or> \<not> takes then (False, st)
      else if list_ex (standing target (sf_SubjectID f) (sf_Field f)) (sy_findings st) then
        (True, st\<lparr>sy_findings := map (\<lambda>r. if standing target (sf_SubjectID f) (sf_Field f) r
           then r\<lparr>mf_Outcome := sf_Outcome f, mf_Base := sf_Base f, mf_Ours := sf_Ours f, mf_Theirs := sf_Theirs f\<rparr> else r) (sy_findings st)\<rparr>)
      else
        (True, st\<lparr>sy_findings := sy_findings st @ [\<lparr>mf_ID = fid, mf_Target = target, mf_SubjectID = sf_SubjectID f, mf_Field = sf_Field f, mf_Outcome = sf_Outcome f,
           mf_Base = sf_Base f, mf_Ours = sf_Ours f, mf_Theirs = sf_Theirs f, mf_Decision = None, mf_Reason = None, mf_Resolved = None\<rparr>]\<rparr>))"

definition ResolutionAgreed :: string where "ResolutionAgreed = ''agreed''"

definition ClearMergeFinding :: "bool \<Rightarrow> string \<Rightarrow> string \<Rightarrow> string \<Rightarrow> string \<Rightarrow> sync_tables \<Rightarrow> bool \<times> sync_tables" where
  "ClearMergeFinding takes target sid field actor st =
     (if \<not> takes then (False, st)
      else (True, st\<lparr>sy_findings := map (\<lambda>r. if standing target sid field r
         then r\<lparr>mf_Resolved := Some (case mf_Decision r of
            None \<Rightarrow> (actor, ResolutionAgreed)
          | Some (who, what) \<Rightarrow> (if who = [] then actor else who, what))\<rparr> else r) (sy_findings st)\<rparr>))"

text \<open>Two snapshots are the same \<^verbatim>\<open>jsonb\<close> when they have the same fields with the same values.\<close>

definition same_fields :: "field_map \<Rightarrow> field_map \<Rightarrow> bool" where
  "same_fields m m' \<longleftrightarrow> list_all (\<lambda>k. map_of m k = map_of m' k) (map fst m @ map fst m')"

definition PendingApplyWants :: "string \<Rightarrow> string \<Rightarrow> field_map \<Rightarrow> sync_tables \<Rightarrow> bool" where
  "PendingApplyWants target sid desired st =
     list_ex (\<lambda>c. cv_Target c = target \<and> cv_SubjectID c = sid \<and> cv_Waiting c \<and> same_fields (cv_Desired c) desired) (sy_queue st)"

definition RecordSystemConvergence :: "bool \<Rightarrow> string \<Rightarrow> string \<Rightarrow> string \<Rightarrow> string \<Rightarrow> field_map \<Rightarrow> sync_tables \<Rightarrow> bool \<times> sync_tables" where
  "RecordSystemConvergence takes target sid actor reason desired st =
     (if trim_space target = [] \<or> target = TargetZitadel \<or> trim_space sid = [] \<or> trim_space actor = [] \<or> \<not> takes then (False, st)
      else (True, st\<lparr>sy_queue := sy_queue st @ [\<lparr>cv_Target = target, cv_SubjectID = sid, cv_Actor = actor, cv_Reason = reason, cv_Desired = desired, cv_Waiting = True\<rparr>]\<rparr>))"

definition UnreconciledUnreachable :: string where "UnreconciledUnreachable = ''target_unreachable''"
definition UnreconciledStaleRead :: string where "UnreconciledStaleRead = ''read_stale''"
definition UnreconciledTruncated :: string where "UnreconciledTruncated = ''read_truncated''"
definition UnreconciledFindingsUnrecorded :: string where "UnreconciledFindingsUnrecorded = ''findings_unrecorded''"
definition UnreconciledReadRefused :: string where "UnreconciledReadRefused = ''read_refused''"

definition validUnreconciledReason :: "string \<Rightarrow> bool" where
  "validUnreconciledReason r \<longleftrightarrow> r = UnreconciledUnreachable \<or> r = UnreconciledStaleRead \<or> r = UnreconciledTruncated \<or> r = UnreconciledReadRefused \<or> r = UnreconciledFindingsUnrecorded"

definition MarkTargetUnreconciled :: "bool \<Rightarrow> time \<Rightarrow> string \<Rightarrow> string \<Rightarrow> sync_tables \<Rightarrow> sync_tables" where
  "MarkTargetUnreconciled takes now target reason st =
     (if target = [] \<or> \<not> validUnreconciledReason reason \<or> \<not> takes then st
      else st\<lparr>sy_recon := AList.update target
        (case map_of (sy_recon st) target of
           None \<Rightarrow> \<lparr>rc_last_read = None, rc_since = Some now, rc_reason = Some reason\<rparr>
         | Some r \<Rightarrow> r\<lparr>rc_since := Some (case rc_since r of None \<Rightarrow> now | Some t \<Rightarrow> t), rc_reason := Some reason\<rparr>) (sy_recon st)\<rparr>)"

definition MarkTargetReconciled :: "bool \<Rightarrow> time \<Rightarrow> string \<Rightarrow> sync_tables \<Rightarrow> sync_tables" where
  "MarkTargetReconciled takes now target st =
     (if target = [] \<or> \<not> takes then st
      else st\<lparr>sy_recon := AList.update target \<lparr>rc_last_read = Some now, rc_since = None, rc_reason = None\<rparr> (sy_recon st)\<rparr>)"

section \<open>What a pass meets\<close>

record TargetAccount =
  ta_Username :: string
  ta_UID :: int
  ta_PasswordSet :: bool
  ta_Self :: bool
  ta_State :: "field_map option"

record SubjectsResult =
  sr_ok :: bool
  sr_Accounts :: "TargetAccount list"
  sr_Current :: bool
  sr_Truncated :: bool

record plan_answer =
  pa_ok :: bool
  pa_Outcomes :: "(string \<times> string \<times> string) list"

record sync_env =
  se_takes :: "sync_stmt \<Rightarrow> bool"
  se_now :: time
  se_id :: "nat \<Rightarrow> string"
  se_read :: SubjectsResult
  se_health :: "(string \<times> int) option"
  se_resolve :: "string \<Rightarrow> string + field_map"
  se_plan :: "(string \<times> field_map) list \<Rightarrow> plan_answer"
  se_mappings :: "RoleMapping list"
  se_held :: "(string, role_key goset) gomap"
  se_rules :: "mapping_rule list"
  se_left :: "string list"

definition reconcileActor :: string where "reconcileActor = ''system:reconcile''"
definition PlanEffectApply :: string where "PlanEffectApply = ''apply''"

section \<open>Accounts and bindings\<close>

definition unmanaged :: "TargetAccount list \<Rightarrow> TargetBinding list \<Rightarrow> TargetAccount list" where
  "unmanaged accounts bs =
     filter (\<lambda>a. \<not> (ta_UID a \<noteq> 0 \<and> list_ex (\<lambda>b. tb_AccountUID b = Some (ta_UID a)) bs) \<and> \<not> list_ex (\<lambda>b. tb_Username b = ta_Username a) bs) accounts"

definition account_present :: "TargetAccount list \<Rightarrow> TargetBinding \<Rightarrow> bool" where
  "account_present accounts b \<longleftrightarrow> list_ex (\<lambda>a. tb_AccountUID b = Some (ta_UID a) \<or> tb_Username b = ta_Username a) accounts"

definition partitionByPresence :: "TargetBinding list \<Rightarrow> TargetAccount list \<Rightarrow> TargetBinding list \<times> TargetBinding list" where
  "partitionByPresence bs accounts = (filter (account_present accounts) bs, filter (\<lambda>b. \<not> account_present accounts b) bs)"

text \<open>The maps \<open>byUID\<close> and \<open>byName\<close> keep the last account with a state under a key.\<close>

definition state_of :: "TargetAccount list \<Rightarrow> TargetBinding \<Rightarrow> field_map option" where
  "state_of accounts b =
     (let named = rev (filter (\<lambda>a. ta_State a \<noteq> None) accounts);
          by_uid = (case tb_AccountUID b of None \<Rightarrow> None | Some u \<Rightarrow> find (\<lambda>a. ta_UID a \<noteq> 0 \<and> ta_UID a = u) named)
      in case by_uid of Some a \<Rightarrow> ta_State a
         | None \<Rightarrow> (case find (\<lambda>a. ta_Username a = tb_Username b) named of Some a \<Rightarrow> ta_State a | None \<Rightarrow> None))"

definition baseOf :: "(string \<times> string, field_map) gomap \<Rightarrow> string \<Rightarrow> string \<Rightarrow> field_map" where
  "baseOf bases target sid = map_default [] bases (target, sid)"

section \<open>Findings and observations\<close>

fun save_findings :: "sync_env \<Rightarrow> string \<Rightarrow> SubjectFinding list \<Rightarrow> nat \<times> sync_tables \<Rightarrow> nat \<times> sync_tables" where
  "save_findings env target [] acc = acc"
| "save_findings env target (f # fs) (failed, st) =
     (case RecordMergeFinding (se_takes env (SaveFinding (sf_SubjectID f) (sf_Field f))) (se_id env (length (sy_findings st))) target f st of
        (ok, st') \<Rightarrow> save_findings env target fs (if ok then failed else Suc failed, st'))"

fun clear_findings :: "sync_env \<Rightarrow> string \<Rightarrow> string \<Rightarrow> string list \<Rightarrow> nat \<times> sync_tables \<Rightarrow> nat \<times> sync_tables" where
  "clear_findings env target sid [] acc = acc"
| "clear_findings env target sid (f # fs) (failed, st) =
     (case ClearMergeFinding (se_takes env (ClearFinding sid f)) target sid f reconcileActor st of
        (ok, st') \<Rightarrow> clear_findings env target sid fs (if ok then failed else Suc failed, st'))"

definition persistFindings :: "sync_env \<Rightarrow> string \<Rightarrow> merge_subject \<Rightarrow> SubjectFinding list \<Rightarrow> sync_tables \<Rightarrow> nat \<times> sync_tables" where
  "persistFindings env target state found st =
     (let acc = save_findings env target found (0, st)
      in if ms_Absent state then acc
         else clear_findings env target (ms_SubjectID state)
           ([] # filter (\<lambda>f. f \<notin> sf_Field ` set found) (map fo_Field (ms_Fields state))) acc)"

definition observeState :: "sync_env \<Rightarrow> string \<Rightarrow> string \<Rightarrow> field_map \<Rightarrow> field_map \<Rightarrow> sync_tables \<Rightarrow> sync_tables" where
  "observeState env target sid ours theirs st =
     (let observed = map (\<lambda>f. (f, raw_at theirs f)) (filter (\<lambda>f. map_of theirs f \<noteq> None) (map fst ours))
      in if observed = [] then st else snd (RecordMergeBase (se_takes env (SaveBase sid)) target sid observed st))"

section \<open>The pass\<close>

record sync_acc =
  sc_findings :: "SubjectFinding list"
  sc_unrecorded :: nat
  sc_subjects :: "(string \<times> field_map) list"
  sc_desired :: "(string, field_map) gomap"

definition classify_bound :: "sync_env \<Rightarrow> string \<Rightarrow> (string \<times> string, field_map) gomap \<Rightarrow> TargetBinding \<Rightarrow> field_map \<Rightarrow> merge_subject" where
  "classify_bound env target bases b ours =
     (case state_of (sr_Accounts (se_read env)) b of
        None \<Rightarrow> Classify (tb_SubjectID b) ours [] []
      | Some theirs \<Rightarrow> Classify (tb_SubjectID b) ours theirs (baseOf bases target (tb_SubjectID b)))"

fun bound_loop ::
  "sync_env \<Rightarrow> string \<Rightarrow> (string \<times> string, field_map) gomap \<Rightarrow> TargetBinding list \<Rightarrow> sync_acc \<Rightarrow> sync_tables \<Rightarrow> string option \<times> sync_acc \<times> sync_tables"
where
  "bound_loop env target bases [] acc st = (None, acc, st)"
| "bound_loop env target bases (b # bs) acc st =
     (case se_resolve env (tb_SubjectID b) of
        Inl e \<Rightarrow> (Some e, acc, st)
      | Inr ours \<Rightarrow>
          let state = classify_bound env target bases b ours; found = Findings state
          in case persistFindings env target state found st of
               (failed, st1) \<Rightarrow>
                 let acc1 = acc\<lparr>sc_findings := sc_findings acc @ found, sc_unrecorded := sc_unrecorded acc + failed\<rparr>
                 in if \<not> Convergeable state then bound_loop env target bases bs acc1 st1
                    else let st2 = (case state_of (sr_Accounts (se_read env)) b of
                               Some theirs \<Rightarrow> if found = [] then observeState env target (tb_SubjectID b) ours theirs st1 else st1
                             | None \<Rightarrow> st1)
                      in bound_loop env target bases bs
                           (acc1\<lparr>sc_subjects := sc_subjects acc1 @ [(tb_SubjectID b, ours)],
                                 sc_desired := AList.update (tb_SubjectID b) ours (sc_desired acc1)\<rparr>) st2)"

fun queue_loop ::
  "sync_env \<Rightarrow> string \<Rightarrow> (string, field_map) gomap \<Rightarrow> (string \<times> string \<times> string) list \<Rightarrow> nat \<Rightarrow> sync_tables \<Rightarrow> nat \<times> bool \<times> sync_tables"
where
  "queue_loop env target desired [] n st = (n, True, st)"
| "queue_loop env target desired ((sid, effect, detail) # outs) n st =
     (if effect \<noteq> PlanEffectApply then queue_loop env target desired outs n st
      else case map_of desired sid of
        None \<Rightarrow> queue_loop env target desired outs n st
      | Some ours \<Rightarrow>
          if \<not> se_takes env (AskPending sid) then (n, False, st)
          else if PendingApplyWants target sid ours st then queue_loop env target desired outs n st
          else case RecordSystemConvergence (se_takes env (QueueApply sid)) target sid reconcileActor
                 (if detail = [] then ''Out of step with their roles.'' else detail) ours st of
                 (ok, st') \<Rightarrow> if ok then queue_loop env target desired outs (Suc n) st' else (n, False, st'))"

definition convergeBound ::
  "sync_env \<Rightarrow> string \<Rightarrow> TargetBinding list \<Rightarrow> sync_tables \<Rightarrow> nat \<times> SubjectFinding list \<times> nat \<times> bool \<times> sync_tables"
where
  "convergeBound env target bs st =
     (let acc0 = \<lparr>sc_findings = [], sc_unrecorded = 0, sc_subjects = [], sc_desired = []\<rparr>
      in if bs = [] then (0, [], 0, True, st)
         else case bound_loop env target (if se_takes env ListBases then sy_bases st else []) bs acc0 st of
           (Some e, acc, st1) \<Rightarrow> (0, sc_findings acc, sc_unrecorded acc, False, st1)
         | (None, acc, st1) \<Rightarrow>
             if sc_subjects acc = [] then (0, sc_findings acc, sc_unrecorded acc, True, st1)
             else let answer = se_plan env (sc_subjects acc)
               in if \<not> pa_ok answer then (0, sc_findings acc, sc_unrecorded acc, False, st1)
                  else case queue_loop env target (sc_desired acc) (pa_Outcomes answer) 0 st1 of
                    (n, ok, st2) \<Rightarrow> (n, sc_findings acc, sc_unrecorded acc, ok, st2))"

text \<open>The records of who holds what, the rules and the directory are read for each role; any of the reads may fail.\<close>

definition MappingHolders :: "sync_env \<Rightarrow> string \<Rightarrow> string \<Rightarrow> string + string list" where
  "MappingHolders env project role =
     (if \<not> se_takes env (ListHolders project role) then Inl ''read holders''
      else Inr (sort (map fst (filter (\<lambda>(u, base). u \<notin> set (se_left env) \<and> held (Closure base (se_rules env) RoleKey) (RoleKey project role)) (se_held env)))))"

definition ListRoleMappings :: "string \<Rightarrow> RoleMapping list \<Rightarrow> RoleMapping list" where
  "ListRoleMappings target rows =
     sort_by (\<lambda>a b. if rm_Target a \<noteq> rm_Target b then str_cmp (rm_Target a) (rm_Target b) else by_mapping a b)
       (filter (\<lambda>m. target = [] \<or> rm_Target m = target) rows)"

fun candidate_loop ::
  "sync_env \<Rightarrow> TargetBinding list \<Rightarrow> RoleMapping list \<Rightarrow> role_key goset \<Rightarrow> string goset \<Rightarrow> (string goset) option"
where
  "candidate_loop env bs [] seen cands = Some cands"
| "candidate_loop env bs (m # ms) seen cands =
     (let key = RoleKey (rm_ProjectID m) (rm_RoleKey m)
      in if held seen key then candidate_loop env bs ms seen cands
         else case MappingHolders env (rm_ProjectID m) (rm_RoleKey m) of
           Inl e \<Rightarrow> None
         | Inr hs \<Rightarrow> candidate_loop env bs ms (AList.update key True seen)
             (add_keys (filter (\<lambda>h. \<not> list_ex (\<lambda>b. tb_SubjectID b = h) bs) hs) cands))"

fun unbound_loop :: "sync_env \<Rightarrow> string \<Rightarrow> string list \<Rightarrow> nat \<Rightarrow> sync_tables \<Rightarrow> nat \<times> bool \<times> sync_tables" where
  "unbound_loop env target [] n st = (n, True, st)"
| "unbound_loop env target (sid # ids) n st =
     (case se_resolve env sid of
        Inl e \<Rightarrow> (n, False, st)
      | Inr ours \<Rightarrow>
          if map_of ours LifecycleEnabled \<noteq> Some (boolJSON True) then unbound_loop env target ids n st
          else if \<not> se_takes env (AskPending sid) then (n, False, st)
          else if PendingApplyWants target sid ours st then unbound_loop env target ids n st
          else case RecordSystemConvergence (se_takes env (QueueApply sid)) target sid reconcileActor ''Gets an account, for a role they hold.'' ours st of
                 (ok, st') \<Rightarrow> if ok then unbound_loop env target ids (Suc n) st' else (n, False, st'))"

definition convergeUnbound :: "sync_env \<Rightarrow> string \<Rightarrow> TargetBinding list \<Rightarrow> sync_tables \<Rightarrow> nat \<times> bool \<times> sync_tables" where
  "convergeUnbound env target bs st =
     (if \<not> se_takes env ListMappings then (0, False, st)
      else case candidate_loop env bs (ListRoleMappings target (se_mappings env)) [] [] of
             None \<Rightarrow> (0, False, st)
           | Some cands \<Rightarrow> unbound_loop env target (sort (map fst cands)) 0 st)"

definition anchorLog :: "sync_env \<Rightarrow> string \<Rightarrow> sync_tables \<Rightarrow> anchor_verdict option \<times> sync_tables" where
  "anchorLog env target st =
     (case se_health env of
        None \<Rightarrow> (None, st)
      | Some (head, records) \<Rightarrow>
          (case RecordLogHead (se_takes env AnchorHead) target head records (sy_anchors st) of
             (Inl e, as) \<Rightarrow> (None, st\<lparr>sy_anchors := as\<rparr>)
           | (Inr (_, v), as) \<Rightarrow> (Some v, st\<lparr>sy_anchors := as\<rparr>)))"

record AddonReconcileResult =
  ar_Bound :: nat
  ar_Unmanaged :: "TargetAccount list"
  ar_Accounts :: "TargetBinding list"
  ar_Queued :: nat
  ar_Findings :: "SubjectFinding list"
  ar_Stale :: "TargetBinding list"
  ar_Current :: bool
  ar_Truncated :: bool
  ar_LogVerdict :: "anchor_verdict option"
  ar_Halted :: bool
  ar_Reason :: string

definition no_result :: AddonReconcileResult where
  "no_result = \<lparr>ar_Bound = 0, ar_Unmanaged = [], ar_Accounts = [], ar_Queued = 0, ar_Findings = [], ar_Stale = [], ar_Current = False, ar_Truncated = False,
     ar_LogVerdict = None, ar_Halted = False, ar_Reason = []\<rparr>"

definition sync_halt :: "sync_env \<Rightarrow> string \<Rightarrow> string \<Rightarrow> sync_tables \<Rightarrow> (string + AddonReconcileResult) \<times> sync_tables" where
  "sync_halt env target reason st =
     (Inr (no_result\<lparr>ar_Halted := True, ar_Reason := reason\<rparr>), MarkTargetUnreconciled (se_takes env MarkTarget) (se_now env) target reason st)"

fun stale_loop :: "sync_env \<Rightarrow> string \<Rightarrow> TargetBinding list \<Rightarrow> SubjectFinding list \<times> nat \<times> sync_tables \<Rightarrow> SubjectFinding list \<times> nat \<times> sync_tables" where
  "stale_loop env target [] acc = acc"
| "stale_loop env target (b # bs) (fs, n, st) =
     (let gone = merge_Absent (tb_SubjectID b)
      in case persistFindings env target gone (Findings gone) st of
           (failed, st') \<Rightarrow> stale_loop env target bs (fs @ Findings gone, n + failed, st'))"

definition finish_pass ::
  "sync_env \<Rightarrow> string \<Rightarrow> AddonReconcileResult \<Rightarrow> nat \<Rightarrow> bool \<Rightarrow> sync_tables \<Rightarrow> (string + AddonReconcileResult) \<times> sync_tables"
where
  "finish_pass env target res unrecorded converged st =
     (let reason = (if 0 < unrecorded \<or> \<not> converged then UnreconciledFindingsUnrecorded
                    else if sr_Truncated (se_read env) then UnreconciledTruncated else [])
      in if reason \<noteq> [] then
           (Inr (res\<lparr>ar_Reason := reason\<rparr>), MarkTargetUnreconciled (se_takes env MarkTarget) (se_now env) target reason st)
         else (Inr res, MarkTargetReconciled (se_takes env MarkTarget) (se_now env) target st))"

definition ReconcileAddon :: "sync_env \<Rightarrow> string \<Rightarrow> sync_tables \<Rightarrow> (string + AddonReconcileResult) \<times> sync_tables" where
  "ReconcileAddon env target st =
     (let read = se_read env in
      if target = TargetZitadel then (Inl ''is the built-in target'', st)
      else if \<not> sr_ok read then sync_halt env target UnreconciledUnreachable st
      else if \<not> sr_Current read then sync_halt env target UnreconciledStaleRead st
      else if \<not> se_takes env ListBindings then (Inl ''read bindings'', st)
      else
        let bs = ListTargetBindings target st;
            (verdict, st1) = anchorLog env target st;
            (live, absent) = partitionByPresence bs (sr_Accounts read);
            gone = (if sr_Truncated read then [] else absent);
            (n, found, failed, ok, st2) = convergeBound env target live st1;
            (created, ok2, st3) = (if ok then convergeUnbound env target bs st2 else (0, False, st2));
            (found', failed', st4) = stale_loop env target gone (found, failed, st3)
        in finish_pass env target
             \<lparr>ar_Bound = length bs, ar_Unmanaged = unmanaged (sr_Accounts read) bs, ar_Accounts = [], ar_Queued = n + created, ar_Findings = found', ar_Stale = gone,
              ar_Current = True, ar_Truncated = sr_Truncated read, ar_LogVerdict = verdict, ar_Halted = False, ar_Reason = []\<rparr>
             failed' (ok \<and> ok2) st4)"

text \<open>The read-only half, behind a page: it is given the tables and returns none.\<close>

definition Inventory :: "sync_env \<Rightarrow> string \<Rightarrow> sync_tables \<Rightarrow> string + AddonReconcileResult" where
  "Inventory env target st =
     (let read = se_read env; bs = ListTargetBindings target st in
      if target = TargetZitadel then Inl ''holds no accounts of its own''
      else if \<not> sr_ok read then Inr (no_result\<lparr>ar_Halted := True, ar_Reason := UnreconciledUnreachable\<rparr>)
      else if \<not> se_takes env ListBindings then Inl ''read bindings''
      else Inr (no_result\<lparr>ar_Bound := length bs, ar_Accounts := bs, ar_Unmanaged := unmanaged (sr_Accounts read) bs,
             ar_Current := sr_Current read, ar_Truncated := sr_Truncated read,
             ar_Reason := (if \<not> sr_Current read then UnreconciledStaleRead else if sr_Truncated read then UnreconciledTruncated else [])\<rparr>))"

section \<open>What a pass leaves alone\<close>

definition same_but_findings :: "sync_tables \<Rightarrow> sync_tables \<Rightarrow> bool" where
  "same_but_findings st st' \<longleftrightarrow> sy_bindings st' = sy_bindings st \<and> sy_bases st' = sy_bases st \<and> sy_queue st' = sy_queue st \<and>
     sy_recon st' = sy_recon st \<and> sy_anchors st' = sy_anchors st"

lemma same_but_findings_trans [trans]: "same_but_findings a b \<Longrightarrow> same_but_findings b c \<Longrightarrow> same_but_findings a c"
  by (simp add: same_but_findings_def)

lemma same_but_findings_refl [simp]: "same_but_findings st st"
  by (simp add: same_but_findings_def)

lemma Record_Clear_frame:
  "same_but_findings st (snd (RecordMergeFinding takes fid target f st))" "same_but_findings st (snd (ClearMergeFinding takes target sid g actor st))"
  by (simp_all add: RecordMergeFinding_def ClearMergeFinding_def same_but_findings_def)

lemma save_findings_frame: "same_but_findings (snd acc) (snd (save_findings env target fs acc))"
proof (induction env target fs acc rule: save_findings.induct)
  case (2 env target f fs failed st)
  show ?case using 2 Record_Clear_frame(1) by (auto split: prod.splits) (metis same_but_findings_trans snd_conv)+
qed simp

lemma clear_findings_frame: "same_but_findings (snd acc) (snd (clear_findings env target sid fs acc))"
proof (induction env target sid fs acc rule: clear_findings.induct)
  case (2 env target sid f fs failed st)
  show ?case using 2 Record_Clear_frame(2) by (auto split: prod.splits) (metis same_but_findings_trans snd_conv)+
qed simp

lemma persist_frame: "persistFindings env target state found st = (n, st') \<Longrightarrow> same_but_findings st st'"
proof -
  assume p: "persistFindings env target state found st = (n, st')"
  let ?a = "save_findings env target found (0, st)"
  have "same_but_findings st (snd ?a)" using save_findings_frame [of "(0, st)"] by simp
  moreover have "same_but_findings (snd ?a) st'"
    using p clear_findings_frame [of ?a] by (auto simp: persistFindings_def Let_def split: if_splits) (metis snd_conv)+
  ultimately show ?thesis by (rule same_but_findings_trans)
qed

text \<open>A base the pass may write: what the target holds of the managed fields of a subject with nothing outstanding.\<close>

definition observed_fields :: "field_map \<Rightarrow> field_map \<Rightarrow> field_map" where
  "observed_fields ours theirs = map (\<lambda>f. (f, raw_at theirs f)) (filter (\<lambda>f. map_of theirs f \<noteq> None) (map fst ours))"

lemma observeState_effect:
  "observeState env target sid ours theirs st = st \<or>
   observeState env target sid ours theirs st = st\<lparr>sy_bases := AList.update (target, sid) (observed_fields ours theirs) (sy_bases st)\<rparr>"
  by (auto simp: observeState_def RecordMergeBase_def observed_fields_def Let_def)

definition may_converge :: "sync_env \<Rightarrow> string \<Rightarrow> (string \<times> string, field_map) gomap \<Rightarrow> TargetBinding \<Rightarrow> field_map \<Rightarrow> bool" where
  "may_converge env target bases b ours \<longleftrightarrow> se_resolve env (tb_SubjectID b) = Inr ours \<and> Convergeable (classify_bound env target bases b ours)"

definition new_base :: "sync_env \<Rightarrow> string \<Rightarrow> (string \<times> string, field_map) gomap \<Rightarrow> TargetBinding list \<Rightarrow> string \<times> string \<Rightarrow> field_map option \<Rightarrow> bool" where
  "new_base env target bases bs k x \<longleftrightarrow>
     (\<exists>b \<in> set bs. \<exists>ours theirs. k = (target, tb_SubjectID b) \<and> may_converge env target bases b ours \<and>
        state_of (sr_Accounts (se_read env)) b = Some theirs \<and> x = Some (observed_fields ours theirs))"

lemma bound_loop_effect:
  assumes "bound_loop env target bases bs acc st = (e, acc', st')"
  shows "sy_queue st' = sy_queue st \<and> sy_bindings st' = sy_bindings st \<and> sy_recon st' = sy_recon st \<and> sy_anchors st' = sy_anchors st \<and>
     (\<forall>sid ours. map_of (sc_desired acc') sid = Some ours \<longrightarrow> map_of (sc_desired acc) sid = Some ours \<or> (\<exists>b \<in> set bs. tb_SubjectID b = sid \<and> may_converge env target bases b ours)) \<and>
     (\<forall>k. map_of (sy_bases st') k = map_of (sy_bases st) k \<or> new_base env target bases bs k (map_of (sy_bases st') k))"
  using assms
proof (induction bs arbitrary: acc st)
  case (Cons b bs)
  show ?case
  proof (cases "se_resolve env (tb_SubjectID b)")
    case (Inl x)
    then show ?thesis using Cons.prems by auto
  next
    case ours: (Inr ours)
    let ?state = "classify_bound env target bases b ours" and ?theirs = "state_of (sr_Accounts (se_read env)) b"
    obtain failed st1 where p: "persistFindings env target ?state (Findings ?state) st = (failed, st1)" by (rule prod.exhaust)
    note frame = persist_frame [OF p, unfolded same_but_findings_def]
    let ?acc1 = "acc\<lparr>sc_findings := sc_findings acc @ Findings ?state, sc_unrecorded := sc_unrecorded acc + failed\<rparr>"
    show ?thesis
    proof (cases "Convergeable ?state")
      case False
      then have "bound_loop env target bases bs ?acc1 st1 = (e, acc', st')" using Cons.prems ours p by (simp add: Let_def)
      from Cons.IH [OF this] frame show ?thesis by (auto simp: new_base_def)
    next
      case True
      then have m: "may_converge env target bases b ours" using ours by (simp add: may_converge_def)
      let ?st2 = "case ?theirs of Some theirs \<Rightarrow> if Findings ?state = [] then observeState env target (tb_SubjectID b) ours theirs st1 else st1 | None \<Rightarrow> st1"
      let ?acc2 = "?acc1\<lparr>sc_subjects := sc_subjects ?acc1 @ [(tb_SubjectID b, ours)], sc_desired := AList.update (tb_SubjectID b) ours (sc_desired ?acc1)\<rparr>"
      have run: "bound_loop env target bases bs ?acc2 ?st2 = (e, acc', st')" using Cons.prems ours p True by (simp add: Let_def)
      have st2: "?st2 = st1 \<or> (\<exists>theirs. ?theirs = Some theirs \<and> ?st2 = st1\<lparr>sy_bases := AList.update (target, tb_SubjectID b) (observed_fields ours theirs) (sy_bases st1)\<rparr>)"
        using observeState_effect by (auto split: option.splits)
      have bases: "map_of (sy_bases ?st2) k = map_of (sy_bases st) k \<or> new_base env target bases (b # bs) k (map_of (sy_bases ?st2) k)" for k
        using st2 m frame by (auto simp: new_base_def)
      have rest: "sy_queue ?st2 = sy_queue st \<and> sy_bindings ?st2 = sy_bindings st \<and> sy_recon ?st2 = sy_recon st \<and> sy_anchors ?st2 = sy_anchors st"
        using st2 frame by auto
      have ih: "sy_queue st' = sy_queue ?st2 \<and> sy_bindings st' = sy_bindings ?st2 \<and> sy_recon st' = sy_recon ?st2 \<and> sy_anchors st' = sy_anchors ?st2 \<and>
          (\<forall>sid o1. map_of (sc_desired acc') sid = Some o1 \<longrightarrow> map_of (sc_desired ?acc2) sid = Some o1 \<or> (\<exists>b \<in> set bs. tb_SubjectID b = sid \<and> may_converge env target bases b o1)) \<and>
          (\<forall>k. map_of (sy_bases st') k = map_of (sy_bases ?st2) k \<or> new_base env target bases bs k (map_of (sy_bases st') k))"
        by (rule Cons.IH [OF run])
      have wider: "new_base env target bases bs k x \<Longrightarrow> new_base env target bases (b # bs) k x" for k x by (auto simp: new_base_def)
      show ?thesis
      proof (intro conjI allI impI)
        fix sid o1
        assume "map_of (sc_desired acc') sid = Some o1"
        then show "map_of (sc_desired acc) sid = Some o1 \<or> (\<exists>b' \<in> set (b # bs). tb_SubjectID b' = sid \<and> may_converge env target bases b' o1)"
          using ih m by (auto split: if_splits)
      next
        fix k
        show "map_of (sy_bases st') k = map_of (sy_bases st) k \<or> new_base env target bases (b # bs) k (map_of (sy_bases st') k)"
          using ih bases [of k] wider by metis
      qed (use ih rest in simp_all)
    qed
  qed
qed auto

definition queued_for :: "string \<Rightarrow> SystemConvergence \<Rightarrow> string \<Rightarrow> field_map \<Rightarrow> bool" where
  "queued_for target c sid ours \<longleftrightarrow> cv_Target c = target \<and> cv_SubjectID c = sid \<and> cv_Desired c = ours \<and> cv_Actor c = reconcileActor"

text \<open>The tables after rows were put into the queue.\<close>

definition queued_rows :: "sync_tables \<Rightarrow> SystemConvergence list \<Rightarrow> sync_tables" where
  "queued_rows st new = st\<lparr>sy_queue := sy_queue st @ new\<rparr>"

lemma queued_rows_simps [simp]:
  "queued_rows st [] = st" "queued_rows (queued_rows st xs) ys = queued_rows st (xs @ ys)" "sy_queue (queued_rows st xs) = sy_queue st @ xs"
  "sy_bases (queued_rows st xs) = sy_bases st" "sy_findings (queued_rows st xs) = sy_findings st" "sy_bindings (queued_rows st xs) = sy_bindings st"
  "sy_recon (queued_rows st xs) = sy_recon st" "sy_anchors (queued_rows st xs) = sy_anchors st"
  by (simp_all add: queued_rows_def)

lemma record_queues:
  assumes "RecordSystemConvergence takes target sid actor reason ours st = (ok, st')"
  obtains "\<not> ok" "st' = st" | c where "ok" "st' = queued_rows st [c]" "cv_Target c = target" "cv_SubjectID c = sid" "cv_Desired c = ours" "cv_Actor c = actor" "cv_Waiting c"
  using assms by (auto simp: RecordSystemConvergence_def queued_rows_def split: if_splits)

lemma queue_loop_effect:
  assumes "queue_loop env target desired outs n st = (n', ok, st')"
  shows "\<exists>new. st' = queued_rows st new \<and> n' = n + length new \<and>
     (\<forall>c \<in> set new. \<exists>sid ours detail. queued_for target c sid ours \<and> (sid, PlanEffectApply, detail) \<in> set outs \<and> map_of desired sid = Some ours)"
  using assms
proof (induction outs arbitrary: n st)
  case (Cons x outs)
  obtain sid effect detail where x: "x = (sid, effect, detail)" by (cases x) auto
  let ?new = "\<lambda>new outs st n. st' = queued_rows st new \<and> n' = n + length new \<and>
     (\<forall>c \<in> set new. \<exists>sid ours detail. queued_for target c sid ours \<and> (sid, PlanEffectApply, detail) \<in> set outs \<and> map_of desired sid = Some ours)"
  show ?case
  proof (cases "effect = PlanEffectApply \<and> map_of desired sid \<noteq> None \<and> se_takes env (AskPending sid) \<and> \<not> PendingApplyWants target sid (the (map_of desired sid)) st")
    case False
    then have "queue_loop env target desired outs n st = (n', ok, st') \<or> (n', ok, st') = (n, False, st)"
      using Cons.prems unfolding x
      by (cases "effect = PlanEffectApply"; cases "map_of desired sid"; cases "se_takes env (AskPending sid)") simp_all
    then show ?thesis
    proof
      assume "queue_loop env target desired outs n st = (n', ok, st')"
      from Cons.IH [OF this] obtain new where "?new new outs st n" by blast
      then show ?thesis by (intro exI [of _ new]) (simp, blast)
    qed (auto intro: exI [of _ "[]"])
  next
    case True
    then obtain ours where ours: "effect = PlanEffectApply" "map_of desired sid = Some ours" "se_takes env (AskPending sid)" "\<not> PendingApplyWants target sid ours st" by auto
    obtain ok1 st1 where r: "RecordSystemConvergence (se_takes env (QueueApply sid)) target sid reconcileActor
        (if detail = [] then ''Out of step with their roles.'' else detail) ours st = (ok1, st1)" by (rule prod.exhaust)
    from r show ?thesis
    proof (cases rule: record_queues)
      case 1
      then show ?thesis using Cons.prems x ours r by (auto intro: exI [of _ "[]"])
    next
      case c: (2 c)
      then have run: "queue_loop env target desired outs (Suc n) st1 = (n', ok, st')" using Cons.prems x ours r by simp
      from Cons.IH [OF run] obtain new where new: "?new new outs st1 (Suc n)" by blast
      have "queued_for target c sid ours" using c by (simp add: queued_for_def)
      then show ?thesis using new c(2) ours(1,2) x by (intro exI [of _ "c # new"]) (simp, blast)
    qed
  qed
qed (auto intro: exI [of _ "[]"])

lemma unbound_loop_effect:
  assumes "unbound_loop env target ids n st = (n', ok, st')"
  shows "\<exists>new. st' = queued_rows st new \<and> n' = n + length new \<and>
     (\<forall>c \<in> set new. \<exists>sid ours. queued_for target c sid ours \<and> sid \<in> set ids \<and> se_resolve env sid = Inr ours \<and> map_of ours LifecycleEnabled = Some (boolJSON True))"
  using assms
proof (induction ids arbitrary: n st)
  case (Cons sid ids)
  let ?new = "\<lambda>new ids st n. st' = queued_rows st new \<and> n' = n + length new \<and>
     (\<forall>c \<in> set new. \<exists>sid ours. queued_for target c sid ours \<and> sid \<in> set ids \<and> se_resolve env sid = Inr ours \<and> map_of ours LifecycleEnabled = Some (boolJSON True))"
  show ?case
  proof (cases "\<exists>ours. se_resolve env sid = Inr ours \<and> map_of ours LifecycleEnabled = Some (boolJSON True) \<and> se_takes env (AskPending sid) \<and> \<not> PendingApplyWants target sid ours st")
    case False
    then have "unbound_loop env target ids n st = (n', ok, st') \<or> (n', ok, st') = (n, False, st)"
      using Cons.prems by (cases "se_resolve env sid") (auto split: if_splits)
    then show ?thesis
    proof
      assume "unbound_loop env target ids n st = (n', ok, st')"
      from Cons.IH [OF this] obtain new where "?new new ids st n" by blast
      then show ?thesis by (intro exI [of _ new]) (simp, blast)
    qed (auto intro: exI [of _ "[]"])
  next
    case True
    then obtain ours where ours: "se_resolve env sid = Inr ours" "map_of ours LifecycleEnabled = Some (boolJSON True)"
      "se_takes env (AskPending sid)" "\<not> PendingApplyWants target sid ours st" by blast
    obtain ok1 st1 where r: "RecordSystemConvergence (se_takes env (QueueApply sid)) target sid reconcileActor ''Gets an account, for a role they hold.'' ours st = (ok1, st1)"
      by (rule prod.exhaust)
    from r show ?thesis
    proof (cases rule: record_queues)
      case 1
      then show ?thesis using Cons.prems ours r by (auto intro: exI [of _ "[]"])
    next
      case c: (2 c)
      then have run: "unbound_loop env target ids (Suc n) st1 = (n', ok, st')" using Cons.prems ours r by simp
      from Cons.IH [OF run] obtain new where new: "?new new ids st1 (Suc n)" by blast
      have "queued_for target c sid ours" using c by (simp add: queued_for_def)
      then show ?thesis using new c(2) ours(1,2) by (intro exI [of _ "c # new"]) (simp, blast)
    qed
  qed
qed (auto intro: exI [of _ "[]"])

text \<open>A person the target should have an account for: they hold a mapped role and have not left.\<close>

definition holds_mapped :: "sync_env \<Rightarrow> string \<Rightarrow> string \<Rightarrow> bool" where
  "holds_mapped env target sid \<longleftrightarrow> sid \<notin> set (se_left env) \<and>
     (\<exists>m \<in> set (se_mappings env). (target = [] \<or> rm_Target m = target) \<and>
        (\<exists>base. (sid, base) \<in> set (se_held env) \<and> held (Closure base (se_rules env) RoleKey) (RoleKey (rm_ProjectID m) (rm_RoleKey m))))"

lemma set_MappingHolders:
  "MappingHolders env p r = Inr hs \<Longrightarrow> sid \<in> set hs \<Longrightarrow> sid \<notin> set (se_left env) \<and> (\<exists>base. (sid, base) \<in> set (se_held env) \<and> held (Closure base (se_rules env) RoleKey) (RoleKey p r))"
  by (auto simp: MappingHolders_def split: if_splits) blast

lemma fst_add_keys: "fst ` set (add_keys ks m) = set ks \<union> fst ` set m"
  by (induction ks arbitrary: m) (auto simp: fst_set_update)

lemma candidate_loop_effect:
  assumes "candidate_loop env bs ms seen cands = Some cands'" "sid \<in> fst ` set cands'"
  shows "sid \<in> fst ` set cands \<or> (\<forall>b \<in> set bs. tb_SubjectID b \<noteq> sid) \<and> (\<exists>m \<in> set ms. \<exists>hs. MappingHolders env (rm_ProjectID m) (rm_RoleKey m) = Inr hs \<and> sid \<in> set hs)"
  using assms
proof (induction ms arbitrary: seen cands)
  case (Cons m ms)
  show ?case
  proof (cases "held seen (RoleKey (rm_ProjectID m) (rm_RoleKey m))")
    case True
    then show ?thesis using Cons.IH [of seen cands] Cons.prems by auto
  next
    case False
    then obtain hs where hs: "MappingHolders env (rm_ProjectID m) (rm_RoleKey m) = Inr hs"
        "candidate_loop env bs ms (AList.update (RoleKey (rm_ProjectID m) (rm_RoleKey m)) True seen)
           (add_keys (filter (\<lambda>h. \<not> list_ex (\<lambda>b. tb_SubjectID b = h) bs) hs) cands) = Some cands'"
      using Cons.prems(1) by (auto simp: Let_def split: sum.splits)
    from Cons.IH [OF hs(2) Cons.prems(2)] hs(1) show ?thesis by (auto simp: fst_add_keys list_ex_iff)
  qed
qed simp

lemma convergeUnbound_effect:
  assumes "convergeUnbound env target bs st = (n, ok, st')"
  shows "\<exists>new. st' = queued_rows st new \<and> n = length new \<and>
     (\<forall>c \<in> set new. \<exists>sid ours. queued_for target c sid ours \<and> (\<forall>b \<in> set bs. tb_SubjectID b \<noteq> sid) \<and> holds_mapped env target sid \<and>
        se_resolve env sid = Inr ours \<and> map_of ours LifecycleEnabled = Some (boolJSON True))"
proof (cases "\<exists>cands. se_takes env ListMappings \<and> candidate_loop env bs (ListRoleMappings target (se_mappings env)) [] [] = Some cands")
  case False
  then have "(n, ok, st') = (0, False, st)" using assms by (auto simp: convergeUnbound_def split: if_splits option.splits)
  then show ?thesis by (auto intro: exI [of _ "[]"])
next
  case True
  then obtain cands where cands: "candidate_loop env bs (ListRoleMappings target (se_mappings env)) [] [] = Some cands"
      and run: "unbound_loop env target (sort (map fst cands)) 0 st = (n, ok, st')" using assms by (auto simp: convergeUnbound_def)
  have who: "(\<forall>b \<in> set bs. tb_SubjectID b \<noteq> sid) \<and> holds_mapped env target sid" if "sid \<in> set (sort (map fst cands))" for sid
    using candidate_loop_effect [OF cands, of sid] that by (auto simp: holds_mapped_def ListRoleMappings_def dest!: set_MappingHolders)
  from unbound_loop_effect [OF run] obtain new where "st' = queued_rows st new" "n = length new"
      "\<forall>c \<in> set new. \<exists>sid ours. queued_for target c sid ours \<and> sid \<in> set (sort (map fst cands)) \<and> se_resolve env sid = Inr ours \<and> map_of ours LifecycleEnabled = Some (boolJSON True)"
    by auto
  then show ?thesis using who by (intro exI [of _ new]) blast
qed

lemma convergeBound_effect:
  assumes "convergeBound env target bs st = (n, found, failed, ok, st')"
  defines "bases \<equiv> if se_takes env ListBases then sy_bases st else []"
  shows "\<exists>new mid. st' = queued_rows mid new \<and> n = length new \<and> sy_queue mid = sy_queue st \<and> sy_bindings mid = sy_bindings st \<and>
     sy_recon mid = sy_recon st \<and> sy_anchors mid = sy_anchors st \<and>
     (\<forall>k. map_of (sy_bases mid) k = map_of (sy_bases st) k \<or> new_base env target bases bs k (map_of (sy_bases mid) k)) \<and>
     (\<forall>c \<in> set new. \<exists>b \<in> set bs. \<exists>ours. queued_for target c (tb_SubjectID b) ours \<and> may_converge env target bases b ours)"
proof (cases "bs = []")
  case True
  then show ?thesis using assms(1) by (auto simp: convergeBound_def Let_def intro!: exI [of _ "[]"] exI [of _ st])
next
  case False
  let ?acc0 = "\<lparr>sc_findings = [], sc_unrecorded = 0, sc_subjects = [], sc_desired = []\<rparr>"
  obtain e acc mid where l: "bound_loop env target bases bs ?acc0 st = (e, acc, mid)" using prod_cases3 by blast
  note effect = bound_loop_effect [OF l]
  show ?thesis
  proof (cases "e = None \<and> sc_subjects acc \<noteq> [] \<and> pa_ok (se_plan env (sc_subjects acc))")
    case False
    then have "n = 0 \<and> st' = mid" using assms(1) l \<open>bs \<noteq> []\<close>
      by (cases e) (auto simp: convergeBound_def Let_def bases_def [symmetric] split: if_splits)
    then show ?thesis using effect by (intro exI [of _ "[]"] exI [of _ mid]) simp
  next
    case True
    then obtain ok' where q: "queue_loop env target (sc_desired acc) (pa_Outcomes (se_plan env (sc_subjects acc))) 0 mid = (n, ok', st')"
      using assms(1) l \<open>bs \<noteq> []\<close> by (auto simp: convergeBound_def Let_def bases_def [symmetric] split: prod.splits)
    from queue_loop_effect [OF q] obtain new where new: "st' = queued_rows mid new" "n = 0 + length new"
        "\<forall>c \<in> set new. \<exists>sid ours detail. queued_for target c sid ours \<and> (sid, PlanEffectApply, detail) \<in> set (pa_Outcomes (se_plan env (sc_subjects acc))) \<and>
           map_of (sc_desired acc) sid = Some ours" by blast
    have "\<exists>b \<in> set bs. \<exists>ours. queued_for target c (tb_SubjectID b) ours \<and> may_converge env target bases b ours" if "c \<in> set new" for c
    proof -
      obtain sid ours where c: "queued_for target c sid ours" "map_of (sc_desired acc) sid = Some ours" using new(3) \<open>c \<in> set new\<close> by blast
      then obtain b where "b \<in> set bs" "tb_SubjectID b = sid" "may_converge env target bases b ours" using effect by auto
      then show ?thesis using c(1) by blast
    qed
    then show ?thesis using new(1,2) effect by (intro exI [of _ new] exI [of _ mid]) simp
  qed
qed

lemma stale_loop_frame: "stale_loop env target bs (fs, n, st) = (fs', n', st') \<Longrightarrow> same_but_findings st st'"
proof (induction bs arbitrary: fs n st)
  case (Cons b bs)
  let ?gone = "merge_Absent (tb_SubjectID b)"
  obtain failed st1 where p: "persistFindings env target ?gone (Findings ?gone) st = (failed, st1)" by (rule prod.exhaust)
  then have "stale_loop env target bs (fs @ Findings ?gone, n + failed, st1) = (fs', n', st')" using Cons.prems by (simp add: Let_def)
  from same_but_findings_trans [OF persist_frame [OF p] Cons.IH [OF this]] show ?case .
qed simp

lemma mark_frame:
  "sy_queue (MarkTargetUnreconciled takes now target reason st) = sy_queue st" "sy_bases (MarkTargetUnreconciled takes now target reason st) = sy_bases st"
  "sy_queue (MarkTargetReconciled takes now target st) = sy_queue st" "sy_bases (MarkTargetReconciled takes now target st) = sy_bases st"
  "sy_findings (MarkTargetUnreconciled takes now target reason st) = sy_findings st" "sy_findings (MarkTargetReconciled takes now target st) = sy_findings st"
  by (simp_all add: MarkTargetUnreconciled_def MarkTargetReconciled_def)

lemma anchorLog_frame:
  assumes "anchorLog env target st = (v, st1)"
  shows "sy_queue st1 = sy_queue st" "sy_bases st1 = sy_bases st" "sy_findings st1 = sy_findings st" "sy_bindings st1 = sy_bindings st" "sy_recon st1 = sy_recon st"
  using assms by (auto simp: anchorLog_def split: option.splits prod.splits sum.splits)

text \<open>A pass that got as far as a current read and the bindings, by its parts.\<close>

lemma ReconcileAddon_parts:
  assumes "ReconcileAddon env target st = (Inr res, st')" "\<not> ar_Halted res"
  obtains verdict st1 n found failed ok st2 created ok2 st3 found' failed' st4 where
    "target \<noteq> TargetZitadel" "sr_ok (se_read env)" "sr_Current (se_read env)" "anchorLog env target st = (verdict, st1)"
    "convergeBound env target (filter (account_present (sr_Accounts (se_read env))) (ListTargetBindings target st)) st1 = (n, found, failed, ok, st2)"
    "(if ok then convergeUnbound env target (ListTargetBindings target st) st2 else (0, False, st2)) = (created, ok2, st3)"
    "ar_Stale res = (if sr_Truncated (se_read env) then [] else filter (\<lambda>b. \<not> account_present (sr_Accounts (se_read env)) b) (ListTargetBindings target st))"
    "stale_loop env target (ar_Stale res) (found, failed, st3) = (found', failed', st4)"
    "ar_Queued res = n + created" "ar_Findings res = found'"
    "if 0 < failed' \<or> \<not> (ok \<and> ok2) \<or> sr_Truncated (se_read env) then ar_Reason res \<noteq> [] \<and> st' = MarkTargetUnreconciled (se_takes env MarkTarget) (se_now env) target (ar_Reason res) st4
     else ar_Reason res = [] \<and> st' = MarkTargetReconciled (se_takes env MarkTarget) (se_now env) target st4"
    "ar_Reason res = UnreconciledFindingsUnrecorded \<longleftrightarrow> 0 < failed' \<or> \<not> (ok \<and> ok2)"
proof -
  have pass: "target \<noteq> TargetZitadel" "sr_ok (se_read env)" "sr_Current (se_read env)" "se_takes env ListBindings"
    using assms by (auto simp: ReconcileAddon_def sync_halt_def no_result_def Let_def split: if_splits)
  let ?bs = "ListTargetBindings target st" and ?accounts = "sr_Accounts (se_read env)"
  let ?gone = "if sr_Truncated (se_read env) then [] else filter (\<lambda>b. \<not> account_present ?accounts b) ?bs"
  obtain verdict st1 where a: "anchorLog env target st = (verdict, st1)" by (rule prod.exhaust)
  obtain n found failed ok st2 where c: "convergeBound env target (filter (account_present ?accounts) ?bs) st1 = (n, found, failed, ok, st2)" using prod_cases5 by blast
  obtain created ok2 st3 where u: "(if ok then convergeUnbound env target ?bs st2 else (0, False, st2)) = (created, ok2, st3)" using prod_cases3 by blast
  obtain found' failed' st4 where g: "stale_loop env target ?gone (found, failed, st3) = (found', failed', st4)" using prod_cases3 by blast
  let ?res = "\<lparr>ar_Bound = length ?bs, ar_Unmanaged = unmanaged ?accounts ?bs, ar_Accounts = [], ar_Queued = n + created, ar_Findings = found', ar_Stale = ?gone,
      ar_Current = True, ar_Truncated = sr_Truncated (se_read env), ar_LogVerdict = verdict, ar_Halted = False, ar_Reason = []\<rparr>"
  have f: "finish_pass env target ?res failed' (ok \<and> ok2) st4 = (Inr res, st')"
    using assms(1) pass a c u g by (simp add: ReconcileAddon_def partitionByPresence_def Let_def)
  show thesis
    by (rule that [OF pass(1-3) a c u, of found' failed' st4])
      (use f g in \<open>auto simp: finish_pass_def Let_def UnreconciledFindingsUnrecorded_def UnreconciledTruncated_def split: if_splits\<close>)
qed

text \<open>What a pass that was not halted queues and which bases it leaves, by the two halves of the pass.\<close>

lemma pass_effect:
  assumes pass: "ReconcileAddon env target st = (Inr res, st')" and False: "\<not> ar_Halted res"
  defines "accounts \<equiv> sr_Accounts (se_read env)" and "bound \<equiv> ListTargetBindings target st"
    and "bases \<equiv> if se_takes env ListBases then sy_bases st else []"
  obtains new1 new2 where "sr_ok (se_read env)" "sr_Current (se_read env)" "sy_queue st' = sy_queue st @ new1 @ new2"
      "ar_Queued res = length new1 + length new2"
      "\<forall>k. map_of (sy_bases st') k = map_of (sy_bases st) k \<or> new_base env target bases (filter (account_present accounts) bound) k (map_of (sy_bases st') k)"
      "\<forall>c \<in> set new1. \<exists>b \<in> set (filter (account_present accounts) bound). \<exists>ours. queued_for target c (tb_SubjectID b) ours \<and> may_converge env target bases b ours"
      "\<forall>c \<in> set new2. \<exists>sid ours. queued_for target c sid ours \<and> (\<forall>b \<in> set bound. tb_SubjectID b \<noteq> sid) \<and> holds_mapped env target sid \<and>
        se_resolve env sid = Inr ours \<and> map_of ours LifecycleEnabled = Some (boolJSON True)"
proof -
  obtain verdict st1 n found failed ok st2 created ok2 st3 found' failed' st4 where
    read: "sr_ok (se_read env)" "sr_Current (se_read env)" and a: "anchorLog env target st = (verdict, st1)"
    and c: "convergeBound env target (filter (account_present accounts) bound) st1 = (n, found, failed, ok, st2)"
    and u: "(if ok then convergeUnbound env target bound st2 else (0, False, st2)) = (created, ok2, st3)"
    and g: "stale_loop env target (ar_Stale res) (found, failed, st3) = (found', failed', st4)" and q: "ar_Queued res = n + created"
    and fin: "sy_queue st' = sy_queue st4" "sy_bases st' = sy_bases st4"
    unfolding accounts_def bound_def by (rule ReconcileAddon_parts [OF pass False]) (auto simp: mark_frame split: if_splits)
  note a = anchorLog_frame [OF a]
  let ?live = "filter (account_present accounts) bound"
  obtain new1 mid where b: "st2 = queued_rows mid new1" "n = length new1" "sy_queue mid = sy_queue st"
      "\<forall>k. map_of (sy_bases mid) k = map_of (sy_bases st) k \<or> new_base env target bases ?live k (map_of (sy_bases mid) k)"
      "\<forall>c \<in> set new1. \<exists>b \<in> set ?live. \<exists>ours. queued_for target c (tb_SubjectID b) ours \<and> may_converge env target bases b ours"
    unfolding bases_def using convergeBound_effect [OF c, unfolded a] by blast
  obtain new2 where n2: "st3 = queued_rows st2 new2" "created = length new2"
      "\<forall>c \<in> set new2. \<exists>sid ours. queued_for target c sid ours \<and> (\<forall>b \<in> set bound. tb_SubjectID b \<noteq> sid) \<and> holds_mapped env target sid \<and>
        se_resolve env sid = Inr ours \<and> map_of ours LifecycleEnabled = Some (boolJSON True)"
  proof (cases ok)
    case True
    then show ?thesis using convergeUnbound_effect [of env target bound st2 created ok2 st3] u that by auto
  next
    case False
    then show ?thesis using u that [of "[]"] by auto
  qed
  have end4: "sy_queue st4 = sy_queue st @ new1 @ new2" "sy_bases st4 = sy_bases mid"
    using stale_loop_frame [OF g] n2(1) b(1,3) by (simp_all add: same_but_findings_def)
  show thesis
    by (rule that [of new1 new2]) (use read fin end4 q b n2 in simp_all)
qed

section \<open>Nobody's change is overwritten\<close>

text \<open>
  What an apply would take from somebody: a managed field with a recorded base that the target moved away from it, to a value
  that is not the wanted one, or no longer reports.
\<close>

definition takes_away :: "(string \<times> string, field_map) gomap \<Rightarrow> string \<Rightarrow> TargetAccount list \<Rightarrow> TargetBinding \<Rightarrow> field_map \<Rightarrow> string \<Rightarrow> bool" where
  "takes_away bases target accounts b ours f \<longleftrightarrow>
     (\<exists>theirs. state_of accounts b = Some theirs \<and> f \<in> fst ` set ours \<and>
        overwrites (raw_at ours f) (map_of theirs f) (map_of (baseOf bases target (tb_SubjectID b)) f))"

lemma classify_bound_converges:
  "Convergeable (classify_bound env target bases b ours) \<longleftrightarrow> (\<forall>f. \<not> takes_away bases target (sr_Accounts (se_read env)) b ours f)"
  by (auto simp: classify_bound_def takes_away_def Convergeable_iff Classify_baseless split: option.splits)


section \<open>Findings stand exactly for what is outstanding\<close>

definition stands :: "sync_tables \<Rightarrow> string \<Rightarrow> string \<Rightarrow> string \<Rightarrow> bool" where
  "stands st target sid f \<longleftrightarrow> list_ex (standing target sid f) (sy_findings st)"

lemma standing_rewritten:
  "list_ex (standing t s g) (map (\<lambda>r. if P r then r\<lparr>mf_Outcome := oc, mf_Base := x, mf_Ours := y, mf_Theirs := z\<rparr> else r) rs) = list_ex (standing t s g) rs"
  by (induction rs) (auto simp: standing_def)

lemma Record_stands:
  assumes "RecordMergeFinding takes fid target f st = (ok, st')"
  shows "stands st' t s g \<longleftrightarrow> stands st t s g \<or> ok \<and> t = target \<and> s = sf_SubjectID f \<and> g = sf_Field f"
proof (cases "trim_space target = [] \<or> trim_space (sf_SubjectID f) = [] \<or> sf_Outcome f \<notin> {TheirsOnly, Conflict, DeletedUpstream} \<or> \<not> takes")
  case True
  then show ?thesis using assms by (auto simp: RecordMergeFinding_def)
next
  case written: False
  show ?thesis
  proof (cases "list_ex (standing target (sf_SubjectID f) (sf_Field f)) (sy_findings st)")
    case True
    have "stands st' t s g = stands st t s g"
      using assms written True by (auto simp: RecordMergeFinding_def stands_def standing_rewritten)
    then show ?thesis using True by (auto simp: stands_def)
  next
    case False
    then show ?thesis using assms written by (auto simp: RecordMergeFinding_def stands_def standing_def)
  qed
qed

lemma standing_cleared:
  "list_ex (standing t s g) (map (\<lambda>r. if standing target sid f r then r\<lparr>mf_Resolved := Some (w r)\<rparr> else r) rs) \<longleftrightarrow>
     list_ex (standing t s g) rs \<and> \<not> (t = target \<and> s = sid \<and> g = f)"
  by (induction rs) (auto simp: standing_def)

lemma Clear_stands:
  "ClearMergeFinding takes target sid f actor st = (ok, st') \<Longrightarrow>
     stands st' t s g \<longleftrightarrow> stands st t s g \<and> \<not> (ok \<and> t = target \<and> s = sid \<and> g = f)"
  by (auto simp: ClearMergeFinding_def stands_def standing_cleared split: if_splits)

lemma save_findings_stands:
  assumes "save_findings env target fs (n, st) = (n', st')"
  shows "n \<le> n' \<and> (n' = n \<longrightarrow> (\<forall>t s g. stands st' t s g \<longleftrightarrow> stands st t s g \<or> t = target \<and> (\<exists>f \<in> set fs. s = sf_SubjectID f \<and> g = sf_Field f))) \<and>
     (\<forall>t s g. \<not> (t = target \<and> s \<in> sf_SubjectID ` set fs) \<longrightarrow> stands st' t s g = stands st t s g)"
  using assms
proof (induction fs arbitrary: n st)
  case (Cons f fs)
  obtain ok st1 where r: "RecordMergeFinding (se_takes env (SaveFinding (sf_SubjectID f) (sf_Field f))) (se_id env (length (sy_findings st))) target f st = (ok, st1)" by (rule prod.exhaust)
  then have "save_findings env target fs (if ok then n else Suc n, st1) = (n', st')" using Cons.prems by simp
  from Cons.IH [OF this] Record_stands [OF r] show ?case by (cases ok) auto
qed simp

lemma clear_findings_stands:
  assumes "clear_findings env target sid fs (n, st) = (n', st')"
  shows "n \<le> n' \<and> (n' = n \<longrightarrow> (\<forall>t s g. stands st' t s g \<longleftrightarrow> stands st t s g \<and> \<not> (t = target \<and> s = sid \<and> g \<in> set fs))) \<and>
     (\<forall>t s g. \<not> (t = target \<and> s = sid) \<longrightarrow> stands st' t s g = stands st t s g)"
  using assms
proof (induction fs arbitrary: n st)
  case (Cons f fs)
  obtain ok st1 where r: "ClearMergeFinding (se_takes env (ClearFinding sid f)) target sid f reconcileActor st = (ok, st1)" by (rule prod.exhaust)
  then have "clear_findings env target sid fs (if ok then n else Suc n, st1) = (n', st')" using Cons.prems by simp
  from Cons.IH [OF this] Clear_stands [OF r] show ?case by (cases ok) auto
qed simp

lemma Findings_subject: "f \<in> set (Findings s) \<Longrightarrow> sf_SubjectID f = ms_SubjectID s"
  by (auto simp: Findings_def finding_of_def split: if_splits)

lemma Findings_of_fields: "f \<in> set (Findings s) \<Longrightarrow> sf_Field f = [] \<or> sf_Field f \<in> fo_Field ` set (ms_Fields s)"
  by (auto simp: Findings_def finding_of_def split: if_splits)

text \<open>After a subject's findings were persisted, a managed field has a standing finding exactly when it was found.\<close>

lemma persist_stands:
  assumes "persistFindings env target state (Findings state) st = (n, st')"
  shows "t \<noteq> target \<or> s \<noteq> ms_SubjectID state \<Longrightarrow> stands st' t s g = stands st t s g"
    and "n = 0 \<Longrightarrow> ms_Absent state \<Longrightarrow> stands st' target (ms_SubjectID state) []"
    and "n = 0 \<Longrightarrow> \<not> ms_Absent state \<Longrightarrow> g = [] \<or> g \<in> fo_Field ` set (ms_Fields state) \<Longrightarrow>
           stands st' target (ms_SubjectID state) g \<longleftrightarrow> g \<noteq> [] \<and> g \<in> sf_Field ` set (Findings state)"
    and "n = 0 \<Longrightarrow> g \<noteq> [] \<Longrightarrow> g \<notin> fo_Field ` set (ms_Fields state) \<Longrightarrow>
           stands st' target (ms_SubjectID state) g \<longleftrightarrow> stands st target (ms_SubjectID state) g"
proof -
  obtain n1 st1 where s1: "save_findings env target (Findings state) (0, st) = (n1, st1)" by (rule prod.exhaust)
  note save = save_findings_stands [OF s1]
  have subj: "sf_SubjectID ` set (Findings state) \<subseteq> {ms_SubjectID state}" using Findings_subject by blast
  have mid: "stands st1 t s g = stands st t s g" if "t \<noteq> target \<or> s \<noteq> ms_SubjectID state"
    by (rule save [THEN conjunct2, THEN conjunct2, rule_format]) (use that subj in blast)
  let ?fs = "[] # filter (\<lambda>f. f \<notin> sf_Field ` set (Findings state)) (map fo_Field (ms_Fields state))"
  show "stands st' t s g = stands st t s g" if "t \<noteq> target \<or> s \<noteq> ms_SubjectID state"
  proof (cases "ms_Absent state")
    case True
    then have "(n1, st1) = (n, st')" using assms s1 by (simp add: persistFindings_def)
    then show ?thesis using mid [OF that] by simp
  next
    case False
    then have "clear_findings env target (ms_SubjectID state) ?fs (n1, st1) = (n, st')" using assms s1 by (simp add: persistFindings_def)
    note clear = clear_findings_stands [OF this, THEN conjunct2, THEN conjunct2, rule_format]
    have "stands st' t s g = stands st1 t s g" by (rule clear) (use that in blast)
    then show ?thesis using mid [OF that] by simp
  qed
  show "stands st' target (ms_SubjectID state) []" if "n = 0" "ms_Absent state"
    using assms s1 save that by (simp add: persistFindings_def Findings_def)
  show "stands st' target (ms_SubjectID state) g \<longleftrightarrow> g \<noteq> [] \<and> g \<in> sf_Field ` set (Findings state)"
    if "n = 0" "\<not> ms_Absent state" "g = [] \<or> g \<in> fo_Field ` set (ms_Fields state)"
  proof -
    have c: "clear_findings env target (ms_SubjectID state) ?fs (n1, st1) = (n, st')" using assms s1 that(2) by (simp add: persistFindings_def)
    note clear = clear_findings_stands [OF c]
    have "stands st' target (ms_SubjectID state) g \<longleftrightarrow>
        (stands st target (ms_SubjectID state) g \<or> (\<exists>f \<in> set (Findings state). ms_SubjectID state = sf_SubjectID f \<and> g = sf_Field f)) \<and> g \<notin> set ?fs"
      using clear save that(1) by simp
    moreover have "(\<exists>f \<in> set (Findings state). ms_SubjectID state = sf_SubjectID f \<and> g = sf_Field f) \<longleftrightarrow> g \<in> sf_Field ` set (Findings state)"
      by (auto simp: image_iff Findings_subject)
    ultimately show ?thesis using that(3) by (cases "g = []") auto
  qed
  show "stands st' target (ms_SubjectID state) g \<longleftrightarrow> stands st target (ms_SubjectID state) g"
    if "n = 0" "g \<noteq> []" "g \<notin> fo_Field ` set (ms_Fields state)"
  proof (cases "ms_Absent state")
    case True
    then have "(n1, st1) = (n, st')" using assms s1 by (simp add: persistFindings_def)
    then show ?thesis using save that Findings_of_fields [of _ state] by auto
  next
    case False
    then have "clear_findings env target (ms_SubjectID state) ?fs (n1, st1) = (n, st')" using assms s1 by (simp add: persistFindings_def)
    from clear_findings_stands [OF this] show ?thesis using save that Findings_of_fields [of _ state] by auto
  qed
qed

lemma classify_bound_simps [simp]:
  "ms_SubjectID (classify_bound env target bases b ours) = tb_SubjectID b" "\<not> ms_Absent (classify_bound env target bases b ours)"
  by (auto simp: classify_bound_def split: option.splits)

lemma classify_bound_fields: "fo_Field ` set (ms_Fields (classify_bound env target bases b ours)) = fst ` set ours"
proof -
  have "fo_Field ` set (ms_Fields (Classify sid ours theirs base)) = fst ` set ours" for sid theirs base
    by (metis Classify_simps(3) list.set_map set_sort)
  then show ?thesis by (simp add: classify_bound_def split: option.splits)
qed

lemma classify_bound_found:
  "sf_Field ` set (Findings (classify_bound env target bases b ours)) = {f. takes_away bases target (sr_Accounts (se_read env)) b ours f}"
  by (auto simp: classify_bound_def Findings_fields takes_away_def split: option.splits)

text \<open>The findings of a person before and after a pass: on a field of the resolved state, what an apply would take away; on any other, as before.\<close>

definition findings_exact :: "sync_env \<Rightarrow> string \<Rightarrow> (string \<times> string, field_map) gomap \<Rightarrow> TargetBinding \<Rightarrow> sync_tables \<Rightarrow> sync_tables \<Rightarrow> bool" where
  "findings_exact env target bases b st0 st \<longleftrightarrow>
     \<not> stands st target (tb_SubjectID b) [] \<and>
     (\<forall>ours f. se_resolve env (tb_SubjectID b) = Inr ours \<longrightarrow> f \<noteq> [] \<longrightarrow>
        (stands st target (tb_SubjectID b) f \<longleftrightarrow>
           (if f \<in> fst ` set ours then takes_away bases target (sr_Accounts (se_read env)) b ours f else stands st0 target (tb_SubjectID b) f)))"

lemma findings_exact_same:
  "(\<And>g. stands st' target (tb_SubjectID b) g = stands st target (tb_SubjectID b) g) \<Longrightarrow> (\<And>g. stands st0' target (tb_SubjectID b) g = stands st0 target (tb_SubjectID b) g) \<Longrightarrow>
   findings_exact env target bases b st0' st' = findings_exact env target bases b st0 st"
  by (simp add: findings_exact_def)

lemma observe_stands: "stands (observeState env target sid ours theirs st) t s g = stands st t s g"
  using observeState_effect [of env target sid ours theirs st] by (auto simp: stands_def)

lemma bound_loop_findings:
  assumes "bound_loop env target bases bs acc st = (None, acc', st')" "distinct (map tb_SubjectID bs)"
  shows "sc_unrecorded acc \<le> sc_unrecorded acc' \<and> (\<forall>s g. s \<notin> tb_SubjectID ` set bs \<longrightarrow> stands st' target s g = stands st target s g) \<and>
     (sc_unrecorded acc' = sc_unrecorded acc \<longrightarrow> (\<forall>b \<in> set bs. findings_exact env target bases b st st'))"
  using assms
proof (induction bs arbitrary: acc st)
  case (Cons b bs)
  obtain ours where ours: "se_resolve env (tb_SubjectID b) = Inr ours" using Cons.prems(1) by (cases "se_resolve env (tb_SubjectID b)") auto
  let ?state = "classify_bound env target bases b ours" and ?theirs = "state_of (sr_Accounts (se_read env)) b"
  obtain failed st1 where p: "persistFindings env target ?state (Findings ?state) st = (failed, st1)" by (rule prod.exhaust)
  note pers = persist_stands [OF p, unfolded classify_bound_simps]
  have exact: "findings_exact env target bases b st st1" if "failed = 0"
    using pers(3) [OF that] pers(4) [OF that] ours by (auto simp: findings_exact_def classify_bound_fields classify_bound_found)
  obtain acc2 st2 where run: "bound_loop env target bases bs acc2 st2 = (None, acc', st')" and un: "sc_unrecorded acc2 = sc_unrecorded acc + failed"
      and st2: "\<And>t s g. stands st2 t s g = stands st1 t s g"
  proof (cases "Convergeable ?state")
    case True
    then show ?thesis using that [OF _ _ _] Cons.prems(1) ours p by (auto simp: Let_def observe_stands split: option.splits if_splits)
  next
    case False
    then show ?thesis using that [OF _ _ _] Cons.prems(1) ours p by (auto simp: Let_def)
  qed
  have d: "distinct (map tb_SubjectID bs)" "tb_SubjectID b \<notin> tb_SubjectID ` set bs" using Cons.prems(2) by auto
  note ih = Cons.IH [OF run d(1)]
  have same: "stands st' target (tb_SubjectID b) g = stands st1 target (tb_SubjectID b) g" for g using ih d(2) st2 by simp
  show ?case
  proof (intro conjI allI impI ballI)
    show "sc_unrecorded acc \<le> sc_unrecorded acc'" using ih un by simp
  next
    fix s g
    assume "s \<notin> tb_SubjectID ` set (b # bs)"
    then show "stands st' target s g = stands st target s g" using ih st2 pers(1) by simp
  next
    fix x
    assume all: "sc_unrecorded acc' = sc_unrecorded acc" and x: "x \<in> set (b # bs)"
    then have none: "failed = 0" "sc_unrecorded acc' = sc_unrecorded acc2" using ih un by auto
    show "findings_exact env target bases x st st'"
    proof (cases "x = b")
      case True
      then show ?thesis using exact [OF none(1)] findings_exact_same [OF same refl] by blast
    next
      case False
      then have "tb_SubjectID x \<noteq> tb_SubjectID b" using x d(2) by (metis image_eqI set_ConsD)
      then have "stands st target (tb_SubjectID x) g = stands st2 target (tb_SubjectID x) g" for g using st2 pers(1) by simp
      then show ?thesis using findings_exact_same [of st' target x st' st st2 env bases] ih none(2) x False by auto
    qed
  qed
qed simp

lemma stale_loop_findings:
  assumes "stale_loop env target bs (fs, n, st) = (fs', n', st')"
  shows "n \<le> n' \<and> (\<forall>s g. s \<notin> tb_SubjectID ` set bs \<longrightarrow> stands st' target s g = stands st target s g) \<and>
     (n' = n \<longrightarrow> (\<forall>s. stands st target s [] \<or> s \<in> tb_SubjectID ` set bs \<longrightarrow> stands st' target s []) \<and>
        (\<forall>s g. g \<noteq> [] \<longrightarrow> stands st' target s g = stands st target s g))"
  using assms
proof (induction bs arbitrary: fs n st)
  case (Cons b bs)
  let ?gone = "merge_Absent (tb_SubjectID b)"
  obtain failed st1 where p: "persistFindings env target ?gone (Findings ?gone) st = (failed, st1)" by (rule prod.exhaust)
  then have "stale_loop env target bs (fs @ Findings ?gone, n + failed, st1) = (fs', n', st')" using Cons.prems by (simp add: Let_def)
  note ih = Cons.IH [OF this]
  have g: "ms_SubjectID ?gone = tb_SubjectID b" "ms_Absent ?gone" by (simp_all add: merge_Absent_def)
  note pers = persist_stands(1,2,4) [OF p, unfolded g(1)]
  have fields: "ms_Fields ?gone = []" by (simp add: merge_Absent_def)
  show ?case
  proof (intro conjI allI impI)
    fix s h assume "s \<notin> tb_SubjectID ` set (b # bs)"
    then show "stands st' target s h = stands st target s h" using ih pers(1) by simp
  next
    fix s assume n: "n' = n" and s: "stands st target s [] \<or> s \<in> tb_SubjectID ` set (b # bs)"
    then have "failed = 0" "n' = n + failed" using ih by auto
    moreover have "stands st1 target s [] \<or> s \<in> tb_SubjectID ` set bs" using s pers(1) [of target s "[]"] pers(2) [OF \<open>failed = 0\<close> g(2)] by (cases "s = tb_SubjectID b") auto
    ultimately show "stands st' target s []" using ih by blast
  next
    fix s h assume n: "n' = n" and h: "h \<noteq> ([] :: string)"
    then have "failed = 0" "n' = n + failed" using ih by auto
    moreover have "stands st1 target s h = stands st target s h" using pers(1) [of target s h] pers(3) [OF \<open>failed = 0\<close> h] fields by (cases "s = tb_SubjectID b") auto
    ultimately show "stands st' target s h = stands st target s h" using ih h by blast
  qed (use ih in auto)
qed auto

lemma queued_stands [simp]: "stands (queued_rows st new) t s g = stands st t s g"
  by (simp add: stands_def)

lemma findings_exact_queued [simp]: "findings_exact env target bases b st0 (queued_rows st new) = findings_exact env target bases b st0 st"
  by (simp add: findings_exact_def)

lemma convergeBound_findings:
  assumes "convergeBound env target bs st = (n, found, failed, True, st')" "distinct (map tb_SubjectID bs)"
  shows "(\<forall>s g. s \<notin> tb_SubjectID ` set bs \<longrightarrow> stands st' target s g = stands st target s g) \<and>
     (failed = 0 \<longrightarrow> (\<forall>b \<in> set bs. findings_exact env target (if se_takes env ListBases then sy_bases st else []) b st st'))"
proof (cases "bs = []")
  case True
  then show ?thesis using assms(1) by (simp add: convergeBound_def Let_def)
next
  case False
  let ?bases = "if se_takes env ListBases then sy_bases st else []"
  let ?acc0 = "\<lparr>sc_findings = [], sc_unrecorded = 0, sc_subjects = [], sc_desired = []\<rparr>"
  obtain e acc mid where l: "bound_loop env target ?bases bs ?acc0 st = (e, acc, mid)" using prod_cases3 by blast
  have "e = None \<and> failed = sc_unrecorded acc \<and> (\<exists>new. st' = queued_rows mid new)"
  proof (cases e)
    case None
    show ?thesis
    proof (cases "sc_subjects acc = []")
      case True
      then show ?thesis using None l assms(1) False by (auto simp: convergeBound_def Let_def intro: exI [of _ "[]"])
    next
      case some: False
      obtain n1 ok1 st2 where q: "queue_loop env target (sc_desired acc) (pa_Outcomes (se_plan env (sc_subjects acc))) 0 mid = (n1, ok1, st2)" using prod_cases3 by blast
      then show ?thesis using None l assms(1) False some queue_loop_effect [OF q] by (auto simp: convergeBound_def Let_def split: if_splits)
    qed
  next
    case (Some a)
    then show ?thesis using l assms(1) False by (simp add: convergeBound_def Let_def)
  qed
  then obtain new where run: "bound_loop env target ?bases bs ?acc0 st = (None, acc, mid)" "failed = sc_unrecorded acc" "st' = queued_rows mid new" using l by auto
  from bound_loop_findings [OF run(1) assms(2)] show ?thesis unfolding run(2,3) by simp
qed

lemma distinct_bound:
  "distinct (map (\<lambda>b. (tb_Target b, tb_SubjectID b)) bs) \<Longrightarrow> distinct (map tb_SubjectID (filter (\<lambda>b. tb_Target b = target) bs))"
  by (induction bs) (auto simp: image_iff)

lemma distinct_ListTargetBindings:
  assumes "distinct (map (\<lambda>b. (tb_Target b, tb_SubjectID b)) (sy_bindings st))"
  shows "distinct (map tb_SubjectID (ListTargetBindings target st))"
proof -
  have "mset (map tb_SubjectID (ListTargetBindings target st)) = mset (map tb_SubjectID (filter (\<lambda>b. tb_Target b = target) (sy_bindings st)))"
    by (simp add: ListTargetBindings_def mset_sort_by)
  then show ?thesis using distinct_bound [OF assms, of target] mset_eq_imp_distinct_iff by blast
qed

lemma stands_marked [simp]:
  "stands (MarkTargetUnreconciled takes now target reason st) t s g = stands st t s g" "stands (MarkTargetReconciled takes now target st) t s g = stands st t s g"
  by (simp_all add: stands_def mark_frame)


section \<open>A pass over four people\<close>

definition office_wants :: field_map where
  "office_wants = [(''shell'', RawValue (JString ''bash'')), (LifecycleEnabled, boolJSON True)]"

definition office_had :: "string \<Rightarrow> field_map" where
  "office_had shell = [(''shell'', RawValue (JString shell)), (LifecycleEnabled, boolJSON True)]"

definition office_env :: sync_env where
  "office_env = \<lparr>se_takes = (\<lambda>_. True), se_now = 5, se_id = itoa,
     se_read = \<lparr>sr_ok = True,
        sr_Accounts = [\<lparr>ta_Username = ''ada'', ta_UID = 1, ta_PasswordSet = True, ta_Self = False, ta_State = Some (office_had ''sh'')\<rparr>,
                       \<lparr>ta_Username = ''bob'', ta_UID = 2, ta_PasswordSet = True, ta_Self = False, ta_State = Some (office_had ''zsh'')\<rparr>],
        sr_Current = True, sr_Truncated = False\<rparr>,
     se_health = None, se_resolve = (\<lambda>_. Inr office_wants),
     se_plan = (\<lambda>subjects. \<lparr>pa_ok = True, pa_Outcomes = map (\<lambda>(sid, _). (sid, PlanEffectApply, [])) subjects\<rparr>),
     se_mappings = [\<lparr>rm_ID = ''1'', rm_Target = ''nas'', rm_ProjectID = ''p'', rm_RoleKey = ''maker'', rm_Field = ''shell'', rm_Value = ''bash''\<rparr>],
     se_held = [(''ada'', [(RoleKey ''p'' ''maker'', True)]), (''dan'', [(RoleKey ''p'' ''maker'', True)])], se_rules = [], se_left = []\<rparr>"

definition office_tables :: sync_tables where
  "office_tables = \<lparr>sy_bindings = map (\<lambda>(sid, uid). \<lparr>tb_Target = ''nas'', tb_SubjectID = sid, tb_Username = sid, tb_AccountUID = Some uid, tb_BoundBy = ''op''\<rparr>)
        [(''ada'', 1), (''bob'', 2), (''cyd'', 3)],
     sy_bases = [((''nas'', ''ada''), office_had ''sh''), ((''nas'', ''bob''), office_had ''sh'')], sy_findings = [], sy_queue = [], sy_recon = [], sy_anchors = []\<rparr>"

lemma office_pass:
  obtains res st' where "ReconcileAddon office_env ''nas'' office_tables = (Inr res, st')" "\<not> ar_Halted res" "ar_Reason res = []"
    "map cv_SubjectID (sy_queue st') = [''ada'', ''dan'']"
proof -
  have "case ReconcileAddon office_env ''nas'' office_tables of (Inr res, st') \<Rightarrow> \<not> ar_Halted res \<and> ar_Reason res = [] \<and> map cv_SubjectID (sy_queue st') = [''ada'', ''dan''] | _ \<Rightarrow> False"
    by code_simp
  then show thesis using that by (auto split: prod.splits sum.splits)
qed



text \<open>
  A pass that could not read the bases attributes nothing, and closes what stands: after a first pass raised the finding about
  Bob's shell, one without the bases resolves it as agreed, though the target still holds Bob's value, and queues the apply that reverts it.
\<close>

lemma unread_bases_close_findings:
  "case ReconcileAddon office_env ''nas'' office_tables of (Inr _, st1) \<Rightarrow>
     (case ReconcileAddon (office_env\<lparr>se_takes := (\<lambda>s. s \<noteq> ListBases)\<rparr>) ''nas'' st1 of (Inr res, st2) \<Rightarrow>
        stands st1 ''nas'' ''bob'' ''shell'' \<and> \<not> stands st2 ''nas'' ''bob'' ''shell'' \<and> ar_Reason res = [] \<and>
        list_ex (\<lambda>r. mf_Field r = ''shell'' \<and> mf_Resolved r = Some (reconcileActor, ResolutionAgreed)) (sy_findings st2) \<and>
        list_ex (\<lambda>c. cv_SubjectID c = ''bob'') (sy_queue st2)
      | _ \<Rightarrow> False)
   | _ \<Rightarrow> False"
  by code_simp

end
