(* ===== verification/Merge_Decision.thy ===== *)
theory Merge_Decision
  imports Addon_Sync
begin

text \<open>
  \<^verbatim>\<open>src/backend/internal/handlers/merge_findings.go\<close> and the decision half of \<^verbatim>\<open>db/merge_findings.go\<close>: what an operator
  answers to a finding of the reconcile. Keeping Syndra's state queues a convergence, taking the target's records a hold,
  an account that is gone is provisioned again or let go of; the last calls the add-on between two writes.

  The handler is written once as the code has it and once as a machine that stops between any two of its calls, so that requests,
  sweeps and other writers interleave; the two are shown to agree. The environment says which statements the database takes, the
  resolved state of a subject, and whether the add-on confirmed a release (the dispatch itself is \<open>Addon_Op\<close>).
\<close>

section \<open>Decisions on a finding\<close>

definition ResolutionKeepOurs :: string where "ResolutionKeepOurs = ''keep_ours''"
definition ResolutionTakeTheirs :: string where "ResolutionTakeTheirs = ''take_theirs''"
definition ResolutionReprovisioned :: string where "ResolutionReprovisioned = ''reprovisioned''"
definition ResolutionUnbound :: string where "ResolutionUnbound = ''unbound''"

definition isMergeResolution :: "string \<Rightarrow> bool" where
  "isMergeResolution v \<longleftrightarrow> v = ResolutionKeepOurs \<or> v = ResolutionTakeTheirs \<or> v = ResolutionReprovisioned \<or> v = ResolutionUnbound"

datatype resolve_error =
    ErrNoSuchMergeFinding
  | ErrMergeFindingDecided "MergeFinding option"
  | ErrResolutionNotExpressible
  | ErrReleaseNotConfirmed
  | ErrOfAllowance allowance_error
  | ErrOfDecision
  | ErrOfDatabase

definition GetStandingMergeFinding :: "bool \<Rightarrow> string \<Rightarrow> sync_tables \<Rightarrow> MergeFinding option" where
  "GetStandingMergeFinding reads fid st = (if reads then find (\<lambda>r. mf_ID r = fid \<and> mf_Resolved r = None) (sy_findings st) else None)"

definition set_findings :: "(MergeFinding \<Rightarrow> bool) \<Rightarrow> (MergeFinding \<Rightarrow> MergeFinding) \<Rightarrow> sync_tables \<Rightarrow> sync_tables" where
  "set_findings P g st = st\<lparr>sy_findings := map (\<lambda>r. if P r then g r else r) (sy_findings st)\<rparr>"

text \<open>The statements return the row without its three values.\<close>

definition returned_row :: "MergeFinding \<Rightarrow> MergeFinding" where
  "returned_row r = r\<lparr>mf_Base := RawEmpty, mf_Ours := RawEmpty, mf_Theirs := RawEmpty\<rparr>"

definition RecordMergeDecision ::
  "bool \<Rightarrow> bool \<Rightarrow> string \<Rightarrow> string \<Rightarrow> string \<Rightarrow> string \<Rightarrow> sync_tables \<Rightarrow> (resolve_error + MergeFinding) \<times> sync_tables"
where
  "RecordMergeDecision takes reads fid actor decision reason st =
     (if trim_space actor = [] \<or> \<not> isMergeResolution decision \<or> trim_space reason = [] then (Inl ErrOfDecision, st)
      else
        let undecided = (\<lambda>r. mf_ID r = fid \<and> mf_Resolved r = None \<and> mf_Decision r = None);
            decide = (\<lambda>r. r\<lparr>mf_Decision := Some (actor, decision), mf_Reason := Some reason\<rparr>)
        in case (if takes then find undecided (sy_findings st) else None) of
             Some r \<Rightarrow> (Inr (returned_row (decide r)), set_findings undecided decide st)
           | None \<Rightarrow>
               (case GetStandingMergeFinding reads fid st of
                  Some f \<Rightarrow> (Inl (if mf_Decision f \<noteq> None then ErrMergeFindingDecided (Some f) else ErrNoSuchMergeFinding), st)
                | None \<Rightarrow> (Inl ErrNoSuchMergeFinding, st)))"

definition ReleaseMergeDecision :: "bool \<Rightarrow> string \<Rightarrow> string \<Rightarrow> string \<Rightarrow> sync_tables \<Rightarrow> sync_tables" where
  "ReleaseMergeDecision takes fid actor decision st =
     (if takes then set_findings (\<lambda>r. mf_ID r = fid \<and> mf_Resolved r = None \<and> mf_Decision r = Some (actor, decision)) (\<lambda>r. r\<lparr>mf_Decision := None\<rparr>) st
      else st)"

definition ResolveMergeFinding :: "bool \<Rightarrow> string \<Rightarrow> string \<Rightarrow> string \<Rightarrow> sync_tables \<Rightarrow> (resolve_error + MergeFinding) \<times> sync_tables" where
  "ResolveMergeFinding takes fid actor resolution st =
     (if trim_space actor = [] \<or> \<not> isMergeResolution resolution then (Inl ErrOfDecision, st)
      else case GetStandingMergeFinding takes fid st of
             None \<Rightarrow> (Inl ErrNoSuchMergeFinding, st)
           | Some r \<Rightarrow> (Inr (returned_row r),
               set_findings (\<lambda>r. mf_ID r = fid \<and> mf_Resolved r = None) (\<lambda>r. r\<lparr>mf_Resolved := Some (actor, resolution)\<rparr>) st))"

section \<open>The handler\<close>

record resolve_request =
  rq_Finding :: string
  rq_Actor :: string
  rq_Resolution :: string
  rq_Reason :: string
  rq_ExpiresAt :: "time option"
  rq_ReviewDate :: "time option"

datatype decision_stmt =
  ReadFinding | ReserveDecision | ReadReserved | DropDecision | ReadAgain | QueueKept | WriteHold | ForgetBase | ForgetBinding
  | SettleFinding | SaveDecision | ReadDecided | CommitDecision

record decision_env =
  de_takes :: "decision_stmt \<Rightarrow> bool"
  de_now :: time
  de_id :: string
  de_resolve :: "string \<Rightarrow> string \<Rightarrow> string + field_map"
  de_release :: "resolve_error option"

record decision_world =
  dw_tables :: sync_tables
  dw_allowances :: "Allowance list"

definition resolutionFits :: "MergeFinding \<Rightarrow> string \<Rightarrow> resolve_error option" where
  "resolutionFits f resolution =
     (let gone = (mf_Outcome f = DeletedUpstream) in
      if resolution = ResolutionUnbound \<or> resolution = ResolutionReprovisioned then (if gone then None else Some ErrResolutionNotExpressible)
      else if resolution = ResolutionKeepOurs \<or> resolution = ResolutionTakeTheirs then (if gone then Some ErrResolutionNotExpressible else None)
      else Some ErrResolutionNotExpressible)"

text \<open>\<^verbatim>\<open>json.Unmarshal\<close> into a bool takes \<^verbatim>\<open>null\<close> without an error and leaves the bool false.\<close>

definition unmarshal_bool :: "raw_message \<Rightarrow> bool option" where
  "unmarshal_bool raw = (case raw of RawValue (JBool b) \<Rightarrow> Some b | RawValue JNull \<Rightarrow> Some False | _ \<Rightarrow> None)"

definition isPermissive :: "raw_message \<Rightarrow> bool" where
  "isPermissive raw = (case unmarshal_bool raw of None \<Rightarrow> False | Some on \<Rightarrow> on)"

definition adopted_hold :: "resolve_request \<Rightarrow> MergeFinding \<Rightarrow> Allowance" where
  "adopted_hold rq f = \<lparr>al_ID = [], al_SubjectID = mf_SubjectID f, al_Target = mf_Target f, al_Field = mf_Field f, al_Value = ''true'',
     al_Direction = AllowanceDeny, al_ActorID = rq_Actor rq, al_Reason = rq_Reason rq, al_CreatedAt = 0, al_ExpiresAt = rq_ExpiresAt rq,
     al_ReviewDate = rq_ReviewDate rq, al_LiftedAt = None, al_LiftedBy = []\<rparr>"

definition adoptTargetValue :: "decision_env \<Rightarrow> resolve_request \<Rightarrow> MergeFinding \<Rightarrow> Allowance list \<Rightarrow> resolve_error option \<times> Allowance list" where
  "adoptTargetValue env rq f rows =
     (if trim_space (rq_Reason rq) = [] then (Some (ErrOfAllowance ErrAllowanceInvalid), rows)
      else if \<not> IsLifecycleField (mf_Field f) then (Some ErrResolutionNotExpressible, rows)
      else case unmarshal_bool (mf_Theirs f) of
             None \<Rightarrow> (Some ErrResolutionNotExpressible, rows)
           | Some theirs \<Rightarrow>
               if theirs then (Some ErrResolutionNotExpressible, rows)
               else case CreateAllowance (de_takes env WriteHold) (de_now env) (de_id env) (adopted_hold rq f) rows of
                      ((e, _), rows') \<Rightarrow> (map_option ErrOfAllowance e, rows'))"

text \<open>A statement that fails aborts its transaction, so a base that could not be forgotten fails the statement after it.\<close>

definition performResolution :: "decision_env \<Rightarrow> resolve_request \<Rightarrow> MergeFinding \<Rightarrow> decision_world \<Rightarrow> resolve_error option \<times> decision_world" where
  "performResolution env rq f w =
     (let target = mf_Target f; sid = mf_SubjectID f; res = rq_Resolution rq in
      if res = ResolutionKeepOurs \<or> res = ResolutionReprovisioned then
        (case de_resolve env sid target of
           Inl _ \<Rightarrow> (Some ErrOfDatabase, w)
         | Inr desired \<Rightarrow>
             (case RecordSystemConvergence (de_takes env QueueKept) target sid (rq_Actor rq)
                (if res = ResolutionReprovisioned then ''An operator asked for a deleted account to be provisioned again''
                 else ''An operator kept Syndra's state over the target's'') desired (dw_tables w) of
                (ok, t) \<Rightarrow> if ok then (None, w\<lparr>dw_tables := t\<rparr>) else (Some ErrOfDatabase, w)))
      else if res = ResolutionTakeTheirs then
        (case adoptTargetValue env rq f (dw_allowances w) of (e, rows) \<Rightarrow> (e, w\<lparr>dw_allowances := rows\<rparr>))
      else if res = ResolutionUnbound then
        if de_takes env ForgetBase \<and> de_takes env ForgetBinding then
          let t = ForgetMergeBase target sid (dw_tables w)
          in (None, w\<lparr>dw_tables := t\<lparr>sy_bindings := ForgetTargetBinding target sid (sy_bindings t)\<rparr>\<rparr>)
        else (Some ErrOfDatabase, w)
      else (Some ErrOfDecision, w))"

text \<open>The transaction: whatever ends it with an error leaves the tables as they were.\<close>

definition resolve_tx :: "decision_env \<Rightarrow> resolve_request \<Rightarrow> decision_world \<Rightarrow> (resolve_error + MergeFinding) \<times> decision_world" where
  "resolve_tx env rq w =
     (case GetStandingMergeFinding (de_takes env ReadAgain) (rq_Finding rq) (dw_tables w) of
        None \<Rightarrow> (Inl ErrNoSuchMergeFinding, w)
      | Some current \<Rightarrow>
          if (case mf_Decision current of None \<Rightarrow> False | Some (_, d) \<Rightarrow> d \<noteq> rq_Resolution rq \<or> rq_Resolution rq \<noteq> ResolutionUnbound)
          then (Inl (ErrMergeFindingDecided None), w)
          else case performResolution env rq current w of
                 (Some e, _) \<Rightarrow> (Inl e, w)
               | (None, w1) \<Rightarrow>
                   (case (if rq_Resolution rq = ResolutionUnbound
                          then ResolveMergeFinding (de_takes env SettleFinding) (rq_Finding rq) (rq_Actor rq) (rq_Resolution rq) (dw_tables w1)
                          else RecordMergeDecision (de_takes env SaveDecision) (de_takes env ReadDecided)
                                 (rq_Finding rq) (rq_Actor rq) (rq_Resolution rq) (rq_Reason rq) (dw_tables w1)) of
                      (Inl e, _) \<Rightarrow> (Inl e, w)
                    | (Inr f, t) \<Rightarrow> if de_takes env CommitDecision then (Inr f, w1\<lparr>dw_tables := t\<rparr>) else (Inl ErrOfDatabase, w)))"

datatype resolve_answer = Refused resolve_error | RepairNeeded | ResolveDone bool MergeFinding

definition is_decided :: "resolve_error \<Rightarrow> bool" where
  "is_decided e = (case e of ErrMergeFindingDecided _ \<Rightarrow> True | _ \<Rightarrow> False)"

definition tx_answer :: "resolve_request \<Rightarrow> resolve_error + MergeFinding \<Rightarrow> resolve_answer" where
  "tx_answer rq r =
     (case r of
        Inr f \<Rightarrow> ResolveDone (rq_Resolution rq = ResolutionUnbound) f
      | Inl e \<Rightarrow> if rq_Resolution rq = ResolutionUnbound \<and> \<not> is_decided e then RepairNeeded else Refused e)"

text \<open>What the handler checks before anything is written: the finding, and whether this repeats an answer that was not finished.\<close>

definition check_finding :: "decision_env \<Rightarrow> resolve_request \<Rightarrow> sync_tables \<Rightarrow> resolve_error + MergeFinding \<times> bool" where
  "check_finding env rq st =
     (case GetStandingMergeFinding (de_takes env ReadFinding) (rq_Finding rq) st of
        None \<Rightarrow> Inl ErrNoSuchMergeFinding
      | Some f \<Rightarrow>
          (case resolutionFits f (rq_Resolution rq) of
             Some e \<Rightarrow> Inl e
           | None \<Rightarrow>
               (case mf_Decision f of
                  None \<Rightarrow> Inr (f, False)
                | Some (_, d) \<Rightarrow> if d = rq_Resolution rq \<and> rq_Resolution rq = ResolutionUnbound then Inr (f, True) else Inl (ErrMergeFindingDecided None))))"

definition handleResolveMergeFinding :: "decision_env \<Rightarrow> resolve_request \<Rightarrow> decision_world \<Rightarrow> resolve_answer \<times> decision_world" where
  "handleResolveMergeFinding env rq w =
     (let finish = (\<lambda>w. case resolve_tx env rq w of (r, w') \<Rightarrow> (tx_answer rq r, w')) in
      case check_finding env rq (dw_tables w) of
        Inl e \<Rightarrow> (Refused e, w)
      | Inr (f, repair) \<Rightarrow>
          if rq_Resolution rq \<noteq> ResolutionUnbound then finish w
          else
            (case (if repair then (Inr f, dw_tables w)
                   else RecordMergeDecision (de_takes env ReserveDecision) (de_takes env ReadReserved)
                          (rq_Finding rq) (rq_Actor rq) (rq_Resolution rq) (rq_Reason rq) (dw_tables w)) of
               (Inl e, _) \<Rightarrow> (Refused e, w)
             | (Inr _, t) \<Rightarrow>
                 (case de_release env of
                    None \<Rightarrow> finish (w\<lparr>dw_tables := t\<rparr>)
                  | Some e \<Rightarrow>
                      (Refused e, w\<lparr>dw_tables := (if repair then t
                         else ReleaseMergeDecision (de_takes env DropDecision) (rq_Finding rq) (rq_Actor rq) (rq_Resolution rq) t)\<rparr>))))"

section \<open>The handler between its calls\<close>

datatype resolve_phase =
    Arrived
  | Checked MergeFinding bool
  | Calling bool
  | CallFailed resolve_error bool
  | Finishing bool
  | Answered resolve_answer

fun req_next :: "decision_env \<Rightarrow> resolve_request \<Rightarrow> resolve_phase \<Rightarrow> decision_world \<Rightarrow> resolve_phase \<times> decision_world" where
  "req_next env rq Arrived w =
     (case check_finding env rq (dw_tables w) of
        Inl e \<Rightarrow> (Answered (Refused e), w)
      | Inr (f, repair) \<Rightarrow> (Checked f repair, w))"
| "req_next env rq (Checked f repair) w =
     (if rq_Resolution rq \<noteq> ResolutionUnbound then (Finishing False, w)
      else if repair then (Calling True, w)
      else case RecordMergeDecision (de_takes env ReserveDecision) (de_takes env ReadReserved)
                  (rq_Finding rq) (rq_Actor rq) (rq_Resolution rq) (rq_Reason rq) (dw_tables w) of
             (Inl e, _) \<Rightarrow> (Answered (Refused e), w)
           | (Inr _, t) \<Rightarrow> (Calling False, w\<lparr>dw_tables := t\<rparr>))"
| "req_next env rq (Calling repair) w = (case de_release env of None \<Rightarrow> (Finishing repair, w) | Some e \<Rightarrow> (CallFailed e repair, w))"
| "req_next env rq (CallFailed e repair) w =
     (Answered (Refused e),
      if repair then w
      else w\<lparr>dw_tables := ReleaseMergeDecision (de_takes env DropDecision) (rq_Finding rq) (rq_Actor rq) (rq_Resolution rq) (dw_tables w)\<rparr>)"
| "req_next env rq (Finishing repair) w = (case resolve_tx env rq w of (r, w') \<Rightarrow> (Answered (tx_answer rq r), w'))"
| "req_next env rq (Answered a) w = (Answered a, w)"

text \<open>Five steps with nothing in between are the handler.\<close>

lemma handler_is_five_steps:
  "((\<lambda>(p, w). req_next env rq p w) ^^ 5) (Arrived, w) = map_prod Answered id (handleResolveMergeFinding env rq w)"
proof -
  have five: "(f ^^ 5) x = f (f (f (f (f x))))" for f :: "'a \<Rightarrow> 'a" and x by (simp add: eval_nat_numeral)
  show ?thesis
    unfolding five handleResolveMergeFinding_def Let_def
    by (auto split: sum.splits prod.splits option.splits if_splits)
qed

section \<open>Many requests, sweeps and other writers\<close>

text \<open>
  Besides the tables and the requests with their phases, two histories: every step of a request after which the queue or the holds are
  not what they were, with both tables before and after it, and the releases the add-on confirmed, with whether the request repeated an earlier answer.
\<close>

record decision_work =
  wk_Finding :: string
  wk_Actor :: string
  wk_Resolution :: string
  wk_Resolve :: "string \<Rightarrow> string \<Rightarrow> string + field_map"
  wk_Queue :: "SystemConvergence list \<times> SystemConvergence list"
  wk_Holds :: "Allowance list \<times> Allowance list"

record decision_state =
  dn_world :: decision_world
  dn_requests :: "(resolve_request \<times> resolve_phase) list"
  dn_work :: "decision_work list"
  dn_released :: "(string \<times> bool) list"

definition work_of :: "decision_env \<Rightarrow> resolve_request \<Rightarrow> decision_world \<Rightarrow> decision_world \<Rightarrow> decision_work list" where
  "work_of env rq w w' =
     (let queue = (sy_queue (dw_tables w), sy_queue (dw_tables w')); holds = (dw_allowances w, dw_allowances w') in
      if fst queue = snd queue \<and> fst holds = snd holds then []
      else [\<lparr>wk_Finding = rq_Finding rq, wk_Actor = rq_Actor rq, wk_Resolution = rq_Resolution rq, wk_Resolve = de_resolve env, wk_Queue = queue, wk_Holds = holds\<rparr>])"

definition released_of :: "resolve_request \<Rightarrow> resolve_phase \<Rightarrow> resolve_phase \<Rightarrow> (string \<times> bool) list" where
  "released_of rq p p' = (case (p, p') of (Calling repair, Finishing _) \<Rightarrow> [(rq_Finding rq, repair)] | _ \<Rightarrow> [])"

definition serve :: "decision_env \<Rightarrow> nat \<Rightarrow> decision_state \<Rightarrow> decision_state" where
  "serve env i s =
     (let (rq, p) = dn_requests s ! i; (p', w') = req_next env rq p (dn_world s)
      in \<lparr>dn_world = w', dn_requests = (dn_requests s)[i := (rq, p')],
          dn_work = dn_work s @ work_of env rq (dn_world s) w', dn_released = dn_released s @ released_of rq p p'\<rparr>)"

definition with_tables :: "sync_tables \<Rightarrow> decision_state \<Rightarrow> decision_state" where
  "with_tables t s = s\<lparr>dn_world := dn_world s\<lparr>dw_tables := t\<rparr>\<rparr>"

inductive decision_step :: "decision_state \<Rightarrow> decision_state \<Rightarrow> bool" where
  ask: "decision_step s (s\<lparr>dn_requests := dn_requests s @ [(rq, Arrived)]\<rparr>)"
| go_on: "i < length (dn_requests s) \<Longrightarrow> decision_step s (serve env i s)"
| raise: "RecordMergeFinding takes fid target f (dw_tables (dn_world s)) = (ok, t) \<Longrightarrow>
    fid \<notin> mf_ID ` set (sy_findings (dw_tables (dn_world s))) \<Longrightarrow> decision_step s (with_tables t s)"
| settled: "ClearMergeFinding takes target sid field actor (dw_tables (dn_world s)) = (ok, t) \<Longrightarrow> decision_step s (with_tables t s)"
| elsewhere: "sy_findings t = sy_findings (dw_tables (dn_world s)) \<Longrightarrow> decision_step s (s\<lparr>dn_world := \<lparr>dw_tables = t, dw_allowances = rows\<rparr>\<rparr>)"

definition no_requests :: "decision_state \<Rightarrow> bool" where
  "no_requests s \<longleftrightarrow> dn_requests s = [] \<and> dn_work s = [] \<and> dn_released s = [] \<and> distinct (map mf_ID (sy_findings (dw_tables (dn_world s))))"

section \<open>Rows through a step\<close>

abbreviation findings_of :: "decision_state \<Rightarrow> MergeFinding list" where
  "findings_of s \<equiv> sy_findings (dw_tables (dn_world s))"

abbreviation answer_pair :: "decision_work \<Rightarrow> string \<times> string" where
  "answer_pair e \<equiv> (wk_Finding e, wk_Resolution e)"

abbreviation work_pairs :: "decision_state \<Rightarrow> (string \<times> string) list" where
  "work_pairs s \<equiv> map answer_pair (dn_work s)"

text \<open>
  What the answer to a finding may write: one convergence of the person the finding is about, to the state they resolve to, or one hold of
  theirs on the field; in the name of who answered, and nothing in the other table.
\<close>

definition one_convergence :: "decision_work \<Rightarrow> MergeFinding \<Rightarrow> bool" where
  "one_convergence e f \<longleftrightarrow> fst (wk_Holds e) = snd (wk_Holds e) \<and>
     (\<exists>c. snd (wk_Queue e) = fst (wk_Queue e) @ [c] \<and> cv_Target c = mf_Target f \<and> cv_SubjectID c = mf_SubjectID f \<and> cv_Actor c = wk_Actor e \<and>
        wk_Resolve e (mf_SubjectID f) (mf_Target f) = Inr (cv_Desired c) \<and> cv_Waiting c)"

definition one_hold :: "decision_work \<Rightarrow> MergeFinding \<Rightarrow> bool" where
  "one_hold e f \<longleftrightarrow> fst (wk_Queue e) = snd (wk_Queue e) \<and>
     (\<exists>h. snd (wk_Holds e) = fst (wk_Holds e) @ [h] \<and> al_Target h = mf_Target f \<and> al_SubjectID h = mf_SubjectID f \<and> al_Field h = mf_Field f \<and>
        al_ActorID h = wk_Actor e \<and> al_Value h = ''true'' \<and> al_Direction h = AllowanceDeny \<and> al_LiftedAt h = None)"

definition worked :: "decision_work \<Rightarrow> MergeFinding \<Rightarrow> bool" where
  "worked e f \<longleftrightarrow>
     (wk_Resolution e = ResolutionTakeTheirs \<and> one_hold e f) \<or>
     ((wk_Resolution e = ResolutionKeepOurs \<or> wk_Resolution e = ResolutionReprovisioned) \<and> one_convergence e f)"

definition row_of :: "string \<Rightarrow> MergeFinding list \<Rightarrow> MergeFinding option" where
  "row_of fid rs = find (\<lambda>r. mf_ID r = fid) rs"

lemma row_of_map: "(\<And>r. mf_ID (g r) = mf_ID r) \<Longrightarrow> row_of fid (map g rs) = map_option g (row_of fid rs)"
  by (induction rs) (auto simp: row_of_def)

lemma row_of_append: "row_of fid (rs @ rs') = (case row_of fid rs of None \<Rightarrow> row_of fid rs' | Some r \<Rightarrow> Some r)"
  by (induction rs) (auto simp: row_of_def)

lemma row_of_ID: "row_of fid rs = Some r \<Longrightarrow> mf_ID r = fid"
  by (auto simp: row_of_def find_Some_iff)

lemma row_of_None: "row_of fid rs = None \<longleftrightarrow> fid \<notin> mf_ID ` set rs"
  by (auto simp: row_of_def find_None_iff)

lemma find_row: "distinct (map mf_ID rs) \<Longrightarrow> find (\<lambda>r. mf_ID r = fid \<and> P r) rs = Some r \<longleftrightarrow> row_of fid rs = Some r \<and> P r"
proof (induction rs)
  case (Cons a rs)
  show ?case
  proof (cases "mf_ID a = fid")
    case True
    have "find (\<lambda>r. mf_ID r = fid \<and> P r) rs = None" using Cons.prems True by (auto simp: find_None_iff image_iff)
    then show ?thesis using True by (auto simp: row_of_def)
  next
    case False
    then show ?thesis using Cons by (simp add: row_of_def)
  qed
qed (simp add: row_of_def)

lemma standing_row:
  "distinct (map mf_ID (sy_findings st)) \<Longrightarrow> GetStandingMergeFinding reads fid st = Some r \<longleftrightarrow> reads \<and> row_of fid (sy_findings st) = Some r \<and> mf_Resolved r = None"
  by (simp add: GetStandingMergeFinding_def find_row)

text \<open>Every writer of findings rewrites rows in place under their ids, or adds one under a new id.\<close>

definition rows_by :: "(MergeFinding \<Rightarrow> MergeFinding) \<Rightarrow> sync_tables \<Rightarrow> sync_tables \<Rightarrow> bool" where
  "rows_by g st st' \<longleftrightarrow> sy_findings st' = map g (sy_findings st) \<and> (\<forall>r. mf_ID (g r) = mf_ID r)"

lemma rows_by_row: "rows_by g st st' \<Longrightarrow> row_of fid (sy_findings st') = map_option g (row_of fid (sy_findings st))"
  by (simp add: rows_by_def row_of_map)

lemma rows_by_ids: "rows_by g st st' \<Longrightarrow> map mf_ID (sy_findings st') = map mf_ID (sy_findings st)"
  by (simp add: rows_by_def comp_def)

lemma rows_by_same: "sy_findings st' = sy_findings st \<Longrightarrow> rows_by (\<lambda>r. r) st st'"
  by (simp add: rows_by_def)

definition decide_row :: "string \<Rightarrow> string \<Rightarrow> string \<Rightarrow> string \<Rightarrow> MergeFinding \<Rightarrow> MergeFinding" where
  "decide_row fid actor decision reason r =
     (if mf_ID r = fid \<and> mf_Resolved r = None \<and> mf_Decision r = None then r\<lparr>mf_Decision := Some (actor, decision), mf_Reason := Some reason\<rparr> else r)"

lemma RecordMergeDecision_effect:
  assumes "RecordMergeDecision takes reads fid actor decision reason st = (Inr f, st')" "distinct (map mf_ID (sy_findings st))"
  obtains r where "row_of fid (sy_findings st) = Some r" "mf_Resolved r = None" "mf_Decision r = None" "isMergeResolution decision"
    "rows_by (decide_row fid actor decision reason) st st'"
proof -
  let ?undecided = "\<lambda>r. mf_ID r = fid \<and> mf_Resolved r = None \<and> mf_Decision r = None"
  let ?decide = "\<lambda>r. r\<lparr>mf_Decision := Some (actor, decision), mf_Reason := Some reason\<rparr>"
  have ok: "isMergeResolution decision" and "\<exists>r. find ?undecided (sy_findings st) = Some r \<and> st' = set_findings ?undecided ?decide st"
    using assms(1) by (auto simp: RecordMergeDecision_def Let_def split: if_splits option.splits)
  then obtain r where r: "find ?undecided (sy_findings st) = Some r" "st' = set_findings ?undecided ?decide st" by blast
  have "row_of fid (sy_findings st) = Some r \<and> mf_Resolved r = None \<and> mf_Decision r = None" using r(1) find_row [OF assms(2)] by simp
  moreover have "rows_by (decide_row fid actor decision reason) st st'" by (auto simp: rows_by_def r(2) set_findings_def decide_row_def)
  ultimately show thesis using that ok by blast
qed

definition settle_row :: "string \<Rightarrow> string \<Rightarrow> string \<Rightarrow> MergeFinding \<Rightarrow> MergeFinding" where
  "settle_row fid actor resolution r = (if mf_ID r = fid \<and> mf_Resolved r = None then r\<lparr>mf_Resolved := Some (actor, resolution)\<rparr> else r)"

definition drop_row :: "string \<Rightarrow> string \<Rightarrow> string \<Rightarrow> MergeFinding \<Rightarrow> MergeFinding" where
  "drop_row fid actor decision r = (if mf_ID r = fid \<and> mf_Resolved r = None \<and> mf_Decision r = Some (actor, decision) then r\<lparr>mf_Decision := None\<rparr> else r)"

lemma ResolveMergeFinding_effect:
  "ResolveMergeFinding takes fid actor resolution st = (Inr f, st') \<Longrightarrow> rows_by (settle_row fid actor resolution) st st'"
  by (auto simp: ResolveMergeFinding_def rows_by_def set_findings_def settle_row_def split: if_splits option.splits)

lemma ReleaseMergeDecision_effect:
  "rows_by (if takes then drop_row fid actor decision else (\<lambda>r. r)) st (ReleaseMergeDecision takes fid actor decision st)"
  by (auto simp: ReleaseMergeDecision_def rows_by_def set_findings_def drop_row_def)

lemma performResolution_findings: "performResolution env rq f w = (None, w') \<Longrightarrow> sy_findings (dw_tables w') = sy_findings (dw_tables w)"
  by (auto simp: performResolution_def Let_def RecordSystemConvergence_def ForgetMergeBase_def split: if_splits sum.splits prod.splits)

lemma adopt_ok:
  assumes "adoptTargetValue env rq f rows = (None, rows')"
  shows "IsLifecycleField (mf_Field f)" "unmarshal_bool (mf_Theirs f) = Some False"
    "\<exists>a. CreateAllowance (de_takes env WriteHold) (de_now env) (de_id env) (adopted_hold rq f) rows = ((None, a), rows')"
    "rows' = rows @ [insert_allowance (de_now env) (de_id env) (adopted_hold rq f)]"
  using assms by (auto simp: adoptTargetValue_def CreateAllowance_def adopted_hold_def split: if_splits option.splits)

lemma resolution_names [simp]:
  "ResolutionTakeTheirs \<noteq> ResolutionUnbound" "ResolutionTakeTheirs \<noteq> ResolutionKeepOurs" "ResolutionTakeTheirs \<noteq> ResolutionReprovisioned"
  "ResolutionKeepOurs \<noteq> ResolutionUnbound" "ResolutionReprovisioned \<noteq> ResolutionUnbound"
  by (simp_all add: ResolutionTakeTheirs_def ResolutionUnbound_def ResolutionKeepOurs_def ResolutionReprovisioned_def)

lemma work_of_same [simp]: "work_of env rq w w = []"
  by (simp add: work_of_def)

text \<open>What a transaction writes to the queue and to the holds: the answer's one row when it ends well and the account is not let go of, and otherwise nothing.\<close>

lemma decision_stmts_keep_queue:
  "sy_queue (snd (RecordMergeDecision takes reads fid actor d reason st)) = sy_queue st"
  "sy_queue (snd (ResolveMergeFinding takes fid actor d st)) = sy_queue st"
  "sy_queue (ReleaseMergeDecision takes fid actor d st) = sy_queue st"
  by (auto simp: RecordMergeDecision_def ResolveMergeFinding_def ReleaseMergeDecision_def set_findings_def Let_def split: option.splits)

lemma performResolution_writes:
  assumes "performResolution env rq f w = (None, w1)"
  shows "if rq_Resolution rq = ResolutionUnbound then sy_queue (dw_tables w1) = sy_queue (dw_tables w) \<and> dw_allowances w1 = dw_allowances w
    else \<exists>e. work_of env rq w w1 = [e] \<and> worked e f"
proof -
  consider "rq_Resolution rq = ResolutionKeepOurs \<or> rq_Resolution rq = ResolutionReprovisioned" | "rq_Resolution rq = ResolutionTakeTheirs" | "rq_Resolution rq = ResolutionUnbound"
    using assms by (auto simp: performResolution_def Let_def split: if_splits)
  then show ?thesis
  proof cases
    case 1
    then show ?thesis using assms
      by (auto simp: performResolution_def Let_def RecordSystemConvergence_def work_of_def worked_def one_convergence_def split: sum.splits prod.splits if_splits)
  next
    case 2
    then obtain rows where rows: "adoptTargetValue env rq f (dw_allowances w) = (None, rows)" "w1 = w\<lparr>dw_allowances := rows\<rparr>"
      using assms by (auto simp: performResolution_def Let_def split: prod.splits)
    show ?thesis unfolding rows(2) adopt_ok(4) [OF rows(1)]
      using 2 by (simp add: work_of_def worked_def one_hold_def insert_allowance_def adopted_hold_def)
  next
    case 3
    then show ?thesis using assms by (auto simp: performResolution_def Let_def ForgetMergeBase_def resolution_names [symmetric] split: if_splits)
  qed
qed

lemma resolve_tx_writes:
  assumes "resolve_tx env rq w = (r, w')"
  shows "(case r of Inl _ \<Rightarrow> True | Inr _ \<Rightarrow> rq_Resolution rq = ResolutionUnbound) \<longrightarrow> work_of env rq w w' = []"
    "r = Inr f \<Longrightarrow> rq_Resolution rq \<noteq> ResolutionUnbound \<Longrightarrow>
      \<exists>e cur. GetStandingMergeFinding True (rq_Finding rq) (dw_tables w) = Some cur \<and> work_of env rq w w' = [e] \<and> worked e cur"
proof -
  have ended: "\<exists>cur w1 t. GetStandingMergeFinding True (rq_Finding rq) (dw_tables w) = Some cur \<and> performResolution env rq cur w = (None, w1) \<and>
      w' = w1\<lparr>dw_tables := t\<rparr> \<and> sy_queue t = sy_queue (dw_tables w1)" if "r = Inr g" for g
    using assms that decision_stmts_keep_queue
    by (auto simp: resolve_tx_def GetStandingMergeFinding_def split: option.splits if_splits prod.splits sum.splits) (metis snd_conv)+
  have same: "work_of env rq w (w1\<lparr>dw_tables := t\<rparr>) = work_of env rq w w1" if "sy_queue t = sy_queue (dw_tables w1)" for w1 t
    using that by (simp add: work_of_def)
  show "(case r of Inl _ \<Rightarrow> True | Inr _ \<Rightarrow> rq_Resolution rq = ResolutionUnbound) \<longrightarrow> work_of env rq w w' = []"
  proof (cases r)
    case (Inl e)
    then have "w' = w" using assms by (auto simp: resolve_tx_def split: option.splits if_splits prod.splits sum.splits)
    then show ?thesis by (simp add: work_of_def)
  next
    case (Inr g)
    with ended show ?thesis using performResolution_writes same by (fastforce simp: work_of_def)
  qed
  show "\<exists>e cur. GetStandingMergeFinding True (rq_Finding rq) (dw_tables w) = Some cur \<and> work_of env rq w w' = [e] \<and> worked e cur"
    if "r = Inr f" "rq_Resolution rq \<noteq> ResolutionUnbound"
    using ended [OF that(1)] performResolution_writes same that(2) by metis
qed

text \<open>A transaction that ends well found the row undecided, or decided as unbound by a request for the same; one that does not changes nothing.\<close>

lemma resolve_tx_effect:
  assumes "resolve_tx env rq w = (r, w')" "distinct (map mf_ID (sy_findings (dw_tables w)))"
  obtains e where "r = Inl e" "w' = w"
  | f row where "r = Inr f" "row_of (rq_Finding rq) (sy_findings (dw_tables w)) = Some row" "mf_Resolved row = None"
      "if rq_Resolution rq = ResolutionUnbound
       then (mf_Decision row = None \<or> (\<exists>a. mf_Decision row = Some (a, ResolutionUnbound))) \<and>
         rows_by (settle_row (rq_Finding rq) (rq_Actor rq) ResolutionUnbound) (dw_tables w) (dw_tables w')
       else mf_Decision row = None \<and> rows_by (decide_row (rq_Finding rq) (rq_Actor rq) (rq_Resolution rq) (rq_Reason rq)) (dw_tables w) (dw_tables w')"
proof (cases r)
  case (Inl e)
  then show thesis using assms(1) that(1) by (auto simp: resolve_tx_def split: option.splits if_splits prod.splits sum.splits)
next
  case (Inr f)
  obtain row where row: "GetStandingMergeFinding (de_takes env ReadAgain) (rq_Finding rq) (dw_tables w) = Some row"
      and free: "\<not> (case mf_Decision row of None \<Rightarrow> False | Some (_, d) \<Rightarrow> d \<noteq> rq_Resolution rq \<or> rq_Resolution rq \<noteq> ResolutionUnbound)"
    using assms(1) Inr by (auto simp: resolve_tx_def split: option.splits if_splits)
  obtain w1 where w1: "performResolution env rq row w = (None, w1)"
    using assms(1) Inr row free by (cases "performResolution env rq row w") (auto simp: resolve_tx_def split: option.splits)
  note same = performResolution_findings [OF w1]
  have at: "row_of (rq_Finding rq) (sy_findings (dw_tables w)) = Some row" "mf_Resolved row = None" using row standing_row [OF assms(2)] by auto
  have lift: "rows_by g (dw_tables w1) t \<Longrightarrow> rows_by g (dw_tables w) t" for g t by (simp add: rows_by_def same)
  show thesis
  proof (cases "rq_Resolution rq = ResolutionUnbound")
    case True
    have "\<exists>t. ResolveMergeFinding (de_takes env SettleFinding) (rq_Finding rq) (rq_Actor rq) (rq_Resolution rq) (dw_tables w1) = (Inr f, t) \<and> w' = w1\<lparr>dw_tables := t\<rparr>"
      using assms(1) Inr row free w1 True by (auto simp: resolve_tx_def split: prod.splits sum.splits if_splits)
    then show thesis using that(2) [OF Inr at] True free lift ResolveMergeFinding_effect by (fastforce split: option.splits)
  next
    case False
    have "\<exists>t. RecordMergeDecision (de_takes env SaveDecision) (de_takes env ReadDecided) (rq_Finding rq) (rq_Actor rq) (rq_Resolution rq) (rq_Reason rq) (dw_tables w1) = (Inr f, t) \<and> w' = w1\<lparr>dw_tables := t\<rparr>"
      using assms(1) Inr row free w1 False by (auto simp: resolve_tx_def split: prod.splits sum.splits if_splits)
    then obtain t where t: "RecordMergeDecision (de_takes env SaveDecision) (de_takes env ReadDecided) (rq_Finding rq) (rq_Actor rq) (rq_Resolution rq) (rq_Reason rq) (dw_tables w1) = (Inr f, t)"
      "w' = w1\<lparr>dw_tables := t\<rparr>" by blast
    from t(1) have "rows_by (decide_row (rq_Finding rq) (rq_Actor rq) (rq_Resolution rq) (rq_Reason rq)) (dw_tables w1) t"
      by (rule RecordMergeDecision_effect) (simp_all add: same assms(2))
    then show thesis using that(2) [OF Inr at] False free lift t(2) by (auto split: option.splits)
  qed
qed

section \<open>One answer per finding\<close>

definition row_decided :: "MergeFinding list \<Rightarrow> string \<Rightarrow> string \<Rightarrow> string \<Rightarrow> bool" where
  "row_decided rs fid a d \<longleftrightarrow> (\<exists>r. row_of fid rs = Some r \<and> mf_Decision r = Some (a, d))"

definition closes_as :: "MergeFinding list \<Rightarrow> string \<Rightarrow> string \<Rightarrow> bool" where
  "closes_as rs fid d \<longleftrightarrow> (\<forall>r who what. row_of fid rs = Some r \<longrightarrow> mf_Resolved r = Some (who, what) \<longrightarrow> what = d)"

text \<open>A request in the middle of its call to the add-on, on a decision of its own; and one that has not given that decision up.\<close>

fun on_call :: "resolve_phase \<Rightarrow> bool" where
  "on_call (Calling repair) = (\<not> repair)"
| "on_call (CallFailed e repair) = (\<not> repair)"
| "on_call _ = False"

definition holding :: "resolve_request \<times> resolve_phase \<Rightarrow> bool" where
  "holding x \<longleftrightarrow> rq_Resolution (fst x) = ResolutionUnbound \<and> (on_call (snd x) \<or> snd x = Finishing False)"

definition about :: "(resolve_request \<times> resolve_phase) list \<Rightarrow> nat \<Rightarrow> string" where
  "about reqs i = rq_Finding (fst (reqs ! i))"

definition decision_inv ::
  "MergeFinding list \<Rightarrow> (resolve_request \<times> resolve_phase) list \<Rightarrow> (string \<times> string) list \<Rightarrow> (string \<times> bool) list \<Rightarrow> bool"
where
  "decision_inv rs reqs work rel \<longleftrightarrow>
     distinct (map mf_ID rs) \<and> distinct (map fst work) \<and>
     (\<forall>(fid, d) \<in> set work. d \<noteq> ResolutionUnbound \<and> (\<exists>a. row_decided rs fid a d) \<and> closes_as rs fid d) \<and>
     (\<forall>i < length reqs. on_call (snd (reqs ! i)) \<longrightarrow> rq_Resolution (fst (reqs ! i)) = ResolutionUnbound) \<and>
     (\<forall>i < length reqs. holding (reqs ! i) \<longrightarrow> row_decided rs (about reqs i) (rq_Actor (fst (reqs ! i))) ResolutionUnbound) \<and>
     (\<forall>i < length reqs. \<forall>j < length reqs. holding (reqs ! i) \<longrightarrow> holding (reqs ! j) \<longrightarrow> about reqs i = about reqs j \<longrightarrow> i = j) \<and>
     (\<forall>fid. (fid, False) \<in> set rel \<longrightarrow> (\<exists>a. row_decided rs fid a ResolutionUnbound) \<and> (\<forall>i < length reqs. on_call (snd (reqs ! i)) \<longrightarrow> about reqs i \<noteq> fid))"

lemma decision_invE:
  assumes "decision_inv rs reqs work rel"
  shows "distinct (map mf_ID rs)" "distinct (map fst work)"
    "(fid, d) \<in> set work \<Longrightarrow> d \<noteq> ResolutionUnbound \<and> (\<exists>a. row_decided rs fid a d) \<and> closes_as rs fid d"
    "i < length reqs \<Longrightarrow> on_call (snd (reqs ! i)) \<Longrightarrow> rq_Resolution (fst (reqs ! i)) = ResolutionUnbound"
    "i < length reqs \<Longrightarrow> holding (reqs ! i) \<Longrightarrow> row_decided rs (about reqs i) (rq_Actor (fst (reqs ! i))) ResolutionUnbound"
    "i < length reqs \<Longrightarrow> j < length reqs \<Longrightarrow> holding (reqs ! i) \<Longrightarrow> holding (reqs ! j) \<Longrightarrow> about reqs i = about reqs j \<Longrightarrow> i = j"
    "(fid, False) \<in> set rel \<Longrightarrow> \<exists>a. row_decided rs fid a ResolutionUnbound"
    "(fid, False) \<in> set rel \<Longrightarrow> i < length reqs \<Longrightarrow> on_call (snd (reqs ! i)) \<Longrightarrow> about reqs i \<noteq> fid"
  using assms unfolding decision_inv_def by (blast | fastforce)+

lemma decided_unique: "row_decided rs fid a d \<Longrightarrow> row_decided rs fid a' d' \<Longrightarrow> a = a' \<and> d = d'"
  by (auto simp: row_decided_def)

text \<open>Other rows, with every decision somebody relies on kept, and closed under its name.\<close>

definition relied_on :: "(resolve_request \<times> resolve_phase) list \<Rightarrow> (string \<times> bool) list \<Rightarrow> string \<Rightarrow> bool" where
  "relied_on reqs rel fid \<longleftrightarrow> (\<exists>i < length reqs. holding (reqs ! i) \<and> about reqs i = fid) \<or> (fid, False) \<in> set rel"

lemma inv_rows:
  assumes "decision_inv rs reqs work rel" "distinct (map mf_ID rs')"
    and keeps: "\<And>fid a d. row_decided rs fid a d \<Longrightarrow> d \<noteq> ResolutionUnbound \<or> relied_on reqs rel fid \<Longrightarrow> row_decided rs' fid a d"
    and closes: "\<And>fid a d. row_decided rs fid a d \<Longrightarrow> d \<noteq> ResolutionUnbound \<Longrightarrow> closes_as rs fid d \<Longrightarrow> closes_as rs' fid d"
  shows "decision_inv rs' reqs work rel"
proof -
  note inv = decision_invE [OF assms(1)]
  show ?thesis
    unfolding decision_inv_def
  proof (intro conjI)
    show "\<forall>(fid, d) \<in> set work. d \<noteq> ResolutionUnbound \<and> (\<exists>a. row_decided rs' fid a d) \<and> closes_as rs' fid d"
      using inv(3) keeps closes by (clarsimp, metis)
    show "\<forall>i < length reqs. \<forall>j < length reqs. holding (reqs ! i) \<longrightarrow> holding (reqs ! j) \<longrightarrow> about reqs i = about reqs j \<longrightarrow> i = j"
      using inv(6) by simp
    show "\<forall>i < length reqs. holding (reqs ! i) \<longrightarrow> row_decided rs' (about reqs i) (rq_Actor (fst (reqs ! i))) ResolutionUnbound"
      by (intro allI impI keeps inv(5)) (auto simp: relied_on_def)
    show "\<forall>fid. (fid, False) \<in> set rel \<longrightarrow> (\<exists>a. row_decided rs' fid a ResolutionUnbound) \<and> (\<forall>i < length reqs. on_call (snd (reqs ! i)) \<longrightarrow> about reqs i \<noteq> fid)"
      using inv(7,8) keeps unfolding relied_on_def by metis
  qed (use inv(2,4) assms(2) in auto)
qed

text \<open>A request that moves without taking or keeping more than it had.\<close>

lemma inv_phase:
  assumes "decision_inv rs reqs work rel" "i < length reqs" "reqs ! i = (rq, p)" "on_call p' \<Longrightarrow> on_call p" "holding (rq, p') \<Longrightarrow> holding (rq, p)"
  shows "decision_inv rs (reqs[i := (rq, p')]) work rel"
proof -
  have about: "about (reqs[i := (rq, p')]) j = about reqs j" for j using assms(2,3) by (cases "j = i") (auto simp: about_def)
  have who: "fst (reqs[i := (rq, p')] ! j) = fst (reqs ! j)" for j using assms(2,3) by (cases "j = i") auto
  have call: "on_call (snd (reqs[i := (rq, p')] ! j)) \<Longrightarrow> on_call (snd (reqs ! j))" for j using assms(2,3,4) by (cases "j = i") auto
  have hold: "holding (reqs[i := (rq, p')] ! j) \<Longrightarrow> holding (reqs ! j)" for j using assms(2,3,5) by (cases "j = i") auto
  note inv = decision_invE [OF assms(1)]
  show ?thesis
    unfolding decision_inv_def
  proof (intro conjI)
    show "\<forall>j < length (reqs[i := (rq, p')]). \<forall>k < length (reqs[i := (rq, p')]).
        holding (reqs[i := (rq, p')] ! j) \<longrightarrow> holding (reqs[i := (rq, p')] ! k) \<longrightarrow> about (reqs[i := (rq, p')]) j = about (reqs[i := (rq, p')]) k \<longrightarrow> j = k"
      using inv(6) hold by (simp add: about)
    show "\<forall>fid. (fid, False) \<in> set rel \<longrightarrow> (\<exists>a. row_decided rs fid a ResolutionUnbound) \<and>
        (\<forall>j < length (reqs[i := (rq, p')]). on_call (snd (reqs[i := (rq, p')] ! j)) \<longrightarrow> about (reqs[i := (rq, p')]) j \<noteq> fid)"
      using inv(7,8) call by (auto simp: about)
  qed (use inv call hold in \<open>auto simp: who about\<close>)
qed

lemma rows_by_decided:
  assumes "rows_by g st st'"
  shows "row_decided (sy_findings st') fid a d \<longleftrightarrow> (\<exists>r. row_of fid (sy_findings st) = Some r \<and> mf_Decision (g r) = Some (a, d))"
    "closes_as (sy_findings st') fid d \<longleftrightarrow> (\<forall>r who what. row_of fid (sy_findings st) = Some r \<longrightarrow> mf_Resolved (g r) = Some (who, what) \<longrightarrow> what = d)"
  by (auto simp: row_decided_def closes_as_def rows_by_row [OF assms])

lemma inv_rows_by:
  assumes "decision_inv (sy_findings st) reqs work rel" "rows_by g st st'"
    and "\<And>r a d. mf_Decision r = Some (a, d) \<Longrightarrow> mf_Decision (g r) = Some (a, d)"
    and "\<And>r a d who what. mf_Decision r = Some (a, d) \<Longrightarrow> d \<noteq> ResolutionUnbound \<Longrightarrow> mf_Resolved (g r) = Some (who, what) \<Longrightarrow> mf_Resolved r = Some (who, what) \<or> what = d"
  shows "decision_inv (sy_findings st') reqs work rel"
proof (rule inv_rows [OF assms(1)])
  show "distinct (map mf_ID (sy_findings st'))" using decision_invE(1) [OF assms(1)] rows_by_ids [OF assms(2)] by simp
  show "row_decided (sy_findings st') fid a d" if "row_decided (sy_findings st) fid a d" for fid a d
    using that assms(3) unfolding rows_by_decided(1) [OF assms(2)] by (auto simp: row_decided_def)
  show "closes_as (sy_findings st') fid d" if "row_decided (sy_findings st) fid a d" "d \<noteq> ResolutionUnbound" "closes_as (sy_findings st) fid d" for fid a d
    using that assms(4) unfolding rows_by_decided(2) [OF assms(2)] by (fastforce simp: row_decided_def closes_as_def)
qed

lemma inv_ask:
  assumes "decision_inv rs reqs work rel"
  shows "decision_inv rs (reqs @ [(rq, Arrived)]) work rel"
proof -
  let ?reqs = "reqs @ [(rq, Arrived)]"
  note inv = decision_invE [OF assms]
  have old: "?reqs ! i = reqs ! i \<and> about ?reqs i = about reqs i" if "i < length reqs" for i using that by (simp add: about_def nth_append)
  have idle: "i < length reqs" if "i < length ?reqs" "holding (?reqs ! i) \<or> on_call (snd (?reqs ! i))" for i
    using that by (cases "i = length reqs") (auto simp: holding_def nth_append split: if_splits)
  show ?thesis
    unfolding decision_inv_def
  proof (intro conjI)
    show "\<forall>i < length ?reqs. \<forall>j < length ?reqs. holding (?reqs ! i) \<longrightarrow> holding (?reqs ! j) \<longrightarrow> about ?reqs i = about ?reqs j \<longrightarrow> i = j"
      using inv(6) old idle by metis
    show "\<forall>fid. (fid, False) \<in> set rel \<longrightarrow> (\<exists>a. row_decided rs fid a ResolutionUnbound) \<and> (\<forall>i < length ?reqs. on_call (snd (?reqs ! i)) \<longrightarrow> about ?reqs i \<noteq> fid)"
      using inv(7,8) old idle by metis
    show "\<forall>i < length ?reqs. holding (?reqs ! i) \<longrightarrow> row_decided rs (about ?reqs i) (rq_Actor (fst (?reqs ! i))) ResolutionUnbound"
      using inv(5) old idle by metis
    show "\<forall>i < length ?reqs. on_call (snd (?reqs ! i)) \<longrightarrow> rq_Resolution (fst (?reqs ! i)) = ResolutionUnbound"
      using inv(4) old idle by metis
  qed (use inv(1,2,3) in auto)
qed

text \<open>The reservation: the finding was undecided, so nobody relied on it.\<close>

lemma decide_inv:
  assumes inv: "decision_inv (sy_findings st) reqs work rel" and upd: "rows_by (decide_row fid actor d reason) st st'"
    and row: "row_of fid (sy_findings st) = Some r" "mf_Resolved r = None" "mf_Decision r = None"
  shows "decision_inv (sy_findings st') reqs work rel" "\<not> relied_on reqs rel fid" "fid \<notin> fst ` set work"
    "row_decided (sy_findings st') fid actor d" "closes_as (sy_findings st') fid d"
proof -
  have free: "\<not> row_decided (sy_findings st) fid a d" for a d using row by (simp add: row_decided_def)
  show "decision_inv (sy_findings st') reqs work rel"
    by (rule inv_rows_by [OF inv upd]) (auto simp: decide_row_def split: if_splits)
  show "\<not> relied_on reqs rel fid" using decision_invE(5,7) [OF inv] free unfolding relied_on_def by metis
  show "fid \<notin> fst ` set work" using decision_invE(3) [OF inv] free by force
  show "row_decided (sy_findings st') fid actor d" "closes_as (sy_findings st') fid d"
    unfolding rows_by_decided [OF upd] using row row_of_ID [OF row(1)] by (auto simp: decide_row_def)
qed

lemma inv_reserve:
  assumes inv: "decision_inv rs reqs work rel" and i: "i < length reqs" "reqs ! i = (rq, Checked f False)"
    and unbound: "rq_Resolution rq = ResolutionUnbound" and free: "\<not> relied_on reqs rel (rq_Finding rq)" and now: "row_decided rs (rq_Finding rq) (rq_Actor rq) ResolutionUnbound"
  shows "decision_inv rs (reqs[i := (rq, Calling False)]) work rel"
proof -
  let ?reqs = "reqs[i := (rq, Calling False)]"
  note inv = decision_invE [OF inv]
  have about: "about ?reqs j = about reqs j" for j using i by (cases "j = i") (auto simp: about_def)
  have who: "fst (?reqs ! j) = fst (reqs ! j)" for j using i by (cases "j = i") auto
  have other: "?reqs ! j = reqs ! j" if "j \<noteq> i" for j using that by simp
  have mine: "about reqs i = rq_Finding rq" using i by (simp add: about_def)
  have apart: "about reqs j \<noteq> rq_Finding rq" if "j < length reqs" "holding (reqs ! j)" for j using free that by (auto simp: relied_on_def)
  show ?thesis
    unfolding decision_inv_def
  proof (intro conjI)
    show "\<forall>j < length ?reqs. \<forall>k < length ?reqs. holding (?reqs ! j) \<longrightarrow> holding (?reqs ! k) \<longrightarrow> about ?reqs j = about ?reqs k \<longrightarrow> j = k"
      unfolding about using inv(6) apart other mine by (metis length_list_update)
    show "\<forall>fid. (fid, False) \<in> set rel \<longrightarrow> (\<exists>a. row_decided rs fid a ResolutionUnbound) \<and> (\<forall>j < length ?reqs. on_call (snd (?reqs ! j)) \<longrightarrow> about ?reqs j \<noteq> fid)"
      unfolding about using inv(7,8) free other mine unfolding relied_on_def by (metis length_list_update)
    show "\<forall>j < length ?reqs. holding (?reqs ! j) \<longrightarrow> row_decided rs (about ?reqs j) (rq_Actor (fst (?reqs ! j))) ResolutionUnbound"
      unfolding about who using inv(5) other mine now i by (metis fst_conv length_list_update)
    show "\<forall>j < length ?reqs. on_call (snd (?reqs ! j)) \<longrightarrow> rq_Resolution (fst (?reqs ! j)) = ResolutionUnbound"
      unfolding who using inv(4) other unbound i by (metis fst_conv length_list_update)
  qed (use inv(1,2,3) in auto)
qed

text \<open>A confirmed release, by the request that reserved the decision or by one that repeats it.\<close>

lemma inv_released:
  assumes inv: "decision_inv rs reqs work rel" and i: "i < length reqs" "reqs ! i = (rq, Calling repair)"
  shows "decision_inv rs (reqs[i := (rq, Finishing repair)]) work (rel @ [(rq_Finding rq, repair)])"
proof -
  let ?reqs = "reqs[i := (rq, Finishing repair)]"
  have call: "\<not> repair \<Longrightarrow> rq_Resolution rq = ResolutionUnbound" using decision_invE(4) [OF inv i(1)] i(2) by simp
  have moved: "decision_inv rs ?reqs work rel" by (rule inv_phase [OF inv i]) (use call in \<open>auto simp: holding_def\<close>)
  have "(\<exists>a. row_decided rs (rq_Finding rq) a ResolutionUnbound) \<and> (\<forall>j < length ?reqs. on_call (snd (?reqs ! j)) \<longrightarrow> about ?reqs j \<noteq> rq_Finding rq)" if "\<not> repair"
  proof -
    have h: "holding (reqs ! i)" "about reqs i = rq_Finding rq" using i call that by (simp_all add: holding_def about_def)
    have "about ?reqs j \<noteq> rq_Finding rq" if "j < length ?reqs" "on_call (snd (?reqs ! j))" for j
    proof -
      have ne: "j \<noteq> i" using that i(1) by (cases "j = i") simp_all
      then have j: "j \<noteq> i" "j < length reqs" "on_call (snd (reqs ! j))" using that by simp_all
      then have "holding (reqs ! j)" using decision_invE(4) [OF inv] by (simp add: holding_def)
      then show ?thesis using decision_invE(6) [OF inv i(1) j(2) h(1)] h(2) j(1) by (auto simp: about_def)
    qed
    then show ?thesis using decision_invE(5) [OF inv i(1) h(1)] h(2) by auto
  qed
  then show ?thesis using moved unfolding decision_inv_def by auto
qed

text \<open>A reservation given up: the request that gives it up was the only one to rely on it.\<close>

lemma inv_drop:
  assumes inv: "decision_inv (sy_findings st) reqs work rel" and i: "i < length reqs" "reqs ! i = (rq, CallFailed e False)"
    and upd: "rows_by (drop_row (rq_Finding rq) (rq_Actor rq) (rq_Resolution rq)) st st'"
  shows "decision_inv (sy_findings st') (reqs[i := (rq, Answered a)]) work rel"
proof -
  let ?reqs = "reqs[i := (rq, Answered a)]"
  have unbound: "rq_Resolution rq = ResolutionUnbound" using decision_invE(4) [OF inv i(1)] i(2) by simp
  have moved: "decision_inv (sy_findings st) ?reqs work rel" by (rule inv_phase [OF inv i]) (auto simp: holding_def)
  have h: "holding (reqs ! i)" "about reqs i = rq_Finding rq" using i unbound by (simp_all add: holding_def about_def)
  have "\<not> relied_on ?reqs rel (rq_Finding rq)"
  proof
    assume "relied_on ?reqs rel (rq_Finding rq)"
    then consider j where "j < length reqs" "holding (?reqs ! j)" "about ?reqs j = rq_Finding rq" | "(rq_Finding rq, False) \<in> set rel" by (auto simp: relied_on_def)
    then show False
    proof cases
      case 1
      then have "j \<noteq> i" using i by (auto simp: holding_def)
      then show False using 1 decision_invE(6) [OF inv i(1) 1(1) h(1)] h(2) by (auto simp: about_def)
    next
      case 2
      then show False using decision_invE(8) [OF inv 2 i(1)] i(2) h(2) by simp
    qed
  qed
  then have kept: "row_decided (sy_findings st') fid b d"
    if d: "row_decided (sy_findings st) fid b d" "d \<noteq> ResolutionUnbound \<or> relied_on ?reqs rel fid" for fid b d
  proof -
    obtain r where r: "row_of fid (sy_findings st) = Some r" "mf_Decision r = Some (b, d)" using d(1) by (auto simp: row_decided_def)
    have "drop_row (rq_Finding rq) (rq_Actor rq) (rq_Resolution rq) r = r"
      using d(2) unbound r(2) row_of_ID [OF r(1)] \<open>\<not> relied_on ?reqs rel (rq_Finding rq)\<close> by (auto simp: drop_row_def)
    then show ?thesis using r unfolding rows_by_decided(1) [OF upd] by (intro exI [of _ r]) simp
  qed
  show ?thesis
  proof (rule inv_rows [OF moved])
    show "distinct (map mf_ID (sy_findings st'))" using decision_invE(1) [OF inv] rows_by_ids [OF upd] by simp
    show "closes_as (sy_findings st') fid d" if "closes_as (sy_findings st) fid d" for fid d
      using that unfolding rows_by_decided(2) [OF upd] by (auto simp: closes_as_def drop_row_def split: if_splits)
  qed (use kept in blast)
qed

text \<open>The end of a transaction: work for a finding nobody had answered, or the end of one that was let go of.\<close>

lemma inv_finished:
  assumes inv: "decision_inv (sy_findings (dw_tables w)) reqs work rel" and i: "i < length reqs" "reqs ! i = (rq, Finishing repair)"
    and tx: "resolve_tx env rq w = (r, w')"
  shows "decision_inv (sy_findings (dw_tables w')) (reqs[i := (rq, Answered (tx_answer rq r))]) (work @ map answer_pair (work_of env rq w w')) rel"
proof -
  let ?reqs = "reqs[i := (rq, Answered (tx_answer rq r))]"
  have moved: "decision_inv (sy_findings (dw_tables w)) ?reqs work rel" by (rule inv_phase [OF inv i]) (auto simp: holding_def)
  from tx decision_invE(1) [OF inv] show ?thesis
  proof (cases rule: resolve_tx_effect)
    case (1 e)
    then show ?thesis using moved by (simp add: work_of_def)
  next
    case (2 f row)
    show ?thesis
    proof (cases "rq_Resolution rq = ResolutionUnbound")
      case True
      then have upd: "rows_by (settle_row (rq_Finding rq) (rq_Actor rq) ResolutionUnbound) (dw_tables w) (dw_tables w')"
        and dec: "mf_Decision row = None \<or> (\<exists>a. mf_Decision row = Some (a, ResolutionUnbound))" using 2(4) by simp_all
      have "decision_inv (sy_findings (dw_tables w')) ?reqs work rel"
      proof (rule inv_rows [OF moved])
        show "distinct (map mf_ID (sy_findings (dw_tables w')))" using decision_invE(1) [OF inv] rows_by_ids [OF upd] by simp
        show "row_decided (sy_findings (dw_tables w')) fid a d" if "row_decided (sy_findings (dw_tables w)) fid a d" for fid a d
          using that unfolding rows_by_decided(1) [OF upd] by (auto simp: row_decided_def settle_row_def)
        show "closes_as (sy_findings (dw_tables w')) fid d"
          if d: "row_decided (sy_findings (dw_tables w)) fid a d" "d \<noteq> ResolutionUnbound" "closes_as (sy_findings (dw_tables w)) fid d" for fid a d
        proof -
          have "fid \<noteq> rq_Finding rq" using d(1,2) dec 2(2) by (auto simp: row_decided_def)
          then show ?thesis using d(3) unfolding rows_by_decided(2) [OF upd] by (auto simp: closes_as_def settle_row_def dest: row_of_ID)
        qed
      qed
      then show ?thesis using True 2(1) resolve_tx_writes(1) [OF tx] by simp
    next
      case False
      then have upd: "rows_by (decide_row (rq_Finding rq) (rq_Actor rq) (rq_Resolution rq) (rq_Reason rq)) (dw_tables w) (dw_tables w')"
        and dec: "mf_Decision row = None" using 2(4) by simp_all
      note d = decide_inv [OF moved upd 2(2,3) dec]
      have "map answer_pair (work_of env rq w w') = [(rq_Finding rq, rq_Resolution rq)]"
        using resolve_tx_writes(2) [OF tx 2(1) False] by (auto simp: work_of_def Let_def split: if_splits)
      then show ?thesis using False d unfolding decision_inv_def by auto
    qed
  qed
qed

lemma req_next_writes: "(\<And>repair. p \<noteq> Finishing repair) \<Longrightarrow> work_of env rq w (snd (req_next env rq p w)) = []"
proof (cases p)
  case (Checked f repair)
  let ?r = "RecordMergeDecision (de_takes env ReserveDecision) (de_takes env ReadReserved) (rq_Finding rq) (rq_Actor rq) ResolutionUnbound (rq_Reason rq) (dw_tables w)"
  obtain x t where r: "?r = (x, t)" by (rule prod.exhaust)
  have "sy_queue t = sy_queue (dw_tables w)" using decision_stmts_keep_queue(1) by (metis r snd_conv)
  then show ?thesis using Checked r by (auto simp: work_of_def split: sum.splits)
qed (auto simp: work_of_def decision_stmts_keep_queue Let_def split: sum.splits prod.splits option.splits)

lemma serve_inv:
  assumes inv: "decision_inv (findings_of s) (dn_requests s) (work_pairs s) (dn_released s)" and i: "i < length (dn_requests s)"
  shows "decision_inv (findings_of (serve env i s)) (dn_requests (serve env i s)) (work_pairs (serve env i s)) (dn_released (serve env i s))"
proof -
  obtain rq p where rp: "dn_requests s ! i = (rq, p)" by (rule prod.exhaust)
  obtain p' w' where n: "req_next env rq p (dn_world s) = (p', w')" by (rule prod.exhaust)
  have s': "serve env i s = \<lparr>dn_world = w', dn_requests = (dn_requests s)[i := (rq, p')], dn_work = dn_work s @ work_of env rq (dn_world s) w', dn_released = dn_released s @ released_of rq p p'\<rparr>"
    by (simp add: serve_def rp n)
  note phase = inv_phase [OF inv i rp]
  have idle: "work_of env rq (dn_world s) w' = []" if "\<And>repair. p \<noteq> Finishing repair" using req_next_writes [OF that] n by (metis snd_conv)
  show ?thesis
  proof (cases p)
    case Arrived
    have "w' = dn_world s \<and> \<not> on_call p' \<and> \<not> holding (rq, p')" using n Arrived by (auto simp: holding_def split: sum.splits)
    then show ?thesis using phase [of p'] Arrived by (simp add: s' idle released_of_def)
  next
    case (Checked f repair)
    show ?thesis
    proof (cases "rq_Resolution rq = ResolutionUnbound \<and> \<not> repair")
      case True
      let ?r = "RecordMergeDecision (de_takes env ReserveDecision) (de_takes env ReadReserved) (rq_Finding rq) (rq_Actor rq) (rq_Resolution rq) (rq_Reason rq) (dw_tables (dn_world s))"
      show ?thesis
      proof (cases "fst ?r")
        case (Inl e)
        then have "p' = Answered (Refused e) \<and> w' = dn_world s" using n Checked True by (auto split: prod.splits)
        then show ?thesis using phase [of p'] Checked by (simp add: s' idle released_of_def holding_def)
      next
        case (Inr x)
        then obtain t where t: "?r = (Inr x, t)" by (metis prod.collapse)
        then have m: "p' = Calling False" "w' = (dn_world s)\<lparr>dw_tables := t\<rparr>" using n Checked True by auto
        from t decision_invE(1) [OF inv] obtain r where r: "row_of (rq_Finding rq) (findings_of s) = Some r" "mf_Resolved r = None" "mf_Decision r = None"
            "rows_by (decide_row (rq_Finding rq) (rq_Actor rq) (rq_Resolution rq) (rq_Reason rq)) (dw_tables (dn_world s)) t" by (rule RecordMergeDecision_effect)
        note d = decide_inv [OF inv r(4) r(1-3)]
        have at: "dn_requests s ! i = (rq, Checked f False)" using rp Checked True by simp
        have "decision_inv (sy_findings t) ((dn_requests s)[i := (rq, Calling False)]) (work_pairs s) (dn_released s)"
          by (rule inv_reserve [OF d(1) i at]) (use True d(2,4) in simp_all)
        then show ?thesis using m Checked idle by (simp add: s' released_of_def)
      qed
    next
      case False
      then have "w' = dn_world s \<and> \<not> on_call p' \<and> \<not> holding (rq, p')" using n Checked by (auto simp: holding_def split: if_splits)
      then show ?thesis using phase [of p'] Checked by (simp add: s' idle released_of_def)
    qed
  next
    case (Calling repair)
    show ?thesis
    proof (cases "de_release env")
      case None
      then have m: "p' = Finishing repair" "w' = dn_world s" using n Calling by auto
      then show ?thesis using Calling inv_released [OF inv i, of rq repair] rp by (simp add: s' m idle released_of_def)
    next
      case (Some e)
      then have "p' = CallFailed e repair" "w' = dn_world s" using n Calling by auto
      then show ?thesis using phase [of p'] Calling by (simp add: s' idle released_of_def holding_def)
    qed
  next
    case (CallFailed e repair)
    then have m: "p' = Answered (Refused e)" using n by auto
    show ?thesis
    proof (cases "repair \<or> \<not> de_takes env DropDecision")
      case True
      then have "w' = dn_world s" using n CallFailed by (auto simp: ReleaseMergeDecision_def)
      then show ?thesis using phase [of p'] CallFailed m by (simp add: s' idle released_of_def holding_def)
    next
      case False
      then have w: "w' = (dn_world s)\<lparr>dw_tables := ReleaseMergeDecision True (rq_Finding rq) (rq_Actor rq) (rq_Resolution rq) (dw_tables (dn_world s))\<rparr>"
        and at: "dn_requests s ! i = (rq, CallFailed e False)" using n CallFailed rp by auto
      have "rows_by (drop_row (rq_Finding rq) (rq_Actor rq) (rq_Resolution rq)) (dw_tables (dn_world s)) (dw_tables w')"
        using ReleaseMergeDecision_effect [of True] by (simp add: w)
      then show ?thesis using inv_drop [OF inv i at] CallFailed m by (simp add: s' idle released_of_def)
    qed
  next
    case (Finishing repair)
    obtain r where r: "resolve_tx env rq (dn_world s) = (r, w')" "p' = Answered (tx_answer rq r)" using n Finishing by (auto split: prod.splits)
    have at: "dn_requests s ! i = (rq, Finishing repair)" using rp Finishing by simp
    show ?thesis using inv_finished [OF inv i at r(1)] r(2) Finishing by (simp add: s' released_of_def)
  next
    case (Answered a)
    then have "p' = Answered a" "w' = dn_world s" using n by auto
    then show ?thesis using phase [of p'] Answered by (simp add: s' idle released_of_def holding_def)
  qed
qed

lemma raised_cases:
  assumes "RecordMergeFinding takes fid target f st = (ok, st')"
  obtains g where "rows_by g st st'" "\<And>r. mf_Decision (g r) = mf_Decision r" "\<And>r. mf_Resolved (g r) = mf_Resolved r"
      "\<And>r. mf_Target (g r) = mf_Target r" "\<And>r. mf_SubjectID (g r) = mf_SubjectID r" "\<And>r. mf_Field (g r) = mf_Field r"
  | new where "sy_findings st' = sy_findings st @ [new]" "mf_ID new = fid"
proof -
  let ?g = "\<lambda>r. if standing target (sf_SubjectID f) (sf_Field f) r
     then r\<lparr>mf_Outcome := sf_Outcome f, mf_Base := sf_Base f, mf_Ours := sf_Ours f, mf_Theirs := sf_Theirs f\<rparr> else r"
  have "st' = st \<or> rows_by ?g st st' \<or> (\<exists>new. sy_findings st' = sy_findings st @ [new] \<and> mf_ID new = fid)"
    using assms by (auto simp: RecordMergeFinding_def rows_by_def split: if_splits)
  then consider "st' = st" | "rows_by ?g st st'" | new where "sy_findings st' = sy_findings st @ [new]" "mf_ID new = fid" by blast
  then show thesis
  proof cases
    case 1
    then show ?thesis using that(1) [OF rows_by_same] by simp
  next
    case 2
    then show ?thesis by (rule that(1)) simp_all
  next
    case 3
    then show ?thesis by (rule that(2))
  qed
qed

lemma decision_step_inv:
  assumes "decision_step s s'" "decision_inv (findings_of s) (dn_requests s) (work_pairs s) (dn_released s)"
  shows "decision_inv (findings_of s') (dn_requests s') (work_pairs s') (dn_released s')"
  using assms
proof cases
  case (ask rq)
  then show ?thesis using inv_ask [OF assms(2)] by simp
next
  case (go_on i env)
  then show ?thesis using serve_inv [OF assms(2)] by simp
next
  case (raise takes fid target f ok t)
  from raise(2) have "decision_inv (sy_findings t) (dn_requests s) (work_pairs s) (dn_released s)"
  proof (cases rule: raised_cases)
    case (1 g)
    show ?thesis by (rule inv_rows_by [OF assms(2) 1(1)]) (simp_all add: 1)
  next
    case (2 new)
    have old: "row_of x (sy_findings t) = row_of x (findings_of s)" if "row_of x (findings_of s) \<noteq> None" for x
      using that by (auto simp: 2(1) row_of_append split: option.splits)
    show ?thesis
    proof (rule inv_rows [OF assms(2)])
      show "distinct (map mf_ID (sy_findings t))" using decision_invE(1) [OF assms(2)] 2 raise(3) by auto
      show "row_decided (sy_findings t) x a d" if "row_decided (findings_of s) x a d" for x a d using that old [of x] by (auto simp: row_decided_def)
      show "closes_as (sy_findings t) x d" if "row_decided (findings_of s) x a d" "closes_as (findings_of s) x d" for x a d
        using that old [of x] by (auto simp: row_decided_def closes_as_def)
    qed
  qed
  then show ?thesis using raise(1) by (simp add: with_tables_def)
next
  case (settled takes target sid field actor ok t)
  let ?g = "\<lambda>r. if takes \<and> standing target sid field r
     then r\<lparr>mf_Resolved := Some (case mf_Decision r of None \<Rightarrow> (actor, ResolutionAgreed) | Some (who, what) \<Rightarrow> (if who = [] then actor else who, what))\<rparr> else r"
  have upd: "rows_by ?g (dw_tables (dn_world s)) t" using settled(2) by (auto simp: ClearMergeFinding_def rows_by_def split: if_splits)
  have "decision_inv (sy_findings t) (dn_requests s) (work_pairs s) (dn_released s)"
    by (rule inv_rows_by [OF assms(2) upd]) (auto split: if_splits)
  then show ?thesis using settled(1) by (simp add: with_tables_def)
next
  case (elsewhere t rows)
  then show ?thesis using assms(2) by simp
qed

text \<open>An answer other than letting go stays with its finding, and with the person, target and field it is about.\<close>

definition same_answer :: "MergeFinding \<Rightarrow> MergeFinding \<Rightarrow> bool" where
  "same_answer r r' \<longleftrightarrow> mf_Decision r' = mf_Decision r \<and> mf_Target r' = mf_Target r \<and> mf_SubjectID r' = mf_SubjectID r \<and> mf_Field r' = mf_Field r"

definition answers_kept :: "MergeFinding list \<Rightarrow> MergeFinding list \<Rightarrow> bool" where
  "answers_kept rs rs' \<longleftrightarrow> (\<forall>fid r a d. row_of fid rs = Some r \<longrightarrow> mf_Decision r = Some (a, d) \<longrightarrow> d \<noteq> ResolutionUnbound \<longrightarrow>
     (\<exists>r'. row_of fid rs' = Some r' \<and> same_answer r r'))"

lemma answers_kept_refl: "answers_kept rs rs"
  by (simp add: answers_kept_def same_answer_def)

lemma answers_kept_rows:
  assumes "rows_by g st st'" "\<And>r a d. row_of (mf_ID r) (sy_findings st) = Some r \<Longrightarrow> mf_Decision r = Some (a, d) \<Longrightarrow> d \<noteq> ResolutionUnbound \<Longrightarrow> same_answer r (g r)"
  shows "answers_kept (sy_findings st) (sy_findings st')"
  using assms(2) row_of_ID by (fastforce simp: answers_kept_def rows_by_row [OF assms(1)])

lemma req_next_answers:
  assumes "req_next env rq p w = (p', w')" "distinct (map mf_ID (sy_findings (dw_tables w)))" "on_call p \<Longrightarrow> rq_Resolution rq = ResolutionUnbound"
  shows "answers_kept (sy_findings (dw_tables w)) (sy_findings (dw_tables w'))"
proof -
  have decided: "answers_kept (sy_findings st) (sy_findings st')"
    if "rows_by (decide_row fid actor d reason) st st'" "row_of fid (sy_findings st) = Some r" "mf_Decision r = None" for fid actor d reason st st' r
    by (rule answers_kept_rows [OF that(1)]) (use that(2,3) in \<open>auto simp: decide_row_def same_answer_def\<close>)
  have other: "answers_kept (sy_findings (dw_tables w)) (sy_findings (dw_tables w'))" if "w' = w" using that by (simp add: answers_kept_refl)
  show ?thesis
  proof (cases p)
    case (Checked f repair)
    obtain x t where r: "RecordMergeDecision (de_takes env ReserveDecision) (de_takes env ReadReserved)
        (rq_Finding rq) (rq_Actor rq) (rq_Resolution rq) (rq_Reason rq) (dw_tables w) = (x, t)" by (rule prod.exhaust)
    show ?thesis
    proof (cases "w' = w")
      case False
      then obtain y where "x = Inr y" "w' = w\<lparr>dw_tables := t\<rparr>" using assms(1) Checked r by (cases x) (auto split: if_splits)
      from r [unfolded this(1)] assms(2) show ?thesis by (rule RecordMergeDecision_effect) (use decided \<open>w' = _\<close> in auto)
    qed (rule other)
  next
    case (CallFailed e repair)
    then consider "w' = w" | "w' = w\<lparr>dw_tables := ReleaseMergeDecision (de_takes env DropDecision) (rq_Finding rq) (rq_Actor rq) (rq_Resolution rq) (dw_tables w)\<rparr>"
        "rq_Resolution rq = ResolutionUnbound" "de_takes env DropDecision"
      using assms(1,3) by (auto simp: ReleaseMergeDecision_def split: if_splits)
    then show ?thesis
    proof cases
      case 2
      then have "rows_by (drop_row (rq_Finding rq) (rq_Actor rq) ResolutionUnbound) (dw_tables w) (dw_tables w')"
        using ReleaseMergeDecision_effect [of True] by simp
      then show ?thesis by (rule answers_kept_rows) (auto simp: drop_row_def same_answer_def)
    qed (rule other)
  next
    case (Finishing repair)
    then obtain r where "resolve_tx env rq w = (r, w')" using assms(1) by (auto split: prod.splits)
    from this assms(2) show ?thesis
    proof (cases rule: resolve_tx_effect)
      case (2 f row)
      show ?thesis
      proof (cases "rq_Resolution rq = ResolutionUnbound")
        case True
        then have "rows_by (settle_row (rq_Finding rq) (rq_Actor rq) ResolutionUnbound) (dw_tables w) (dw_tables w')" using 2(4) by simp
        then show ?thesis by (rule answers_kept_rows) (simp add: settle_row_def same_answer_def)
      next
        case False
        then have "rows_by (decide_row (rq_Finding rq) (rq_Actor rq) (rq_Resolution rq) (rq_Reason rq)) (dw_tables w) (dw_tables w')" "mf_Decision row = None"
          using 2(4) by simp_all
        then show ?thesis using decided 2(2) by blast
      qed
    qed (rule other)
  qed (use assms(1) other in \<open>auto split: sum.splits option.splits\<close>)
qed

lemma decision_step_answers:
  assumes "decision_step s s'" "decision_inv (findings_of s) (dn_requests s) (work_pairs s) (dn_released s)"
  shows "answers_kept (findings_of s) (findings_of s')"
  using assms
proof cases
  case (go_on i env)
  obtain rq p where rp: "dn_requests s ! i = (rq, p)" by (rule prod.exhaust)
  obtain p' w' where n: "req_next env rq p (dn_world s) = (p', w')" by (rule prod.exhaust)
  have "on_call p \<Longrightarrow> rq_Resolution rq = ResolutionUnbound" using decision_invE(4) [OF assms(2) go_on(2)] rp by simp
  from req_next_answers [OF n decision_invE(1) [OF assms(2)] this] show ?thesis by (simp add: go_on serve_def rp n)
next
  case (raise takes fid target f ok t)
  from raise(2) have "answers_kept (findings_of s) (sy_findings t)"
  proof (cases rule: raised_cases)
    case (1 g)
    then show ?thesis by (auto intro!: answers_kept_rows simp: same_answer_def)
  next
    case (2 new)
    then show ?thesis by (auto simp: answers_kept_def row_of_append same_answer_def)
  qed
  then show ?thesis using raise(1) by (simp add: with_tables_def)
next
  case (settled takes target sid field actor ok t)
  let ?g = "\<lambda>r. if takes \<and> standing target sid field r
     then r\<lparr>mf_Resolved := Some (case mf_Decision r of None \<Rightarrow> (actor, ResolutionAgreed) | Some (who, what) \<Rightarrow> (if who = [] then actor else who, what))\<rparr> else r"
  have "rows_by ?g (dw_tables (dn_world s)) t" using settled(2) by (auto simp: ClearMergeFinding_def rows_by_def split: if_splits)
  then have "answers_kept (findings_of s) (sy_findings t)" by (rule answers_kept_rows) (simp add: same_answer_def)
  then show ?thesis using settled(1) by (simp add: with_tables_def)
qed (simp_all add: answers_kept_refl)

text \<open>Every entry of the history is the one row its answer calls for, on the finding that keeps that answer; and whoever was told it was done has an entry.\<close>

definition work_inv :: "decision_state \<Rightarrow> bool" where
  "work_inv s \<longleftrightarrow>
     (\<forall>e \<in> set (dn_work s). wk_Resolution e \<noteq> ResolutionUnbound \<and>
        (\<exists>r. row_of (wk_Finding e) (findings_of s) = Some r \<and> mf_Decision r = Some (wk_Actor e, wk_Resolution e) \<and> worked e r)) \<and>
     (\<forall>rq f. (rq, Answered (ResolveDone False f)) \<in> set (dn_requests s) \<longrightarrow>
        (\<exists>e \<in> set (dn_work s). wk_Finding e = rq_Finding rq \<and> wk_Actor e = rq_Actor rq \<and> wk_Resolution e = rq_Resolution rq))"

lemma worked_same: "same_answer r r' \<Longrightarrow> worked e r \<Longrightarrow> worked e r'"
  by (simp add: same_answer_def worked_def one_hold_def one_convergence_def)

lemma work_inv_kept:
  assumes "work_inv s" "answers_kept (findings_of s) (findings_of s')" "e \<in> set (dn_work s)"
  shows "wk_Resolution e \<noteq> ResolutionUnbound \<and>
    (\<exists>r. row_of (wk_Finding e) (findings_of s') = Some r \<and> mf_Decision r = Some (wk_Actor e, wk_Resolution e) \<and> worked e r)"
proof -
  obtain r where r: "wk_Resolution e \<noteq> ResolutionUnbound" "row_of (wk_Finding e) (findings_of s) = Some r"
      "mf_Decision r = Some (wk_Actor e, wk_Resolution e)" "worked e r" using assms(1,3) unfolding work_inv_def by blast
  then obtain r' where r': "row_of (wk_Finding e) (findings_of s') = Some r'" "same_answer r r'" using assms(2) unfolding answers_kept_def by blast
  then have "mf_Decision r' = Some (wk_Actor e, wk_Resolution e)" using r(3) by (simp add: same_answer_def)
  then show ?thesis using r(1,4) r' worked_same by blast
qed

lemma serve_work:
  assumes inv: "decision_inv (findings_of s) (dn_requests s) (work_pairs s) (dn_released s)" and i: "i < length (dn_requests s)" and w: "work_inv s"
  shows "work_inv (serve env i s)"
proof -
  obtain rq p where rp: "dn_requests s ! i = (rq, p)" by (rule prod.exhaust)
  obtain p' w' where n: "req_next env rq p (dn_world s) = (p', w')" by (rule prod.exhaust)
  let ?new = "work_of env rq (dn_world s) w'"
  have s': "dn_world (serve env i s) = w'" "dn_requests (serve env i s) = (dn_requests s)[i := (rq, p')]" "dn_work (serve env i s) = dn_work s @ ?new"
    by (simp_all add: serve_def rp n)
  note old = work_inv_kept [OF w decision_step_answers [OF go_on [OF i] inv]]
  have new: "(\<forall>e \<in> set ?new. wk_Resolution e \<noteq> ResolutionUnbound \<and>
        (\<exists>r. row_of (wk_Finding e) (sy_findings (dw_tables w')) = Some r \<and> mf_Decision r = Some (wk_Actor e, wk_Resolution e) \<and> worked e r)) \<and>
      (\<forall>f. p' = Answered (ResolveDone False f) \<longrightarrow> p = p' \<or>
        (\<exists>e \<in> set ?new. wk_Finding e = rq_Finding rq \<and> wk_Actor e = rq_Actor rq \<and> wk_Resolution e = rq_Resolution rq))"
  proof (cases "\<exists>repair. p = Finishing repair")
    case False
    have "p' = Answered (ResolveDone False f) \<Longrightarrow> p = p'" for f using n False by (cases p) (auto split: sum.splits prod.splits option.splits if_splits)
    then show ?thesis using req_next_writes [of p env rq "dn_world s"] False n by auto
  next
    case True
    then obtain r where tx: "resolve_tx env rq (dn_world s) = (r, w')" and p': "p' = Answered (tx_answer rq r)" using n by (auto split: prod.splits)
    from tx decision_invE(1) [OF inv] show ?thesis
    proof (cases rule: resolve_tx_effect)
      case (1 e)
      then show ?thesis using p' by (simp add: work_of_def tx_answer_def)
    next
      case (2 f row)
      show ?thesis
      proof (cases "rq_Resolution rq = ResolutionUnbound")
        case True
        then show ?thesis using p' 2(1) resolve_tx_writes(1) [OF tx] by (simp add: tx_answer_def)
      next
        case False
        from resolve_tx_writes(2) [OF tx 2(1) False] obtain e cur where e: "GetStandingMergeFinding True (rq_Finding rq) (dw_tables (dn_world s)) = Some cur"
            "?new = [e]" "worked e cur" by blast
        have cur: "cur = row" using e(1) standing_row [OF decision_invE(1) [OF inv]] 2(2) by simp
        have names: "wk_Finding e = rq_Finding rq" "wk_Actor e = rq_Actor rq" "wk_Resolution e = rq_Resolution rq"
          using e(2) by (auto simp: work_of_def Let_def split: if_splits)
        let ?row = "decide_row (rq_Finding rq) (rq_Actor rq) (rq_Resolution rq) (rq_Reason rq) row"
        have "row_of (rq_Finding rq) (sy_findings (dw_tables w')) = Some ?row" using 2(2,4) False rows_by_row by fastforce
        moreover have "mf_Decision ?row = Some (rq_Actor rq, rq_Resolution rq)" "worked e ?row"
          using 2(2,3,4) False row_of_ID [OF 2(2)] e(3) cur by (auto simp: decide_row_def worked_def one_hold_def one_convergence_def)
        ultimately show ?thesis using e(2) names False by auto
      qed
    qed
  qed
  have at: "(x, Answered (ResolveDone False f)) \<in> set (dn_requests s) \<or> (x = rq \<and> p' = Answered (ResolveDone False f))"
    if "(x, Answered (ResolveDone False f)) \<in> set ((dn_requests s)[i := (rq, p')])" for x f
    using that set_update_subset_insert [of "dn_requests s" i "(rq, p')"] by auto
  have mine: "(rq, p) \<in> set (dn_requests s)" using rp i nth_mem by metis
  show ?thesis
    unfolding work_inv_def s'
  proof (intro conjI allI impI ballI)
    fix e assume "e \<in> set (dn_work s @ ?new)"
    then show "wk_Resolution e \<noteq> ResolutionUnbound" "\<exists>r. row_of (wk_Finding e) (sy_findings (dw_tables w')) = Some r \<and> mf_Decision r = Some (wk_Actor e, wk_Resolution e) \<and> worked e r"
      using old new s'(1) by auto
  next
    fix x f assume "(x, Answered (ResolveDone False f)) \<in> set ((dn_requests s)[i := (rq, p')])"
    then consider "(x, Answered (ResolveDone False f)) \<in> set (dn_requests s)" | "x = rq" "p' = Answered (ResolveDone False f)" "p \<noteq> p'"
      using at [of x f] mine by blast
    then show "\<exists>e \<in> set (dn_work s @ ?new). wk_Finding e = rq_Finding x \<and> wk_Actor e = rq_Actor x \<and> wk_Resolution e = rq_Resolution x"
    proof cases
      case 1
      then show ?thesis using w unfolding work_inv_def by (metis Un_iff set_append)
    next
      case 2
      then show ?thesis using new by (metis Un_iff set_append)
    qed
  qed
qed

lemma decision_step_work:
  assumes "decision_step s s'" "decision_inv (findings_of s) (dn_requests s) (work_pairs s) (dn_released s)" "work_inv s"
  shows "work_inv s'"
  using assms(1)
proof cases
  case (go_on i env)
  then show ?thesis using serve_work [OF assms(2) _ assms(3)] by simp
qed (use work_inv_kept [OF assms(3) decision_step_answers [OF assms(1,2)]] assms(3) in \<open>auto simp: work_inv_def with_tables_def\<close>)

text \<open>
  C5. A finding is answered once. However requests to resolve findings, each stopped between any two of its calls, interleave with
  one another, with sweeps that raise, refresh and close findings, and with any other writer of the tables, and
  whichever statements fail: for a finding at most one step of all the requests changes the queue or the holds, and what it writes is one
  waiting convergence of the finding's person on its target, to the state they resolve to, or one hold of theirs on the finding's field, in the name of who answered,
  as the answer calls for; letting go of an account writes neither, nor does a transaction that fails. The finding keeps that answer and its
  author and, when it is closed, is closed under that answer; a request other than to let go that was told it was done has written such a row; and when the add-on confirmed a release to
  the request that reserved the decision, no request ever writes a row for that finding.
\<close>

theorem finding_answered_once:
  assumes start: "no_requests s0" and run: "decision_step\<^sup>*\<^sup>* s0 s"
  shows "distinct (map wk_Finding (dn_work s)) \<and>
     (\<forall>e \<in> set (dn_work s). wk_Resolution e \<noteq> ResolutionUnbound \<and>
        (\<exists>r \<in> set (findings_of s). mf_ID r = wk_Finding e \<and> mf_Decision r = Some (wk_Actor e, wk_Resolution e) \<and>
           (case mf_Resolved r of None \<Rightarrow> True | Some (_, what) \<Rightarrow> what = wk_Resolution e) \<and> worked e r)) \<and>
     (\<forall>rq f. (rq, Answered (ResolveDone False f)) \<in> set (dn_requests s) \<longrightarrow>
        (\<exists>e \<in> set (dn_work s). wk_Finding e = rq_Finding rq \<and> wk_Actor e = rq_Actor rq \<and> wk_Resolution e = rq_Resolution rq)) \<and>
     (\<forall>fid. (fid, False) \<in> set (dn_released s) \<longrightarrow> fid \<notin> wk_Finding ` set (dn_work s))"
proof -
  have inv: "decision_inv (findings_of s) (dn_requests s) (work_pairs s) (dn_released s) \<and> work_inv s"
    using run
  proof induction
    case base
    then show ?case using start by (simp add: no_requests_def decision_inv_def work_inv_def)
  next
    case (step s s')
    then show ?case using decision_step_inv decision_step_work by blast
  qed
  then have w: "work_inv s" by simp
  note d = decision_invE [OF conjunct1 [OF inv]]
  have pair: "(wk_Finding e, wk_Resolution e) \<in> set (work_pairs s)" if "e \<in> set (dn_work s)" for e using that by auto
  have "\<exists>r \<in> set (findings_of s). mf_ID r = wk_Finding e \<and> mf_Decision r = Some (wk_Actor e, wk_Resolution e) \<and>
      (case mf_Resolved r of None \<Rightarrow> True | Some (_, what) \<Rightarrow> what = wk_Resolution e) \<and> worked e r" if e: "e \<in> set (dn_work s)" for e
  proof -
    obtain r where r: "row_of (wk_Finding e) (findings_of s) = Some r" "mf_Decision r = Some (wk_Actor e, wk_Resolution e)" "worked e r"
      using w e unfolding work_inv_def by blast
    moreover have "r \<in> set (findings_of s)" using r(1) by (auto simp: row_of_def find_Some_iff)
    moreover have "case mf_Resolved r of None \<Rightarrow> True | Some (_, what) \<Rightarrow> what = wk_Resolution e"
      using d(3) [OF pair [OF e]] r(1) by (auto simp: closes_as_def split: option.splits)
    ultimately show ?thesis using row_of_ID by blast
  qed
  moreover have "fid \<notin> wk_Finding ` set (dn_work s)" if "(fid, False) \<in> set (dn_released s)" for fid
  proof
    assume "fid \<in> wk_Finding ` set (dn_work s)"
    then obtain e where "e \<in> set (dn_work s)" "wk_Finding e = fid" by blast
    then have "wk_Resolution e \<noteq> ResolutionUnbound" "\<exists>a. row_decided (findings_of s) fid a (wk_Resolution e)" using d(3) [OF pair] by auto
    then show False using d(7) [OF that] decided_unique by blast
  qed
  moreover have "distinct (map wk_Finding (dn_work s))" using d(2) by (simp add: comp_def)
  ultimately show ?thesis using w unfolding work_inv_def by blast
qed

section \<open>A finding about an account that is gone\<close>

definition gone_rows :: "MergeFinding list" where
  "gone_rows = [\<lparr>mf_ID = ''f1'', mf_Target = ''nas'', mf_SubjectID = ''cyd'', mf_Field = [], mf_Outcome = DeletedUpstream, mf_Base = RawEmpty, mf_Ours = RawEmpty,
     mf_Theirs = RawEmpty, mf_Decision = None, mf_Reason = None, mf_Resolved = None\<rparr>]"

definition gone_start :: decision_state where
  "gone_start = \<lparr>dn_world = \<lparr>dw_tables = office_tables\<lparr>sy_findings := gone_rows\<rparr>, dw_allowances = []\<rparr>, dn_requests = [], dn_work = [], dn_released = []\<rparr>"

definition gone_request :: "string \<Rightarrow> string \<Rightarrow> resolve_request" where
  "gone_request actor resolution = \<lparr>rq_Finding = ''f1'', rq_Actor = actor, rq_Resolution = resolution, rq_Reason = ''seen'', rq_ExpiresAt = None, rq_ReviewDate = None\<rparr>"

definition gone_env :: "resolve_error option \<Rightarrow> decision_env" where
  "gone_env answer = \<lparr>de_takes = (\<lambda>_. True), de_now = 5, de_id = ''h1'', de_resolve = (\<lambda>_ _. Inr office_wants), de_release = answer\<rparr>"

definition gone_asked :: "(string \<times> string) list \<Rightarrow> decision_state" where
  "gone_asked asks = gone_start\<lparr>dn_requests := map (\<lambda>(actor, resolution). (gone_request actor resolution, Arrived)) asks\<rparr>"

definition served :: "(resolve_error option \<times> nat) list \<Rightarrow> decision_state \<Rightarrow> decision_state" where
  "served script s = fold (\<lambda>(answer, i). serve (gone_env answer) i) script s"

lemma asked_steps: "decision_step\<^sup>*\<^sup>* gone_start (gone_asked asks)"
proof (induction asks rule: rev_induct)
  case Nil
  show ?case by (simp add: gone_asked_def gone_start_def)
next
  case (snoc x asks)
  obtain actor resolution where x: "x = (actor, resolution)" by (rule prod.exhaust)
  have "decision_step (gone_asked asks) (gone_asked (asks @ [x]))"
    using ask [of "gone_asked asks" "gone_request actor resolution"] by (simp add: gone_asked_def x)
  then show ?case using snoc by simp
qed

lemma served_steps: "(\<forall>(answer, i) \<in> set script. i < length (dn_requests s)) \<Longrightarrow> decision_step\<^sup>*\<^sup>* s (served script s)"
proof (induction script arbitrary: s)
  case (Cons x script)
  obtain answer i where x: "x = (answer, i)" by (rule prod.exhaust)
  let ?s = "serve (gone_env answer) i s"
  have len: "length (dn_requests ?s) = length (dn_requests s)" by (simp add: serve_def Let_def split: prod.splits)
  have "decision_step s ?s" using Cons.prems x by (intro go_on) auto
  moreover have "decision_step\<^sup>*\<^sup>* ?s (served script ?s)" using Cons.prems len by (intro Cons.IH) auto
  ultimately show ?case by (simp add: served_def x)
qed (simp add: served_def)

text \<open>One operator asks for the account again, a second to let go of it while the first is still being served: the second is refused.\<close>

theorem finding_answered_once_witness:
  "\<exists>s e. decision_step\<^sup>*\<^sup>* gone_start s \<and> dn_work s = [e] \<and> wk_Finding e = ''f1'' \<and> wk_Resolution e = ResolutionReprovisioned \<and> wk_Actor e = ''op1'' \<and>
     (\<exists>r c. r \<in> set (findings_of s) \<and> mf_ID r = ''f1'' \<and> mf_Decision r = Some (''op1'', ResolutionReprovisioned) \<and>
        sy_queue (dw_tables (dn_world s)) = [c] \<and> cv_SubjectID c = mf_SubjectID r) \<and>
     (case snd (dn_requests s ! 1) of Answered (Refused _) \<Rightarrow> True | _ \<Rightarrow> False)"
proof -
  let ?script = "[(None, 0), (None, 1), (None, 0), (None, 0), (None, 1 :: nat)]" and ?asks = "[(''op1'', ResolutionReprovisioned), (''op2'', ResolutionUnbound)]"
  let ?s = "served ?script (gone_asked ?asks)"
  have "decision_step\<^sup>*\<^sup>* (gone_asked ?asks) ?s" by (rule served_steps) (simp add: gone_asked_def)
  then have run: "decision_step\<^sup>*\<^sup>* gone_start ?s" using asked_steps by (rule rtranclp_trans [rotated])
  have start: "no_requests gone_start" by (simp add: no_requests_def gone_start_def office_tables_def gone_rows_def)
  have work: "map (\<lambda>e. (wk_Finding e, wk_Actor e, wk_Resolution e, fst (wk_Queue e))) (dn_work ?s) = [(''f1'', ''op1'', ResolutionReprovisioned, [])]" by code_simp
  have last: "map (\<lambda>e. snd (wk_Queue e)) (dn_work ?s) = [sy_queue (dw_tables (dn_world ?s))]" by code_simp
  have second: "case snd (dn_requests ?s ! 1) of Answered (Refused _) \<Rightarrow> True | _ \<Rightarrow> False" by code_simp
  obtain s where "s = ?s" by blast
  then have s: "decision_step\<^sup>*\<^sup>* gone_start s" "map (\<lambda>e. (wk_Finding e, wk_Actor e, wk_Resolution e, fst (wk_Queue e))) (dn_work s) = [(''f1'', ''op1'', ResolutionReprovisioned, [])]"
      "map (\<lambda>e. snd (wk_Queue e)) (dn_work s) = [sy_queue (dw_tables (dn_world s))]" "case snd (dn_requests s ! 1) of Answered (Refused _) \<Rightarrow> True | _ \<Rightarrow> False"
    using run work last second by simp_all
  obtain e where e: "dn_work s = [e]" "wk_Finding e = ''f1''" "wk_Actor e = ''op1''" "wk_Resolution e = ResolutionReprovisioned" "fst (wk_Queue e) = []"
      "snd (wk_Queue e) = sy_queue (dw_tables (dn_world s))" using s(2,3) by (cases "dn_work s") auto
  have "e \<in> set (dn_work s)" using e(1) by simp
  then have "\<exists>r \<in> set (findings_of s). mf_ID r = wk_Finding e \<and> mf_Decision r = Some (wk_Actor e, wk_Resolution e) \<and>
      (case mf_Resolved r of None \<Rightarrow> True | Some (_, what) \<Rightarrow> what = wk_Resolution e) \<and> worked e r" using finding_answered_once [OF start s(1)] by blast
  then obtain r where "r \<in> set (findings_of s)" "mf_ID r = ''f1''" "mf_Decision r = Some (''op1'', ResolutionReprovisioned)" "worked e r"
    using e(2-4) by auto
  moreover from this(4) e obtain c where "sy_queue (dw_tables (dn_world s)) = [c]" "cv_SubjectID c = mf_SubjectID r"
    by (auto simp: worked_def one_convergence_def ResolutionReprovisioned_def ResolutionTakeTheirs_def)
  ultimately show ?thesis using s(1,4) e(1-4) by blast
qed

text \<open>
  The last clause is only about the request that reserved the decision. One that repeats it may be confirmed while the first one's call
  fails and takes the reservation back; a third may then ask for the account again, and its convergence is queued for an account the add-on has let go of.
\<close>

lemma repair_race:
  "\<exists>s. decision_step\<^sup>*\<^sup>* gone_start s \<and> (''f1'', True) \<in> set (dn_released s) \<and> work_pairs s = [(''f1'', ResolutionReprovisioned)] \<and>
     map cv_SubjectID (sy_queue (dw_tables (dn_world s))) = [''cyd'']"
proof -
  let ?no = "Some ErrReleaseNotConfirmed"
  let ?script = "[(None, 0), (None, 0), (None, 1), (None, 1), (None, 1), (?no, 0), (None, 0), (None, 2), (None, 2), (None, 2), (None, 1 :: nat)]"
  let ?asks = "[(''op1'', ResolutionUnbound), (''op2'', ResolutionUnbound), (''op3'', ResolutionReprovisioned)]"
  let ?s = "served ?script (gone_asked ?asks)"
  have "decision_step\<^sup>*\<^sup>* (gone_asked ?asks) ?s" by (rule served_steps) (simp add: gone_asked_def)
  then have "decision_step\<^sup>*\<^sup>* gone_start ?s" using asked_steps by (rule rtranclp_trans [rotated])
  moreover have "list_ex (\<lambda>x. x = (''f1'', True)) (dn_released ?s)" "work_pairs ?s = [(''f1'', ResolutionReprovisioned)]"
    "map cv_SubjectID (sy_queue (dw_tables (dn_world ?s))) = [''cyd'']" by code_simp+
  ultimately show ?thesis by (intro exI [of _ ?s]) (auto simp: list_ex_iff)
qed

section \<open>Taking the target's value\<close>

text \<open>A request to take the target's value that was answered well, by its parts.\<close>

lemma taken_parts:
  assumes "handleResolveMergeFinding env rq w = (ResolveDone settled f', w')" "rq_Resolution rq = ResolutionTakeTheirs"
    "GetStandingMergeFinding True (rq_Finding rq) (dw_tables w) = Some f"
  obtains rows t r where "\<not> settled" "adoptTargetValue env rq f (dw_allowances w) = (None, rows)" "w' = \<lparr>dw_tables = t, dw_allowances = rows\<rparr>"
    "find (\<lambda>r. mf_ID r = rq_Finding rq \<and> mf_Resolved r = None \<and> mf_Decision r = None) (sy_findings (dw_tables w)) = Some r"
    "t = set_findings (\<lambda>r. mf_ID r = rq_Finding rq \<and> mf_Resolved r = None \<and> mf_Decision r = None)
       (\<lambda>r. r\<lparr>mf_Decision := Some (rq_Actor rq, ResolutionTakeTheirs), mf_Reason := Some (rq_Reason rq)\<rparr>) (dw_tables w)"
proof -
  obtain g where g: "resolve_tx env rq w = (Inr g, w')" and settled: "\<not> settled"
    using assms(1,2) by (auto simp: handleResolveMergeFinding_def tx_answer_def Let_def split: sum.splits prod.splits if_splits)
  have read: "GetStandingMergeFinding (de_takes env ReadAgain) (rq_Finding rq) (dw_tables w) = Some f"
    using g assms(3) by (auto simp: resolve_tx_def GetStandingMergeFinding_def split: if_splits option.splits)
  obtain rows where rows: "adoptTargetValue env rq f (dw_allowances w) = (None, rows)"
    using g read assms(2) by (auto simp: resolve_tx_def performResolution_def Let_def split: prod.splits if_splits option.splits)
  obtain t where t: "RecordMergeDecision (de_takes env SaveDecision) (de_takes env ReadDecided) (rq_Finding rq) (rq_Actor rq) ResolutionTakeTheirs (rq_Reason rq) (dw_tables w) = (Inr g, t)"
      "w' = w\<lparr>dw_allowances := rows\<rparr>\<lparr>dw_tables := t\<rparr>"
    using g read assms(2) rows by (auto simp: resolve_tx_def performResolution_def Let_def split: prod.splits if_splits option.splits sum.splits)
  have "\<exists>r. find (\<lambda>r. mf_ID r = rq_Finding rq \<and> mf_Resolved r = None \<and> mf_Decision r = None) (sy_findings (dw_tables w)) = Some r \<and>
      t = set_findings (\<lambda>r. mf_ID r = rq_Finding rq \<and> mf_Resolved r = None \<and> mf_Decision r = None)
        (\<lambda>r. r\<lparr>mf_Decision := Some (rq_Actor rq, ResolutionTakeTheirs), mf_Reason := Some (rq_Reason rq)\<rparr>) (dw_tables w)"
    using t(1) by (auto simp: RecordMergeDecision_def Let_def split: if_splits option.splits)
  moreover have "w' = \<lparr>dw_tables = t, dw_allowances = rows\<rparr>" using t(2) by simp
  ultimately show thesis using that [OF settled rows] by blast
qed

text \<open>
  C35. Taking the target's value settles the difference. When a request to take what the target holds is answered well, the
  field is one of the lifecycle, the target had switched it off, one hold of that person on that target was recorded and nothing was queued; the
  finding still stands, decided by that actor. From then on, through every run of creations, lifts of other holds and sweeps, until the hold
  expires, and whatever happens to the roles, the mappings and the directory, the person resolves to the field switched off; and no
  pass that sees the target still hold it off finds anything of that field to take from somebody, so that it closes the finding under that decision.
\<close>

theorem taken_value_settles:
  assumes answered: "handleResolveMergeFinding env rq w = (ResolveDone settled f', w')" "rq_Resolution rq = ResolutionTakeTheirs"
    and found: "GetStandingMergeFinding True (rq_Finding rq) (dw_tables w) = Some f"
    and later: "\<forall>(t, e) \<in> set evs. t \<le> now \<and> \<not> lifts (de_id env) e" and past: "case rq_ExpiresAt rq of None \<Rightarrow> True | Some t \<Rightarrow> now < t"
    and s: "resolve_person (mf_SubjectID f) (mf_Target f) p maps now (allow_run evs (dw_allowances w')) profile = Inr s"
  shows "\<not> settled \<and> IsLifecycleField (mf_Field f) \<and> dw_allowances w' = dw_allowances w @ [insert_allowance (de_now env) (de_id env) (adopted_hold rq f)] \<and>
     sy_queue (dw_tables w') = sy_queue (dw_tables w) \<and>
     (\<exists>r \<in> set (sy_findings (dw_tables w')). mf_ID r = rq_Finding rq \<and> mf_Resolved r = None \<and> mf_Decision r = Some (rq_Actor rq, ResolutionTakeTheirs)) \<and>
     map_of (Desired s) (mf_Field f) = Some (boolJSON False) \<and>
     (\<forall>bases accounts b theirs. state_of accounts b = Some theirs \<longrightarrow> map_of theirs (mf_Field f) = Some (boolJSON False) \<longrightarrow>
        \<not> takes_away bases (mf_Target f) accounts b (Desired s) (mf_Field f))"
proof -
  let ?P = "\<lambda>r. mf_ID r = rq_Finding rq \<and> mf_Resolved r = None \<and> mf_Decision r = None"
  let ?d = "\<lambda>r. r\<lparr>mf_Decision := Some (rq_Actor rq, ResolutionTakeTheirs), mf_Reason := Some (rq_Reason rq)\<rparr>"
  obtain rows t r where parts: "\<not> settled" "adoptTargetValue env rq f (dw_allowances w) = (None, rows)" "w' = \<lparr>dw_tables = t, dw_allowances = rows\<rparr>"
      and r: "find ?P (sy_findings (dw_tables w)) = Some r" and t: "t = set_findings ?P ?d (dw_tables w)"
    by (rule taken_parts [OF answered found])
  note hold = adopt_ok [OF parts(2)]
  obtain a where a: "CreateAllowance (de_takes env WriteHold) (de_now env) (de_id env) (adopted_hold rq f) (dw_allowances w) = ((None, a), rows)" using hold(3) by blast
  let ?as = "AllowancesInForce now (mf_SubjectID f) (mf_Target f) (allow_run evs rows)"
  have names: "LifecycleSMBEnabled \<noteq> LifecycleEnabled" by (simp add: LifecycleEnabled_def LifecycleSMBEnabled_def)
  have "denies ?as (mf_Field f) ''true''"
    using recorded_hold_denies [OF a _ later] past by (simp add: adopted_hold_def runs_past_def)
  moreover have set: "s = resolve_set (mf_SubjectID f) (mf_Target f) (MappingsForRoles (mf_Target f) (effectiveRoleRefs p) maps) ?as profile"
    using s parts(3) by (simp add: ResolveEntitlements_def)
  ultimately have off: "map_of (Desired s) (mf_Field f) = Some (boolJSON False)"
    using hold(1) names unfolding set map_of_Desired [OF refl] by (auto simp: IsLifecycleField_def resolve_lifecycle)
  have "r \<in> set (sy_findings (dw_tables w))" "?P r" using r by (auto simp: find_Some_iff)
  then have "\<exists>x \<in> set (sy_findings t). mf_ID x = rq_Finding rq \<and> mf_Resolved x = None \<and> mf_Decision x = Some (rq_Actor rq, ResolutionTakeTheirs)"
    unfolding t set_findings_def by (intro bexI [of _ "?d r"]) (auto simp: image_iff)
  moreover have "\<not> takes_away bases (mf_Target f) accounts b (Desired s) (mf_Field f)"
    if "state_of accounts b = Some theirs" "map_of theirs (mf_Field f) = Some (boolJSON False)" for bases accounts b theirs
    using that off by (simp add: takes_away_def overwrites_def raw_at_def boolJSON_def)
  ultimately show ?thesis using parts(1,3) hold(1,4) off t by (simp add: set_findings_def)
qed

text \<open>An operator keeps the suspension somebody made on the target, to be reviewed; a sweep later the person still resolves to it.\<close>

definition taken_row :: MergeFinding where
  "taken_row = \<lparr>mf_ID = ''f2'', mf_Target = ''nas'', mf_SubjectID = ''u'', mf_Field = LifecycleEnabled, mf_Outcome = TheirsOnly, mf_Base = boolJSON True, mf_Ours = boolJSON True,
     mf_Theirs = boolJSON False, mf_Decision = None, mf_Reason = None, mf_Resolved = None\<rparr>"

definition taken_world :: decision_world where
  "taken_world = \<lparr>dw_tables = office_tables\<lparr>sy_findings := [taken_row]\<rparr>, dw_allowances = []\<rparr>"

definition taken_request :: resolve_request where
  "taken_request = \<lparr>rq_Finding = ''f2'', rq_Actor = ''op'', rq_Resolution = ResolutionTakeTheirs, rq_Reason = ''on leave'', rq_ExpiresAt = None, rq_ReviewDate = Some 90\<rparr>"

theorem taken_value_settles_witness:
  "\<exists>f' w' s. handleResolveMergeFinding (gone_env None) taken_request taken_world = (ResolveDone False f', w') \<and>
     resolve_person ''u'' ''nas'' demo_sources demo_mappings 50 (allow_run [(7, EvLapse ''x'')] (dw_allowances w')) (Inr None) = Inr s \<and>
     map_of (Desired s) LifecycleEnabled = Some (boolJSON False)"
proof -
  have "case handleResolveMergeFinding (gone_env None) taken_request taken_world of (ResolveDone settled f', w') \<Rightarrow> True | _ \<Rightarrow> False" by code_simp
  then obtain settled f' w' where run: "handleResolveMergeFinding (gone_env None) taken_request taken_world = (ResolveDone settled f', w')"
    by (auto split: prod.splits resolve_answer.splits)
  have rq: "rq_Resolution taken_request = ResolutionTakeTheirs" "rq_Finding taken_request = ''f2''" "rq_ExpiresAt taken_request = None" by (simp_all add: taken_request_def)
  have found: "GetStandingMergeFinding True (rq_Finding taken_request) (dw_tables taken_world) = Some taken_row"
    by (simp add: GetStandingMergeFinding_def rq taken_world_def taken_row_def)
  let ?evs = "[(7 :: time, EvLapse ''x'')]"
  have later: "\<forall>(t, e) \<in> set ?evs. t \<le> (50 :: time) \<and> \<not> lifts (de_id (gone_env None)) e" by (simp add: lifts_def)
  obtain s where s: "resolve_person (mf_SubjectID taken_row) (mf_Target taken_row) demo_sources demo_mappings 50 (allow_run ?evs (dw_allowances w')) (Inr None) = Inr s"
    by (simp add: ResolveEntitlements_def)
  note all = taken_value_settles [OF run rq(1) found later _ s]
  have "\<not> settled" "map_of (Desired s) LifecycleEnabled = Some (boolJSON False)" using all by (simp_all add: rq(3), simp add: taken_row_def)
  then show ?thesis using run s by (auto simp: taken_row_def)
qed

section \<open>What the surface offers\<close>

definition adoptable :: "MergeFinding \<Rightarrow> bool" where
  "adoptable f \<longleftrightarrow> mf_Outcome f \<noteq> DeletedUpstream \<and> IsLifecycleField (mf_Field f) \<and> \<not> isPermissive (mf_Theirs f)"

text \<open>
  Whatever can be taken is offered; and what is offered can be expressed unless the target's value is no boolean, as when the
  target stopped reporting the field.
\<close>

lemma adoptable_expressible:
  assumes "mf_Outcome f \<noteq> DeletedUpstream" "trim_space (rq_Reason rq) \<noteq> []"
  shows "fst (adoptTargetValue env rq f rows) \<noteq> Some ErrResolutionNotExpressible \<longleftrightarrow> adoptable f \<and> unmarshal_bool (mf_Theirs f) \<noteq> None"
  using assms
  by (auto simp: adoptable_def adoptTargetValue_def isPermissive_def split: option.splits prod.splits)

lemma offered_but_refused:
  assumes "mf_Outcome f = TheirsOnly" "IsLifecycleField (mf_Field f)" "mf_Theirs f = RawEmpty" "trim_space (rq_Reason rq) \<noteq> []"
  shows "adoptable f" "adoptTargetValue env rq f rows = (Some ErrResolutionNotExpressible, rows)"
  using assms by (simp_all add: adoptable_def adoptTargetValue_def isPermissive_def unmarshal_bool_def)

end
