(* ===== verification/Spec2Isabelle.thy ===== *)
theory Spec2Isabelle
  imports Plan_Outbox Delivery Claim_Diff Door Rate_Limit Addon_Op Mutation_Log Nas_Target Nas_Ops Nas_Entitled Merge_Decision
begin

text \<open>
  \<^bold>\<open>A verification library of Syndra\<close>, the access portal of a makerspace: who may reach
  what, what is owed to the systems outside because of it, and what a token says.

  \<^bold>\<open>The program.\<close> A Go backend (\<^verbatim>\<open>src/backend\<close>) keeps the sources of access in Postgres: direct
  grants, bundles, and mapping rules by which holding one role gives another. The
  \<^emph>\<open>closure\<close> of a person's sources under the rules is what they should hold. Every edit of a source is
  planned, rehearsed, bound to a fingerprint of what was read, and applied in one transaction that changes
  the source and puts rows into an outbox; the \<^emph>\<open>drain\<close> sends these rows to Zitadel and settles
  them. Applications learn of access through the claims of their tokens, which an action target shapes and serves while the
  database is out of reach. Add-ons are programs of their own beside a system; the one for a TrueNAS
  (\<^verbatim>\<open>src/addons/truenas\<close>) converges the accounts of a NAS onto what the backend asks for.

  \<^bold>\<open>Which theory models which part\<close> (paths under \<^verbatim>\<open>src/backend/internal\<close> unless they begin with
  \<^verbatim>\<open>addons/truenas\<close>). Each theory's header says more.
  \<^item> \<open>Go_Prelude\<close>: Go's maps as association lists, sorting, the text functions the code uses, and
    the collections of facts the components share.
  \<^item> \<open>Access\<close> (\<^verbatim>\<open>access/closure.go\<close>, \<open>people.go\<close>): the closure with ends. The loop ends, its
    value is reachability along active rules, and each end is the latest over the sources that reach a role.
  \<^item> \<open>Rule_Graph\<close> (\<^verbatim>\<open>db/validation.go\<close>): the cycle check is exact and keeps the rules acyclic.
  \<^item> \<open>Outbox\<close>, \<open>Cascade\<close>, \<open>Named_Write\<close> (\<^verbatim>\<open>db/propagation_enqueue.go\<close>, \<open>withdraw.go\<close>,
    \<open>cancel_gate.go\<close>, \<open>cascade*.go\<close>, \<open>services/cascade.go\<close>): the rows of a write and the queued
    changes they answer; what rule and bundle edits owe; the ledger of named writes. A cascade moves
    everybody from the old closure to the new one, and nothing unseen is cancelled.
  \<^item> \<open>Clock\<close>, \<open>Fingerprint\<close>, \<open>Bulk\<close>, \<open>Planner\<close>, \<open>Plan_Outbox\<close> (\<^verbatim>\<open>clock\<close>, \<^verbatim>\<open>services/fingerprint.go\<close>,
    \<open>services/bulk*.go\<close>, \<open>services/planapply\<close>): the rehearsal and the plan of a change, and their
    agreement with what is then written.
  \<^item> \<open>Extcall\<close>, \<open>Settle\<close>, \<open>Reconcile\<close>, \<open>Drain\<close>, \<open>Delivery\<close> (\<^verbatim>\<open>extcall\<close>, \<^verbatim>\<open>db/propagations.go\<close>,
    \<^verbatim>\<open>services/drain\<close>): claims and settles of the queue, one send with its retries and outcomes, and
    the passes of the drain: a row settled as applied was delivered, and under enough passes every row settles.
  \<^item> \<open>Rate_Limit\<close> (\<^verbatim>\<open>ratelimit\<close>): the token buckets and the daily budget.
  \<^item> \<open>Json\<close>, \<open>Claims\<close>, \<open>Claim_Diff\<close> (\<^verbatim>\<open>claims\<close>): the shape of a token, its check, its difference.
  \<^item> \<open>Lru\<close>, \<open>Claim_Plane\<close>, \<open>Door\<close> (\<^verbatim>\<open>claimserve\<close>, \<^verbatim>\<open>claimtel\<close>): the last known good facts, the answer, and
    the signature of a call.
  \<^item> \<open>Addon_Policy\<close>, \<open>Addon_Op\<close> (\<^verbatim>\<open>addons\<close>, \<^verbatim>\<open>services/addonop\<close>, \<^verbatim>\<open>db/addon_operations.go\<close>): the bound the
    policy puts on a manifest, and the dispatch of an operation: with authority only, and sent once.
  \<^item> \<open>Nas_Username\<close> (\<^verbatim>\<open>addons/truenas/username.go\<close>): the derived name of an account is always valid.
  \<^item> \<open>Mutation_Log\<close> (\<^verbatim>\<open>mutationlog.go\<close>): the chained log through failures, rotation and crashes.
  \<^item> \<open>Nas_Store\<close>, \<open>Nas_Apply\<close> (\<^verbatim>\<open>store.go\<close>, \<open>identity.go\<close>, \<open>subjects.go\<close>, \<open>apply.go\<close>, \<open>home.go\<close>,
    \<open>plan.go\<close>): bindings, account reads, the decision, the plan and the apply of one subject.
    \<open>Nas_Calls\<close> shows which calls an apply can make whatever the NAS answers; \<open>Nas_Target\<close> that it
    writes what was planned and, on a NAS that does what its calls say, reaches the desired state.
  \<^item> \<open>Nas_Ops\<close> (\<^verbatim>\<open>operations.go\<close>, \<open>lifecycle.go\<close>, \<open>main.go\<close>): passwords, purge, adoption, release, the
    memory of calls, and the handlers: an operation touches only the bound account, and a call replayed with its key runs once.
  \<^item> \<open>Entitlement\<close> (\<^verbatim>\<open>services/entitlement.go\<close>, \<^verbatim>\<open>db/allowances.go\<close>, \<open>mappings.go\<close>): allowances, and what a person should have on
    an add-on's system because of the roles they hold. \<open>Nas_Entitled\<close> joins it to the NAS: what the tables say is what an apply leaves there.
  \<^item> \<open>Merge\<close>, \<open>Addon_Sync\<close>, \<open>Merge_Decision\<close> (\<^verbatim>\<open>services/merge\<close>, \<^verbatim>\<open>services/drift/addon.go\<close>, \<open>handlers/merge_findings.go\<close> and
    their tables): the three-way comparison, the periodic reconcile of an add-on target, and what operators answer to
    its findings. A pass overwrites nobody's change and leaves a finding standing exactly where somebody has to decide; a finding is
    answered once however requests and passes interleave.
  \<^item> \<open>Log_Anchor\<close> (\<^verbatim>\<open>db/log_anchor.go\<close>): the backend's memory of an add-on's log: a log that goes back is found out,
    and the log of \<open>Mutation_Log\<close> never is.

  \<^bold>\<open>Interfaces.\<close> Locales state what one part needs of another, and each is interpreted on the model:
  \<open>cmp_order\<close> (a comparison function sorts), \<open>role_closure\<close> (what cascades need of the closure),
  \<open>recency_cache\<close> (what the plane needs of the last known good store), \<open>token_store\<close> (the limiter over
  a store, in memory and by the Redis script).

  \<^bold>\<open>What is a parameter.\<close> Code outside the repository is an argument: the Zitadel API (with the named
  contract \<open>reads_truly\<close>, \<open>writes_exactly\<close>, \<open>no_conflicts\<close>), whether the database takes a statement (\<open>db_takes\<close>), random
  numbers and record ids, the digest \<open>H\<close> (a theorem that needs it assumes no collision on the texts it compares), the
  message authentication code, the JSON of stored records (an encoder and a decoder), the replies of Redis, of
  an add-on and of the NAS (\<open>nas_env\<close>, with the contract \<open>reads_hold\<close>, \<open>writes_hold\<close>), what a reconcile and a decision
  meet (\<open>sync_env\<close>, \<open>decision_env\<close>), and which file system steps fail. Times are numbers where only their order matters.

  \<^bold>\<open>Bounds and fuel.\<close> The JSON recogniser runs on fuel \<open>2 * length + 2\<close> and the rune decoder on the length, both
  proved to be enough. Loops are recursion with termination proofs. Integers are unbounded except where
  the width is the point: the sequence numbers of the mutation log are \<open>64 word\<close>. The tables of fixed
  sizes (backoff, caps on reads, retention) are the constants of the code.

  \<^bold>\<open>Not modelled.\<close> SQL text beyond the statements translated into functions on rows; HTTP handlers, request
  decoding and pages; token verification; metrics, seeds and commands; and the parts the manifest lists as
  not modelled. Concurrency is modelled where the code relies on it (claims of rows, the record table of
  add-on operations, decisions on findings, appends of the log) as interleavings of whole statements.

  \<^bold>\<open>Plan.\<close> The order was the access core, the outbox and its drain, the claims plane, add-on
  operations, the NAS add-on, entitlements, and the reconcile of add-on targets with its findings. Next: the sweep of Zitadel and its triage; the
  drain to add-ons; stored plans; the publishing of claims.
\<close>

end
